(* ===== verification/DB_Prelude.thy ===== *)
theory DB_Prelude
  imports Main "HOL-Library.Word"
begin

text \<open>
  Shared vocabulary of the Dropbear development: machine types, fatal outcomes and the
  error-propagating composition of C statements, raw memory reads and writes, the
  big-endian 32-bit load and store of \<^verbatim>\<open>tomcrypt_macros.h\<close>, C strings, and the generic
  lemmas on words and lists that the component theories use.
\<close>

unbundle bit_operations_syntax

section \<open>Machine types\<close>

type_synonym u8 = "8 word"
type_synonym u32 = "32 word"
type_synonym bytes = "u8 list"

section \<open>Fatal outcomes\<close>

text \<open>
  A C function of Dropbear either returns or ends the process. \<open>Exit\<close> is
  \<^verbatim>\<open>dropbear_exit\<close> (failure status) and \<open>Close\<close> is \<^verbatim>\<open>dropbear_close\<close> (success status), each
  with the format string of the call; \<open>AssertFail\<close> is \<^verbatim>\<open>dropbear_assert\<close> with its
  condition. \<open>OutOfBounds\<close>, \<open>NullDeref\<close> and \<open>DivByZero\<close> are not outcomes of the code: they
  mark undefined behaviour (an access outside an object, a division by zero), and \<open>Diverge\<close> marks a
  loop whose next rounds would change nothing, so that it never ends. The safety theorems show
  that they do not happen.
\<close>

datatype fatal =
    Exit string
  | Close string
  | AssertFail string
  | OutOfBounds
  | NullDeref
  | DivByZero
  | Diverge

type_synonym 'a res = "fatal + 'a"

definition rbind :: "'a res \<Rightarrow> ('a \<Rightarrow> 'b res) \<Rightarrow> 'b res" where
  "rbind m f = (case m of Inl e \<Rightarrow> Inl e | Inr x \<Rightarrow> f x)"

definition dropbear_assert :: "string \<Rightarrow> bool \<Rightarrow> unit res" where
  "dropbear_assert what b = (if b then Inr () else Inl (AssertFail what))"

definition mem_err :: "fatal \<Rightarrow> bool" where
  "mem_err e \<longleftrightarrow> e = OutOfBounds \<or> e = NullDeref \<or> e = DivByZero"

text \<open>A result that is free of memory errors.\<close>

definition mem_safe :: "'a res \<Rightarrow> bool" where
  "mem_safe r = (case r of Inl e \<Rightarrow> \<not> mem_err e | Inr _ \<Rightarrow> True)"

section \<open>Raw memory\<close>

text \<open>Reading and writing \<open>n\<close> bytes of an object, as \<^verbatim>\<open>memcpy\<close> does, with the bounds checked.\<close>

definition mem_read :: "bytes \<Rightarrow> nat \<Rightarrow> nat \<Rightarrow> bytes res" where
  "mem_read d off n = (if off + n \<le> length d then Inr (take n (drop off d)) else Inl OutOfBounds)"

definition mem_write :: "bytes \<Rightarrow> nat \<Rightarrow> bytes \<Rightarrow> bytes res" where
  "mem_write d off bs =
     (if off + length bs \<le> length d
      then Inr (take off d @ bs @ drop (off + length bs) d) else Inl OutOfBounds)"

definition store32h :: "u32 \<Rightarrow> bytes" where
  "store32h x = [ucast (drop_bit 24 x), ucast (drop_bit 16 x), ucast (drop_bit 8 x), ucast x]"

definition load32h :: "bytes \<Rightarrow> u32" where
  "load32h y = push_bit 24 (ucast (y ! 0)) OR push_bit 16 (ucast (y ! 1))
             OR push_bit 8 (ucast (y ! 2)) OR ucast (y ! 3)"

text \<open>Unsigned remainder.\<close>

definition umod :: "u32 \<Rightarrow> u32 \<Rightarrow> u32 res" where
  "umod a b = (if b = 0 then Inl DivByZero else Inr (a mod b))"

section \<open>C strings\<close>

text \<open>
  A \<^verbatim>\<open>char *\<close> is the memory it points to. \<open>cstr\<close> is the string in it, up to the first NUL;
  \<open>lit\<close> is a string literal (without its terminator).
\<close>

definition cstr :: "bytes \<Rightarrow> bytes" where
  "cstr m = takeWhile (\<lambda>c. c \<noteq> 0) m"

definition lit :: "string \<Rightarrow> bytes" where
  "lit s = map of_char s"

section \<open>Lemmas\<close>

named_theorems wnat \<open>order on words as order on naturals\<close>

lemmas [wnat] = word_le_nat_alt word_less_nat_alt

subsection \<open>Sequencing\<close>

lemma rbind_simps [simp]: "rbind (Inl e) f = Inl e" "rbind (Inr x) f = f x"
  by (simp_all add: rbind_def)

lemma rbind_Inr_iff: "rbind m f = Inr y \<longleftrightarrow> (\<exists>x. m = Inr x \<and> f x = Inr y)"
  by (cases m) auto

lemma rbind_Inl_iff: "rbind m f = Inl e \<longleftrightarrow> m = Inl e \<or> (\<exists>x. m = Inr x \<and> f x = Inl e)"
  by (cases m) auto

lemma rbind_InrE [elim]:
  assumes "rbind m f = Inr y" obtains x where "m = Inr x" and "f x = Inr y"
  using assms by (cases m) auto

lemma rbind_assoc: "rbind (rbind m f) g = rbind m (\<lambda>x. rbind (f x) g)"
  by (cases m) simp_all

lemma rbind_cong [fundef_cong]:
  "m = m' \<Longrightarrow> (\<And>x. m' = Inr x \<Longrightarrow> f x = g x) \<Longrightarrow> rbind m f = rbind m' g"
  by (cases m') auto

lemma dropbear_assert_Inr [simp]: "dropbear_assert s b = Inr u \<longleftrightarrow> b"
  by (simp add: dropbear_assert_def)

lemma dropbear_assert_True [simp]: "b \<Longrightarrow> dropbear_assert s b = Inr ()"
  by (simp add: dropbear_assert_def)

lemma dropbear_assert_False [simp]: "\<not> b \<Longrightarrow> dropbear_assert s b = Inl (AssertFail s)"
  by (simp add: dropbear_assert_def)

lemma mem_err_simps [simp]:
  "\<not> mem_err (Exit s)" "\<not> mem_err (Close s)" "\<not> mem_err (AssertFail s)"
  "mem_err OutOfBounds" "mem_err NullDeref" "mem_err DivByZero"
  by (simp_all add: mem_err_def)

lemma mem_safe_simps [simp]: "mem_safe (Inr x)" "mem_safe (Inl e) \<longleftrightarrow> \<not> mem_err e"
  by (simp_all add: mem_safe_def)

lemma mem_safe_rbind:
  "mem_safe m \<Longrightarrow> (\<And>x. m = Inr x \<Longrightarrow> mem_safe (f x)) \<Longrightarrow> mem_safe (rbind m f)"
  by (cases m) auto

lemma mem_safe_assert [simp]: "mem_safe (dropbear_assert s b)"
  by (simp add: dropbear_assert_def)

subsection \<open>Memory\<close>

lemma mem_read_ok [simp]: "off + n \<le> length d \<Longrightarrow> mem_read d off n = Inr (take n (drop off d))"
  by (simp add: mem_read_def)

lemma mem_write_ok [simp]:
  "off + length bs \<le> length d \<Longrightarrow>
   mem_write d off bs = Inr (take off d @ bs @ drop (off + length bs) d)"
  by (simp add: mem_write_def)

lemma mem_write_length: "mem_write d off bs = Inr d' \<Longrightarrow> length d' = length d"
  by (auto simp: mem_write_def split: if_splits)

lemma length_store32h [simp]: "length (store32h x) = 4"
  by (simp add: store32h_def)

lemma load32h_store32h [simp]: "load32h (store32h x) = x"
proof (rule bit_word_eqI)
  fix n assume "n < LENGTH(32)"
  then have n: "n < 32" by simp
  consider "n < 8" | "8 \<le> n" "n < 16" | "16 \<le> n" "n < 24" | "24 \<le> n"
    by linarith
  then show "bit (load32h (store32h x)) n = bit x n"
    using n by cases (auto simp: load32h_def store32h_def bit_simps numeral_2_eq_2 numeral_3_eq_3)
qed

lemma load32h_append [simp]: "4 \<le> length y \<Longrightarrow> load32h (y @ z) = load32h y"
  by (cases y) (auto simp: load32h_def nth_append)

lemma load32h_take [simp]: "load32h (take 4 y) = load32h y"
  by (simp add: load32h_def)

lemma store32h_load32h:
  assumes "length y = 4" shows "store32h (load32h y) = y"
proof -
  obtain a b c d where y: "y = [a, b, c, d]"
    using assms by (auto simp: numeral_eq_Suc length_Suc_conv)
  have "bit (ucast (drop_bit 24 (load32h y)) :: u8) n = bit a n"
    "bit (ucast (drop_bit 16 (load32h y)) :: u8) n = bit b n"
    "bit (ucast (drop_bit 8 (load32h y)) :: u8) n = bit c n"
    "bit (ucast (load32h y) :: u8) n = bit d n" if "n < 8" for n
    using that by (auto simp: y load32h_def bit_simps dest: bit_imp_le_length)
  then show ?thesis
    by (auto simp: y store32h_def intro!: bit_word_eqI)
qed

subsection \<open>Words\<close>

lemma unat_add32: "unat a + unat b < 4294967296 \<Longrightarrow> unat (a + b :: u32) = unat a + unat b"
  by (simp add: unat_word_ariths)

lemma unat_sub32: "b \<le> a \<Longrightarrow> unat (a - b :: u32) = unat a - unat b"
  by (simp add: unat_sub)

lemma unat_of_nat32 [simp]: "n < 4294967296 \<Longrightarrow> unat (of_nat n :: u32) = n"
  by (simp add: unat_of_nat)

lemma unat_lt32: "unat (x :: u32) < 4294967296"
  using unsigned_less [of x, where ?'a = nat] by simp

lemma unat_min: "unat (min a b :: 'a::len word) = min (unat a) (unat b)"
  by (auto simp: min_def wnat)

subsection \<open>C strings\<close>

lemma cstr_append_nul [simp]: "0 \<notin> set s \<Longrightarrow> cstr (s @ 0 # t) = s"
  by (induction s) (auto simp: cstr_def)

lemma cstr_no_nul: "0 \<notin> set (cstr m)"
  by (auto simp: cstr_def dest: set_takeWhileD)

lemma cstr_length: "length (cstr m) \<le> length m"
  by (simp add: cstr_def length_takeWhile_le)

lemma length_lit [simp]: "length (lit s) = length s"
  by (simp add: lit_def)

end
