(* ===== verification/Buffer.thy ===== *)
theory Buffer
  imports DB_Prelude
begin

text \<open>
  The bounds-checked byte buffer of \<^verbatim>\<open>buffer.c\<close>/\<^verbatim>\<open>buffer.h\<close>, which every message is built in
  and parsed from. Lengths and positions are 32-bit words, so the overflow guards of the code
  (\<^verbatim>\<open>BUF_MAX_INCR\<close>, \<^verbatim>\<open>BUF_MAX_SIZE\<close>) are what keeps \<^verbatim>\<open>pos + incr\<close> from wrapping. A pointer
  returned by \<^verbatim>\<open>buf_getptr\<close>/\<^verbatim>\<open>buf_getwriteptr\<close> is an offset into the buffer's data.
  The second half proves the invariant \<open>buf_wf\<close>, what each operation does in terms of the
  unread bytes \<open>buf_rest\<close> and the stored bytes \<open>buf_content\<close>, that no sequence of calls
  touches memory outside the buffer, and the encode/decode round trips.
\<close>

section \<open>State\<close>

record buffer =
  buf_data :: bytes
  buf_len :: u32
  buf_pos :: u32
  buf_size :: u32

definition BUF_MAX_INCR :: u32 where "BUF_MAX_INCR = 1000000000"
definition BUF_MAX_SIZE :: u32 where "BUF_MAX_SIZE = 1000000000"
definition BUF_MAX_MPINT :: u32 where "BUF_MAX_MPINT = 8240 div 8"
definition MAX_STRING_LEN :: u32 where "MAX_STRING_LEN = max 9000 2400"

section \<open>Operations\<close>

definition buf_new :: "u32 \<Rightarrow> buffer res" where
  "buf_new sz =
     (if sz > BUF_MAX_SIZE then Inl (Exit ''buf->size too big'')
      else Inr \<lparr>buf_data = replicate (unat sz) 0, buf_len = 0, buf_pos = 0, buf_size = sz\<rparr>)"

text \<open>Overwriting the contents before the buffer is freed.\<close>

definition buf_burn_free :: "buffer \<Rightarrow> bytes" where
  "buf_burn_free b = replicate (unat (buf_size b)) 0"

text \<open>\<open>junk\<close> is what \<^verbatim>\<open>realloc\<close> leaves in the bytes it adds.\<close>

definition buf_resize :: "(nat \<Rightarrow> u8) \<Rightarrow> buffer \<Rightarrow> u32 \<Rightarrow> buffer res" where
  "buf_resize junk b newsize =
     (if newsize > BUF_MAX_SIZE then Inl (Exit ''buf->size too big'')
      else Inr \<lparr>buf_data = map (\<lambda>i. if i < length (buf_data b) then buf_data b ! i else junk i)
                             [0..<unat newsize],
                buf_len = min newsize (buf_len b),
                buf_pos = min newsize (buf_pos b),
                buf_size = newsize\<rparr>)"

definition buf_newcopy :: "buffer \<Rightarrow> buffer res" where
  "buf_newcopy b =
     rbind (buf_new (buf_len b)) (\<lambda>ret.
     let ret = ret\<lparr>buf_len := buf_len b\<rparr> in
     if buf_len b > 0
     then rbind (mem_read (buf_data b) 0 (unat (buf_len b))) (\<lambda>src.
          rbind (mem_write (buf_data ret) 0 src) (\<lambda>d. Inr (ret\<lparr>buf_data := d\<rparr>)))
     else Inr ret)"

definition buf_setlen :: "buffer \<Rightarrow> u32 \<Rightarrow> buffer res" where
  "buf_setlen b n =
     (if n > buf_size b then Inl (Exit ''Bad buf_setlen'')
      else Inr (b\<lparr>buf_len := n, buf_pos := min (buf_pos b) n\<rparr>))"

definition buf_incrlen :: "buffer \<Rightarrow> u32 \<Rightarrow> buffer res" where
  "buf_incrlen b incr =
     (if incr > BUF_MAX_INCR \<or> buf_len b + incr > buf_size b then Inl (Exit ''Bad buf_incrlen'')
      else Inr (b\<lparr>buf_len := buf_len b + incr\<rparr>))"

definition buf_setpos :: "buffer \<Rightarrow> u32 \<Rightarrow> buffer res" where
  "buf_setpos b p =
     (if p > buf_len b then Inl (Exit ''Bad buf_setpos'') else Inr (b\<lparr>buf_pos := p\<rparr>))"

definition buf_incrwritepos :: "buffer \<Rightarrow> u32 \<Rightarrow> buffer res" where
  "buf_incrwritepos b incr =
     (if incr > BUF_MAX_INCR \<or> buf_pos b + incr > buf_size b
      then Inl (Exit ''Bad buf_incrwritepos'')
      else let b = b\<lparr>buf_pos := buf_pos b + incr\<rparr> in
           Inr (if buf_pos b > buf_len b then b\<lparr>buf_len := buf_pos b\<rparr> else b))"

definition buf_incrpos :: "buffer \<Rightarrow> u32 \<Rightarrow> buffer res" where
  "buf_incrpos b incr =
     (if incr > BUF_MAX_INCR \<or> buf_pos b + incr > buf_len b then Inl (Exit ''Bad buf_incrpos'')
      else Inr (b\<lparr>buf_pos := buf_pos b + incr\<rparr>))"

definition buf_decrpos :: "buffer \<Rightarrow> u32 \<Rightarrow> buffer res" where
  "buf_decrpos b decr =
     (if decr > buf_pos b then Inl (Exit ''Bad buf_decrpos'')
      else Inr (b\<lparr>buf_pos := buf_pos b - decr\<rparr>))"

definition buf_getbyte :: "buffer \<Rightarrow> (u8 \<times> buffer) res" where
  "buf_getbyte b =
     (if buf_pos b \<ge> buf_len b then Inl (Exit ''Bad buf_getbyte'')
      else rbind (mem_read (buf_data b) (unat (buf_pos b)) 1) (\<lambda>c.
           Inr (hd c, b\<lparr>buf_pos := buf_pos b + 1\<rparr>)))"

definition buf_getbool :: "buffer \<Rightarrow> (bool \<times> buffer) res" where
  "buf_getbool b = rbind (buf_getbyte b) (\<lambda>(c, b). Inr (c \<noteq> 0, b))"

definition buf_putbyte :: "buffer \<Rightarrow> u8 \<Rightarrow> buffer res" where
  "buf_putbyte b val =
     rbind (if buf_pos b \<ge> buf_len b then buf_incrlen b 1 else Inr b) (\<lambda>b.
     rbind (mem_write (buf_data b) (unat (buf_pos b)) [val]) (\<lambda>d.
     Inr (b\<lparr>buf_data := d, buf_pos := buf_pos b + 1\<rparr>)))"

definition buf_getptr :: "buffer \<Rightarrow> u32 \<Rightarrow> nat res" where
  "buf_getptr b n =
     (if n > BUF_MAX_INCR \<or> buf_pos b + n > buf_len b then Inl (Exit ''Bad buf_getptr'')
      else Inr (unat (buf_pos b)))"

definition buf_getwriteptr :: "buffer \<Rightarrow> u32 \<Rightarrow> nat res" where
  "buf_getwriteptr b n =
     (if n > BUF_MAX_INCR \<or> buf_pos b + n > buf_size b then Inl (Exit ''Bad buf_getwriteptr'')
      else Inr (unat (buf_pos b)))"

definition buf_getint :: "buffer \<Rightarrow> (u32 \<times> buffer) res" where
  "buf_getint b =
     rbind (buf_getptr b 4) (\<lambda>p.
     rbind (mem_read (buf_data b) p 4) (\<lambda>y.
     rbind (buf_incrpos b 4) (\<lambda>b.
     Inr (load32h y, b))))"

definition buf_putint :: "buffer \<Rightarrow> u32 \<Rightarrow> buffer res" where
  "buf_putint b val =
     rbind (buf_getwriteptr b 4) (\<lambda>p.
     rbind (mem_write (buf_data b) p (store32h val)) (\<lambda>d.
     buf_incrwritepos (b\<lparr>buf_data := d\<rparr>) 4))"

text \<open>
  \<^verbatim>\<open>buf_putbytes\<close> copies \<open>n\<close> bytes from the memory \<open>src\<close>, which must hold as many.
\<close>

definition buf_putbytes :: "buffer \<Rightarrow> bytes \<Rightarrow> u32 \<Rightarrow> buffer res" where
  "buf_putbytes b src n =
     rbind (buf_getwriteptr b n) (\<lambda>p.
     rbind (mem_read src 0 (unat n)) (\<lambda>bs.
     rbind (mem_write (buf_data b) p bs) (\<lambda>d.
     buf_incrwritepos (b\<lparr>buf_data := d\<rparr>) n)))"

definition buf_putstring :: "buffer \<Rightarrow> bytes \<Rightarrow> u32 \<Rightarrow> buffer res" where
  "buf_putstring b str n = rbind (buf_putint b n) (\<lambda>b. buf_putbytes b str n)"

definition buf_putbufstring :: "buffer \<Rightarrow> buffer \<Rightarrow> buffer res" where
  "buf_putbufstring b buf_str = buf_putstring b (buf_data buf_str) (buf_len buf_str)"

text \<open>
  \<^verbatim>\<open>buf_getstring\<close> returns the allocated memory (the string and its NUL) and the length.
\<close>

definition buf_getstring :: "buffer \<Rightarrow> (bytes \<times> u32 \<times> buffer) res" where
  "buf_getstring b =
     rbind (buf_getint b) (\<lambda>(n, b).
     if n > MAX_STRING_LEN then Inl (Exit ''String too long'')
     else rbind (buf_getptr b n) (\<lambda>src.
          rbind (mem_read (buf_data b) src (unat n)) (\<lambda>ret.
          rbind (buf_incrpos b n) (\<lambda>b.
          Inr (ret @ [0], n, b)))))"

definition buf_getstringbuf_int :: "buffer \<Rightarrow> bool \<Rightarrow> (buffer \<times> buffer) res" where
  "buf_getstringbuf_int b incllen =
     rbind (buf_getint b) (\<lambda>(n, b).
     if n > MAX_STRING_LEN then Inl (Exit ''String too long'')
     else rbind (buf_new (n + (if incllen then 4 else 0))) (\<lambda>ret.
          rbind (if incllen then buf_putint ret n else Inr ret) (\<lambda>ret.
          rbind (buf_getwriteptr ret n) (\<lambda>dst.
          rbind (buf_getptr b n) (\<lambda>src.
          rbind (mem_read (buf_data b) src (unat n)) (\<lambda>bs.
          rbind (mem_write (buf_data ret) dst bs) (\<lambda>d.
          rbind (buf_incrpos b n) (\<lambda>b.
          rbind (buf_incrlen (ret\<lparr>buf_data := d\<rparr>) n) (\<lambda>ret.
          rbind (buf_setpos ret 0) (\<lambda>ret.
          Inr (ret, b)))))))))))"

definition buf_getstringbuf :: "buffer \<Rightarrow> (buffer \<times> buffer) res" where
  "buf_getstringbuf b = buf_getstringbuf_int b False"

definition buf_getbuf :: "buffer \<Rightarrow> (buffer \<times> buffer) res" where
  "buf_getbuf b = buf_getstringbuf_int b True"

definition buf_getptrcopy :: "buffer \<Rightarrow> u32 \<Rightarrow> buffer res" where
  "buf_getptrcopy b n =
     rbind (buf_getptr b n) (\<lambda>src.
     rbind (buf_new n) (\<lambda>ret.
     rbind (buf_putbytes ret (drop src (buf_data b)) n) (\<lambda>ret.
     buf_setpos ret 0)))"

definition buf_eatstring :: "buffer \<Rightarrow> buffer res" where
  "buf_eatstring b = rbind (buf_getint b) (\<lambda>(n, b). buf_incrpos b n)"

section \<open>Multi-precision integers\<close>

text \<open>
  A libtommath \<^verbatim>\<open>mp_int\<close> is its value. \<^verbatim>\<open>mp_count_bits\<close>, \<^verbatim>\<open>mp_ubin_size\<close>, \<^verbatim>\<open>mp_to_ubin\<close> and
  \<^verbatim>\<open>mp_from_ubin\<close> follow the loops of the library on that value: shifting a digit vector by
  eight bits is a division or multiplication by 256. Allocation failure is not modelled.
\<close>

type_synonym mp_int = int

fun count_bits :: "nat \<Rightarrow> nat" where
  "count_bits q = (if q = 0 then 0 else Suc (count_bits (q div 2)))"

definition mp_count_bits :: "mp_int \<Rightarrow> nat" where
  "mp_count_bits a = count_bits (nat \<bar>a\<bar>)"

definition mp_ubin_size :: "mp_int \<Rightarrow> nat" where
  "mp_ubin_size a =
     (let sz = mp_count_bits a in sz div 8 + (if sz mod 8 \<noteq> 0 then 1 else 0))"

fun mp_to_ubin_loop :: "nat \<Rightarrow> nat \<Rightarrow> bytes \<Rightarrow> bytes" where
  "mp_to_ubin_loop 0 t out = out"
| "mp_to_ubin_loop (Suc x) t out = mp_to_ubin_loop x (t div 256) (of_nat (t mod 256) # out)"

definition mp_to_ubin :: "mp_int \<Rightarrow> nat \<Rightarrow> bytes option" where
  "mp_to_ubin a maxlen =
     (if mp_ubin_size a > maxlen then None
      else Some (mp_to_ubin_loop (mp_ubin_size a) (nat \<bar>a\<bar>) []))"

definition mp_from_ubin :: "bytes \<Rightarrow> mp_int" where
  "mp_from_ubin bs = int (foldl (\<lambda>a c. a * 256 + unat c) 0 bs)"

definition buf_putmpint :: "buffer \<Rightarrow> mp_int \<Rightarrow> buffer res" where
  "buf_putmpint b mp =
     (if mp < 0 then Inl (Exit ''negative bignum'')
      else let bits = mp_count_bits mp;
               pad = (if mp \<noteq> 0 \<and> bits mod 8 = 0 then 1 else 0);
               n = (if mp = 0 then 0 else bits div 8 + 1) in
           rbind (buf_putint b (of_nat n)) (\<lambda>b.
           if n > 0 then
             rbind (if pad = 1 then buf_putbyte b 0 else Inr b) (\<lambda>b.
             rbind (buf_getwriteptr b (of_nat (n - pad))) (\<lambda>p.
             case mp_to_ubin mp (n - pad) of None \<Rightarrow> Inl (Exit ''mpint error'')
             | Some bs \<Rightarrow>
                 rbind (mem_write (buf_data b) p bs) (\<lambda>d.
                 buf_incrwritepos (b\<lparr>buf_data := d\<rparr>) (of_nat (length bs)))))
           else Inr b))"

text \<open>\<open>None\<close> is \<^verbatim>\<open>DROPBEAR_FAILURE\<close>; the buffer is returned as the code leaves it.\<close>

definition buf_getmpint :: "buffer \<Rightarrow> (mp_int option \<times> buffer) res" where
  "buf_getmpint b =
     rbind (buf_getint b) (\<lambda>(n, b).
     if n = 0 then Inr (Some 0, b)
     else if n > BUF_MAX_MPINT then Inr (None, b)
     else rbind (buf_getptr b 1) (\<lambda>p.
          rbind (mem_read (buf_data b) p 1) (\<lambda>top.
          if bit (hd top) 7 then Inr (None, b)
          else rbind (buf_getptr b n) (\<lambda>p.
               rbind (mem_read (buf_data b) p (unat n)) (\<lambda>bs.
               rbind (buf_incrpos b n) (\<lambda>b.
               Inr (Some (mp_from_ubin bs), b)))))))"

declare count_bits.simps [simp del]

section \<open>Invariant and views\<close>

definition buf_wf :: "buffer \<Rightarrow> bool" where
  "buf_wf b \<longleftrightarrow> length (buf_data b) = unat (buf_size b) \<and> buf_pos b \<le> buf_len b
     \<and> buf_len b \<le> buf_size b \<and> buf_size b \<le> BUF_MAX_SIZE"

text \<open>The bytes in use, and those of them not yet read.\<close>

definition buf_content :: "buffer \<Rightarrow> bytes" where
  "buf_content b = take (unat (buf_len b)) (buf_data b)"

definition buf_rest :: "buffer \<Rightarrow> bytes" where
  "buf_rest b = drop (unat (buf_pos b)) (buf_content b)"

lemmas buf_consts = BUF_MAX_INCR_def BUF_MAX_SIZE_def BUF_MAX_MPINT_def MAX_STRING_LEN_def

lemma MAX_STRING_LEN_nat [simp]: "unat MAX_STRING_LEN = 9000"
  by (simp add: MAX_STRING_LEN_def max_def)

lemma buf_wf_bounds:
  assumes "buf_wf b"
  shows "length (buf_data b) = unat (buf_size b)" "unat (buf_pos b) \<le> unat (buf_len b)"
    "unat (buf_len b) \<le> unat (buf_size b)" "unat (buf_size b) \<le> 1000000000"
    "unat (buf_pos b) \<le> 1000000000" "unat (buf_len b) \<le> 1000000000"
  using assms by (auto simp: buf_wf_def BUF_MAX_SIZE_def wnat)

text \<open>The overflow backstop of the code is exact: with positions and limits of at most
  \<open>10^9\<close> the guard holds precisely when the sum, taken without wrap-around, is too big.\<close>

lemma incr_guard:
  assumes "unat p \<le> 1000000000" "unat m \<le> 1000000000"
  shows "(n > BUF_MAX_INCR \<or> p + n > m) \<longleftrightarrow> unat m < unat p + unat n"
proof (cases "unat n \<le> 1000000000")
  case True
  then have "unat (p + n) = unat p + unat n"
    using assms by (intro unat_add32) linarith
  with True show ?thesis by (simp add: BUF_MAX_INCR_def wnat)
next
  case False
  with assms show ?thesis by (simp add: BUF_MAX_INCR_def wnat)
qed

lemma unat_incr:
  assumes "unat p + unat n \<le> 1000000000" shows "unat (p + n :: u32) = unat p + unat n"
  using assms by (intro unat_add32) linarith

lemma buf_content_length [simp]: "buf_wf b \<Longrightarrow> length (buf_content b) = unat (buf_len b)"
  by (simp add: buf_content_def buf_wf_bounds)

lemma buf_rest_length:
  "buf_wf b \<Longrightarrow> length (buf_rest b) = unat (buf_len b) - unat (buf_pos b)"
  by (simp add: buf_rest_def)

lemma buf_rest_avail:
  "buf_wf b \<Longrightarrow> n \<le> length (buf_rest b) \<longleftrightarrow> unat (buf_pos b) + n \<le> unat (buf_len b)"
  using buf_wf_bounds [of b] by (auto simp: buf_rest_length)

lemma buf_data_slice:
  assumes "buf_wf b" "unat (buf_pos b) + n \<le> unat (buf_len b)"
  shows "take n (drop (unat (buf_pos b)) (buf_data b)) = take n (buf_rest b)"
  using assms by (simp add: buf_rest_def buf_content_def drop_take min_def)

section \<open>What each operation does\<close>

text \<open>
  Under \<open>buf_wf\<close> the reading operations consume a prefix of \<open>buf_rest\<close>, and fail exactly when
  it is too short; the writing operations overwrite at the position and fail exactly when the
  allocated size is too small.
\<close>

definition buf_adv :: "buffer \<Rightarrow> nat \<Rightarrow> buffer" where
  "buf_adv b n = b\<lparr>buf_pos := buf_pos b + of_nat n\<rparr>"

lemma buf_adv_fields [simp]:
  "buf_data (buf_adv b n) = buf_data b" "buf_len (buf_adv b n) = buf_len b"
  "buf_size (buf_adv b n) = buf_size b" "buf_content (buf_adv b n) = buf_content b"
  by (simp_all add: buf_adv_def buf_content_def)

lemma buf_adv_pos:
  assumes "buf_wf b" "n \<le> length (buf_rest b)"
  shows "unat (buf_pos (buf_adv b n)) = unat (buf_pos b) + n"
  using assms buf_wf_bounds [of b] by (simp add: buf_adv_def buf_rest_avail unat_incr)

lemma buf_adv_wf [intro]:
  assumes "buf_wf b" "n \<le> length (buf_rest b)" shows "buf_wf (buf_adv b n)"
proof -
  have "unat (buf_pos (buf_adv b n)) \<le> unat (buf_len b)"
    using assms by (simp only: buf_adv_pos buf_rest_avail)
  then show ?thesis
    using assms(1) by (simp add: buf_wf_def wnat)
qed

lemma buf_adv_rest:
  "buf_wf b \<Longrightarrow> n \<le> length (buf_rest b) \<Longrightarrow> buf_rest (buf_adv b n) = drop n (buf_rest b)"
  by (simp add: buf_rest_def buf_adv_pos add.commute)

lemma buf_adv_adv: "buf_adv (buf_adv b m) n = buf_adv b (m + n)"
  by (simp add: buf_adv_def add.assoc)

lemma buf_adv_0 [simp]: "buf_adv b 0 = b"
  by (simp add: buf_adv_def)

named_theorems buf_eqs \<open>buffer operations on well-formed buffers\<close>

lemma buf_incrpos_eq [buf_eqs]:
  assumes "buf_wf b"
  shows "buf_incrpos b n = (if unat n \<le> length (buf_rest b) then Inr (buf_adv b (unat n))
    else Inl (Exit ''Bad buf_incrpos''))"
  using assms buf_wf_bounds [OF assms]
  by (simp add: buf_incrpos_def buf_adv_def incr_guard not_less buf_rest_avail)

lemma buf_getptr_eq [buf_eqs]:
  assumes "buf_wf b"
  shows "buf_getptr b n = (if unat n \<le> length (buf_rest b) then Inr (unat (buf_pos b))
    else Inl (Exit ''Bad buf_getptr''))"
  using assms buf_wf_bounds [OF assms]
  by (simp add: buf_getptr_def incr_guard not_less buf_rest_avail)

lemma buf_getwriteptr_eq [buf_eqs]:
  assumes "buf_wf b"
  shows "buf_getwriteptr b n =
    (if unat (buf_pos b) + unat n \<le> unat (buf_size b) then Inr (unat (buf_pos b))
     else Inl (Exit ''Bad buf_getwriteptr''))"
  using buf_wf_bounds [OF assms]
  by (simp add: buf_getwriteptr_def incr_guard not_less)

lemma buf_read_eq:
  assumes "buf_wf b" "n \<le> length (buf_rest b)"
  shows "mem_read (buf_data b) (unat (buf_pos b)) n = Inr (take n (buf_rest b))"
  using assms buf_wf_bounds [OF assms(1)]
  by (simp add: buf_rest_avail buf_data_slice)

lemma buf_getbyte_eq [buf_eqs]:
  assumes "buf_wf b"
  shows "buf_getbyte b = (case buf_rest b of [] \<Rightarrow> Inl (Exit ''Bad buf_getbyte'')
    | c # _ \<Rightarrow> Inr (c, buf_adv b 1))"
proof (cases "buf_rest b")
  case Nil
  then have "buf_len b \<le> buf_pos b"
    using assms by (metis buf_rest_length diff_is_0_eq list.size(3) word_le_nat_alt)
  with Nil show ?thesis by (simp add: buf_getbyte_def)
next
  case (Cons c r)
  then have l: "1 \<le> length (buf_rest b)" by simp
  then have "\<not> buf_len b \<le> buf_pos b"
    using assms by (simp add: wnat buf_rest_length)
  then have "buf_getbyte b = Inr (hd (take 1 (buf_rest b)), b\<lparr>buf_pos := buf_pos b + 1\<rparr>)"
    using buf_read_eq [OF assms l] by (simp add: buf_getbyte_def del: mem_read_ok)
  with Cons show ?thesis by (simp add: buf_adv_def)
qed

lemma buf_getint_eq [buf_eqs]:
  assumes "buf_wf b"
  shows "buf_getint b =
    (if 4 \<le> length (buf_rest b) then Inr (load32h (buf_rest b), buf_adv b 4)
     else Inl (Exit ''Bad buf_getptr''))"
  using assms
  by (simp add: buf_getint_def buf_eqs buf_read_eq buf_adv_def del: mem_read_ok)

lemma buf_getstring_eq:
  assumes "buf_wf b"
  shows "buf_getstring b =
    (let r = buf_rest b; n = load32h r in
     if length r < 4 then Inl (Exit ''Bad buf_getptr'')
     else if unat n > 9000 then Inl (Exit ''String too long'')
     else if length r < 4 + unat n then Inl (Exit ''Bad buf_getptr'')
     else Inr (take (unat n) (drop 4 r) @ [0], n, buf_adv b (4 + unat n)))"
proof -
  have w: "4 \<le> length (buf_rest b) \<Longrightarrow> buf_wf (buf_adv b 4)" using assms by blast
  have r: "4 \<le> length (buf_rest b) \<Longrightarrow> buf_rest (buf_adv b 4) = drop 4 (buf_rest b)"
    using assms by (rule buf_adv_rest)
  have m: "MAX_STRING_LEN < n \<longleftrightarrow> 9000 < unat n" for n
    by (simp add: word_less_nat_alt)
  show ?thesis
    using buf_read_eq [of "buf_adv b 4"] w r
    by (auto simp: buf_getstring_def buf_eqs assms Let_def not_less m buf_adv_adv
        simp del: mem_read_ok)
qed

lemma buf_eatstring_eq:
  assumes "buf_wf b"
  shows "buf_eatstring b =
    (let r = buf_rest b; n = load32h r in
     if length r < 4 then Inl (Exit ''Bad buf_getptr'')
     else if length r < 4 + unat n then Inl (Exit ''Bad buf_incrpos'')
     else Inr (buf_adv b (4 + unat n)))"
proof -
  have w: "4 \<le> length (buf_rest b) \<Longrightarrow> buf_wf (buf_adv b 4)" using assms by blast
  have r: "4 \<le> length (buf_rest b) \<Longrightarrow> buf_rest (buf_adv b 4) = drop 4 (buf_rest b)"
    using assms by (rule buf_adv_rest)
  show ?thesis
    using w r by (auto simp: buf_eatstring_def buf_eqs assms Let_def not_less buf_adv_adv)
qed

subsection \<open>Writing\<close>

text \<open>Writing \<open>bs\<close> at the position: the effect of every \<^verbatim>\<open>buf_put...\<close>.\<close>

definition buf_put :: "buffer \<Rightarrow> bytes \<Rightarrow> buffer" where
  "buf_put b bs = (let p = unat (buf_pos b); q = p + length bs in
     b\<lparr>buf_data := take p (buf_data b) @ bs @ drop q (buf_data b),
       buf_pos := of_nat q, buf_len := of_nat (max q (unat (buf_len b)))\<rparr>)"

definition buf_fits :: "buffer \<Rightarrow> nat \<Rightarrow> bool" where
  "buf_fits b n \<longleftrightarrow> unat (buf_pos b) + n \<le> unat (buf_size b)"

lemma buf_fits_mono: "buf_fits b n \<Longrightarrow> m \<le> n \<Longrightarrow> buf_fits b m"
  by (simp add: buf_fits_def)

lemma buf_put_size [simp]: "buf_size (buf_put b bs) = buf_size b"
  by (simp add: buf_put_def Let_def)

lemma buf_put_pos:
  "buf_wf b \<Longrightarrow> buf_fits b (length bs) \<Longrightarrow>
   unat (buf_pos (buf_put b bs)) = unat (buf_pos b) + length bs"
  using buf_wf_bounds [of b] by (simp add: buf_put_def Let_def buf_fits_def del: of_nat_add)

lemma buf_put_len:
  "buf_wf b \<Longrightarrow> buf_fits b (length bs) \<Longrightarrow>
   unat (buf_len (buf_put b bs)) = max (unat (buf_pos b) + length bs) (unat (buf_len b))"
  using buf_wf_bounds [of b] by (simp add: buf_put_def Let_def buf_fits_def del: of_nat_add)

lemma buf_put_wf [intro]:
  assumes "buf_wf b" "buf_fits b (length bs)" shows "buf_wf (buf_put b bs)"
proof -
  have "length (buf_data (buf_put b bs)) = unat (buf_size b)"
    using assms buf_wf_bounds [OF assms(1)] by (simp add: buf_put_def Let_def buf_fits_def)
  with assms buf_wf_bounds [OF assms(1)] show ?thesis
    using buf_put_pos [OF assms] buf_put_len [OF assms]
    by (simp add: buf_wf_def [of "buf_put b bs"] wnat buf_fits_def BUF_MAX_SIZE_def)
qed

lemma buf_put_Nil [simp]: "buf_wf b \<Longrightarrow> buf_put b [] = b"
  using buf_wf_bounds [of b] by (simp add: buf_put_def max_def)

lemma buf_put_fits:
  "buf_wf b \<Longrightarrow> buf_fits b (length bs + n) \<Longrightarrow> buf_fits (buf_put b bs) n"
  using buf_put_pos [of b bs] by (simp add: buf_fits_def)

lemma buf_put_fits_iff:
  "buf_wf b \<Longrightarrow> buf_fits b (length bs) \<Longrightarrow> buf_fits (buf_put b bs) n \<longleftrightarrow> buf_fits b (length bs + n)"
  using buf_put_pos [of b bs] by (simp add: buf_fits_def add.assoc)

lemma buf_put_put:
  assumes "buf_wf b" "buf_fits b (length xs + length ys)"
  shows "buf_put (buf_put b xs) ys = buf_put b (xs @ ys)"
proof -
  note bd = buf_wf_bounds [OF assms(1)]
  have f: "buf_fits b (length xs)" using assms(2) buf_fits_mono by fastforce
  have d: "buf_data (buf_put b xs) = take (unat (buf_pos b)) (buf_data b) @ xs
       @ drop (unat (buf_pos b) + length xs) (buf_data b)"
    by (simp add: buf_put_def Let_def)
  have p: "unat (buf_pos b) \<le> length (buf_data b)" using bd by linarith
  show ?thesis
    unfolding buf_put_def [of "buf_put b xs"] Let_def buf_put_pos [OF assms(1) f]
      buf_put_len [OF assms(1) f] d
    using p by (simp add: buf_put_def Let_def add.commute add.left_commute max.assoc max_def)
qed

lemma buf_put_content:
  assumes "buf_wf b" "buf_fits b (length bs)"
  shows "buf_content (buf_put b bs) = take (unat (buf_pos b)) (buf_content b) @ bs
    @ drop (unat (buf_pos b) + length bs) (buf_content b)"
proof -
  note bd = buf_wf_bounds [OF assms(1)]
  have d: "buf_data (buf_put b bs) = take (unat (buf_pos b)) (buf_data b) @ bs
       @ drop (unat (buf_pos b) + length bs) (buf_data b)"
    by (simp add: buf_put_def Let_def)
  have p: "unat (buf_pos b) \<le> length (buf_data b)" "unat (buf_pos b) \<le> unat (buf_len b)"
    using bd by linarith+
  show ?thesis
    using p unfolding buf_content_def buf_put_len [OF assms] d
    by (auto simp: min_def max_def drop_take)
qed

lemma buf_incrwritepos_eq [buf_eqs]:
  assumes "buf_wf b"
  shows "buf_incrwritepos b n = (if buf_fits b (unat n)
    then Inr (b\<lparr>buf_pos := of_nat (unat (buf_pos b) + unat n),
                buf_len := of_nat (max (unat (buf_pos b) + unat n) (unat (buf_len b)))\<rparr>)
    else Inl (Exit ''Bad buf_incrwritepos''))"
proof (cases "buf_fits b (unat n)")
  case True
  then have "unat (buf_pos b + n) = unat (buf_pos b) + unat n"
    using buf_wf_bounds [OF assms] by (intro unat_incr) (simp add: buf_fits_def)
  with True show ?thesis
    using buf_wf_bounds [OF assms] incr_guard [of "buf_pos b" "buf_size b" n]
    by (simp add: buf_incrwritepos_def buf_fits_def Let_def wnat max_def)
next
  case False
  then show ?thesis
    using buf_wf_bounds [OF assms] by (simp add: buf_incrwritepos_def incr_guard buf_fits_def)
qed

lemma buf_wf_data: "buf_wf b \<Longrightarrow> length d = length (buf_data b) \<Longrightarrow> buf_wf (b\<lparr>buf_data := d\<rparr>)"
  by (simp add: buf_wf_def)

text \<open>Writing through a pointer and advancing is \<open>buf_put\<close>.\<close>

lemma write_advance:
  assumes "buf_wf b" "buf_fits b (length bs)" "unat n = length bs"
  shows "rbind (mem_write (buf_data b) (unat (buf_pos b)) bs)
           (\<lambda>d. buf_incrwritepos (b\<lparr>buf_data := d\<rparr>) n) = Inr (buf_put b bs)"
proof -
  have le: "unat (buf_pos b) + length bs \<le> length (buf_data b)"
    using assms buf_wf_bounds [OF assms(1)] by (simp add: buf_fits_def)
  then have "length (take (unat (buf_pos b)) (buf_data b) @ bs
      @ drop (unat (buf_pos b) + length bs) (buf_data b)) = length (buf_data b)"
    by simp
  note w = buf_wf_data [OF assms(1) this]
  show ?thesis
    using le assms by (simp add: buf_incrwritepos_eq [OF w] buf_fits_def buf_put_def Let_def)
qed

lemma buf_putbytes_eq [buf_eqs]:
  assumes "buf_wf b" "unat n \<le> length src"
  shows "buf_putbytes b src n = (if buf_fits b (unat n) then Inr (buf_put b (take (unat n) src))
    else Inl (Exit ''Bad buf_getwriteptr''))"
  using assms write_advance [of b "take (unat n) src" n]
  by (simp add: buf_putbytes_def buf_getwriteptr_eq buf_fits_def del: mem_write_ok)

lemma buf_putint_eq [buf_eqs]:
  assumes "buf_wf b"
  shows "buf_putint b v = (if buf_fits b 4 then Inr (buf_put b (store32h v))
    else Inl (Exit ''Bad buf_getwriteptr''))"
  using assms write_advance [of b "store32h v" 4]
  by (simp add: buf_putint_def buf_getwriteptr_eq buf_fits_def del: mem_write_ok)

lemma buf_putbyte_eq [buf_eqs]:
  assumes "buf_wf b"
  shows "buf_putbyte b v = (if buf_fits b 1 then Inr (buf_put b [v])
    else Inl (Exit ''Bad buf_incrlen''))"
proof -
  note bd = buf_wf_bounds [OF assms]
  have inc: "(1 > BUF_MAX_INCR \<or> buf_len b + 1 > buf_size b) \<longleftrightarrow> unat (buf_size b) < unat (buf_len b) + 1"
    using incr_guard [of "buf_len b" "buf_size b" 1] bd by simp
  have suc: "buf_pos b + 1 = of_nat (Suc (unat (buf_pos b)))"
    "buf_len b + 1 = of_nat (Suc (unat (buf_len b)))" by simp_all
  show ?thesis
  proof (cases "buf_pos b \<ge> buf_len b")
    case True
    then have eq: "buf_pos b = buf_len b" using assms by (simp add: buf_wf_def)
    show ?thesis
      using bd inc eq by (auto simp: buf_putbyte_def buf_incrlen_def buf_fits_def buf_put_def Let_def)
  next
    case False
    then show ?thesis
      using bd suc by (auto simp: buf_putbyte_def buf_fits_def buf_put_def Let_def wnat max_def)
  qed
qed

lemma buf_putstring_eq [buf_eqs]:
  assumes "buf_wf b" "unat n \<le> length src"
  shows "buf_putstring b src n = (if buf_fits b (4 + unat n)
    then Inr (buf_put b (store32h n @ take (unat n) src))
    else Inl (Exit ''Bad buf_getwriteptr''))"
proof (cases "buf_fits b 4")
  case True
  then have w: "buf_wf (buf_put b (store32h n))" using assms(1) by (simp add: buf_put_wf)
  show ?thesis
    using assms True buf_put_put [OF assms(1), of "store32h n" "take (unat n) src"]
    by (simp add: buf_putstring_def buf_eqs w buf_put_fits_iff)
next
  case False
  then have "\<not> buf_fits b (4 + unat n)" using buf_fits_mono by (meson le_add1)
  with False show ?thesis using assms(1) by (simp add: buf_putstring_def buf_eqs)
qed

section \<open>Invariant\<close>

lemma buf_new_eq:
  "buf_new n = Inr b \<longleftrightarrow> n \<le> BUF_MAX_SIZE
    \<and> b = \<lparr>buf_data = replicate (unat n) 0, buf_len = 0, buf_pos = 0, buf_size = n\<rparr>"
  by (auto simp: buf_new_def)

lemma buf_new_wf [intro]: "buf_new n = Inr b \<Longrightarrow> buf_wf b"
  by (auto simp: buf_new_eq buf_wf_def)

lemma buf_new_content: "buf_new n = Inr b \<Longrightarrow> buf_content b = [] \<and> buf_rest b = []"
  by (auto simp: buf_new_eq buf_content_def buf_rest_def)

lemma buf_new_fits: "buf_new n = Inr b \<Longrightarrow> buf_fits b m \<longleftrightarrow> m \<le> unat n"
  by (auto simp: buf_new_eq buf_fits_def)

lemma buf_setlen_wf: "buf_wf b \<Longrightarrow> buf_setlen b n = Inr b' \<Longrightarrow> buf_wf b'"
  by (auto simp: buf_setlen_def buf_wf_def split: if_splits)

lemma buf_setpos_wf: "buf_wf b \<Longrightarrow> buf_setpos b n = Inr b' \<Longrightarrow> buf_wf b'"
  by (auto simp: buf_setpos_def buf_wf_def split: if_splits)

lemma buf_decrpos_wf: "buf_wf b \<Longrightarrow> buf_decrpos b n = Inr b' \<Longrightarrow> buf_wf b'"
  by (auto simp: buf_decrpos_def buf_wf_def wnat unat_sub32 split: if_splits)

lemma buf_incrlen_wf:
  assumes "buf_wf b" "buf_incrlen b n = Inr b'" shows "buf_wf b'"
proof -
  note bd = buf_wf_bounds [OF assms(1)]
  have "unat (buf_len b) + unat n \<le> unat (buf_size b)" and b': "b' = b\<lparr>buf_len := buf_len b + n\<rparr>"
    using assms(2) incr_guard [of "buf_len b" "buf_size b" n] bd
    by (auto simp: buf_incrlen_def split: if_splits)
  moreover from this have "unat (buf_len b + n) = unat (buf_len b) + unat n"
    using bd by (intro unat_incr) linarith
  ultimately show ?thesis
    using bd assms(1) by (simp add: buf_wf_def wnat)
qed

lemma buf_incrwritepos_wf:
  assumes "buf_wf b" "buf_incrwritepos b n = Inr b'" shows "buf_wf b'"
  using assms buf_wf_bounds [OF assms(1)]
  by (auto simp: buf_eqs buf_wf_def wnat buf_fits_def max_def BUF_MAX_SIZE_def unat_incr split: if_splits)

lemma buf_resize_wf: "buf_resize junk b n = Inr b' \<Longrightarrow> buf_pos b \<le> buf_len b \<Longrightarrow> buf_wf b'"
  by (auto simp: buf_resize_def buf_wf_def wnat unat_min split: if_splits)

lemma buf_getstring_wf: "buf_wf b \<Longrightarrow> buf_getstring b = Inr (s, n, b') \<Longrightarrow> buf_wf b'"
  by (auto simp: buf_getstring_eq Let_def not_less split: if_splits)

lemma buf_eatstring_wf: "buf_wf b \<Longrightarrow> buf_eatstring b = Inr b' \<Longrightarrow> buf_wf b'"
  by (auto simp: buf_eatstring_eq Let_def not_less split: if_splits)

section \<open>Multi-precision integer encoding\<close>

lemma count_bits_bound: "q < 2 ^ count_bits q"
  by (induction q rule: count_bits.induct) (subst count_bits.simps, auto)

lemma count_bits_lower: "q > 0 \<Longrightarrow> 2 ^ (count_bits q - 1) \<le> q"
proof (induction q rule: count_bits.induct)
  case (1 q)
  show ?case
  proof (cases "q div 2 = 0")
    case True
    then have "q = 1" using 1 by auto
    then show ?thesis by (simp add: count_bits.simps [of "Suc 0"] count_bits.simps [of 0])
  next
    case False
    then have "2 ^ (count_bits (q div 2) - 1) \<le> q div 2" "count_bits (q div 2) > 0"
      using 1 by (auto simp: count_bits.simps [of "q div 2"])
    moreover from this(2) have "(2::nat) ^ count_bits (q div 2) = 2 * 2 ^ (count_bits (q div 2) - 1)"
      by (metis power_eq_if not_gr0)
    ultimately show ?thesis
      using 1 by (subst count_bits.simps) auto
  qed
qed

definition ubin_value :: "bytes \<Rightarrow> nat" where
  "ubin_value bs = foldl (\<lambda>a c. a * 256 + unat c) 0 bs"

lemma foldl_ubin: "foldl (\<lambda>a c. a * 256 + unat (c :: u8)) n bs = n * 256 ^ length bs + ubin_value bs"
proof (induction bs arbitrary: n)
  case (Cons c bs)
  have "ubin_value (c # bs) = unat c * 256 ^ length bs + ubin_value bs"
    using Cons [of "unat c"] by (simp add: ubin_value_def)
  then show ?case
    using Cons [of "n * 256 + unat c"] by (simp add: algebra_simps)
qed (simp add: ubin_value_def)

lemma ubin_value_Cons: "ubin_value (c # bs) = unat c * 256 ^ length bs + ubin_value bs"
  using foldl_ubin [of "unat c" bs] by (simp add: ubin_value_def)

lemma length_mp_to_ubin_loop [simp]: "length (mp_to_ubin_loop x t out) = x + length out"
  by (induction x t out rule: mp_to_ubin_loop.induct) simp_all

lemma mp_to_ubin_loop_value:
  "ubin_value (mp_to_ubin_loop x t out) = (t mod 256 ^ x) * 256 ^ length out + ubin_value out"
proof (induction x t out rule: mp_to_ubin_loop.induct)
  case (2 x t out)
  have "unat (of_nat (t mod 256) :: u8) = t mod 256" by (simp add: unat_of_nat)
  moreover have "t mod 256 ^ Suc x = t mod 256 + 256 * (t div 256 mod 256 ^ x)"
    by (simp add: mod_mult2_eq)
  ultimately show ?case
    using 2 by (simp add: ubin_value_Cons algebra_simps)
qed simp

lemma mp_ubin_size_bound: "nat \<bar>a\<bar> < 256 ^ mp_ubin_size a"
proof -
  have "mp_count_bits a \<le> 8 * mp_ubin_size a"
    by (simp add: mp_ubin_size_def Let_def) presburger
  then have "(2::nat) ^ mp_count_bits a \<le> 2 ^ (8 * mp_ubin_size a)" by (simp add: power_increasing)
  also have "\<dots> = 256 ^ mp_ubin_size a" by (simp add: power_mult)
  finally show ?thesis
    using count_bits_bound [of "nat \<bar>a\<bar>"] unfolding mp_count_bits_def by (rule order.strict_trans2 [rotated])
qed

lemma mp_from_to_ubin: "mp_to_ubin a n = Some bs \<Longrightarrow> mp_from_ubin bs = \<bar>a\<bar>"
  using mp_ubin_size_bound [of a]
  by (auto simp: mp_to_ubin_def mp_from_ubin_def mp_to_ubin_loop_value ubin_value_def [symmetric]
      split: if_splits) (simp add: ubin_value_def)

lemma mp_to_ubin_length: "mp_to_ubin a n = Some bs \<Longrightarrow> length bs = mp_ubin_size a"
  by (auto simp: mp_to_ubin_def split: if_splits)

text \<open>The bytes of an mpint on the wire: the length, a zero byte when the top bit would be set,
  and the magnitude.\<close>

definition mpint_bytes :: "mp_int \<Rightarrow> bytes" where
  "mpint_bytes a = (if a = 0 then []
     else (if mp_count_bits a mod 8 = 0 then [0] else [])
          @ mp_to_ubin_loop (mp_ubin_size a) (nat \<bar>a\<bar>) [])"

lemma mpint_bytes_length:
  "length (mpint_bytes a) = (if a = 0 then 0 else mp_count_bits a div 8 + 1)"
  by (auto simp: mpint_bytes_def mp_ubin_size_def Let_def)

lemma mpint_bytes_value: "0 \<le> a \<Longrightarrow> mp_from_ubin (mpint_bytes a) = a"
  using mp_ubin_size_bound [of a] mp_to_ubin_loop_value [of "mp_ubin_size a" "nat \<bar>a\<bar>" "[]"]
  by (auto simp: mpint_bytes_def mp_from_ubin_def ubin_value_def)

lemma mp_ubin_size_le: "mp_ubin_size a \<le> mp_count_bits a div 8 + 1"
  by (simp add: mp_ubin_size_def Let_def)

text \<open>The length and padding that the code computes for a positive number.\<close>

definition mp_len :: "mp_int \<Rightarrow> nat" where "mp_len a = mp_count_bits a div 8 + 1"
definition mp_pad :: "mp_int \<Rightarrow> nat" where "mp_pad a = (if mp_count_bits a mod 8 = 0 then 1 else 0)"

definition mp_mag :: "mp_int \<Rightarrow> bytes" where
  "mp_mag a = mp_to_ubin_loop (mp_ubin_size a) (nat \<bar>a\<bar>) []"

lemma mp_mag_length: "length (mp_mag a) = mp_len a - mp_pad a" "mp_pad a \<le> mp_len a"
    "mp_pad a + length (mp_mag a) = mp_len a" "mp_pad a \<le> 1"
  by (auto simp: mp_mag_def mp_len_def mp_pad_def mp_ubin_size_def Let_def)

lemma mpint_bytes_split: "a \<noteq> 0 \<Longrightarrow> mpint_bytes a = replicate (mp_pad a) 0 @ mp_mag a"
  by (simp add: mpint_bytes_def mp_pad_def mp_mag_def)

lemma mpint_bytes_len: "a \<noteq> 0 \<Longrightarrow> length (mpint_bytes a) = mp_len a"
  by (simp add: mpint_bytes_length mp_len_def)

lemma mp_to_ubin_mag: "mp_to_ubin a (mp_len a - mp_pad a) = Some (mp_mag a)"
  using mp_mag_length [of a] by (auto simp: mp_to_ubin_def mp_mag_def)

lemma buf_putmpint_pos:
  assumes "0 < a" "buf_wf b" "buf_fits b 4"
  shows "buf_putmpint b a =
    rbind (if mp_pad a = 1 then buf_putbyte (buf_put b (store32h (of_nat (mp_len a)))) 0
           else Inr (buf_put b (store32h (of_nat (mp_len a))))) (\<lambda>b.
    rbind (buf_getwriteptr b (of_nat (mp_len a - mp_pad a))) (\<lambda>p.
    rbind (mem_write (buf_data b) p (mp_mag a)) (\<lambda>d.
    buf_incrwritepos (b\<lparr>buf_data := d\<rparr>) (of_nat (mp_len a - mp_pad a)))))"
  using assms mp_to_ubin_mag [of a, unfolded mp_len_def mp_pad_def] mp_mag_length(1) [of a]
  by (auto simp: buf_putmpint_def buf_putint_eq mp_len_def mp_pad_def Let_def simp del: mem_write_ok)

lemma mp_pad_step:
  "buf_wf b \<Longrightarrow> buf_fits b (mp_pad a) \<Longrightarrow>
   (if mp_pad a = 1 then buf_putbyte b 0 else Inr b) = Inr (buf_put b (replicate (mp_pad a) 0))"
  by (auto simp: mp_pad_def buf_eqs)

lemma buf_putmpint_eq [buf_eqs]:
  assumes w: "buf_wf b" and a: "0 \<le> a" and f: "buf_fits b (4 + length (mpint_bytes a))"
  shows "buf_putmpint b a =
    Inr (buf_put b (store32h (of_nat (length (mpint_bytes a))) @ mpint_bytes a))"
proof (cases "a = 0")
  case True
  with w f show ?thesis
    by (simp add: buf_putmpint_def buf_eqs mpint_bytes_def Let_def)
next
  case False
  then have pos: "0 < a" using a by simp
  define n where "n = mp_len a"
  define b1 where "b1 = buf_put b (store32h (of_nat n))"
  define b2 where "b2 = buf_put b1 (replicate (mp_pad a) 0)"
  note lm = mp_mag_length [of a, folded n_def]
  have n: "length (mpint_bytes a) = n" using False by (simp add: mpint_bytes_len n_def)
  have "n \<le> 1000000000" using f n buf_wf_bounds [OF w] by (simp add: buf_fits_def)
  then have u: "unat (of_nat (n - mp_pad a) :: u32) = n - mp_pad a"
    by (intro unat_of_nat32) linarith
  have f4: "buf_fits b 4" using f by (rule buf_fits_mono) simp
  have w1: "buf_wf b1" using w f4 by (auto simp: b1_def)
  have f1: "buf_fits b1 n" unfolding b1_def using w f n by (intro buf_put_fits) auto
  have fp: "buf_fits b1 (mp_pad a)" using f1 lm(2) by (rule buf_fits_mono)
  have w2: "buf_wf b2" using w1 fp by (auto simp: b2_def)
  have f2: "buf_fits b2 (length (mp_mag a))"
    unfolding b2_def using w1 f1 lm by (intro buf_put_fits) auto
  have ptr: "buf_getwriteptr b2 (of_nat (n - mp_pad a)) = Inr (unat (buf_pos b2))"
    using w2 f2 u lm(1) by (simp add: buf_getwriteptr_eq buf_fits_def del: of_nat_diff)
  have "buf_putmpint b a = Inr (buf_put b2 (mp_mag a))"
    using write_advance [OF w2 f2, of "of_nat (n - mp_pad a)"] u lm(1)
    by (simp only: buf_putmpint_pos [OF pos w f4, folded n_def, folded b1_def]
        mp_pad_step [OF w1 fp, folded b2_def] rbind_simps ptr)
  also have "buf_put b2 (mp_mag a) = buf_put b (store32h (of_nat n) @ mpint_bytes a)"
    using w w1 f f1 lm n False unfolding b2_def b1_def mpint_bytes_split [OF False]
    by (simp add: buf_put_put [of b] buf_put_put [of "buf_put b (store32h (of_nat n))"])
  finally show ?thesis using n by simp
qed

lemma buf_putmpint_nofit:
  assumes w: "buf_wf b" and a: "0 \<le> a" "mp_count_bits a < 2 ^ 31"
    and f: "\<not> buf_fits b (4 + length (mpint_bytes a))"
  shows "\<exists>s. buf_putmpint b a = Inl (Exit s)"
proof (cases "buf_fits b 4")
  case False
  then show ?thesis using w a by (simp add: buf_putmpint_def buf_eqs Let_def)
next
  case True
  have nz: "a \<noteq> 0" using f True by (auto simp: mpint_bytes_def)
  then have pos: "0 < a" using a by simp
  define n where "n = mp_len a"
  have n: "length (mpint_bytes a) = n" "n < 1000000000"
    using nz a by (auto simp: mpint_bytes_len n_def mp_len_def)
  note lm = mp_mag_length [of a, folded n_def]
  define b1 where "b1 = buf_put b (store32h (of_nat n))"
  have w1: "buf_wf b1" and f1: "\<not> buf_fits b1 n"
    using w True f n by (auto simp: b1_def buf_put_fits_iff)
  have u: "unat (of_nat (n - mp_pad a) :: u32) = n - mp_pad a"
    using n(2) by (intro unat_of_nat32) linarith
  show ?thesis
  proof (cases "buf_fits b1 (mp_pad a)")
    case fp: True
    define b2 where "b2 = buf_put b1 (replicate (mp_pad a) 0)"
    have w2: "buf_wf b2" using w1 fp by (auto simp: b2_def)
    have "\<not> buf_fits b2 (n - mp_pad a)" using f1 w1 fp lm(2) by (simp add: b2_def buf_put_fits_iff)
    then have "buf_getwriteptr b2 (of_nat (n - mp_pad a)) = Inl (Exit ''Bad buf_getwriteptr'')"
      using u by (simp add: buf_eqs w2 buf_fits_def del: of_nat_diff)
    then show ?thesis
      by (simp only: buf_putmpint_pos [OF pos w True, folded n_def, folded b1_def]
          mp_pad_step [OF w1 fp, folded b2_def] rbind_simps) simp
  next
    case False
    then have "mp_pad a = 1" "\<not> buf_fits b1 1"
      using buf_wf_bounds [OF w1] by (auto simp: mp_pad_def buf_fits_def split: if_splits)
    then show ?thesis
      using w1 by (simp add: buf_putmpint_pos [OF pos w True, folded n_def, folded b1_def] buf_eqs)
  qed
qed

lemma buf_getmpint_eq:
  assumes "buf_wf b"
  shows "buf_getmpint b =
    (let r = buf_rest b; n = load32h r; m = drop 4 r in
     if length r < 4 then Inl (Exit ''Bad buf_getptr'')
     else if n = 0 then Inr (Some 0, buf_adv b 4)
     else if unat n > 1030 then Inr (None, buf_adv b 4)
     else if m = [] then Inl (Exit ''Bad buf_getptr'')
     else if bit (hd m) 7 then Inr (None, buf_adv b 4)
     else if length m < unat n then Inl (Exit ''Bad buf_getptr'')
     else Inr (Some (mp_from_ubin (take (unat n) m)), buf_adv b (4 + unat n)))"
proof (cases "4 \<le> length (buf_rest b)")
  case True
  then have w: "buf_wf (buf_adv b 4)" and r: "buf_rest (buf_adv b 4) = drop 4 (buf_rest b)"
    using assms by (auto intro: buf_adv_rest)
  have mx: "BUF_MAX_MPINT < n \<longleftrightarrow> 1030 < unat n" for n
    by (simp add: BUF_MAX_MPINT_def word_less_nat_alt)
  have hd1: "m \<noteq> [] \<Longrightarrow> hd (take 1 m) = hd m" for m :: bytes by (cases m) auto
  have rd: "k \<le> length (drop 4 (buf_rest b)) \<Longrightarrow>
     mem_read (buf_data b) (unat (buf_pos (buf_adv b 4))) k = Inr (take k (drop 4 (buf_rest b)))" for k
    using buf_read_eq [OF w, of k] by (simp add: r)
  show ?thesis
    using True rd [of 1] rd [of "unat (load32h (buf_rest b))"]
    by (cases "drop 4 (buf_rest b) = []")
       (simp_all add: buf_getmpint_def buf_eqs assms w r mx Let_def not_less hd1 buf_adv_adv
          Suc_le_eq del: mem_read_ok)
next
  case False
  then show ?thesis by (simp add: buf_getmpint_def buf_eqs assms Let_def)
qed

section \<open>Safety of every sequence of calls\<close>

text \<open>A call on a buffer with its arguments.\<close>

datatype buf_op =
    OpResize "nat \<Rightarrow> u8" u32 | OpSetlen u32 | OpIncrlen u32 | OpSetpos u32
  | OpIncrwritepos u32 | OpIncrpos u32 | OpDecrpos u32
  | OpGetbyte | OpGetbool | OpPutbyte u8 | OpGetptr u32 | OpGetwriteptr u32
  | OpGetint | OpPutint u32 | OpPutbytes bytes u32 | OpPutstring bytes u32
  | OpGetstring | OpGetstringbuf | OpGetbuf | OpEatstring | OpPutmpint mp_int | OpGetmpint

fun buf_exec :: "buffer \<Rightarrow> buf_op \<Rightarrow> buffer res" where
  "buf_exec b (OpResize junk n) = buf_resize junk b n"
| "buf_exec b (OpSetlen n) = buf_setlen b n"
| "buf_exec b (OpIncrlen n) = buf_incrlen b n"
| "buf_exec b (OpSetpos n) = buf_setpos b n"
| "buf_exec b (OpIncrwritepos n) = buf_incrwritepos b n"
| "buf_exec b (OpIncrpos n) = buf_incrpos b n"
| "buf_exec b (OpDecrpos n) = buf_decrpos b n"
| "buf_exec b OpGetbyte = rbind (buf_getbyte b) (\<lambda>(_, b). Inr b)"
| "buf_exec b OpGetbool = rbind (buf_getbool b) (\<lambda>(_, b). Inr b)"
| "buf_exec b (OpPutbyte v) = buf_putbyte b v"
| "buf_exec b (OpGetptr n) =
     rbind (buf_getptr b n) (\<lambda>p. rbind (mem_read (buf_data b) p (unat n)) (\<lambda>_. Inr b))"
| "buf_exec b (OpGetwriteptr n) =
     rbind (buf_getwriteptr b n) (\<lambda>p.
     rbind (mem_write (buf_data b) p (replicate (unat n) 0)) (\<lambda>d. Inr (b\<lparr>buf_data := d\<rparr>)))"
| "buf_exec b OpGetint = rbind (buf_getint b) (\<lambda>(_, b). Inr b)"
| "buf_exec b (OpPutint v) = buf_putint b v"
| "buf_exec b (OpPutbytes src n) = buf_putbytes b src n"
| "buf_exec b (OpPutstring src n) = buf_putstring b src n"
| "buf_exec b OpGetstring = rbind (buf_getstring b) (\<lambda>(_, _, b). Inr b)"
| "buf_exec b OpGetstringbuf = rbind (buf_getstringbuf b) (\<lambda>(_, b). Inr b)"
| "buf_exec b OpGetbuf = rbind (buf_getbuf b) (\<lambda>(_, b). Inr b)"
| "buf_exec b OpEatstring = buf_eatstring b"
| "buf_exec b (OpPutmpint a) = buf_putmpint b a"
| "buf_exec b OpGetmpint = rbind (buf_getmpint b) (\<lambda>(_, b). Inr b)"

fun buf_run :: "buffer \<Rightarrow> buf_op list \<Rightarrow> buffer res" where
  "buf_run b [] = Inr b"
| "buf_run b (c # cs) = rbind (buf_exec b c) (\<lambda>b. buf_run b cs)"

text \<open>What a caller owes: the source of a copy holds the bytes copied, and the bit count of a
  bignum fits the \<^verbatim>\<open>int\<close> that \<^verbatim>\<open>mp_count_bits\<close> returns.\<close>

fun buf_op_ok :: "buf_op \<Rightarrow> bool" where
  "buf_op_ok (OpPutbytes src n) = (unat n \<le> length src)"
| "buf_op_ok (OpPutstring src n) = (unat n \<le> length src)"
| "buf_op_ok (OpPutmpint a) = (mp_count_bits a < 2 ^ 31)"
| "buf_op_ok _ = True"

text \<open>Either the call exits or it yields a well-formed buffer.\<close>

definition buf_ok :: "buffer res \<Rightarrow> bool" where
  "buf_ok r = (case r of Inl (Exit _) \<Rightarrow> True | Inl _ \<Rightarrow> False | Inr b \<Rightarrow> buf_wf b)"

lemma buf_ok_simps [simp]: "buf_ok (Inl (Exit s))" "buf_ok (Inr b) = buf_wf b"
  by (simp_all add: buf_ok_def)

lemma buf_getstringbuf_int_eq:
  assumes "buf_wf b"
  shows "buf_getstringbuf_int b i =
    (let r = buf_rest b; n = load32h r; s = take (unat n) (drop 4 r);
         e = (if i then take 4 r else []) in
     if length r < 4 then Inl (Exit ''Bad buf_getptr'')
     else if unat n > 9000 then Inl (Exit ''String too long'')
     else if length r < 4 + unat n then Inl (Exit ''Bad buf_getptr'')
     else Inr (\<lparr>buf_data = e @ s, buf_len = of_nat (length e) + n, buf_pos = 0,
                buf_size = of_nat (length e) + n\<rparr>, buf_adv b (4 + unat n)))"
proof (cases "4 \<le> length (buf_rest b)")
  case True
  define n where "n = load32h (buf_rest b)"
  define e where "e = (if i then take 4 (buf_rest b) else [])"
  define ret where "ret = \<lparr>buf_data = e @ replicate (unat n) 0, buf_len = of_nat (length e),
      buf_pos = of_nat (length e), buf_size = of_nat (length e) + n\<rparr>"
  let ?s = "take (unat n) (drop 4 (buf_rest b))"
  have w: "buf_wf (buf_adv b 4)" and r: "buf_rest (buf_adv b 4) = drop 4 (buf_rest b)"
    using assms True by (auto intro: buf_adv_rest)
  have rd: "unat n \<le> length (drop 4 (buf_rest b)) \<Longrightarrow>
     mem_read (buf_data b) (unat (buf_pos (buf_adv b 4))) (unat n) = Inr ?s"
    using buf_read_eq [OF w, of "unat n"] by (simp add: r)
  have m: "MAX_STRING_LEN < n \<longleftrightarrow> 9000 < unat n" by (simp add: word_less_nat_alt)
  have le: "length e \<le> 4" by (simp add: e_def)
  have "unat (of_nat (length e) :: u32) = length e" using le by (intro unat_of_nat32) linarith
  moreover have "unat n \<le> 9000 \<Longrightarrow> unat (of_nat (length e) + n) = length e + unat n"
    using le by (subst unat_add32) (simp_all add: unat_of_nat32)
  ultimately have u: "unat (of_nat (length e) :: u32) = length e"
    "unat n \<le> 9000 \<Longrightarrow> unat (of_nat (length e) + n) = length e + unat n" by auto
  have i1: "rbind (buf_new (n + (if i then 4 else 0)))
      (\<lambda>ret. if i then buf_putint ret n else Inr ret) = Inr ret" if "unat n \<le> 9000"
  proof (cases i)
    case True
    have u4: "unat (n + 4) = 4 + unat n"
      using that by (subst unat_add32) simp_all
    have "buf_new (n + 4) = Inr \<lparr>buf_data = replicate (4 + unat n) 0, buf_len = 0, buf_pos = 0,
        buf_size = n + 4\<rparr>" (is "_ = Inr ?r")
      using that u4 by (simp add: buf_new_def BUF_MAX_SIZE_def wnat)
    moreover have "buf_wf ?r" "buf_fits ?r 4"
      using that u4 by (simp_all add: buf_wf_def BUF_MAX_SIZE_def wnat buf_fits_def)
    moreover have "store32h n = take 4 (buf_rest b)"
      using store32h_load32h [of "take 4 (buf_rest b)"] \<open>4 \<le> length (buf_rest b)\<close>
      by (simp add: n_def)
    ultimately show ?thesis
      using \<open>i\<close> \<open>4 \<le> length (buf_rest b)\<close>
      by (simp add: buf_eqs buf_put_def Let_def ret_def e_def add.commute)
  next
    case False
    then show ?thesis using that by (simp add: buf_new_def ret_def e_def BUF_MAX_SIZE_def wnat)
  qed
  have i2: "buf_getwriteptr ret n = Inr (length e)" if "unat n \<le> 9000"
    using that u le incr_guard [of "of_nat (length e)" "of_nat (length e) + n" n]
    by (simp add: buf_getwriteptr_def ret_def)
  have i3: "buf_incrlen (ret\<lparr>buf_data := d\<rparr>) n = Inr (ret\<lparr>buf_data := d, buf_len := of_nat (length e) + n\<rparr>)"
    if "unat n \<le> 9000" for d
    using that u le incr_guard [of "of_nat (length e)" "of_nat (length e) + n" n]
    by (simp add: buf_incrlen_def ret_def)
  have i4: "mem_write (buf_data ret) (length e) ?s = Inr (e @ ?s)"
    if "unat n \<le> length (drop 4 (buf_rest b))"
    using that by (simp add: ret_def)
  have unf: "buf_getstringbuf_int b i =
    (if n > MAX_STRING_LEN then Inl (Exit ''String too long'')
     else rbind (rbind (buf_new (n + (if i then 4 else 0)))
            (\<lambda>ret. if i then buf_putint ret n else Inr ret)) (\<lambda>ret.
          rbind (buf_getwriteptr ret n) (\<lambda>dst.
          rbind (buf_getptr (buf_adv b 4) n) (\<lambda>src.
          rbind (mem_read (buf_data b) src (unat n)) (\<lambda>bs.
          rbind (mem_write (buf_data ret) dst bs) (\<lambda>d.
          rbind (buf_incrpos (buf_adv b 4) n) (\<lambda>b.
          rbind (buf_incrlen (ret\<lparr>buf_data := d\<rparr>) n) (\<lambda>ret.
          rbind (buf_setpos ret 0) (\<lambda>ret.
          Inr (ret, b))))))))))"
    using True by (simp add: buf_getstringbuf_int_def buf_getint_eq [OF assms] n_def rbind_assoc)
  show ?thesis
  proof (cases "unat n \<le> 9000")
    case n9: True
    show ?thesis
      using n9 True i1 i2 i3 i4 rd unfolding unf
      by (auto simp: m not_less w r Let_def n_def [symmetric] e_def [symmetric] buf_getptr_eq
          buf_incrpos_eq buf_setpos_def ret_def buf_adv_adv simp del: mem_read_ok mem_write_ok)
  next
    case False
    then show ?thesis using True unfolding unf by (simp add: m Let_def n_def [symmetric])
  qed
next
  case False
  then show ?thesis by (simp add: buf_getstringbuf_int_def buf_eqs assms Let_def)
qed

lemma buf_getstringbuf_int_wf: "buf_wf b \<Longrightarrow> buf_getstringbuf_int b i = Inr (r, b') \<Longrightarrow> buf_wf b'"
  by (auto simp: buf_getstringbuf_int_eq Let_def not_less split: if_splits)

lemma buf_ok_fst: "(\<And>e. r = Inl e \<Longrightarrow> \<exists>s. e = Exit s) \<Longrightarrow> (\<And>x b. r = Inr (x, b) \<Longrightarrow> buf_wf b)
   \<Longrightarrow> buf_ok (rbind r (\<lambda>(_, b). Inr b))"
  by (cases r) (auto simp: buf_ok_def)

lemma buf_ok_I: "(\<And>e. r = Inl e \<Longrightarrow> \<exists>s. e = Exit s) \<Longrightarrow> (\<And>b. r = Inr b \<Longrightarrow> buf_wf b) \<Longrightarrow> buf_ok r"
  by (cases r) (auto simp: buf_ok_def)

lemmas buf_wf_preserved = buf_resize_wf buf_setlen_wf buf_incrlen_wf buf_setpos_wf
  buf_incrwritepos_wf buf_decrpos_wf buf_getstring_wf buf_eatstring_wf buf_getstringbuf_int_wf

lemma buf_guard_ok:
  assumes "buf_wf b"
  shows "buf_ok (buf_resize junk b n)" "buf_ok (buf_setlen b n)" "buf_ok (buf_incrlen b n)"
    "buf_ok (buf_setpos b n)" "buf_ok (buf_incrwritepos b n)" "buf_ok (buf_decrpos b n)"
    "buf_ok (buf_incrpos b n)"
proof -
  show "buf_ok (buf_resize junk b n)"
    using assms by (intro buf_ok_I) (auto simp: buf_resize_def buf_wf_def min_le_iff_disj split: if_splits)
  show "buf_ok (buf_setlen b n)"
    by (rule buf_ok_I) (auto intro: buf_setlen_wf [OF assms] simp: buf_setlen_def split: if_splits)
  show "buf_ok (buf_incrlen b n)"
    by (rule buf_ok_I, force simp: buf_incrlen_def split: if_splits) (rule buf_incrlen_wf [OF assms])
  show "buf_ok (buf_setpos b n)"
    by (rule buf_ok_I, force simp: buf_setpos_def split: if_splits) (rule buf_setpos_wf [OF assms])
  show "buf_ok (buf_incrwritepos b n)"
    by (rule buf_ok_I, force simp: buf_incrwritepos_eq [OF assms] split: if_splits)
       (rule buf_incrwritepos_wf [OF assms])
  show "buf_ok (buf_decrpos b n)"
    by (rule buf_ok_I, force simp: buf_decrpos_def split: if_splits) (rule buf_decrpos_wf [OF assms])
  show "buf_ok (buf_incrpos b n)"
    using assms by (auto simp: buf_incrpos_eq)
qed

text \<open>Every call on a well-formed buffer exits or leaves it well-formed.\<close>

lemma buf_exec_ok:
  assumes "buf_wf b" "buf_op_ok c" shows "buf_ok (buf_exec b c)"
proof (cases c)
  case (OpGetptr n)
  then show ?thesis using assms buf_read_eq [OF assms(1)]
    by (simp add: buf_getptr_eq del: mem_read_ok)
next
  case (OpGetwriteptr n)
  then show ?thesis using assms buf_wf_bounds [OF assms(1)]
    by (auto simp: buf_getwriteptr_eq intro: buf_wf_data)
next
  case (OpPutmpint a)
  show ?thesis
  proof (cases "a < 0")
    case True
    then show ?thesis using OpPutmpint by (simp add: buf_putmpint_def)
  next
    case False
    then show ?thesis
      using OpPutmpint assms buf_putmpint_nofit [OF assms(1), of a] buf_putmpint_eq [OF assms(1), of a]
      by (cases "buf_fits b (4 + length (mpint_bytes a))") (auto intro!: buf_put_wf)
  qed
next
  case OpGetmpint
  have "m \<noteq> [] \<Longrightarrow> 4 \<le> length r" if "m = drop 4 r" for r m :: bytes
    using that by (cases "4 \<le> length r") auto
  then show ?thesis using OpGetmpint assms
    by (auto simp: buf_getmpint_eq Let_def not_less)
next
  case OpGetbyte
  then show ?thesis using assms
    by (auto simp: buf_eqs intro!: buf_adv_wf split: list.split)
next
  case OpGetbool
  then show ?thesis using assms
    by (auto simp: buf_getbool_def buf_eqs intro!: buf_adv_wf split: list.split)
next
  case OpGetstring
  then show ?thesis using assms by (auto simp: buf_getstring_eq Let_def not_less)
next
  case OpEatstring
  then show ?thesis using assms by (auto simp: buf_eatstring_eq Let_def not_less)
next
  case OpGetstringbuf
  then show ?thesis using assms
    by (auto simp: buf_getstringbuf_def buf_getstringbuf_int_eq Let_def not_less)
next
  case OpGetbuf
  then show ?thesis using assms
    by (auto simp: buf_getbuf_def buf_getstringbuf_int_eq Let_def not_less)
next
  case OpGetint
  then show ?thesis using assms by (auto simp: buf_getint_eq)
qed (use assms in \<open>auto simp: buf_putbyte_eq buf_putint_eq buf_putbytes_eq buf_putstring_eq
       buf_guard_ok intro!: buf_put_wf\<close>)

lemma buf_run_ok: "buf_wf b \<Longrightarrow> list_all buf_op_ok cs \<Longrightarrow> buf_ok (buf_run b cs)"
proof (induction cs arbitrary: b)
  case (Cons c cs)
  then have "buf_ok (buf_exec b c)" by (simp add: buf_exec_ok)
  with Cons show ?case by (cases "buf_exec b c") (auto simp: buf_ok_def)
qed simp

text \<open>
  C10. Whatever sequence of calls is made on a buffer from \<^verbatim>\<open>buf_new\<close>, no call reads or writes
  outside the allocated data: the run either ends in \<^verbatim>\<open>dropbear_exit\<close> or yields a buffer with
  \<open>pos \<le> len \<le> size\<close> and \<open>size\<close> bytes of data.
\<close>

theorem buffer_memory_safe:
  assumes "buf_new sz = Inr b" "list_all buf_op_ok calls"
  shows "(\<exists>msg. buf_run b calls = Inl (Exit msg)) \<or> (\<exists>b'. buf_run b calls = Inr b' \<and> buf_wf b')"
  using buf_run_ok [OF buf_new_wf [OF assms(1)] assms(2)]
  by (auto simp: buf_ok_def split: sum.splits fatal.splits)

theorem buffer_memory_safe_witness:
  "\<exists>b. buf_new 16 = Inr b \<and>
     (let calls = [OpPutstring [1, 2] 2, OpPutmpint 128, OpSetpos 0, OpGetstring, OpGetmpint] in
      list_all buf_op_ok calls \<and> buf_run b calls \<noteq> Inl OutOfBounds)"
proof -
  let ?b = "\<lparr>buf_data = replicate 16 0, buf_len = 0, buf_pos = 0, buf_size = 16\<rparr>"
  let ?cs = "[OpPutstring [1, 2] 2, OpPutmpint 128, OpSetpos 0, OpGetstring, OpGetmpint]"
  have n: "buf_new 16 = Inr ?b" by code_simp
  have ok: "list_all buf_op_ok ?cs" by (simp add: mp_count_bits_def count_bits.simps)
  from buffer_memory_safe [OF n ok] show ?thesis using n ok by (auto simp: Let_def)
qed

section \<open>Round trips\<close>

text \<open>After a write, the position moved back to where the write started, the unread bytes begin
  with what was written.\<close>

lemma buf_put_setpos:
  assumes "buf_wf b" "buf_fits b (length bs)"
  shows "\<exists>b'. buf_setpos (buf_put b bs) (buf_pos b) = Inr b' \<and> buf_wf b'
    \<and> (\<exists>t. buf_rest b' = bs @ t) \<and> buf_adv b' (length bs) = buf_put b bs"
proof -
  note bd = buf_wf_bounds [OF assms(1)]
  let ?b = "(buf_put b bs)\<lparr>buf_pos := buf_pos b\<rparr>"
  have "buf_pos b \<le> buf_len (buf_put b bs)"
    using bd by (simp add: wnat buf_put_len [OF assms])
  then have sp: "buf_setpos (buf_put b bs) (buf_pos b) = Inr ?b" by (simp add: buf_setpos_def)
  have w: "buf_wf ?b" using buf_setpos_wf [OF buf_put_wf [OF assms] sp] .
  have "buf_rest ?b = bs @ drop (unat (buf_pos b) + length bs) (buf_content b)"
    using bd buf_put_content [OF assms] assms(1) by (simp add: buf_rest_def buf_content_def)
  moreover have "buf_adv ?b (length bs) = buf_put b bs"
    by (simp add: buf_adv_def buf_put_def Let_def)
  ultimately show ?thesis using sp w by blast
qed

text \<open>
  Reading back an integer or a string that was written gives the same value, consumes
  exactly the bytes of the write, and leaves the buffer as the write left it; a string has
  its NUL appended.
\<close>

theorem buf_int_string_roundtrip:
  assumes "buf_wf b" "unat n \<le> length s" "unat n \<le> 9000"
    and "buf_putint b v = Inr b1" "buf_putstring b1 s n = Inr b2"
  shows "\<exists>b0 b3. buf_setpos b2 (buf_pos b) = Inr b0 \<and> buf_getint b0 = Inr (v, b3)
     \<and> buf_getstring b3 = Inr (take (unat n) s @ [0], n, b2)"
proof -
  let ?m = "store32h v @ store32h n @ take (unat n) s"
  have b1: "b1 = buf_put b (store32h v)" and f: "buf_fits b 4"
    using assms by (auto simp: buf_eqs split: if_splits)
  then have w1: "buf_wf b1" using assms(1) by auto
  have f1: "buf_fits b1 (4 + unat n)" and b2: "b2 = buf_put b1 (store32h n @ take (unat n) s)"
    using assms(5) w1 assms(2) by (auto simp: buf_eqs split: if_splits)
  have fm: "buf_fits b (length ?m)"
    using f1 assms b1 f by (simp add: buf_put_fits_iff add.commute add.left_commute)
  then have b2': "b2 = buf_put b ?m"
    using assms(1,2) b1 b2 by (simp add: buf_put_put)
  obtain b0 t where b0: "buf_setpos b2 (buf_pos b) = Inr b0" "buf_wf b0" "buf_rest b0 = ?m @ t"
      "buf_adv b0 (length ?m) = b2"
    using buf_put_setpos [OF assms(1) fm] b2' by auto
  have g: "buf_getint b0 = Inr (v, buf_adv b0 4)"
    using b0 by (simp add: buf_getint_eq)
  have w3: "buf_wf (buf_adv b0 4)" and r3: "buf_rest (buf_adv b0 4) = drop 4 ?m @ t"
    using b0 by (auto simp: buf_adv_rest)
  have "buf_getstring (buf_adv b0 4) = Inr (take (unat n) s @ [0], n, buf_adv (buf_adv b0 4) (4 + unat n))"
    using w3 r3 assms(2,3) by (simp add: buf_getstring_eq Let_def)
  moreover have "buf_adv (buf_adv b0 4) (4 + unat n) = b2"
    using b0(4) assms(2) by (simp add: buf_adv_adv)
  ultimately show ?thesis using b0(1) g by metis
qed

theorem buf_int_string_roundtrip_witness:
  "let b = \<lparr>buf_data = replicate 20 0, buf_len = 0, buf_pos = 0, buf_size = 20\<rparr>;
       s = [104, 105, 33] in
   \<exists>b1 b2. buf_putint b 7 = Inr b1 \<and> buf_putstring b1 s 3 = Inr b2 \<and>
   (\<exists>b0 b3. buf_setpos b2 0 = Inr b0 \<and> buf_getint b0 = Inr (7, b3)
      \<and> buf_getstring b3 = Inr (s @ [0], 3, b2))"
proof -
  let ?b = "\<lparr>buf_data = replicate 20 0, buf_len = 0, buf_pos = 0, buf_size = 20\<rparr>"
  let ?s = "[104, 105, 33] :: bytes"
  have w: "buf_wf ?b" by code_simp
  have "case buf_putint ?b 7 of Inr b1 \<Rightarrow> (case buf_putstring b1 ?s 3 of Inr b2 \<Rightarrow> True | _ \<Rightarrow> False) | _ \<Rightarrow> False"
    by code_simp
  then obtain b1 b2 where p: "buf_putint ?b 7 = Inr b1" "buf_putstring b1 ?s 3 = Inr b2"
    by (auto split: sum.splits)
  from buf_int_string_roundtrip [OF w _ _ p] p show ?thesis
    by (simp add: Let_def)
qed

lemma bit_unat_le: "bit (w :: 'a::len word) n \<Longrightarrow> 2 ^ n \<le> unat w"
proof (rule ccontr)
  assume "bit w n" "\<not> 2 ^ n \<le> unat w"
  then have "bit (unat w) n" "unat w div 2 ^ n = 0" by (auto simp: bit_simps)
  then show False by (simp add: bit_iff_odd)
qed

lemma mpint_top_clear:
  assumes "a \<noteq> 0" shows "\<not> bit (hd (mpint_bytes a)) 7"
proof (cases "mp_pad a = 1")
  case True
  with assms show ?thesis by (simp add: mpint_bytes_split)
next
  case False
  then have p: "mp_pad a = 0" "mp_count_bits a mod 8 \<noteq> 0" by (auto simp: mp_pad_def split: if_splits)
  define k where "k = mp_len a - 1"
  have "length (mp_mag a) = Suc k" using p by (simp add: mp_mag_length k_def mp_len_def)
  then obtain c r where m: "mp_mag a = c # r" "length r = k" by (metis length_Suc_conv)
  have v: "ubin_value (mp_mag a) = nat \<bar>a\<bar>"
    using mp_to_ubin_loop_value [of "mp_ubin_size a" "nat \<bar>a\<bar>" "[]"] mp_ubin_size_bound [of a]
    by (simp add: mp_mag_def ubin_value_def)
  have "unat c * 256 ^ k \<le> nat \<bar>a\<bar>" using v m by (simp add: ubin_value_Cons)
  also have "\<dots> < 2 ^ mp_count_bits a" using count_bits_bound by (simp only: mp_count_bits_def)
  also have "mp_count_bits a \<le> 8 * k + 7" by (simp add: k_def mp_len_def)
  then have "(2::nat) ^ mp_count_bits a \<le> 2 ^ (8 * k + 7)" by (simp add: power_increasing)
  also have "(2::nat) ^ (8 * k + 7) = 128 * 256 ^ k" by (simp add: power_add power_mult)
  finally have "unat c < 128" by simp
  then have "\<not> bit c 7" using bit_unat_le [of c 7] by auto
  then show ?thesis using assms p m by (simp add: mpint_bytes_split)
qed

text \<open>
  A non-negative bignum of at most \<^verbatim>\<open>BUF_MAX_MPINT\<close> bytes on the wire is read back as
  written, with all of its bytes consumed; in particular its encoding never looks negative.
\<close>

theorem buf_mpint_roundtrip:
  assumes "buf_wf b" "0 \<le> a" "length (mpint_bytes a) \<le> 1030" "buf_putmpint b a = Inr b2"
  shows "\<exists>b0. buf_setpos b2 (buf_pos b) = Inr b0 \<and> buf_getmpint b0 = Inr (Some a, b2)"
proof -
  define n where "n = length (mpint_bytes a)"
  let ?m = "store32h (of_nat n) @ mpint_bytes a"
  have u: "unat (of_nat n :: u32) = n" using assms(3) by (simp add: n_def)
  have "mp_count_bits a < 2 ^ 31"
    using assms(3) by (cases "a = 0") (simp_all add: mpint_bytes_length mp_count_bits_def count_bits.simps [of 0])
  then have fn: "buf_fits b (4 + n)"
    using buf_putmpint_nofit [OF assms(1,2)] assms(4) by (auto simp: n_def)
  then have f: "buf_fits b (length ?m)" by (simp add: n_def)
  have b2: "b2 = buf_put b ?m" using assms fn by (simp add: buf_putmpint_eq n_def)
  obtain b0 t where b0: "buf_setpos b2 (buf_pos b) = Inr b0" "buf_wf b0" "buf_rest b0 = ?m @ t"
      "buf_adv b0 (length ?m) = b2"
    using buf_put_setpos [OF assms(1) f] b2 by auto
  have "buf_getmpint b0 = Inr (Some a, buf_adv b0 (length ?m))"
  proof (cases "a = 0")
    case True
    then show ?thesis using b0 by (simp add: buf_getmpint_eq mpint_bytes_def n_def)
  next
    case False
    then have "n > 0" by (simp add: n_def mpint_bytes_length)
    moreover from this have "mpint_bytes a \<noteq> []" by (auto simp: n_def)
    moreover from \<open>n > 0\<close> u have "(of_nat n :: u32) \<noteq> 0" by (metis unat_0 neq0_conv)
    ultimately show ?thesis
      using b0 u mpint_top_clear [OF False] assms(2,3) mpint_bytes_value [OF assms(2)]
      by (simp add: buf_getmpint_eq Let_def n_def)
  qed
  with b0 show ?thesis by simp
qed

theorem buf_mpint_roundtrip_witness:
  "let b = \<lparr>buf_data = replicate 10 0, buf_len = 0, buf_pos = 0, buf_size = 10\<rparr> in
   \<exists>b2. buf_putmpint b 32768 = Inr b2 \<and>
   (\<exists>b0. buf_setpos b2 0 = Inr b0 \<and> buf_getmpint b0 = Inr (Some 32768, b2))"
proof -
  let ?b = "\<lparr>buf_data = replicate 10 0, buf_len = 0, buf_pos = 0, buf_size = 10\<rparr>"
  have w: "buf_wf ?b" by code_simp
  have l: "length (mpint_bytes 32768) = 3"
    by (simp add: mpint_bytes_length mp_count_bits_def count_bits.simps)
  then have f: "buf_fits ?b (4 + length (mpint_bytes 32768))" by (simp add: buf_fits_def)
  obtain b2 where p: "buf_putmpint ?b 32768 = Inr b2"
    using buf_putmpint_eq [OF w _ f] by simp
  from buf_mpint_roundtrip [OF w _ _ p] p l show ?thesis
    by (simp add: Let_def)
qed

section \<open>Working inside a buffer\<close>

text \<open>The moves that the packet code makes on a buffer it is building, in terms of the content.\<close>

lemma buf_setpos_ok:
  assumes "buf_wf b" "unat p \<le> unat (buf_len b)"
  shows "buf_setpos b p = Inr (b\<lparr>buf_pos := p\<rparr>)" "buf_wf (b\<lparr>buf_pos := p\<rparr>)"
    "buf_content (b\<lparr>buf_pos := p\<rparr>) = buf_content b"
    "buf_rest (b\<lparr>buf_pos := p\<rparr>) = drop (unat p) (buf_content b)"
  using assms by (auto simp: buf_setpos_def buf_wf_def buf_content_def buf_rest_def wnat)

lemma buf_setlen_ok:
  assumes "buf_wf b" "unat n \<le> unat (buf_size b)" "unat (buf_pos b) \<le> unat n"
  shows "buf_setlen b n = Inr (b\<lparr>buf_len := n\<rparr>)" "buf_wf (b\<lparr>buf_len := n\<rparr>)"
    "unat n \<le> unat (buf_len b) \<Longrightarrow> buf_content (b\<lparr>buf_len := n\<rparr>) = take (unat n) (buf_content b)"
proof -
  have "min (buf_pos b) n = buf_pos b" using assms(3) by (simp add: min_def wnat)
  then show "buf_setlen b n = Inr (b\<lparr>buf_len := n\<rparr>)"
    using assms by (simp add: buf_setlen_def wnat)
  show "buf_wf (b\<lparr>buf_len := n\<rparr>)" using assms by (simp add: buf_wf_def wnat)
  show "buf_content (b\<lparr>buf_len := n\<rparr>) = take (unat n) (buf_content b)" if "unat n \<le> unat (buf_len b)"
    using that by (simp add: buf_content_def min_def)
qed

lemma buf_clear_ok:
  assumes "buf_wf b"
  shows "\<exists>b'. rbind (buf_setpos b 0) (\<lambda>b. buf_setlen b 0) = Inr b' \<and> buf_wf b' \<and> buf_content b' = []
    \<and> buf_pos b' = 0 \<and> buf_len b' = 0 \<and> buf_size b' = buf_size b"
proof -
  have w: "buf_wf (b\<lparr>buf_pos := 0\<rparr>)" using buf_setpos_ok(2) [OF assms, of 0] by simp
  show ?thesis
    using buf_setpos_ok(1) [OF assms, of 0] buf_setlen_ok(1,2) [OF w, of 0]
    by (auto simp: buf_content_def)
qed

lemma buf_incrlen_ok:
  assumes "buf_wf b" "unat (buf_len b) + unat n \<le> unat (buf_size b)"
  shows "buf_incrlen b n = Inr (b\<lparr>buf_len := buf_len b + n\<rparr>)" "buf_wf (b\<lparr>buf_len := buf_len b + n\<rparr>)"
    "unat (buf_len b + n) = unat (buf_len b) + unat n"
    "buf_content (b\<lparr>buf_len := buf_len b + n\<rparr>)
       = buf_content b @ take (unat n) (drop (unat (buf_len b)) (buf_data b))"
proof -
  note bd = buf_wf_bounds [OF assms(1)]
  show u: "unat (buf_len b + n) = unat (buf_len b) + unat n" using assms(2) bd by (intro unat_incr) linarith
  have "\<not> (n > BUF_MAX_INCR \<or> buf_len b + n > buf_size b)"
    using incr_guard [of "buf_len b" "buf_size b" n] bd assms(2) by simp
  then show i: "buf_incrlen b n = Inr (b\<lparr>buf_len := buf_len b + n\<rparr>)" by (simp add: buf_incrlen_def)
  show "buf_wf (b\<lparr>buf_len := buf_len b + n\<rparr>)" by (rule buf_incrlen_wf [OF assms(1) i])
  show "buf_content (b\<lparr>buf_len := buf_len b + n\<rparr>)
       = buf_content b @ take (unat n) (drop (unat (buf_len b)) (buf_data b))"
    by (simp add: buf_content_def u take_add)
qed

text \<open>Overwriting used bytes in place.\<close>

definition buf_over :: "buffer \<Rightarrow> nat \<Rightarrow> bytes \<Rightarrow> buffer" where
  "buf_over b p bs = b\<lparr>buf_data := take p (buf_data b) @ bs @ drop (p + length bs) (buf_data b)\<rparr>"

lemma buf_over_fields [simp]:
  "buf_len (buf_over b p bs) = buf_len b" "buf_pos (buf_over b p bs) = buf_pos b"
  "buf_size (buf_over b p bs) = buf_size b"
  by (simp_all add: buf_over_def)

lemma buf_over_ok:
  assumes "buf_wf b" "p + length bs \<le> unat (buf_len b)"
  shows "mem_write (buf_data b) p bs = Inr (buf_data (buf_over b p bs))" "buf_wf (buf_over b p bs)"
    "b\<lparr>buf_data := buf_data (buf_over b p bs)\<rparr> = buf_over b p bs"
    "buf_content (buf_over b p bs) = take p (buf_content b) @ bs @ drop (p + length bs) (buf_content b)"
proof -
  note bd = buf_wf_bounds [OF assms(1)]
  show "mem_write (buf_data b) p bs = Inr (buf_data (buf_over b p bs))"
    using assms bd by (simp add: buf_over_def)
  show "buf_wf (buf_over b p bs)" using assms bd by (simp add: buf_wf_def buf_over_def)
  show "b\<lparr>buf_data := buf_data (buf_over b p bs)\<rparr> = buf_over b p bs" by (simp add: buf_over_def)
  show "buf_content (buf_over b p bs) = take p (buf_content b) @ bs @ drop (p + length bs) (buf_content b)"
  proof -
    have "take (unat (buf_len b)) (take p (buf_data b)) = take p (take (unat (buf_len b)) (buf_data b))"
      by (simp add: min.commute)
    then show ?thesis using assms bd by (simp add: buf_content_def buf_over_def drop_take)
  qed
qed

text \<open>The copy that \<^verbatim>\<open>buf_newcopy\<close> makes.\<close>

lemma buf_newcopy_ok:
  assumes "buf_wf b"
  shows "\<exists>c. buf_newcopy b = Inr c \<and> buf_wf c \<and> buf_content c = buf_content b \<and> buf_len c = buf_len b
    \<and> buf_data c = buf_content b \<and> buf_pos c = 0"
proof -
  note bd = buf_wf_bounds [OF assms]
  have le: "buf_len b \<le> BUF_MAX_SIZE" using bd by (simp add: wnat BUF_MAX_SIZE_def)
  define c where "c = \<lparr>buf_data = buf_content b, buf_len = buf_len b, buf_pos = 0, buf_size = buf_len b\<rparr>"
  have "buf_newcopy b = Inr c"
    using bd le by (cases "buf_len b = 0")
      (auto simp: buf_newcopy_def buf_new_def c_def buf_content_def Let_def word_gt_0)
  moreover have "buf_wf c" using bd le by (simp add: c_def buf_wf_def buf_content_def)
  moreover have "buf_content c = buf_content b" by (simp add: c_def buf_content_def)
  ultimately show ?thesis by (simp add: c_def)
qed

end
