(* ===== verification/Fifo.thy ===== *)
theory Fifo
  imports DB_Prelude
begin

text \<open>
  The contract of a first-in first-out store: what the clients of \<^verbatim>\<open>circbuffer.c\<close> (bytes) and of
  \<^verbatim>\<open>queue.c\<close> (buffers) rely on. The laws speak of one insertion and one removal; the locale
  derives from them what any sequence of both does.
\<close>

datatype 'a fifo_op = Put "'a list" | Get nat

fun fifo_run :: "('q \<Rightarrow> 'a list \<Rightarrow> 'q res) \<Rightarrow> ('q \<Rightarrow> nat \<Rightarrow> ('a list \<times> 'q) res)
    \<Rightarrow> 'q \<Rightarrow> 'a fifo_op list \<Rightarrow> ('a list \<times> 'q) res" where
  "fifo_run put get q [] = Inr ([], q)"
| "fifo_run put get q (Put xs # cs) = rbind (put q xs) (\<lambda>q. fifo_run put get q cs)"
| "fifo_run put get q (Get n # cs) =
     rbind (get q n) (\<lambda>(ys, q). rbind (fifo_run put get q cs) (\<lambda>(zs, q). Inr (ys @ zs, q)))"

fun inserted :: "'a fifo_op list \<Rightarrow> 'a list" where
  "inserted [] = []"
| "inserted (Put xs # cs) = xs @ inserted cs"
| "inserted (Get n # cs) = inserted cs"

locale fifo =
  fixes wf :: "'q \<Rightarrow> bool"
    and contents :: "'q \<Rightarrow> 'a list"
    and room :: "'q \<Rightarrow> nat"
    and put :: "'q \<Rightarrow> 'a list \<Rightarrow> 'q res"
    and get :: "'q \<Rightarrow> nat \<Rightarrow> ('a list \<times> 'q) res"
  assumes put_law: "\<And>q xs. wf q \<Longrightarrow> length xs \<le> room q \<Longrightarrow>
      \<exists>q'. put q xs = Inr q' \<and> wf q' \<and> contents q' = contents q @ xs"
    and get_law: "\<And>q n. wf q \<Longrightarrow> n \<le> length (contents q) \<Longrightarrow>
      \<exists>q'. get q n = Inr (take n (contents q), q') \<and> wf q' \<and> contents q' = drop n (contents q)"
    and put_full: "\<And>q xs q'. wf q \<Longrightarrow> put q xs = Inr q' \<Longrightarrow> length xs \<le> room q"
    and get_empty: "\<And>q n r. wf q \<Longrightarrow> get q n = Inr r \<Longrightarrow> n \<le> length (contents q)"
begin

lemma put_cases:
  assumes "wf q" "put q xs = Inr q'"
  shows "wf q'" "contents q' = contents q @ xs"
  using put_law [OF assms(1) put_full [OF assms]] assms(2) by auto

lemma get_cases:
  assumes "wf q" "get q n = Inr (ys, q')"
  shows "wf q'" "ys = take n (contents q)" "contents q = ys @ contents q'"
  using get_law [OF assms(1) get_empty [OF assms]] assms(2) by auto

text \<open>Nothing is lost, duplicated or reordered.\<close>

lemma run_conserves:
  "wf q \<Longrightarrow> fifo_run put get q cs = Inr (out, q') \<Longrightarrow>
   wf q' \<and> contents q @ inserted cs = out @ contents q'"
proof (induction cs arbitrary: q out)
  case (Cons c cs)
  show ?case
  proof (cases c)
    case (Put xs)
    then obtain q1 where q1: "put q xs = Inr q1" "fifo_run put get q1 cs = Inr (out, q')"
      using Cons.prems by (auto elim: rbind_InrE)
    note p = put_cases [OF Cons.prems(1) q1(1)]
    show ?thesis using Cons.IH [OF p(1) q1(2)] p(2) Put by simp
  next
    case (Get n)
    then obtain ys q1 zs where q1: "get q n = Inr (ys, q1)" "fifo_run put get q1 cs = Inr (zs, q')"
      "out = ys @ zs"
      using Cons.prems by (fastforce elim!: rbind_InrE)
    note p = get_cases [OF Cons.prems(1) q1(1)]
    show ?thesis using Cons.IH [OF p(1) q1(2)] p(3) q1(3) Get by auto
  qed
qed simp

end

end
