(* ===== verification/Circbuffer.thy ===== *)
theory Circbuffer
  imports Fifo
begin

text \<open>
  The circular byte buffer of \<^verbatim>\<open>circbuffer.c\<close>, which holds channel data on its way to a file
  descriptor. The data area is allocated on the first write. The three run-time assertions of
  \<^verbatim>\<open>cbuf_writelen\<close> are part of the model; the invariant shows that they never fail.
\<close>

section \<open>State and operations\<close>

record circbuffer =
  cbuf_size :: u32
  cbuf_readpos :: u32
  cbuf_writepos :: u32
  cbuf_used :: u32
  cbuf_data :: "bytes option"

definition MAX_CBUF_SIZE :: u32 where "MAX_CBUF_SIZE = 100000000"

definition cbuf_new :: "u32 \<Rightarrow> circbuffer res" where
  "cbuf_new sz =
     (if sz > MAX_CBUF_SIZE then Inl (Exit ''Bad cbuf size'')
      else Inr \<lparr>cbuf_size = sz, cbuf_readpos = 0, cbuf_writepos = 0, cbuf_used = 0,
                cbuf_data = None\<rparr>)"

text \<open>The memory that is released: the data area, overwritten first, when there is one.\<close>

definition cbuf_free :: "circbuffer \<Rightarrow> bytes option" where
  "cbuf_free c = (case cbuf_data c of None \<Rightarrow> None | Some _ \<Rightarrow> Some (replicate (unat (cbuf_size c)) 0))"

definition cbuf_getused :: "circbuffer \<Rightarrow> u32" where "cbuf_getused c = cbuf_used c"

definition cbuf_getavail :: "circbuffer \<Rightarrow> u32" where "cbuf_getavail c = cbuf_size c - cbuf_used c"

definition cbuf_writelen :: "circbuffer \<Rightarrow> u32 res" where
  "cbuf_writelen c =
     rbind (dropbear_assert ''cbuf->used <= cbuf->size'' (cbuf_used c \<le> cbuf_size c)) (\<lambda>_.
     rbind (umod (2 * cbuf_size c + cbuf_writepos c - cbuf_readpos c) (cbuf_size c)) (\<lambda>l.
     rbind (umod (cbuf_used c) (cbuf_size c)) (\<lambda>r.
     rbind (dropbear_assert ''writepos-readpos == used'' (l = r)) (\<lambda>_.
     rbind (umod (2 * cbuf_size c + cbuf_readpos c - cbuf_writepos c) (cbuf_size c)) (\<lambda>l.
     rbind (umod (cbuf_size c - cbuf_used c) (cbuf_size c)) (\<lambda>r.
     rbind (dropbear_assert ''readpos-writepos == size-used'' (l = r)) (\<lambda>_.
     Inr (if cbuf_used c = cbuf_size c then 0
          else if cbuf_writepos c < cbuf_readpos c then cbuf_readpos c - cbuf_writepos c
          else cbuf_size c - cbuf_writepos c))))))))"

text \<open>The two readable portions, each as the offset of its pointer and its length.\<close>

definition cbuf_readptrs :: "circbuffer \<Rightarrow> (nat \<times> u32) \<times> (nat option \<times> u32)" where
  "cbuf_readptrs c =
     (let len1 = min (cbuf_used c) (cbuf_size c - cbuf_readpos c) in
      ((unat (cbuf_readpos c), len1),
       (if len1 < cbuf_used c then (Some 0, cbuf_used c - len1) else (None, 0))))"

definition cbuf_writeptr :: "circbuffer \<Rightarrow> u32 \<Rightarrow> (nat \<times> circbuffer) res" where
  "cbuf_writeptr c n =
     rbind (cbuf_writelen c) (\<lambda>wl.
     if n > wl then Inl (Exit ''Bad cbuf write'')
     else let c = (case cbuf_data c of
                     None \<Rightarrow> c\<lparr>cbuf_data := Some (replicate (unat (cbuf_size c)) 0)\<rparr> | Some _ \<Rightarrow> c) in
          Inr (unat (cbuf_writepos c), c))"

definition cbuf_incrwrite :: "circbuffer \<Rightarrow> u32 \<Rightarrow> circbuffer res" where
  "cbuf_incrwrite c n =
     rbind (cbuf_writelen c) (\<lambda>wl.
     if n > wl then Inl (Exit ''Bad cbuf write'')
     else let c = c\<lparr>cbuf_used := cbuf_used c + n\<rparr> in
          rbind (dropbear_assert ''cbuf->used <= cbuf->size'' (cbuf_used c \<le> cbuf_size c)) (\<lambda>_.
          rbind (umod (cbuf_writepos c + n) (cbuf_size c)) (\<lambda>w.
          Inr (c\<lparr>cbuf_writepos := w\<rparr>))))"

definition cbuf_incrread :: "circbuffer \<Rightarrow> u32 \<Rightarrow> circbuffer res" where
  "cbuf_incrread c n =
     rbind (dropbear_assert ''cbuf->used >= len'' (cbuf_used c \<ge> n)) (\<lambda>_.
     let c = c\<lparr>cbuf_used := cbuf_used c - n\<rparr> in
     rbind (umod (cbuf_readpos c + n) (cbuf_size c)) (\<lambda>r.
     Inr (c\<lparr>cbuf_readpos := r\<rparr>)))"

text \<open>
  How clients use these: a copy through the write pointer followed by \<^verbatim>\<open>cbuf_incrwrite\<close>, and a
  read through the two read pointers followed by \<^verbatim>\<open>cbuf_incrread\<close>.
\<close>

definition cbuf_deref :: "circbuffer \<Rightarrow> nat \<Rightarrow> nat \<Rightarrow> bytes res" where
  "cbuf_deref c off n =
     (if n = 0 then Inr []
      else case cbuf_data c of None \<Rightarrow> Inl NullDeref | Some d \<Rightarrow> mem_read d off n)"

definition cbuf_write :: "circbuffer \<Rightarrow> bytes \<Rightarrow> circbuffer res" where
  "cbuf_write c bs =
     rbind (cbuf_writeptr c (of_nat (length bs))) (\<lambda>(p, c).
     rbind (case cbuf_data c of None \<Rightarrow> Inl NullDeref | Some d \<Rightarrow> mem_write d p bs) (\<lambda>d.
     cbuf_incrwrite (c\<lparr>cbuf_data := Some d\<rparr>) (of_nat (length bs))))"

definition cbuf_peek :: "circbuffer \<Rightarrow> bytes res" where
  "cbuf_peek c =
     (let ((p1, len1), (p2, len2)) = cbuf_readptrs c in
      rbind (cbuf_deref c p1 (unat len1)) (\<lambda>x.
      rbind (case p2 of None \<Rightarrow> Inr [] | Some p \<Rightarrow> cbuf_deref c p (unat len2)) (\<lambda>y.
      Inr (x @ y))))"

definition cbuf_read :: "circbuffer \<Rightarrow> nat \<Rightarrow> (bytes \<times> circbuffer) res" where
  "cbuf_read c n =
     rbind (cbuf_peek c) (\<lambda>bs.
     rbind (cbuf_incrread c (of_nat n)) (\<lambda>c. Inr (take n bs, c)))"

section \<open>Invariant and contents\<close>

definition cbuf_wf :: "circbuffer \<Rightarrow> bool" where
  "cbuf_wf c \<longleftrightarrow> 0 < cbuf_size c \<and> cbuf_size c \<le> MAX_CBUF_SIZE \<and> cbuf_used c \<le> cbuf_size c
     \<and> cbuf_readpos c < cbuf_size c
     \<and> unat (cbuf_writepos c) = (unat (cbuf_readpos c) + unat (cbuf_used c)) mod unat (cbuf_size c)
     \<and> (case cbuf_data c of None \<Rightarrow> cbuf_used c = 0 | Some d \<Rightarrow> length d = unat (cbuf_size c))"

definition cbuf_contents :: "circbuffer \<Rightarrow> bytes" where
  "cbuf_contents c = (case cbuf_data c of None \<Rightarrow> []
     | Some d \<Rightarrow> take (unat (cbuf_used c)) (drop (unat (cbuf_readpos c)) d @ d))"

definition cbuf_room :: "circbuffer \<Rightarrow> nat" where
  "cbuf_room c =
     (if cbuf_used c = cbuf_size c then 0
      else if unat (cbuf_writepos c) < unat (cbuf_readpos c)
           then unat (cbuf_readpos c) - unat (cbuf_writepos c)
           else unat (cbuf_size c) - unat (cbuf_writepos c))"

lemma mod_once: "a < 2 * n \<Longrightarrow> a mod n = (if a < n then a else a - n)" for a n :: nat
  by (auto simp: mod_if [of a n] mod_less)

lemma cbuf_wf_nat:
  assumes "cbuf_wf c"
  shows "0 < unat (cbuf_size c)" "unat (cbuf_size c) \<le> 100000000"
    "unat (cbuf_used c) \<le> unat (cbuf_size c)" "unat (cbuf_readpos c) < unat (cbuf_size c)"
    "unat (cbuf_writepos c) < unat (cbuf_size c)"
    "unat (cbuf_writepos c) = (if unat (cbuf_readpos c) + unat (cbuf_used c) < unat (cbuf_size c)
       then unat (cbuf_readpos c) + unat (cbuf_used c)
       else unat (cbuf_readpos c) + unat (cbuf_used c) - unat (cbuf_size c))"
proof -
  show n: "0 < unat (cbuf_size c)" "unat (cbuf_size c) \<le> 100000000"
    "unat (cbuf_used c) \<le> unat (cbuf_size c)" "unat (cbuf_readpos c) < unat (cbuf_size c)"
    using assms by (simp_all add: cbuf_wf_def MAX_CBUF_SIZE_def wnat unat_gt_0)
  have w: "unat (cbuf_writepos c) = (unat (cbuf_readpos c) + unat (cbuf_used c)) mod unat (cbuf_size c)"
    using assms by (simp add: cbuf_wf_def)
  show "unat (cbuf_writepos c) < unat (cbuf_size c)" using n(1) by (simp add: w)
  show "unat (cbuf_writepos c) = (if unat (cbuf_readpos c) + unat (cbuf_used c) < unat (cbuf_size c)
       then unat (cbuf_readpos c) + unat (cbuf_used c)
       else unat (cbuf_readpos c) + unat (cbuf_used c) - unat (cbuf_size c))"
    unfolding w using n by (intro mod_once) linarith
qed

lemma umod_nat: "b \<noteq> 0 \<Longrightarrow> umod a b = Inr (a mod b)"
  by (simp add: umod_def)

text \<open>The wrapped differences in the assertions, as naturals.\<close>

lemma unat_ring_diff:
  assumes "unat s \<le> 100000000" "unat a < unat s" "unat b < unat s"
  shows "unat (2 * s + a - b :: u32) = 2 * unat s + unat a - unat b"
proof -
  have "unat (2 * s :: u32) = 2 * unat s" using assms by (simp add: unat_word_ariths)
  then have "unat (2 * s + a) = 2 * unat s + unat a" using assms by (subst unat_add32) auto
  then show ?thesis using assms by (subst unat_sub32) (auto simp: wnat)
qed

lemma cbuf_writelen_eq:
  assumes "cbuf_wf c"
  shows "cbuf_writelen c = Inr (of_nat (cbuf_room c))"
proof -
  note n = cbuf_wf_nat [OF assms]
  let ?s = "cbuf_size c" and ?w = "cbuf_writepos c" and ?r = "cbuf_readpos c" and ?u = "cbuf_used c"
  have s0: "?s \<noteq> 0" using n(1) by auto
  have le: "?u \<le> ?s" using n by (simp add: wnat)
  have "(2 * unat ?s + unat ?w - unat ?r) mod unat ?s = unat ?u mod unat ?s"
  proof (cases "unat ?r + unat ?u < unat ?s")
    case True
    then have "2 * unat ?s + unat ?w - unat ?r = unat ?u + 2 * unat ?s" using n by simp
    then show ?thesis by (simp only: mod_mult_self1)
  next
    case False
    then have "2 * unat ?s + unat ?w - unat ?r = unat ?u + 1 * unat ?s" using n by simp
    then show ?thesis by (simp only: mod_mult_self1)
  qed
  then have "(2 * ?s + ?w - ?r) mod ?s = ?u mod ?s"
    using n by (simp add: word_unat_eq_iff unat_mod unat_ring_diff)
  moreover have "(2 * unat ?s + unat ?r - unat ?w) mod unat ?s = (unat ?s - unat ?u) mod unat ?s"
  proof (cases "unat ?r + unat ?u < unat ?s")
    case True
    then have "2 * unat ?s + unat ?r - unat ?w = (unat ?s - unat ?u) + 1 * unat ?s" using n by simp
    then show ?thesis by (simp only: mod_mult_self1)
  next
    case False
    then have "2 * unat ?s + unat ?r - unat ?w = (unat ?s - unat ?u) + 2 * unat ?s" using n by simp
    then show ?thesis by (simp only: mod_mult_self1)
  qed
  then have "(2 * ?s + ?r - ?w) mod ?s = (?s - ?u) mod ?s"
    using n le by (simp add: word_unat_eq_iff unat_mod unat_ring_diff unat_sub32)
  moreover have "of_nat (cbuf_room c) = (if ?u = ?s then 0
      else if ?w < ?r then ?r - ?w else ?s - ?w)"
    using n(5) by (simp add: cbuf_room_def wnat)
  ultimately show ?thesis
    using s0 le by (simp add: cbuf_writelen_def umod_nat)
qed

lemma cbuf_room_le: "cbuf_wf c \<Longrightarrow> unat (cbuf_used c) + cbuf_room c \<le> unat (cbuf_size c)"
  using cbuf_wf_nat [of c] by (auto simp: cbuf_room_def word_unat_eq_iff split: if_splits)

lemma cbuf_room_pos: "cbuf_wf c \<Longrightarrow> cbuf_used c \<noteq> cbuf_size c \<Longrightarrow> 0 < cbuf_room c"
  using cbuf_wf_nat [of c] by (auto simp: cbuf_room_def)

lemma cbuf_room_bound: "cbuf_wf c \<Longrightarrow> cbuf_room c \<le> 100000000"
  using cbuf_room_le [of c] cbuf_wf_nat [of c] by linarith

text \<open>The data area as the code sees it once allocated.\<close>

definition cbuf_area :: "circbuffer \<Rightarrow> bytes" where
  "cbuf_area c = (case cbuf_data c of None \<Rightarrow> replicate (unat (cbuf_size c)) 0 | Some d \<Rightarrow> d)"

lemma cbuf_area_length: "cbuf_wf c \<Longrightarrow> length (cbuf_area c) = unat (cbuf_size c)"
  by (auto simp: cbuf_area_def cbuf_wf_def split: option.splits)

lemma cbuf_contents_area:
  "cbuf_wf c \<Longrightarrow>
   cbuf_contents c = take (unat (cbuf_used c)) (drop (unat (cbuf_readpos c)) (cbuf_area c) @ cbuf_area c)"
  by (auto simp: cbuf_area_def cbuf_contents_def cbuf_wf_def split: option.splits)

lemma cbuf_contents_length: "cbuf_wf c \<Longrightarrow> length (cbuf_contents c) = unat (cbuf_used c)"
  using cbuf_wf_nat [of c] by (simp add: cbuf_contents_area cbuf_area_length)

text \<open>Writing into the free part of the ring appends to its contents.\<close>

lemma ring_append:
  fixes d bs :: "'a list"
  assumes "length d = S" "r < S" "u \<le> S" "w = (if r + u < S then r + u else r + u - S)"
    and "length bs \<le> (if u = S then 0 else if w < r then r - w else S - w)"
  shows "take (u + length bs) (drop r (take w d @ bs @ drop (w + length bs) d)
           @ (take w d @ bs @ drop (w + length bs) d)) = take u (drop r d @ d) @ bs"
proof (cases "r + u < S")
  case True
  then have w: "w = r + u" using assms(4) by simp
  then have "drop r (take w d) = take u (drop r d)" "r \<le> w" by (simp_all add: drop_take)
  moreover have "w + length bs \<le> S"
  proof -
    have "u \<noteq> S" "\<not> w < r" using True w by auto
    then show ?thesis using assms(5) True w by simp
  qed
  moreover have lp: "length (take u (drop r d)) = u" using True assms by simp
  ultimately have "drop r (take w d @ bs @ drop (w + length bs) d)
      = (take u (drop r d) @ bs) @ drop (w + length bs) d"
    using assms(1) by simp
  moreover have "take (u + length bs) (((take u (drop r d) @ bs) @ y) @ z) = take u (drop r d) @ bs" for y z
    using lp by simp
  moreover have "take u (drop r d @ d) = take u (drop r d)" using True assms(1) by simp
  ultimately show ?thesis by (simp only:)
next
  case nfit: False
  then have w: "w = r + u - S" "w \<le> r" "w < S" using assms(2-4) by simp_all
  show ?thesis
  proof (cases "u = S")
    case True
    then show ?thesis using assms(5) by simp
  next
    case False
    then have "w < r" using assms(2,3) w(1) nfit by simp
    then have "w + length bs \<le> r" using False assms(5) by simp
    then have "drop r (take w d @ bs @ drop (w + length bs) d) = drop r d" using assms by simp
    moreover have "u - (S - r) = w" "u + length bs - (S - r) = w + length bs" "S - r \<le> u"
      using w(1) nfit assms(2) by simp_all
    ultimately show ?thesis using assms(1-3) w(1) by simp
  qed
qed

lemma cbuf_put_law:
  assumes wf: "cbuf_wf c" and n: "length bs \<le> cbuf_room c"
  shows "\<exists>c'. cbuf_write c bs = Inr c' \<and> cbuf_wf c' \<and> cbuf_contents c' = cbuf_contents c @ bs
    \<and> cbuf_size c' = cbuf_size c"
proof -
  note b = cbuf_wf_nat [OF wf]
  let ?n = "of_nat (length bs) :: u32"
  let ?w = "unat (cbuf_writepos c)"
  define d where "d = take ?w (cbuf_area c) @ bs @ drop (?w + length bs) (cbuf_area c)"
  have u: "unat ?n = length bs" "unat (of_nat (cbuf_room c) :: u32) = cbuf_room c"
    using n cbuf_room_bound [OF wf] by simp_all
  have fit: "?w + length bs \<le> unat (cbuf_size c)"
    using n b by (auto simp: cbuf_room_def split: if_splits)
  define c0 where "c0 = c\<lparr>cbuf_data := Some d\<rparr>"
  have ld: "length d = unat (cbuf_size c)" using fit wf by (simp add: d_def cbuf_area_length)
  have wf0: "cbuf_wf c0" using wf ld by (simp add: cbuf_wf_def c0_def)
  have room0: "cbuf_room c0 = cbuf_room c" by (simp add: cbuf_room_def c0_def)
  have used: "unat (cbuf_used c + ?n) = unat (cbuf_used c) + length bs"
    using u b n cbuf_room_le [OF wf] by (subst unat_add32) linarith+
  have wp: "unat (cbuf_writepos c + ?n) = ?w + length bs"
    using u b fit by (subst unat_add32) linarith+
  define c1 where "c1 = c0\<lparr>cbuf_used := cbuf_used c + ?n,
      cbuf_writepos := (cbuf_writepos c + ?n) mod cbuf_size c\<rparr>"
  have le: "\<not> of_nat (cbuf_room c) < ?n" using n u by (simp add: wnat)
  have s0: "cbuf_size c \<noteq> 0" using b by auto
  have f0: "cbuf_used c0 = cbuf_used c" "cbuf_size c0 = cbuf_size c"
      "cbuf_writepos c0 = cbuf_writepos c" by (simp_all add: c0_def)
  have "cbuf_used c + ?n \<le> cbuf_size c" using used cbuf_room_le [OF wf] n by (simp add: wnat)
  then have "cbuf_incrwrite c0 ?n = Inr c1"
    using le s0 by (simp add: cbuf_incrwrite_def cbuf_writelen_eq [OF wf0] room0 f0 c1_def umod_nat Let_def)
  moreover have "cbuf_writeptr c ?n = Inr (?w, c\<lparr>cbuf_data := Some (cbuf_area c)\<rparr>)"
    using cbuf_writelen_eq [OF wf] le
    by (auto simp: cbuf_writeptr_def cbuf_area_def Let_def split: option.splits)
  moreover have "mem_write (cbuf_area c) ?w bs = Inr d"
    using fit wf by (simp add: d_def cbuf_area_length)
  ultimately have run: "cbuf_write c bs = Inr c1"
    by (simp add: cbuf_write_def c0_def)
  have "unat (cbuf_writepos c1) = (unat (cbuf_readpos c1) + unat (cbuf_used c1)) mod unat (cbuf_size c1)"
    using used wp wf by (simp add: c1_def c0_def unat_mod cbuf_wf_def mod_add_right_eq ac_simps)
  then have wf1: "cbuf_wf c1"
    using wf b ld used cbuf_room_le [OF wf] n by (simp add: c1_def c0_def cbuf_wf_def wnat)
  have "take (unat (cbuf_used c) + length bs) (drop (unat (cbuf_readpos c)) d @ d)
     = take (unat (cbuf_used c)) (drop (unat (cbuf_readpos c)) (cbuf_area c) @ cbuf_area c) @ bs"
    unfolding d_def using b n wf
    by (intro ring_append [where S = "unat (cbuf_size c)"])
       (simp_all add: cbuf_area_length cbuf_room_def word_unat_eq_iff)
  then have "cbuf_contents c1 = cbuf_contents c @ bs"
    using used by (simp add: cbuf_contents_area [OF wf]) (simp add: cbuf_contents_def c1_def c0_def)
  with run wf1 show ?thesis by (simp add: c1_def c0_def)
qed

lemma cbuf_peek_eq:
  assumes "cbuf_wf c" shows "cbuf_peek c = Inr (cbuf_contents c)"
proof -
  note b = cbuf_wf_nat [OF assms]
  let ?len1 = "min (cbuf_used c) (cbuf_size c - cbuf_readpos c)"
  have l1: "unat ?len1 = min (unat (cbuf_used c)) (unat (cbuf_size c) - unat (cbuf_readpos c))"
    using b by (simp add: unat_min unat_sub32 wnat)
  have l2: "unat (cbuf_used c - ?len1) = unat (cbuf_used c) - unat ?len1"
    by (simp add: unat_sub32)
  show ?thesis
  proof (cases "cbuf_data c")
    case None
    then show ?thesis
      using assms by (simp add: cbuf_peek_def cbuf_readptrs_def cbuf_deref_def cbuf_contents_def cbuf_wf_def)
  next
    case (Some d)
    then have d: "length d = unat (cbuf_size c)" using assms by (simp add: cbuf_wf_def)
    have p1: "cbuf_deref c (unat (cbuf_readpos c)) (unat ?len1)
        = Inr (take (unat (cbuf_used c)) (drop (unat (cbuf_readpos c)) d))"
      using Some d b l1 by (auto simp: cbuf_deref_def min_def)
    have p2: "cbuf_deref c 0 (unat (cbuf_used c - ?len1)) = Inr (take (unat (cbuf_used c) - unat ?len1) d)"
      using Some d b l2 by (auto simp: cbuf_deref_def)
    show ?thesis
    proof (cases "?len1 < cbuf_used c")
      case True
      then have "unat ?len1 = unat (cbuf_size c) - unat (cbuf_readpos c)" using l1 by (simp add: wnat min_def split: if_splits)
      then show ?thesis using p1 p2 True Some d
        by (simp add: cbuf_peek_def cbuf_readptrs_def Let_def cbuf_contents_def)
    next
      case False
      then have "unat (cbuf_used c) \<le> unat (cbuf_size c) - unat (cbuf_readpos c)"
        using l1 by (simp add: wnat min_def split: if_splits)
      then show ?thesis using p1 False Some d
        by (simp add: cbuf_peek_def cbuf_readptrs_def Let_def cbuf_contents_def)
    qed
  qed
qed

text \<open>Advancing the read position drops from the contents.\<close>

lemma ring_drop:
  fixes d :: "'a list"
  assumes "length d = S" "r < S" "u \<le> S" "n \<le> u"
  shows "take (u - n) (drop ((r + n) mod S) d @ d) = drop n (take u (drop r d @ d))"
proof (cases "r + n < S")
  case True
  then show ?thesis using assms by (simp add: drop_take add.commute)
next
  case False
  then have m: "(r + n) mod S = r + n - S" using assms by (subst mod_once) auto
  have "drop n (take u (drop r d @ d)) = take (u - n) (drop (n - (S - r)) d)"
    using False assms by (simp add: drop_take)
  moreover have "n - (S - r) = r + n - S" using False assms by simp
  moreover have "u - n \<le> length d - (r + n - S)" using False assms by simp
  ultimately show ?thesis using m by simp
qed

lemma cbuf_incrread_law:
  assumes wf: "cbuf_wf c" and n: "unat n \<le> unat (cbuf_used c)"
  shows "\<exists>c'. cbuf_incrread c n = Inr c' \<and> cbuf_wf c'
    \<and> cbuf_contents c' = drop (unat n) (cbuf_contents c) \<and> cbuf_size c' = cbuf_size c"
proof -
  note b = cbuf_wf_nat [OF wf]
  define c' where "c' = c\<lparr>cbuf_used := cbuf_used c - n,
     cbuf_readpos := (cbuf_readpos c + n) mod cbuf_size c\<rparr>"
  have s0: "cbuf_size c \<noteq> 0" using b by auto
  have run: "cbuf_incrread c n = Inr c'"
    using n s0 by (simp add: cbuf_incrread_def c'_def umod_nat Let_def wnat)
  have u: "unat (cbuf_used c - n) = unat (cbuf_used c) - unat n" using n by (simp add: unat_sub32 wnat)
  have r: "unat ((cbuf_readpos c + n) mod cbuf_size c) = (unat (cbuf_readpos c) + unat n) mod unat (cbuf_size c)"
    using b n by (simp add: unat_mod unat_add32)
  have "unat (cbuf_writepos c') = (unat (cbuf_readpos c') + unat (cbuf_used c')) mod unat (cbuf_size c')"
  proof -
    have "((unat (cbuf_readpos c) + unat n) mod unat (cbuf_size c) + (unat (cbuf_used c) - unat n)) mod unat (cbuf_size c)
      = (unat (cbuf_readpos c) + unat n + (unat (cbuf_used c) - unat n)) mod unat (cbuf_size c)"
      by (simp only: mod_add_left_eq)
    then show ?thesis using wf u r n by (simp add: c'_def cbuf_wf_def)
  qed
  moreover have "cbuf_data c = None \<Longrightarrow> cbuf_used c - n = 0"
    using wf n by (simp add: cbuf_wf_def unat_eq_zero)
  ultimately have wf': "cbuf_wf c'"
    using wf u r b by (auto simp: c'_def cbuf_wf_def wnat split: option.splits)
  moreover have "cbuf_contents c' = drop (unat n) (cbuf_contents c)"
  proof -
    have "cbuf_area c' = cbuf_area c" "unat (cbuf_used c') = unat (cbuf_used c) - unat n"
      "unat (cbuf_readpos c') = (unat (cbuf_readpos c) + unat n) mod unat (cbuf_size c)"
      using u r by (simp_all add: c'_def cbuf_area_def cong: option.case_cong)
    then show ?thesis
      using ring_drop [OF cbuf_area_length [OF wf] b(4,3) n]
      by (simp only: cbuf_contents_area [OF wf] cbuf_contents_area [OF wf'])
  qed
  ultimately show ?thesis using run by (simp add: c'_def)
qed

lemma cbuf_get_law:
  assumes wf: "cbuf_wf c" and n: "n \<le> length (cbuf_contents c)"
  shows "\<exists>c'. cbuf_read c n = Inr (take n (cbuf_contents c), c') \<and> cbuf_wf c'
    \<and> cbuf_contents c' = drop n (cbuf_contents c)"
proof -
  have "unat (of_nat n :: u32) = n"
    using n cbuf_wf_nat [OF wf] by (simp add: cbuf_contents_length [OF wf])
  then show ?thesis
    using cbuf_incrread_law [OF wf, of "of_nat n"] n
    by (auto simp: cbuf_contents_length [OF wf] cbuf_read_def cbuf_peek_eq [OF wf])
qed

section \<open>The ring is a FIFO\<close>

lemma cbuf_write_room:
  assumes "cbuf_wf c" "unat (of_nat (length bs) :: u32) = length bs" "cbuf_write c bs = Inr c'"
  shows "length bs \<le> cbuf_room c"
proof -
  have "\<not> of_nat (cbuf_room c) < (of_nat (length bs) :: u32)"
    using assms(3) cbuf_writelen_eq [OF assms(1)]
    by (auto simp: cbuf_write_def cbuf_writeptr_def rbind_Inr_iff split: if_splits)
  then show ?thesis using assms(2) cbuf_room_bound [OF assms(1)] by (simp add: wnat)
qed

lemma cbuf_read_used:
  assumes "cbuf_wf c" "unat (of_nat n :: u32) = n" "cbuf_read c n = Inr r" shows "n \<le> length (cbuf_contents c)"
  using assms by (auto simp: cbuf_read_def cbuf_incrread_def rbind_Inr_iff wnat Let_def
      cbuf_contents_length)

text \<open>A chunk that a client copies in or out in one call, whose length is an \<^verbatim>\<open>unsigned int\<close>.\<close>

definition cbuf_put :: "circbuffer \<Rightarrow> bytes \<Rightarrow> circbuffer res" where
  "cbuf_put c bs = (if unat (of_nat (length bs) :: u32) = length bs then cbuf_write c bs else Inl OutOfBounds)"

definition cbuf_get :: "circbuffer \<Rightarrow> nat \<Rightarrow> (bytes \<times> circbuffer) res" where
  "cbuf_get c n = (if unat (of_nat n :: u32) = n then cbuf_read c n else Inl OutOfBounds)"

interpretation ring: fifo cbuf_wf cbuf_contents cbuf_room cbuf_put cbuf_get
proof
  fix c :: circbuffer and bs :: bytes and n :: nat
  assume wf: "cbuf_wf c"
  show "\<exists>c'. cbuf_put c bs = Inr c' \<and> cbuf_wf c' \<and> cbuf_contents c' = cbuf_contents c @ bs"
    if "length bs \<le> cbuf_room c"
    using cbuf_put_law [OF wf that] that cbuf_room_bound [OF wf] by (auto simp: cbuf_put_def)
  show "\<exists>c'. cbuf_get c n = Inr (take n (cbuf_contents c), c') \<and> cbuf_wf c'
      \<and> cbuf_contents c' = drop n (cbuf_contents c)" if "n \<le> length (cbuf_contents c)"
    using cbuf_get_law [OF wf that] that cbuf_wf_nat [OF wf]
    by (auto simp: cbuf_get_def cbuf_contents_length [OF wf])
  show "length bs \<le> cbuf_room c" if "cbuf_put c bs = Inr c'" for c'
    using that cbuf_write_room [OF wf] by (auto simp: cbuf_put_def split: if_splits)
  show "n \<le> length (cbuf_contents c)" if "cbuf_get c n = Inr r" for r
    using that cbuf_read_used [OF wf] by (auto simp: cbuf_get_def split: if_splits)
qed

lemma cbuf_new_wf: "0 < sz \<Longrightarrow> cbuf_new sz = Inr c \<Longrightarrow> cbuf_wf c \<and> cbuf_contents c = []"
  by (auto simp: cbuf_new_def cbuf_wf_def cbuf_contents_def unat_gt_0 wnat split: if_splits)

text \<open>
  C33. A circular buffer is a FIFO of bytes: over any sequence of writes through
  \<^verbatim>\<open>cbuf_writeptr\<close>/\<^verbatim>\<open>cbuf_incrwrite\<close> and reads through \<^verbatim>\<open>cbuf_readptrs\<close>/\<^verbatim>\<open>cbuf_incrread\<close> that does
  not exit, the bytes read followed by those still stored are exactly the bytes written, in order.
\<close>

theorem circbuffer_fifo:
  assumes "0 < sz" "cbuf_new sz = Inr c" "fifo_run cbuf_put cbuf_get c ops = Inr (out, c')"
  shows "inserted ops = out @ cbuf_contents c'"
  using ring.run_conserves [OF _ assms(3)] cbuf_new_wf [OF assms(1,2)] by simp

theorem circbuffer_fifo_witness:
  "\<exists>c out c'. cbuf_new 4 = Inr c \<and>
     (let ops = [Put [1, 2, 3], Get 2, Put [4], Put [5, 6], Get 3] in
      fifo_run cbuf_put cbuf_get c ops = Inr (out, c') \<and> out = [1, 2, 3, 4, 5] \<and>
      inserted ops = out @ cbuf_contents c')"
proof -
  let ?ops = "[Put [1, 2, 3], Get 2, Put [4], Put [5, 6], Get 3] :: u8 fifo_op list"
  let ?c = "\<lparr>cbuf_size = 4, cbuf_readpos = 0, cbuf_writepos = 0, cbuf_used = 0, cbuf_data = None\<rparr>"
  have n: "cbuf_new 4 = Inr ?c" by code_simp
  have r: "fifo_run cbuf_put cbuf_get ?c ?ops = Inr ([1, 2, 3, 4, 5],
     \<lparr>cbuf_size = 4, cbuf_readpos = 1, cbuf_writepos = 2, cbuf_used = 1, cbuf_data = Some [5, 6, 3, 4]\<rparr>)"
    by code_simp
  show ?thesis using n r circbuffer_fifo [OF _ n r] by (auto simp: Let_def)
qed

text \<open>
  The run-time assertions of \<^verbatim>\<open>cbuf_writelen\<close> hold in every reachable state: it always
  returns, and unless the ring is full it offers at least one byte, so that a client that
  copies \<^verbatim>\<open>cbuf_writelen\<close> bytes at a time makes progress.
\<close>

theorem cbuf_writelen_total:
  assumes "0 < sz" "cbuf_new sz = Inr c" "fifo_run cbuf_put cbuf_get c ops = Inr (out, c')"
  shows "\<exists>w. cbuf_writelen c' = Inr w \<and> (w = 0 \<longleftrightarrow> cbuf_getavail c' = 0)
     \<and> unat w \<le> unat (cbuf_getavail c')"
proof -
  have wf: "cbuf_wf c'" using ring.run_conserves [OF _ assms(3)] cbuf_new_wf [OF assms(1,2)] by simp
  have "unat (of_nat (cbuf_room c') :: u32) = cbuf_room c'" using cbuf_room_bound [OF wf] by simp
  moreover have "unat (cbuf_getavail c') = unat (cbuf_size c') - unat (cbuf_used c')"
    using wf by (simp add: cbuf_getavail_def unat_sub32 cbuf_wf_def)
  moreover have "cbuf_getavail c' = 0 \<longleftrightarrow> cbuf_used c' = cbuf_size c'" by (auto simp: cbuf_getavail_def)
  moreover have "cbuf_room c' = 0 \<longleftrightarrow> cbuf_used c' = cbuf_size c'"
    using cbuf_room_pos [OF wf] by (auto simp: cbuf_room_def)
  ultimately show ?thesis
    using cbuf_writelen_eq [OF wf] cbuf_room_le [OF wf]
    by (intro exI [of _ "of_nat (cbuf_room c')"]) (simp add: unat_eq_zero [symmetric])
qed

theorem cbuf_writelen_total_witness:
  "\<exists>c c'. cbuf_new 4 = Inr c \<and>
     fifo_run cbuf_put cbuf_get c [Put [1, 2, 3], Get 2] = Inr ([1, 2], c') \<and>
     (\<exists>w. cbuf_writelen c' = Inr w \<and> unat w \<le> 3)"
proof -
  let ?c = "\<lparr>cbuf_size = 4, cbuf_readpos = 0, cbuf_writepos = 0, cbuf_used = 0, cbuf_data = None\<rparr>"
  let ?c' = "\<lparr>cbuf_size = 4, cbuf_readpos = 2, cbuf_writepos = 3, cbuf_used = 1,
      cbuf_data = Some [1, 2, 3, 0]\<rparr>"
  have n: "cbuf_new 4 = Inr ?c" by code_simp
  have r: "fifo_run cbuf_put cbuf_get ?c [Put [1, 2, 3], Get 2] = Inr ([1, 2], ?c')" by code_simp
  have "unat (cbuf_getavail ?c') = 3" by code_simp
  then show ?thesis using n r cbuf_writelen_total [OF _ n r] by auto
qed

end
