(* ===== verification/DBQueue.thy ===== *)
theory DBQueue
  imports Fifo
begin

text \<open>
  The linked queue of \<^verbatim>\<open>queue.c\<close> (packets waiting to be written or to be sent after a key
  exchange), over an explicit heap of link cells: a \<^verbatim>\<open>struct Link *\<close> is an address, \<^verbatim>\<open>m_malloc\<close> returns a fresh one, \<^verbatim>\<open>m_free\<close> removes the
  cell, and an access to a cell that is not allocated is an error. The queue is shown to
  implement the FIFO contract, so that other components hold their queues as lists.
\<close>

section \<open>Heap\<close>

type_synonym addr = nat

record 'c heap =
  cells :: "addr \<Rightarrow> 'c option"
  brk :: addr

definition empty_heap :: "'c heap" where "empty_heap = \<lparr>cells = (\<lambda>_. None), brk = 1\<rparr>"

definition h_alloc :: "'c heap \<Rightarrow> 'c \<Rightarrow> addr \<times> 'c heap" where
  "h_alloc h c = (brk h, h\<lparr>cells := (cells h)(brk h := Some c), brk := Suc (brk h)\<rparr>)"

definition h_read :: "'c heap \<Rightarrow> addr option \<Rightarrow> 'c res" where
  "h_read h p = (case p of None \<Rightarrow> Inl NullDeref
     | Some a \<Rightarrow> (case cells h a of None \<Rightarrow> Inl OutOfBounds | Some c \<Rightarrow> Inr c))"

definition h_write :: "'c heap \<Rightarrow> addr option \<Rightarrow> ('c \<Rightarrow> 'c) \<Rightarrow> 'c heap res" where
  "h_write h p f = rbind (h_read h p) (\<lambda>c. Inr (h\<lparr>cells := (cells h)(the p := Some (f c))\<rparr>))"

definition h_free :: "'c heap \<Rightarrow> addr \<Rightarrow> 'c heap" where
  "h_free h a = h\<lparr>cells := (cells h)(a := None)\<rparr>"

section \<open>Queue operations\<close>

record 'a Link =
  item :: 'a
  link :: "addr option"

record Queue =
  q_head :: "addr option"
  q_tail :: "addr option"
  q_count :: u32

type_synonym 'a qstate = "'a Link heap \<times> Queue"

definition initqueue :: Queue where
  "initqueue = \<lparr>q_head = None, q_tail = None, q_count = 0\<rparr>"

definition isempty :: "Queue \<Rightarrow> bool" where
  "isempty q = (q_head q = None)"

definition dequeue :: "'a qstate \<Rightarrow> ('a \<times> 'a qstate) res" where
  "dequeue s = (let (h, q) = s in
     rbind (dropbear_assert ''!isempty(queue)'' (\<not> isempty q)) (\<lambda>_.
     rbind (h_read h (q_head q)) (\<lambda>c.
     let ret = item c;
         oldhead = q_head q;
         q = (if link c \<noteq> None then q\<lparr>q_head := link c\<rparr>
              else q\<lparr>q_head := None, q_tail := None\<rparr>);
         h = h_free h (the oldhead) in
     Inr (ret, (h, q\<lparr>q_count := q_count q - 1\<rparr>)))))"

definition examine :: "'a qstate \<Rightarrow> 'a res" where
  "examine s = (let (h, q) = s in
     rbind (dropbear_assert ''!isempty(queue)'' (\<not> isempty q)) (\<lambda>_.
     rbind (h_read h (q_head q)) (\<lambda>c. Inr (item c))))"

definition enqueue :: "'a qstate \<Rightarrow> 'a \<Rightarrow> 'a qstate res" where
  "enqueue s x = (let (h, q) = s; (newlink, h) = h_alloc h \<lparr>item = x, link = None\<rparr> in
     rbind (if q_tail q \<noteq> None then h_write h (q_tail q) (\<lambda>c. c\<lparr>link := Some newlink\<rparr>) else Inr h) (\<lambda>h.
     let q = q\<lparr>q_tail := Some newlink\<rparr>;
         q = (if q_head q = None then q\<lparr>q_head := Some newlink\<rparr> else q) in
     Inr (h, q\<lparr>q_count := q_count q + 1\<rparr>)))"

section \<open>The queue as a list\<close>

text \<open>The addresses \<open>as\<close> are those of the chain that starts at \<open>p\<close> and ends in NULL.\<close>

fun chain :: "'a Link heap \<Rightarrow> addr option \<Rightarrow> addr list \<Rightarrow> bool" where
  "chain h p [] \<longleftrightarrow> p = None"
| "chain h p (a # as) \<longleftrightarrow> p = Some a \<and> a < brk h \<and> (\<exists>c. cells h a = Some c \<and> chain h (link c) as)"

fun chain_items :: "'a Link heap \<Rightarrow> addr list \<Rightarrow> 'a list" where
  "chain_items h [] = []"
| "chain_items h (a # as) = item (the (cells h a)) # chain_items h as"

text \<open>Walking the links, for at most \<open>n\<close> cells.\<close>

fun walk :: "nat \<Rightarrow> 'a Link heap \<Rightarrow> addr option \<Rightarrow> 'a list" where
  "walk 0 h p = []"
| "walk (Suc n) h p = (case p of None \<Rightarrow> []
     | Some a \<Rightarrow> (case cells h a of None \<Rightarrow> [] | Some c \<Rightarrow> item c # walk n h (link c)))"

definition queue_repr :: "'a qstate \<Rightarrow> addr list \<Rightarrow> bool" where
  "queue_repr s as \<longleftrightarrow> (let (h, q) = s in
     chain h (q_head q) as \<and> distinct as \<and> q_tail q = (if as = [] then None else Some (last as))
     \<and> unat (q_count q) = length as)"

definition queue_wf :: "'a qstate \<Rightarrow> bool" where
  "queue_wf s \<longleftrightarrow> (\<exists>as. queue_repr s as)"

definition queue_items :: "'a qstate \<Rightarrow> 'a list" where
  "queue_items s = (let (h, q) = s in walk (unat (q_count q)) h (q_head q))"

definition queue_room :: "'a qstate \<Rightarrow> nat" where
  "queue_room s = 4294967295 - unat (q_count (snd s))"

lemma walk_chain: "chain h p as \<Longrightarrow> walk (length as) h p = chain_items h as"
  by (induction as arbitrary: p) auto

lemma queue_items_repr: "queue_repr s as \<Longrightarrow> queue_items s = chain_items (fst s) as"
  by (auto simp: queue_repr_def queue_items_def split_def walk_chain)

lemma chain_items_length [simp]: "length (chain_items h as) = length as"
  by (induction as) auto

lemma chain_unique: "chain h p as \<Longrightarrow> chain h p bs \<Longrightarrow> as = bs"
proof (induction as arbitrary: p bs)
  case (Cons a as)
  then show ?case by (cases bs) auto
qed (use chain.elims in fastforce)

text \<open>The chain depends only on its own cells.\<close>

lemma chain_cong:
  "(\<And>a. a \<in> set as \<Longrightarrow> cells h' a = cells h a) \<Longrightarrow> brk h \<le> brk h' \<Longrightarrow> chain h p as \<Longrightarrow> chain h' p as"
  by (induction as arbitrary: p) fastforce+

lemma chain_items_cong:
  "(\<And>a. a \<in> set as \<Longrightarrow> cells h' a = cells h a) \<Longrightarrow> chain_items h' as = chain_items h as"
  by (induction as) auto

lemma chain_brk: "chain h p as \<Longrightarrow> a \<in> set as \<Longrightarrow> a < brk h"
  by (induction as arbitrary: p) auto

lemma chain_cell: "chain h p as \<Longrightarrow> a \<in> set as \<Longrightarrow> \<exists>c. cells h a = Some c"
  by (induction as arbitrary: p) auto

text \<open>Linking a new cell behind the last one extends the chain.\<close>

lemma chain_snoc:
  assumes "chain h p as" "distinct as" "as \<noteq> []"
    and "cells h (last as) = Some c" "n = brk h"
    and "h' = h\<lparr>cells := (cells h)(n := Some \<lparr>item = x, link = None\<rparr>, last as := Some (c\<lparr>link := Some n\<rparr>)),
               brk := Suc n\<rparr>"
  shows "chain h' p (as @ [n]) \<and> chain_items h' (as @ [n]) = chain_items h as @ [x]"
  using assms
proof (induction as arbitrary: p)
  case (Cons a as)
  have ne: "a \<noteq> n" "last (a # as) \<noteq> n"
    using Cons.prems(5) chain_brk [OF Cons.prems(1), of a]
      chain_brk [OF Cons.prems(1) last_in_set] by auto
  show ?case
  proof (cases "as = []")
    case True
    then show ?thesis using Cons.prems ne by auto
  next
    case False
    then have "a \<noteq> last as" using Cons.prems(2) by auto
    with Cons False ne show ?thesis by auto
  qed
qed simp

lemma enqueue_law:
  assumes r: "queue_repr s as" and room: "0 < queue_room s"
  shows "\<exists>s'. enqueue s x = Inr s' \<and> queue_repr s' (as @ [brk (fst s)])
     \<and> queue_items s' = queue_items s @ [x]"
proof -
  obtain h q where s: "s = (h, q)" by (cases s)
  have c: "chain h (q_head q) as" and d: "distinct as" and n: "unat (q_count q) = length as"
    and t: "q_tail q = (if as = [] then None else Some (last as))"
    using r by (auto simp: queue_repr_def s)
  have cnt: "unat (q_count q + 1) = Suc (length as)"
    using room n by (subst unat_add32) (simp_all add: queue_room_def s)
  have fresh: "brk h \<notin> set as" using chain_brk [OF c] by blast
  show ?thesis
  proof (cases "as = []")
    case True
    define s' where "s' = (h\<lparr>cells := (cells h)(brk h := Some \<lparr>item = x, link = None\<rparr>), brk := Suc (brk h)\<rparr>,
        q\<lparr>q_tail := Some (brk h), q_head := Some (brk h), q_count := q_count q + 1\<rparr>)"
    have "enqueue s x = Inr s'"
      using True c t by (simp add: enqueue_def s h_alloc_def s'_def)
    moreover have "queue_repr s' [brk h]" using cnt True by (simp add: queue_repr_def s'_def)
    ultimately show ?thesis using True queue_items_repr [OF r] by (simp add: queue_items_repr s) (simp add: s'_def)
  next
    case False
    obtain l where l: "cells h (last as) = Some l" using chain_cell [OF c last_in_set [OF False]] by auto
    have ne: "last as \<noteq> brk h" using fresh last_in_set [OF False] by metis
    define h' where "h' = h\<lparr>cells := (cells h)(brk h := Some \<lparr>item = x, link = None\<rparr>,
        last as := Some (l\<lparr>link := Some (brk h)\<rparr>)), brk := Suc (brk h)\<rparr>"
    define s' where "s' = (h', q\<lparr>q_tail := Some (brk h), q_count := q_count q + 1\<rparr>)"
    have hd: "q_head q \<noteq> None" using c False by (cases as) auto
    have "enqueue s x = Inr s'"
      using False t l ne hd by (simp add: enqueue_def s h_alloc_def h_write_def h_read_def s'_def h'_def Let_def)
    moreover note cs = chain_snoc [OF c d False l refl h'_def]
    moreover from this have "queue_repr s' (as @ [brk h])"
      using d fresh cnt by (simp add: queue_repr_def s'_def)
    ultimately show ?thesis using queue_items_repr [OF r] by (simp add: queue_items_repr s) (simp add: s'_def)
  qed
qed

lemma dequeue_law:
  assumes r: "queue_repr s (a # as)"
  shows "\<exists>s'. dequeue s = Inr (hd (queue_items s), s') \<and> queue_repr s' as
     \<and> queue_items s' = tl (queue_items s)"
proof -
  obtain h q where s: "s = (h, q)" by (cases s)
  obtain c where c: "q_head q = Some a" "cells h a = Some c" "chain h (link c) as"
    and d: "distinct (a # as)" and n: "unat (q_count q) = Suc (length as)"
    and t: "q_tail q = Some (last (a # as))"
    using r by (auto simp: queue_repr_def s)
  define h' where "h' = h_free h a"
  define q' where "q' = (if link c \<noteq> None then q\<lparr>q_head := link c\<rparr> else q\<lparr>q_head := None, q_tail := None\<rparr>)"
  define s' where "s' = (h', q'\<lparr>q_count := q_count q' - 1\<rparr>)"
  have q'c: "q_count q' = q_count q" "q_head q' = link c" by (simp_all add: q'_def)
  have "dequeue s = Inr (item c, s')"
    using c by (simp add: dequeue_def s isempty_def h_read_def s'_def h'_def q'_def Let_def)
  moreover have "chain h' (link c) as"
    using c(3) d by (intro chain_cong [OF _ _ c(3)]) (auto simp: h'_def h_free_def)
  moreover have "unat (q_count q - 1) = length as"
    using n by (subst unat_sub32) (auto simp: wnat)
  moreover have "q_tail q' = (if as = [] then None else Some (last as))"
    using c(3) t by (cases as) (auto simp: q'_def)
  ultimately have eq: "dequeue s = Inr (item c, s')" and rep: "queue_repr s' as"
    using d by (auto simp: queue_repr_def s'_def q'c)
  have "chain_items h' as = chain_items h as"
    using d by (intro chain_items_cong) (auto simp: h'_def h_free_def)
  then show ?thesis
    using eq rep c(2) by (simp add: queue_items_repr [OF r] queue_items_repr [OF rep]) (simp add: s s'_def)
qed

section \<open>The queue is a FIFO\<close>

fun enqueue_all :: "'a qstate \<Rightarrow> 'a list \<Rightarrow> 'a qstate res" where
  "enqueue_all s [] = Inr s"
| "enqueue_all s (x # xs) =
     (if queue_room s = 0 then Inl OutOfBounds else rbind (enqueue s x) (\<lambda>s. enqueue_all s xs))"

fun dequeue_n :: "'a qstate \<Rightarrow> nat \<Rightarrow> ('a list \<times> 'a qstate) res" where
  "dequeue_n s 0 = Inr ([], s)"
| "dequeue_n s (Suc n) = rbind (dequeue s) (\<lambda>(x, s). rbind (dequeue_n s n) (\<lambda>(xs, s). Inr (x # xs, s)))"

lemma enqueue_all_law:
  "queue_wf s \<Longrightarrow> length xs \<le> queue_room s \<Longrightarrow>
   \<exists>s'. enqueue_all s xs = Inr s' \<and> queue_wf s' \<and> queue_items s' = queue_items s @ xs"
proof (induction xs arbitrary: s)
  case (Cons x xs)
  then obtain as where r: "queue_repr s as" by (auto simp: queue_wf_def)
  obtain s1 where s1: "enqueue s x = Inr s1" "queue_repr s1 (as @ [brk (fst s)])"
      "queue_items s1 = queue_items s @ [x]"
    using enqueue_law [OF r, of x] Cons.prems by (metis Suc_le_eq gr_zeroI length_Cons not_less_zero)
  have "length xs \<le> queue_room s1"
    using Cons.prems(2) r s1(2) by (auto simp: queue_room_def queue_repr_def split_def)
  then obtain s' where "enqueue_all s1 xs = Inr s'" "queue_wf s'" "queue_items s' = queue_items s1 @ xs"
    using Cons.IH [of s1] s1(2) by (auto simp: queue_wf_def)
  then show ?case using Cons.prems(2) s1 by auto
qed simp

lemma dequeue_n_law:
  "queue_wf s \<Longrightarrow> n \<le> length (queue_items s) \<Longrightarrow>
   \<exists>s'. dequeue_n s n = Inr (take n (queue_items s), s') \<and> queue_wf s'
     \<and> queue_items s' = drop n (queue_items s)"
proof (induction n arbitrary: s)
  case (Suc n)
  then obtain a as where r: "queue_repr s (a # as)"
    by (auto simp: queue_wf_def queue_items_repr) (metis Suc_le_length_iff)
  obtain s1 where s1: "dequeue s = Inr (hd (queue_items s), s1)" "queue_repr s1 as"
      "queue_items s1 = tl (queue_items s)"
    using dequeue_law [OF r] by auto
  have ne: "queue_items s \<noteq> []" using Suc.prems by auto
  have "\<exists>s'. dequeue_n s1 n = Inr (take n (queue_items s1), s') \<and> queue_wf s'
     \<and> queue_items s' = drop n (queue_items s1)"
    using Suc.prems s1 by (intro Suc.IH) (auto simp: queue_wf_def)
  then show ?case using s1 ne by (auto simp: take_Suc drop_Suc)
qed simp

lemma enqueue_all_room: "queue_wf s \<Longrightarrow> enqueue_all s xs = Inr s' \<Longrightarrow> length xs \<le> queue_room s"
proof (induction xs arbitrary: s)
  case (Cons x xs)
  then obtain as where r: "queue_repr s as" by (auto simp: queue_wf_def)
  have pos: "0 < queue_room s" using Cons.prems by (auto split: if_splits)
  obtain s1 where s1: "enqueue s x = Inr s1" "queue_repr s1 (as @ [brk (fst s)])"
    using enqueue_law [OF r pos, of x] by metis
  then have "length xs \<le> queue_room s1"
    using Cons.prems Cons.IH [of s1] by (auto simp: queue_wf_def split: if_splits)
  then show ?case using pos r s1(2) by (auto simp: queue_room_def queue_repr_def split_def)
qed simp

lemma dequeue_empty:
  "queue_repr s [] \<Longrightarrow> dequeue s = Inl (AssertFail ''!isempty(queue)'')"
  by (auto simp: queue_repr_def dequeue_def isempty_def split_def)

lemma dequeue_n_empty: "queue_wf s \<Longrightarrow> dequeue_n s n = Inr r \<Longrightarrow> n \<le> length (queue_items s)"
proof (induction n arbitrary: s r)
  case (Suc n)
  then obtain as where r: "queue_repr s as" by (auto simp: queue_wf_def)
  then obtain a as' where as: "as = a # as'"
    using Suc.prems dequeue_empty [of s] by (cases as) auto
  obtain s1 where s1: "dequeue s = Inr (hd (queue_items s), s1)" "queue_repr s1 as'"
      "queue_items s1 = tl (queue_items s)"
    using dequeue_law [of s a as'] r as by auto
  then have "n \<le> length (queue_items s1)"
    using Suc.prems Suc.IH [of s1] by (auto simp: queue_wf_def rbind_Inr_iff)
  then show ?case using s1 r as by (simp add: queue_items_repr)
qed simp

interpretation link_queue: fifo queue_wf queue_items queue_room enqueue_all dequeue_n
  by unfold_locales
     ((rule enqueue_all_law dequeue_n_law enqueue_all_room dequeue_n_empty; assumption)+)

lemma initqueue_wf: "queue_wf (empty_heap, initqueue)" "queue_items (empty_heap, initqueue) = []"
proof -
  have "queue_repr (empty_heap, initqueue) []"
    by (simp add: queue_repr_def initqueue_def)
  then show "queue_wf (empty_heap, initqueue)" "queue_items (empty_heap, initqueue) = []"
    by (auto simp: queue_wf_def) (simp add: queue_items_def initqueue_def)
qed



text \<open>\<^verbatim>\<open>examine\<close> shows the item that the next \<^verbatim>\<open>dequeue\<close> returns.\<close>

lemma examine_eq: "queue_repr s (a # as) \<Longrightarrow> examine s = Inr (hd (queue_items s))"
  by (simp only: queue_items_repr) (auto simp: queue_repr_def examine_def isempty_def h_read_def split_def)

end
