(* ===== verification/Algo.thy ===== *)
theory Algo
  imports Buffer
begin

text \<open>
  Algorithm name-lists of \<^verbatim>\<open>common-algo.c\<close>: writing the local list into a KEXINIT, parsing a
  peer's list in place, matching it against the local algorithms, and restricting the local
  algorithms by a user's list. An \<^verbatim>\<open>algo_type\<close> array is a list of its entries, the entry with
  the NULL name that ends it left out. Pointers into a parsed name-list are offsets.
\<close>

section \<open>Data\<close>

record ('d, 'm) algo_type =
  algo_name :: bytes
  algo_val :: int
  algo_data :: 'd
  algo_usable :: bool
  algo_mode :: 'm

definition MAX_PROPOSED_ALGO :: nat where "MAX_PROPOSED_ALGO = 50"
definition MAX_NAME_LEN :: nat where "MAX_NAME_LEN = 64"

definition comma :: u8 where "comma = 44"

section \<open>Operations\<close>

fun put_algos :: "buffer \<Rightarrow> ('d, 'm) algo_type list \<Rightarrow> bool \<Rightarrow> bool \<Rightarrow> buffer res" where
  "put_algos b [] useall donefirst = Inr b"
| "put_algos b (a # as) useall donefirst =
     (if algo_usable a \<or> useall
      then rbind (if donefirst then buf_putbyte b comma else Inr b) (\<lambda>b.
           rbind (buf_putbytes b (algo_name a @ [0]) (of_nat (length (algo_name a)))) (\<lambda>b.
           put_algos b as useall True))
      else put_algos b as useall donefirst)"

definition buf_put_algolist_all :: "buffer \<Rightarrow> ('d, 'm) algo_type list \<Rightarrow> bool \<Rightarrow> buffer res" where
  "buf_put_algolist_all b localalgos useall =
     (let startpos = buf_pos b in
      rbind (buf_putint b 0) (\<lambda>b.
      rbind (put_algos b localalgos useall False) (\<lambda>b.
      let len = buf_pos b - startpos - 4 in
      rbind (buf_setpos b startpos) (\<lambda>b.
      rbind (buf_putint b len) (\<lambda>b.
      buf_incrwritepos b len)))))"

definition buf_put_algolist :: "buffer \<Rightarrow> ('d, 'm) algo_type list \<Rightarrow> buffer res" where
  "buf_put_algolist b localalgos = buf_put_algolist_all b localalgos False"

text \<open>
  The scan of \<^verbatim>\<open>get_algolist\<close>: \<open>names\<close> are the offsets stored in \<^verbatim>\<open>ret_list\<close> so far, so that
  \<^verbatim>\<open>*ret_count\<close> is their number. A NUL gives up with no names.
\<close>

function get_algolist_loop :: "nat \<Rightarrow> nat \<Rightarrow> nat \<Rightarrow> bytes \<Rightarrow> nat list \<Rightarrow> (bytes \<times> nat list) res" where
  "get_algolist_loop max_count len i algolist names =
     (if i < len then
        if length algolist \<le> i then Inl OutOfBounds
        else if algolist ! i = 0 then Inr (algolist, [])
        else if algolist ! i = comma then
          (if length names \<ge> max_count then Inl (Exit ''Too many remote algorithms'')
           else get_algolist_loop max_count len (Suc i) (algolist[i := 0]) (names @ [Suc i]))
        else get_algolist_loop max_count len (Suc i) algolist names
      else Inr (algolist, names))"
  by auto
termination by (relation "measure (\<lambda>(mx, len, i, _). len - i)") auto

declare get_algolist_loop.simps [simp del]

text \<open>
  The length check of the code assigns \<^verbatim>\<open>*ret_count = 0\<close> and falls through to
  \<^verbatim>\<open>*ret_count = 1\<close>, so it has no effect on the result.
\<close>

definition get_algolist :: "bytes \<Rightarrow> u32 \<Rightarrow> nat \<Rightarrow> (bytes \<times> nat list) res" where
  "get_algolist algolist algolist_len max_count =
     (if max_count = 0 then Inr (algolist, [])
      else let ret_count = (if unat algolist_len > MAX_PROPOSED_ALGO * (MAX_NAME_LEN + 1)
                            then 0 else max_count) in
           let names = [0] in
           get_algolist_loop max_count (unat algolist_len) 0 algolist names)"

definition remote_names :: "bytes \<times> nat list \<Rightarrow> bytes list" where
  "remote_names r = map (\<lambda>off. cstr (drop off (fst r))) (snd r)"

definition buf_has_algo :: "buffer \<Rightarrow> bytes \<Rightarrow> (bool \<times> buffer) res" where
  "buf_has_algo b algo =
     (let orig_pos = buf_pos b in
      rbind (buf_getstring b) (\<lambda>(algolist, len, b).
      rbind (get_algolist algolist len MAX_PROPOSED_ALGO) (\<lambda>r.
      let ret = list_ex (\<lambda>n. n = algo) (remote_names r) in
      rbind (buf_setpos b orig_pos) (\<lambda>b.
      Inr (ret, b)))))"

fun first_usable_algo :: "('d, 'm) algo_type list \<Rightarrow> ('d, 'm) algo_type option" where
  "first_usable_algo [] = None"
| "first_usable_algo (a # as) = (if algo_usable a then Some a else first_usable_algo as)"

text \<open>The inner loop over the server's names and the outer loop over the client's.\<close>

fun match_server :: "bytes option list \<Rightarrow> bytes option \<Rightarrow> nat \<Rightarrow> nat option" where
  "match_server [] cli j = None"
| "match_server (s # ss) cli j =
     (if s = None \<or> cli = None then match_server ss cli (Suc j)
      else if s = cli then Some j
      else match_server ss cli (Suc j))"

fun match_client :: "bytes option list \<Rightarrow> bytes option list \<Rightarrow> nat \<Rightarrow> (nat \<times> nat) option" where
  "match_client [] serv i = None"
| "match_client (c # cs) serv i =
     (case match_server serv c 0 of Some j \<Rightarrow> Some (i, j) | None \<Rightarrow> match_client cs serv (Suc i))"

definition local_names :: "('d, 'm) algo_type list \<Rightarrow> bytes option list" where
  "local_names as = map (\<lambda>a. if algo_usable a then Some (algo_name a) else None) as"

text \<open>\<open>server\<close> is \<^verbatim>\<open>IS_DROPBEAR_SERVER\<close>. The result is the matched entry and \<^verbatim>\<open>*goodguess\<close>.\<close>

definition buf_match_algo :: "bool \<Rightarrow> buffer \<Rightarrow> ('d, 'm) algo_type list \<Rightarrow> bool
    \<Rightarrow> (('d, 'm) algo_type option \<times> bool \<times> buffer) res" where
  "buf_match_algo server b localalgos kexguess2 =
     rbind (buf_getstring b) (\<lambda>(algolist, len, b).
     rbind (get_algolist algolist len MAX_PROPOSED_ALGO) (\<lambda>r.
     if length localalgos > MAX_PROPOSED_ALGO then Inl OutOfBounds
     else let remotenames = map Some (remote_names r);
              localnames = local_names localalgos;
              clinames = (if server then remotenames else localnames);
              servnames = (if server then localnames else remotenames) in
          case match_client clinames servnames 0 of
            None \<Rightarrow> Inr (None, False, b)
          | Some (i, j) \<Rightarrow>
              let goodguess = (if kexguess2 then i = 0 else i = 0 \<and> j = 0) in
              Inr (Some (localalgos ! (if server then j else i)), goodguess, b)))"

definition algolist_string :: "('d, 'm) algo_type list \<Rightarrow> bytes res" where
  "algolist_string algos =
     rbind (buf_new 200) (\<lambda>b.
     rbind (buf_put_algolist b algos) (\<lambda>b.
     rbind (buf_setpos b (buf_len b)) (\<lambda>b.
     rbind (buf_putbyte b 0) (\<lambda>b.
     rbind (buf_setpos b 4) (\<lambda>b.
     rbind (buf_getptr b (buf_len b - buf_pos b)) (\<lambda>p.
     Inr (cstr (drop p (buf_data b)))))))))"

fun check_algo :: "bytes \<Rightarrow> ('d, 'm) algo_type list \<Rightarrow> ('d, 'm) algo_type option" where
  "check_algo nm [] = None"
| "check_algo nm (a # as) = (if algo_name a = nm then Some a else check_algo nm as)"

text \<open>
  The loop of \<^verbatim>\<open>check_user_algos\<close> over the copy \<open>w\<close> of the user's list, with \<open>c\<close> and \<open>start\<close> as
  offsets. After a separator the code advances \<^verbatim>\<open>c\<close> once more than the loop does. The scan
  runs on until it meets a NUL; \<open>OutOfBounds\<close> is a read past the copy.
\<close>

function check_user_loop :: "('d, 'm) algo_type list \<Rightarrow> bytes \<Rightarrow> nat \<Rightarrow> nat
    \<Rightarrow> ('d, 'm) algo_type list \<Rightarrow> ('d, 'm) algo_type list res" where
  "check_user_loop algos w c start new_algos =
     (if length w \<le> c then Inl OutOfBounds
      else let oc = w ! c in
           if length new_algos \<ge> MAX_PROPOSED_ALGO then Inl (Exit ''Too many algorithms %s'')
           else if oc = comma \<or> oc = 0 then
             let w = w[c := 0];
                 nm = cstr (drop start w);
                 new_algos = (case check_algo nm algos of
                     Some a \<Rightarrow> (case check_algo nm new_algos of
                         Some _ \<Rightarrow> new_algos | None \<Rightarrow> new_algos @ [a])
                   | None \<Rightarrow> new_algos) in
             if oc = 0 then Inr new_algos
             else check_user_loop algos w (Suc (Suc c)) (Suc c) new_algos
           else check_user_loop algos w (Suc c) start new_algos)"
  by auto
termination by (relation "measure (\<lambda>(_, w, c, _). length w - c)") auto

declare check_user_loop.simps [simp del]

text \<open>The new contents of \<open>algos\<close>; the count returned is their number.\<close>

definition check_user_algos :: "bytes \<Rightarrow> ('d, 'm) algo_type list \<Rightarrow> ('d, 'm) algo_type list res" where
  "check_user_algos user_algo_list algos =
     check_user_loop algos (user_algo_list @ [0]) 0 0 []"

section \<open>Name-lists\<close>

fun split_comma :: "bytes \<Rightarrow> bytes list" where
  "split_comma [] = [[]]"
| "split_comma (c # cs) =
     (if c = comma then [] # split_comma cs
      else case split_comma cs of [] \<Rightarrow> [[c]] | n # ns \<Rightarrow> (c # n) # ns)"

fun join_comma :: "bytes list \<Rightarrow> bytes" where
  "join_comma [] = []"
| "join_comma [n] = n"
| "join_comma (n # ns) = n @ comma # join_comma ns"

lemma split_comma_ne [simp]: "split_comma s \<noteq> []"
  by (induction s) (auto split: list.split)

lemma split_comma_append:
  "comma \<notin> set n \<Longrightarrow> split_comma (n @ s) = (n @ hd (split_comma s)) # tl (split_comma s)"
  by (induction n) (auto split: list.split simp: neq_Nil_conv)

lemma split_join:
  assumes "ns \<noteq> []" "\<forall>n \<in> set ns. comma \<notin> set n" shows "split_comma (join_comma ns) = ns"
  using assms
proof (induction ns rule: join_comma.induct)
  case (2 n)
  then show ?case using split_comma_append [of n "[]"] by simp
next
  case (3 n m ns)
  then show ?case using split_comma_append [of n "comma # join_comma (m # ns)"] by simp
qed simp

text \<open>What the scan leaves behind: the commas turned into terminators, and the offsets after them.\<close>

definition seal :: "u8 \<Rightarrow> u8" where "seal c = (if c = comma then 0 else c)"

fun comma_offs :: "nat \<Rightarrow> bytes \<Rightarrow> nat list" where
  "comma_offs i [] = []"
| "comma_offs i (c # cs) = (if c = comma then Suc i # comma_offs (Suc i) cs else comma_offs (Suc i) cs)"

lemma length_split_comma: "length (split_comma s) = Suc (length (comma_offs i s))"
proof (induction s arbitrary: i)
  case (Cons c s)
  then show ?case using Cons [of "Suc i"] by (cases "split_comma s") auto
qed simp

lemma sealed_names:
  "0 \<notin> set s \<Longrightarrow> length pre = i \<Longrightarrow>
   map (\<lambda>off. cstr (drop off (pre @ map seal s @ [0]))) (i # comma_offs i s) = split_comma s"
proof (induction s arbitrary: pre i)
  case (Cons c s)
  show ?case
  proof (cases "c = comma")
    case True
    then show ?thesis using Cons.IH [of "pre @ [0]" "Suc i"] Cons.prems
      by (simp add: seal_def cstr_def)
  next
    case False
    then have seal: "seal c = c" by (simp add: seal_def)
    have d: "drop i (pre @ c # map seal s @ [0]) = c # map seal s @ [0]"
      "drop (Suc i) (pre @ c # map seal s @ [0]) = map seal s @ [0]" using Cons.prems by simp_all
    have "map (\<lambda>off. cstr (drop off (pre @ c # map seal s @ [0]))) (Suc i # comma_offs (Suc i) s) = split_comma s"
      using Cons.IH [of "pre @ [c]" "Suc i"] Cons.prems by simp
    then have "cstr (map seal s @ [0]) = hd (split_comma s)"
      "map (\<lambda>off. cstr (drop off (pre @ c # map seal s @ [0]))) (comma_offs (Suc i) s) = tl (split_comma s)"
      using d by (metis list.map(2) list.sel(1), metis list.map(2) list.sel(3))
    moreover have "cstr (c # map seal s @ [0]) = c # cstr (map seal s @ [0])"
      using Cons.prems by (simp add: cstr_def)
    ultimately show ?thesis
      using False d seal by (cases "split_comma s") simp_all
  qed
qed (simp add: cstr_def)

lemma get_algolist_loop_ok:
  "0 \<notin> set s \<Longrightarrow> length pre = i \<Longrightarrow> length offs + length (comma_offs i s) \<le> mx \<Longrightarrow>
   get_algolist_loop mx (i + length s) i (pre @ s @ t) offs
     = Inr (pre @ map seal s @ t, offs @ comma_offs i s)"
proof (induction s arbitrary: pre i offs)
  case Nil
  then show ?case by (simp add: get_algolist_loop.simps)
next
  case (Cons c s)
  have nz: "c \<noteq> 0" using Cons.prems by auto
  show ?case
  proof (cases "c = comma")
    case True
    then show ?thesis
      using Cons.IH [of "pre @ [0]" "Suc i" "offs @ [Suc i]"] Cons.prems nz
      by (subst get_algolist_loop.simps) (simp add: seal_def nth_append list_update_append)
  next
    case False
    then show ?thesis
      using Cons.IH [of "pre @ [c]" "Suc i" offs] Cons.prems nz
      by (subst get_algolist_loop.simps) (simp add: seal_def nth_append)
  qed
qed

lemma get_algolist_loop_many:
  "0 \<notin> set s \<Longrightarrow> length pre = i \<Longrightarrow> length offs \<le> mx \<Longrightarrow> mx < length offs + length (comma_offs i s) \<Longrightarrow>
   get_algolist_loop mx (i + length s) i (pre @ s @ t) offs = Inl (Exit ''Too many remote algorithms'')"
proof (induction s arbitrary: pre i offs)
  case (Cons c s)
  have nz: "c \<noteq> 0" using Cons.prems by auto
  show ?case
  proof (cases "c = comma")
    case True
    then show ?thesis
      using Cons.IH [of "pre @ [0]" "Suc i" "offs @ [Suc i]"] Cons.prems nz
      by (subst get_algolist_loop.simps) (auto simp: seal_def nth_append list_update_append)
  next
    case False
    then show ?thesis
      using Cons.IH [of "pre @ [c]" "Suc i" offs] Cons.prems nz
      by (subst get_algolist_loop.simps) (simp add: nth_append)
  qed
qed simp

lemma get_algolist_ok:
  assumes "0 \<notin> set s" "unat n = length s" "mx > 0"
  shows "if length (split_comma s) \<le> mx
    then \<exists>r. get_algolist (s @ [0]) n mx = Inr r \<and> remote_names r = split_comma s
    else get_algolist (s @ [0]) n mx = Inl (Exit ''Too many remote algorithms'')"
  using assms get_algolist_loop_ok [of s "[]" 0 "[0]" mx "[0]"]
    get_algolist_loop_many [of s "[]" 0 "[0]" mx "[0]"] sealed_names [of s "[]" 0]
  by (simp add: get_algolist_def Let_def length_split_comma [of s 0] remote_names_def Suc_le_eq)

text \<open>
  \<^verbatim>\<open>get_algolist\<close> on a list with no NUL in it stores exactly the names between the commas,
  in order, and exits when there are more than \<^verbatim>\<open>MAX_PROPOSED_ALGO\<close>; it never reads or writes
  past the string.
\<close>

theorem get_algolist_split:
  assumes "0 \<notin> set s" "unat n = length s"
  shows "if length (split_comma s) \<le> MAX_PROPOSED_ALGO
    then \<exists>r. get_algolist (s @ [0]) n MAX_PROPOSED_ALGO = Inr r \<and> remote_names r = split_comma s
    else get_algolist (s @ [0]) n MAX_PROPOSED_ALGO = Inl (Exit ''Too many remote algorithms'')"
  using get_algolist_ok [OF assms, of MAX_PROPOSED_ALGO] by (simp add: MAX_PROPOSED_ALGO_def)

theorem get_algolist_split_witness:
  "\<exists>r. get_algolist (lit ''aes,none'' @ [0]) 8 MAX_PROPOSED_ALGO = Inr r
     \<and> remote_names r = [lit ''aes'', lit ''none'']"
proof -
  have s: "split_comma (lit ''aes,none'') = [lit ''aes'', lit ''none'']" by code_simp
  have z: "0 \<notin> set (lit ''aes,none'')" by code_simp
  show ?thesis using get_algolist_split [OF z, of 8] s
    by (simp add: MAX_PROPOSED_ALGO_def)
qed

section \<open>Matching\<close>

definition offers :: "bytes \<Rightarrow> ('d, 'm) algo_type \<Rightarrow> bool" where
  "offers n a \<longleftrightarrow> algo_usable a \<and> algo_name a = n"

text \<open>The reference: the first name of the client that the server offers too.\<close>

definition mutual :: "bytes list \<Rightarrow> ('d, 'm) algo_type list \<Rightarrow> bytes option" where
  "mutual names as = find (\<lambda>n. list_ex (offers n) as) names"

lemma match_server_None: "match_server (local_names as) (Some n) j = None \<longleftrightarrow> \<not> list_ex (offers n) as"
  by (induction as arbitrary: j) (auto simp: local_names_def offers_def)

lemma match_server_Some:
  "match_server (local_names as) (Some n) j = Some k \<Longrightarrow>
   \<exists>i < length as. k = j + i \<and> find (offers n) as = Some (as ! i) \<and> (i = 0 \<longleftrightarrow> offers n (hd as))"
proof (induction as arbitrary: j)
  case (Cons a as)
  show ?case
  proof (cases "offers n a")
    case True
    with Cons.prems show ?thesis by (auto simp: local_names_def offers_def)
  next
    case False
    with Cons.prems have "match_server (local_names as) (Some n) (Suc j) = Some k"
      by (auto simp: local_names_def offers_def split: if_splits)
    from Cons.IH [OF this] obtain i where "i < length as" "k = Suc j + i" "find (offers n) as = Some (as ! i)"
      by auto
    with False show ?thesis by (intro exI [of _ "Suc i"]) simp
  qed
qed (simp add: local_names_def)

lemma match_client_find:
  "case match_client (map Some ns) ss i of
     None \<Rightarrow> find (\<lambda>n. match_server ss (Some n) 0 \<noteq> None) ns = None
   | Some (i', j) \<Rightarrow> \<exists>n. find (\<lambda>n. match_server ss (Some n) 0 \<noteq> None) ns = Some n
       \<and> match_server ss (Some n) 0 = Some j \<and> i \<le> i' \<and> (i' = i \<longleftrightarrow> n = hd ns)"
proof (induction ns arbitrary: i)
  case (Cons n ns)
  show ?case
  proof (cases "match_server ss (Some n) 0")
    case None
    show ?thesis
      using Cons.IH [of "Suc i"] None
      by (auto split: option.splits prod.splits)
  qed simp
qed simp

text \<open>
  As a server, \<^verbatim>\<open>buf_match_algo\<close> picks the client's most preferred name that a usable local
  algorithm has, and the first such local algorithm; it returns NULL when there is none. The
  guess was right when the client's first name was picked and, without kexguess2, the server's
  first algorithm is the one.
\<close>

theorem buf_match_algo_server:
  assumes "buf_getstring b = Inr (s @ [0], n, b')" "0 \<notin> set s" "unat n = length s"
    and "length (split_comma s) \<le> MAX_PROPOSED_ALGO" "length localalgos \<le> MAX_PROPOSED_ALGO"
  shows "\<exists>r good. buf_match_algo True b localalgos kexguess2 = Inr (r, good, b') \<and>
    (case mutual (split_comma s) localalgos of
       None \<Rightarrow> r = None \<and> \<not> good
     | Some nm \<Rightarrow> r = find (offers nm) localalgos \<and> r \<noteq> None
         \<and> (good \<longleftrightarrow> nm = hd (split_comma s) \<and> (kexguess2 \<or> offers nm (hd localalgos))))"
proof -
  obtain q where q: "get_algolist (s @ [0]) n MAX_PROPOSED_ALGO = Inr q" "remote_names q = split_comma s"
    using get_algolist_ok [OF assms(2,3), of MAX_PROPOSED_ALGO] assms(4)
    by (auto simp: MAX_PROPOSED_ALGO_def)
  let ?m = "match_client (map Some (split_comma s)) (local_names localalgos) 0"
  have mu: "find (\<lambda>n. match_server (local_names localalgos) (Some n) 0 \<noteq> None) (split_comma s)
      = mutual (split_comma s) localalgos"
    by (simp add: mutual_def match_server_None)
  note f = match_client_find [where ns = "split_comma s" and ss = "local_names localalgos" and i = 0,
      unfolded mu]
  show ?thesis
  proof (cases ?m)
    case None
    then show ?thesis using f assms(1,5) q by (auto simp: buf_match_algo_def Let_def)
  next
    case (Some ij)
    obtain i j where ij: "ij = (i, j)" by (cases ij)
    obtain nm where nm: "mutual (split_comma s) localalgos = Some nm"
        "match_server (local_names localalgos) (Some nm) 0 = Some j" "i = 0 \<longleftrightarrow> nm = hd (split_comma s)"
      using f Some ij by auto
    obtain k where "j = k" "find (offers nm) localalgos = Some (localalgos ! k)"
        "k = 0 \<longleftrightarrow> offers nm (hd localalgos)"
      using match_server_Some [OF nm(2)] by auto
    then show ?thesis using nm Some ij assms(1,5) q by (auto simp: buf_match_algo_def Let_def)
  qed
qed

theorem buf_match_algo_server_witness:
  "let b = \<lparr>buf_data = [0, 0, 0, 3, 98, 44, 97], buf_len = 7, buf_pos = 0, buf_size = 7\<rparr>;
       mk = (\<lambda>nm u. \<lparr>algo_name = [nm], algo_val = 0, algo_data = (), algo_usable = u, algo_mode = ()\<rparr>) in
   \<exists>b' good. buf_match_algo True b [mk 98 False, mk 97 True] False = Inr (Some (mk 97 True), good, b') \<and> \<not> good"
proof -
  let ?b = "\<lparr>buf_data = [0, 0, 0, 3, 98, 44, 97], buf_len = 7, buf_pos = 0, buf_size = 7\<rparr>"
  let ?mk = "\<lambda>nm u. \<lparr>algo_name = [nm :: u8], algo_val = 0, algo_data = (), algo_usable = u, algo_mode = ()\<rparr>"
  let ?s = "[98, 44, 97] :: bytes"
  have g: "buf_getstring ?b = Inr (?s @ [0], 3, ?b\<lparr>buf_pos := 7\<rparr>)" by code_simp
  have z: "0 \<notin> set ?s" by simp
  have sp: "split_comma ?s = [[98], [97]]" by code_simp
  show ?thesis
    using buf_match_algo_server [OF g z, of "[?mk 98 False, ?mk 97 True]" False] sp
    by (auto simp: MAX_PROPOSED_ALGO_def mutual_def offers_def)
qed

section \<open>Writing a name-list\<close>

definition usable_names :: "('d, 'm) algo_type list \<Rightarrow> bool \<Rightarrow> bytes list" where
  "usable_names as useall = map algo_name (filter (\<lambda>a. algo_usable a \<or> useall) as)"

definition put_bytes :: "bytes list \<Rightarrow> bool \<Rightarrow> bytes" where
  "put_bytes ns donefirst = (if donefirst then concat (map ((#) comma) ns) else join_comma ns)"

lemma join_comma_Cons: "join_comma (n # ns) = n @ concat (map ((#) comma) ns)"
  by (induction ns arbitrary: n) auto

lemma buf_put2:
  "buf_wf b \<Longrightarrow> buf_fits b (length xs + length ys) \<Longrightarrow>
   buf_wf (buf_put b xs) \<and> buf_fits (buf_put b xs) (length ys) \<and> buf_put (buf_put b xs) ys = buf_put b (xs @ ys)"
  by (meson buf_fits_mono buf_put_fits buf_put_put buf_put_wf le_add1)

lemma putbytes_name:
  assumes "buf_wf b" "buf_fits b (length n)"
  shows "buf_putbytes b (n @ [0]) (of_nat (length n)) = Inr (buf_put b n)"
proof -
  have "unat (of_nat (length n) :: u32) = length n"
    using assms(2) buf_wf_bounds [OF assms(1)] by (intro unat_of_nat32) (simp add: buf_fits_def)
  then show ?thesis using assms by (simp add: buf_putbytes_eq)
qed

lemma put_algos_eq:
  "buf_wf b \<Longrightarrow> buf_fits b (length (put_bytes (usable_names as u) df)) \<Longrightarrow>
   put_algos b as u df = Inr (buf_put b (put_bytes (usable_names as u) df))"
proof (induction as arbitrary: b df)
  case Nil
  then show ?case by (simp add: put_bytes_def usable_names_def)
next
  case (Cons a as)
  show ?case
  proof (cases "algo_usable a \<or> u")
    case False
    then show ?thesis using Cons.IH [of b df] Cons.prems by (simp add: usable_names_def)
  next
    case True
    define sep where "sep = (if df then [comma] else [])"
    define rest where "rest = put_bytes (usable_names as u) True"
    have all: "put_bytes (usable_names (a # as) u) df = sep @ algo_name a @ rest"
      using True by (simp add: put_bytes_def usable_names_def join_comma_Cons sep_def rest_def)
    note f = Cons.prems(2) [unfolded all]
    have 1: "buf_wf (buf_put b sep)" "buf_fits (buf_put b sep) (length (algo_name a @ rest))"
        "buf_put (buf_put b sep) (algo_name a @ rest) = buf_put b (sep @ algo_name a @ rest)"
      using buf_put2 [OF Cons.prems(1), of sep "algo_name a @ rest"] f by simp_all
    have 2: "buf_wf (buf_put (buf_put b sep) (algo_name a))"
        "buf_fits (buf_put (buf_put b sep) (algo_name a)) (length rest)"
        "buf_put (buf_put (buf_put b sep) (algo_name a)) rest = buf_put (buf_put b sep) (algo_name a @ rest)"
      using buf_put2 [OF 1(1), of "algo_name a" rest] 1(2) by simp_all
    have "(if df then buf_putbyte b comma else Inr b) = Inr (buf_put b sep)"
      using Cons.prems(1) f by (auto simp: sep_def buf_eqs intro: buf_fits_mono)
    moreover have "buf_putbytes (buf_put b sep) (algo_name a @ [0]) (of_nat (length (algo_name a)))
        = Inr (buf_put (buf_put b sep) (algo_name a))"
      using 1 by (intro putbytes_name) (auto intro: buf_fits_mono)
    moreover note Cons.IH [OF 2(1) 2(2) [unfolded rest_def], folded rest_def]
    ultimately show ?thesis
      using True all 1(3) 2(3) by (simp split del: if_split)
  qed
qed

lemma buf_put_algolist_eq:
  assumes w: "buf_wf b" and ns: "join_comma (usable_names as u) = s" and f: "buf_fits b (4 + length s)"
  shows "buf_put_algolist_all b as u = Inr (buf_put b (store32h (of_nat (length s)) @ s))"
proof -
  note bd = buf_wf_bounds [OF w]
  let ?z = "store32h 0" and ?l = "store32h (of_nat (length s))"
  have s1: "buf_wf (buf_put b ?z)" "buf_fits (buf_put b ?z) (length s)"
      "buf_put (buf_put b ?z) s = buf_put b (?z @ s)"
    using buf_put2 [OF w, of ?z s] f by simp_all
  have f4: "buf_fits b 4" using f by (rule buf_fits_mono) simp
  have put: "put_algos (buf_put b ?z) as u False = Inr (buf_put b (?z @ s))"
    using put_algos_eq [OF s1(1), of as u False] s1(2,3) ns by (simp add: put_bytes_def)
  have fz: "buf_fits b (length (?z @ s))" "buf_fits b (length (?l @ s))" using f by simp_all
  obtain b1 where b1: "buf_setpos (buf_put b (?z @ s)) (buf_pos b) = Inr b1" "buf_wf b1"
    using buf_put_setpos [OF w fz(1)] by auto
  have b1': "b1 = (buf_put b (?z @ s))\<lparr>buf_pos := buf_pos b\<rparr>"
    using b1(1) by (simp add: buf_setpos_def split: if_splits)
  have len: "buf_pos (buf_put b (?z @ s)) - buf_pos b - 4 = of_nat (length s)"
    by (simp add: buf_put_def Let_def)
  have ls: "unat (of_nat (length s) :: u32) = length s"
    using f bd by (intro unat_of_nat32) (simp add: buf_fits_def)
  have fb1: "buf_fits b1 4" using f4 by (simp add: buf_fits_def b1')
  have w2: "buf_wf (buf_put b1 ?l)" using b1(2) fb1 by auto
  have "buf_fits (buf_put b1 ?l) (length s)"
    using f by (intro buf_put_fits [OF b1(2)]) (simp add: buf_fits_def b1')
  then have "buf_incrwritepos (buf_put b1 ?l) (of_nat (length s))
     = Inr ((buf_put b1 ?l)\<lparr>buf_pos := of_nat (unat (buf_pos (buf_put b1 ?l)) + length s),
         buf_len := of_nat (max (unat (buf_pos (buf_put b1 ?l)) + length s) (unat (buf_len (buf_put b1 ?l))))\<rparr>)"
    by (simp add: buf_incrwritepos_eq [OF w2] ls)
  also have "\<dots> = Inr (buf_put b (?l @ s))"
  proof -
    have p: "unat (buf_pos b) \<le> length (buf_data b)" using bd by linarith
    have len1: "unat (buf_len b1) = max (unat (buf_pos b) + (4 + length s)) (unat (buf_len b))"
      using buf_put_len [OF w fz(1)] by (simp add: b1')
    have "buf_data (buf_put b1 ?l) = buf_data (buf_put b (?l @ s))"
      using p by (simp add: b1' buf_put_def Let_def)
    moreover have "unat (buf_pos (buf_put b1 ?l)) = unat (buf_pos b) + 4"
      using buf_put_pos [OF b1(2), of ?l] fb1 by (simp add: b1')
    moreover have "unat (buf_len (buf_put b1 ?l)) = max (unat (buf_pos b) + (4 + length s)) (unat (buf_len b))"
      using buf_put_len [OF b1(2), of ?l] fb1 len1 by (simp add: b1' max_def)
    moreover have "buf_size (buf_put b1 ?l) = buf_size b" by (simp add: b1')
    ultimately show ?thesis
      by (simp add: buf_put_def [of b "?l @ s"] Let_def add.assoc)
  qed
  finally have inc: "buf_incrwritepos (buf_put b1 ?l) (of_nat (length s)) = Inr (buf_put b (?l @ s))" .
  show ?thesis
    using put b1 len inc f4 fb1 by (simp add: buf_put_algolist_all_def Let_def buf_putint_eq w)
qed

text \<open>
  A name-list written by \<^verbatim>\<open>buf_put_algolist\<close> is read back by \<^verbatim>\<open>buf_getstring\<close> and
  \<^verbatim>\<open>get_algolist\<close> as the usable algorithms' names in their order, and the reader ends where
  the writer did.
\<close>

theorem algolist_roundtrip:
  assumes "buf_wf b" "usable_names as False = ns" "ns \<noteq> []" "\<forall>n \<in> set ns. comma \<notin> set n \<and> 0 \<notin> set n"
    and "length (join_comma ns) \<le> 9000" "length ns \<le> MAX_PROPOSED_ALGO"
    and "buf_fits b (4 + length (join_comma ns))"
  shows "\<exists>b1 b0 str n r. buf_put_algolist b as = Inr b1 \<and> buf_setpos b1 (buf_pos b) = Inr b0 \<and>
    buf_getstring b0 = Inr (str, n, b1) \<and> get_algolist str n MAX_PROPOSED_ALGO = Inr r \<and>
    remote_names r = ns"
proof -
  let ?s = "join_comma ns"
  let ?m = "store32h (of_nat (length ?s)) @ ?s"
  have put: "buf_put_algolist b as = Inr (buf_put b ?m)"
    using buf_put_algolist_eq [OF assms(1) _ assms(7), of as False] assms(2)
    by (simp add: buf_put_algolist_def)
  have f: "buf_fits b (length ?m)" using assms(7) by simp
  obtain b0 t where b0: "buf_setpos (buf_put b ?m) (buf_pos b) = Inr b0" "buf_wf b0"
      "buf_rest b0 = ?m @ t" "buf_adv b0 (length ?m) = buf_put b ?m"
    using buf_put_setpos [OF assms(1) f] by auto
  have u: "unat (of_nat (length ?s) :: u32) = length ?s" using assms(5) by simp
  have g: "buf_getstring b0 = Inr (?s @ [0], of_nat (length ?s), buf_put b ?m)"
    using b0 u assms(5) by (simp add: buf_getstring_eq Let_def)
  have nz: "0 \<notin> set ?s"
    using assms(4) by (induction ns rule: join_comma.induct) (auto simp: comma_def)
  have sp: "split_comma ?s = ns" using assms(3,4) by (simp add: split_join)
  obtain r where r: "get_algolist (?s @ [0]) (of_nat (length ?s)) MAX_PROPOSED_ALGO = Inr r" "remote_names r = ns"
    using get_algolist_ok [OF nz u, of MAX_PROPOSED_ALGO] sp assms(6)
    by (auto simp: MAX_PROPOSED_ALGO_def)
  show ?thesis using put b0(1) g r by blast
qed

theorem algolist_roundtrip_witness:
  "let b = \<lparr>buf_data = replicate 9 0, buf_len = 0, buf_pos = 0, buf_size = 9\<rparr>;
       mk = (\<lambda>nm u. \<lparr>algo_name = nm, algo_val = 0, algo_data = (), algo_usable = u, algo_mode = ()\<rparr>) in
   \<exists>b1 b0 str n r. buf_put_algolist b [mk [97, 98] True, mk [99] False, mk [100] True] = Inr b1 \<and>
    buf_setpos b1 0 = Inr b0 \<and> buf_getstring b0 = Inr (str, n, b1) \<and>
    get_algolist str n MAX_PROPOSED_ALGO = Inr r \<and> remote_names r = [[97, 98], [100]]"
proof -
  let ?b = "\<lparr>buf_data = replicate 9 0, buf_len = 0, buf_pos = 0, buf_size = 9\<rparr>"
  let ?mk = "\<lambda>nm u. \<lparr>algo_name = nm, algo_val = 0, algo_data = (), algo_usable = u, algo_mode = ()\<rparr>"
  let ?as = "[?mk [97, 98 :: u8] True, ?mk [99] False, ?mk [100] True]"
  have w: "buf_wf ?b" by code_simp
  have n: "usable_names ?as False = [[97, 98], [100]]" by (simp add: usable_names_def)
  show ?thesis
    using algolist_roundtrip [OF w n]
    by (simp add: comma_def MAX_PROPOSED_ALGO_def buf_fits_def Let_def)
qed

section \<open>User algorithm lists\<close>

text \<open>The reference: keep the known names of the user's list in its order, each once.\<close>

definition user_pick :: "('d, 'm) algo_type list \<Rightarrow> ('d, 'm) algo_type list \<Rightarrow> bytes \<Rightarrow> ('d, 'm) algo_type list" where
  "user_pick algos acc nm = (case check_algo nm algos of
     Some a \<Rightarrow> (case check_algo nm acc of Some _ \<Rightarrow> acc | None \<Rightarrow> acc @ [a]) | None \<Rightarrow> acc)"

lemma check_algo_Some: "check_algo nm as = Some a \<Longrightarrow> a \<in> set as \<and> algo_name a = nm"
  by (induction as) (auto split: if_splits)

lemma check_algo_None: "check_algo nm as = None \<longleftrightarrow> nm \<notin> algo_name ` set as"
  by (induction as) auto

definition picked :: "('d, 'm) algo_type list \<Rightarrow> ('d, 'm) algo_type list \<Rightarrow> bool" where
  "picked algos acc \<longleftrightarrow> distinct (map algo_name acc) \<and> set acc \<subseteq> set algos"

lemma picked_pick: "picked algos acc \<Longrightarrow> picked algos (user_pick algos acc nm)"
  by (auto simp: picked_def user_pick_def check_algo_None dest: check_algo_Some split: option.split)

lemma picked_length: "picked algos acc \<Longrightarrow> length acc \<le> length algos"
proof -
  assume p: "picked algos acc"
  have "length acc = card (set acc)"
    using p by (metis picked_def distinct_card distinct_map)
  also have "\<dots> \<le> card (set algos)" using p by (intro card_mono) (auto simp: picked_def)
  also have "\<dots> \<le> length algos" by (rule card_length)
  finally show ?thesis .
qed

lemma user_scan:
  "comma \<notin> set n \<Longrightarrow> 0 \<notin> set n \<Longrightarrow> length acc < MAX_PROPOSED_ALGO \<Longrightarrow>
   length pre \<le> c \<Longrightarrow> c \<le> length pre + length n \<Longrightarrow>
   check_user_loop algos (pre @ n @ x # r) c (length pre) acc
     = check_user_loop algos (pre @ n @ x # r) (length pre + length n) (length pre) acc"
proof (induction "length pre + length n - c" arbitrary: c)
  case (Suc k)
  then have c: "c - length pre < length n" "c < length pre + length n" by auto
  then have "(pre @ n @ x # r) ! c = n ! (c - length pre)" using Suc by (simp add: nth_append)
  moreover have "n ! (c - length pre) \<noteq> comma" "n ! (c - length pre) \<noteq> 0"
    using Suc.prems(1,2) c(1) by (metis nth_mem)+
  ultimately have "check_user_loop algos (pre @ n @ x # r) c (length pre) acc
     = check_user_loop algos (pre @ n @ x # r) (Suc c) (length pre) acc"
    using Suc.prems c by (subst check_user_loop.simps) (simp add: Let_def)
  then show ?case using Suc.hyps(1) [of "Suc c"] Suc.hyps(2) Suc.prems c by simp
qed simp

lemma user_sep:
  assumes "0 \<notin> set n" "length acc < MAX_PROPOSED_ALGO" "x = comma \<or> x = 0"
  shows "check_user_loop algos (pre @ n @ x # r) (length pre + length n) (length pre) acc =
    (if x = 0 then Inr (user_pick algos acc n)
     else check_user_loop algos ((pre @ n @ [0]) @ r) (Suc (length (pre @ n @ [0]))) (length (pre @ n @ [0]))
        (user_pick algos acc n))"
proof -
  have w: "(pre @ n @ x # r) ! (length pre + length n) = x"
    "(pre @ n @ x # r)[length pre + length n := 0] = pre @ n @ 0 # r"
    by (simp_all add: nth_append list_update_append)
  show ?thesis
    using assms by (subst check_user_loop.simps) (simp add: w Let_def user_pick_def not_le cong: option.case_cong)
qed

lemma user_loop:
  "ns \<noteq> [] \<Longrightarrow> (\<forall>n \<in> set ns. n \<noteq> [] \<and> comma \<notin> set n \<and> 0 \<notin> set n) \<Longrightarrow> picked algos acc \<Longrightarrow>
   length algos < MAX_PROPOSED_ALGO \<Longrightarrow> length pre \<le> c \<Longrightarrow> c \<le> Suc (length pre) \<Longrightarrow>
   check_user_loop algos (pre @ join_comma ns @ [0]) c (length pre) acc = Inr (foldl (user_pick algos) acc ns)"
proof (induction ns arbitrary: pre c acc rule: join_comma.induct)
  case (2 n)
  then have l: "length acc < MAX_PROPOSED_ALGO" using picked_length [of algos acc] by simp
  have "c \<le> length pre + length n" using 2 by (cases n) auto
  then show ?case
    using 2 l user_scan [of n acc pre c algos 0 "[]"] user_sep [of n acc 0 algos pre "[]"] by simp
next
  case (3 n m ns)
  then have l: "length acc < MAX_PROPOSED_ALGO" using picked_length [of algos acc] by simp
  have "c \<le> length pre + length n" using 3 by (cases n) auto
  then have "check_user_loop algos (pre @ join_comma (n # m # ns) @ [0]) c (length pre) acc =
     check_user_loop algos ((pre @ n @ [0]) @ join_comma (m # ns) @ [0]) (Suc (length (pre @ n @ [0])))
       (length (pre @ n @ [0])) (user_pick algos acc n)"
    using 3 l user_scan [of n acc pre c algos comma "join_comma (m # ns) @ [0]"]
      user_sep [of n acc comma algos pre "join_comma (m # ns) @ [0]"]
    by (simp add: comma_def)
  also have "\<dots> = Inr (foldl (user_pick algos) (user_pick algos acc n) (m # ns))"
    using 3 picked_pick by (intro 3(1)) auto
  finally show ?case by simp
qed simp

text \<open>
  On a comma-separated list of non-empty names, \<^verbatim>\<open>check_user_algos\<close> leaves the known ones in
  the user's order without repetition; the result never has more entries than the array.
\<close>

theorem check_user_algos_correct:
  assumes "ns \<noteq> []" "\<forall>n \<in> set ns. n \<noteq> [] \<and> comma \<notin> set n \<and> 0 \<notin> set n"
    and "length algos < MAX_PROPOSED_ALGO"
  shows "\<exists>r. check_user_algos (join_comma ns) algos = Inr r \<and> r = foldl (user_pick algos) [] ns
    \<and> distinct (map algo_name r) \<and> set r \<subseteq> set algos \<and> length r \<le> length algos
    \<and> algo_name ` set r = set ns \<inter> algo_name ` set algos"
proof -
  let ?r = "foldl (user_pick algos) [] ns"
  have run: "check_user_algos (join_comma ns) algos = Inr ?r"
    using user_loop [of ns algos "[]" "[]" 0] assms by (simp add: check_user_algos_def picked_def)
  have p: "picked algos (foldl (user_pick algos) acc ns)" if "picked algos acc" for acc
    using that by (induction ns arbitrary: acc) (auto intro: picked_pick)
  have one: "algo_name ` set (user_pick algos acc n) = algo_name ` set acc \<union> ({n} \<inter> algo_name ` set algos)" for acc n
  proof (cases "check_algo n algos")
    case a: (Some a)
    show ?thesis
    proof (cases "check_algo n acc")
      case None
      then show ?thesis using a check_algo_Some [OF a] by (auto simp: user_pick_def)
    next
      case (Some a')
      then have "n \<in> algo_name ` set acc" using check_algo_Some [OF Some] by force
      then show ?thesis using a Some by (auto simp: user_pick_def)
    qed
  next
    case None
    then have "n \<notin> algo_name ` set algos" by (simp add: check_algo_None)
    then show ?thesis using None by (simp add: user_pick_def)
  qed
  have "algo_name ` set (foldl (user_pick algos) acc ns) = algo_name ` set acc \<union> (set ns \<inter> algo_name ` set algos)" for acc
    by (induction ns arbitrary: acc) (auto simp: one)
  with run p [of "[]"] picked_length [OF p [of "[]"]] show ?thesis
    by (simp add: picked_def)
qed

theorem check_user_algos_correct_witness:
  "let mk = (\<lambda>nm. \<lparr>algo_name = nm, algo_val = 0, algo_data = (), algo_usable = True, algo_mode = ()\<rparr>) in
   \<exists>r. check_user_algos (join_comma [[98], [120], [97], [98]]) [mk [97], mk [98]] = Inr r
     \<and> map algo_name r = [[98], [97]]"
proof -
  let ?mk = "\<lambda>nm. \<lparr>algo_name = nm, algo_val = 0, algo_data = (), algo_usable = True, algo_mode = ()\<rparr>"
  show ?thesis
    using check_user_algos_correct [of "[[98], [120], [97], [98 :: u8]]" "[?mk [97], ?mk [98]]"]
    by (auto simp: comma_def MAX_PROPOSED_ALGO_def user_pick_def)
qed

text \<open>
  A trailing comma makes \<^verbatim>\<open>check_user_algos\<close> step over the terminator of its copy of the list
  and read beyond it.
\<close>

theorem check_user_algos_trailing_comma:
  assumes "comma \<notin> set n" "0 \<notin> set n"
  shows "check_user_algos (n @ [comma]) algos = Inl OutOfBounds"
proof -
  have "check_user_algos (n @ [comma]) algos =
    check_user_loop algos ((n @ [0]) @ [0]) (Suc (length (n @ [0]))) (length (n @ [0])) (user_pick algos [] n)"
    using user_scan [of n "[]" "[]" 0 algos comma "[0]"] user_sep [of n "[]" comma algos "[]" "[0]"] assms
    by (simp add: check_user_algos_def MAX_PROPOSED_ALGO_def comma_def)
  then show ?thesis by (simp add: check_user_loop.simps)
qed

theorem check_user_algos_trailing_comma_witness:
  "check_user_algos (lit ''aes,'') ([] :: (unit, unit) algo_type list) = Inl OutOfBounds"
proof -
  have "lit ''aes,'' = lit ''aes'' @ [comma]" by code_simp
  moreover have "comma \<notin> set (lit ''aes'')" "0 \<notin> set (lit ''aes'')" by code_simp+
  ultimately show ?thesis using check_user_algos_trailing_comma [of "lit ''aes''"] by metis
qed

end
