(* ===== verification/Session.thy ===== *)
theory Session
  imports Buffer Circbuffer
begin

text \<open>
  The state of a session: \<^verbatim>\<open>struct sshsession\<close> of \<^verbatim>\<open>session.h\<close> with the structures it holds
  (\<^verbatim>\<open>KEXState\<close>, \<^verbatim>\<open>AuthState\<close>, \<^verbatim>\<open>key_context\<close>, \<^verbatim>\<open>Channel\<close>), the constants of \<^verbatim>\<open>ssh.h\<close>,
  \<^verbatim>\<open>sysoptions.h\<close> and \<^verbatim>\<open>packet.h\<close>, and the environment a session runs in.

  \<^item> Flags that the code only tests are \<open>bool\<close>; sizes, windows and sequence numbers are words.
  \<^item> A queue of buffers (\<^verbatim>\<open>struct Queue\<close>, the reply list) is the list of its items: theory
    \<open>DBQueue\<close> shows that the linked queue implements it.
  \<^item> The cipher state is a type variable \<open>'c\<close>, the zlib stream a type variable \<open>'z\<close>: a
    \<^verbatim>\<open>dropbear_cipher_mode\<close> is a record of functions over \<open>'c\<close>, as it is a struct of function
    pointers in the code.
  \<^item> What comes from outside (random bytes, the clock, results of system calls, HMAC and zlib)
    is an environment record; \<open>ses_tick\<close> counts the calls, so that two calls may differ.
    \<open>ses_trace\<close> records the effects on file descriptors.
\<close>

section \<open>Constants\<close>

definition SSH_MSG_DISCONNECT :: u8 where "SSH_MSG_DISCONNECT = 1"
definition SSH_MSG_IGNORE :: u8 where "SSH_MSG_IGNORE = 2"
definition SSH_MSG_UNIMPLEMENTED :: u8 where "SSH_MSG_UNIMPLEMENTED = 3"
definition SSH_MSG_DEBUG :: u8 where "SSH_MSG_DEBUG = 4"
definition SSH_MSG_SERVICE_REQUEST :: u8 where "SSH_MSG_SERVICE_REQUEST = 5"
definition SSH_MSG_SERVICE_ACCEPT :: u8 where "SSH_MSG_SERVICE_ACCEPT = 6"
definition SSH_MSG_EXT_INFO :: u8 where "SSH_MSG_EXT_INFO = 7"
definition SSH_MSG_KEXINIT :: u8 where "SSH_MSG_KEXINIT = 20"
definition SSH_MSG_NEWKEYS :: u8 where "SSH_MSG_NEWKEYS = 21"
definition SSH_MSG_KEXDH_INIT :: u8 where "SSH_MSG_KEXDH_INIT = 30"
definition SSH_MSG_KEXDH_REPLY :: u8 where "SSH_MSG_KEXDH_REPLY = 31"
definition SSH_MSG_USERAUTH_REQUEST :: u8 where "SSH_MSG_USERAUTH_REQUEST = 50"
definition SSH_MSG_USERAUTH_FAILURE :: u8 where "SSH_MSG_USERAUTH_FAILURE = 51"
definition SSH_MSG_USERAUTH_SUCCESS :: u8 where "SSH_MSG_USERAUTH_SUCCESS = 52"
definition SSH_MSG_USERAUTH_BANNER :: u8 where "SSH_MSG_USERAUTH_BANNER = 53"
definition SSH_MSG_USERAUTH_PK_OK :: u8 where "SSH_MSG_USERAUTH_PK_OK = 60"
definition SSH_MSG_GLOBAL_REQUEST :: u8 where "SSH_MSG_GLOBAL_REQUEST = 80"
definition SSH_MSG_REQUEST_SUCCESS :: u8 where "SSH_MSG_REQUEST_SUCCESS = 81"
definition SSH_MSG_REQUEST_FAILURE :: u8 where "SSH_MSG_REQUEST_FAILURE = 82"
definition SSH_MSG_CHANNEL_OPEN :: u8 where "SSH_MSG_CHANNEL_OPEN = 90"
definition SSH_MSG_CHANNEL_OPEN_CONFIRMATION :: u8 where "SSH_MSG_CHANNEL_OPEN_CONFIRMATION = 91"
definition SSH_MSG_CHANNEL_OPEN_FAILURE :: u8 where "SSH_MSG_CHANNEL_OPEN_FAILURE = 92"
definition SSH_MSG_CHANNEL_WINDOW_ADJUST :: u8 where "SSH_MSG_CHANNEL_WINDOW_ADJUST = 93"
definition SSH_MSG_CHANNEL_DATA :: u8 where "SSH_MSG_CHANNEL_DATA = 94"
definition SSH_MSG_CHANNEL_EXTENDED_DATA :: u8 where "SSH_MSG_CHANNEL_EXTENDED_DATA = 95"
definition SSH_MSG_CHANNEL_EOF :: u8 where "SSH_MSG_CHANNEL_EOF = 96"
definition SSH_MSG_CHANNEL_CLOSE :: u8 where "SSH_MSG_CHANNEL_CLOSE = 97"
definition SSH_MSG_CHANNEL_REQUEST :: u8 where "SSH_MSG_CHANNEL_REQUEST = 98"
definition SSH_MSG_CHANNEL_SUCCESS :: u8 where "SSH_MSG_CHANNEL_SUCCESS = 99"
definition SSH_MSG_CHANNEL_FAILURE :: u8 where "SSH_MSG_CHANNEL_FAILURE = 100"

lemmas ssh_msgs = SSH_MSG_DISCONNECT_def SSH_MSG_IGNORE_def SSH_MSG_UNIMPLEMENTED_def
  SSH_MSG_DEBUG_def SSH_MSG_SERVICE_REQUEST_def SSH_MSG_SERVICE_ACCEPT_def SSH_MSG_EXT_INFO_def
  SSH_MSG_KEXINIT_def SSH_MSG_NEWKEYS_def SSH_MSG_KEXDH_INIT_def SSH_MSG_KEXDH_REPLY_def
  SSH_MSG_USERAUTH_REQUEST_def SSH_MSG_USERAUTH_FAILURE_def SSH_MSG_USERAUTH_SUCCESS_def
  SSH_MSG_USERAUTH_BANNER_def SSH_MSG_USERAUTH_PK_OK_def SSH_MSG_GLOBAL_REQUEST_def
  SSH_MSG_REQUEST_SUCCESS_def SSH_MSG_REQUEST_FAILURE_def SSH_MSG_CHANNEL_OPEN_def
  SSH_MSG_CHANNEL_OPEN_CONFIRMATION_def SSH_MSG_CHANNEL_OPEN_FAILURE_def
  SSH_MSG_CHANNEL_WINDOW_ADJUST_def SSH_MSG_CHANNEL_DATA_def SSH_MSG_CHANNEL_EXTENDED_DATA_def
  SSH_MSG_CHANNEL_EOF_def SSH_MSG_CHANNEL_CLOSE_def SSH_MSG_CHANNEL_REQUEST_def
  SSH_MSG_CHANNEL_SUCCESS_def SSH_MSG_CHANNEL_FAILURE_def

definition RECV_MAX_PAYLOAD_LEN :: u32 where "RECV_MAX_PAYLOAD_LEN = 32768"
definition TRANS_MAX_PAYLOAD_LEN :: u32 where "TRANS_MAX_PAYLOAD_LEN = 16384"
definition RECV_MAX_PACKET_LEN :: u32 where "RECV_MAX_PACKET_LEN = 35000"
definition MIN_PACKET_LEN :: u32 where "MIN_PACKET_LEN = 16"
definition INIT_READBUF :: u32 where "INIT_READBUF = 128"
definition PACKET_PADDING_OFF :: u32 where "PACKET_PADDING_OFF = 4"
definition PACKET_PAYLOAD_OFF :: u32 where "PACKET_PAYLOAD_OFF = 5"
definition ZLIB_COMPRESS_EXPANSION :: u32 where
  "ZLIB_COMPRESS_EXPANSION = (RECV_MAX_PAYLOAD_LEN div 16384 + 1) * 5 + 6"
definition MAX_MAC_LEN :: nat where "MAX_MAC_LEN = 32"
definition MAX_CHANNELS :: u32 where "MAX_CHANNELS = 1000"
definition CHAN_EXTEND_SIZE :: u32 where "CHAN_EXTEND_SIZE = 3"
definition FD_UNINIT :: int where "FD_UNINIT = -2"
definition FD_CLOSED :: int where "FD_CLOSED = -1"

section \<open>Ciphers and keys\<close>

text \<open>
  \<open>ciph_desc\<close> tells whether \<^verbatim>\<open>cipherdesc\<close> is set; \<open>hash_desc\<close> is the index that \<^verbatim>\<open>find_hash\<close> gives
  for the hash descriptor, if there is one.
\<close>

record dropbear_cipher =
  ciph_desc :: bool
  ciph_keysize :: nat
  ciph_blocksize :: u8

record dropbear_hash =
  hash_desc :: "int option"
  hash_keysize :: nat
  hash_hashsize :: u8

text \<open>
  \<open>None\<close> is a return value other than \<^verbatim>\<open>CRYPT_OK\<close>. \<open>aead_crypt\<close> takes the sequence number, the
  input, the payload and tag lengths, the state and the direction (\<open>True\<close> to encrypt).
\<close>

record 'c dropbear_cipher_mode =
  mode_start :: "bytes \<Rightarrow> bytes \<Rightarrow> 'c \<Rightarrow> 'c option"
  mode_encrypt :: "bytes \<Rightarrow> 'c \<Rightarrow> (bytes \<times> 'c) option"
  mode_decrypt :: "bytes \<Rightarrow> 'c \<Rightarrow> (bytes \<times> 'c) option"
  aead_crypt :: "(u32 \<Rightarrow> bytes \<Rightarrow> nat \<Rightarrow> nat \<Rightarrow> 'c \<Rightarrow> bool \<Rightarrow> (bytes \<times> 'c) option) option"
  aead_getlength :: "u32 \<Rightarrow> bytes \<Rightarrow> 'c \<Rightarrow> u32 option"
  aead_mac :: "dropbear_hash option"

datatype comp = COMP_NONE | COMP_ZLIB | COMP_ZLIB_DELAY

record ('c, 'z) key_context_directional =
  dk_algo_crypt :: dropbear_cipher
  dk_crypt_mode :: "'c dropbear_cipher_mode"
  dk_algo_mac :: dropbear_hash
  dk_hash_index :: int
  dk_algo_comp :: comp
  dk_zstream :: "'z option"
  dk_cipher_state :: 'c
  dk_mackey :: bytes
  dk_valid :: bool

text \<open>A key exchange method: the hash it uses and the size of its output.\<close>

record dropbear_kex =
  kex_hash :: "bytes \<Rightarrow> bytes"
  kex_hashsize :: nat

record ('c, 'z) key_context =
  keys_recv :: "('c, 'z) key_context_directional"
  keys_trans :: "('c, 'z) key_context_directional"
  keys_algo_kex :: "dropbear_kex option"
  keys_algo_hostkey :: int
  keys_algo_signature :: int

definition dropbear_nocipher :: dropbear_cipher where
  "dropbear_nocipher = \<lparr>ciph_desc = False, ciph_keysize = 16, ciph_blocksize = 8\<rparr>"

definition dropbear_nohash :: dropbear_hash where
  "dropbear_nohash = \<lparr>hash_desc = None, hash_keysize = 16, hash_hashsize = 0\<rparr>"

definition void_cipher :: "bytes \<Rightarrow> 'c \<Rightarrow> (bytes \<times> 'c) option" where
  "void_cipher inp st = Some (inp, st)"

definition void_start :: "bytes \<Rightarrow> bytes \<Rightarrow> 'c \<Rightarrow> 'c option" where
  "void_start IV key st = Some st"

definition dropbear_mode_none :: "'c dropbear_cipher_mode" where
  "dropbear_mode_none = \<lparr>mode_start = void_start, mode_encrypt = void_cipher, mode_decrypt = void_cipher,
     aead_crypt = None, aead_getlength = (\<lambda>_ _ _. None), aead_mac = None\<rparr>"

section \<open>Key exchange and authentication state\<close>

record KEXState =
  kex_sentkexinit :: bool
  kex_recvkexinit :: bool
  kex_them_firstfollows :: bool
  kex_sentnewkeys :: bool
  kex_recvnewkeys :: bool
  kex_donefirstkex :: bool
  kex_donesecondkex :: bool
  kex_recvfirstnewkeys :: bool
  kex_our_first_follows_matches :: bool
  kex_strict_kex :: bool
  kex_lastkextime :: int
  kex_needrekey :: bool
  kex_datatrans :: u32
  kex_datarecv :: u32

record PermitTCPFwdEntry =
  fwd_host :: "bytes option"
  fwd_port :: u32

record PubKeyOptions =
  no_port_forwarding_flag :: bool
  no_agent_forwarding_flag :: bool
  no_x11_forwarding_flag :: bool
  no_pty_flag :: bool
  forced_command :: "bytes option"
  permit_open_destinations :: "PermitTCPFwdEntry list option"
  permit_listens :: "PermitTCPFwdEntry list option"
  no_touch_required_flag :: bool
  verify_required_flag :: bool
  info_env :: "bytes option"

record AuthState =
  auth_username :: "bytes option"
  auth_authtypes :: u8
  auth_failcount :: u32
  auth_authdone :: bool
  auth_perm_warn :: bool
  auth_checkusername_failed :: bool
  auth_serv_pubkey_query_count :: u32
  auth_starttime :: "int \<times> int"
  auth_pw_uid :: int
  auth_pw_gid :: int
  auth_pw_dir :: "bytes option"
  auth_pw_shell :: "bytes option"
  auth_pw_name :: "bytes option"
  auth_pw_passwd :: "bytes option"
  auth_pubkey_options :: "PubKeyOptions option"

section \<open>Channels\<close>

datatype prio = PRIO_NORMAL | PRIO_LOWDELAY

text \<open>
  \<open>ch_type\<close> is the index of the channel's \<^verbatim>\<open>struct ChanType\<close> among the program's channel types,
  \<open>ch_conn_pending\<close> the number of the connection it waits for.
\<close>

record Channel =
  ch_index :: u32
  ch_remotechan :: u32
  ch_recvwindow :: u32
  ch_transwindow :: u32
  ch_recvdonelen :: u32
  ch_recvmaxpacket :: u32
  ch_transmaxpacket :: u32
  ch_writefd :: int
  ch_readfd :: int
  ch_errfd :: int
  ch_bidir_fd :: bool
  ch_writebuf :: circbuffer
  ch_extrabuf :: "circbuffer option"
  ch_sent_close :: bool
  ch_recv_close :: bool
  ch_recv_eof :: bool
  ch_sent_eof :: bool
  ch_flushing :: bool
  ch_conn_pending :: "nat option"
  ch_await_open :: bool
  ch_type :: nat
  ch_prio :: prio

section \<open>Listeners and pending connections\<close>

datatype fwd_type = fwd_direct | fwd_forwarded

text \<open>A \<^verbatim>\<open>char *\<close> is the memory it points to, with the terminator, or \<open>None\<close> for NULL.\<close>

record FwdListener =
  fl_sendaddr :: "bytes option"
  fl_sendport :: u32
  fl_listenaddr :: "bytes option"
  fl_listenport :: u32
  fl_request_listenaddr :: "bytes option"
  fl_interface :: "bytes option"
  fl_chantype :: nat
  fl_fwd_type :: fwd_type
  fl_socket_path :: "bytes option"

text \<open>The functions that a listener's pointers name; \<open>l_type\<close> is a number, as any \<^verbatim>\<open>enum\<close> value is.\<close>

datatype acceptor = Tcp_acceptor | Streamlocal_acceptor | Agent_acceptor
datatype cleanup = Cleanup_tcp | Cleanup_streamlocal

record Listener =
  l_socks :: "int list"
  l_nsocks :: u32
  l_index :: nat
  l_acceptor :: acceptor
  l_cleanup :: "cleanup option"
  l_type :: u32
  l_typedata :: "FwdListener option"

datatype ai_family = AF_INET | AF_INET6 | AF_UNIX

record addrinfo =
  ai_family :: ai_family
  ai_addr :: bytes
  ai_port :: u32

text \<open>What is called when a connection is made or fails: \<^verbatim>\<open>channel_connect_done\<close> for a channel or \<^verbatim>\<open>cancel_callback\<close>.\<close>

datatype connect_callback = Channel_connect_done nat | Cancel_callback

text \<open>\<open>pc_id\<close> stands for the address of the structure.\<close>

record dropbear_progress_connection =
  pc_id :: nat
  pc_res_iter :: "addrinfo list"
  pc_remotehost :: bytes
  pc_remoteport :: "bytes option"
  pc_cb :: connect_callback
  pc_sock :: int
  pc_errstring :: "bytes option"
  pc_bind_address :: "bytes option"
  pc_bind_port :: "bytes option"
  pc_prio :: prio

section \<open>Environment\<close>

datatype errno = EINTR | EAGAIN | EOTHER

text \<open>Results of \<^verbatim>\<open>read\<close> (no bytes at end of file) and of \<^verbatim>\<open>write\<close>/\<^verbatim>\<open>writev\<close>.\<close>

datatype rd_result = RdData bytes | RdErr errno
datatype wr_result = WrOk nat | WrErr errno

text \<open>The result code, the bytes produced, the input left over and the new stream.\<close>

datatype 'z zresult = ZResult bool bytes nat 'z

record 'z env =
  e_random :: "nat \<Rightarrow> nat \<Rightarrow> bytes"
  e_now :: "nat \<Rightarrow> int"
  e_read :: "nat \<Rightarrow> int \<Rightarrow> nat \<Rightarrow> rd_result"
  e_write :: "nat \<Rightarrow> int \<Rightarrow> bytes \<Rightarrow> wr_result"
  e_close_ok :: "nat \<Rightarrow> int \<Rightarrow> bool"
  e_fd_read_pending :: "nat \<Rightarrow> int \<Rightarrow> bool"
  e_hmac :: "int \<Rightarrow> bytes \<Rightarrow> bytes \<Rightarrow> bytes option"
  e_inflate :: "'z \<Rightarrow> bytes \<Rightarrow> nat \<Rightarrow> 'z zresult"
  e_deflate :: "'z \<Rightarrow> bytes \<Rightarrow> nat \<Rightarrow> 'z zresult"
  e_uninit :: "nat \<Rightarrow> u8"
  opt_recv_window :: u32
  opt_keepalive_secs :: int
  opt_idle_timeout_secs :: int

text \<open>What the documentation of these calls promises.\<close>

definition env_ok :: "'z env \<Rightarrow> bool" where
  "env_ok e \<longleftrightarrow> (\<forall>t n. length (e_random e t n) = n)
     \<and> (\<forall>t fd n bs. e_read e t fd n = RdData bs \<longrightarrow> length bs \<le> n)
     \<and> (\<forall>t fd bs n. e_write e t fd bs = WrOk n \<longrightarrow> n \<le> length bs)
     \<and> (\<forall>z inp n ok out l z'. e_inflate e z inp n = ZResult ok out l z' \<longrightarrow> length out \<le> n \<and> l \<le> length inp)
     \<and> (\<forall>z inp n ok out l z'. e_deflate e z inp n = ZResult ok out l z' \<longrightarrow> length out \<le> n \<and> l \<le> length inp)"

section \<open>Server\<close>

text \<open>The identities of the process: real and effective user and group, saved group, and the arguments of the last \<^verbatim>\<open>initgroups\<close>.\<close>

record creds =
  cr_uid :: int
  cr_euid :: int
  cr_gid :: int
  cr_egid :: int
  cr_sgid :: int
  cr_groups :: "(bytes \<times> int) option"

text \<open>
  What \<^verbatim>\<open>struct serversession\<close> holds for authentication, with \<^verbatim>\<open>svr_opts.banner\<close>, which the first request
  takes out, and the identities of the process.
\<close>

record serversession =
  svr_childpipe :: int
  svr_banner :: "buffer option"
  svr_have_utmp_gid :: bool
  svr_utmp_gid :: int
  svr_creds :: creds

definition zero_svr :: serversession where
  "zero_svr = \<lparr>svr_childpipe = 0, svr_banner = None, svr_have_utmp_gid = False, svr_utmp_gid = 0,
     svr_creds = \<lparr>cr_uid = 0, cr_euid = 0, cr_gid = 0, cr_egid = 0, cr_sgid = 0, cr_groups = None\<rparr>\<rparr>"

section \<open>Session\<close>

datatype event = EvWrite int bytes | EvClose int | EvShutdown int nat | EvUnlink bytes | EvSleep int

record ('c, 'z) session =
  ses_connect_time :: int
  ses_sock_in :: int
  ses_sock_out :: int
  ses_remoteident :: "bytes option"
  ses_maxfd :: int
  ses_writepayload :: buffer
  ses_writequeue :: "buffer list"
  ses_writequeue_len :: u32
  ses_readbuf :: "buffer option"
  ses_payload :: "buffer option"
  ses_payload_beginning :: u32
  ses_transseq :: u32
  ses_recvseq :: u32
  ses_dataallowed :: bool
  ses_requirenext :: u8
  ses_ignorenext :: bool
  ses_lastpacket :: u8
  ses_channel_signal_pending :: bool
  ses_last_packet_time_keepalive_sent :: int
  ses_last_packet_time_keepalive_recv :: int
  ses_last_packet_time_any_sent :: int
  ses_last_packet_time_idle :: int
  ses_kexstate :: KEXState
  ses_keys :: "('c, 'z) key_context"
  ses_newkeys :: "('c, 'z) key_context option"
  ses_session_id :: "buffer option"
  ses_hash :: "buffer option"
  ses_dh_K :: "mp_int option"
  ses_dh_K_bytes :: "buffer option"
  ses_kexhashbuf :: "buffer option"
  ses_transkexinit :: "buffer option"
  ses_allow_ext_info :: bool
  ses_reply_queue :: "buffer list"
  ses_authstate :: AuthState
  ses_channels :: "Channel option list"
  ses_chansize :: u32
  ses_chancount :: u32
  ses_socket_prio :: prio
  ses_listeners :: "Listener option list"
  ses_listensize :: u32
  ses_conn_pending :: "dropbear_progress_connection list"
  ses_next_conn :: nat
  ses_allowprivport :: bool
  ses_exitflag :: bool
  ses_svr :: serversession
  ses_tick :: nat
  ses_trace :: "event list"

abbreviation ses_trans :: "('c, 'z) session \<Rightarrow> ('c, 'z) key_context_directional" where
  "ses_trans s \<equiv> keys_trans (ses_keys s)"

abbreviation ses_recv :: "('c, 'z) session \<Rightarrow> ('c, 'z) key_context_directional" where
  "ses_recv s \<equiv> keys_recv (ses_keys s)"

definition set_trans :: "('c, 'z) session \<Rightarrow> ('c, 'z) key_context_directional \<Rightarrow> ('c, 'z) session" where
  "set_trans s k = s\<lparr>ses_keys := (ses_keys s)\<lparr>keys_trans := k\<rparr>\<rparr>"

definition set_recv :: "('c, 'z) session \<Rightarrow> ('c, 'z) key_context_directional \<Rightarrow> ('c, 'z) session" where
  "set_recv s k = s\<lparr>ses_keys := (ses_keys s)\<lparr>keys_recv := k\<rparr>\<rparr>"

definition tick :: "('c, 'z) session \<Rightarrow> ('c, 'z) session" where
  "tick s = s\<lparr>ses_tick := Suc (ses_tick s)\<rparr>"

definition log_event :: "event \<Rightarrow> ('c, 'z) session \<Rightarrow> ('c, 'z) session" where
  "log_event ev s = s\<lparr>ses_trace := ses_trace s @ [ev]\<rparr>"

definition is_compress_trans :: "('c, 'z) session \<Rightarrow> bool" where
  "is_compress_trans s \<longleftrightarrow> dk_algo_comp (ses_trans s) = COMP_ZLIB
     \<or> (auth_authdone (ses_authstate s) \<and> dk_algo_comp (ses_trans s) = COMP_ZLIB_DELAY)"

definition is_compress_recv :: "('c, 'z) session \<Rightarrow> bool" where
  "is_compress_recv s \<longleftrightarrow> dk_algo_comp (ses_recv s) = COMP_ZLIB
     \<or> (auth_authdone (ses_authstate s) \<and> dk_algo_comp (ses_recv s) = COMP_ZLIB_DELAY)"

text \<open>\<^verbatim>\<open>ses.remoteclosed\<close> of a server.\<close>

definition svr_remoteclosed :: "'a res" where
  "svr_remoteclosed = Inl (Close ''Exited normally'')"

section \<open>Initial state\<close>

text \<open>Keys before the first key exchange. \<open>c0\<close> is the zeroed memory of the cipher state.\<close>

definition none_keys :: "'c \<Rightarrow> ('c, 'z) key_context_directional" where
  "none_keys c0 = \<lparr>dk_algo_crypt = dropbear_nocipher, dk_crypt_mode = dropbear_mode_none,
     dk_algo_mac = dropbear_nohash, dk_hash_index = 0, dk_algo_comp = COMP_NONE, dk_zstream = None,
     dk_cipher_state = c0, dk_mackey = replicate MAX_MAC_LEN 0, dk_valid = False\<rparr>"

definition zero_kexstate :: KEXState where
  "zero_kexstate = \<lparr>kex_sentkexinit = False, kex_recvkexinit = False, kex_them_firstfollows = False,
     kex_sentnewkeys = False, kex_recvnewkeys = False, kex_donefirstkex = False,
     kex_donesecondkex = False, kex_recvfirstnewkeys = False, kex_our_first_follows_matches = False,
     kex_strict_kex = False, kex_lastkextime = 0, kex_needrekey = False, kex_datatrans = 0, kex_datarecv = 0\<rparr>"

definition zero_authstate :: AuthState where
  "zero_authstate = \<lparr>auth_username = None, auth_authtypes = 0, auth_failcount = 0, auth_authdone = False,
     auth_perm_warn = False, auth_checkusername_failed = False, auth_serv_pubkey_query_count = 0, auth_starttime = (0, 0),
     auth_pw_uid = 0, auth_pw_gid = 0, auth_pw_dir = None, auth_pw_shell = None, auth_pw_name = None,
     auth_pw_passwd = None, auth_pubkey_options = None\<rparr>"

text \<open>The loop of \<^verbatim>\<open>update_channel_prio\<close>; \<^verbatim>\<open>set_sock_priority\<close> is not modelled.\<close>

definition update_channel_prio :: "('c, 'z) session \<Rightarrow> ('c, 'z) session" where
  "update_channel_prio s =
     (if ses_sock_out s < 0 then s
      else let chans = List.map_filter id (take (unat (ses_chansize s)) (ses_channels s));
               new_prio = (if list_ex (\<lambda>ch. ch_prio ch = PRIO_LOWDELAY) chans then PRIO_LOWDELAY
                           else if chans = [] then PRIO_LOWDELAY else PRIO_NORMAL) in
           s\<lparr>ses_socket_prio := new_prio\<rparr>)"

text \<open>\<open>pipefds\<close> is what \<^verbatim>\<open>pipe(ses.signal_pipe)\<close> returns.\<close>

definition common_session_init :: "'z env \<Rightarrow> 'c \<Rightarrow> int \<Rightarrow> int \<Rightarrow> (int \<times> int) option \<Rightarrow> ('c, 'z) session res" where
  "common_session_init e c0 sock_in sock_out pipefds =
     (let now = e_now e 0 in
      case pipefds of None \<Rightarrow> Inl (Exit ''Signal pipe failed'')
      | Some (p0, p1) \<Rightarrow>
        rbind (buf_new TRANS_MAX_PAYLOAD_LEN) (\<lambda>wp.
        Inr (update_channel_prio
          \<lparr>ses_connect_time = now, ses_sock_in = sock_in, ses_sock_out = sock_out, ses_remoteident = None,
           ses_maxfd = max (max (max sock_in sock_out) p0) p1,
           ses_writepayload = wp, ses_writequeue = [], ses_writequeue_len = 0,
           ses_readbuf = None, ses_payload = None, ses_payload_beginning = 0, ses_transseq = 0,
           ses_recvseq = 0, ses_dataallowed = True, ses_requirenext = SSH_MSG_KEXINIT,
           ses_ignorenext = False, ses_lastpacket = 0, ses_channel_signal_pending = False,
           ses_last_packet_time_keepalive_sent = 0, ses_last_packet_time_keepalive_recv = now,
           ses_last_packet_time_any_sent = 0, ses_last_packet_time_idle = now,
           ses_kexstate = zero_kexstate,
           ses_keys = \<lparr>keys_recv = none_keys c0, keys_trans = none_keys c0, keys_algo_kex = None,
                       keys_algo_hostkey = -1, keys_algo_signature = 0\<rparr>,
           ses_newkeys = None, ses_session_id = None, ses_hash = None, ses_dh_K = None,
           ses_dh_K_bytes = None, ses_kexhashbuf = None, ses_transkexinit = None,
           ses_allow_ext_info = False, ses_reply_queue = [], ses_authstate = zero_authstate,
           ses_channels = [], ses_chansize = 0, ses_chancount = 0, ses_socket_prio = PRIO_NORMAL,
           ses_listeners = [], ses_listensize = 0, ses_conn_pending = [], ses_next_conn = 0, ses_allowprivport = False,
           ses_exitflag = False, ses_svr = zero_svr, ses_tick = 1, ses_trace = []\<rparr>)))"

text \<open>An environment for evaluating the model: zero padding, no clock, end of file on every read.\<close>

definition null_env :: "unit env" where
  "null_env = \<lparr>e_random = (\<lambda>_ n. replicate n 0), e_now = (\<lambda>t. int t), e_read = (\<lambda>_ _ _. RdErr EAGAIN),
     e_write = (\<lambda>_ _ bs. WrOk (length bs)), e_close_ok = (\<lambda>_ _. True), e_fd_read_pending = (\<lambda>_ _. False),
     e_hmac = (\<lambda>_ _ bs. Some (replicate 32 (of_nat (length bs)))),
     e_inflate = (\<lambda>z _ _. ZResult False [] 0 z), e_deflate = (\<lambda>z _ _. ZResult False [] 0 z),
     e_uninit = (\<lambda>_. 0), opt_recv_window = 24576, opt_keepalive_secs = 0, opt_idle_timeout_secs = 0\<rparr>"

text \<open>A fresh session over it.\<close>

definition fresh_session :: "(unit, unit) session" where
  "fresh_session = (case common_session_init null_env () 3 3 (Some (4, 5)) of Inr s \<Rightarrow> s)"

end
