(* ===== verification/Outcome.thy ===== *)
theory Outcome
  imports Buffer
begin

text \<open>
  A calculus of outcomes for code in the result monad. \<open>runs P m\<close> says that \<open>m\<close> returns a value
  with \<open>P\<close> or ends the process through \<^verbatim>\<open>dropbear_exit\<close> or \<^verbatim>\<open>dropbear_close\<close>: no access out of
  bounds, no null pointer, no division by zero and no failed \<^verbatim>\<open>dropbear_assert\<close>. There is one rule
  per buffer operation, with the strongest facts its callers use.
\<close>

section \<open>Outcomes\<close>

definition clean :: "fatal \<Rightarrow> bool" where
  "clean e \<longleftrightarrow> (case e of Exit _ \<Rightarrow> True | Close _ \<Rightarrow> True | _ \<Rightarrow> False)"

definition runs :: "('a \<Rightarrow> bool) \<Rightarrow> 'a res \<Rightarrow> bool" where
  "runs P m \<longleftrightarrow> (case m of Inl e \<Rightarrow> clean e | Inr x \<Rightarrow> P x)"

lemma clean_simps [simp]: "clean (Exit s)" "clean (Close s)" "\<not> clean (AssertFail s)" "\<not> clean OutOfBounds"
  "\<not> clean NullDeref" "\<not> clean DivByZero" "\<not> clean Diverge"
  by (simp_all add: clean_def)

lemma runs_simps [simp]: "runs P (Inr x) \<longleftrightarrow> P x" "runs P (Inl e) \<longleftrightarrow> clean e"
  by (simp_all add: runs_def)

lemma runs_rbind: "runs Q m \<Longrightarrow> (\<And>x. Q x \<Longrightarrow> runs P (f x)) \<Longrightarrow> runs P (rbind m f)"
  by (cases m) auto

lemma runs_weaken: "runs Q m \<Longrightarrow> (\<And>x. Q x \<Longrightarrow> P x) \<Longrightarrow> runs P m"
  by (cases m) auto

lemma runs_conj: "runs P m \<Longrightarrow> runs Q m \<Longrightarrow> runs (\<lambda>x. P x \<and> Q x) m"
  by (cases m) auto

lemma runs_InrD: "runs P m \<Longrightarrow> m = Inr x \<Longrightarrow> P x"
  by simp

lemma runs_iff: "runs P m \<longleftrightarrow> (\<exists>msg. m = Inl (Exit msg) \<or> m = Inl (Close msg)) \<or> (\<exists>x. m = Inr x \<and> P x)"
  by (auto simp: runs_def clean_def split: sum.splits fatal.splits)

lemma runs_if: "(c \<Longrightarrow> runs P a) \<Longrightarrow> (\<not> c \<Longrightarrow> runs P b) \<Longrightarrow> runs P (if c then a else b)"
  by simp

text \<open>The facts that hold of whatever value is returned.\<close>

lemma runs_ret: "runs P m \<Longrightarrow> runs (\<lambda>x. m = Inr x \<and> P x) m"
  by (cases m) auto

section \<open>Memory and buffers\<close>

named_theorems runs_buf \<open>outcomes of buffer operations\<close>

lemma runs_mem_read: "off + n \<le> length d \<Longrightarrow> runs (\<lambda>x. x = take n (drop off d) \<and> length x = n) (mem_read d off n)"
  by simp

lemma runs_mem_write:
  "off + length bs \<le> length d \<Longrightarrow> runs (\<lambda>x. length x = length d \<and> x = take off d @ bs @ drop (off + length bs) d) (mem_write d off bs)"
  by simp

lemma runs_new: "runs (\<lambda>b. buf_wf b \<and> buf_len b = 0 \<and> buf_pos b = 0 \<and> buf_size b = n) (buf_new n)"
  by (simp add: buf_new_def buf_wf_def wnat)

lemma runs_resize:
  "buf_wf b \<Longrightarrow> runs (\<lambda>b'. buf_wf b' \<and> buf_len b' = min n (buf_len b) \<and> buf_pos b' = min n (buf_pos b) \<and> buf_size b' = n)
     (buf_resize junk b n)"
  by (simp add: buf_resize_def buf_wf_def not_less) (simp add: wnat unat_min min.coboundedI2 min_le_iff_disj)

lemma runs_setpos:
  "buf_wf b \<Longrightarrow> runs (\<lambda>b'. buf_wf b' \<and> b' = b\<lparr>buf_pos := p\<rparr> \<and> unat p \<le> unat (buf_len b)) (buf_setpos b p)"
  by (simp add: buf_setpos_def buf_wf_def wnat)

lemma runs_setlen:
  "buf_wf b \<Longrightarrow> runs (\<lambda>b'. buf_wf b' \<and> b' = b\<lparr>buf_len := n, buf_pos := min (buf_pos b) n\<rparr> \<and> unat n \<le> unat (buf_size b))
     (buf_setlen b n)"
  by (simp add: buf_setlen_def buf_wf_def wnat unat_min)

lemma runs_incrlen:
  assumes "buf_wf b"
  shows "runs (\<lambda>b'. buf_wf b' \<and> b' = b\<lparr>buf_len := buf_len b + n\<rparr> \<and> unat (buf_len b') = unat (buf_len b) + unat n) (buf_incrlen b n)"
proof -
  note bd = buf_wf_bounds [OF assms]
  have g: "(n > BUF_MAX_INCR \<or> buf_len b + n > buf_size b) \<longleftrightarrow> unat (buf_size b) < unat (buf_len b) + unat n"
    using incr_guard [OF bd(6,4)] .
  show ?thesis
  proof (cases "unat (buf_size b) < unat (buf_len b) + unat n")
    case False
    then have "unat (buf_len b + n) = unat (buf_len b) + unat n" using bd by (intro unat_incr) simp
    then show ?thesis using g False bd assms by (simp add: buf_incrlen_def buf_wf_def wnat)
  qed (use g in \<open>simp add: buf_incrlen_def\<close>)
qed

lemma runs_incrpos:
  assumes "buf_wf b"
  shows "runs (\<lambda>b'. buf_wf b' \<and> b' = b\<lparr>buf_pos := buf_pos b + n\<rparr> \<and> unat (buf_pos b') = unat (buf_pos b) + unat n
     \<and> unat (buf_pos b) + unat n \<le> unat (buf_len b)) (buf_incrpos b n)"
proof -
  note bd = buf_wf_bounds [OF assms]
  have g: "(n > BUF_MAX_INCR \<or> buf_pos b + n > buf_len b) \<longleftrightarrow> unat (buf_len b) < unat (buf_pos b) + unat n"
    using incr_guard [OF bd(5,6)] .
  show ?thesis
  proof (cases "unat (buf_len b) < unat (buf_pos b) + unat n")
    case False
    then have "unat (buf_pos b + n) = unat (buf_pos b) + unat n" using bd by (intro unat_incr) simp
    then show ?thesis using g False bd assms by (simp add: buf_incrpos_def buf_wf_def wnat)
  qed (use g in \<open>simp add: buf_incrpos_def\<close>)
qed

lemma runs_incrwritepos:
  assumes "buf_wf b"
  shows "runs (\<lambda>b'. buf_wf b' \<and> buf_data b' = buf_data b \<and> buf_size b' = buf_size b
     \<and> unat (buf_pos b') = unat (buf_pos b) + unat n \<and> unat (buf_len b') = max (unat (buf_pos b')) (unat (buf_len b))
     \<and> unat (buf_pos b') \<le> unat (buf_size b)) (buf_incrwritepos b n)"
proof (cases "buf_fits b (unat n)")
  case True
  note bd = buf_wf_bounds [OF assms]
  have le: "unat (buf_pos b) + unat n \<le> unat (buf_size b)" using True by (simp add: buf_fits_def)
  define p l where "p = unat (buf_pos b) + unat n" and "l = max p (unat (buf_len b))"
  have "p \<le> 1000000000" "l \<le> 1000000000" "p \<le> l" "l \<le> unat (buf_size b)" using le bd by (auto simp: p_def l_def)
  moreover from this have "unat (of_nat p :: u32) = p" "unat (of_nat l :: u32) = l" by simp_all
  ultimately show ?thesis using True assms bd(1)
    by (simp add: buf_incrwritepos_eq [OF assms] p_def [symmetric] l_def [symmetric] buf_wf_def wnat del: of_nat_add)
qed (simp add: buf_incrwritepos_eq [OF assms])

lemma runs_getptr:
  "buf_wf b \<Longrightarrow> runs (\<lambda>p. p = unat (buf_pos b) \<and> p + unat n \<le> unat (buf_len b)) (buf_getptr b n)"
  using buf_wf_bounds [of b] incr_guard [of "buf_pos b" "buf_len b" n] by (auto simp: buf_getptr_def)

lemma runs_getwriteptr:
  "buf_wf b \<Longrightarrow> runs (\<lambda>p. p = unat (buf_pos b) \<and> p + unat n \<le> unat (buf_size b)) (buf_getwriteptr b n)"
  using buf_wf_bounds [of b] incr_guard [of "buf_pos b" "buf_size b" n] by (auto simp: buf_getwriteptr_def)

text \<open>Reading operations leave the data, the length and the size alone.\<close>

definition same_buf :: "buffer \<Rightarrow> buffer \<Rightarrow> bool" where
  "same_buf b b' \<longleftrightarrow> buf_wf b' \<and> buf_data b' = buf_data b \<and> buf_len b' = buf_len b \<and> buf_size b' = buf_size b"

lemma same_buf_refl: "buf_wf b \<Longrightarrow> same_buf b b"
  by (simp add: same_buf_def)

lemma same_buf_trans: "same_buf b b1 \<Longrightarrow> same_buf b1 b2 \<Longrightarrow> same_buf b b2"
  by (simp add: same_buf_def)

lemma same_buf_wf: "same_buf b b' \<Longrightarrow> buf_wf b'"
  by (simp add: same_buf_def)

lemma runs_getbyte: "buf_wf b \<Longrightarrow> runs (\<lambda>(c, b'). same_buf b b') (buf_getbyte b)"
  by (auto simp: buf_getbyte_eq same_buf_def Suc_le_eq split: list.splits)

lemma runs_getbool: "buf_wf b \<Longrightarrow> runs (\<lambda>(c, b'). same_buf b b') (buf_getbool b)"
  unfolding buf_getbool_def by (rule runs_rbind [OF runs_getbyte]) auto

lemma runs_getint: "buf_wf b \<Longrightarrow> runs (\<lambda>(n, b'). same_buf b b') (buf_getint b)"
  by (auto simp: buf_getint_eq same_buf_def)

lemma runs_getstring:
  assumes w: "buf_wf b"
  shows "runs (\<lambda>(s, n, b'). same_buf b b' \<and> length s = unat n + 1 \<and> unat n \<le> 9000 \<and> s ! unat n = 0) (buf_getstring b)"
  unfolding buf_getstring_def
proof (rule runs_rbind [OF runs_getint [OF w]], clarsimp)
  fix n b1 assume s: "same_buf b b1" and n: "\<not> MAX_STRING_LEN < n"
  note w1 = same_buf_wf [OF s]
  note bd = buf_wf_bounds [OF w1]
  have n9: "unat n \<le> 9000" using n by (simp add: wnat)
  show "runs (\<lambda>(s, n, b'). same_buf b b' \<and> length s = Suc (unat n) \<and> unat n \<le> 9000 \<and> s ! unat n = 0)
     (rbind (buf_getptr b1 n) (\<lambda>src. rbind (mem_read (buf_data b1) src (unat n)) (\<lambda>ret.
      rbind (buf_incrpos b1 n) (\<lambda>b. Inr (ret @ [0], n, b)))))"
    apply (rule runs_rbind [OF runs_getptr [OF w1]])
    apply (rule runs_rbind [OF runs_mem_read], use bd in simp)
    apply (rule runs_rbind [OF runs_incrpos [OF w1]])
    using s n9 by (auto simp: same_buf_def nth_append)
qed

lemma runs_eatstring: "buf_wf b \<Longrightarrow> runs (same_buf b) (buf_eatstring b)"
  unfolding buf_eatstring_def
  apply (rule runs_rbind [OF runs_getint], assumption)
  by clarsimp (rule runs_weaken [OF runs_incrpos], auto simp: same_buf_def)

text \<open>Writing operations keep the size.\<close>

definition grown :: "buffer \<Rightarrow> buffer \<Rightarrow> bool" where
  "grown b b' \<longleftrightarrow> buf_wf b' \<and> buf_size b' = buf_size b"

lemma grown_trans: "grown b b1 \<Longrightarrow> grown b1 b2 \<Longrightarrow> grown b b2"
  by (simp add: grown_def)

lemma runs_putbytes: "buf_wf b \<Longrightarrow> unat n \<le> length src \<Longrightarrow> runs (grown b) (buf_putbytes b src n)"
  by (auto simp: buf_putbytes_eq buf_fits_def grown_def)

lemma runs_putint: "buf_wf b \<Longrightarrow> runs (grown b) (buf_putint b n)"
  by (auto simp: buf_putint_eq grown_def)

lemma runs_putbyte: "buf_wf b \<Longrightarrow> runs (grown b) (buf_putbyte b n)"
  by (auto simp: buf_putbyte_eq grown_def)

lemma runs_putstring: "buf_wf b \<Longrightarrow> unat n \<le> length src \<Longrightarrow> runs (grown b) (buf_putstring b src n)"
  unfolding buf_putstring_def
  by (rule runs_rbind [OF runs_putint], assumption)
     (rule runs_weaken [OF runs_putbytes], auto simp: grown_def)

section \<open>Appending\<close>

text \<open>
  Messages are built by writing at the end of a buffer: \<open>appends b bs b'\<close> says that \<open>b'\<close> is \<open>b\<close>
  with \<open>bs\<close> added, still positioned at its end.
\<close>

definition at_end :: "buffer \<Rightarrow> bool" where
  "at_end b \<longleftrightarrow> buf_wf b \<and> buf_pos b = buf_len b"

definition appends :: "buffer \<Rightarrow> bytes \<Rightarrow> buffer \<Rightarrow> bool" where
  "appends b bs b' \<longleftrightarrow> at_end b' \<and> buf_content b' = buf_content b @ bs \<and> buf_size b' = buf_size b"

text \<open>A string of the protocol: its length and its bytes.\<close>

definition sshstr :: "bytes \<Rightarrow> bytes" where
  "sshstr x = store32h (of_nat (length x)) @ x"

lemma length_sshstr [simp]: "length (sshstr x) = 4 + length x"
  by (simp add: sshstr_def)

lemma at_end_wf [simp]: "at_end b \<Longrightarrow> buf_wf b" by (simp add: at_end_def)

lemma appends_end: "appends b bs b' \<Longrightarrow> at_end b'" by (simp add: appends_def)

lemma appends_trans: "appends b xs b1 \<Longrightarrow> appends b1 ys b2 \<Longrightarrow> appends b (xs @ ys) b2"
  by (simp add: appends_def)

lemma put_appends:
  assumes e: "at_end b" and f: "buf_fits b (length bs)" shows "appends b bs (buf_put b bs)"
proof -
  have w: "buf_wf b" and p: "buf_pos b = buf_len b" using e by (simp_all add: at_end_def)
  have "buf_pos (buf_put b bs) = buf_len (buf_put b bs)"
    using buf_put_pos [OF w f] buf_put_len [OF w f] p by (simp add: word_unat_eq_iff)
  then show ?thesis using buf_put_wf [OF w f] buf_put_content [OF w f] p w
    by (simp add: appends_def at_end_def)
qed

lemma putbyte_appends: "at_end b \<Longrightarrow> buf_putbyte b c = Inr b' \<Longrightarrow> appends b [c] b'"
  by (auto simp: buf_putbyte_eq intro: put_appends split: if_splits)

lemma putint_appends: "at_end b \<Longrightarrow> buf_putint b n = Inr b' \<Longrightarrow> appends b (store32h n) b'"
  by (auto simp: buf_putint_eq intro: put_appends split: if_splits)

lemma putbytes_appends:
  "at_end b \<Longrightarrow> unat n \<le> length src \<Longrightarrow> buf_putbytes b src n = Inr b' \<Longrightarrow> appends b (take (unat n) src) b'"
  by (auto simp: buf_putbytes_eq intro: put_appends split: if_splits)

lemma putstring_appends:
  assumes "at_end b" "unat n \<le> length src" "buf_putstring b src n = Inr b'"
  shows "appends b (sshstr (take (unat n) src)) b'"
proof -
  have "sshstr (take (unat n) src) = store32h n @ take (unat n) src"
    using assms(2) by (simp add: sshstr_def)
  then show ?thesis using assms by (auto simp: buf_putstring_eq intro!: put_appends split: if_splits)
qed

lemma buf_new_end: "buf_new n = Inr b \<Longrightarrow> at_end b \<and> buf_content b = []"
  by (auto simp: at_end_def buf_new_eq buf_wf_def buf_content_def)

section \<open>Reading\<close>

text \<open>\<open>reads b xs\<close>: the bytes still to be read from \<open>b\<close> are \<open>xs\<close>.\<close>

definition reads :: "buffer \<Rightarrow> bytes \<Rightarrow> bool" where
  "reads b xs \<longleftrightarrow> buf_wf b \<and> buf_rest b = xs"

lemma reads_adv: "reads b (xs @ ys) \<Longrightarrow> reads (buf_adv b (length xs)) ys"
  by (auto simp: reads_def buf_adv_rest)

lemma getbyte_reads: "reads b (c # t) \<Longrightarrow> buf_getbyte b = Inr (c, buf_adv b 1) \<and> reads (buf_adv b 1) t"
  using reads_adv [of b "[c]" t] by (simp add: reads_def buf_getbyte_eq)

lemma getint_reads: "reads b (store32h n @ t) \<Longrightarrow> buf_getint b = Inr (n, buf_adv b 4) \<and> reads (buf_adv b 4) t"
  using reads_adv [of b "store32h n" t] by (simp add: reads_def buf_getint_eq)

lemma getstring_reads:
  assumes "reads b (sshstr x @ t)" "length x \<le> 9000"
  shows "buf_getstring b = Inr (x @ [0], of_nat (length x), buf_adv b (4 + length x)) \<and> reads (buf_adv b (4 + length x)) t"
proof -
  have "load32h (sshstr x @ t) = of_nat (length x)" by (simp add: sshstr_def)
  then show ?thesis using assms reads_adv [OF assms(1)]
    by (simp add: reads_def buf_getstring_eq Let_def) (simp add: sshstr_def)
qed

lemma eatstring_reads:
  assumes "reads b (sshstr x @ t)" "length x \<le> 9000"
  shows "buf_eatstring b = Inr (buf_adv b (4 + length x)) \<and> reads (buf_adv b (4 + length x)) t"
proof -
  have "load32h (sshstr x @ t) = of_nat (length x)" by (simp add: sshstr_def)
  then show ?thesis using assms reads_adv [OF assms(1)] by (simp add: reads_def buf_eatstring_eq Let_def)
qed

lemma getbool_reads: "reads b (c # t) \<Longrightarrow> buf_getbool b = Inr (c \<noteq> 0, buf_adv b 1) \<and> reads (buf_adv b 1) t"
  using getbyte_reads [of b c t] by (simp add: buf_getbool_def)

lemma mkbuf_reads:
  assumes "length (pre @ xs) \<le> 1000000000"
  shows "reads \<lparr>buf_data = pre @ xs, buf_len = of_nat (length (pre @ xs)), buf_pos = of_nat (length pre),
     buf_size = of_nat (length (pre @ xs))\<rparr> xs"
proof -
  have "unat (of_nat (length (pre @ xs)) :: u32) = length (pre @ xs)" "unat (of_nat (length pre) :: u32) = length pre"
    using assms by (simp_all del: of_nat_add)
  then show ?thesis using assms by (simp add: reads_def buf_wf_def buf_rest_def buf_content_def BUF_MAX_SIZE_def wnat del: of_nat_add)
qed

end
