(* ===== verification/Packet.thy ===== *)
theory Packet
  imports Session Outcome
begin

text \<open>
  The binary packet protocol of \<^verbatim>\<open>packet.c\<close> (RFC 4253, section 6): building, padding,
  authenticating and encrypting an outgoing packet, holding replies back during a key exchange,
  writing the queue of encrypted packets (with \<^verbatim>\<open>packet_queue_to_iovec\<close> and
  \<^verbatim>\<open>packet_queue_consume\<close> of \<^verbatim>\<open>netio.c\<close>), and reading, decrypting, checking and unpacking an
  incoming one.
\<close>

section \<open>Message authentication\<close>

text \<open>The comparison loop of \<^verbatim>\<open>constant_time_memcmp\<close>.\<close>

definition constant_time_memcmp :: "bytes \<Rightarrow> bytes \<Rightarrow> nat \<Rightarrow> u8" where
  "constant_time_memcmp a b n = foldl (\<lambda>c i. c OR (a ! i XOR b ! i)) 0 [0..<n]"

text \<open>
  \<^verbatim>\<open>make_mac\<close> leaves the position of the clear buffer at 0 when there is a MAC. The result is
  the caller's array of \<^verbatim>\<open>MAX_MAC_LEN\<close> bytes, of which \<^verbatim>\<open>hmac_done\<close> sets a prefix.
\<close>

definition mac_array :: "'z env \<Rightarrow> bytes \<Rightarrow> bytes" where
  "mac_array e digest = map (\<lambda>i. if i < length digest then digest ! i else e_uninit e i) [0..<MAX_MAC_LEN]"

definition make_mac :: "'z env \<Rightarrow> u32 \<Rightarrow> ('c, 'z) key_context_directional \<Rightarrow> buffer \<Rightarrow> u32
    \<Rightarrow> (bytes \<times> buffer) res" where
  "make_mac e seqno key_state clear_buf clear_len =
     (if hash_hashsize (dk_algo_mac key_state) > 0
      then rbind (buf_setpos clear_buf 0) (\<lambda>clear_buf.
           rbind (buf_getptr clear_buf clear_len) (\<lambda>p.
           rbind (mem_read (buf_data clear_buf) p (unat clear_len)) (\<lambda>bs.
           case e_hmac e (dk_hash_index key_state)
                  (take (hash_keysize (dk_algo_mac key_state)) (dk_mackey key_state)) (store32h seqno @ bs) of
             None \<Rightarrow> Inl (Exit ''HMAC error'')
           | Some digest \<Rightarrow> Inr (mac_array e digest, clear_buf))))
      else Inr (mac_array e [], clear_buf))"

section \<open>Sending\<close>

definition packet_is_okay_kex :: "u8 \<Rightarrow> bool" where
  "packet_is_okay_kex type =
     (if type \<ge> SSH_MSG_USERAUTH_REQUEST then False
      else if type = SSH_MSG_SERVICE_REQUEST \<or> type = SSH_MSG_SERVICE_ACCEPT then False
      else if type = SSH_MSG_KEXINIT then False
      else True)"

definition enqueue_reply_packet :: "('c, 'z) session \<Rightarrow> ('c, 'z) session res" where
  "enqueue_reply_packet s =
     rbind (buf_newcopy (ses_writepayload s)) (\<lambda>copy.
     rbind (buf_setpos (ses_writepayload s) 0) (\<lambda>wp.
     rbind (buf_setlen wp 0) (\<lambda>wp.
     Inr (s\<lparr>ses_writepayload := wp, ses_reply_queue := ses_reply_queue s @ [copy]\<rparr>))))"

text \<open>Compression of \<open>n\<close> bytes of \<open>src\<close> to the end of \<open>dest\<close>.\<close>

definition buf_compress :: "'z env \<Rightarrow> 'z option \<Rightarrow> buffer \<Rightarrow> buffer \<Rightarrow> u32
    \<Rightarrow> (buffer \<times> buffer \<times> 'z option) res" where
  "buf_compress e zstream dest src n =
     (let endpos = buf_pos src + n in
      rbind (dropbear_assert ''dest->size - dest->pos >= len+ZLIB_COMPRESS_EXPANSION''
               (buf_size dest - buf_pos dest \<ge> n + ZLIB_COMPRESS_EXPANSION)) (\<lambda>_.
      case zstream of None \<Rightarrow> Inl NullDeref
      | Some z \<Rightarrow>
        let avail_in = endpos - buf_pos src; avail_out = buf_size dest - buf_pos dest in
        rbind (buf_getptr src avail_in) (\<lambda>p.
        rbind (mem_read (buf_data src) p (unat avail_in)) (\<lambda>inp.
        rbind (buf_getwriteptr dest avail_out) (\<lambda>q.
        case e_deflate e z inp (unat avail_out) of ZResult ok out left z' \<Rightarrow>
          rbind (mem_write (buf_data dest) q out) (\<lambda>d.
          let dest = dest\<lparr>buf_data := d\<rparr>; avail_out = avail_out - of_nat (length out) in
          rbind (buf_setpos src (endpos - of_nat left)) (\<lambda>src.
          rbind (buf_setlen dest (buf_size dest - avail_out)) (\<lambda>dest.
          rbind (buf_setpos dest (buf_len dest)) (\<lambda>dest.
          if \<not> ok then Inl (Exit ''zlib error'')
          else rbind (dropbear_assert ''avail_in == 0'' (left = 0)) (\<lambda>_.
               Inr (dest, src, Some z')))))))))))"

text \<open>
  The padding length of \<^verbatim>\<open>encrypt_packet\<close>, in the \<^verbatim>\<open>unsigned char\<close> arithmetic of the code; \<open>wlen\<close> is
  the length of the header and the payload.
\<close>

definition packet_padlen :: "bool \<Rightarrow> u8 \<Rightarrow> u32 \<Rightarrow> u8 res" where
  "packet_padlen aead blocksize wlen =
     (let len = (if aead then wlen - 4 else wlen) in
      rbind (umod len (ucast blocksize)) (\<lambda>r.
      let padlen = (ucast (ucast blocksize - r) :: u8);
          padlen = (if padlen < 4 then padlen + blocksize else padlen);
          padlen = (if wlen + ucast padlen < MIN_PACKET_LEN then padlen + blocksize else padlen) in
      Inr padlen))"

text \<open>The cleartext packet: length, padding length, payload and random padding.\<close>

definition packet_frame :: "'z env \<Rightarrow> nat \<Rightarrow> buffer \<Rightarrow> u8 \<Rightarrow> buffer res" where
  "packet_frame e t writebuf padlen =
     rbind (buf_setpos writebuf 0) (\<lambda>writebuf.
     rbind (buf_putint writebuf (buf_len writebuf + ucast padlen - 4)) (\<lambda>writebuf.
     rbind (buf_putbyte writebuf padlen) (\<lambda>writebuf.
     rbind (buf_setpos writebuf (buf_len writebuf)) (\<lambda>writebuf.
     rbind (buf_incrlen writebuf (ucast padlen)) (\<lambda>writebuf.
     rbind (buf_getptr writebuf (ucast padlen)) (\<lambda>p.
     rbind (mem_write (buf_data writebuf) p (e_random e t (unat padlen))) (\<lambda>d.
     Inr (writebuf\<lparr>buf_data := d\<rparr>))))))))"

text \<open>Encryption in place and the MAC, for an AEAD mode and for a cipher with a separate MAC.\<close>

definition encrypt_aead :: "u32 \<Rightarrow> ('c, 'z) key_context_directional
    \<Rightarrow> (u32 \<Rightarrow> bytes \<Rightarrow> nat \<Rightarrow> nat \<Rightarrow> 'c \<Rightarrow> bool \<Rightarrow> (bytes \<times> 'c) option)
    \<Rightarrow> buffer \<Rightarrow> (buffer \<times> 'c) res" where
  "encrypt_aead seqno k crypt writebuf =
     (let mac_size = ucast (hash_hashsize (dk_algo_mac k)) :: u32 in
      rbind (buf_setpos writebuf 0) (\<lambda>writebuf.
      let len = buf_len writebuf in
      rbind (buf_incrlen writebuf mac_size) (\<lambda>writebuf.
      rbind (buf_getptr writebuf len) (\<lambda>p.
      rbind (mem_read (buf_data writebuf) p (unat len)) (\<lambda>inp.
      rbind (buf_getwriteptr writebuf (len + mac_size)) (\<lambda>q.
      case crypt seqno inp (unat len) (unat mac_size) (dk_cipher_state k) True of
        None \<Rightarrow> Inl (Exit ''Error encrypting'')
      | Some (out, c) \<Rightarrow>
          rbind (mem_write (buf_data writebuf) q out) (\<lambda>d.
          rbind (buf_incrpos (writebuf\<lparr>buf_data := d\<rparr>) (len + mac_size)) (\<lambda>writebuf.
          Inr (writebuf, c)))))))))"

definition encrypt_mac :: "'z env \<Rightarrow> u32 \<Rightarrow> ('c, 'z) key_context_directional \<Rightarrow> buffer \<Rightarrow> (buffer \<times> 'c) res" where
  "encrypt_mac e seqno k writebuf =
     (let mac_size = ucast (hash_hashsize (dk_algo_mac k)) :: u32 in
      rbind (make_mac e seqno k writebuf (buf_len writebuf)) (\<lambda>(mac_bytes, writebuf).
      rbind (buf_setpos writebuf 0) (\<lambda>writebuf.
      let len = buf_len writebuf in
      rbind (buf_getptr writebuf len) (\<lambda>p.
      rbind (mem_read (buf_data writebuf) p (unat len)) (\<lambda>inp.
      rbind (buf_getwriteptr writebuf len) (\<lambda>q.
      case mode_encrypt (dk_crypt_mode k) inp (dk_cipher_state k) of
        None \<Rightarrow> Inl (Exit ''Error encrypting'')
      | Some (out, c) \<Rightarrow>
          rbind (mem_write (buf_data writebuf) q out) (\<lambda>d.
          rbind (buf_incrpos (writebuf\<lparr>buf_data := d\<rparr>) len) (\<lambda>writebuf.
          rbind (buf_putbytes writebuf mac_bytes mac_size) (\<lambda>writebuf.
          Inr (writebuf, c))))))))))"

definition writebuf_enqueue :: "buffer \<Rightarrow> ('c, 'z) session \<Rightarrow> ('c, 'z) session res" where
  "writebuf_enqueue writebuf s =
     rbind (buf_setpos writebuf 0) (\<lambda>writebuf.
     Inr (s\<lparr>ses_writequeue := ses_writequeue s @ [writebuf],
            ses_writequeue_len := ses_writequeue_len s + buf_len writebuf\<rparr>))"

text \<open>The payload copied or compressed behind the header of a new buffer.\<close>

definition packet_payload :: "'z env \<Rightarrow> ('c, 'z) session \<Rightarrow> buffer \<Rightarrow> (buffer \<times> buffer \<times> 'z option) res" where
  "packet_payload e s wp =
     (let k = ses_trans s;
          blocksize = ucast (ciph_blocksize (dk_algo_crypt k)) :: u32;
          mac_size = ucast (hash_hashsize (dk_algo_mac k)) :: u32;
          encrypt_buf_size = (buf_len wp + 4 + 1) + max MIN_PACKET_LEN blocksize + 3 + mac_size
            + ZLIB_COMPRESS_EXPANSION + 1 in
      rbind (buf_new encrypt_buf_size) (\<lambda>writebuf.
      rbind (buf_setlen writebuf PACKET_PAYLOAD_OFF) (\<lambda>writebuf.
      rbind (buf_setpos writebuf PACKET_PAYLOAD_OFF) (\<lambda>writebuf.
      if is_compress_trans s then buf_compress e (dk_zstream k) writebuf wp (buf_len wp)
      else rbind (buf_getwriteptr writebuf (buf_len wp)) (\<lambda>q.
           rbind (buf_getptr wp (buf_len wp)) (\<lambda>p.
           rbind (mem_read (buf_data wp) p (unat (buf_len wp))) (\<lambda>bs.
           rbind (mem_write (buf_data writebuf) q bs) (\<lambda>d.
           rbind (buf_incrwritepos (writebuf\<lparr>buf_data := d\<rparr>) (buf_len wp)) (\<lambda>writebuf.
           Inr (writebuf, wp, dk_zstream k))))))))))"

text \<open>The packet that goes on the wire, from the payload, with the keys' new state.\<close>

definition build_packet :: "'z env \<Rightarrow> ('c, 'z) session \<Rightarrow> buffer
    \<Rightarrow> (buffer \<times> buffer \<times> ('c, 'z) key_context_directional) res" where
  "build_packet e s wp =
     (let k = ses_trans s in
      rbind (packet_payload e s wp) (\<lambda>(writebuf, wp, z).
      rbind (buf_setpos wp 0) (\<lambda>wp.
      rbind (buf_setlen wp 0) (\<lambda>wp.
      rbind (packet_padlen (aead_crypt (dk_crypt_mode k) \<noteq> None) (ciph_blocksize (dk_algo_crypt k))
               (buf_len writebuf)) (\<lambda>padlen.
      rbind (packet_frame e (ses_tick s) writebuf padlen) (\<lambda>writebuf.
      rbind (case aead_crypt (dk_crypt_mode k) of
               Some crypt \<Rightarrow> encrypt_aead (ses_transseq s) k crypt writebuf
             | None \<Rightarrow> encrypt_mac e (ses_transseq s) k writebuf) (\<lambda>(writebuf, c).
      Inr (writebuf, wp, k\<lparr>dk_zstream := z, dk_cipher_state := c\<rparr>))))))))"

text \<open>The end of \<^verbatim>\<open>encrypt_packet\<close>: the packet is queued and the counts and times are updated.\<close>

definition packet_sent :: "'z env \<Rightarrow> u8 \<Rightarrow> buffer \<Rightarrow> ('c, 'z) session \<Rightarrow> ('c, 'z) session res" where
  "packet_sent e packet_type writebuf s =
     rbind (writebuf_enqueue writebuf
       (s\<lparr>ses_kexstate := (ses_kexstate s)\<lparr>kex_datatrans := kex_datatrans (ses_kexstate s) + buf_len writebuf\<rparr>\<rparr>)) (\<lambda>s.
     let s = s\<lparr>ses_transseq := ses_transseq s + 1\<rparr>;
         now = e_now e (ses_tick s);
         s = (tick s)\<lparr>ses_last_packet_time_any_sent := now\<rparr> in
     Inr (if packet_type \<noteq> SSH_MSG_REQUEST_FAILURE \<and> packet_type \<noteq> SSH_MSG_UNIMPLEMENTED
             \<and> packet_type \<noteq> SSH_MSG_IGNORE
          then s\<lparr>ses_last_packet_time_idle := now\<rparr> else s))"

definition encrypt_packet :: "'z env \<Rightarrow> ('c, 'z) session \<Rightarrow> ('c, 'z) session res" where
  "encrypt_packet e s =
     rbind (buf_setpos (ses_writepayload s) 0) (\<lambda>wp.
     rbind (buf_getbyte wp) (\<lambda>(packet_type, wp).
     rbind (buf_setpos wp 0) (\<lambda>wp.
     if \<not> ses_dataallowed s \<and> \<not> packet_is_okay_kex packet_type
     then enqueue_reply_packet (s\<lparr>ses_writepayload := wp\<rparr>)
     else rbind (build_packet e s wp) (\<lambda>(writebuf, wp, k).
          packet_sent e packet_type writebuf (tick (set_trans (s\<lparr>ses_writepayload := wp\<rparr>) k))))))"

text \<open>The loop of \<^verbatim>\<open>maybe_flush_reply_queue\<close> over the queued payloads.\<close>

fun flush_replies :: "'z env \<Rightarrow> ('c, 'z) session \<Rightarrow> buffer list \<Rightarrow> ('c, 'z) session res" where
  "flush_replies e s [] = Inr s"
| "flush_replies e s (b # bs) =
     rbind (buf_putbytes (ses_writepayload s) (buf_data b) (buf_len b)) (\<lambda>wp.
     rbind (encrypt_packet e (s\<lparr>ses_writepayload := wp\<rparr>)) (\<lambda>s.
     flush_replies e s bs))"

definition maybe_flush_reply_queue :: "'z env \<Rightarrow> ('c, 'z) session \<Rightarrow> ('c, 'z) session res" where
  "maybe_flush_reply_queue e s =
     (if \<not> ses_dataallowed s then Inr s
      else rbind (flush_replies e s (ses_reply_queue s)) (\<lambda>s.
           Inr (s\<lparr>ses_reply_queue := []\<rparr>)))"

section \<open>Writing to the socket\<close>

definition IOV_MAX :: nat where "IOV_MAX = 1024"

fun packet_queue_to_iovec :: "buffer list \<Rightarrow> bytes list res" where
  "packet_queue_to_iovec [] = Inr []"
| "packet_queue_to_iovec (b # bs) =
     (let len = buf_len b - buf_pos b in
      rbind (dropbear_assert ''len > 0'' (sint len > 0)) (\<lambda>_.
      rbind (buf_getptr b len) (\<lambda>p.
      rbind (mem_read (buf_data b) p (unat len)) (\<lambda>x.
      rbind (packet_queue_to_iovec bs) (\<lambda>xs. Inr (x # xs))))))"

fun packet_queue_consume :: "buffer list \<Rightarrow> int \<Rightarrow> buffer list res" where
  "packet_queue_consume [] written =
     (if written > 0 then Inl (AssertFail ''!isempty(queue)'') else Inr [])"
| "packet_queue_consume (b # bs) written =
     (if written > 0 then
        let len = sint (buf_len b - buf_pos b) in
        if len > written then rbind (buf_incrpos b (word_of_int written)) (\<lambda>b. Inr (b # bs))
        else packet_queue_consume bs (written - len)
      else Inr (b # bs))"

definition write_packet :: "'z env \<Rightarrow> ('c, 'z) session \<Rightarrow> ('c, 'z) session res" where
  "write_packet e s =
     rbind (dropbear_assert ''!isempty(&ses.writequeue)'' (ses_writequeue s \<noteq> [])) (\<lambda>_.
     let iov_count = min (min (length (ses_writequeue s)) IOV_MAX) 50 in
     rbind (packet_queue_to_iovec (take iov_count (ses_writequeue s))) (\<lambda>iov.
     let r = e_write e (ses_tick s) (ses_sock_out s) (concat iov); s = tick s in
     case r of
       WrErr err \<Rightarrow> if err = EINTR \<or> err = EAGAIN then Inr s else Inl (Exit ''Error writing: %s'')
     | WrOk written \<Rightarrow>
         rbind (packet_queue_consume (ses_writequeue s) (int written)) (\<lambda>q.
         let s = log_event (EvWrite (ses_sock_out s) (take written (concat iov)))
               (s\<lparr>ses_writequeue := q, ses_writequeue_len := ses_writequeue_len s - of_nat written\<rparr>) in
         if written = 0 then svr_remoteclosed else Inr s)))"

section \<open>Receiving\<close>

definition recv_blocksize :: "('c, 'z) session \<Rightarrow> u32" where
  "recv_blocksize s = ucast (ciph_blocksize (dk_algo_crypt (ses_recv s)))"

definition recv_macsize :: "('c, 'z) session \<Rightarrow> u32" where
  "recv_macsize s = ucast (hash_hashsize (dk_algo_mac (ses_recv s)))"

text \<open>
  The packet length from the first block: \<^verbatim>\<open>plen\<close> and \<^verbatim>\<open>len\<close> of \<^verbatim>\<open>read_packet_init\<close>, with the
  buffer and the cipher state as the decryption leaves them.
\<close>

definition read_length :: "('c, 'z) session \<Rightarrow> buffer \<Rightarrow> (u32 \<times> u32 \<times> buffer \<times> 'c) res" where
  "read_length s rb =
     (let k = ses_recv s; blocksize = recv_blocksize s; macsize = recv_macsize s in
      rbind (buf_getptr rb blocksize) (\<lambda>p.
      rbind (mem_read (buf_data rb) p (unat blocksize)) (\<lambda>blk.
      if aead_crypt (dk_crypt_mode k) \<noteq> None then
        (case aead_getlength (dk_crypt_mode k) (ses_recvseq s) blk (dk_cipher_state k) of
           None \<Rightarrow> Inl (Exit ''Error decrypting'')
         | Some plen \<Rightarrow> Inr (plen, plen + 4 + macsize, rb, dk_cipher_state k))
      else
        rbind (buf_getwriteptr rb blocksize) (\<lambda>q.
        case mode_decrypt (dk_crypt_mode k) blk (dk_cipher_state k) of
          None \<Rightarrow> Inl (Exit ''Error decrypting'')
        | Some (out, c) \<Rightarrow>
            rbind (mem_write (buf_data rb) q out) (\<lambda>d.
            rbind (buf_getint (rb\<lparr>buf_data := d\<rparr>)) (\<lambda>(n, rb).
            let plen = n + 4 in Inr (plen, plen + macsize, rb, c)))))))"

definition packet_size_check :: "u32 \<Rightarrow> u32 \<Rightarrow> u32 \<Rightarrow> unit res" where
  "packet_size_check blocksize plen len =
     (if len > RECV_MAX_PACKET_LEN \<or> plen < blocksize
      then Inl (Exit ''Integrity error (bad packet size %u)'')
      else rbind (umod plen blocksize) (\<lambda>r.
           if r \<noteq> 0 then Inl (Exit ''Integrity error (bad packet size %u)'') else Inr ()))"

definition read_packet_init :: "'z env \<Rightarrow> ('c, 'z) session \<Rightarrow> (bool \<times> ('c, 'z) session) res" where
  "read_packet_init e s =
     (let blocksize = recv_blocksize s in
      rbind (case ses_readbuf s of None \<Rightarrow> buf_new INIT_READBUF | Some rb \<Rightarrow> Inr rb) (\<lambda>rb.
      let maxlen = blocksize - buf_pos rb in
      rbind (buf_getwriteptr rb maxlen) (\<lambda>p.
      let r = e_read e (ses_tick s) (ses_sock_in s) (unat maxlen);
          s = tick (s\<lparr>ses_readbuf := Some rb\<rparr>) in
      case r of
        RdErr err \<Rightarrow> if err = EINTR \<or> err = EAGAIN then Inr (False, s)
                     else Inl (Exit ''Error reading: %s'')
      | RdData bs \<Rightarrow>
          if bs = [] then svr_remoteclosed
          else
            rbind (mem_write (buf_data rb) p bs) (\<lambda>d.
            rbind (buf_incrwritepos (rb\<lparr>buf_data := d\<rparr>) (of_nat (length bs))) (\<lambda>rb.
            let s = s\<lparr>ses_readbuf := Some rb\<rparr> in
            if of_nat (length bs) \<noteq> maxlen then Inr (False, s)
            else
              rbind (buf_setpos rb 0) (\<lambda>rb.
              rbind (read_length s rb) (\<lambda>(plen, len, rb, c).
              rbind (packet_size_check blocksize plen len) (\<lambda>_.
              rbind (if len > buf_size rb then buf_resize (e_uninit e) rb len else Inr rb) (\<lambda>rb.
              rbind (buf_setlen rb len) (\<lambda>rb.
              rbind (buf_setpos rb blocksize) (\<lambda>rb.
              Inr (True, set_recv (s\<lparr>ses_readbuf := Some rb\<rparr>)
                           ((ses_recv s)\<lparr>dk_cipher_state := c\<rparr>))))))))))))) "

text \<open>Success of the check and the buffer with its position after the comparison.\<close>

definition checkmac :: "'z env \<Rightarrow> ('c, 'z) session \<Rightarrow> buffer \<Rightarrow> (bool \<times> buffer) res" where
  "checkmac e s rb =
     (let mac_size = recv_macsize s; contents_len = buf_len rb - mac_size in
      rbind (buf_setpos rb 0) (\<lambda>rb.
      rbind (make_mac e (ses_recvseq s) (ses_recv s) rb contents_len) (\<lambda>(mac_bytes, rb).
      rbind (buf_setpos rb contents_len) (\<lambda>rb.
      rbind (buf_getptr rb mac_size) (\<lambda>p.
      rbind (mem_read (buf_data rb) p (unat mac_size)) (\<lambda>theirs.
      if unat mac_size > MAX_MAC_LEN then Inl OutOfBounds
      else Inr (constant_time_memcmp mac_bytes theirs (unat mac_size) = 0, rb)))))))"

definition buf_decompress :: "'z env \<Rightarrow> 'z option \<Rightarrow> buffer \<Rightarrow> u32 \<Rightarrow> (buffer \<times> 'z option) res" where
  "buf_decompress e zstream b n =
     rbind (buf_new (RECV_MAX_PAYLOAD_LEN + 1)) (\<lambda>ret.
     case zstream of None \<Rightarrow> Inl NullDeref
     | Some z \<Rightarrow>
       rbind (buf_getptr b n) (\<lambda>p.
       rbind (mem_read (buf_data b) p (unat n)) (\<lambda>inp.
       case e_inflate e z inp (unat (buf_size ret)) of ZResult ok out left z' \<Rightarrow>
         rbind (mem_write (buf_data ret) 0 out) (\<lambda>d.
         if \<not> ok then Inl (Exit ''zlib error'')
         else
           let avail_out = buf_size ret - of_nat (length out) in
           rbind (buf_setlen (ret\<lparr>buf_data := d\<rparr>) (buf_size ret - avail_out)) (\<lambda>ret.
           if left > 0 \<or> buf_len ret > RECV_MAX_PAYLOAD_LEN
           then Inl (Exit ''bad packet, oversized decompressed'')
           else Inr (ret, Some z'))))))"

text \<open>Decryption of the rest of the packet, and the integrity check.\<close>

definition decrypt_body :: "'z env \<Rightarrow> ('c, 'z) session \<Rightarrow> buffer \<Rightarrow> (buffer \<times> 'c) res" where
  "decrypt_body e s rb =
     (let k = ses_recv s; blocksize = recv_blocksize s; macsize = recv_macsize s in
      case aead_crypt (dk_crypt_mode k) of
        Some crypt \<Rightarrow>
          rbind (buf_setpos rb 0) (\<lambda>rb.
          let len = buf_len rb - macsize - buf_pos rb in
          rbind (buf_getptr rb (len + macsize)) (\<lambda>p.
          rbind (mem_read (buf_data rb) p (unat (len + macsize))) (\<lambda>inp.
          rbind (buf_getwriteptr rb len) (\<lambda>q.
          case crypt (ses_recvseq s) inp (unat len) (unat macsize) (dk_cipher_state k) False of
            None \<Rightarrow> Inl (Exit ''Error decrypting'')
          | Some (out, c) \<Rightarrow>
              rbind (mem_write (buf_data rb) q out) (\<lambda>d.
              rbind (buf_incrpos (rb\<lparr>buf_data := d\<rparr>) len) (\<lambda>rb.
              Inr (rb, c)))))))
      | None \<Rightarrow>
          rbind (buf_setpos rb blocksize) (\<lambda>rb.
          let len = buf_len rb - macsize - buf_pos rb in
          rbind (buf_getptr rb len) (\<lambda>p.
          rbind (mem_read (buf_data rb) p (unat len)) (\<lambda>inp.
          rbind (buf_getwriteptr rb len) (\<lambda>q.
          case mode_decrypt (dk_crypt_mode k) inp (dk_cipher_state k) of
            None \<Rightarrow> Inl (Exit ''Error decrypting'')
          | Some (out, c) \<Rightarrow>
              rbind (mem_write (buf_data rb) q out) (\<lambda>d.
              rbind (buf_incrpos (rb\<lparr>buf_data := d\<rparr>) len) (\<lambda>rb.
              rbind (checkmac e s rb) (\<lambda>(ok, rb).
              if \<not> ok then Inl (Exit ''Integrity error'') else Inr (rb, c)))))))))"

text \<open>The payload out of the decrypted packet: the buffer, where the payload begins, the stream.\<close>

definition unpack_payload :: "'z env \<Rightarrow> ('c, 'z) session \<Rightarrow> buffer \<Rightarrow> (buffer \<times> u32 \<times> 'z option) res" where
  "unpack_payload e s rb =
     rbind (buf_setpos rb PACKET_PADDING_OFF) (\<lambda>rb.
     rbind (buf_getbyte rb) (\<lambda>(padlen, rb).
     let len = buf_len rb - ucast padlen - 4 - 1 - recv_macsize s in
     if len > RECV_MAX_PAYLOAD_LEN + ZLIB_COMPRESS_EXPANSION \<or> len < 1
     then Inl (Exit ''Bad packet size %u'')
     else
       rbind (buf_setpos rb PACKET_PAYLOAD_OFF) (\<lambda>rb.
       if is_compress_recv s then
         rbind (buf_decompress e (dk_zstream (ses_recv s)) rb len) (\<lambda>(pl, z).
         rbind (buf_setpos pl 0) (\<lambda>pl. Inr (pl, 0, z)))
       else
         rbind (buf_setlen rb (buf_pos rb + len)) (\<lambda>pl.
         Inr (pl, buf_pos rb, dk_zstream (ses_recv s))))))"

definition decrypt_packet :: "'z env \<Rightarrow> ('c, 'z) session \<Rightarrow> ('c, 'z) session res" where
  "decrypt_packet e s =
     (case ses_readbuf s of None \<Rightarrow> Inl NullDeref
      | Some rb \<Rightarrow>
        let s = s\<lparr>ses_kexstate := (ses_kexstate s)\<lparr>kex_datarecv := kex_datarecv (ses_kexstate s) + buf_len rb\<rparr>\<rparr> in
        rbind (decrypt_body e s rb) (\<lambda>(rb, c).
        rbind (unpack_payload e s rb) (\<lambda>(pl, beginning, z).
        Inr (set_recv (s\<lparr>ses_payload := Some pl, ses_payload_beginning := beginning,
                         ses_readbuf := None, ses_recvseq := ses_recvseq s + 1\<rparr>)
               ((ses_recv s)\<lparr>dk_cipher_state := c, dk_zstream := z\<rparr>)))))"

definition read_packet :: "'z env \<Rightarrow> ('c, 'z) session \<Rightarrow> ('c, 'z) session res" where
  "read_packet e s =
     (let blocksize = recv_blocksize s in
      rbind (case ses_readbuf s of
               None \<Rightarrow> read_packet_init e s
             | Some rb \<Rightarrow> if buf_len rb < blocksize then read_packet_init e s else Inr (True, s)) (\<lambda>(ok, s).
      if \<not> ok then Inr s
      else case ses_readbuf s of None \<Rightarrow> Inl NullDeref
        | Some rb \<Rightarrow>
          let maxlen = buf_len rb - buf_pos rb in
          if maxlen = 0 then decrypt_packet e s
          else
            rbind (buf_getptr rb maxlen) (\<lambda>p.
            let r = e_read e (ses_tick s) (ses_sock_in s) (unat maxlen); s = tick s in
            case r of
              RdErr err \<Rightarrow> if err = EINTR \<or> err = EAGAIN then Inr s else Inl (Exit ''Error reading: %s'')
            | RdData bs \<Rightarrow>
                if bs = [] then svr_remoteclosed
                else
                  rbind (mem_write (buf_data rb) p bs) (\<lambda>d.
                  rbind (buf_incrpos (rb\<lparr>buf_data := d\<rparr>) (of_nat (length bs))) (\<lambda>rb.
                  let s = s\<lparr>ses_readbuf := Some rb\<rparr> in
                  if of_nat (length bs) = maxlen then decrypt_packet e s else Inr s)))))"

section \<open>Padding\<close>

lemma unat_u8_lt: "unat (x :: u8) < 256"
  using unsigned_less [of x, where ?'a = nat] by simp

lemma unat_ucast_u8 [simp]: "unat (ucast (x :: u8) :: u32) = unat x"
  using unat_u8_lt [of x] by (simp add: unsigned_ucast_eq take_bit_nat_eq_self)

lemma unat_add8: "unat a + unat b < 256 \<Longrightarrow> unat (a + b :: u8) = unat a + unat b"
  by (simp add: unat_word_ariths)

lemma round_up:
  fixes n b :: nat
  assumes "0 < b" shows "(n + (b - n mod b)) mod b = 0" "(n + (b - n mod b + b)) mod b = 0"
proof -
  have "n + (b - n mod b) = (n div b + 1) * b"
  proof -
    have "n = n div b * b + n mod b" "n mod b < b" "(n div b + 1) * b = n div b * b + b"
      using assms by simp_all
    then show ?thesis by linarith
  qed
  then show "(n + (b - n mod b)) mod b = 0" by simp
  then have "(n + (b - n mod b) + b) mod b = 0" by (simp only: mod_add_self2)
  then show "(n + (b - n mod b + b)) mod b = 0" by (simp add: add.assoc)
qed

text \<open>The padding length as a natural number.\<close>

lemma packet_padlen_nat:
  assumes b: "8 \<le> unat bs" "unat bs \<le> 126" and w: "5 < unat wlen" "unat wlen \<le> 1000000"
  shows "\<exists>pad. packet_padlen aead bs wlen = Inr pad \<and> 4 \<le> unat pad \<and> unat pad \<le> 2 * unat bs + 3
    \<and> 16 \<le> unat wlen + unat pad \<and> ((if aead then unat wlen - 4 else unat wlen) + unat pad) mod unat bs = 0
    \<and> (16 \<le> unat bs \<longrightarrow> \<not> aead \<longrightarrow> unat pad \<le> unat bs + 3)"
proof -
  define len where "len = (if aead then wlen - 4 else wlen)"
  have l: "unat len = (if aead then unat wlen - 4 else unat wlen)"
    using w by (simp add: len_def unat_sub32 wnat)
  have b0: "(ucast bs :: u32) \<noteq> 0" using b by (metis unat_ucast_u8 unat_0 not_numeral_le_zero)
  define r where "r = len mod ucast bs"
  have r: "unat r = unat len mod unat bs" by (simp add: r_def unat_mod)
  have rb: "unat r < unat bs" using b r by simp
  define p1 where "p1 = (ucast (ucast bs - r) :: u8)"
  have "unat (ucast bs - r :: u32) = unat bs - unat r" using rb by (simp add: unat_sub32 wnat)
  then have p1: "unat p1 = unat bs - unat r"
    using b by (simp add: p1_def unsigned_ucast_eq take_bit_nat_eq_self)
  define p2 where "p2 = (if p1 < 4 then p1 + bs else p1)"
  have p2: "unat p2 = (if unat p1 < 4 then unat p1 + unat bs else unat p1)"
    using p1 b by (auto simp: p2_def wnat unat_add8)
  have s2: "unat (wlen + ucast p2) = unat wlen + unat p2"
    using w unat_u8_lt [of p2] by (subst unat_add32) auto
  define p3 where "p3 = (if wlen + ucast p2 < MIN_PACKET_LEN then p2 + bs else p2)"
  have p3: "unat p3 = (if unat wlen + unat p2 < 16 then unat p2 + unat bs else unat p2)"
  proof -
    have "unat wlen + unat p2 < 16 \<Longrightarrow> unat (p2 + bs) = unat p2 + unat bs"
      using b by (intro unat_add8) linarith
    then show ?thesis by (simp add: p3_def wnat s2 MIN_PACKET_LEN_def)
  qed
  have run: "packet_padlen aead bs wlen = Inr p3"
    using b0 unfolding p3_def p2_def p1_def r_def len_def
    by (simp only: packet_padlen_def umod_def Let_def if_False rbind_simps)
  have k: "unat p3 = unat bs - unat len mod unat bs \<or> unat p3 = unat bs - unat len mod unat bs + unat bs
     \<or> unat p3 = unat bs - unat len mod unat bs + unat bs + unat bs"
    using p3 p2 p1 r by auto
  have "(unat len + unat p3) mod unat bs = 0"
    using k round_up [of "unat bs" "unat len"] b
    by (elim disjE) (auto simp: add.assoc [symmetric] simp del: add.assoc)
  moreover have "16 \<le> unat bs \<longrightarrow> \<not> aead \<longrightarrow> unat p3 \<le> unat bs + 3"
  proof (intro impI)
    assume big: "16 \<le> unat bs" and na: "\<not> aead"
    have "(unat wlen + unat p2) mod unat bs = 0"
      using p2 p1 r l na round_up [of "unat bs" "unat wlen"] b by (auto split: if_splits)
    then have "unat bs dvd unat wlen + unat p2" by (simp add: mod_eq_0_iff_dvd)
    then have "unat bs \<le> unat wlen + unat p2" using w by (auto intro: dvd_imp_le)
    then have "unat p3 = unat p2" using p3 big by simp
    then show "unat p3 \<le> unat bs + 3" using p2 p1 rb b by auto
  qed
  moreover have "4 \<le> unat p3" "unat p3 \<le> 2 * unat bs + 3" "16 \<le> unat wlen + unat p3"
    using p1 p2 p3 b w rb by (auto split: if_splits)
  ultimately show ?thesis using run l by auto
qed

section \<open>The outgoing packet\<close>

definition trans_blocksize :: "('c, 'z) session \<Rightarrow> nat" where
  "trans_blocksize s = unat (ciph_blocksize (dk_algo_crypt (ses_trans s)))"

definition trans_macsize :: "('c, 'z) session \<Rightarrow> nat" where
  "trans_macsize s = unat (hash_hashsize (dk_algo_mac (ses_trans s)))"

text \<open>The allocated size of the packet buffer.\<close>

definition packet_space :: "('c, 'z) session \<Rightarrow> nat \<Rightarrow> nat" where
  "packet_space s n = n + 5 + max 16 (trans_blocksize s) + 3 + trans_macsize s + 21 + 1"

lemma packet_space_word:
  assumes "unat n \<le> 1000000"
  shows "unat ((n + 4 + 1) + max MIN_PACKET_LEN (ucast (ciph_blocksize (dk_algo_crypt (ses_trans s))))
      + 3 + ucast (hash_hashsize (dk_algo_mac (ses_trans s))) + ZLIB_COMPRESS_EXPANSION + 1 :: u32)
    = packet_space s (unat n)"
proof -
  let ?b = "ciph_blocksize (dk_algo_crypt (ses_trans s))" and ?m = "hash_hashsize (dk_algo_mac (ses_trans s))"
  have mx: "unat (max MIN_PACKET_LEN (ucast ?b)) = max 16 (unat ?b)"
    by (simp add: max_def wnat MIN_PACKET_LEN_def)
  have z: "unat ZLIB_COMPRESS_EXPANSION = 21"
    by (simp add: ZLIB_COMPRESS_EXPANSION_def RECV_MAX_PAYLOAD_LEN_def)
  have bd: "unat ?b < 256" "unat ?m < 256" by (rule unat_u8_lt)+
  have "unat (n + 4) = unat n + 4" using assms by (subst unat_add32) simp_all
  then have "unat (n + 4 + 1) = unat n + 5" using assms by (subst unat_add32) simp_all
  then have "unat (n + 4 + 1 + max MIN_PACKET_LEN (ucast ?b)) = unat n + 5 + max 16 (unat ?b)"
    using assms bd mx by (subst unat_add32) simp_all
  then have "unat (n + 4 + 1 + max MIN_PACKET_LEN (ucast ?b) + 3) = unat n + 5 + max 16 (unat ?b) + 3"
    using assms bd by (subst unat_add32) simp_all
  then have "unat (n + 4 + 1 + max MIN_PACKET_LEN (ucast ?b) + 3 + ucast ?m)
      = unat n + 5 + max 16 (unat ?b) + 3 + unat ?m"
    using assms bd by (subst unat_add32) simp_all
  then have "unat (n + 4 + 1 + max MIN_PACKET_LEN (ucast ?b) + 3 + ucast ?m + ZLIB_COMPRESS_EXPANSION)
      = unat n + 5 + max 16 (unat ?b) + 3 + unat ?m + 21"
    using assms bd z by (subst unat_add32) simp_all
  then show ?thesis
    using assms bd by (subst unat_add32) (simp_all add: packet_space_def trans_blocksize_def trans_macsize_def)
qed

lemma packet_payload_plain:
  assumes "\<not> is_compress_trans s" "buf_wf wp" "buf_pos wp = 0" "unat (buf_len wp) \<le> 1000000"
  shows "\<exists>wb. packet_payload e s wp = Inr (wb, wp, dk_zstream (ses_trans s)) \<and> buf_wf wb
    \<and> buf_content wb = replicate 5 0 @ buf_content wp
    \<and> unat (buf_size wb) = packet_space s (unat (buf_len wp))"
proof -
  define n where "n = unat (buf_len wp)"
  define N :: u32 where "N = (buf_len wp + 4 + 1) + max MIN_PACKET_LEN (ucast (ciph_blocksize (dk_algo_crypt (ses_trans s))))
      + 3 + ucast (hash_hashsize (dk_algo_mac (ses_trans s))) + ZLIB_COMPRESS_EXPANSION + 1"
  have N: "unat N = packet_space s n" using packet_space_word [OF assms(4), of s] by (simp add: N_def n_def)
  have small: "packet_space s n \<le> 2000000"
    using assms(4) unat_u8_lt [of "ciph_blocksize (dk_algo_crypt (ses_trans s))"]
      unat_u8_lt [of "hash_hashsize (dk_algo_mac (ses_trans s))"]
    by (simp add: packet_space_def n_def trans_blocksize_def trans_macsize_def)
  define b0 where "b0 = \<lparr>buf_data = replicate (packet_space s n) 0, buf_len = 5, buf_pos = 5, buf_size = N\<rparr>"
  have new: "rbind (buf_new N) (\<lambda>b. rbind (buf_setlen b PACKET_PAYLOAD_OFF) (\<lambda>b. buf_setpos b PACKET_PAYLOAD_OFF)) = Inr b0"
    using N small by (simp add: buf_new_def buf_setlen_def buf_setpos_def BUF_MAX_SIZE_def wnat b0_def
        PACKET_PAYLOAD_OFF_def min_def packet_space_def)
  have w0: "buf_wf b0"
    using N small by (simp add: buf_wf_def b0_def wnat BUF_MAX_SIZE_def packet_space_def)
  have c: "length (buf_content wp) = n" using assms(2) by (simp add: n_def)
  have f: "buf_fits b0 (length (buf_content wp))"
    using N by (simp add: buf_fits_def b0_def c packet_space_def)
  have rd: "mem_read (buf_data wp) 0 n = Inr (buf_content wp)"
    using buf_wf_bounds [OF assms(2)] by (simp add: n_def buf_content_def)
  have gp: "buf_getptr wp (buf_len wp) = Inr 0"
    using assms(2,3) buf_rest_length [OF assms(2)] by (simp add: buf_getptr_eq)
  have gw: "buf_getwriteptr b0 (buf_len wp) = Inr (unat (buf_pos b0))"
    using f c by (simp add: buf_getwriteptr_eq [OF w0] buf_fits_def n_def)
  have wa: "rbind (mem_write (buf_data b0) (unat (buf_pos b0)) (buf_content wp))
      (\<lambda>d. buf_incrwritepos (b0\<lparr>buf_data := d\<rparr>) (buf_len wp)) = Inr (buf_put b0 (buf_content wp))"
    using w0 f c by (intro write_advance) (auto simp: n_def)
  have "packet_payload e s wp =
     rbind (rbind (buf_new N) (\<lambda>b. rbind (buf_setlen b PACKET_PAYLOAD_OFF) (\<lambda>b. buf_setpos b PACKET_PAYLOAD_OFF))) (\<lambda>wb.
     rbind (buf_getwriteptr wb (buf_len wp)) (\<lambda>q.
     rbind (buf_getptr wp (buf_len wp)) (\<lambda>p.
     rbind (mem_read (buf_data wp) p (unat (buf_len wp))) (\<lambda>bs.
     rbind (rbind (mem_write (buf_data wb) q bs) (\<lambda>d. buf_incrwritepos (wb\<lparr>buf_data := d\<rparr>) (buf_len wp))) (\<lambda>wb.
     Inr (wb, wp, dk_zstream (ses_trans s)))))))"
    using assms(1) by (simp add: packet_payload_def N_def rbind_assoc Let_def)
  then have "packet_payload e s wp = Inr (buf_put b0 (buf_content wp), wp, dk_zstream (ses_trans s))"
    by (simp only: new gw gp rd [unfolded n_def] wa rbind_simps)
  moreover have "buf_content (buf_put b0 (buf_content wp)) = replicate 5 0 @ buf_content wp"
    using w0 f by (simp add: buf_put_content) (simp add: b0_def buf_content_def packet_space_def)
  ultimately show ?thesis using buf_put_wf [OF w0 f] N by (auto simp: n_def b0_def)
qed

text \<open>The cleartext of a packet (RFC 4253, section 6).\<close>

definition packet_clear :: "bytes \<Rightarrow> u8 \<Rightarrow> bytes \<Rightarrow> bytes" where
  "packet_clear payload padlen padding =
     store32h (of_nat (1 + length payload + unat padlen)) @ padlen # payload @ padding"

lemma packet_frame_ok:
  assumes w: "buf_wf wb" and c: "buf_content wb = replicate 5 0 @ pl"
    and f: "5 + length pl + unat padlen \<le> unat (buf_size wb)" and r: "length (e_random e t (unat padlen)) = unat padlen"
  shows "\<exists>wb'. packet_frame e t wb padlen = Inr wb' \<and> buf_wf wb' \<and> buf_size wb' = buf_size wb
    \<and> buf_content wb' = packet_clear pl padlen (e_random e t (unat padlen))"
proof -
  note bd = buf_wf_bounds [OF w]
  have l: "unat (buf_len wb) = 5 + length pl" using buf_content_length [OF w] c by simp
  define n :: u32 where "n = buf_len wb + ucast padlen - 4"
  have n: "n = of_nat (1 + length pl + unat padlen)"
  proof -
    have "(of_nat (unat (buf_len wb)) :: u32) = buf_len wb" by simp
    then have "buf_len wb = of_nat (5 + length pl)" using l by simp
    moreover have "(ucast padlen :: u32) = of_nat (unat padlen)" by simp
    ultimately show ?thesis by (simp add: n_def)
  qed
  define b1 where "b1 = wb\<lparr>buf_pos := 0\<rparr>"
  have b1: "buf_setpos wb 0 = Inr b1" "buf_wf b1" "buf_content b1 = buf_content wb"
    using buf_setpos_ok [OF w, of 0] by (auto simp: b1_def)
  have fb: "buf_fits b1 5" using f by (simp add: b1_def buf_fits_def)
  define b2 where "b2 = buf_put b1 (store32h n @ [padlen])"
  have s1: "buf_putint b1 n = Inr (buf_put b1 (store32h n))"
    using b1(2) fb by (simp add: buf_putint_eq buf_fits_def)
  have w1: "buf_wf (buf_put b1 (store32h n))" "buf_fits (buf_put b1 (store32h n)) 1"
     "buf_put (buf_put b1 (store32h n)) [padlen] = b2"
    using buf_put_wf [OF b1(2), of "store32h n"] buf_put_fits [OF b1(2), of "store32h n" 1]
      buf_put_put [OF b1(2), of "store32h n" "[padlen]"] fb buf_fits_mono [OF fb, of 4]
    by (simp_all add: b2_def)
  have s2: "buf_putbyte (buf_put b1 (store32h n)) padlen = Inr b2"
    using w1 by (simp add: buf_putbyte_eq)
  have w2: "buf_wf b2" using b1(2) fb by (auto simp: b2_def)
  have c2: "buf_content b2 = store32h n @ padlen # pl"
    using b1(2) fb c by (simp add: b2_def buf_put_content b1(3)) (simp add: b1_def)
  have sz2: "buf_size b2 = buf_size wb" by (simp add: b2_def b1_def)
  have l2: "unat (buf_len b2) = 5 + length pl" using buf_content_length [OF w2] c2 by simp
  define b3 where "b3 = b2\<lparr>buf_pos := buf_len b2\<rparr>"
  have b3: "buf_setpos b2 (buf_len b2) = Inr b3" "buf_wf b3" "buf_content b3 = buf_content b2"
    using buf_setpos_ok [OF w2, of "buf_len b2"] by (auto simp: b3_def)
  have l3: "buf_len b3 = buf_len b2" "buf_size b3 = buf_size wb" "buf_pos b3 = buf_len b2"
    by (simp_all add: b3_def sz2)
  define b4 where "b4 = b3\<lparr>buf_len := buf_len b3 + ucast padlen\<rparr>"
  have i4: "buf_incrlen b3 (ucast padlen) = Inr b4" "buf_wf b4" "unat (buf_len b4) = 5 + length pl + unat padlen"
    "take (5 + length pl) (buf_content b4) = buf_content b2"
    using buf_incrlen_ok [OF b3(2), of "ucast padlen"] f l2 l3 buf_content_length [OF w2] b3(3)
    by (auto simp: b4_def)
  have p4: "unat (buf_pos b4) = 5 + length pl" by (simp add: b4_def l3 l2)
  have g: "buf_getptr b4 (ucast padlen) = Inr (5 + length pl)"
    using p4 i4 buf_rest_length [OF i4(2)] by (simp add: buf_getptr_eq)
  note ov = buf_over_ok [OF i4(2), of "5 + length pl" "e_random e t (unat padlen)"]
  have le: "5 + length pl + length (e_random e t (unat padlen)) \<le> unat (buf_len b4)" using i4(3) r by simp
  define b5 where "b5 = buf_over b4 (5 + length pl) (e_random e t (unat padlen))"
  have run: "packet_frame e t wb padlen = Inr b5"
    using b1(1) s1 s2 b3(1) i4(1) g ov(1,3) [OF le]
    by (simp add: packet_frame_def n_def b1_def b5_def del: mem_write_ok)
  have "buf_content b5 = buf_content b2 @ e_random e t (unat padlen)"
    using ov(4) [OF le] i4(4) r buf_content_length [OF i4(2)] i4(3) by (simp add: b5_def)
  then have "buf_content b5 = packet_clear pl padlen (e_random e t (unat padlen))"
    by (simp add: c2 packet_clear_def n)
  moreover have "buf_wf b5" using ov(2) [OF le] by (simp add: b5_def)
  moreover have "buf_size b5 = buf_size wb" by (simp add: b5_def b4_def l3)
  ultimately show ?thesis using run by blast
qed

text \<open>Encryption with a separate MAC: the ciphertext followed by the MAC of the cleartext.\<close>

definition hmac_of :: "'z env \<Rightarrow> u32 \<Rightarrow> ('c, 'z) key_context_directional \<Rightarrow> bytes \<Rightarrow> bytes option" where
  "hmac_of e seqno k bs = e_hmac e (dk_hash_index k)
     (take (hash_keysize (dk_algo_mac k)) (dk_mackey k)) (store32h seqno @ bs)"

definition mac_of :: "'z env \<Rightarrow> u32 \<Rightarrow> ('c, 'z) key_context_directional \<Rightarrow> bytes \<Rightarrow> bytes" where
  "mac_of e seqno k bs = (if hash_hashsize (dk_algo_mac k) = 0 then []
     else take (unat (hash_hashsize (dk_algo_mac k))) (mac_array e (the (hmac_of e seqno k bs))))"

lemma length_mac_array [simp]: "length (mac_array e d) = MAX_MAC_LEN"
  by (simp add: mac_array_def)

lemma length_mac_of:
  "unat (hash_hashsize (dk_algo_mac k)) \<le> MAX_MAC_LEN \<Longrightarrow>
   length (mac_of e seqno k bs) = unat (hash_hashsize (dk_algo_mac k))"
  by (simp add: mac_of_def)

lemma make_mac_ok:
  assumes w: "buf_wf b" and n: "unat n \<le> unat (buf_len b)" and m: "unat (hash_hashsize (dk_algo_mac k)) \<le> MAX_MAC_LEN"
    and h: "hash_hashsize (dk_algo_mac k) > 0 \<longrightarrow> hmac_of e seqno k (take (unat n) (buf_content b)) \<noteq> None"
  shows "\<exists>mac b'. make_mac e seqno k b n = Inr (mac, b') \<and> buf_wf b' \<and> buf_content b' = buf_content b
    \<and> buf_size b' = buf_size b \<and> buf_len b' = buf_len b \<and> length mac = MAX_MAC_LEN
    \<and> take (unat (hash_hashsize (dk_algo_mac k))) mac = mac_of e seqno k (take (unat n) (buf_content b))"
proof (cases "hash_hashsize (dk_algo_mac k) > 0")
  case True
  define b' where "b' = b\<lparr>buf_pos := 0\<rparr>"
  have b': "buf_setpos b 0 = Inr b'" "buf_wf b'" "buf_content b' = buf_content b" "buf_rest b' = buf_content b"
    using buf_setpos_ok [OF w, of 0] by (auto simp: b'_def)
  have ln: "unat n \<le> length (buf_rest b')" using n b'(4) w by simp
  have g: "buf_getptr b' n = Inr 0" using ln b'(2) by (simp add: buf_getptr_eq) (simp add: b'_def)
  have rd: "mem_read (buf_data b') 0 (unat n) = Inr (take (unat n) (buf_content b))"
    using buf_read_eq [OF b'(2) ln] b'(4) by (simp add: b'_def)
  obtain dg where dg: "hmac_of e seqno k (take (unat n) (buf_content b)) = Some dg" using h True by auto
  have "make_mac e seqno k b n = Inr (mac_array e dg, b')"
    using True b'(1) g rd dg by (simp add: make_mac_def hmac_of_def del: mem_read_ok)
  then show ?thesis using b' dg True m by (auto simp: mac_of_def b'_def)
next
  case False
  then have "hash_hashsize (dk_algo_mac k) = 0" by (simp add: word_gt_0)
  then show ?thesis using w by (auto simp: make_mac_def mac_of_def)
qed

lemma encrypt_mac_ok:
  assumes w: "buf_wf wb" and m: "unat (hash_hashsize (dk_algo_mac k)) \<le> MAX_MAC_LEN"
    and f: "unat (buf_len wb) + unat (hash_hashsize (dk_algo_mac k)) \<le> unat (buf_size wb)"
    and h: "hash_hashsize (dk_algo_mac k) > 0 \<longrightarrow> hmac_of e seqno k (buf_content wb) \<noteq> None"
    and enc: "mode_encrypt (dk_crypt_mode k) (buf_content wb) (dk_cipher_state k) = Some (out, c)"
    and len: "length out = length (buf_content wb)"
  shows "\<exists>wb'. encrypt_mac e seqno k wb = Inr (wb', c) \<and> buf_wf wb'
    \<and> buf_content wb' = out @ mac_of e seqno k (buf_content wb)"
proof -
  define ms where "ms = (ucast (hash_hashsize (dk_algo_mac k)) :: u32)"
  have ms: "unat ms = unat (hash_hashsize (dk_algo_mac k))" by (simp add: ms_def)
  have cw: "take (unat (buf_len wb)) (buf_content wb) = buf_content wb" using w by simp
  obtain mac b1 where b1: "make_mac e seqno k wb (buf_len wb) = Inr (mac, b1)" "buf_wf b1"
      "buf_content b1 = buf_content wb" "buf_size b1 = buf_size wb" "buf_len b1 = buf_len wb"
      "length mac = MAX_MAC_LEN" "take (unat ms) mac = mac_of e seqno k (buf_content wb)"
    using make_mac_ok [OF w order_refl m, of e seqno] h cw ms by auto
  define b2 where "b2 = b1\<lparr>buf_pos := 0\<rparr>"
  have b2: "buf_setpos b1 0 = Inr b2" "buf_wf b2" "buf_content b2 = buf_content wb" "buf_rest b2 = buf_content wb"
    "buf_len b2 = buf_len wb" "buf_size b2 = buf_size wb" "buf_pos b2 = 0"
    using buf_setpos_ok [OF b1(2), of 0] b1 by (auto simp: b2_def)
  have lc: "length (buf_content wb) = unat (buf_len wb)" using w by simp
  have g: "buf_getptr b2 (buf_len b2) = Inr 0" using b2 lc by (simp add: buf_getptr_eq)
  have rd: "mem_read (buf_data b2) 0 (unat (buf_len b2)) = Inr (buf_content wb)"
    using buf_read_eq [OF b2(2), of "unat (buf_len wb)"] b2 lc by simp
  have gw: "buf_getwriteptr b2 (buf_len b2) = Inr 0"
    using buf_wf_bounds [OF w] b2 by (simp add: buf_getwriteptr_eq)
  have le: "0 + length out \<le> unat (buf_len b2)" using len lc b2 by simp
  note ov = buf_over_ok [OF b2(2) le]
  define b3 where "b3 = buf_over b2 0 out"
  have c3: "buf_content b3 = out" using ov(4) b2 len by (simp add: b3_def)
  have "buf_rest b3 = out" using c3 b2 by (simp add: buf_rest_def b3_def)
  then have inc: "buf_incrpos b3 (buf_len b2) = Inr (buf_adv b3 (length out))"
    using ov(2) len lc b2 by (simp add: buf_incrpos_eq b3_def)
  define b4 where "b4 = buf_adv b3 (length out)"
  have w4: "buf_wf b4" using ov(2) \<open>buf_rest b3 = out\<close> by (auto simp: b4_def b3_def)
  have p4: "unat (buf_pos b4) = length out"
    using buf_adv_pos [of b3 "length out"] ov(2) \<open>buf_rest b3 = out\<close> b2 by (simp add: b4_def b3_def)
  have c4: "buf_content b4 = out" by (simp add: b4_def c3)
  have f4: "buf_fits b4 (unat ms)" using f p4 len lc ms b2 by (simp add: buf_fits_def b4_def b3_def)
  have lm: "unat ms \<le> length mac" using b1(6) m ms by simp
  have put: "buf_putbytes b4 mac ms = Inr (buf_put b4 (take (unat ms) mac))"
    using f4 lm by (simp add: buf_putbytes_eq [OF w4])
  have "buf_content (buf_put b4 (take (unat ms) mac)) = out @ mac_of e seqno k (buf_content wb)"
    using buf_put_content [OF w4, of "take (unat ms) mac"] f4 lm p4 c4
    by (simp add: b1(7) [symmetric])
  moreover have "buf_wf (buf_put b4 (take (unat ms) mac))" using w4 f4 lm by (intro buf_put_wf) simp_all
  moreover have "encrypt_mac e seqno k wb = Inr (buf_put b4 (take (unat ms) mac), c)"
    using b1(1) b2(1) g rd gw enc ov(1,3) inc put
    by (simp add: encrypt_mac_def ms_def [symmetric] Let_def b3_def [symmetric] b4_def [symmetric]
        del: mem_read_ok mem_write_ok)
  ultimately show ?thesis by blast
qed

section \<open>What sending leaves alone\<close>

text \<open>\<open>same_core\<close>: everything that sending a packet does not touch.\<close>

definition same_core :: "('c, 'z) session \<Rightarrow> ('c, 'z) session \<Rightarrow> bool" where
  "same_core s s' \<longleftrightarrow>
     ses_channels s' = ses_channels s \<and> ses_chansize s' = ses_chansize s \<and> ses_chancount s' = ses_chancount s
     \<and> ses_authstate s' = ses_authstate s \<and> ses_payload s' = ses_payload s \<and> ses_readbuf s' = ses_readbuf s
     \<and> ses_recvseq s' = ses_recvseq s \<and> ses_dataallowed s' = ses_dataallowed s
     \<and> ses_requirenext s' = ses_requirenext s \<and> ses_ignorenext s' = ses_ignorenext s
     \<and> keys_recv (ses_keys s') = keys_recv (ses_keys s) \<and> ses_newkeys s' = ses_newkeys s
     \<and> ses_trace s' = ses_trace s
     \<and> kex_strict_kex (ses_kexstate s') = kex_strict_kex (ses_kexstate s)
     \<and> kex_recvfirstnewkeys (ses_kexstate s') = kex_recvfirstnewkeys (ses_kexstate s)
     \<and> (ses_kexstate s')\<lparr>kex_datatrans := 0\<rparr> = (ses_kexstate s)\<lparr>kex_datatrans := 0\<rparr>
     \<and> ses_sock_in s' = ses_sock_in s \<and> ses_sock_out s' = ses_sock_out s
     \<and> ses_hash s' = ses_hash s \<and> ses_session_id s' = ses_session_id s \<and> ses_dh_K s' = ses_dh_K s
     \<and> ses_dh_K_bytes s' = ses_dh_K_bytes s \<and> ses_kexhashbuf s' = ses_kexhashbuf s
     \<and> ses_transkexinit s' = ses_transkexinit s \<and> ses_remoteident s' = ses_remoteident s
     \<and> ses_payload_beginning s' = ses_payload_beginning s \<and> ses_allow_ext_info s' = ses_allow_ext_info s
     \<and> ses_exitflag s' = ses_exitflag s \<and> ses_svr s' = ses_svr s \<and> ses_connect_time s' = ses_connect_time s
     \<and> ses_last_packet_time_keepalive_recv s' = ses_last_packet_time_keepalive_recv s
     \<and> ses_last_packet_time_keepalive_sent s' = ses_last_packet_time_keepalive_sent s
     \<and> keys_algo_kex (ses_keys s') = keys_algo_kex (ses_keys s) \<and> ses_maxfd s' = ses_maxfd s
     \<and> ses_listeners s' = ses_listeners s \<and> ses_listensize s' = ses_listensize s
     \<and> ses_conn_pending s' = ses_conn_pending s \<and> ses_next_conn s' = ses_next_conn s
     \<and> ses_allowprivport s' = ses_allowprivport s"

lemma same_core_refl [simp]: "same_core s s"
  by (simp add: same_core_def)

lemma same_core_trans: "same_core s s1 \<Longrightarrow> same_core s1 s2 \<Longrightarrow> same_core s s2"
  by (simp add: same_core_def)

lemma same_core_kexstate:
  assumes "same_core s s'"
  shows "ses_kexstate s' = (ses_kexstate s)\<lparr>kex_datatrans := kex_datatrans (ses_kexstate s')\<rparr>"
proof -
  have "((ses_kexstate s')\<lparr>kex_datatrans := 0\<rparr>)\<lparr>kex_datatrans := kex_datatrans (ses_kexstate s')\<rparr>
      = ((ses_kexstate s)\<lparr>kex_datatrans := 0\<rparr>)\<lparr>kex_datatrans := kex_datatrans (ses_kexstate s')\<rparr>"
    using assms by (simp add: same_core_def)
  then show ?thesis by simp
qed

lemma same_core_upd [simp]:
  "same_core s (s'\<lparr>ses_writepayload := x1\<rparr>) = same_core s s'"
  "same_core s (s'\<lparr>ses_transseq := x2\<rparr>) = same_core s s'"
  "same_core s (s'\<lparr>ses_last_packet_time_any_sent := x3\<rparr>) = same_core s s'"
  "same_core s (s'\<lparr>ses_last_packet_time_idle := x3\<rparr>) = same_core s s'"
  "same_core s (s'\<lparr>ses_writequeue := x4\<rparr>) = same_core s s'"
  "same_core s (s'\<lparr>ses_writequeue_len := x5\<rparr>) = same_core s s'"
  "same_core s (s'\<lparr>ses_reply_queue := x6\<rparr>) = same_core s s'"
  "same_core s (tick s') = same_core s s'"
  "same_core s (set_trans s' k) = same_core s s'"
  by (simp_all add: same_core_def tick_def set_trans_def)

lemma same_core_datatrans:
  "same_core s (s\<lparr>ses_kexstate := (ses_kexstate s)\<lparr>kex_datatrans := n\<rparr>\<rparr>)"
  by (simp add: same_core_def)

lemma enqueue_reply_core: "enqueue_reply_packet s = Inr s' \<Longrightarrow> same_core s s'"
  by (auto simp: enqueue_reply_packet_def rbind_Inr_iff)

lemma writebuf_enqueue_core: "writebuf_enqueue wb s = Inr s' \<Longrightarrow> same_core s s'"
  by (auto simp: writebuf_enqueue_def rbind_Inr_iff)

lemma packet_sent_core:
  assumes "packet_sent e ty wb s = Inr s'" shows "same_core s s'"
proof -
  obtain s1 where s1: "writebuf_enqueue wb (s\<lparr>ses_kexstate := (ses_kexstate s)\<lparr>kex_datatrans :=
      kex_datatrans (ses_kexstate s) + buf_len wb\<rparr>\<rparr>) = Inr s1"
    and s': "same_core s1 s'"
    using assms unfolding packet_sent_def Let_def by (elim rbind_InrE) (auto split: if_splits)
  show ?thesis using same_core_trans [OF same_core_datatrans same_core_trans [OF writebuf_enqueue_core [OF s1] s']] .
qed

lemma encrypt_packet_cases:
  assumes "encrypt_packet e s = Inr s'"
  obtains (reply) wp where "enqueue_reply_packet (s\<lparr>ses_writepayload := wp\<rparr>) = Inr s'"
  | (sent) ty wp wb wp' k where "build_packet e s wp = Inr (wb, wp', k)"
      "packet_sent e ty wb (tick (set_trans (s\<lparr>ses_writepayload := wp'\<rparr>) k)) = Inr s'"
  using assms unfolding encrypt_packet_def
  by (elim rbind_InrE) (auto split: if_splits elim!: rbind_InrE)

lemma encrypt_packet_core: "encrypt_packet e s = Inr s' \<Longrightarrow> same_core s s'"
proof (erule encrypt_packet_cases)
  fix wp assume "enqueue_reply_packet (s\<lparr>ses_writepayload := wp\<rparr>) = Inr s'"
  from enqueue_reply_core [OF this] show "same_core s s'" by (rule same_core_trans [rotated]) simp
next
  fix ty wp wb wp' k assume "packet_sent e ty wb (tick (set_trans (s\<lparr>ses_writepayload := wp'\<rparr>) k)) = Inr s'"
  from packet_sent_core [OF this] show "same_core s s'" by (rule same_core_trans [rotated]) simp
qed

section \<open>The wire format\<close>

text \<open>
  What the packet layer relies on of a cipher mode with a separate MAC: whole blocks are encrypted
  to as many bytes, and decrypting them in two pieces cut at a block boundary, as the receiver
  does, gives the plaintext back.
\<close>

definition cipher_inverse :: "'c dropbear_cipher_mode \<Rightarrow> 'c dropbear_cipher_mode \<Rightarrow> nat \<Rightarrow> bool" where
  "cipher_inverse m m' b \<longleftrightarrow> aead_crypt m = None \<and> aead_crypt m' = None \<and>
     (\<forall>pt c. length pt mod b = 0 \<longrightarrow> (\<exists>ct c'. mode_encrypt m pt c = Some (ct, c') \<and> length ct = length pt \<and>
        (\<forall>n \<le> length pt. n mod b = 0 \<longrightarrow> (\<exists>c1. mode_decrypt m' (take n ct) c = Some (take n pt, c1) \<and>
           mode_decrypt m' (drop n ct) c1 = Some (drop n pt, c')))))"

lemma mode_none_inverse: "cipher_inverse dropbear_mode_none dropbear_mode_none b"
  by (auto simp: cipher_inverse_def dropbear_mode_none_def void_cipher_def)

text \<open>A session that can send the packet in its \<^verbatim>\<open>writepayload\<close> now.\<close>

definition can_send :: "'z env \<Rightarrow> ('c, 'z) session \<Rightarrow> bytes \<Rightarrow> bool" where
  "can_send e s pl \<longleftrightarrow> buf_wf (ses_writepayload s) \<and> buf_content (ses_writepayload s) = pl
     \<and> pl \<noteq> [] \<and> length pl \<le> 900000
     \<and> (ses_dataallowed s \<or> packet_is_okay_kex (hd pl)) \<and> \<not> is_compress_trans s
     \<and> 8 \<le> trans_blocksize s \<and> trans_blocksize s \<le> 126 \<and> trans_macsize s \<le> MAX_MAC_LEN
     \<and> (\<forall>i key bs. e_hmac e i key bs \<noteq> None) \<and> (\<forall>t n. length (e_random e t n) = n)"

lemma length_packet_clear: "length (packet_clear pl p rnd) = 5 + length pl + length rnd"
  by (simp add: packet_clear_def)

text \<open>\<open>wire_packet\<close>: the bytes of a packet, from the sender's keys, the payload and the padding.\<close>

definition wire_packet :: "'z env \<Rightarrow> u32 \<Rightarrow> ('c, 'z) key_context_directional \<Rightarrow> bytes \<Rightarrow> u8 \<Rightarrow> bytes \<Rightarrow> bytes" where
  "wire_packet e seqno k pl pad rnd =
     (let clear = packet_clear pl pad rnd in
      fst (the (mode_encrypt (dk_crypt_mode k) clear (dk_cipher_state k))) @ mac_of e seqno k clear)"

lemma build_packet_ok:
  assumes cs: "can_send e s pl" and ci: "cipher_inverse (dk_crypt_mode (ses_trans s)) m' (trans_blocksize s)"
    and wp: "wp = (ses_writepayload s)\<lparr>buf_pos := 0\<rparr>"
  shows "\<exists>wb wp' k pad c. build_packet e s wp = Inr (wb, wp', k) \<and> buf_wf wb \<and>
    buf_content wb = wire_packet e (ses_transseq s) (ses_trans s) pl pad (e_random e (ses_tick s) (unat pad)) \<and>
    4 \<le> unat pad \<and> unat pad \<le> 2 * trans_blocksize s + 3 \<and> 16 \<le> 5 + length pl + unat pad \<and>
    (5 + length pl + unat pad) mod trans_blocksize s = 0 \<and>
    buf_wf wp' \<and> buf_content wp' = [] \<and> buf_pos wp' = 0 \<and> buf_size wp' = buf_size (ses_writepayload s) \<and>
    k = (ses_trans s)\<lparr>dk_cipher_state := c\<rparr> \<and>
    mode_encrypt (dk_crypt_mode (ses_trans s)) (packet_clear pl pad (e_random e (ses_tick s) (unat pad)))
      (dk_cipher_state (ses_trans s)) = Some (take (5 + length pl + unat pad) (buf_content wb), c)"
proof -
  let ?k = "ses_trans s" and ?t = "ses_tick s"
  have w0: "buf_wf (ses_writepayload s)" "buf_content (ses_writepayload s) = pl" "length pl \<le> 900000" "pl \<noteq> []"
    "\<not> is_compress_trans s" "8 \<le> trans_blocksize s" "trans_blocksize s \<le> 126" "trans_macsize s \<le> MAX_MAC_LEN"
    "\<forall>i key bs. e_hmac e i key bs \<noteq> None" "\<forall>t n. length (e_random e t n) = n"
    using cs by (auto simp: can_send_def)
  have wpw: "buf_wf wp" "buf_content wp = pl" "buf_pos wp = 0" "unat (buf_len wp) = length pl"
    using buf_setpos_ok [OF w0(1), of 0] w0(2) wp buf_content_length [OF w0(1)] by auto
  obtain wb where wb: "packet_payload e s wp = Inr (wb, wp, dk_zstream ?k)" "buf_wf wb"
      "buf_content wb = replicate 5 0 @ pl" "unat (buf_size wb) = packet_space s (length pl)"
    using packet_payload_plain [OF w0(5) wpw(1,3)] wpw w0(3) by auto
  have lwb: "unat (buf_len wb) = 5 + length pl" using buf_content_length [OF wb(2)] wb(3) by simp
  have na: "aead_crypt (dk_crypt_mode ?k) = None" using ci by (simp add: cipher_inverse_def)
  obtain pad where pad: "packet_padlen False (ciph_blocksize (dk_algo_crypt ?k)) (buf_len wb) = Inr pad"
      "4 \<le> unat pad" "unat pad \<le> 2 * trans_blocksize s + 3" "16 \<le> 5 + length pl + unat pad"
      "(5 + length pl + unat pad) mod trans_blocksize s = 0"
      "16 \<le> trans_blocksize s \<longrightarrow> unat pad \<le> trans_blocksize s + 3"
    using packet_padlen_nat [of "ciph_blocksize (dk_algo_crypt ?k)" "buf_len wb" False] w0 lwb
    by (auto simp: trans_blocksize_def)
  have ps: "unat pad \<le> max 16 (trans_blocksize s) + 3 + 22" using pad(3,6) by (auto simp: max_def)
  let ?rnd = "e_random e ?t (unat pad)"
  have "5 + length pl + unat pad \<le> unat (buf_size wb)" using wb(4) ps by (simp add: packet_space_def)
  then obtain fb where fb: "packet_frame e ?t wb pad = Inr fb" "buf_wf fb" "buf_size fb = buf_size wb"
      "buf_content fb = packet_clear pl pad ?rnd"
    using packet_frame_ok [OF wb(2,3)] w0(10) by blast
  have lfb: "unat (buf_len fb) = 5 + length pl + unat pad"
    using buf_content_length [OF fb(2)] fb(4) w0(10) by (simp add: length_packet_clear)
  have lcl: "length (packet_clear pl pad ?rnd) = 5 + length pl + unat pad"
    using w0(10) by (simp add: length_packet_clear)
  obtain ct c where ct: "mode_encrypt (dk_crypt_mode ?k) (packet_clear pl pad ?rnd) (dk_cipher_state ?k) = Some (ct, c)"
      "length ct = length (packet_clear pl pad ?rnd)"
    using ci pad(5) lcl unfolding cipher_inverse_def by metis
  have fits: "unat (buf_len fb) + unat (hash_hashsize (dk_algo_mac ?k)) \<le> unat (buf_size fb)"
    using lfb wb(4) fb(3) ps by (simp add: packet_space_def trans_macsize_def)
  have hm: "hash_hashsize (dk_algo_mac ?k) > 0 \<longrightarrow> hmac_of e (ses_transseq s) ?k (buf_content fb) \<noteq> None"
    using w0(9) by (simp add: hmac_of_def)
  obtain eb where eb: "encrypt_mac e (ses_transseq s) ?k fb = Inr (eb, c)" "buf_wf eb"
      "buf_content eb = ct @ mac_of e (ses_transseq s) ?k (packet_clear pl pad ?rnd)"
    using encrypt_mac_ok [OF fb(2) _ fits hm, of ct c] w0(8) ct fb(4) by (auto simp: trans_macsize_def)
  obtain wp' where wp': "rbind (buf_setpos wp 0) (\<lambda>b. buf_setlen b 0) = Inr wp'" "buf_wf wp'"
      "buf_content wp' = []" "buf_pos wp' = 0" "buf_size wp' = buf_size wp"
    using buf_clear_ok [OF wpw(1)] by auto
  have "build_packet e s wp = rbind (rbind (buf_setpos wp 0) (\<lambda>b. buf_setlen b 0)) (\<lambda>wp. Inr (eb, wp, ?k\<lparr>dk_zstream := dk_zstream ?k, dk_cipher_state := c\<rparr>))"
    using wb(1) pad(1) fb(1) eb(1) na by (simp add: build_packet_def rbind_assoc Let_def)
  then have run: "build_packet e s wp = Inr (eb, wp', ?k\<lparr>dk_cipher_state := c\<rparr>)"
    using wp'(1) by simp
  have "buf_content eb = wire_packet e (ses_transseq s) ?k pl pad ?rnd"
    using eb(3) ct by (simp add: wire_packet_def Let_def)
  moreover have "take (5 + length pl + unat pad) (buf_content eb) = ct" using eb(3) ct(2) lcl by simp
  moreover have "buf_size wp' = buf_size (ses_writepayload s)" using wp'(5) wp by simp
  ultimately show ?thesis
    using run eb(2) pad wp' ct
    by (intro exI [of _ eb] exI [of _ wp'] exI [of _ "?k\<lparr>dk_cipher_state := c\<rparr>"] exI [of _ pad] exI [of _ c]) simp
qed

text \<open>\<open>packet_pads e s pl pad\<close>: a padding length that the protocol allows for the payload.\<close>

definition pad_ok :: "('c, 'z) session \<Rightarrow> bytes \<Rightarrow> u8 \<Rightarrow> bool" where
  "pad_ok s pl pad \<longleftrightarrow> 4 \<le> unat pad \<and> unat pad \<le> 2 * trans_blocksize s + 3
     \<and> 16 \<le> 5 + length pl + unat pad \<and> (5 + length pl + unat pad) mod trans_blocksize s = 0"

lemma encrypt_packet_ok:
  assumes cs: "can_send e s pl" and ci: "cipher_inverse (dk_crypt_mode (ses_trans s)) m' (trans_blocksize s)"
  shows "\<exists>s' wb pad c. encrypt_packet e s = Inr s' \<and> ses_writequeue s' = ses_writequeue s @ [wb] \<and>
    buf_wf wb \<and> buf_rest wb = wire_packet e (ses_transseq s) (ses_trans s) pl pad (e_random e (ses_tick s) (unat pad)) \<and>
    pad_ok s pl pad \<and> ses_writequeue_len s' = ses_writequeue_len s + of_nat (length (buf_rest wb)) \<and>
    ses_transseq s' = ses_transseq s + 1 \<and> buf_wf (ses_writepayload s') \<and> buf_content (ses_writepayload s') = [] \<and>
    buf_pos (ses_writepayload s') = 0 \<and> ses_trans s' = (ses_trans s)\<lparr>dk_cipher_state := c\<rparr> \<and>
    mode_encrypt (dk_crypt_mode (ses_trans s)) (packet_clear pl pad (e_random e (ses_tick s) (unat pad)))
      (dk_cipher_state (ses_trans s)) = Some (take (5 + length pl + unat pad) (buf_rest wb), c)"
proof -
  define wp where "wp = (ses_writepayload s)\<lparr>buf_pos := 0\<rparr>"
  have w0: "buf_wf (ses_writepayload s)" "buf_content (ses_writepayload s) = pl" "pl \<noteq> []"
    using cs by (auto simp: can_send_def)
  have wp: "buf_setpos (ses_writepayload s) 0 = Inr wp" "buf_wf wp" "buf_rest wp = pl" "buf_content wp = pl"
    using buf_setpos_ok [OF w0(1), of 0] w0(2) by (auto simp: wp_def)
  have gb: "buf_getbyte wp = Inr (hd pl, buf_adv wp 1)"
    using wp w0(3) by (cases pl) (auto simp: buf_getbyte_eq)
  have w1: "buf_wf (buf_adv wp 1)" using wp w0(3) by (auto simp: Suc_le_eq)
  have sp: "buf_setpos (buf_adv wp 1) 0 = Inr wp"
    using buf_setpos_ok(1) [OF w1, of 0] by (simp add: buf_adv_def wp_def)
  have ok: "\<not> (\<not> ses_dataallowed s \<and> \<not> packet_is_okay_kex (hd pl))" using cs by (auto simp: can_send_def)
  obtain wb wp' k pad c where b: "build_packet e s wp = Inr (wb, wp', k)" "buf_wf wb"
     "buf_content wb = wire_packet e (ses_transseq s) (ses_trans s) pl pad (e_random e (ses_tick s) (unat pad))"
     "pad_ok s pl pad" "buf_wf wp'" "buf_content wp' = []" "buf_pos wp' = 0" "k = (ses_trans s)\<lparr>dk_cipher_state := c\<rparr>"
     "mode_encrypt (dk_crypt_mode (ses_trans s)) (packet_clear pl pad (e_random e (ses_tick s) (unat pad)))
      (dk_cipher_state (ses_trans s)) = Some (take (5 + length pl + unat pad) (buf_content wb), c)"
    using build_packet_ok [OF cs ci wp_def] unfolding pad_ok_def by metis
  define wb0 where "wb0 = wb\<lparr>buf_pos := 0\<rparr>"
  have wb0: "buf_setpos wb 0 = Inr wb0" "buf_wf wb0" "buf_rest wb0 = buf_content wb" "buf_len wb0 = buf_len wb"
    using buf_setpos_ok [OF b(2), of 0] by (auto simp: wb0_def)
  define s1 where "s1 = tick (set_trans (s\<lparr>ses_writepayload := wp'\<rparr>) k)"
  have e1: "encrypt_packet e s = packet_sent e (hd pl) wb s1"
    using wp(1) gb sp ok b(1) by (auto simp: encrypt_packet_def s1_def)
  have "\<exists>s'. packet_sent e (hd pl) wb s1 = Inr s' \<and> ses_writequeue s' = ses_writequeue s1 @ [wb0]
     \<and> ses_writequeue_len s' = ses_writequeue_len s1 + buf_len wb \<and> ses_transseq s' = ses_transseq s1 + 1
     \<and> ses_writepayload s' = ses_writepayload s1 \<and> ses_keys s' = ses_keys s1"
    using wb0 by (simp add: packet_sent_def writebuf_enqueue_def Let_def tick_def)
  then obtain s' where s': "packet_sent e (hd pl) wb s1 = Inr s'" "ses_writequeue s' = ses_writequeue s @ [wb0]"
     "ses_writequeue_len s' = ses_writequeue_len s + buf_len wb" "ses_transseq s' = ses_transseq s + 1"
     "ses_writepayload s' = wp'" "ses_trans s' = k"
    by (auto simp: s1_def tick_def set_trans_def)
  have "buf_len wb = of_nat (length (buf_rest wb0))" using wb0(3) b(2) by simp
  then show ?thesis
    using e1 s' b wb0
    by (intro exI [of _ s'] exI [of _ wb0] exI [of _ pad] exI [of _ c]) simp
qed


lemma fresh_fields [simp]:
  "ses_writequeue fresh_session = []" "ses_writequeue_len fresh_session = 0" "ses_readbuf fresh_session = None"
  "ses_payload fresh_session = None" "ses_transseq fresh_session = 0" "ses_recvseq fresh_session = 0"
  "ses_dataallowed fresh_session" "ses_requirenext fresh_session = SSH_MSG_KEXINIT"
  "\<not> ses_ignorenext fresh_session" "ses_keys fresh_session = \<lparr>keys_recv = none_keys (), keys_trans = none_keys (),
     keys_algo_kex = None, keys_algo_hostkey = -1, keys_algo_signature = 0\<rparr>"
  "ses_authstate fresh_session = zero_authstate" "ses_tick fresh_session = 1" "ses_sock_in fresh_session = 3"
  "ses_sock_out fresh_session = 3" "ses_kexstate fresh_session = zero_kexstate" "ses_trace fresh_session = []"
  "ses_reply_queue fresh_session = []" "ses_channels fresh_session = []" "ses_chansize fresh_session = 0"
  "ses_chancount fresh_session = 0" "ses_newkeys fresh_session = None" "ses_listeners fresh_session = []"
  "ses_listensize fresh_session = 0" "ses_conn_pending fresh_session = []" "ses_next_conn fresh_session = 0"
  by (simp_all add: fresh_session_def common_session_init_def buf_new_def BUF_MAX_SIZE_def
      TRANS_MAX_PAYLOAD_LEN_def update_channel_prio_def Let_def)

text \<open>A buffer holding exactly \<open>bs\<close>, with the position at its end.\<close>

definition mkbuf :: "bytes \<Rightarrow> buffer" where
  "mkbuf bs = \<lparr>buf_data = bs, buf_len = of_nat (length bs), buf_pos = of_nat (length bs),
     buf_size = of_nat (length bs)\<rparr>"

lemma mkbuf_wf: "length bs \<le> 1000000000 \<Longrightarrow> buf_wf (mkbuf bs) \<and> buf_content (mkbuf bs) = bs"
  by (simp add: mkbuf_def buf_wf_def buf_content_def BUF_MAX_SIZE_def wnat)

lemma fresh_can_send:
  assumes "pl \<noteq> []" "length pl \<le> 900000"
  shows "can_send null_env (fresh_session\<lparr>ses_writepayload := mkbuf pl\<rparr>) pl"
  using assms mkbuf_wf [of pl]
  by (simp add: can_send_def null_env_def trans_blocksize_def trans_macsize_def none_keys_def
      dropbear_nocipher_def dropbear_nohash_def is_compress_trans_def)


end
