(* ===== verification/Packet_Recv.thy ===== *)
theory Packet_Recv
  imports Packet
begin

text \<open>
  What the receiving half of \<^verbatim>\<open>packet.c\<close> does with the bytes a peer sends: the first block gives
  the length, which is checked; the rest is read, decrypted and authenticated; and the payload is
  the sender's. The definitions are those of \<^verbatim>\<open>Packet\<close>.
\<close>

section \<open>The incoming packet\<close>

lemma foldl_or_zero:
  "foldl (\<lambda>c i. c OR f i) (z :: u8) xs = 0 \<longleftrightarrow> z = 0 \<and> (\<forall>i \<in> set xs. f i = 0)"
proof (induction xs arbitrary: z)
  case (Cons x xs)
  have "z OR f x = 0 \<longleftrightarrow> z = 0 \<and> f x = 0"
    by (metis or_eq_0_iff)
  then show ?case using Cons by auto
qed simp

text \<open>The constant-time comparison is equality of the first \<open>n\<close> bytes.\<close>

lemma constant_time_memcmp_eq:
  "constant_time_memcmp a b n = 0 \<longleftrightarrow> (\<forall>i < n. a ! i = b ! i)"
proof -
  have x: "x XOR y = 0 \<longleftrightarrow> x = y" for x y :: u8
    by (auto simp: bit_eq_iff bit_simps)
  show ?thesis by (auto simp: constant_time_memcmp_def foldl_or_zero x)
qed

lemma buf_resize_ok:
  assumes "buf_wf b" "unat (buf_len b) \<le> unat n" "unat n \<le> 1000000000"
  shows "\<exists>b'. buf_resize junk b n = Inr b' \<and> buf_wf b' \<and> buf_content b' = buf_content b
    \<and> buf_pos b' = buf_pos b \<and> buf_len b' = buf_len b \<and> buf_size b' = n"
proof -
  note bd = buf_wf_bounds [OF assms(1)]
  let ?d = "map (\<lambda>i. if i < length (buf_data b) then buf_data b ! i else junk i) [0..<unat n]"
  have m: "min n (buf_len b) = buf_len b" "min n (buf_pos b) = buf_pos b"
    using assms(2) bd by (intro min_absorb2; simp add: wnat)+
  have "take (unat (buf_len b)) ?d = take (unat (buf_len b)) (buf_data b)"
    using assms(2) bd by (intro nth_equalityI) auto
  then show ?thesis
    using assms bd m by (auto simp: buf_resize_def buf_wf_def buf_content_def BUF_MAX_SIZE_def wnat)
qed

text \<open>Reading into the buffer: bytes written through the write pointer, and the position advanced.\<close>

lemma read_into_new:
  assumes "length bs \<le> 128"
  shows "\<exists>rb. rbind (mem_write (replicate 128 0) 0 bs)
      (\<lambda>d. buf_incrwritepos \<lparr>buf_data = d, buf_len = 0, buf_pos = 0, buf_size = 128\<rparr> (of_nat (length bs))) = Inr rb
    \<and> buf_wf rb \<and> buf_content rb = bs \<and> buf_size rb = 128 \<and> unat (buf_pos rb) = length bs"
proof -
  let ?b = "\<lparr>buf_data = replicate 128 0, buf_len = 0, buf_pos = 0, buf_size = 128\<rparr>"
  have w: "buf_wf ?b" by (simp add: buf_wf_def BUF_MAX_SIZE_def)
  have f: "buf_fits ?b (length bs)" using assms by (simp add: buf_fits_def)
  have u: "unat (of_nat (length bs) :: u32) = length bs" using assms by simp
  have "rbind (mem_write (replicate 128 0) 0 bs)
      (\<lambda>d. buf_incrwritepos \<lparr>buf_data = d, buf_len = 0, buf_pos = 0, buf_size = 128\<rparr> (of_nat (length bs)))
      = Inr (buf_put ?b bs)"
    using write_advance [OF w f u] by simp
  moreover have "buf_content (buf_put ?b bs) = bs"
    using buf_put_content [OF w f] by (simp add: buf_content_def)
  ultimately show ?thesis using buf_put_wf [OF w f] buf_put_pos [OF w f] by auto
qed

text \<open>
  The state of a receiver that can read the packet \<open>wire\<close>: nothing read yet, and the socket has
  the first block and then the rest available.
\<close>

definition can_receive :: "'z env \<Rightarrow> ('c, 'z) session \<Rightarrow> nat \<Rightarrow> bytes \<Rightarrow> bool" where
  "can_receive e r b wire \<longleftrightarrow> ses_readbuf r = None \<and> \<not> is_compress_recv r
     \<and> e_read e (ses_tick r) (ses_sock_in r) b = RdData (take b wire)
     \<and> (b < length wire \<longrightarrow>
         e_read e (Suc (ses_tick r)) (ses_sock_in r) (length wire - b) = RdData (drop b wire))"

lemma first_block:
  fixes ct clear m :: bytes
  assumes "0 < b" "length clear mod b = 0" "clear \<noteq> []" "length ct = length clear"
  shows "b \<le> length clear" "take b (ct @ m) = take b ct"
proof -
  have "b dvd length clear" using assms(2) by (simp add: mod_eq_0_iff_dvd)
  then show "b \<le> length clear" using assms(3) by (intro dvd_imp_le) auto
  with assms(4) show "take b (ct @ m) = take b ct" by simp
qed

lemma read_length_ok:
  fixes r :: "('c, 'z) session"
  assumes w: "buf_wf rb" and c: "buf_content rb = blk" and l: "length blk = unat (recv_blocksize r)" and p: "buf_pos rb = 0"
    and na: "aead_crypt (dk_crypt_mode (ses_recv r)) = None" and b: "8 \<le> length blk"
    and d: "mode_decrypt (dk_crypt_mode (ses_recv r)) blk (dk_cipher_state (ses_recv r)) = Some (pt, c1)"
    and pt: "length pt = length blk"
  shows "\<exists>rb'. read_length r rb = Inr (load32h pt + 4, load32h pt + 4 + recv_macsize r, rb', c1)
    \<and> buf_wf rb' \<and> buf_content rb' = pt \<and> buf_size rb' = buf_size rb \<and> buf_len rb' = buf_len rb
    \<and> unat (buf_pos rb') = 4"
proof -
  have lb: "unat (buf_len rb) = length blk" using buf_content_length [OF w] c by simp
  have rest: "buf_rest rb = blk" using c p by (simp add: buf_rest_def)
  have g: "buf_getptr rb (recv_blocksize r) = Inr 0" using rest l p by (simp add: buf_getptr_eq [OF w])
  have rd: "mem_read (buf_data rb) 0 (unat (recv_blocksize r)) = Inr blk"
    using buf_read_eq [OF w, of "unat (recv_blocksize r)"] rest l p by simp
  have gw: "buf_getwriteptr rb (recv_blocksize r) = Inr 0"
    using buf_wf_bounds [OF w] lb l p by (simp add: buf_getwriteptr_eq [OF w])
  have le: "0 + length pt \<le> unat (buf_len rb)" using lb pt by simp
  note ov = buf_over_ok [OF w le]
  define b1 where "b1 = buf_over rb 0 pt"
  have c1: "buf_content b1 = pt" using ov(4) c pt by (simp add: b1_def)
  have r1: "buf_rest b1 = pt" using c1 p by (simp add: buf_rest_def b1_def)
  have w1: "buf_wf b1" using ov(2) by (simp add: b1_def)
  have gi: "buf_getint b1 = Inr (load32h pt, buf_adv b1 4)" using w1 r1 b pt by (simp add: buf_getint_eq)
  have "read_length r rb = Inr (load32h pt + 4, load32h pt + 4 + recv_macsize r, buf_adv b1 4, c1)"
    using g rd na gw d ov(1,3) gi
    by (simp add: read_length_def Let_def b1_def [symmetric] del: mem_read_ok mem_write_ok)
  moreover have "buf_wf (buf_adv b1 4)" using w1 r1 b pt by auto
  moreover have "unat (buf_pos (buf_adv b1 4)) = 4" using buf_adv_pos [OF w1, of 4] r1 b pt p by (simp add: b1_def)
  ultimately show ?thesis using c1 by (auto simp: b1_def)
qed

text \<open>The first call of \<^verbatim>\<open>read_packet_init\<close> on a packet whose first block is there.\<close>

lemma read_packet_init_ok:
  fixes r :: "('c, 'z) session"
  assumes b: "unat (recv_blocksize r) = b" "8 \<le> b" "b \<le> 126" and nb: "ses_readbuf r = None"
    and rd: "e_read e (ses_tick r) (ses_sock_in r) b = RdData blk" and lb: "length blk = b"
    and na: "aead_crypt (dk_crypt_mode (ses_recv r)) = None"
    and dec: "mode_decrypt (dk_crypt_mode (ses_recv r)) blk (dk_cipher_state (ses_recv r)) = Some (pt, c1)"
    and pt: "length pt = b" "load32h pt = of_nat n" and n: "n + 4 + unat (recv_macsize r) \<le> 35000"
      "b \<le> n + 4" "(n + 4) mod b = 0"
  shows "\<exists>rb. read_packet_init e r = Inr (True, set_recv ((tick r)\<lparr>ses_readbuf := Some rb\<rparr>)
        ((ses_recv r)\<lparr>dk_cipher_state := c1\<rparr>))
    \<and> buf_wf rb \<and> unat (buf_len rb) = n + 4 + unat (recv_macsize r) \<and> unat (buf_pos rb) = b
    \<and> take b (buf_content rb) = pt"
proof -
  obtain rb0 where rb0: "rbind (mem_write (replicate 128 0) 0 blk)
      (\<lambda>d. buf_incrwritepos \<lparr>buf_data = d, buf_len = 0, buf_pos = 0, buf_size = 128\<rparr> (of_nat (length blk))) = Inr rb0"
      "buf_wf rb0" "buf_content rb0 = blk" "buf_size rb0 = 128"
    using read_into_new [of blk] lb b by auto
  define new where "new = \<lparr>buf_data = replicate 128 0, buf_len = 0, buf_pos = 0, buf_size = 128 :: u32\<rparr>"
  have bn: "buf_new INIT_READBUF = Inr new" by (simp add: buf_new_def INIT_READBUF_def BUF_MAX_SIZE_def new_def)
  have wn: "buf_wf new" by (simp add: new_def buf_wf_def BUF_MAX_SIZE_def)
  have gw: "buf_getwriteptr new (recv_blocksize r - buf_pos new) = Inr 0"
    using b by (simp add: buf_getwriteptr_eq [OF wn]) (simp add: new_def)
  have bw: "of_nat (length blk) = recv_blocksize r" using lb b(1) by (metis of_nat_unat ucast_id)
  define rb1 where "rb1 = rb0\<lparr>buf_pos := 0\<rparr>"
  have rb1: "buf_setpos rb0 0 = Inr rb1" "buf_wf rb1" "buf_content rb1 = blk" "buf_pos rb1 = 0" "buf_size rb1 = 128"
      "buf_len rb1 = buf_len rb0"
    using buf_setpos_ok [OF rb0(2), of 0] rb0 by (auto simp: rb1_def)
  define r1 where "r1 = (tick (r\<lparr>ses_readbuf := Some new\<rparr>))\<lparr>ses_readbuf := Some rb0\<rparr>"
  have r1: "ses_recv r1 = ses_recv r" "recv_macsize r1 = recv_macsize r" "recv_blocksize r1 = recv_blocksize r"
    by (simp_all add: r1_def tick_def recv_macsize_def recv_blocksize_def)
  obtain rb2 where rb2: "read_length r1 rb1 = Inr (of_nat n + 4, of_nat n + 4 + recv_macsize r, rb2, c1)"
      "buf_wf rb2" "buf_content rb2 = pt" "buf_size rb2 = 128" "buf_len rb2 = buf_len rb1" "unat (buf_pos rb2) = 4"
    using read_length_ok [OF rb1(2,3), of r1 pt c1] r1 lb b(1,2) na dec pt rb1 by auto
  define plen where "plen = (of_nat n + 4 :: u32)"
  define len where "len = plen + recv_macsize r"
  have m: "unat (recv_macsize r) < 256" using unat_u8_lt by (simp add: recv_macsize_def)
  have up: "unat plen = n + 4" using n(1) by (simp add: plen_def unat_add32)
  have ul: "unat len = n + 4 + unat (recv_macsize r)" using up n(1) by (simp add: len_def unat_add32)
  have b0: "recv_blocksize r \<noteq> 0" using b by auto
  have "plen mod recv_blocksize r = 0" using up b(1) n(3) by (simp add: word_unat_eq_iff unat_mod)
  then have chk: "packet_size_check (recv_blocksize r) plen len = Inr ()"
    using ul up n b b0 by (simp add: packet_size_check_def umod_def wnat RECV_MAX_PACKET_LEN_def)
  have l2: "unat (buf_len rb2) = b" using buf_content_length [OF rb2(2)] rb2(3) pt by simp
  have "\<exists>rb3. (if len > buf_size rb2 then buf_resize (e_uninit e) rb2 len else Inr rb2) = Inr rb3 \<and> buf_wf rb3
     \<and> buf_content rb3 = pt \<and> unat (buf_pos rb3) = 4 \<and> buf_len rb3 = buf_len rb2 \<and> unat len \<le> unat (buf_size rb3)"
    using buf_resize_ok [OF rb2(2), of len "e_uninit e"] l2 ul n(1,2) rb2 by (auto simp: wnat)
  then obtain rb3 where rb3: "(if len > buf_size rb2 then buf_resize (e_uninit e) rb2 len else Inr rb2) = Inr rb3"
     "buf_wf rb3" "buf_content rb3 = pt" "unat (buf_pos rb3) = 4" "buf_len rb3 = buf_len rb2" "unat len \<le> unat (buf_size rb3)"
    by blast
  define rb4 where "rb4 = rb3\<lparr>buf_len := len\<rparr>"
  have rb4: "buf_setlen rb3 len = Inr rb4" "buf_wf rb4"
    using buf_setlen_ok(1,2) [OF rb3(2,6)] rb3(4) ul by (simp_all add: rb4_def)
  have c4: "take b (buf_content rb4) = pt"
    using rb3(3,5) l2 ul n(2) by (simp add: rb4_def buf_content_def min_def)
  define rb5 where "rb5 = rb4\<lparr>buf_pos := recv_blocksize r\<rparr>"
  have rb5: "buf_setpos rb4 (recv_blocksize r) = Inr rb5" "buf_wf rb5" "buf_content rb5 = buf_content rb4"
    using buf_setpos_ok [OF rb4(2), of "recv_blocksize r"] b(1) ul n(2) by (auto simp: rb5_def rb4_def)
  have "read_packet_init e r = Inr (True, set_recv (r1\<lparr>ses_readbuf := Some rb5\<rparr>) ((ses_recv r1)\<lparr>dk_cipher_state := c1\<rparr>))"
  proof -
    obtain d0 where d0: "mem_write (buf_data new) 0 blk = Inr d0"
        "buf_incrwritepos (new\<lparr>buf_data := d0\<rparr>) (of_nat (length blk)) = Inr rb0"
      using rb0(1) by (auto simp: new_def rbind_Inr_iff simp del: mem_write_ok)
    have p0: "buf_pos new = 0" by (simp add: new_def)
    have ne: "blk \<noteq> []" using lb b by auto
    have bw': "of_nat b = recv_blocksize r" using bw lb by simp
    show ?thesis
      using nb bn gw rd b(1) d0 ne rb1(1) rb2(1) [unfolded r1_def, folded plen_def, folded len_def]
        chk rb3(1) rb4(1) rb5(1)
      unfolding read_packet_init_def Let_def
      by (simp add: r1_def p0 lb bw' del: mem_write_ok split del: if_split)
  qed
  then show ?thesis
    using rb5 c4 ul b(1) r1 by (intro exI [of _ rb5]) (simp add: r1_def tick_def, simp add: rb5_def rb4_def)
qed

text \<open>The rest of the packet is there: the buffer then holds the first block decrypted and the
  others as they came.\<close>

lemma checkmac_ok:
  assumes w: "buf_wf rb" and c: "buf_content rb = clear @ mac"
    and mac: "mac = mac_of e (ses_recvseq r) (ses_recv r) clear" and m: "unat (recv_macsize r) \<le> MAX_MAC_LEN"
    and h: "\<forall>i key bs. e_hmac e i key bs \<noteq> None"
  shows "\<exists>rb'. checkmac e r rb = Inr (True, rb') \<and> buf_wf rb' \<and> buf_content rb' = clear @ mac \<and> buf_len rb' = buf_len rb"
proof -
  have ms: "unat (hash_hashsize (dk_algo_mac (ses_recv r))) = unat (recv_macsize r)" by (simp add: recv_macsize_def)
  have lm: "length mac = unat (recv_macsize r)" using m length_mac_of [of "ses_recv r"] by (simp add: mac ms)
  have len: "unat (buf_len rb) = length clear + length mac" using buf_content_length [OF w] c by simp
  define n where "n = buf_len rb - recv_macsize r"
  have n: "unat n = length clear" using len lm by (simp add: n_def unat_sub32 wnat)
  define b1 where "b1 = rb\<lparr>buf_pos := 0\<rparr>"
  have b1: "buf_setpos rb 0 = Inr b1" "buf_wf b1" "buf_content b1 = clear @ mac" "buf_len b1 = buf_len rb"
    using buf_setpos_ok [OF w, of 0] c by (auto simp: b1_def)
  obtain mb b2 where b2: "make_mac e (ses_recvseq r) (ses_recv r) b1 n = Inr (mb, b2)" "buf_wf b2"
      "buf_content b2 = clear @ mac" "buf_len b2 = buf_len rb" "length mb = MAX_MAC_LEN" "take (unat (recv_macsize r)) mb = mac"
    using make_mac_ok [OF b1(2), of n "ses_recv r" e "ses_recvseq r"] b1 n len h m ms mac
    by (auto simp: hmac_of_def)
  define b3 where "b3 = b2\<lparr>buf_pos := n\<rparr>"
  have b3: "buf_setpos b2 n = Inr b3" "buf_wf b3" "buf_content b3 = clear @ mac" "buf_rest b3 = mac"
    using buf_setpos_ok [OF b2(2), of n] b2 n len by (auto simp: b3_def)
  have g: "buf_getptr b3 (recv_macsize r) = Inr (unat (buf_pos b3))" using b3(4) lm by (simp add: buf_getptr_eq [OF b3(2)])
  have rd: "mem_read (buf_data b3) (unat (buf_pos b3)) (unat (recv_macsize r)) = Inr mac"
    using buf_read_eq [OF b3(2), of "unat (recv_macsize r)"] b3(4) lm by simp
  have "\<forall>i < unat (recv_macsize r). mb ! i = mac ! i" using b2(6) lm by (metis nth_take)
  then have "constant_time_memcmp mb mac (unat (recv_macsize r)) = 0" by (simp add: constant_time_memcmp_eq)
  then have "checkmac e r rb = Inr (True, b3)"
    using b1(1) b2(1) b3(1) g rd m by (simp add: checkmac_def n_def [symmetric] Let_def del: mem_read_ok)
  then show ?thesis using b3 b2(4) by (auto simp: b3_def)
qed

lemma decrypt_body_ok:
  fixes r :: "('c, 'z) session"
  assumes w: "buf_wf rb" and c: "buf_content rb = take b clear @ drop b ct @ mac" and l: "length ct = length clear"
    and b: "unat (recv_blocksize r) = b" "b \<le> length clear"
    and na: "aead_crypt (dk_crypt_mode (ses_recv r)) = None"
    and dec: "mode_decrypt (dk_crypt_mode (ses_recv r)) (drop b ct) (dk_cipher_state (ses_recv r)) = Some (drop b clear, c')"
    and mac: "mac = mac_of e (ses_recvseq r) (ses_recv r) clear" and m: "unat (recv_macsize r) \<le> MAX_MAC_LEN"
    and h: "\<forall>i key bs. e_hmac e i key bs \<noteq> None"
  shows "\<exists>rb'. decrypt_body e r rb = Inr (rb', c') \<and> buf_wf rb' \<and> buf_content rb' = clear @ mac"
proof -
  have ms: "unat (hash_hashsize (dk_algo_mac (ses_recv r))) = unat (recv_macsize r)" by (simp add: recv_macsize_def)
  have lm: "length mac = unat (recv_macsize r)" using m length_mac_of [of "ses_recv r"] by (simp add: mac ms)
  have len: "unat (buf_len rb) = length clear + length mac" using buf_content_length [OF w] c b l by simp
  define b1 where "b1 = rb\<lparr>buf_pos := recv_blocksize r\<rparr>"
  have b1: "buf_setpos rb (recv_blocksize r) = Inr b1" "buf_wf b1" "buf_content b1 = buf_content rb"
      "buf_rest b1 = drop b ct @ mac" "buf_len b1 = buf_len rb" "unat (buf_pos b1) = b" "buf_size b1 = buf_size rb"
    using buf_setpos_ok [OF w, of "recv_blocksize r"] c b len by (auto simp: b1_def)
  define n where "n = buf_len b1 - recv_macsize r - buf_pos b1"
  have "unat (buf_len b1 - recv_macsize r) = length clear" using len lm b1(5) by (simp add: unat_sub32 wnat)
  then have n: "unat n = length clear - b" using b1(6) b(2) by (simp add: n_def unat_sub32 wnat)
  have g: "buf_getptr b1 n = Inr b" using b1 n l by (simp add: buf_getptr_eq [OF b1(2)])
  have rd: "mem_read (buf_data b1) b (unat n) = Inr (drop b ct)"
    using buf_read_eq [OF b1(2), of "unat n"] b1(4,6) n l by simp
  have gw: "buf_getwriteptr b1 n = Inr b"
    using buf_wf_bounds [OF w] b1 n len b(2) by (simp add: buf_getwriteptr_eq [OF b1(2)])
  have le: "b + length (drop b clear) \<le> unat (buf_len b1)" using len b1(5) b(2) by simp
  note ov = buf_over_ok [OF b1(2) le]
  define b2 where "b2 = buf_over b1 b (drop b clear)"
  have c2: "buf_content b2 = clear @ mac" using ov(4) b1(3) c l b(2) by (simp add: b2_def)
  have w2: "buf_wf b2" using ov(2) by (simp add: b2_def)
  have r2: "length (buf_rest b2) = length clear - b + length mac"
    using buf_rest_length [OF w2] len b1 b(2) by (simp add: b2_def)
  have inc: "buf_incrpos b2 n = Inr (buf_adv b2 (unat n))" using r2 n by (simp add: buf_incrpos_eq [OF w2])
  have w3: "buf_wf (buf_adv b2 (unat n))" using w2 r2 n by auto
  obtain b4 where b4: "checkmac e r (buf_adv b2 (unat n)) = Inr (True, b4)" "buf_wf b4" "buf_content b4 = clear @ mac"
    using checkmac_ok [OF w3 _ mac m h] c2 by auto
  have "decrypt_body e r rb = Inr (b4, c')"
    using na b1(1) g rd gw dec ov(1,3) inc b4(1)
    by (simp add: decrypt_body_def Let_def n_def [symmetric] b2_def [symmetric] del: mem_read_ok mem_write_ok)
  then show ?thesis using b4 by blast
qed

lemma unpack_payload_ok:
  fixes r :: "('c, 'z) session"
  assumes w: "buf_wf rb" and c: "buf_content rb = packet_clear pl pad rnd @ mac"
    and lr: "length rnd = unat pad" and lm: "length mac = unat (recv_macsize r)"
    and nc: "\<not> is_compress_recv r" and pl: "pl \<noteq> []" "length pl \<le> 32768"
  shows "\<exists>pb. unpack_payload e r rb = Inr (pb, 5, dk_zstream (ses_recv r)) \<and> buf_wf pb \<and> buf_rest pb = pl"
proof -
  have m: "unat (recv_macsize r) < 256" using unat_u8_lt by (simp add: recv_macsize_def)
  have len: "unat (buf_len rb) = 5 + length pl + unat pad + unat (recv_macsize r)"
    using buf_content_length [OF w] c lr lm by (simp add: length_packet_clear)
  define b1 where "b1 = rb\<lparr>buf_pos := 4\<rparr>"
  have b1: "buf_setpos rb PACKET_PADDING_OFF = Inr b1" "buf_wf b1" "buf_content b1 = buf_content rb"
      "buf_rest b1 = pad # pl @ rnd @ mac" "buf_len b1 = buf_len rb" "buf_size b1 = buf_size rb"
    using buf_setpos_ok [OF w, of 4] len c by (auto simp: b1_def PACKET_PADDING_OFF_def packet_clear_def)
  have gb: "buf_getbyte b1 = Inr (pad, buf_adv b1 1)" using b1(4) by (simp add: buf_getbyte_eq [OF b1(2)])
  have w2: "buf_wf (buf_adv b1 1)" using b1(2,4) by (auto simp: Suc_le_eq)
  define n where "n = buf_len (buf_adv b1 1) - ucast pad - 4 - 1 - recv_macsize r"
  have "unat (buf_len rb - ucast pad) = 5 + length pl + unat (recv_macsize r)" using len by (simp add: unat_sub32 wnat)
  then have "unat (buf_len rb - ucast pad - 4) = 1 + length pl + unat (recv_macsize r)" by (simp add: unat_sub32 wnat)
  then have "unat (buf_len rb - ucast pad - 4 - 1) = length pl + unat (recv_macsize r)" by (subst unat_sub32) (simp_all add: wnat)
  then have n: "unat n = length pl" using b1(5) by (simp add: n_def unat_sub32 wnat)
  have z: "unat (RECV_MAX_PAYLOAD_LEN + ZLIB_COMPRESS_EXPANSION) = 32789"
    by (simp add: RECV_MAX_PAYLOAD_LEN_def ZLIB_COMPRESS_EXPANSION_def)
  have ok: "\<not> (n > RECV_MAX_PAYLOAD_LEN + ZLIB_COMPRESS_EXPANSION \<or> n < 1)"
    using n pl z by (simp add: wnat Suc_le_eq)
  define b3 where "b3 = (buf_adv b1 1)\<lparr>buf_pos := 5\<rparr>"
  have b3: "buf_setpos (buf_adv b1 1) PACKET_PAYLOAD_OFF = Inr b3" "buf_wf b3" "buf_content b3 = buf_content rb"
      "buf_len b3 = buf_len rb" "buf_pos b3 = 5" "buf_size b3 = buf_size rb"
    using buf_setpos_ok [OF w2, of 5] len b1 by (auto simp: b3_def PACKET_PAYLOAD_OFF_def)
  have u5: "unat (5 + n) = 5 + length pl" using n pl(2) by (subst unat_add32) simp_all
  define b4 where "b4 = b3\<lparr>buf_len := 5 + n\<rparr>"
  have b4: "buf_setlen b3 (5 + n) = Inr b4" "buf_wf b4" "buf_content b4 = take (5 + length pl) (buf_content rb)"
    using buf_setlen_ok [OF b3(2), of "5 + n"] buf_wf_bounds [OF w] b3 u5 len by (auto simp: b4_def)
  have "buf_rest b4 = pl" using b4(3) c b3(5) by (simp add: buf_rest_def b4_def packet_clear_def)
  moreover have "unpack_payload e r rb = Inr (b4, 5, dk_zstream (ses_recv r))"
    by (simp only: unpack_payload_def Let_def b1(1) gb rbind_simps prod.case n_def [symmetric] ok nc
        b3(1,5) b4(1) if_False)
  ultimately show ?thesis using b4(2) by blast
qed

section \<open>From sender to receiver\<close>

text \<open>The receiver's keys for a direction match the sender's.\<close>

definition keys_match :: "('c, 'z) session \<Rightarrow> ('c, 'z) session \<Rightarrow> bool" where
  "keys_match s r \<longleftrightarrow> dk_algo_crypt (ses_recv r) = dk_algo_crypt (ses_trans s)
     \<and> dk_algo_mac (ses_recv r) = dk_algo_mac (ses_trans s) \<and> dk_hash_index (ses_recv r) = dk_hash_index (ses_trans s)
     \<and> dk_mackey (ses_recv r) = dk_mackey (ses_trans s) \<and> dk_cipher_state (ses_recv r) = dk_cipher_state (ses_trans s)
     \<and> ses_recvseq r = ses_transseq s
     \<and> cipher_inverse (dk_crypt_mode (ses_trans s)) (dk_crypt_mode (ses_recv r)) (trans_blocksize s)"

lemma keys_match_mac: "keys_match s r \<Longrightarrow> mac_of e q (ses_recv r) bs = mac_of e q (ses_trans s) bs"
  by (simp add: keys_match_def mac_of_def hmac_of_def)

text \<open>Both ways of completing the packet, with a second read or without, lead to
  \<^verbatim>\<open>decrypt_packet\<close> on the whole of it.\<close>

lemma read_packet_complete:
  fixes r1 :: "('c, 'z) session"
  assumes nr: "ses_readbuf r = None" and i: "read_packet_init e r = Inr (True, r1)"
    and rb: "ses_readbuf r1 = Some rb" "buf_wf rb" "unat (buf_len rb) = b + length rest" "unat (buf_pos rb) = b"
    and rd: "rest \<noteq> [] \<Longrightarrow> e_read e (ses_tick r1) (ses_sock_in r1) (length rest) = RdData rest"
  shows "\<exists>r2 rb2. read_packet e r = decrypt_packet e r2 \<and> ses_readbuf r2 = Some rb2 \<and> buf_wf rb2
    \<and> buf_content rb2 = take b (buf_content rb) @ rest \<and> ses_recv r2 = ses_recv r1 \<and> ses_recvseq r2 = ses_recvseq r1
    \<and> ses_authstate r2 = ses_authstate r1"
proof (cases "rest = []")
  case True
  then have "buf_len rb = buf_pos rb" using rb(3,4) by (simp add: word_unat_eq_iff)
  then have "read_packet e r = decrypt_packet e r1"
    using nr i rb(1) by (simp add: read_packet_def Let_def)
  then show ?thesis using rb(1-3) True buf_content_length [OF rb(2)] by (intro exI [of _ r1] exI [of _ rb]) simp
next
  case False
  define maxlen where "maxlen = buf_len rb - buf_pos rb"
  have ml: "unat maxlen = length rest" using rb(3,4) by (simp add: maxlen_def unat_sub32 wnat)
  have lr: "of_nat (length rest) = maxlen" by (metis ml of_nat_unat ucast_id)
  have nz: "maxlen \<noteq> 0" using ml False by auto
  have rl: "length (buf_rest rb) = length rest" using buf_rest_length [OF rb(2)] rb(3,4) by simp
  have g: "buf_getptr rb maxlen = Inr b" using rb(4) rl ml by (simp add: buf_getptr_eq [OF rb(2)])
  have le: "b + length rest \<le> unat (buf_len rb)" using rb(3) by simp
  note ov = buf_over_ok [OF rb(2) le]
  define rb2 where "rb2 = buf_over rb b rest"
  have w2: "buf_wf rb2" and c2: "buf_content rb2 = take b (buf_content rb) @ rest"
    using ov(2,4) buf_content_length [OF rb(2)] rb(3) by (simp_all add: rb2_def)
  have "length (buf_rest rb2) = length rest" using buf_rest_length [OF w2] rb(3,4) by (simp add: rb2_def)
  then have inc: "buf_incrpos rb2 maxlen = Inr (buf_adv rb2 (length rest))" and w3: "buf_wf (buf_adv rb2 (length rest))"
    using ml w2 by (auto simp: buf_incrpos_eq [OF w2])
  define r2 where "r2 = (tick r1)\<lparr>ses_readbuf := Some (buf_adv rb2 (length rest))\<rparr>"
  have "read_packet e r = decrypt_packet e r2"
    using nr i rb(1) nz g rd [OF False] False ov(1,3) inc ml lr
    by (simp add: read_packet_def Let_def maxlen_def [symmetric] rb2_def [symmetric] r2_def del: mem_write_ok split del: if_split)
  then show ?thesis using w3 c2
    by (intro exI [of _ r2] exI [of _ "buf_adv rb2 (length rest)"]) (simp add: r2_def tick_def)
qed

lemma read_packet_ok:
  fixes r :: "('c, 'z) session"
  assumes b: "unat (recv_blocksize r) = b" "8 \<le> b" "b \<le> 126" and m: "unat (recv_macsize r) \<le> MAX_MAC_LEN"
    and h: "\<forall>i key bs. e_hmac e i key bs \<noteq> None"
    and na: "aead_crypt (dk_crypt_mode (ses_recv r)) = None"
    and clear: "clear = packet_clear pl pad rnd" "length rnd = unat pad" "length clear mod b = 0"
    and pl: "pl \<noteq> []" "length pl \<le> 32768" and ct: "length ct = length clear"
    and d1: "mode_decrypt (dk_crypt_mode (ses_recv r)) (take b ct) (dk_cipher_state (ses_recv r)) = Some (take b clear, c1)"
    and d2: "mode_decrypt (dk_crypt_mode (ses_recv r)) (drop b ct) c1 = Some (drop b clear, c')"
    and cr: "can_receive e r b (ct @ mac_of e (ses_recvseq r) (ses_recv r) clear)"
  shows "\<exists>r' pb. read_packet e r = Inr r' \<and> ses_payload r' = Some pb \<and> buf_wf pb \<and> buf_rest pb = pl
    \<and> ses_readbuf r' = None \<and> ses_recvseq r' = ses_recvseq r + 1 \<and> ses_recv r' = (ses_recv r)\<lparr>dk_cipher_state := c'\<rparr>"
proof -
  define mac where "mac = mac_of e (ses_recvseq r) (ses_recv r) clear"
  have ms: "unat (hash_hashsize (dk_algo_mac (ses_recv r))) = unat (recv_macsize r)" by (simp add: recv_macsize_def)
  have lm: "length mac = unat (recv_macsize r)" using m length_mac_of [of "ses_recv r"] by (simp add: mac_def ms)
  define n where "n = 1 + length pl + unat pad"
  have lc: "length clear = n + 4" using clear by (simp add: length_packet_clear n_def)
  have cne: "clear \<noteq> []" using lc by auto
  have fb: "b \<le> length clear" "take b (ct @ mac) = take b ct" using first_block(1) [where b = b and clear = clear and ct = ct] first_block(2) [where b = b and clear = clear and ct = ct and m = mac] b clear(3) ct cne by auto
  have l32: "load32h (take b clear) = of_nat n"
  proof -
    obtain t where "take b clear = store32h (of_nat n) @ t"
      using b(2) by (simp add: clear(1) packet_clear_def n_def take_append)
    then show ?thesis by simp
  qed
  have nb: "n + 4 + unat (recv_macsize r) \<le> 35000" using pl(2) unat_u8_lt [of pad] m by (simp add: n_def MAX_MAC_LEN_def)
  have rd1: "e_read e (ses_tick r) (ses_sock_in r) b = RdData (take b ct)" and nr: "ses_readbuf r = None" and nc: "\<not> is_compress_recv r"
    using cr fb(2) by (auto simp: can_receive_def mac_def)
  obtain rb where rb: "read_packet_init e r = Inr (True, set_recv ((tick r)\<lparr>ses_readbuf := Some rb\<rparr>)
        ((ses_recv r)\<lparr>dk_cipher_state := c1\<rparr>))" "buf_wf rb" "unat (buf_len rb) = length clear + length mac" "unat (buf_pos rb) = b"
        "take b (buf_content rb) = take b clear"
    using read_packet_init_ok [OF b nr rd1 _ na d1 _ l32 nb] fb(1) ct clear(3) lc lm by auto
  define r1 where "r1 = set_recv ((tick r)\<lparr>ses_readbuf := Some rb\<rparr>) ((ses_recv r)\<lparr>dk_cipher_state := c1\<rparr>)"
  have r1: "ses_readbuf r1 = Some rb" "ses_tick r1 = Suc (ses_tick r)" "ses_sock_in r1 = ses_sock_in r" "ses_recvseq r1 = ses_recvseq r"
    "ses_recv r1 = (ses_recv r)\<lparr>dk_cipher_state := c1\<rparr>" "ses_authstate r1 = ses_authstate r"
    by (simp_all add: r1_def set_recv_def tick_def)
  obtain r2 rb2 where r2: "read_packet e r = decrypt_packet e r2" "ses_readbuf r2 = Some rb2" "buf_wf rb2"
     "buf_content rb2 = take b clear @ drop b ct @ mac" "ses_recv r2 = ses_recv r1" "ses_recvseq r2 = ses_recvseq r"
     "ses_authstate r2 = ses_authstate r"
    using read_packet_complete [OF nr rb(1) [folded r1_def] r1(1) rb(2), of b "drop b ct @ mac"] rb(3-5) r1 cr fb ct
    by (auto simp: can_receive_def mac_def [symmetric])
  define r3 where "r3 = r2\<lparr>ses_kexstate := (ses_kexstate r2)\<lparr>kex_datarecv := kex_datarecv (ses_kexstate r2) + buf_len rb2\<rparr>\<rparr>"
  have r3: "ses_recv r3 = (ses_recv r)\<lparr>dk_cipher_state := c1\<rparr>" "ses_recvseq r3 = ses_recvseq r"
     "recv_macsize r3 = recv_macsize r" "recv_blocksize r3 = recv_blocksize r" "\<not> is_compress_recv r3"
    using r2 r1 nc by (simp_all add: r3_def recv_macsize_def recv_blocksize_def is_compress_recv_def)
  have mac3: "mac = mac_of e (ses_recvseq r3) (ses_recv r3) clear" using r3 by (simp add: mac_def mac_of_def hmac_of_def)
  obtain rb3 where rb3: "decrypt_body e r3 rb2 = Inr (rb3, c')" "buf_wf rb3" "buf_content rb3 = clear @ mac"
    using decrypt_body_ok [OF r2(3,4) ct _ fb(1), where r = r3 and c' = c' and e = e] r3 b(1) na d2 mac3 m h by auto
  obtain pb where pb: "unpack_payload e r3 rb3 = Inr (pb, 5, dk_zstream (ses_recv r3))" "buf_wf pb" "buf_rest pb = pl"
    using unpack_payload_ok [OF rb3(2), where pl = pl and pad = pad and rnd = rnd and mac = mac and r = r3 and e = e] rb3(3) clear lm r3 pl by auto
  have "decrypt_packet e r2 = Inr (set_recv (r3\<lparr>ses_payload := Some pb, ses_payload_beginning := 5,
       ses_readbuf := None, ses_recvseq := ses_recvseq r3 + 1\<rparr>) ((ses_recv r3)\<lparr>dk_cipher_state := c', dk_zstream := dk_zstream (ses_recv r3)\<rparr>))"
    using r2(2) rb3(1) pb(1) by (simp add: decrypt_packet_def r3_def Let_def)
  then show ?thesis using r2(1) pb r3(1,2) by (auto simp: set_recv_def)
qed



end
