(* ===== verification/Packet_Safe.thy ===== *)
theory Packet_Safe
  imports Packet_Recv
begin

text \<open>
  Whatever a peer sends, the receiving half of \<^verbatim>\<open>packet.c\<close> stays within its buffers: the outcome
  of \<^verbatim>\<open>read_packet\<close> on any bytes, in any pieces, is a well-formed state or a clean exit.
\<close>

section \<open>What the code relies on\<close>

text \<open>
  A cipher mode writes as many bytes as it is given to decrypt; an AEAD mode writes the payload
  without the tag.
\<close>

definition mode_sane :: "'c dropbear_cipher_mode \<Rightarrow> bool" where
  "mode_sane m \<longleftrightarrow> (\<forall>bs c out c'. mode_decrypt m bs c = Some (out, c') \<longrightarrow> length out = length bs)
     \<and> (\<forall>f q inp n t c out c'. aead_crypt m = Some f \<longrightarrow> f q inp n t c False = Some (out, c') \<longrightarrow> length out = n)"

lemma mode_sane_dec: "mode_sane m \<Longrightarrow> mode_decrypt m bs c = Some (out, c') \<Longrightarrow> length out = length bs"
  by (auto simp: mode_sane_def)

lemma mode_sane_aead: "mode_sane m \<Longrightarrow> aead_crypt m = Some f \<Longrightarrow> f q inp n t c False = Some (out, c') \<Longrightarrow> length out = n"
  unfolding mode_sane_def by blast

text \<open>
  The read buffer holds part of a first block, or a packet of checked size.
\<close>

definition readbuf_ok :: "u32 \<Rightarrow> buffer \<Rightarrow> bool" where
  "readbuf_ok blocksize rb \<longleftrightarrow> buf_wf rb
     \<and> (if buf_len rb < blocksize then buf_size rb = INIT_READBUF \<and> buf_pos rb = buf_len rb
        else unat (buf_len rb) \<le> 35000)"

definition recv_ok :: "('c, 'z) session \<Rightarrow> bool" where
  "recv_ok s \<longleftrightarrow> 4 \<le> unat (recv_blocksize s) \<and> unat (recv_blocksize s) \<le> 128 \<and> unat (recv_macsize s) \<le> MAX_MAC_LEN
     \<and> mode_sane (dk_crypt_mode (ses_recv s)) \<and> (is_compress_recv s \<longrightarrow> dk_zstream (ses_recv s) \<noteq> None)
     \<and> (case ses_readbuf s of None \<Rightarrow> True | Some rb \<Rightarrow> readbuf_ok (recv_blocksize s) rb)
     \<and> (case ses_payload s of None \<Rightarrow> True | Some pb \<Rightarrow> buf_wf pb \<and> unat (buf_len pb) \<le> 35000)"

lemma env_ok_read: "env_ok e \<Longrightarrow> e_read e t fd n = RdData bs \<Longrightarrow> length bs \<le> n"
  by (simp add: env_ok_def)

lemma env_ok_inflate: "env_ok e \<Longrightarrow> e_inflate e z inp n = ZResult ok out l z' \<Longrightarrow> length out \<le> n"
  unfolding env_ok_def by blast

section \<open>Decrypting\<close>

lemma runs_make_mac: "buf_wf b \<Longrightarrow> runs (\<lambda>(m, b'). same_buf b b' \<and> length m = MAX_MAC_LEN) (make_mac e q k b n)"
  unfolding make_mac_def
  apply (rule runs_if)
   apply (rule runs_rbind [OF runs_setpos], assumption)
   apply (rule runs_rbind [OF runs_getptr], simp)
   apply (rule runs_rbind [OF runs_mem_read], use buf_wf_bounds [of b] in simp)
  by (auto simp: same_buf_def split: option.splits)

lemma runs_checkmac:
  assumes "buf_wf rb" "unat (recv_macsize s) \<le> MAX_MAC_LEN"
  shows "runs (\<lambda>(ok, b'). same_buf rb b') (checkmac e s rb)"
  unfolding checkmac_def Let_def
  apply (rule runs_rbind [OF runs_setpos [OF assms(1)]])
  apply (rule runs_rbind [OF runs_make_mac], simp)
  apply clarsimp
  apply (rule runs_rbind [OF runs_setpos], simp add: same_buf_def)
  apply (rule runs_rbind [OF runs_getptr], simp)
  apply (rule runs_rbind [OF runs_mem_read])
   apply (clarsimp simp: same_buf_def) using buf_wf_bounds(1,3) apply fastforce
  using assms(2) by (auto simp: same_buf_def)

text \<open>Writing decrypted bytes in place.\<close>

lemma runs_overwrite: "p + length bs \<le> length d \<Longrightarrow> runs (\<lambda>x. length x = length d) (mem_write d p bs)"
  by simp

lemma buf_wf_over: "buf_wf b \<Longrightarrow> length d = unat (buf_size b) \<Longrightarrow> buf_wf (b\<lparr>buf_data := d\<rparr>)"
  by (simp add: buf_wf_def)

lemma runs_decrypt_body:
  assumes w: "buf_wf rb" and m: "unat (recv_macsize s) \<le> MAX_MAC_LEN" and sane: "mode_sane (dk_crypt_mode (ses_recv s))"
  shows "runs (\<lambda>(rb', c). buf_wf rb' \<and> buf_len rb' = buf_len rb) (decrypt_body e s rb)"
proof (cases "aead_crypt (dk_crypt_mode (ses_recv s))")
  case None
  show ?thesis
    unfolding decrypt_body_def Let_def None option.case
    apply (rule runs_rbind [OF runs_setpos [OF w]])
    apply (rule runs_rbind [OF runs_getptr], simp)
    apply (rule runs_rbind [OF runs_mem_read], use buf_wf_bounds [OF w] in simp)
    apply (rule runs_rbind [OF runs_getwriteptr], simp)
    apply (clarsimp split: option.splits)
    apply (rule runs_rbind [OF runs_overwrite])
    subgoal using buf_wf_bounds(1) [OF w] by (auto dest!: mode_sane_dec [OF sane])
    apply (rule runs_rbind [OF runs_incrpos], rule buf_wf_over, assumption, use buf_wf_bounds(1) [OF w] in simp)
    apply (rule runs_rbind [OF runs_checkmac], simp, rule m)
    by (auto simp: same_buf_def)
next
  case (Some f)
  show ?thesis
    unfolding decrypt_body_def Let_def Some option.case
    apply (rule runs_rbind [OF runs_setpos [OF w]])
    apply (rule runs_rbind [OF runs_getptr], simp)
    apply (rule runs_rbind [OF runs_mem_read], use buf_wf_bounds [OF w] in simp)
    apply (rule runs_rbind [OF runs_getwriteptr], simp)
    apply (clarsimp split: option.splits)
    apply (rule runs_rbind [OF runs_overwrite])
    subgoal using buf_wf_bounds(1) [OF w] by (auto dest!: mode_sane_aead [OF sane Some])
    apply (rule runs_rbind [OF runs_incrpos], rule buf_wf_over, assumption, use buf_wf_bounds(1) [OF w] in simp)
    by auto
qed

section \<open>Unpacking\<close>

lemma runs_buf_decompress:
  assumes "buf_wf b" "env_ok e" "z \<noteq> None"
  shows "runs (\<lambda>(b', z'). buf_wf b' \<and> unat (buf_len b') \<le> 32768 \<and> z' \<noteq> None) (buf_decompress e z b n)"
proof -
  obtain z0 where z0: "z = Some z0" using assms(3) by blast
  show ?thesis
    unfolding buf_decompress_def z0 option.case Let_def
    apply (rule runs_rbind [OF runs_new])
    apply (rule runs_rbind [OF runs_getptr [OF assms(1)]])
    apply (rule runs_rbind [OF runs_mem_read], use buf_wf_bounds [OF assms(1)] in simp)
    apply (clarsimp simp: Let_def split: zresult.splits)
    apply (rule runs_rbind [OF runs_overwrite])
    subgoal by (drule env_ok_inflate [OF assms(2)], simp add: buf_wf_bounds(1))
    apply (rule runs_if, simp)
    apply (rule runs_rbind [OF runs_setlen], rule buf_wf_over, assumption, simp add: buf_wf_bounds(1))
    by (auto simp: RECV_MAX_PAYLOAD_LEN_def wnat)
qed

lemma payload_end: "x \<le> RECV_MAX_PAYLOAD_LEN + ZLIB_COMPRESS_EXPANSION \<Longrightarrow> unat (PACKET_PAYLOAD_OFF + x) \<le> 35000"
  by (simp add: RECV_MAX_PAYLOAD_LEN_def ZLIB_COMPRESS_EXPANSION_def PACKET_PAYLOAD_OFF_def wnat unat_add32)

lemma runs_unpack_payload:
  assumes w: "buf_wf rb" and e: "env_ok e" and z: "is_compress_recv s \<Longrightarrow> dk_zstream (ses_recv s) \<noteq> None"
    and l: "unat (buf_len rb) \<le> 35000"
  shows "runs (\<lambda>(pb, beg, z'). buf_wf pb \<and> unat (buf_len pb) \<le> 35000 \<and> (is_compress_recv s \<longrightarrow> z' \<noteq> None)) (unpack_payload e s rb)"
  unfolding unpack_payload_def Let_def
  apply (rule runs_rbind [OF runs_setpos [OF w]])
  apply (rule runs_rbind [OF runs_getbyte], simp)
  apply clarsimp
  apply (rule runs_rbind [OF runs_setpos], simp add: same_buf_def)
  apply (rule runs_if)
   apply (rule runs_rbind [OF runs_buf_decompress], simp, rule e, simp add: z)
   apply clarsimp
   apply (rule runs_rbind [OF runs_setpos], assumption, simp)
  apply (rule runs_rbind [OF runs_setlen], simp)
  by (clarsimp simp: payload_end not_less)

section \<open>Reading\<close>

text \<open>The parts of \<open>recv_ok\<close> that do not depend on the read buffer.\<close>

lemma recv_ok_fields:
  assumes "recv_ok s"
  shows "4 \<le> unat (recv_blocksize s)" "unat (recv_blocksize s) \<le> 128" "unat (recv_macsize s) \<le> MAX_MAC_LEN"
    "mode_sane (dk_crypt_mode (ses_recv s))" "is_compress_recv s \<Longrightarrow> dk_zstream (ses_recv s) \<noteq> None"
  using assms by (auto simp: recv_ok_def)

lemma recv_ok_upd:
  assumes "recv_ok s" "readbuf_ok (recv_blocksize s) rb"
  shows "recv_ok (s\<lparr>ses_readbuf := Some rb\<rparr>)"
  using assms by (simp add: recv_ok_def recv_blocksize_def recv_macsize_def is_compress_recv_def)

lemma recv_ok_read:
  assumes "recv_ok s" "readbuf_ok (recv_blocksize s) rb'"
  shows "recv_ok ((tick (s\<lparr>ses_readbuf := Some rb\<rparr>))\<lparr>ses_readbuf := Some rb'\<rparr>)"
  using assms by (simp add: recv_ok_def recv_blocksize_def recv_macsize_def is_compress_recv_def tick_def)

lemma recv_ok_tick [simp]: "recv_ok (tick s) \<longleftrightarrow> recv_ok s"
  by (simp add: recv_ok_def recv_blocksize_def recv_macsize_def is_compress_recv_def tick_def cong: option.case_cong)

lemma recv_ok_cipher [simp]: "recv_ok (set_recv s ((ses_recv s)\<lparr>dk_cipher_state := c\<rparr>)) \<longleftrightarrow> recv_ok s"
  by (simp add: recv_ok_def recv_blocksize_def recv_macsize_def is_compress_recv_def set_recv_def cong: option.case_cong)

lemma recv_ok_decrypted:
  assumes "recv_ok s" "buf_wf pb" "unat (buf_len pb) \<le> 35000" "is_compress_recv s \<longrightarrow> z \<noteq> None"
  shows "recv_ok (set_recv (s\<lparr>ses_kexstate := k, ses_payload := Some pb, ses_payload_beginning := beg,
       ses_readbuf := None, ses_recvseq := q\<rparr>) ((ses_recv s)\<lparr>dk_cipher_state := c, dk_zstream := z\<rparr>))"
  using assms by (simp add: recv_ok_def recv_blocksize_def recv_macsize_def is_compress_recv_def set_recv_def)

lemma runs_decrypt_packet:
  assumes s: "recv_ok s" and e: "env_ok e" and rb: "ses_readbuf s = Some rb" "buf_wf rb" "unat (buf_len rb) \<le> 35000"
  shows "runs recv_ok (decrypt_packet e s)"
proof -
  define s1 where "s1 = s\<lparr>ses_kexstate := (ses_kexstate s)\<lparr>kex_datarecv := kex_datarecv (ses_kexstate s) + buf_len rb\<rparr>\<rparr>"
  have s1: "recv_macsize s1 = recv_macsize s" "is_compress_recv s1 = is_compress_recv s" "ses_recv s1 = ses_recv s"
    by (simp_all add: s1_def recv_macsize_def is_compress_recv_def)
  note f = recv_ok_fields [OF s]
  show ?thesis
    unfolding decrypt_packet_def rb(1) option.case s1_def [symmetric] Let_def
    apply (rule runs_rbind [OF runs_decrypt_body [OF rb(2)]])
    using f(3) s1 apply simp
    using f(4) s1 apply simp
    apply clarsimp
    apply (rule runs_rbind [OF runs_unpack_payload [OF _ e]])
       apply assumption
    using f(5) s1 apply simp
    using rb(3) apply simp
    using s1 s apply clarsimp
    apply (simp add: s1_def)
    by (intro recv_ok_decrypted) simp_all
qed

lemma runs_read_length:
  assumes w: "buf_wf rb" and sane: "mode_sane (dk_crypt_mode (ses_recv s))"
  shows "runs (\<lambda>(plen, len, rb', c). buf_wf rb' \<and> buf_len rb' = buf_len rb \<and> buf_size rb' = buf_size rb) (read_length s rb)"
  unfolding read_length_def Let_def
  apply (rule runs_rbind [OF runs_getptr [OF w]])
  apply (rule runs_rbind [OF runs_mem_read], use buf_wf_bounds [OF w] in simp)
  apply (rule runs_if)
  subgoal using w by (auto split: option.splits)
  apply (rule runs_rbind [OF runs_getwriteptr [OF w]])
  apply (clarsimp split: option.splits)
  apply (rule runs_rbind [OF runs_overwrite])
  subgoal using buf_wf_bounds [OF w] by (auto dest!: mode_sane_dec [OF sane])
  apply (rule runs_rbind [OF runs_getint], rule buf_wf_over [OF w], use buf_wf_bounds [OF w] in simp)
  by (auto simp: same_buf_def)

text \<open>After the size check, the packet fits the limit and holds a first block.\<close>

lemma packet_size_check_ok:
  "packet_size_check b p l = Inr u \<Longrightarrow> unat l \<le> 35000 \<and> unat b \<le> unat p"
  by (auto simp: packet_size_check_def RECV_MAX_PACKET_LEN_def wnat not_less split: if_splits)

lemma runs_size_check: "b \<noteq> 0 \<Longrightarrow> runs (\<lambda>_. unat l \<le> 35000) (packet_size_check b p l)"
  by (auto simp: packet_size_check_def umod_def RECV_MAX_PACKET_LEN_def wnat not_less)

text \<open>The end of \<^verbatim>\<open>read_packet_init\<close>, from a complete first block.\<close>

lemma runs_read_header:
  assumes s: "recv_ok s" and w: "buf_wf rb"
  shows "runs (\<lambda>(ok, s'). recv_ok s' \<and> (\<exists>rb'. ses_readbuf s' = Some rb' \<and> buf_wf rb' \<and> unat (buf_len rb') \<le> 35000
        \<and> unat (recv_blocksize s) \<le> unat (buf_len rb') \<and> recv_blocksize s' = recv_blocksize s))
     (rbind (buf_setpos rb 0) (\<lambda>rb.
      rbind (read_length s rb) (\<lambda>(plen, len, rb, c).
      rbind (packet_size_check (recv_blocksize s) plen len) (\<lambda>_.
      rbind (if len > buf_size rb then buf_resize (e_uninit e) rb len else Inr rb) (\<lambda>rb.
      rbind (buf_setlen rb len) (\<lambda>rb.
      rbind (buf_setpos rb (recv_blocksize s)) (\<lambda>rb.
      Inr (True, set_recv (s\<lparr>ses_readbuf := Some rb\<rparr>) ((ses_recv s)\<lparr>dk_cipher_state := c\<rparr>)))))))))"
proof -
  note f = recv_ok_fields [OF s]
  have b0: "recv_blocksize s \<noteq> 0" using f(1) by auto
  have ok: "recv_ok (set_recv (s\<lparr>ses_readbuf := Some rb\<rparr>) ((ses_recv s)\<lparr>dk_cipher_state := c\<rparr>))"
     "recv_blocksize (set_recv (s\<lparr>ses_readbuf := Some rb\<rparr>) ((ses_recv s)\<lparr>dk_cipher_state := c\<rparr>)) = recv_blocksize s"
    if "buf_wf rb" "unat (buf_len rb) \<le> 35000" "unat (recv_blocksize s) \<le> unat (buf_len rb)" for rb c
    using recv_ok_cipher [of "s\<lparr>ses_readbuf := Some rb\<rparr>" c] recv_ok_upd [OF s, of rb] that
    by (simp_all add: readbuf_ok_def wnat recv_blocksize_def set_recv_def)
  show ?thesis
    apply (rule runs_rbind [OF runs_setpos [OF w]])
    apply (rule runs_rbind [OF runs_read_length], simp, rule f(4))
    apply (clarsimp split del: if_split)
    apply (rule runs_rbind [OF runs_size_check [OF b0]])
    apply (rule runs_rbind [where Q = buf_wf])
     apply (rule runs_if, rule runs_weaken [OF runs_resize], assumption, simp, simp)
    apply (rule runs_rbind [OF runs_setlen], assumption)
    apply (rule runs_rbind [OF runs_setpos], simp)
    using ok by (auto simp: set_recv_def)
qed

text \<open>Outcome of \<^verbatim>\<open>read_packet_init\<close>: more of the first block is awaited, or the packet's size is known.\<close>

definition init_post :: "('c, 'z) session \<Rightarrow> bool \<times> ('c, 'z) session \<Rightarrow> bool" where
  "init_post s r \<longleftrightarrow> recv_ok (snd r) \<and> (fst r \<longrightarrow> (\<exists>rb'. ses_readbuf (snd r) = Some rb' \<and> buf_wf rb'
     \<and> unat (buf_len rb') \<le> 35000 \<and> unat (recv_blocksize s) \<le> unat (buf_len rb') \<and> recv_blocksize (snd r) = recv_blocksize s))"

lemma runs_read_packet_init:
  assumes s: "recv_ok s" and e: "env_ok e"
    and first: "\<And>rb. ses_readbuf s = Some rb \<Longrightarrow> buf_len rb < recv_blocksize s"
  shows "runs (init_post s) (read_packet_init e s)"
proof -
  note f = recv_ok_fields [OF s]
  have start: "runs (\<lambda>rb. buf_wf rb \<and> buf_pos rb = buf_len rb \<and> buf_size rb = INIT_READBUF \<and> buf_len rb < recv_blocksize s)
     (case ses_readbuf s of None \<Rightarrow> buf_new INIT_READBUF | Some rb \<Rightarrow> Inr rb)"
  proof (cases "ses_readbuf s")
    case None
    then show ?thesis using f(1) by (auto intro!: runs_weaken [OF runs_new] simp: wnat)
  next
    case (Some rb)
    then show ?thesis using s first [OF Some] by (simp add: recv_ok_def readbuf_ok_def)
  qed
  have "runs (init_post s) (case e_read e (ses_tick s) (ses_sock_in s) (unat (recv_blocksize s - buf_pos rb)) of
        RdErr err \<Rightarrow> if err = EINTR \<or> err = EAGAIN then Inr (False, tick (s\<lparr>ses_readbuf := Some rb\<rparr>))
                     else Inl (Exit ''Error reading: %s'')
      | RdData bs \<Rightarrow>
          if bs = [] then svr_remoteclosed
          else rbind (mem_write (buf_data rb) (unat (buf_pos rb)) bs) (\<lambda>d.
            rbind (buf_incrwritepos (rb\<lparr>buf_data := d\<rparr>) (of_nat (length bs))) (\<lambda>rb'.
            if of_nat (length bs) \<noteq> recv_blocksize s - buf_pos rb then Inr (False, (tick (s\<lparr>ses_readbuf := Some rb\<rparr>))\<lparr>ses_readbuf := Some rb'\<rparr>)
            else g rb')))"
    if rb: "buf_wf rb" "buf_pos rb = buf_len rb" "buf_size rb = INIT_READBUF" "buf_len rb < recv_blocksize s"
      and le: "unat (buf_pos rb) + unat (recv_blocksize s - buf_pos rb) \<le> unat (buf_size rb)"
      and g: "\<And>rb'. buf_wf rb' \<Longrightarrow> unat (buf_len rb') = unat (recv_blocksize s) \<Longrightarrow> runs (init_post s) (g rb')" for rb g
  proof (cases "e_read e (ses_tick s) (ses_sock_in s) (unat (recv_blocksize s - buf_pos rb))")
    case (RdErr err)
    have "recv_ok (tick (s\<lparr>ses_readbuf := Some rb\<rparr>))" using s rb by (simp add: recv_ok_upd readbuf_ok_def)
    then show ?thesis unfolding RdErr by (simp add: init_post_def)
  next
    case (RdData bs)
    have lb: "length bs \<le> unat (recv_blocksize s - buf_pos rb)" using env_ok_read [OF e RdData] .
    have ml: "unat (recv_blocksize s - buf_pos rb) = unat (recv_blocksize s) - unat (buf_len rb)"
      using rb(2,4) by (simp add: unat_sub32 wnat)
    have lt: "length bs < 200" using lb ml f(2) by simp
    have part: "recv_ok ((tick (s\<lparr>ses_readbuf := Some rb\<rparr>))\<lparr>ses_readbuf := Some rb'\<rparr>)"
      if "buf_wf rb'" "buf_size rb' = buf_size rb" "unat (buf_pos rb') = unat (buf_pos rb) + length bs"
        "unat (buf_len rb') = max (unat (buf_pos rb')) (unat (buf_len rb))"
        "of_nat (length bs) \<noteq> recv_blocksize s - buf_pos rb" for rb'
    proof -
      have "length bs < unat (recv_blocksize s - buf_pos rb)" using lb that(5) by (metis le_neq_implies_less of_nat_unat ucast_id)
      then have "unat (buf_len rb) + length bs < unat (recv_blocksize s)" using ml by simp
      then have "buf_len rb' < recv_blocksize s" "buf_pos rb' = buf_len rb'"
        using that(3,4) rb(2) by (simp_all add: wnat word_unat_eq_iff)
      then show ?thesis using s that(1,2) rb(3) by (simp add: recv_ok_read readbuf_ok_def)
    qed
    show ?thesis
      unfolding RdData rd_result.case
      apply (rule runs_if, simp add: svr_remoteclosed_def)
      apply (rule runs_rbind [OF runs_overwrite])
      subgoal using lb le buf_wf_bounds(1) [OF rb(1)] by simp
      apply (rule runs_rbind [OF runs_incrwritepos], rule buf_wf_over [OF rb(1)], use buf_wf_bounds [OF rb(1)] in simp)
      apply (rule runs_if)
      subgoal using part lt by (simp add: init_post_def)
      subgoal for d rb'
      proof -
        assume a: "buf_wf rb' \<and> buf_data rb' = buf_data (rb\<lparr>buf_data := d\<rparr>) \<and> buf_size rb' = buf_size (rb\<lparr>buf_data := d\<rparr>)
          \<and> unat (buf_pos rb') = unat (buf_pos (rb\<lparr>buf_data := d\<rparr>)) + unat (of_nat (length bs) :: u32)
          \<and> unat (buf_len rb') = max (unat (buf_pos rb')) (unat (buf_len (rb\<lparr>buf_data := d\<rparr>)))
          \<and> unat (buf_pos rb') \<le> unat (buf_size (rb\<lparr>buf_data := d\<rparr>))"
          and n: "\<not> of_nat (length bs) \<noteq> recv_blocksize s - buf_pos rb"
        have "unat (buf_len rb') = unat (recv_blocksize s)" using a n ml rb(2,4) by (simp add: wnat)
        then show ?thesis using g a by blast
      qed
      done
  qed
  note rest = this
  have hdr: "runs (init_post s) (rbind (buf_setpos rb' 0) (\<lambda>rb.
      rbind (read_length s1 rb) (\<lambda>(plen, len, rb, c).
      rbind (packet_size_check (recv_blocksize s) plen len) (\<lambda>_.
      rbind (if len > buf_size rb then buf_resize (e_uninit e) rb len else Inr rb) (\<lambda>rb.
      rbind (buf_setlen rb len) (\<lambda>rb.
      rbind (buf_setpos rb (recv_blocksize s)) (\<lambda>rb.
      Inr (True, set_recv (s1\<lparr>ses_readbuf := Some rb\<rparr>) ((ses_recv s1)\<lparr>dk_cipher_state := c\<rparr>)))))))))"
    if "buf_wf rb'" "unat (buf_len rb') = unat (recv_blocksize s)" "s1 = (tick (s\<lparr>ses_readbuf := Some rb\<rparr>))\<lparr>ses_readbuf := Some rb'\<rparr>" for rb rb' s1
  proof -
    have s1: "recv_ok s1" using s that(1,2) f(2) unfolding that(3) by (simp add: recv_ok_read readbuf_ok_def wnat)
    have b: "recv_blocksize s1 = recv_blocksize s" using that(3) by (simp add: tick_def recv_blocksize_def)
    show ?thesis using runs_weaken [OF runs_read_header [OF s1 that(1), where e = e], of "init_post s", unfolded b]
      by (auto simp: init_post_def)
  qed
  show ?thesis
    unfolding read_packet_init_def Let_def
    apply (rule runs_rbind [OF start])
    apply (rule runs_rbind [OF runs_getwriteptr], simp)
    apply clarify
    apply (rule rest, assumption+)
    by (rule hdr) simp_all
qed

text \<open>The rest of a packet whose size is known.\<close>

lemma runs_read_rest:
  assumes s: "recv_ok s" and e: "env_ok e" and rb: "ses_readbuf s = Some rb" "buf_wf rb" "unat (buf_len rb) \<le> 35000"
    and b: "unat (recv_blocksize s) \<le> unat (buf_len rb)"
  shows "runs recv_ok
         (if buf_len rb - buf_pos rb = 0 then decrypt_packet e s
          else
            rbind (buf_getptr rb (buf_len rb - buf_pos rb)) (\<lambda>p.
            case e_read e (ses_tick s) (ses_sock_in s) (unat (buf_len rb - buf_pos rb)) of
              RdErr err \<Rightarrow> if err = EINTR \<or> err = EAGAIN then Inr (tick s) else Inl (Exit ''Error reading: %s'')
            | RdData bs \<Rightarrow>
                if bs = [] then svr_remoteclosed
                else
                  rbind (mem_write (buf_data rb) p bs) (\<lambda>d.
                  rbind (buf_incrpos (rb\<lparr>buf_data := d\<rparr>) (of_nat (length bs))) (\<lambda>rb'.
                  if of_nat (length bs) = buf_len rb - buf_pos rb then decrypt_packet e ((tick s)\<lparr>ses_readbuf := Some rb'\<rparr>)
                  else Inr ((tick s)\<lparr>ses_readbuf := Some rb'\<rparr>)))))"
  (is "runs _ (if ?c then ?x else rbind _ ?y)")
proof (rule runs_if)
  show "runs recv_ok ?x" by (rule runs_decrypt_packet [OF s e rb])
  note bd = buf_wf_bounds [OF rb(2)]
  show "runs recv_ok (rbind (buf_getptr rb (buf_len rb - buf_pos rb)) ?y)"
  proof (rule runs_rbind [OF runs_getptr [OF rb(2)]], elim conjE, hypsubst)
    fix p assume le: "unat (buf_pos rb) + unat (buf_len rb - buf_pos rb) \<le> unat (buf_len rb)"
    show "runs recv_ok (?y (unat (buf_pos rb)))"
    proof (cases "e_read e (ses_tick s) (ses_sock_in s) (unat (buf_len rb - buf_pos rb))")
      case (RdErr err)
      then show ?thesis using s by simp
    next
      case (RdData bs)
      note lb = env_ok_read [OF e RdData]
      have ok: "recv_ok ((tick s)\<lparr>ses_readbuf := Some rb'\<rparr>)" if "buf_wf rb'" "buf_len rb' = buf_len rb" for rb'
      proof (rule recv_ok_upd)
        show "recv_ok (tick s)" using s by simp
        show "readbuf_ok (recv_blocksize (tick s)) rb'"
          using that rb(3) b by (simp add: readbuf_ok_def wnat recv_blocksize_def tick_def)
      qed
      show ?thesis
        unfolding RdData rd_result.case
        apply (rule runs_if, simp add: svr_remoteclosed_def)
        apply (rule runs_rbind [OF runs_overwrite], use lb le bd in simp)
        apply (rule runs_rbind [OF runs_incrpos], rule buf_wf_over [OF rb(2)], use bd in simp)
        apply (rule runs_if)
         apply (rule runs_decrypt_packet [OF _ e])
            apply (rule ok; simp)
           apply (rule refl | simp)+
        using rb(3) ok by simp_all
    qed
  qed
qed

text \<open>
  C7. Whatever the peer sends, in whatever pieces, \<^verbatim>\<open>read_packet\<close> accesses no memory outside its
  buffers and fails no assertion: it ends the session cleanly or leaves a state from which it can
  be called again, with a read buffer of at most \<^verbatim>\<open>RECV_MAX_PACKET_LEN\<close> bytes. In particular the
  length arithmetic on attacker-chosen lengths, which may wrap around, is caught by the checks of
  the buffer operations.
\<close>

theorem read_packet_safe:
  assumes s: "recv_ok s" and e: "env_ok e"
  shows "(\<exists>msg. read_packet e s = Inl (Exit msg) \<or> read_packet e s = Inl (Close msg)) \<or>
    (\<exists>s'. read_packet e s = Inr s' \<and> recv_ok s')"
proof -
  have whole: "runs (init_post s) (case ses_readbuf s of
               None \<Rightarrow> read_packet_init e s
             | Some rb \<Rightarrow> if buf_len rb < recv_blocksize s then read_packet_init e s else Inr (True, s))"
  proof (cases "ses_readbuf s")
    case None
    then show ?thesis using runs_read_packet_init [OF s e] by simp
  next
    case (Some rb)
    then show ?thesis using runs_read_packet_init [OF s e] s
      by (auto simp: init_post_def recv_ok_def readbuf_ok_def wnat)
  qed
  have "runs recv_ok (read_packet e s)"
    unfolding read_packet_def Let_def
    apply (rule runs_rbind [OF whole])
    apply (clarsimp simp: init_post_def split del: if_split)
    apply (rule runs_if, simp)
    apply (clarsimp simp del: right_minus_eq eq_iff_diff_eq_0 split del: if_split)
    by (rule runs_read_rest [OF _ e]) simp_all
  then show ?thesis unfolding runs_iff by blast
qed

theorem read_packet_safe_witness:
  "recv_ok fresh_session \<and> (\<exists>s'. read_packet null_env fresh_session = Inr s' \<and> recv_ok s')"
proof -
  have ok: "recv_ok fresh_session"
    by (simp add: recv_ok_def recv_blocksize_def recv_macsize_def none_keys_def dropbear_nocipher_def dropbear_nohash_def
        mode_sane_def dropbear_mode_none_def void_cipher_def is_compress_recv_def)
  have e: "env_ok null_env" by (simp add: env_ok_def null_env_def)
  have "read_packet null_env fresh_session \<noteq> Inl x" for x
    by (simp add: read_packet_def read_packet_init_def recv_blocksize_def none_keys_def dropbear_nocipher_def
        buf_new_def buf_getwriteptr_def buf_consts INIT_READBUF_def null_env_def Let_def)
  with read_packet_safe [OF ok e] ok show ?thesis by blast
qed

section \<open>Authenticity\<close>

lemma runs_make_mac_val:
  assumes w: "buf_wf b" and m: "unat (hash_hashsize (dk_algo_mac k)) \<le> MAX_MAC_LEN"
  shows "runs (\<lambda>(mb, b'). same_buf b b' \<and> length mb = MAX_MAC_LEN \<and> (unat n \<le> unat (buf_len b) \<longrightarrow>
     take (unat (hash_hashsize (dk_algo_mac k))) mb = mac_of e q k (take (unat n) (buf_content b)))) (make_mac e q k b n)"
  unfolding make_mac_def
  apply (rule runs_if)
   apply (rule runs_rbind [OF runs_setpos], rule w)
   apply (rule runs_rbind [OF runs_getptr], simp)
   apply (rule runs_rbind [OF runs_mem_read], use buf_wf_bounds [OF w] in simp)
  using w m by (auto simp: same_buf_def mac_of_def hmac_of_def buf_content_def min_def word_gt_0 split: option.splits)

lemma mac_compare:
  assumes "length mb = MAX_MAC_LEN" "m \<le> MAX_MAC_LEN" "length th = m" "constant_time_memcmp mb th m = 0"
  shows "th = take m mb"
  using assms by (auto intro!: nth_equalityI simp: constant_time_memcmp_eq)

lemma runs_checkmac_val:
  assumes w: "buf_wf rb" and m: "unat (recv_macsize s) \<le> MAX_MAC_LEN" "unat (recv_macsize s) \<le> unat (buf_len rb)"
    and n: "n = unat (buf_len rb) - unat (recv_macsize s)"
  shows "runs (\<lambda>(ok, b'). same_buf rb b' \<and> (ok \<longrightarrow> drop n (buf_content rb) =
     mac_of e (ses_recvseq s) (ses_recv s) (take n (buf_content rb)))) (checkmac e s rb)"
proof -
  have k: "unat (hash_hashsize (dk_algo_mac (ses_recv s))) = unat (recv_macsize s)" by (simp add: recv_macsize_def)
  have un: "unat (buf_len rb - recv_macsize s) = n" using m(2) n by (simp add: unat_sub32 wnat)
  have nl: "n \<le> unat (buf_len rb)" using n by simp
  define w1 where "w1 = buf_len rb - recv_macsize s"
  have tail: "drop n (buf_content rb) = take (unat (recv_macsize s)) (drop n (buf_data rb))"
    using n m(2) by (simp add: buf_content_def drop_take)
  show ?thesis
    unfolding checkmac_def Let_def w1_def [symmetric]
    apply (rule runs_rbind [OF runs_setpos [OF w]])
    apply (rule runs_rbind [OF runs_make_mac_val [where k = "ses_recv s" and n = w1]], simp, use k m(1) in simp)
    apply (clarsimp simp: k)
    apply (rule runs_rbind [OF runs_setpos], simp add: same_buf_def)
    apply (rule runs_rbind [OF runs_getptr], simp)
    apply (rule runs_rbind [OF runs_mem_read])
     apply (clarsimp simp: same_buf_def) using buf_wf_bounds(1,3) apply fastforce
    using m(1) un [folded w1_def] nl tail
    by (auto simp: same_buf_def buf_content_def dest!: mac_compare)
qed

lemma body_length:
  fixes l m b :: u32
  assumes "unat b + unat (l - m - b) \<le> unat l" "unat l \<le> 1000000000" "unat m < 256" "unat b < 256"
  shows "unat b + unat m \<le> unat l" "unat (l - m - b) = unat l - unat m - unat b"
proof -
  have lm: "unat (l - m) = (if unat m \<le> unat l then unat l - unat m else unat l + 4294967296 - unat m)"
    by (simp add: unat_sub_if')
  have lb: "unat (l - m - b) = (if unat b \<le> unat (l - m) then unat (l - m) - unat b else unat (l - m) + 4294967296 - unat b)"
    by (simp add: unat_sub_if' [of "l - m"])
  show "unat b + unat m \<le> unat l" using assms lm lb by (auto split: if_splits)
  show "unat (l - m - b) = unat l - unat m - unat b" using assms lm lb by (auto split: if_splits)
qed

lemma runs_decrypt_body_val:
  fixes s :: "('c, 'z) session"
  assumes w: "buf_wf rb" and na: "aead_crypt (dk_crypt_mode (ses_recv s)) = None"
    and m: "unat (recv_macsize s) \<le> MAX_MAC_LEN" and sane: "mode_sane (dk_crypt_mode (ses_recv s))"
    and b: "b = unat (recv_blocksize s)" and n: "n = unat (buf_len rb) - unat (recv_macsize s)"
  shows "runs (\<lambda>(rb', c). \<exists>out. b \<le> n \<and>
     mode_decrypt (dk_crypt_mode (ses_recv s)) (drop b (take n (buf_content rb))) (dk_cipher_state (ses_recv s)) = Some (out, c) \<and>
     buf_wf rb' \<and> buf_content rb' = take b (buf_content rb) @ out @ drop n (buf_content rb) \<and>
     drop n (buf_content rb) = mac_of e (ses_recvseq s) (ses_recv s) (take b (buf_content rb) @ out)) (decrypt_body e s rb)"
proof -
  note bd = buf_wf_bounds [OF w]
  have u8: "unat (recv_macsize s) < 256" "unat (recv_blocksize s) < 256"
    using unat_u8_lt by (simp_all add: recv_macsize_def recv_blocksize_def)
  define ln where "ln = buf_len rb - recv_macsize s - recv_blocksize s"
  have main: "runs (\<lambda>(rb', c). \<exists>out. b \<le> n \<and>
     mode_decrypt (dk_crypt_mode (ses_recv s)) (drop b (take n (buf_content rb))) (dk_cipher_state (ses_recv s)) = Some (out, c) \<and>
     buf_wf rb' \<and> buf_content rb' = take b (buf_content rb) @ out @ drop n (buf_content rb) \<and>
     drop n (buf_content rb) = mac_of e (ses_recvseq s) (ses_recv s) (take b (buf_content rb) @ out))
     (case mode_decrypt (dk_crypt_mode (ses_recv s)) (take (unat ln) (drop b (buf_data rb))) (dk_cipher_state (ses_recv s)) of
          None \<Rightarrow> Inl (Exit ''Error decrypting'')
        | Some (out, c) \<Rightarrow>
            rbind (mem_write (buf_data rb) b out) (\<lambda>d.
            rbind (buf_incrpos (rb\<lparr>buf_pos := recv_blocksize s, buf_data := d\<rparr>) ln) (\<lambda>rb.
            rbind (checkmac e s rb) (\<lambda>(ok, rb).
            if \<not> ok then Inl (Exit ''Integrity error'') else Inr (rb, c)))))"
    if le: "b + unat ln \<le> unat (buf_len rb)" and w1: "buf_wf (rb\<lparr>buf_pos := recv_blocksize s\<rparr>)"
  proof -
    have bl: "b + unat (recv_macsize s) \<le> unat (buf_len rb)" "unat ln = n - b" "b \<le> n"
      using body_length [of "recv_blocksize s" "buf_len rb" "recv_macsize s"] le bd(6) u8 n by (auto simp: ln_def b)
    have inp: "take (unat ln) (drop b (buf_data rb)) = drop b (take n (buf_content rb))"
      using bl n by (simp add: buf_content_def drop_take min_def)
    show ?thesis
    proof (cases "mode_decrypt (dk_crypt_mode (ses_recv s)) (drop b (take n (buf_content rb))) (dk_cipher_state (ses_recv s))")
      case (Some r)
      obtain out c where r: "r = (out, c)" by (cases r)
      have lo: "length out = n - b" using mode_sane_dec [OF sane Some [unfolded r]] bl n w by simp
      define d where "d = take b (buf_data rb) @ out @ drop n (buf_data rb)"
      have wr: "mem_write (buf_data rb) b out = Inr d" using lo bl n bd by (simp add: d_def)
      have ld: "length d = unat (buf_size rb)" using lo bl n bd by (simp add: d_def)
      define rb1 where "rb1 = rb\<lparr>buf_pos := recv_blocksize s, buf_data := d\<rparr>"
      have w2: "buf_wf rb1" unfolding rb1_def using buf_wf_over [OF w1, of d] ld by simp
      define clear where "clear = take b (buf_content rb) @ out"
      define mac where "mac = drop n (buf_content rb)"
      have "take (unat (buf_len rb)) d = clear @ mac"
        using lo bl n bd by (simp add: d_def clear_def mac_def buf_content_def drop_take min.absorb1 min.absorb2)
      then have c1: "buf_content x = clear @ mac" if "buf_data x = d" "buf_len x = buf_len rb" for x
        using that by (simp add: buf_content_def)
      have tn: "take n (clear @ mac) = clear" "drop n (clear @ mac) = mac"
        using lo bl n w by (simp_all add: clear_def mac_def)
      show ?thesis
        unfolding inp Some r option.case prod.case wr rbind_simps rb1_def [symmetric] mac_def [symmetric]
        apply (rule runs_rbind [OF runs_incrpos [OF w2]])
        apply (rule runs_rbind [OF runs_checkmac_val [where n = n]])
            apply simp
           apply (rule m)
        using bl(1) n apply (simp add: rb1_def)
         apply (simp add: rb1_def n)
        apply (clarsimp simp: same_buf_def)
        using bl(3) by (simp add: rb1_def c1 tn del: take_append drop_append) (simp add: clear_def)
    qed (simp add: inp)
  qed
  show ?thesis
    unfolding decrypt_body_def Let_def na option.case
    apply (rule runs_rbind [OF runs_setpos [OF w]])
    apply (clarsimp simp del: mem_read_ok)
    apply (unfold ln_def [symmetric])
    apply (rule runs_rbind [OF runs_getptr], assumption)
    apply (rule runs_rbind [OF runs_mem_read], use bd in simp)
    apply (rule runs_rbind [OF runs_getwriteptr], assumption)
    apply clarsimp
    using main b by (simp add: ln_def cong: option.case_cong prod.case_cong)
qed



end
