(* ===== verification/Packet_Write.thy ===== *)
theory Packet_Write
  imports Packet
begin

text \<open>
  The writing half of \<^verbatim>\<open>packet.c\<close>: the queue of encrypted packets drains in order and without
  loss, however the socket accepts the bytes, and replies held back during a key exchange leave in
  the order they were made.
\<close>

section \<open>Draining the queue\<close>

definition pending :: "buffer list \<Rightarrow> bytes" where
  "pending q = concat (map buf_rest q)"

definition queue_ok :: "buffer list \<Rightarrow> bool" where
  "queue_ok q \<longleftrightarrow> (\<forall>b \<in> set q. buf_wf b \<and> buf_rest b \<noteq> [])"

lemma queue_ok_simps [simp]: "queue_ok []" "queue_ok (b # q) \<longleftrightarrow> buf_wf b \<and> buf_rest b \<noteq> [] \<and> queue_ok q"
  "queue_ok (q @ q') \<longleftrightarrow> queue_ok q \<and> queue_ok q'"
  by (auto simp: queue_ok_def)

lemma pending_simps [simp]: "pending [] = []" "pending (b # q) = buf_rest b @ pending q"
  "pending (q @ q') = pending q @ pending q'"
  by (auto simp: pending_def)

lemma buf_left:
  assumes "buf_wf b"
  shows "unat (buf_len b - buf_pos b) = length (buf_rest b)" "sint (buf_len b - buf_pos b) = int (length (buf_rest b))"
proof -
  note bd = buf_wf_bounds [OF assms]
  show u: "unat (buf_len b - buf_pos b) = length (buf_rest b)"
    using bd buf_rest_length [OF assms] by (simp add: unat_sub32 wnat)
  have "unat (buf_len b - buf_pos b) < 2 ^ 31" using u bd buf_rest_length [OF assms] by simp
  then have "int (unat (buf_len b - buf_pos b)) < int (2 ^ 31)" by (rule of_nat_less_iff [THEN iffD2])
  then have "uint (buf_len b - buf_pos b) < 2 ^ 31" by (simp add: uint_nat [symmetric])
  then have "sint (buf_len b - buf_pos b) = uint (buf_len b - buf_pos b)"
    by (simp add: sint_uint signed_take_bit_int_eq_self order_trans [OF _ uint_ge_0])
  then have "sint (buf_len b - buf_pos b) = int (unat (buf_len b - buf_pos b))" by (simp only: uint_nat)
  then show "sint (buf_len b - buf_pos b) = int (length (buf_rest b))" using u by simp
qed

lemma packet_queue_to_iovec_ok: "queue_ok q \<Longrightarrow> packet_queue_to_iovec q = Inr (map buf_rest q)"
proof (induction q)
  case (Cons b q)
  then have w: "buf_wf b" and ne: "buf_rest b \<noteq> []" by simp_all
  have g: "buf_getptr b (buf_len b - buf_pos b) = Inr (unat (buf_pos b))"
    by (simp add: buf_getptr_eq [OF w] buf_left(1) [OF w])
  have r: "mem_read (buf_data b) (unat (buf_pos b)) (length (buf_rest b)) = Inr (buf_rest b)"
    using buf_read_eq [OF w, of "length (buf_rest b)"] by simp
  show ?case using Cons ne g r by (simp add: Let_def buf_left [OF w] del: mem_read_ok)
qed simp

lemma packet_queue_consume_ok:
  "queue_ok q \<Longrightarrow> n \<le> length (pending q) \<Longrightarrow>
   \<exists>q'. packet_queue_consume q (int n) = Inr q' \<and> queue_ok q' \<and> pending q' = drop n (pending q)"
proof (induction q arbitrary: n)
  case (Cons b q)
  then have w: "buf_wf b" by simp
  show ?case
  proof (cases "n = 0 \<or> length (buf_rest b) \<le> n")
    case True
    then consider "n = 0" | "0 < n" "length (buf_rest b) \<le> n" by auto
    then show ?thesis
    proof cases
      case 1
      then show ?thesis using Cons by simp
    next
      case 2
      then have "packet_queue_consume (b # q) (int n) = packet_queue_consume q (int (n - length (buf_rest b)))"
        by (simp add: buf_left(2) [OF w] Let_def of_nat_diff)
      moreover have "drop n (pending (b # q)) = drop (n - length (buf_rest b)) (pending q)" using 2 by simp
      moreover have "queue_ok q" "n - length (buf_rest b) \<le> length (pending q)" using Cons.prems by auto
      ultimately show ?thesis using Cons.IH [of "n - length (buf_rest b)"] by (simp only:)
    qed
  next
    case False
    define m where "m = (word_of_int (int n) :: u32)"
    have "n \<le> 1000000000" using False buf_rest_length [OF w] buf_wf_bounds(4) [OF w] buf_wf_bounds(3) [OF w] by linarith
    then have m: "unat m = n" by (simp add: m_def)
    have i: "buf_incrpos b m = Inr (buf_adv b n)" using False m by (simp add: buf_incrpos_eq [OF w])
    have "buf_rest (buf_adv b n) = drop n (buf_rest b)" "buf_wf (buf_adv b n)"
      using False w by (auto intro: buf_adv_rest)
    then show ?thesis using False i Cons.prems by (simp add: buf_left(2) [OF w] Let_def m_def)
  qed
qed simp

text \<open>
  C30. No byte of the outgoing stream is lost, repeated or reordered: when \<^verbatim>\<open>write_packet\<close> returns,
  what it has written followed by what is still queued is what was queued before, and
  \<^verbatim>\<open>writequeue_len\<close> is the number of queued bytes. Its assertions hold whenever the queue is not
  empty, also for a partial write.
\<close>

theorem write_packet_conserves:
  assumes q: "queue_ok (ses_writequeue s)" "ses_writequeue s \<noteq> []" and e: "env_ok e"
    and l: "ses_writequeue_len s = of_nat (length (pending (ses_writequeue s)))"
  shows "runs (\<lambda>s'. \<exists>bs. ses_trace s' = ses_trace s @ (if bs = [] then [] else [EvWrite (ses_sock_out s) bs])
      \<and> bs @ pending (ses_writequeue s') = pending (ses_writequeue s) \<and> queue_ok (ses_writequeue s')
      \<and> ses_writequeue_len s' = of_nat (length (pending (ses_writequeue s')))) (write_packet e s)"
proof -
  define k where "k = min (min (length (ses_writequeue s)) IOV_MAX) 50"
  define out where "out = pending (take k (ses_writequeue s))"
  have qk: "queue_ok (take k (ses_writequeue s))" using q(1) by (auto simp: queue_ok_def dest: in_set_takeD)
  have io: "packet_queue_to_iovec (take k (ses_writequeue s)) = Inr (map buf_rest (take k (ses_writequeue s)))"
    by (rule packet_queue_to_iovec_ok [OF qk])
  have o: "concat (map buf_rest (take k (ses_writequeue s))) = out" by (simp add: out_def pending_def)
  have split: "pending (ses_writequeue s) = out @ pending (drop k (ses_writequeue s))"
    unfolding out_def pending_simps(3) [symmetric] by simp
  have unf: "write_packet e s = (case e_write e (ses_tick s) (ses_sock_out s) out of
       WrErr err \<Rightarrow> if err = EINTR \<or> err = EAGAIN then Inr (tick s) else Inl (Exit ''Error writing: %s'')
     | WrOk written \<Rightarrow>
         rbind (packet_queue_consume (ses_writequeue (tick s)) (int written)) (\<lambda>q.
         let s = log_event (EvWrite (ses_sock_out (tick s)) (take written out))
               ((tick s)\<lparr>ses_writequeue := q, ses_writequeue_len := ses_writequeue_len (tick s) - of_nat written\<rparr>) in
         if written = 0 then svr_remoteclosed else Inr s))"
    by (simp only: write_packet_def Let_def k_def [symmetric] dropbear_assert_True [OF q(2)] rbind_simps io o)
  show ?thesis
  proof (cases "e_write e (ses_tick s) (ses_sock_out s) out")
    case (WrErr err)
    then show ?thesis using q l unfolding unf by (auto simp: tick_def)
  next
    case (WrOk n)
    have n: "n \<le> length out" using e WrOk by (simp add: env_ok_def)
    then have "n \<le> length (pending (ses_writequeue s))" using split by simp
    from packet_queue_consume_ok [OF q(1) this] obtain q' where
      q': "packet_queue_consume (ses_writequeue s) (int n) = Inr q'" "queue_ok q'" "pending q' = drop n (pending (ses_writequeue s))"
      by blast
    have t: "take n out = take n (pending (ses_writequeue s))" using n split by simp
    have len: "ses_writequeue_len s - of_nat n = of_nat (length (pending q'))"
      using l n split q'(3) by (simp add: of_nat_diff)
    show ?thesis
    proof (cases "n = 0")
      case True
      then show ?thesis using q'(1) unfolding unf WrOk by (simp add: tick_def svr_remoteclosed_def Let_def)
    next
      case False
      then have "take n out \<noteq> []" using n by auto
      then show ?thesis using q' len False t unfolding unf WrOk
        by (simp add: tick_def log_event_def Let_def) (rule exI [of _ "take n (pending (ses_writequeue s))"], simp)
    qed
  qed
qed

theorem write_packet_conserves_witness:
  "let s = fresh_session\<lparr>ses_writequeue := [(mkbuf [1, 2])\<lparr>buf_pos := 0\<rparr>], ses_writequeue_len := 2\<rparr> in
   pending (ses_writequeue s) = [1, 2] \<and>
   runs (\<lambda>s'. \<exists>bs. bs @ pending (ses_writequeue s') = [1, 2]) (write_packet null_env s)"
proof -
  let ?b = "(mkbuf [1, 2])\<lparr>buf_pos := 0\<rparr>"
  let ?s = "fresh_session\<lparr>ses_writequeue := [?b], ses_writequeue_len := 2\<rparr>"
  have b: "buf_wf ?b" "buf_rest ?b = [1, 2]" by (simp_all add: mkbuf_def buf_wf_def buf_rest_def buf_content_def buf_consts)
  have p: "pending (ses_writequeue ?s) = [1, 2]" using b by simp
  have q: "queue_ok (ses_writequeue ?s)" "ses_writequeue ?s \<noteq> []" using b by simp_all
  have l: "ses_writequeue_len ?s = of_nat (length (pending (ses_writequeue ?s)))" using b by simp
  have e: "env_ok null_env" by (simp add: env_ok_def null_env_def)
  have "runs (\<lambda>s'. \<exists>bs. bs @ pending (ses_writequeue s') = [1, 2]) (write_packet null_env ?s)"
    by (rule runs_weaken [OF write_packet_conserves [OF q e l]]) (use p in force)
  then show ?thesis using p by (simp only: Let_def simp_thms)
qed

end
