(* ===== verification/Process_Packet.thy ===== *)
theory Process_Packet
  imports Packet
begin

text \<open>
  \<^verbatim>\<open>process-packet.c\<close>: the dispatch of a decrypted packet. The table \<^verbatim>\<open>ses.packettypes\<close> is a list of
  message types and handlers, ended by an entry of type 0 as in the code; the theorems on
  dispatch hold for every table.
\<close>

type_synonym ('c, 'z) handler = "('c, 'z) session \<Rightarrow> ('c, 'z) session res"
type_synonym ('c, 'z) packettypes = "(u8 \<times> ('c, 'z) handler) list"

definition MAX_UNAUTH_PACKET_TYPE :: u8 where "MAX_UNAUTH_PACKET_TYPE = SSH_MSG_USERAUTH_PK_OK"

definition recv_unimplemented :: "'z env \<Rightarrow> ('c, 'z) session \<Rightarrow> ('c, 'z) session res" where
  "recv_unimplemented e s =
     rbind (buf_putbyte (ses_writepayload s) SSH_MSG_UNIMPLEMENTED) (\<lambda>wp.
     rbind (buf_putint wp (ses_recvseq s - 1)) (\<lambda>wp.
     encrypt_packet e (s\<lparr>ses_writepayload := wp\<rparr>)))"

text \<open>The loop over \<^verbatim>\<open>ses.packettypes\<close>; reading past the end of a table without end mark is undefined.\<close>

fun find_handler :: "('c, 'z) packettypes \<Rightarrow> u8 \<Rightarrow> ('c, 'z) handler option res" where
  "find_handler [] type = Inl OutOfBounds"
| "find_handler ((t, h) # ts) type =
     (if t = 0 then Inr None else if t = type then Inr (Some h) else find_handler ts type)"

text \<open>The end of \<^verbatim>\<open>process_packet\<close>: from the check of \<^verbatim>\<open>authdone\<close> to the call of a handler.\<close>

definition run_handler :: "'z env \<Rightarrow> ('c, 'z) packettypes \<Rightarrow> u8 \<Rightarrow> ('c, 'z) session \<Rightarrow> ('c, 'z) session res" where
  "run_handler e types type s =
     (if \<not> auth_authdone (ses_authstate s) \<and> type > MAX_UNAUTH_PACKET_TYPE
      then Inl (Exit ''Received message %d before userauth'')
      else rbind (find_handler types type) (\<lambda>ho.
           case ho of Some h \<Rightarrow> h s | None \<Rightarrow> recv_unimplemented e s))"

text \<open>The label \<^verbatim>\<open>out\<close>.\<close>

definition packet_out :: "u8 \<Rightarrow> ('c, 'z) session \<Rightarrow> ('c, 'z) session" where
  "packet_out type s = s\<lparr>ses_lastpacket := type, ses_payload := None\<rparr>"

definition process_packet :: "'z env \<Rightarrow> ('c, 'z) packettypes \<Rightarrow> ('c, 'z) session \<Rightarrow> ('c, 'z) session res" where
  "process_packet e types s =
     (let first_strict_kex = kex_strict_kex (ses_kexstate s) \<and> \<not> kex_recvfirstnewkeys (ses_kexstate s) in
      case ses_payload s of None \<Rightarrow> Inl NullDeref
      | Some payload \<Rightarrow>
        rbind (buf_getbyte payload) (\<lambda>(type, payload).
        let now = e_now e (ses_tick s);
            s = (tick s)\<lparr>ses_payload := Some payload, ses_last_packet_time_keepalive_recv := now\<rparr> in
        if type = SSH_MSG_DISCONNECT then Inl (Close ''Disconnect received'')
        else if \<not> first_strict_kex \<and> (type = SSH_MSG_IGNORE \<or> type = SSH_MSG_DEBUG \<or> type = SSH_MSG_UNIMPLEMENTED)
        then Inr (packet_out type s)
        else
          let s = (if \<not> (type = SSH_MSG_GLOBAL_REQUEST \<or> type = SSH_MSG_REQUEST_FAILURE \<or> type = SSH_MSG_CHANNEL_FAILURE)
                   then s\<lparr>ses_last_packet_time_idle := now\<rparr> else s) in
          if ses_requirenext s \<noteq> 0 \<and> ses_requirenext s \<noteq> type then
            (if type \<ge> 1 \<and> type \<le> 49 \<and> type \<noteq> SSH_MSG_SERVICE_REQUEST \<and> type \<noteq> SSH_MSG_SERVICE_ACCEPT
                \<and> type \<noteq> SSH_MSG_KEXINIT \<and> \<not> first_strict_kex
             then rbind (recv_unimplemented e s) (\<lambda>s. Inr (packet_out type s))
             else Inl (Exit ''Unexpected packet type %d, expected %d''))
          else if ses_ignorenext s then Inr (packet_out type (s\<lparr>ses_ignorenext := False\<rparr>))
          else
            let s = (if ses_requirenext s \<noteq> 0 \<and> ses_requirenext s = type then s\<lparr>ses_requirenext := 0\<rparr> else s) in
            rbind (run_handler e types type s) (\<lambda>s. Inr (packet_out type s))))"

section \<open>Dispatch\<close>

text \<open>The type of the packet in \<^verbatim>\<open>ses.payload\<close>.\<close>

definition packet_type :: "('c, 'z) session \<Rightarrow> u8 option" where
  "packet_type s = (case ses_payload s of None \<Rightarrow> None | Some pb \<Rightarrow> if buf_rest pb = [] then None else Some (hd (buf_rest pb)))"

definition payload_wf :: "('c, 'z) session \<Rightarrow> bool" where
  "payload_wf s \<longleftrightarrow> (\<exists>pb. ses_payload s = Some pb \<and> buf_wf pb)"

lemma packet_type_getbyte:
  assumes "payload_wf s" "packet_type s = Some t"
  obtains pb where "ses_payload s = Some pb" "buf_getbyte pb = Inr (t, buf_adv pb 1)"
  using assms unfolding payload_wf_def packet_type_def
  by (auto simp: buf_getbyte_eq split: if_splits list.splits)

text \<open>
  C8. Before authentication no handler of a message above 60 runs, whatever table is installed:
  such a packet, if it is not dropped as a wrongly guessed key exchange packet, ends the session,
  so that channel and global requests are out of reach of an unauthenticated peer.
\<close>

theorem process_packet_preauth:
  assumes pw: "payload_wf s" and t: "packet_type s = Some t" and un: "\<not> auth_authdone (ses_authstate s)"
    and hi: "t > 60"
  shows "(\<exists>msg. process_packet e types s = Inl (Exit msg)) \<or>
    (ses_ignorenext s \<and> (\<exists>s'. process_packet e types s = Inr s' \<and> 
       ses_channels s' = ses_channels s \<and> ses_authstate s' = ses_authstate s \<and> ses_keys s' = ses_keys s \<and>
       ses_writequeue s' = ses_writequeue s \<and> ses_kexstate s' = ses_kexstate s \<and> \<not> ses_ignorenext s'))"
proof -
  obtain pb where pb: "ses_payload s = Some pb" "buf_getbyte pb = Inr (t, buf_adv pb 1)"
    using packet_type_getbyte [OF pw t] .
  have ne: "t \<noteq> SSH_MSG_DISCONNECT" "t \<noteq> SSH_MSG_IGNORE" "t \<noteq> SSH_MSG_DEBUG" "t \<noteq> SSH_MSG_UNIMPLEMENTED" "\<not> t \<le> 49"
    using hi by (auto simp: ssh_msgs wnat)
  have mx: "t > MAX_UNAUTH_PACKET_TYPE" using hi by (simp add: MAX_UNAUTH_PACKET_TYPE_def ssh_msgs)
  show ?thesis
    using un mx ne
    by (auto simp: process_packet_def pb Let_def run_handler_def tick_def packet_out_def)
qed

theorem process_packet_preauth_witness:
  "\<exists>msg. process_packet null_env [] (fresh_session\<lparr>ses_payload := Some ((mkbuf [90])\<lparr>buf_pos := 0\<rparr>)\<rparr>) = Inl (Exit msg)"
proof -
  let ?s = "fresh_session\<lparr>ses_payload := Some ((mkbuf [90])\<lparr>buf_pos := 0\<rparr>)\<rparr>"
  have "payload_wf ?s" "packet_type ?s = Some 90" "\<not> auth_authdone (ses_authstate ?s)"
    by (simp_all add: payload_wf_def packet_type_def mkbuf_def buf_wf_def buf_rest_def buf_content_def buf_consts zero_authstate_def)
  from process_packet_preauth [OF this, of null_env "[]"] show ?thesis by simp
qed

text \<open>
  C9. Strict key exchange (the defence against prefix truncation): once it is negotiated and until
  the peer's first NEWKEYS, every packet other than the one expected ends the session, IGNORE,
  DEBUG and UNIMPLEMENTED included.
\<close>

theorem process_packet_strict_kex:
  assumes pw: "payload_wf s" and t: "packet_type s = Some t"
    and strict: "kex_strict_kex (ses_kexstate s)" "\<not> kex_recvfirstnewkeys (ses_kexstate s)"
    and req: "ses_requirenext s \<noteq> 0" "t \<noteq> ses_requirenext s"
  shows "\<exists>msg. process_packet e types s = Inl (if t = SSH_MSG_DISCONNECT then Close msg else Exit msg)"
proof -
  obtain pb where pb: "ses_payload s = Some pb" "buf_getbyte pb = Inr (t, buf_adv pb 1)"
    using packet_type_getbyte [OF pw t] .
  show ?thesis
    using strict req by (auto simp: process_packet_def pb Let_def tick_def)
qed

theorem process_packet_strict_kex_witness:
  "\<exists>msg. process_packet null_env [(2, Inr), (0, Inr)] (fresh_session\<lparr>ses_payload := Some ((mkbuf [2])\<lparr>buf_pos := 0\<rparr>),
     ses_kexstate := zero_kexstate\<lparr>kex_strict_kex := True\<rparr>\<rparr>) = Inl (Exit msg)"
proof -
  let ?s = "fresh_session\<lparr>ses_payload := Some ((mkbuf [2])\<lparr>buf_pos := 0\<rparr>), ses_kexstate := zero_kexstate\<lparr>kex_strict_kex := True\<rparr>\<rparr>"
  have "payload_wf ?s" "packet_type ?s = Some 2"
    by (simp_all add: payload_wf_def packet_type_def mkbuf_def buf_wf_def buf_rest_def buf_content_def buf_consts)
  from process_packet_strict_kex [OF this, of null_env "[(2, Inr), (0, Inr)]"] show ?thesis
    by (simp add: zero_kexstate_def SSH_MSG_KEXINIT_def SSH_MSG_DISCONNECT_def)
qed

text \<open>The state in which a handler is called.\<close>

definition at_handler :: "'z env \<Rightarrow> u8 \<Rightarrow> ('c, 'z) session \<Rightarrow> ('c, 'z) session \<Rightarrow> bool" where
  "at_handler e t s s1 \<longleftrightarrow> ses_requirenext s1 = 0 \<and> \<not> ses_ignorenext s1 \<and> ses_channels s1 = ses_channels s
     \<and> ses_authstate s1 = ses_authstate s \<and> ses_keys s1 = ses_keys s \<and> ses_kexstate s1 = ses_kexstate s
     \<and> ses_writequeue s1 = ses_writequeue s \<and> ses_writepayload s1 = ses_writepayload s
     \<and> ses_payload s1 = map_option (\<lambda>pb. buf_adv pb 1) (ses_payload s)
     \<and> ses_last_packet_time_keepalive_recv s1 = e_now e (ses_tick s)"

text \<open>
  Exactly the packets that the protocol allows are dispatched: with authentication done or a
  pre-authentication type, an expected packet (or any packet when none in particular is
  expected) that is not to be skipped reaches the handler its type has in the table, with the
  expectation cleared, the position after the type byte and the rest of the session as it was;
  afterwards the payload is freed and its type is the last packet type.
\<close>

theorem process_packet_dispatch:
  assumes pw: "payload_wf s" and t: "packet_type s = Some t"
    and au: "auth_authdone (ses_authstate s) \<or> t \<le> 60"
    and ty: "t \<notin> {SSH_MSG_DISCONNECT, SSH_MSG_IGNORE, SSH_MSG_DEBUG, SSH_MSG_UNIMPLEMENTED}"
    and req: "ses_requirenext s = 0 \<or> ses_requirenext s = t" and ig: "\<not> ses_ignorenext s"
    and h: "find_handler types t = Inr (Some h)"
  shows "\<exists>s1. at_handler e t s s1 \<and>
    process_packet e types s = rbind (h s1) (\<lambda>s'. Inr (s'\<lparr>ses_lastpacket := t, ses_payload := None\<rparr>))"
proof -
  obtain pb where pb: "ses_payload s = Some pb" "buf_getbyte pb = Inr (t, buf_adv pb 1)"
    using packet_type_getbyte [OF pw t] .
  have au': "\<not> (\<not> auth_authdone (ses_authstate s) \<and> t > MAX_UNAUTH_PACKET_TYPE)"
    using au by (auto simp: MAX_UNAUTH_PACKET_TYPE_def ssh_msgs)
  define s0 where "s0 = (tick s)\<lparr>ses_payload := Some (buf_adv pb 1), ses_last_packet_time_keepalive_recv := e_now e (ses_tick s)\<rparr>"
  define s1 where "s1 = (if \<not> (t = SSH_MSG_GLOBAL_REQUEST \<or> t = SSH_MSG_REQUEST_FAILURE \<or> t = SSH_MSG_CHANNEL_FAILURE)
     then s0\<lparr>ses_last_packet_time_idle := e_now e (ses_tick s)\<rparr> else s0)"
  define s2 where "s2 = (if ses_requirenext s1 \<noteq> 0 \<and> ses_requirenext s1 = t then s1\<lparr>ses_requirenext := 0\<rparr> else s1)"
  have f: "ses_requirenext s1 = ses_requirenext s" "ses_ignorenext s1 = ses_ignorenext s" "ses_authstate s2 = ses_authstate s"
    by (simp_all add: s1_def s0_def s2_def tick_def)
  have "at_handler e t s s2" using req ig pb by (auto simp: at_handler_def s2_def s1_def s0_def tick_def)
  moreover have "process_packet e types s = rbind (run_handler e types t s2) (\<lambda>s'. Inr (packet_out t s'))"
    using ty req ig f(1,2) unfolding process_packet_def pb(1) option.case pb(2) rbind_simps prod.case Let_def
      s0_def [symmetric] s1_def [symmetric] s2_def [symmetric]
    by auto
  moreover have "run_handler e types t s2 = h s2" using au' h f(3) by (auto simp: run_handler_def)
  ultimately show ?thesis by (auto simp: packet_out_def)
qed

theorem process_packet_dispatch_witness:
  "\<exists>s1. process_packet null_env [(20, Inr), (0, Inr)] (fresh_session\<lparr>ses_payload := Some ((mkbuf [20])\<lparr>buf_pos := 0\<rparr>)\<rparr>)
     = Inr (s1\<lparr>ses_lastpacket := 20, ses_payload := None\<rparr>) \<and> ses_requirenext s1 = 0"
proof -
  let ?s = "fresh_session\<lparr>ses_payload := Some ((mkbuf [20])\<lparr>buf_pos := 0\<rparr>)\<rparr>"
  have p: "payload_wf ?s" "packet_type ?s = Some 20"
    by (simp_all add: payload_wf_def packet_type_def mkbuf_def buf_wf_def buf_rest_def buf_content_def buf_consts)
  have h: "find_handler [(20, Inr), (0, Inr)] 20 = Inr (Some Inr)" by simp
  from process_packet_dispatch [OF p _ _ _ _ h, of null_env] show ?thesis
    by (auto simp: ssh_msgs at_handler_def)
qed

end
