(* ===== verification/Kex.thy ===== *)
theory Kex
  imports Process_Packet Algo
begin

text \<open>
  Key exchange: \<^verbatim>\<open>common-kex.c\<close> (algorithm negotiation, the exchange hash, key derivation and taking
  keys into use, for client and server) and the server's side of \<^verbatim>\<open>svr-kex.c\<close>.

  The algorithm tables and what the code takes from zlib and libtomcrypt are fields of a record
  \<open>kx\<close>. A hash state is the sequence of bytes processed; \<^verbatim>\<open>done\<close> applies the hash function of the
  method. The public key operations of \<^verbatim>\<open>send_msg_kexdh_reply\<close> are parameters.
\<close>

section \<open>Tables and parameters\<close>

definition MAX_IV_LEN :: nat where "MAX_IV_LEN = 20"
definition MAX_KEY_LEN :: nat where "MAX_KEY_LEN = 64"
definition KEXHASHBUF_MAX_INTS :: u32 where "KEXHASHBUF_MAX_INTS = 600 + (2*4 + 1184 + 1088 + 32*2 + 68)"
definition LOCAL_IDENT :: bytes where "LOCAL_IDENT = lit ''SSH-2.0-dropbear_2026.91''"
definition KEXGUESS2_ALGO_NAME :: bytes where "KEXGUESS2_ALGO_NAME = lit ''kexguess2@matt.ucc.asn.au''"
definition SSH_EXT_INFO_C :: bytes where "SSH_EXT_INFO_C = lit ''ext-info-c''"
definition SSH_STRICT_KEX_S :: bytes where "SSH_STRICT_KEX_S = lit ''kex-strict-s-v00@openssh.com''"
definition SSH_STRICT_KEX_C :: bytes where "SSH_STRICT_KEX_C = lit ''kex-strict-c-v00@openssh.com''"
definition SSH_SERVER_SIG_ALGS :: bytes where "SSH_SERVER_SIG_ALGS = lit ''server-sig-algs''"

definition DROPBEAR_SIGNKEY_RSA :: int where "DROPBEAR_SIGNKEY_RSA = 0"
definition DROPBEAR_SIGNKEY_NUM_NAMED :: int where "DROPBEAR_SIGNKEY_NUM_NAMED = 7"
definition DROPBEAR_SIGNATURE_RSA_SHA256 :: int where "DROPBEAR_SIGNATURE_RSA_SHA256 = 101"

definition signkey_type_from_signature :: "int \<Rightarrow> int res" where
  "signkey_type_from_signature sigtype =
     (if sigtype = DROPBEAR_SIGNATURE_RSA_SHA256 then Inr DROPBEAR_SIGNKEY_RSA
      else rbind (dropbear_assert ''(int)sigtype < (int)DROPBEAR_SIGNKEY_NUM_NAMED''
                    (sigtype < DROPBEAR_SIGNKEY_NUM_NAMED)) (\<lambda>_. Inr sigtype))"

text \<open>\<open>kx_inflateInit\<close> and \<open>kx_deflateInit\<close> are the new stream, if there is no error; \<open>kx_zEnd\<close> tells
  whether ending a stream is no \<^verbatim>\<open>Z_STREAM_ERROR\<close>. \<open>kx_c0\<close> is a zeroed cipher state.\<close>

record ('c, 'z) kex_env =
  kx_server :: bool
  kx_sshkex :: "(dropbear_kex option, unit) algo_type list"
  kx_sigalgs :: "(unit, unit) algo_type list"
  kx_sshciphers :: "(dropbear_cipher, 'c dropbear_cipher_mode) algo_type list"
  kx_sshhashes :: "(dropbear_hash, unit) algo_type list"
  kx_compress_c2s :: "(comp, unit) algo_type list"
  kx_compress_s2c :: "(comp, unit) algo_type list"
  kx_first_guess :: "(('c, 'z) session \<Rightarrow> ('c, 'z) session res) option"
  kx_find_cipher :: "dropbear_cipher \<Rightarrow> bool"
  kx_inflateInit :: "'z option"
  kx_deflateInit :: "'z option"
  kx_zEnd :: "'z \<Rightarrow> bool"
  kx_c0 :: 'c

text \<open>The compression tables: the value of an entry is its data here.\<close>

definition comp_algo :: "string \<Rightarrow> comp \<Rightarrow> (comp, unit) algo_type" where
  "comp_algo nm v = \<lparr>algo_name = lit nm, algo_val = 0, algo_data = v, algo_usable = True, algo_mode = ()\<rparr>"

definition ssh_compress :: "(comp, unit) algo_type list" where
  "ssh_compress = [comp_algo ''zlib@openssh.com'' COMP_ZLIB_DELAY, comp_algo ''zlib'' COMP_ZLIB,
     comp_algo ''none'' COMP_NONE]"

definition ssh_nocompress :: "(comp, unit) algo_type list" where
  "ssh_nocompress = [comp_algo ''none'' COMP_NONE]"

text \<open>\<^verbatim>\<open>opts.compression\<close> is the argument.\<close>

definition kex_setup_compress :: "bool \<Rightarrow> ('c, 'z) kex_env \<Rightarrow> ('c, 'z) kex_env" where
  "kex_setup_compress compression a =
     (if \<not> compression then a\<lparr>kx_compress_c2s := ssh_nocompress, kx_compress_s2c := ssh_nocompress\<rparr>
      else if \<not> kx_server a then a\<lparr>kx_compress_c2s := ssh_compress, kx_compress_s2c := ssh_compress\<rparr>
      else a\<lparr>kx_compress_c2s := ssh_nocompress, kx_compress_s2c := ssh_compress\<rparr>)"

text \<open>A key context of zeroed memory: no method, no keys.\<close>

definition zero_keys :: "'c \<Rightarrow> ('c, 'z) key_context" where
  "zero_keys c0 = \<lparr>keys_recv = none_keys c0, keys_trans = none_keys c0, keys_algo_kex = None,
     keys_algo_hostkey = 0, keys_algo_signature = 0\<rparr>"

definition upd_kexstate :: "(KEXState \<Rightarrow> KEXState) \<Rightarrow> ('c, 'z) session \<Rightarrow> ('c, 'z) session" where
  "upd_kexstate f s = s\<lparr>ses_kexstate := f (ses_kexstate s)\<rparr>"

section \<open>Starting an exchange\<close>

text \<open>The payload of our KEXINIT, written into \<open>wp\<close>.\<close>

definition put_kexinit :: "'z env \<Rightarrow> nat \<Rightarrow> ('c, 'z) kex_env \<Rightarrow> buffer \<Rightarrow> buffer res" where
  "put_kexinit e t a wp =
     rbind (buf_putbyte wp SSH_MSG_KEXINIT) (\<lambda>wp.
     rbind (buf_getwriteptr wp 16) (\<lambda>p.
     rbind (mem_write (buf_data wp) p (e_random e t 16)) (\<lambda>d.
     rbind (buf_incrwritepos (wp\<lparr>buf_data := d\<rparr>) 16) (\<lambda>wp.
     rbind (buf_put_algolist wp (kx_sshkex a)) (\<lambda>wp.
     rbind (buf_put_algolist wp (kx_sigalgs a)) (\<lambda>wp.
     rbind (buf_put_algolist wp (kx_sshciphers a)) (\<lambda>wp.
     rbind (buf_put_algolist wp (kx_sshciphers a)) (\<lambda>wp.
     rbind (buf_put_algolist wp (kx_sshhashes a)) (\<lambda>wp.
     rbind (buf_put_algolist wp (kx_sshhashes a)) (\<lambda>wp.
     rbind (buf_put_algolist wp (kx_compress_c2s a)) (\<lambda>wp.
     rbind (buf_put_algolist wp (kx_compress_s2c a)) (\<lambda>wp.
     rbind (buf_putstring wp [0] 0) (\<lambda>wp.
     rbind (buf_putstring wp [0] 0) (\<lambda>wp.
     rbind (buf_putbyte wp (if kx_first_guess a \<noteq> None then 1 else 0)) (\<lambda>wp.
     buf_putint wp 0)))))))))))))))"

definition send_msg_kexinit :: "'z env \<Rightarrow> ('c, 'z) kex_env \<Rightarrow> ('c, 'z) session \<Rightarrow> ('c, 'z) session res" where
  "send_msg_kexinit e a s =
     rbind (put_kexinit e (ses_tick s) a (ses_writepayload s)) (\<lambda>wp.
     rbind (buf_newcopy wp) (\<lambda>tk.
     rbind (encrypt_packet e ((tick s)\<lparr>ses_writepayload := wp, ses_transkexinit := Some tk\<rparr>)) (\<lambda>s.
     let s = upd_kexstate (\<lambda>k. k\<lparr>kex_sentkexinit := True\<rparr>) (s\<lparr>ses_dataallowed := False\<rparr>);
         s = s\<lparr>ses_newkeys := Some (zero_keys (kx_c0 a))\<rparr> in
     case kx_first_guess a of None \<Rightarrow> Inr s
     | Some guess \<Rightarrow>
         (case (first_usable_algo (kx_sshkex a), first_usable_algo (kx_sigalgs a)) of
            (Some k, Some g) \<Rightarrow>
              rbind (signkey_type_from_signature (algo_val g)) (\<lambda>hk.
              guess (s\<lparr>ses_newkeys := Some ((zero_keys (kx_c0 a))\<lparr>keys_algo_kex := algo_data k,
                 keys_algo_signature := algo_val g, keys_algo_hostkey := hk\<rparr>)\<rparr>))
          | _ \<Rightarrow> Inl NullDeref))))"

definition kexinitialise :: "'z env \<Rightarrow> ('c, 'z) session \<Rightarrow> ('c, 'z) session" where
  "kexinitialise e s =
     tick (upd_kexstate (\<lambda>k. k\<lparr>kex_sentkexinit := False, kex_recvkexinit := False, kex_recvnewkeys := False,
       kex_sentnewkeys := False, kex_them_firstfollows := False, kex_datatrans := 0, kex_datarecv := 0,
       kex_our_first_follows_matches := False, kex_lastkextime := e_now e (ses_tick s)\<rparr>) s)"

definition kexfirstinitialise :: "'z env \<Rightarrow> bool \<Rightarrow> ('c, 'z) kex_env \<Rightarrow> ('c, 'z) session
    \<Rightarrow> ('c, 'z) kex_env \<times> ('c, 'z) session" where
  "kexfirstinitialise e compression a s = (kex_setup_compress compression a, kexinitialise e s)"

section \<open>Taking keys into use\<close>

text \<open>The new stream of one direction, and the old one closed.\<close>

definition gen_new_zstream :: "('z option) \<Rightarrow> ('z \<Rightarrow> bool) \<Rightarrow> ('c, 'z) key_context_directional
    \<Rightarrow> ('c, 'z) key_context_directional \<Rightarrow> ('c, 'z) key_context_directional res" where
  "gen_new_zstream zinit zend old new =
     rbind (if dk_algo_comp new = COMP_ZLIB \<or> dk_algo_comp new = COMP_ZLIB_DELAY
            then (case zinit of None \<Rightarrow> Inl (Exit ''zlib error'') | Some z \<Rightarrow> Inr (new\<lparr>dk_zstream := Some z\<rparr>))
            else Inr (new\<lparr>dk_zstream := None\<rparr>)) (\<lambda>new.
     case dk_zstream old of None \<Rightarrow> Inr new
     | Some z \<Rightarrow> if zend z then Inr new else Inl (Exit ''Crypto error''))"

definition gen_new_zstream_recv :: "('c, 'z) kex_env \<Rightarrow> ('c, 'z) key_context_directional
    \<Rightarrow> ('c, 'z) key_context_directional \<Rightarrow> ('c, 'z) key_context_directional res" where
  "gen_new_zstream_recv a = gen_new_zstream (kx_inflateInit a) (kx_zEnd a)"

definition gen_new_zstream_trans :: "('c, 'z) kex_env \<Rightarrow> ('c, 'z) key_context_directional
    \<Rightarrow> ('c, 'z) key_context_directional \<Rightarrow> ('c, 'z) key_context_directional res" where
  "gen_new_zstream_trans a = gen_new_zstream (kx_deflateInit a) (kx_zEnd a)"

text \<open>Burnt keys: zeroed, so no longer valid.\<close>

definition switch_recv :: "('c, 'z) kex_env \<Rightarrow> ('c, 'z) session \<Rightarrow> ('c, 'z) key_context \<Rightarrow> ('c, 'z) session res" where
  "switch_recv a s nk =
     (if kex_recvnewkeys (ses_kexstate s) \<and> dk_valid (keys_recv nk) then
        rbind (gen_new_zstream_recv a (ses_recv s) (keys_recv nk)) (\<lambda>k.
        Inr ((set_recv s k)\<lparr>ses_newkeys := Some (nk\<lparr>keys_recv := none_keys (kx_c0 a)\<rparr>)\<rparr>))
      else Inr (s\<lparr>ses_newkeys := Some nk\<rparr>))"

definition switch_trans :: "('c, 'z) kex_env \<Rightarrow> ('c, 'z) session \<Rightarrow> ('c, 'z) key_context \<Rightarrow> ('c, 'z) session res" where
  "switch_trans a s nk =
     (if kex_sentnewkeys (ses_kexstate s) \<and> dk_valid (keys_trans nk) then
        rbind (gen_new_zstream_trans a (ses_trans s) (keys_trans nk)) (\<lambda>k.
        Inr ((set_trans s k)\<lparr>ses_newkeys := Some (nk\<lparr>keys_trans := none_keys (kx_c0 a)\<rparr>)\<rparr>))
      else Inr (s\<lparr>ses_newkeys := Some nk\<rparr>))"

definition switch_keys :: "'z env \<Rightarrow> ('c, 'z) kex_env \<Rightarrow> ('c, 'z) session \<Rightarrow> ('c, 'z) session res" where
  "switch_keys e a s =
     (if \<not> (kex_sentkexinit (ses_kexstate s) \<and> kex_recvkexinit (ses_kexstate s))
      then Inl (Exit ''Unexpected newkeys message'')
      else case ses_newkeys s of None \<Rightarrow> Inl NullDeref
      | Some nk \<Rightarrow>
        rbind (switch_recv a s nk) (\<lambda>s.
        case ses_newkeys s of None \<Rightarrow> Inl NullDeref
        | Some nk \<Rightarrow>
          rbind (switch_trans a s nk) (\<lambda>s.
          case ses_newkeys s of None \<Rightarrow> Inl NullDeref
          | Some nk \<Rightarrow>
            if kex_sentnewkeys (ses_kexstate s) \<and> kex_recvnewkeys (ses_kexstate s)
            then Inr (kexinitialise e (s\<lparr>ses_keys := (ses_keys s)\<lparr>keys_algo_kex := keys_algo_kex nk,
                   keys_algo_hostkey := keys_algo_hostkey nk, keys_algo_signature := keys_algo_signature nk\<rparr>,
                   ses_newkeys := None\<rparr>))
            else Inr s)))"

section \<open>Key derivation\<close>

definition hash_process_mp :: "bytes \<Rightarrow> mp_int \<Rightarrow> bytes res" where
  "hash_process_mp hs mp =
     rbind (buf_new (512 + 20)) (\<lambda>b.
     rbind (buf_putmpint b mp) (\<lambda>b.
     Inr (hs @ take (unat (buf_len b)) (buf_data b))))"

text \<open>The extension loop of \<^verbatim>\<open>hashkeys\<close>. The hash sizes of the methods are positive.\<close>

function hashkeys_loop :: "dropbear_kex \<Rightarrow> bytes \<Rightarrow> nat \<Rightarrow> nat \<Rightarrow> bytes \<Rightarrow> bytes" where
  "hashkeys_loop h hs outlen offset out =
     (if offset < outlen \<and> 0 < kex_hashsize h
      then hashkeys_loop h hs outlen (offset + kex_hashsize h)
             (out @ take (min (outlen - offset) (kex_hashsize h)) (kex_hash h (hs @ take offset out)))
      else out)"
  by auto
termination by (relation "measure (\<lambda>(h, hs, outlen, offset, out). outlen - offset)") auto

declare hashkeys_loop.simps [simp del]

definition hashkeys :: "dropbear_kex \<Rightarrow> bytes \<Rightarrow> bytes \<Rightarrow> nat \<Rightarrow> u8 \<Rightarrow> bytes" where
  "hashkeys h session_id hs outlen X =
     hashkeys_loop h hs outlen (kex_hashsize h)
       (take (min (kex_hashsize h) outlen) (kex_hash h (hs @ [X] @ session_id)))"

text \<open>The cipher of one direction started with its IV and key.\<close>

definition start_cipher :: "('c, 'z) kex_env \<Rightarrow> bytes \<Rightarrow> bytes \<Rightarrow> ('c, 'z) key_context_directional
    \<Rightarrow> ('c, 'z) key_context_directional res" where
  "start_cipher a IV key k =
     (if ciph_desc (dk_algo_crypt k) then
        (if \<not> kx_find_cipher a (dk_algo_crypt k) then Inl (Exit ''Crypto error'')
         else case mode_start (dk_crypt_mode k) IV (take (ciph_keysize (dk_algo_crypt k)) key) (dk_cipher_state k) of
           None \<Rightarrow> Inl (Exit ''Crypto error'')
         | Some c \<Rightarrow> Inr (k\<lparr>dk_cipher_state := c\<rparr>))
      else Inr k)"

text \<open>The MAC key of one direction, written over the start of the array \<^verbatim>\<open>mackey\<close>.\<close>

definition set_mackey :: "dropbear_kex \<Rightarrow> bytes \<Rightarrow> bytes \<Rightarrow> u8 \<Rightarrow> ('c, 'z) key_context_directional
    \<Rightarrow> ('c, 'z) key_context_directional res" where
  "set_mackey h sid hs letter k =
     (case hash_desc (dk_algo_mac k) of None \<Rightarrow> Inr k
      | Some idx \<Rightarrow>
        let n = hash_keysize (dk_algo_mac k) in
        rbind (mem_write (dk_mackey k) 0 (hashkeys h sid hs n letter)) (\<lambda>mk.
        Inr (k\<lparr>dk_mackey := mk, dk_hash_index := idx\<rparr>)))"

text \<open>What the hashes of the key derivation have in common: the shared secret and the exchange hash.\<close>

definition kex_prefix :: "('c, 'z) session \<Rightarrow> bytes res" where
  "kex_prefix s =
     rbind (case ses_dh_K s of None \<Rightarrow> Inr [] | Some k \<Rightarrow> hash_process_mp [] k) (\<lambda>hs.
     let hs = (case ses_dh_K_bytes s of None \<Rightarrow> hs | Some b \<Rightarrow> hs @ take (unat (buf_len b)) (buf_data b)) in
     case ses_hash s of None \<Rightarrow> Inl NullDeref
     | Some H \<Rightarrow> Inr (hs @ take (unat (buf_len H)) (buf_data H)))"

definition gen_new_keys :: "('c, 'z) kex_env \<Rightarrow> ('c, 'z) session \<Rightarrow> ('c, 'z) session res" where
  "gen_new_keys a s =
     (case ses_newkeys s of None \<Rightarrow> Inl NullDeref
      | Some nk \<Rightarrow>
        (case keys_algo_kex nk of None \<Rightarrow> Inl NullDeref
         | Some h \<Rightarrow>
           rbind (kex_prefix s) (\<lambda>hs.
           case ses_session_id s of None \<Rightarrow> Inl NullDeref
           | Some sidb \<Rightarrow>
             let sid = take (unat (buf_len sidb)) (buf_data sidb);
                 s = s\<lparr>ses_dh_K := None, ses_dh_K_bytes := None, ses_hash := None\<rparr>;
                 C2S_IV = hashkeys h sid hs MAX_IV_LEN (of_char CHR ''A'');
                 S2C_IV = hashkeys h sid hs MAX_IV_LEN (of_char CHR ''B'');
                 C2S_key = hashkeys h sid hs MAX_KEY_LEN (of_char CHR ''C'');
                 S2C_key = hashkeys h sid hs MAX_KEY_LEN (of_char CHR ''D'');
                 client = \<not> kx_server a;
                 trans_IV = (if client then C2S_IV else S2C_IV);
                 recv_IV = (if client then S2C_IV else C2S_IV);
                 trans_key = (if client then C2S_key else S2C_key);
                 recv_key = (if client then S2C_key else C2S_key);
                 mactransletter = (if client then of_char CHR ''E'' else of_char CHR ''F'');
                 macrecvletter = (if client then of_char CHR ''F'' else of_char CHR ''E'') in
             rbind (start_cipher a recv_IV recv_key (keys_recv nk)) (\<lambda>kr.
             rbind (start_cipher a trans_IV trans_key (keys_trans nk)) (\<lambda>kt.
             rbind (set_mackey h sid hs mactransletter kt) (\<lambda>kt.
             rbind (set_mackey h sid hs macrecvletter kr) (\<lambda>kr.
             Inr (s\<lparr>ses_newkeys := Some (nk\<lparr>keys_trans := kt\<lparr>dk_valid := True\<rparr>,
                      keys_recv := kr\<lparr>dk_valid := True\<rparr>\<rparr>)\<rparr>))))))))"

definition send_msg_newkeys :: "'z env \<Rightarrow> ('c, 'z) kex_env \<Rightarrow> ('c, 'z) session \<Rightarrow> ('c, 'z) session res" where
  "send_msg_newkeys e a s =
     rbind (buf_putbyte (ses_writepayload s) SSH_MSG_NEWKEYS) (\<lambda>wp.
     rbind (encrypt_packet e (s\<lparr>ses_writepayload := wp\<rparr>)) (\<lambda>s.
     let s = upd_kexstate (\<lambda>k. k\<lparr>kex_sentnewkeys := True,
               kex_donesecondkex := (if kex_donefirstkex k then True else kex_donesecondkex k),
               kex_donefirstkex := True\<rparr>) s;
         s = s\<lparr>ses_dataallowed := True\<rparr> in
     rbind (gen_new_keys a s) (\<lambda>s.
     rbind (switch_keys e a s) (\<lambda>s.
     Inr (if kex_strict_kex (ses_kexstate s) then s\<lparr>ses_transseq := 0\<rparr> else s)))))"

definition recv_msg_newkeys :: "'z env \<Rightarrow> ('c, 'z) kex_env \<Rightarrow> ('c, 'z) session \<Rightarrow> ('c, 'z) session res" where
  "recv_msg_newkeys e a s =
     rbind (switch_keys e a (upd_kexstate (\<lambda>k. k\<lparr>kex_recvnewkeys := True\<rparr>) s)) (\<lambda>s.
     let s = (if kex_strict_kex (ses_kexstate s) then s\<lparr>ses_recvseq := 0\<rparr> else s) in
     Inr (upd_kexstate (\<lambda>k. k\<lparr>kex_recvfirstnewkeys := True\<rparr>) s))"

section \<open>Negotiation\<close>

text \<open>The extension names in the peer's list of methods: kexguess2, ext-info-c and strict key exchange.\<close>

definition read_kex_flags :: "('c, 'z) kex_env \<Rightarrow> buffer \<Rightarrow> ('c, 'z) session \<Rightarrow> (bool \<times> buffer \<times> ('c, 'z) session) res" where
  "read_kex_flags a payload s =
     rbind (buf_has_algo payload KEXGUESS2_ALGO_NAME) (\<lambda>(kexguess2, payload).
     rbind (if kx_server a \<and> \<not> kex_donefirstkex (ses_kexstate s)
            then rbind (buf_has_algo payload SSH_EXT_INFO_C) (\<lambda>(has, payload).
                 Inr (payload, if has then s\<lparr>ses_allow_ext_info := True\<rparr> else s))
            else Inr (payload, s)) (\<lambda>(payload, s).
     rbind (if \<not> kex_donefirstkex (ses_kexstate s)
            then let strict_name = (if kx_server a then SSH_STRICT_KEX_C else SSH_STRICT_KEX_S) in
                 rbind (buf_has_algo payload strict_name) (\<lambda>(has, payload).
                 Inr (payload, if has then upd_kexstate (\<lambda>k. k\<lparr>kex_strict_kex := True\<rparr>) s else s))
            else Inr (payload, s)) (\<lambda>(payload, s).
     Inr (kexguess2, payload, s))))"

text \<open>A list that has to have a match, and the two with the name of the list that has none.\<close>

definition match_or :: "('c, 'z) kex_env \<Rightarrow> buffer \<Rightarrow> ('d, 'm) algo_type list \<Rightarrow> bool
    \<Rightarrow> (('d, 'm) algo_type \<times> bool \<times> buffer) res" where
  "match_or a payload algos kexguess2 =
     rbind (buf_match_algo (kx_server a) payload algos kexguess2) (\<lambda>(r, good, payload).
     case r of None \<Rightarrow> Inl (Exit ''No matching algo %s'') | Some x \<Rightarrow> Inr (x, good, payload))"

text \<open>A MAC list, whose match is not used by an AEAD cipher.\<close>

definition match_mac :: "('c, 'z) kex_env \<Rightarrow> buffer \<Rightarrow> 'c dropbear_cipher_mode
    \<Rightarrow> ((dropbear_hash, unit) algo_type option \<times> buffer) res" where
  "match_mac a payload mode =
     rbind (buf_match_algo (kx_server a) payload (kx_sshhashes a) False) (\<lambda>(r, good, payload).
     if aead_crypt mode \<noteq> None then Inr (None, payload)
     else case r of None \<Rightarrow> Inl (Exit ''No matching algo %s'') | Some x \<Rightarrow> Inr (Some x, payload))"

text \<open>The algorithms of one direction of the new keys.\<close>

definition set_direction :: "(dropbear_cipher, 'c dropbear_cipher_mode) algo_type \<Rightarrow> (dropbear_hash, unit) algo_type option
    \<Rightarrow> (comp, unit) algo_type \<Rightarrow> ('c, 'z) key_context_directional \<Rightarrow> ('c, 'z) key_context_directional res" where
  "set_direction cipher mac cmp k =
     (case (case mac of None \<Rightarrow> aead_mac (algo_mode cipher) | Some m \<Rightarrow> Some (algo_data m)) of
        None \<Rightarrow> Inl NullDeref
      | Some h \<Rightarrow> Inr (k\<lparr>dk_algo_crypt := algo_data cipher, dk_crypt_mode := algo_mode cipher, dk_algo_mac := h,
                        dk_algo_comp := algo_data cmp\<rparr>))"

text \<open>The six lists that both directions have.\<close>

definition match_directions :: "('c, 'z) kex_env \<Rightarrow> buffer
    \<Rightarrow> (('c, 'z) key_context_directional \<times> ('c, 'z) key_context_directional \<times> buffer) res" where
  "match_directions a payload =
     rbind (match_or a payload (kx_sshciphers a) False) (\<lambda>(c2s_cipher, _, payload).
     rbind (match_or a payload (kx_sshciphers a) False) (\<lambda>(s2c_cipher, _, payload).
     rbind (match_mac a payload (algo_mode c2s_cipher)) (\<lambda>(c2s_hash, payload).
     rbind (match_mac a payload (algo_mode s2c_cipher)) (\<lambda>(s2c_hash, payload).
     rbind (match_or a payload (kx_compress_c2s a) False) (\<lambda>(c2s_comp, _, payload).
     rbind (match_or a payload (kx_compress_s2c a) False) (\<lambda>(s2c_comp, _, payload).
     rbind (set_direction c2s_cipher c2s_hash c2s_comp (none_keys (kx_c0 a))) (\<lambda>c2s.
     rbind (set_direction s2c_cipher s2c_hash s2c_comp (none_keys (kx_c0 a))) (\<lambda>s2c.
     Inr (c2s, s2c, payload)))))))))"

definition read_kex_algos :: "('c, 'z) kex_env \<Rightarrow> ('c, 'z) session \<Rightarrow> ('c, 'z) session res" where
  "read_kex_algos a s =
     (case (ses_payload s, ses_newkeys s) of
        (Some payload, Some _) \<Rightarrow>
          rbind (buf_incrpos payload 16) (\<lambda>payload.
          rbind (read_kex_flags a payload s) (\<lambda>(kexguess2, payload, s).
          rbind (match_or a payload (kx_sshkex a) kexguess2) (\<lambda>(kex, good1, payload).
          case algo_data kex of None \<Rightarrow> Inl (Exit ''No matching algo %s'')
          | Some method \<Rightarrow>
            rbind (match_or a payload (kx_sigalgs a) kexguess2) (\<lambda>(sig, good2, payload).
            rbind (signkey_type_from_signature (algo_val sig)) (\<lambda>hk.
            rbind (match_directions a payload) (\<lambda>(c2s, s2c, payload).
            rbind (buf_eatstring payload) (\<lambda>payload.
            rbind (buf_eatstring payload) (\<lambda>payload.
            rbind (buf_getbool payload) (\<lambda>(follows, payload).
            let allgood = good1 \<and> good2;
                s = (if follows then (upd_kexstate (\<lambda>k. k\<lparr>kex_them_firstfollows := True\<rparr>) s)\<lparr>ses_ignorenext :=
                       (if \<not> allgood then True else ses_ignorenext s)\<rparr> else s);
                nk = \<lparr>keys_recv = (if kx_server a then c2s else s2c), keys_trans = (if kx_server a then s2c else c2s),
                      keys_algo_kex = Some method, keys_algo_hostkey = hk, keys_algo_signature = algo_val sig\<rparr> in
            rbind (buf_getint payload) (\<lambda>(_, payload).
            let s = s\<lparr>ses_payload := Some payload, ses_newkeys := Some nk\<rparr> in
            Inr (if kx_first_guess a \<noteq> None \<and> allgood
                 then upd_kexstate (\<lambda>k. k\<lparr>kex_our_first_follows_matches := True\<rparr>) s else s)))))))))))
      | _ \<Rightarrow> Inl NullDeref)"

text \<open>\<^verbatim>\<open>buf_putstring\<close> of what is left of the peer's KEXINIT from its first byte.\<close>

definition put_peer_kexinit :: "buffer \<Rightarrow> buffer \<Rightarrow> u32 \<Rightarrow> (buffer \<times> buffer) res" where
  "put_peer_kexinit kb payload beginning =
     rbind (buf_setpos payload beginning) (\<lambda>payload.
     let n = buf_len payload - buf_pos payload in
     rbind (buf_getptr payload n) (\<lambda>p.
     rbind (buf_putstring kb (drop p (buf_data payload)) n) (\<lambda>kb.
     Inr (kb, payload))))"

text \<open>The beginning of the exchange hash: both identifications and both KEXINIT payloads, the client's first.\<close>

definition put_kexhash :: "('c, 'z) kex_env \<Rightarrow> buffer \<Rightarrow> bytes \<Rightarrow> buffer \<Rightarrow> buffer \<Rightarrow> u32 \<Rightarrow> (buffer \<times> buffer) res" where
  "put_kexhash a kb remoteident tk payload beginning =
     (let local_len = of_nat (length LOCAL_IDENT); remote_len = of_nat (length (cstr remoteident)) in
      if kx_server a then
        rbind (buf_putstring kb remoteident remote_len) (\<lambda>kb.
        rbind (buf_putstring kb (LOCAL_IDENT @ [0]) local_len) (\<lambda>kb.
        rbind (put_peer_kexinit kb payload beginning) (\<lambda>(kb, payload).
        rbind (buf_putstring kb (buf_data tk) (buf_len tk)) (\<lambda>kb.
        Inr (kb, payload)))))
      else
        rbind (buf_putstring kb (LOCAL_IDENT @ [0]) local_len) (\<lambda>kb.
        rbind (buf_putstring kb remoteident remote_len) (\<lambda>kb.
        rbind (buf_putstring kb (buf_data tk) (buf_len tk)) (\<lambda>kb.
        put_peer_kexinit kb payload beginning))))"

definition recv_msg_kexinit :: "'z env \<Rightarrow> ('c, 'z) kex_env \<Rightarrow> ('c, 'z) session \<Rightarrow> ('c, 'z) session res" where
  "recv_msg_kexinit e a s =
     rbind (if \<not> kex_sentkexinit (ses_kexstate s) then send_msg_kexinit e a s else Inr s) (\<lambda>s.
     if kex_recvkexinit (ses_kexstate s) then Inl (Exit ''Unexpected KEXINIT'')
     else case (ses_remoteident s, ses_transkexinit s, ses_payload s) of
       (Some remoteident, Some tk, Some payload) \<Rightarrow>
         rbind (buf_new (of_nat (length LOCAL_IDENT) + of_nat (length (cstr remoteident)) + buf_len tk
                  + buf_len payload + KEXHASHBUF_MAX_INTS)) (\<lambda>kb.
         rbind (read_kex_algos a s) (\<lambda>s.
         case ses_payload s of None \<Rightarrow> Inl NullDeref
         | Some payload \<Rightarrow>
           rbind (put_kexhash a kb remoteident tk payload (ses_payload_beginning s)) (\<lambda>(kb, payload).
           let s = upd_kexstate (\<lambda>k. k\<lparr>kex_recvkexinit := True\<rparr>)
                 (s\<lparr>ses_kexhashbuf := Some kb, ses_payload := Some payload, ses_transkexinit := None,
                    ses_requirenext := (if kx_server a then SSH_MSG_KEXDH_INIT else SSH_MSG_KEXDH_REPLY)\<rparr>) in
           if kex_strict_kex (ses_kexstate s) \<and> \<not> kex_donefirstkex (ses_kexstate s) \<and> ses_recvseq s \<noteq> 1
           then Inl (Exit (''First packet wasn'' @ [CHR 0x27] @ ''t kexinit'')) else Inr s)))
     | _ \<Rightarrow> Inl NullDeref)"

definition finish_kexhashbuf :: "('c, 'z) session \<Rightarrow> ('c, 'z) session res" where
  "finish_kexhashbuf s =
     (case (ses_kexhashbuf s, ses_newkeys s) of
        (Some kb, Some nk) \<Rightarrow>
          (case keys_algo_kex nk of None \<Rightarrow> Inl NullDeref
           | Some h \<Rightarrow>
             rbind (buf_setpos kb 0) (\<lambda>kb.
             rbind (buf_getptr kb (buf_len kb)) (\<lambda>p.
             rbind (mem_read (buf_data kb) p (unat (buf_len kb))) (\<lambda>bs.
             rbind (buf_new (of_nat (kex_hashsize h))) (\<lambda>hb.
             rbind (buf_getwriteptr hb (of_nat (kex_hashsize h))) (\<lambda>q.
             rbind (mem_write (buf_data hb) q (kex_hash h bs)) (\<lambda>d.
             rbind (buf_setlen (hb\<lparr>buf_data := d\<rparr>) (of_nat (kex_hashsize h))) (\<lambda>hb.
             let s = s\<lparr>ses_hash := Some hb, ses_kexhashbuf := None\<rparr> in
             case ses_session_id s of Some _ \<Rightarrow> Inr s
             | None \<Rightarrow> rbind (buf_newcopy hb) (\<lambda>sid. Inr (s\<lparr>ses_session_id := Some sid\<rparr>))))))))))
      | _ \<Rightarrow> Inl NullDeref)"

section \<open>Diffie-Hellman\<close>

text \<open>
  \<^verbatim>\<open>kex-dh.c\<close>. The prime is the method's \<^verbatim>\<open>dh_p\<close>, the private value what \<^verbatim>\<open>gen_random_mpint\<close> drew below
  \<^verbatim>\<open>q\<close>; \<open>put_pub\<close> writes the host key's public part.
\<close>

definition DH_G_VAL :: int where "DH_G_VAL = 2"

record kex_dh_param =
  dh_pub_us :: mp_int
  dh_priv :: mp_int

definition gen_kexdh_param :: "(mp_int \<Rightarrow> mp_int) \<Rightarrow> mp_int \<Rightarrow> kex_dh_param" where
  "gen_kexdh_param gen_random_mpint dh_p =
     (let q = (dh_p - 1) div 2; priv = gen_random_mpint q in
      \<lparr>dh_pub_us = DH_G_VAL ^ nat priv mod dh_p, dh_priv = priv\<rparr>)"

definition kexdh_comb_key :: "('c, 'z) kex_env \<Rightarrow> (int \<Rightarrow> buffer \<Rightarrow> buffer res) \<Rightarrow> mp_int \<Rightarrow> kex_dh_param \<Rightarrow> mp_int
    \<Rightarrow> ('c, 'z) session \<Rightarrow> ('c, 'z) session res" where
  "kexdh_comb_key a put_pub dh_p param dh_pub_them s =
     (if \<not> dh_pub_them < dh_p - 1 \<or> \<not> dh_pub_them > 1 then Inl (Exit ''Diffie-Hellman error'')
      else
        let K = dh_pub_them ^ nat (dh_priv param) mod dh_p;
            dh_e = (if kx_server a then dh_pub_them else dh_pub_us param);
            dh_f = (if kx_server a then dh_pub_us param else dh_pub_them) in
        case (ses_kexhashbuf s, ses_newkeys s) of
          (Some kb, Some nk) \<Rightarrow>
            rbind (put_pub (keys_algo_hostkey nk) kb) (\<lambda>kb.
            rbind (buf_putmpint kb dh_e) (\<lambda>kb.
            rbind (buf_putmpint kb dh_f) (\<lambda>kb.
            rbind (buf_putmpint kb K) (\<lambda>kb.
            finish_kexhashbuf (s\<lparr>ses_dh_K := Some K, ses_kexhashbuf := Some kb\<rparr>)))))
        | _ \<Rightarrow> Inl NullDeref)"

section \<open>The server's reply\<close>

text \<open>
  What \<^verbatim>\<open>send_msg_kexdh_reply\<close> takes from the key exchange method and the host key: \<open>dh_mode\<close> tells
  whether the peer's value is an mpint or a string; \<open>dh_comb\<close> computes the shared secret (in
  \<^verbatim>\<open>dh_K\<close> or \<^verbatim>\<open>dh_K_bytes\<close>), completes the exchange hash and gives our public value; \<open>dh_pub\<close> and
  \<open>dh_sign\<close> write the host key and the signature of the hash.
\<close>

datatype kex_value = KexMpint mp_int | KexString buffer

record ('c, 'z) dh_env =
  dh_is_mpint :: "dropbear_kex \<Rightarrow> bool"
  dh_pub :: "int \<Rightarrow> buffer \<Rightarrow> buffer res"
  dh_comb :: "kex_value \<Rightarrow> ('c, 'z) session \<Rightarrow> (kex_value \<times> ('c, 'z) session) res"
  dh_sign :: "int \<Rightarrow> bytes \<Rightarrow> buffer \<Rightarrow> buffer res"

definition send_msg_kexdh_reply :: "'z env \<Rightarrow> ('c, 'z) dh_env \<Rightarrow> kex_value \<Rightarrow> ('c, 'z) session \<Rightarrow> ('c, 'z) session res" where
  "send_msg_kexdh_reply e d v s =
     rbind (buf_putbyte (ses_writepayload s) SSH_MSG_KEXDH_REPLY) (\<lambda>wp.
     case ses_newkeys s of None \<Rightarrow> Inl NullDeref
     | Some nk \<Rightarrow>
       rbind (dh_pub d (keys_algo_hostkey nk) wp) (\<lambda>wp.
       rbind (dh_comb d v s) (\<lambda>(w, s).
       rbind (case w of KexMpint f \<Rightarrow> buf_putmpint wp f | KexString q \<Rightarrow> buf_putbufstring wp q) (\<lambda>wp.
       case ses_hash s of None \<Rightarrow> Inl NullDeref
       | Some H \<Rightarrow>
         rbind (dh_sign d (keys_algo_signature nk) (buf_content H) wp) (\<lambda>wp.
         encrypt_packet e (s\<lparr>ses_writepayload := wp\<rparr>))))))"

definition send_msg_ext_info :: "'z env \<Rightarrow> ('c, 'z) kex_env \<Rightarrow> ('c, 'z) session \<Rightarrow> ('c, 'z) session res" where
  "send_msg_ext_info e a s =
     rbind (buf_putbyte (ses_writepayload s) SSH_MSG_EXT_INFO) (\<lambda>wp.
     rbind (buf_putint wp 1) (\<lambda>wp.
     rbind (buf_putstring wp (SSH_SERVER_SIG_ALGS @ [0]) (of_nat (length SSH_SERVER_SIG_ALGS))) (\<lambda>wp.
     rbind (buf_put_algolist_all wp (kx_sigalgs a) True) (\<lambda>wp.
     encrypt_packet e (s\<lparr>ses_writepayload := wp\<rparr>)))))"

definition disable_sig_except :: "int \<Rightarrow> ('c, 'z) kex_env \<Rightarrow> ('c, 'z) kex_env" where
  "disable_sig_except allow_type a =
     a\<lparr>kx_sigalgs := map (\<lambda>g. if algo_val g \<noteq> allow_type then g\<lparr>algo_usable := False\<rparr> else g) (kx_sigalgs a)\<rparr>"

definition recv_msg_kexdh_init :: "'z env \<Rightarrow> ('c, 'z) dh_env \<Rightarrow> ('c, 'z) kex_env \<Rightarrow> ('c, 'z) session
    \<Rightarrow> (('c, 'z) kex_env \<times> ('c, 'z) session) res" where
  "recv_msg_kexdh_init e d a s =
     (if \<not> kex_recvkexinit (ses_kexstate s) then Inl (Exit ''Premature kexdh_init message received'')
      else case (ses_newkeys s, ses_payload s) of
        (Some nk, Some payload) \<Rightarrow>
          (case keys_algo_kex nk of None \<Rightarrow> Inl NullDeref
           | Some h \<Rightarrow>
             rbind (if dh_is_mpint d h
                    then rbind (buf_getmpint payload) (\<lambda>(m, payload).
                         case m of None \<Rightarrow> Inl (Exit ''Bad kex value'') | Some x \<Rightarrow> Inr (KexMpint x, payload))
                    else rbind (buf_getstringbuf payload) (\<lambda>(q, payload). Inr (KexString q, payload))) (\<lambda>(v, payload).
             if buf_pos payload \<noteq> buf_len payload then Inl (Exit ''Bad kex value'')
             else
               rbind (send_msg_kexdh_reply e d v (s\<lparr>ses_payload := Some payload\<rparr>)) (\<lambda>s.
               rbind (send_msg_newkeys e a s) (\<lambda>s.
               rbind (if \<not> kex_donesecondkex (ses_kexstate s) \<and> ses_allow_ext_info s then send_msg_ext_info e a s else Inr s) (\<lambda>s.
               rbind (if \<not> kex_donesecondkex (ses_kexstate s)
                      then (case ses_newkeys s of None \<Rightarrow> Inl NullDeref
                            | Some nk \<Rightarrow> Inr (disable_sig_except (keys_algo_signature nk) a))
                      else Inr a) (\<lambda>a.
               Inr (a, s\<lparr>ses_requirenext := SSH_MSG_NEWKEYS\<rparr>)))))))
      | _ \<Rightarrow> Inl NullDeref)"

end
