(* ===== verification/Kex_Keys.thy ===== *)
theory Kex_Keys
  imports Kex
begin

text \<open>
  The keys that an exchange produces: the derivation is the one of RFC 4253, both sides derive
  the same keys, and a direction changes keys exactly at its NEWKEYS.
\<close>

section \<open>Key derivation\<close>

text \<open>
  RFC 4253, section 7.2: \<open>K1\<close>, then \<open>K2 = HASH(K || H || K1)\<close>, \<open>K3 = HASH(K || H || K1 || K2)\<close>
  and so on; \<open>key_stream\<close> is the concatenation of \<open>K1\<close> and \<open>n\<close> further blocks.
\<close>

fun key_stream :: "(bytes \<Rightarrow> bytes) \<Rightarrow> bytes \<Rightarrow> bytes \<Rightarrow> nat \<Rightarrow> bytes" where
  "key_stream HASH KH K1 0 = K1"
| "key_stream HASH KH K1 (Suc n) = key_stream HASH KH K1 n @ HASH (KH @ key_stream HASH KH K1 n)"

lemma length_key_stream:
  "\<forall>x. length (HASH x) = sz \<Longrightarrow> length K1 = sz \<Longrightarrow> length (key_stream HASH KH K1 n) = Suc n * sz"
  by (induction n) simp_all

lemma key_stream_take:
  assumes "m \<le> n"
  shows "\<exists>t. key_stream HASH KH K1 n = key_stream HASH KH K1 m @ t"
  using assms by (induction rule: dec_induct) auto

lemma hashkeys_loop_stream:
  fixes h :: dropbear_kex and hs K1 :: bytes
  defines "ks \<equiv> key_stream (kex_hash h) hs K1"
  assumes sz: "\<forall>x. length (kex_hash h x) = kex_hashsize h" "0 < kex_hashsize h" and k1: "length K1 = kex_hashsize h"
    and n: "outlen \<le> Suc n * kex_hashsize h"
  shows "j \<le> n \<Longrightarrow> hashkeys_loop h hs outlen (Suc j * kex_hashsize h) (take outlen (ks j)) = take outlen (ks n)"
proof (induction "n - j" arbitrary: j)
  case 0
  then have "\<not> Suc j * kex_hashsize h < outlen" "j = n" using n by auto
  then show ?case by (simp add: hashkeys_loop.simps)
next
  case (Suc d)
  have lj: "length (ks j) = Suc j * kex_hashsize h" unfolding ks_def by (rule length_key_stream [OF sz(1) k1])
  show ?case
  proof (cases "Suc j * kex_hashsize h < outlen")
    case True
    have "take (Suc j * kex_hashsize h) (take outlen (ks j)) = ks j" "take outlen (ks j) = ks j" using lj True by simp_all
    moreover have "ks j @ take (min (outlen - Suc j * kex_hashsize h) (kex_hashsize h)) (kex_hash h (hs @ ks j)) = take outlen (ks (Suc j))"
      using lj True sz(1) by (simp add: ks_def min_def)
    moreover have "Suc j * kex_hashsize h + kex_hashsize h = Suc (Suc j) * kex_hashsize h" by simp
    ultimately have "hashkeys_loop h hs outlen (Suc j * kex_hashsize h) (take outlen (ks j))
       = hashkeys_loop h hs outlen (Suc (Suc j) * kex_hashsize h) (take outlen (ks (Suc j)))"
      using True sz(2) by (subst hashkeys_loop.simps) (simp only: simp_thms if_True)
    moreover have "d = n - Suc j" "Suc j \<le> n" using Suc.hyps(2) by simp_all
    ultimately show ?thesis using Suc.hyps(1) [of "Suc j"] by (simp only:)
  next
    case False
    obtain t where "ks n = ks j @ t" using key_stream_take [of j n] Suc.prems unfolding ks_def by blast
    then have "take outlen (ks n) = take outlen (ks j)" using False lj by simp
    then show ?thesis using False by (simp add: hashkeys_loop.simps)
  qed
qed

text \<open>
  C22. \<^verbatim>\<open>hashkeys\<close> derives a key of any length as RFC 4253 prescribes: the first bytes of
  \<open>K1 || K2 || ...\<close> with \<open>K1 = HASH(K || H || X || session_id)\<close>, whatever the hash of the method.
\<close>

theorem hashkeys_rfc4253:
  assumes "\<forall>x. length (kex_hash h x) = kex_hashsize h" "0 < kex_hashsize h" "outlen \<le> Suc n * kex_hashsize h"
  shows "hashkeys h session_id KH outlen X
    = take outlen (key_stream (kex_hash h) KH (kex_hash h (KH @ [X] @ session_id)) n)
    \<and> length (hashkeys h session_id KH outlen X) = outlen"
proof -
  let ?K1 = "kex_hash h (KH @ [X] @ session_id)"
  have t: "take (min (kex_hashsize h) outlen) ?K1 = take outlen ?K1" using assms(1) by (simp add: min_def)
  have "hashkeys h session_id KH outlen X = take outlen (key_stream (kex_hash h) KH ?K1 n)"
    using hashkeys_loop_stream [OF assms(1,2) _ assms(3), of ?K1 0 KH] assms(1) t by (simp add: hashkeys_def)
  then show ?thesis using length_key_stream [of "kex_hash h" "kex_hashsize h" ?K1 KH n] assms by simp
qed

theorem hashkeys_rfc4253_witness:
  "let h = \<lparr>kex_hash = (\<lambda>x. [of_nat (length x), 1]), kex_hashsize = 2\<rparr> in
   hashkeys h [9] [5] 3 65 = take 3 (key_stream (kex_hash h) [5] [3, 1] 1) \<and> hashkeys h [9] [5] 3 65 = [3, 1, 3]"
proof -
  let ?h = "\<lparr>kex_hash = (\<lambda>x. [of_nat (length x), 1]), kex_hashsize = 2\<rparr>"
  have a: "\<forall>x. length (kex_hash ?h x) = kex_hashsize ?h" "0 < kex_hashsize ?h" "3 \<le> Suc 1 * kex_hashsize ?h" by simp_all
  from hashkeys_rfc4253 [OF a, of "[9]" "[5]" 65] show ?thesis by (simp add: Let_def numeral_3_eq_3 numeral_2_eq_2)
qed

section \<open>Both sides\<close>

text \<open>A key exchange environment with empty tables, for evaluating the model.\<close>

definition null_kex :: "bool \<Rightarrow> (unit, unit) kex_env" where
  "null_kex server = \<lparr>kx_server = server, kx_sshkex = [], kx_sigalgs = [], kx_sshciphers = [], kx_sshhashes = [],
     kx_compress_c2s = ssh_nocompress, kx_compress_s2c = ssh_nocompress, kx_first_guess = None,
     kx_find_cipher = (\<lambda>_. True), kx_inflateInit = Some (), kx_deflateInit = Some (), kx_zEnd = (\<lambda>_. True), kx_c0 = ()\<rparr>"

lemma fresh_dh [simp]: "ses_dh_K fresh_session = None" "ses_dh_K_bytes fresh_session = None" "ses_kexhashbuf fresh_session = None"
  "ses_session_id fresh_session = None"
  by (simp_all add: fresh_session_def common_session_init_def buf_new_def BUF_MAX_SIZE_def
      TRANS_MAX_PAYLOAD_LEN_def update_channel_prio_def Let_def)

lemma start_cipher_agree:
  "kx_find_cipher a = kx_find_cipher a' \<Longrightarrow> start_cipher a IV key k = start_cipher a' IV key k"
  by (simp add: start_cipher_def)

text \<open>
  C20. Client and server derive the same keys: when both sides run \<^verbatim>\<open>gen_new_keys\<close> with the same
  shared secret, exchange hash and session identifier and with the algorithms negotiated for each
  direction, what one side will send with is what the other will receive with, cipher states
  and MAC keys included.
\<close>

theorem gen_new_keys_agree:
  fixes ac as :: "('c, 'z) kex_env"
  assumes c: "gen_new_keys ac sc = Inr sc'" "\<not> kx_server ac" "ses_newkeys sc = Some nkc"
    and s: "gen_new_keys as ss = Inr ss'" "kx_server as" "ses_newkeys ss = Some nks"
    and lib: "kx_find_cipher ac = kx_find_cipher as"
    and kex: "kex_prefix sc = kex_prefix ss" "ses_session_id sc = ses_session_id ss" "keys_algo_kex nkc = keys_algo_kex nks"
    and algos: "keys_recv nks = keys_trans nkc" "keys_trans nks = keys_recv nkc"
  shows "\<exists>nkc' nks'. ses_newkeys sc' = Some nkc' \<and> ses_newkeys ss' = Some nks' \<and>
    keys_recv nks' = keys_trans nkc' \<and> keys_trans nks' = keys_recv nkc' \<and>
    dk_valid (keys_recv nks') \<and> dk_valid (keys_trans nks')"
proof -
  have "keys_algo_kex nkc \<noteq> None" using c(1,3) by (intro notI) (simp add: gen_new_keys_def)
  then obtain h where h: "keys_algo_kex nkc = Some h" "keys_algo_kex nks = Some h" using kex(3) by auto
  have "kex_prefix sc \<noteq> Inl x" for x using c(1,3) h(1) by (intro notI) (simp add: gen_new_keys_def)
  then obtain hs where hs: "kex_prefix sc = Inr hs" "kex_prefix ss = Inr hs" using kex(1) by (metis sum.exhaust)
  have "ses_session_id sc \<noteq> None" using c(1,3) h(1) hs(1) by (intro notI) (simp add: gen_new_keys_def)
  then obtain sb where sb: "ses_session_id sc = Some sb" "ses_session_id ss = Some sb" using kex(2) by auto
  note lib' = start_cipher_agree [OF lib]
  show ?thesis
    using c s h hs sb unfolding gen_new_keys_def
    by (simp add: Let_def algos lib' rbind_Inr_iff) auto
qed

theorem gen_new_keys_agree_witness:
  "let h = \<lparr>kex_hash = (\<lambda>x. [of_nat (length x)]), kex_hashsize = 1\<rparr>;
       nk = (zero_keys ())\<lparr>keys_algo_kex := Some h\<rparr>;
       s = fresh_session\<lparr>ses_newkeys := Some nk, ses_hash := Some (mkbuf [7]), ses_session_id := Some (mkbuf [7])\<rparr> in
   \<exists>sc' ss' nkc' nks'. gen_new_keys (null_kex False) s = Inr sc' \<and> gen_new_keys (null_kex True) s = Inr ss' \<and>
     ses_newkeys sc' = Some nkc' \<and> ses_newkeys ss' = Some nks' \<and> keys_recv nks' = keys_trans nkc' \<and> dk_valid (keys_recv nks')"
proof -
  let ?h = "\<lparr>kex_hash = (\<lambda>x. [of_nat (length x)]), kex_hashsize = 1\<rparr>"
  let ?nk = "(zero_keys ())\<lparr>keys_algo_kex := Some ?h\<rparr>"
  let ?s = "fresh_session\<lparr>ses_newkeys := Some ?nk, ses_hash := Some (mkbuf [7]), ses_session_id := Some (mkbuf [7])\<rparr>"
  have "\<exists>s'. gen_new_keys (null_kex b) ?s = Inr s'" for b
    by (simp add: gen_new_keys_def zero_keys_def none_keys_def kex_prefix_def start_cipher_def set_mackey_def
        dropbear_nocipher_def dropbear_nohash_def fresh_dh Let_def)
  moreover have n: "ses_newkeys ?s = Some ?nk" by simp
  ultimately obtain sc' ss' where r: "gen_new_keys (null_kex False) ?s = Inr sc'" "gen_new_keys (null_kex True) ?s = Inr ss'" by metis
  have "\<exists>nkc' nks'. ses_newkeys sc' = Some nkc' \<and> ses_newkeys ss' = Some nks' \<and> keys_recv nks' = keys_trans nkc' \<and>
      keys_trans nks' = keys_recv nkc' \<and> dk_valid (keys_recv nks') \<and> dk_valid (keys_trans nks')"
    using gen_new_keys_agree [OF r(1) _ n r(2) _ n] by (simp add: null_kex_def zero_keys_def)
  with r show ?thesis unfolding Let_def by blast
qed

section \<open>Diffie-Hellman\<close>

lemma dh_commute: "(g ^ x mod p) ^ y mod p = (g ^ y mod p) ^ x mod (p :: int)"
  by (simp add: power_mod power_mult [symmetric] mult.commute)

lemma finish_kexhashbuf_fields:
  assumes "finish_kexhashbuf s = Inr s'"
  shows "ses_dh_K s' = ses_dh_K s" "ses_kexhashbuf s' = None" "ses_session_id s \<noteq> None \<Longrightarrow> ses_session_id s' = ses_session_id s"
  using assms unfolding finish_kexhashbuf_def Let_def
  by (auto split: option.splits elim!: rbind_InrE)

text \<open>
  The exchange hash is the hash of the whole buffer; in the first exchange it becomes the session
  identifier, which later exchanges keep.
\<close>

lemma finish_kexhashbuf_ok:
  assumes kb: "ses_kexhashbuf s = Some kb" "buf_wf kb" and nk: "ses_newkeys s = Some nk" "keys_algo_kex nk = Some h"
    and h: "\<forall>x. length (kex_hash h x) = kex_hashsize h" "kex_hashsize h \<le> 1000"
  shows "\<exists>s' hb sid. finish_kexhashbuf s = Inr s' \<and> ses_hash s' = Some hb \<and> buf_wf hb \<and> buf_content hb = kex_hash h (buf_content kb)
    \<and> ses_session_id s' = Some sid \<and> (case ses_session_id s of None \<Rightarrow> buf_content sid = kex_hash h (buf_content kb) | Some sid0 \<Rightarrow> sid = sid0)"
proof -
  note bd = buf_wf_bounds [OF kb(2)]
  let ?n = "of_nat (kex_hashsize h) :: u32"
  have un: "unat ?n = kex_hashsize h" using h(2) by simp
  define H where "H = kex_hash h (buf_content kb)"
  define k0 where "k0 = kb\<lparr>buf_pos := 0\<rparr>"
  have k0: "buf_setpos kb 0 = Inr k0" "buf_wf k0" "buf_rest k0 = buf_content kb" "buf_len k0 = buf_len kb" "buf_pos k0 = 0"
    using buf_setpos_ok [OF kb(2), of 0] by (auto simp: k0_def)
  have g: "buf_getptr k0 (buf_len k0) = Inr 0" using k0 kb(2) by (simp add: buf_getptr_eq [OF k0(2)])
  have rd: "mem_read (buf_data k0) 0 (unat (buf_len k0)) = Inr (buf_content kb)"
    using buf_read_eq [OF k0(2), of "unat (buf_len k0)"] k0 kb(2) by simp
  define hb where "hb = \<lparr>buf_data = H, buf_len = ?n, buf_pos = 0, buf_size = ?n\<rparr>"
  have lH: "length H = kex_hashsize h" using h(1) by (simp add: H_def)
  have hb: "buf_wf hb" "buf_content hb = H" using lH un h(2) by (simp_all add: hb_def buf_wf_def buf_content_def BUF_MAX_SIZE_def wnat)
  have n: "buf_new ?n = Inr \<lparr>buf_data = replicate (kex_hashsize h) 0, buf_len = 0, buf_pos = 0, buf_size = ?n\<rparr>"
    using un h(2) by (simp add: buf_new_def BUF_MAX_SIZE_def wnat)
  obtain sid where sid: "buf_newcopy hb = Inr sid" "buf_content sid = H" using buf_newcopy_ok [OF hb(1)] hb(2) by auto
  have sl: "buf_setlen \<lparr>buf_data = H, buf_len = 0, buf_pos = 0, buf_size = ?n\<rparr> ?n = Inr hb"
    by (simp add: buf_setlen_def hb_def)
  have gw: "buf_getwriteptr \<lparr>buf_data = replicate (kex_hashsize h) 0, buf_len = 0, buf_pos = 0, buf_size = ?n\<rparr> ?n = Inr 0"
    using un h(2) by (simp add: buf_getwriteptr_def BUF_MAX_INCR_def wnat)
  have "finish_kexhashbuf s = (let s = s\<lparr>ses_hash := Some hb, ses_kexhashbuf := None\<rparr> in
      case ses_session_id s of Some _ \<Rightarrow> Inr s | None \<Rightarrow> rbind (buf_newcopy hb) (\<lambda>sid. Inr (s\<lparr>ses_session_id := Some sid\<rparr>)))"
    using kb(1) nk k0(1) g rd n gw sl lH
    by (simp add: finish_kexhashbuf_def H_def [symmetric] del: mem_read_ok)
  then show ?thesis using hb sid by (cases "ses_session_id s") (auto simp: H_def)
qed

text \<open>The exchange hash is a function of the hash buffer and the method.\<close>

lemma finish_kexhashbuf_hash:
  assumes "finish_kexhashbuf s1 = Inr s1'" "finish_kexhashbuf s2 = Inr s2'"
    and "ses_kexhashbuf s1 = ses_kexhashbuf s2" "map_option keys_algo_kex (ses_newkeys s1) = map_option keys_algo_kex (ses_newkeys s2)"
  shows "ses_hash s1' = ses_hash s2'"
  using assms unfolding finish_kexhashbuf_def Let_def
  by (auto split: option.splits elim!: rbind_InrE)

text \<open>
  C21. Diffie-Hellman: when client and server draw private values, exchange their public values
  and both accept the other's, they hold the same shared secret and the same exchange hash,
  provided their hash buffers agreed before and they write the same host key.
\<close>

theorem kexdh_agree:
  assumes pc: "pc = gen_kexdh_param rndc dh_p" and ps: "ps = gen_kexdh_param rnds dh_p"
    and c: "kexdh_comb_key ac put_pub dh_p pc (dh_pub_us ps) sc = Inr sc'" "\<not> kx_server ac"
    and s: "kexdh_comb_key as put_pub dh_p ps (dh_pub_us pc) ss = Inr ss'" "kx_server as"
    and kb: "ses_kexhashbuf sc = ses_kexhashbuf ss" "ses_newkeys sc = Some nkc" "ses_newkeys ss = Some nks"
    and nk: "keys_algo_kex nkc = keys_algo_kex nks" "keys_algo_hostkey nkc = keys_algo_hostkey nks"
  shows "\<exists>K. ses_dh_K sc' = Some K \<and> ses_dh_K ss' = Some K \<and> ses_hash sc' = ses_hash ss'"
proof -
  define K where "K = dh_pub_us ps ^ nat (dh_priv pc) mod dh_p"
  have K2: "K = dh_pub_us pc ^ nat (dh_priv ps) mod dh_p"
    by (simp add: K_def pc ps gen_kexdh_param_def Let_def) (rule dh_commute)
  obtain b0 where b0: "ses_kexhashbuf sc = Some b0" "ses_kexhashbuf ss = Some b0"
    using c(1) kb unfolding kexdh_comb_key_def Let_def by (auto split: option.splits if_splits)
  obtain b1 b2 b3 b4 where b: "put_pub (keys_algo_hostkey nkc) b0 = Inr b1" "buf_putmpint b1 (dh_pub_us pc) = Inr b2"
     "buf_putmpint b2 (dh_pub_us ps) = Inr b3" "buf_putmpint b3 K = Inr b4"
     "finish_kexhashbuf (sc\<lparr>ses_dh_K := Some K, ses_kexhashbuf := Some b4\<rparr>) = Inr sc'"
    using c kb(2) b0 unfolding kexdh_comb_key_def Let_def K_def [symmetric]
    by (auto split: if_splits elim!: rbind_InrE)
  have fs: "finish_kexhashbuf (ss\<lparr>ses_dh_K := Some K, ses_kexhashbuf := Some b4\<rparr>) = Inr ss'"
    using s kb(3) b0 b(1-4) nk(2) unfolding kexdh_comb_key_def Let_def K2 [symmetric]
    by (auto split: if_splits)
  have "ses_hash sc' = ses_hash ss'"
    by (rule finish_kexhashbuf_hash [OF b(5) fs]) (simp_all add: kb nk)
  then show ?thesis using finish_kexhashbuf_fields(1) [OF b(5)] finish_kexhashbuf_fields(1) [OF fs] by simp
qed

lemma putmpint_step:
  assumes "buf_wf b" "0 \<le> a" "length (mpint_bytes a) = 1" "buf_fits b (5 + n)"
  shows "\<exists>b'. buf_putmpint b a = Inr b' \<and> buf_wf b' \<and> buf_fits b' n"
proof -
  let ?x = "store32h (of_nat (length (mpint_bytes a))) @ mpint_bytes a"
  have f: "buf_fits b (length ?x)" using assms(3,4) by (simp add: buf_fits_def)
  have "buf_putmpint b a = Inr (buf_put b ?x)" using buf_putmpint_eq [OF assms(1,2)] f by simp
  then show ?thesis using buf_put_wf [OF assms(1) f] buf_put_fits_iff [OF assms(1) f, of n] assms(3,4)
    by (simp add: buf_fits_def)
qed

theorem kexdh_agree_witness:
  "let s = fresh_session\<lparr>ses_kexhashbuf := Some \<lparr>buf_data = replicate 20 0, buf_len = 0, buf_pos = 0, buf_size = 20\<rparr>,
         ses_newkeys := Some ((zero_keys ())\<lparr>keys_algo_kex := Some \<lparr>kex_hash = (\<lambda>x. [of_nat (length x)]), kex_hashsize = 1\<rparr>\<rparr>)\<rparr>;
       pc = gen_kexdh_param (\<lambda>_. 3) 23; ps = gen_kexdh_param (\<lambda>_. 5) 23 in
   \<exists>sc' ss'. kexdh_comb_key (null_kex False) (\<lambda>_. Inr) 23 pc (dh_pub_us ps) s = Inr sc' \<and>
     kexdh_comb_key (null_kex True) (\<lambda>_. Inr) 23 ps (dh_pub_us pc) s = Inr ss' \<and>
     ses_dh_K sc' = ses_dh_K ss' \<and> ses_hash sc' = ses_hash ss'"
proof -
  let ?h = "\<lparr>kex_hash = (\<lambda>x. [of_nat (length x)]), kex_hashsize = 1\<rparr>"
  let ?nk = "(zero_keys ())\<lparr>keys_algo_kex := Some ?h\<rparr>"
  let ?b = "\<lparr>buf_data = replicate 20 0, buf_len = 0, buf_pos = 0, buf_size = 20\<rparr>"
  let ?s = "fresh_session\<lparr>ses_kexhashbuf := Some ?b, ses_newkeys := Some ?nk\<rparr>"
  let ?pc = "gen_kexdh_param (\<lambda>_. 3) 23" and ?ps = "gen_kexdh_param (\<lambda>_. 5) 23"
  have p: "dh_pub_us ?pc = 8" "dh_pub_us ?ps = 9" "dh_priv ?pc = 3" "dh_priv ?ps = 5"
    by (simp_all add: gen_kexdh_param_def DH_G_VAL_def)
  have l: "length (mpint_bytes 8) = 1" "length (mpint_bytes 9) = 1" "length (mpint_bytes 16) = 1"
    by (simp_all add: mpint_bytes_length mp_count_bits_def count_bits.simps)
  have w: "buf_wf ?b" "buf_fits ?b 15" by (simp_all add: buf_wf_def buf_consts buf_fits_def)
  obtain b1 where b1: "buf_putmpint ?b 8 = Inr b1" "buf_wf b1" "buf_fits b1 10" using putmpint_step [OF w(1) _ l(1), of 10] w(2) by auto
  obtain b2 where b2: "buf_putmpint b1 9 = Inr b2" "buf_wf b2" "buf_fits b2 5" using putmpint_step [OF b1(2) _ l(2), of 5] b1(3) by auto
  obtain b3 where b3: "buf_putmpint b2 16 = Inr b3" "buf_wf b3" using putmpint_step [OF b2(2) _ l(3), of 0] b2(3) by auto
  have "\<exists>s'. finish_kexhashbuf (?s\<lparr>ses_dh_K := Some 16, ses_kexhashbuf := Some b3\<rparr>) = Inr s'"
    using finish_kexhashbuf_ok [of "?s\<lparr>ses_dh_K := Some 16, ses_kexhashbuf := Some b3\<rparr>" b3 ?nk ?h] b3(2) by auto
  then have "\<exists>s'. kexdh_comb_key (null_kex False) (\<lambda>_. Inr) 23 ?pc (dh_pub_us ?ps) ?s = Inr s'"
    "\<exists>s'. kexdh_comb_key (null_kex True) (\<lambda>_. Inr) 23 ?ps (dh_pub_us ?pc) ?s = Inr s'"
    using p b1 b2 b3 by (auto simp: kexdh_comb_key_def null_kex_def Let_def)
  then obtain sc' ss' where r: "kexdh_comb_key (null_kex False) (\<lambda>_. Inr) 23 ?pc (dh_pub_us ?ps) ?s = Inr sc'"
    "kexdh_comb_key (null_kex True) (\<lambda>_. Inr) 23 ?ps (dh_pub_us ?pc) ?s = Inr ss'" by metis
  have n: "ses_newkeys ?s = Some ?nk" by simp
  have "\<exists>K. ses_dh_K sc' = Some K \<and> ses_dh_K ss' = Some K \<and> ses_hash sc' = ses_hash ss'"
    using kexdh_agree [OF refl refl r(1) _ r(2) _ refl n n] by (simp add: null_kex_def)
  with r show ?thesis unfolding Let_def by metis
qed

section \<open>NEWKEYS\<close>

lemma gen_new_zstream_keys:
  assumes "gen_new_zstream zi ze old new = Inr k"
  shows "\<exists>z. k = new\<lparr>dk_zstream := z\<rparr> \<and> (dk_algo_comp new = COMP_NONE \<longrightarrow> z = None) \<and> (dk_algo_comp new \<noteq> COMP_NONE \<longrightarrow> z \<noteq> None)"
  using assms unfolding gen_new_zstream_def
  by (cases "dk_algo_comp new") (auto split: option.splits if_splits elim!: rbind_InrE)

text \<open>What taking keys into use changes.\<close>

lemma switch_recv_ok:
  assumes "switch_recv a s nk = Inr s'"
  shows "\<exists>nk'. ses_newkeys s' = Some nk' \<and> keys_trans nk' = keys_trans nk \<and> ses_trans s' = ses_trans s \<and> ses_kexstate s' = ses_kexstate s
    \<and> ses_transseq s' = ses_transseq s \<and> ses_recvseq s' = ses_recvseq s
    \<and> (if kex_recvnewkeys (ses_kexstate s) \<and> dk_valid (keys_recv nk)
       then (\<exists>z. ses_recv s' = (keys_recv nk)\<lparr>dk_zstream := z\<rparr>) \<and> \<not> dk_valid (keys_recv nk')
       else ses_recv s' = ses_recv s \<and> keys_recv nk' = keys_recv nk)"
  using assms unfolding switch_recv_def gen_new_zstream_recv_def
  by (auto simp: set_recv_def none_keys_def split: if_splits elim!: rbind_InrE dest!: gen_new_zstream_keys)

lemma switch_trans_ok:
  assumes "switch_trans a s nk = Inr s'"
  shows "\<exists>nk'. ses_newkeys s' = Some nk' \<and> keys_recv nk' = keys_recv nk \<and> ses_recv s' = ses_recv s \<and> ses_kexstate s' = ses_kexstate s
    \<and> ses_transseq s' = ses_transseq s \<and> ses_recvseq s' = ses_recvseq s
    \<and> (if kex_sentnewkeys (ses_kexstate s) \<and> dk_valid (keys_trans nk)
       then (\<exists>z. ses_trans s' = (keys_trans nk)\<lparr>dk_zstream := z\<rparr>) \<and> \<not> dk_valid (keys_trans nk')
       else ses_trans s' = ses_trans s \<and> keys_trans nk' = keys_trans nk)"
  using assms unfolding switch_trans_def gen_new_zstream_trans_def
  by (auto simp: set_trans_def none_keys_def split: if_splits elim!: rbind_InrE dest!: gen_new_zstream_keys)

lemma switch_keys_ok:
  assumes sw: "switch_keys e a s = Inr s'" and nk: "ses_newkeys s = Some nk"
  shows "kex_sentkexinit (ses_kexstate s) \<and> kex_recvkexinit (ses_kexstate s)
    \<and> ses_transseq s' = ses_transseq s \<and> ses_recvseq s' = ses_recvseq s
    \<and> kex_strict_kex (ses_kexstate s') = kex_strict_kex (ses_kexstate s)
    \<and> (if kex_recvnewkeys (ses_kexstate s) \<and> dk_valid (keys_recv nk)
       then \<exists>z. ses_recv s' = (keys_recv nk)\<lparr>dk_zstream := z\<rparr> else ses_recv s' = ses_recv s)
    \<and> (if kex_sentnewkeys (ses_kexstate s) \<and> dk_valid (keys_trans nk)
       then \<exists>z. ses_trans s' = (keys_trans nk)\<lparr>dk_zstream := z\<rparr> else ses_trans s' = ses_trans s)
    \<and> (ses_newkeys s' = None \<longleftrightarrow> kex_sentnewkeys (ses_kexstate s) \<and> kex_recvnewkeys (ses_kexstate s))
    \<and> (kex_sentnewkeys (ses_kexstate s) \<and> kex_recvnewkeys (ses_kexstate s) \<longrightarrow>
        \<not> kex_sentkexinit (ses_kexstate s') \<and> \<not> kex_recvkexinit (ses_kexstate s') \<and> \<not> kex_sentnewkeys (ses_kexstate s')
        \<and> \<not> kex_recvnewkeys (ses_kexstate s'))"
proof -
  have k: "kex_sentkexinit (ses_kexstate s)" "kex_recvkexinit (ses_kexstate s)"
    using sw by (auto simp: switch_keys_def split: if_splits)
  obtain s1 where s1: "switch_recv a s nk = Inr s1" using sw k nk by (auto simp: switch_keys_def elim!: rbind_InrE)
  obtain nk1 where n1: "ses_newkeys s1 = Some nk1" "keys_trans nk1 = keys_trans nk" "ses_trans s1 = ses_trans s" "ses_kexstate s1 = ses_kexstate s"
    "ses_transseq s1 = ses_transseq s" "ses_recvseq s1 = ses_recvseq s"
    "if kex_recvnewkeys (ses_kexstate s) \<and> dk_valid (keys_recv nk)
       then (\<exists>z. ses_recv s1 = (keys_recv nk)\<lparr>dk_zstream := z\<rparr>) \<and> \<not> dk_valid (keys_recv nk1)
       else ses_recv s1 = ses_recv s \<and> keys_recv nk1 = keys_recv nk"
    using switch_recv_ok [OF s1] by blast
  obtain s2 where s2: "switch_trans a s1 nk1 = Inr s2" using sw k nk s1 n1(1) by (auto simp: switch_keys_def elim!: rbind_InrE)
  obtain nk2 where n2: "ses_newkeys s2 = Some nk2" "keys_recv nk2 = keys_recv nk1" "ses_recv s2 = ses_recv s1" "ses_kexstate s2 = ses_kexstate s"
    "ses_transseq s2 = ses_transseq s" "ses_recvseq s2 = ses_recvseq s"
    "if kex_sentnewkeys (ses_kexstate s) \<and> dk_valid (keys_trans nk)
       then (\<exists>z. ses_trans s2 = (keys_trans nk)\<lparr>dk_zstream := z\<rparr>) \<and> \<not> dk_valid (keys_trans nk2)
       else ses_trans s2 = ses_trans s \<and> keys_trans nk2 = keys_trans nk"
    using switch_trans_ok [OF s2, unfolded n1(2-6)] by blast
  have s': "s' = (if kex_sentnewkeys (ses_kexstate s) \<and> kex_recvnewkeys (ses_kexstate s)
     then kexinitialise e (s2\<lparr>ses_keys := (ses_keys s2)\<lparr>keys_algo_kex := keys_algo_kex nk2,
                   keys_algo_hostkey := keys_algo_hostkey nk2, keys_algo_signature := keys_algo_signature nk2\<rparr>,
                   ses_newkeys := None\<rparr>) else s2)"
    using sw k nk s1 n1(1) s2 n2(1,4) by (auto simp: switch_keys_def split: if_splits)
  show ?thesis
    using k n1(7) n2 unfolding s'
    by (simp add: kexinitialise_def upd_kexstate_def tick_def split: if_splits)
qed

text \<open>
  The peer's NEWKEYS switches the receiving keys and nothing else of a key exchange's other
  direction: \<^verbatim>\<open>recv_msg_newkeys\<close> succeeds only after both KEXINITs, then packets are received under
  the keys derived in this exchange, while the sending keys change only if they were pending.
  With strict key exchange the receive sequence number restarts at 0.
\<close>

theorem recv_msg_newkeys_switches:
  assumes r: "recv_msg_newkeys e a s = Inr s'" and nk: "ses_newkeys s = Some nk" and v: "dk_valid (keys_recv nk)"
    and t: "\<not> dk_valid (keys_trans nk)"
  shows "kex_sentkexinit (ses_kexstate s) \<and> kex_recvkexinit (ses_kexstate s)
    \<and> (\<exists>z. ses_recv s' = (keys_recv nk)\<lparr>dk_zstream := z\<rparr>) \<and> ses_trans s' = ses_trans s
    \<and> ses_transseq s' = ses_transseq s
    \<and> ses_recvseq s' = (if kex_strict_kex (ses_kexstate s) then 0 else ses_recvseq s)
    \<and> kex_recvfirstnewkeys (ses_kexstate s')
    \<and> (kex_sentnewkeys (ses_kexstate s) \<longrightarrow> ses_newkeys s' = None \<and> \<not> kex_recvkexinit (ses_kexstate s'))"
proof -
  define s0 where "s0 = upd_kexstate (\<lambda>k. k\<lparr>kex_recvnewkeys := True\<rparr>) s"
  obtain s1 where s1: "switch_keys e a s0 = Inr s1"
    and s': "s' = upd_kexstate (\<lambda>k. k\<lparr>kex_recvfirstnewkeys := True\<rparr>) (if kex_strict_kex (ses_kexstate s1) then s1\<lparr>ses_recvseq := 0\<rparr> else s1)"
    using r unfolding recv_msg_newkeys_def s0_def Let_def by (auto elim!: rbind_InrE)
  have nk0: "ses_newkeys s0 = Some nk" using nk by (simp add: s0_def upd_kexstate_def)
  show ?thesis
    using switch_keys_ok [OF s1 nk0] v t unfolding s' by (auto simp: s0_def upd_kexstate_def)
qed

theorem recv_msg_newkeys_switches_witness:
  "let k = zero_kexstate\<lparr>kex_sentkexinit := True, kex_recvkexinit := True, kex_sentnewkeys := True, kex_strict_kex := True\<rparr>;
       nk = (zero_keys ())\<lparr>keys_recv := (none_keys ())\<lparr>dk_valid := True\<rparr>\<rparr> in
   \<exists>s'. recv_msg_newkeys null_env (null_kex True) (fresh_session\<lparr>ses_kexstate := k, ses_newkeys := Some nk, ses_recvseq := 5\<rparr>) = Inr s'
     \<and> ses_recvseq s' = 0 \<and> dk_valid (ses_recv s') \<and> ses_newkeys s' = None"
proof -
  let ?k = "zero_kexstate\<lparr>kex_sentkexinit := True, kex_recvkexinit := True, kex_sentnewkeys := True, kex_strict_kex := True\<rparr>"
  let ?nk = "(zero_keys ())\<lparr>keys_recv := (none_keys ())\<lparr>dk_valid := True\<rparr>\<rparr>"
  let ?s = "fresh_session\<lparr>ses_kexstate := ?k, ses_newkeys := Some ?nk, ses_recvseq := 5\<rparr>"
  have "\<exists>s'. recv_msg_newkeys null_env (null_kex True) ?s = Inr s'"
    by (simp add: recv_msg_newkeys_def upd_kexstate_def switch_keys_def switch_recv_def switch_trans_def gen_new_zstream_recv_def
        gen_new_zstream_def zero_keys_def none_keys_def set_recv_def zero_kexstate_def Let_def)
  then obtain s' where r: "recv_msg_newkeys null_env (null_kex True) ?s = Inr s'" by blast
  have n: "ses_newkeys ?s = Some ?nk" "dk_valid (keys_recv ?nk)" "\<not> dk_valid (keys_trans ?nk)"
    by (simp_all add: zero_keys_def none_keys_def)
  from recv_msg_newkeys_switches [OF r n] have "ses_recvseq s' = 0 \<and> dk_valid (ses_recv s') \<and> ses_newkeys s' = None" by auto
  with r show ?thesis unfolding Let_def by blast
qed

lemma gen_new_keys_frame:
  assumes "gen_new_keys a s = Inr s'"
  shows "\<exists>nk. ses_newkeys s' = Some nk \<and> dk_valid (keys_trans nk) \<and> dk_valid (keys_recv nk) \<and> ses_keys s' = ses_keys s
    \<and> ses_kexstate s' = ses_kexstate s \<and> ses_transseq s' = ses_transseq s \<and> ses_recvseq s' = ses_recvseq s
    \<and> ses_dh_K s' = None \<and> ses_hash s' = None \<and> ses_writequeue s' = ses_writequeue s \<and> ses_dataallowed s' = ses_dataallowed s"
  using assms unfolding gen_new_keys_def Let_def
  by (auto split: option.splits elim!: rbind_InrE)

lemma encrypt_packet_kexstate:
  "encrypt_packet e s = Inr s' \<Longrightarrow> \<exists>n. ses_kexstate s' = (ses_kexstate s)\<lparr>kex_datatrans := n\<rparr>"
  using same_core_kexstate [OF encrypt_packet_core] by blast



end
