(* ===== verification/Kex_Init.thy ===== *)
theory Kex_Init
  imports Kex_Keys
begin

text \<open>
  KEXINIT: whatever the peer offers, the negotiation stays within its buffers, and the exchange
  hash starts with both identifications and both KEXINIT payloads.
\<close>

section \<open>Name-lists from the peer\<close>

lemma runs_get_algolist_loop:
  "len \<le> length al \<Longrightarrow> runs (\<lambda>_. True) (get_algolist_loop mx len i al names)"
proof (induction mx len i al names rule: get_algolist_loop.induct)
  case (1 mx len i al names)
  then show ?case by (subst get_algolist_loop.simps) auto
qed

lemma runs_get_algolist: "unat n \<le> length al \<Longrightarrow> runs (\<lambda>_. True) (get_algolist al n mx)"
  by (simp add: get_algolist_def Let_def runs_get_algolist_loop)

lemma runs_has_algo: "buf_wf b \<Longrightarrow> runs (\<lambda>(has, b'). same_buf b b') (buf_has_algo b nm)"
  unfolding buf_has_algo_def Let_def
  apply (rule runs_rbind [OF runs_getstring], assumption)
  apply clarsimp
  apply (rule runs_rbind [OF runs_get_algolist], simp)
  apply (rule runs_rbind [OF runs_setpos], simp add: same_buf_def)
  by (simp add: same_buf_def)

lemma match_server_bound: "match_server ss c j0 = Some j \<Longrightarrow> j0 \<le> j \<and> j < j0 + length ss"
  by (induction ss c j0 rule: match_server.induct) (auto split: if_splits)

lemma match_client_bound: "match_client cs ss i0 = Some (i, j) \<Longrightarrow> i0 \<le> i \<and> i < i0 + length cs \<and> j < length ss"
  by (induction cs ss i0 rule: match_client.induct) (auto split: option.splits dest: match_server_bound)

lemma length_local_names [simp]: "length (local_names as) = length as"
  by (simp add: local_names_def)

lemma runs_match_algo:
  "buf_wf b \<Longrightarrow> length as \<le> MAX_PROPOSED_ALGO \<Longrightarrow>
   runs (\<lambda>(r, good, b'). same_buf b b' \<and> (\<forall>x. r = Some x \<longrightarrow> x \<in> set as)) (buf_match_algo sv b as g2)"
  unfolding buf_match_algo_def Let_def
  apply (rule runs_rbind [OF runs_getstring], assumption)
  apply clarsimp
  apply (rule runs_rbind [OF runs_get_algolist], simp)
  by (auto split: option.splits dest!: match_client_bound)

section \<open>Negotiation\<close>

text \<open>What the code relies on of its tables.\<close>

definition tables_ok :: "('c, 'z) kex_env \<Rightarrow> bool" where
  "tables_ok a \<longleftrightarrow> length (kx_sshkex a) \<le> MAX_PROPOSED_ALGO \<and> length (kx_sigalgs a) \<le> MAX_PROPOSED_ALGO
     \<and> length (kx_sshciphers a) \<le> MAX_PROPOSED_ALGO \<and> length (kx_sshhashes a) \<le> MAX_PROPOSED_ALGO
     \<and> length (kx_compress_c2s a) \<le> MAX_PROPOSED_ALGO \<and> length (kx_compress_s2c a) \<le> MAX_PROPOSED_ALGO
     \<and> (\<forall>g \<in> set (kx_sigalgs a). algo_val g = DROPBEAR_SIGNATURE_RSA_SHA256 \<or> algo_val g < DROPBEAR_SIGNKEY_NUM_NAMED)
     \<and> (\<forall>c \<in> set (kx_sshciphers a). aead_crypt (algo_mode c) \<noteq> None \<longrightarrow> aead_mac (algo_mode c) \<noteq> None)"

lemma runs_match_or:
  assumes "buf_wf b" "length as \<le> MAX_PROPOSED_ALGO"
  shows "runs (\<lambda>(x, good, b'). same_buf b b' \<and> x \<in> set as) (match_or a b as g2)"
  unfolding match_or_def
  apply (rule runs_rbind [OF runs_match_algo [OF assms]])
  by (auto split: option.splits)

lemma runs_match_mac:
  assumes "buf_wf b" "tables_ok a"
  shows "runs (\<lambda>(r, b'). same_buf b b' \<and> (r = None \<longleftrightarrow> aead_crypt m \<noteq> None)) (match_mac a b m)"
  unfolding match_mac_def
  apply (rule runs_rbind [OF runs_match_algo [OF assms(1)]], use assms(2) in \<open>simp add: tables_ok_def\<close>)
  by (auto split: option.splits)

lemma runs_set_direction:
  assumes "tables_ok a" "c \<in> set (kx_sshciphers a)" "r = None \<longleftrightarrow> aead_crypt (algo_mode c) \<noteq> None"
  shows "runs (\<lambda>k'. dk_algo_crypt k' = algo_data c \<and> dk_crypt_mode k' = algo_mode c) (set_direction c r cmp k)"
  using assms unfolding set_direction_def tables_ok_def by (auto split: option.splits)

lemma runs_match_directions:
  assumes w: "buf_wf b" and a: "tables_ok a"
  shows "runs (\<lambda>(c2s, s2c, b'). same_buf b b') (match_directions a b)"
proof -
  have l: "length (kx_sshciphers a) \<le> MAX_PROPOSED_ALGO" "length (kx_compress_c2s a) \<le> MAX_PROPOSED_ALGO"
    "length (kx_compress_s2c a) \<le> MAX_PROPOSED_ALGO" using a by (simp_all add: tables_ok_def)
  show ?thesis
    unfolding match_directions_def
    apply (rule runs_rbind [OF runs_match_or [OF w l(1)]], clarsimp)
    apply (rule runs_rbind [OF runs_match_or [OF same_buf_wf l(1)]], assumption, clarsimp)
    apply (rule runs_rbind [OF runs_match_mac [OF same_buf_wf a]], assumption, clarsimp)
    apply (rule runs_rbind [OF runs_match_mac [OF same_buf_wf a]], assumption, clarsimp)
    apply (rule runs_rbind [OF runs_match_or [OF same_buf_wf l(2)]], assumption, clarsimp)
    apply (rule runs_rbind [OF runs_match_or [OF same_buf_wf l(3)]], assumption, clarsimp)
    apply (rule runs_rbind [OF runs_set_direction [OF a]], assumption, simp)
    apply (rule runs_rbind [OF runs_set_direction [OF a]], assumption, simp)
    by (auto simp: same_buf_def)
qed

text \<open>The part of the session that the negotiation leaves alone.\<close>

definition same_kex :: "('c, 'z) session \<Rightarrow> ('c, 'z) session \<Rightarrow> bool" where
  "same_kex s s' \<longleftrightarrow> ses_payload_beginning s' = ses_payload_beginning s \<and> ses_remoteident s' = ses_remoteident s
     \<and> ses_transkexinit s' = ses_transkexinit s \<and> ses_recvseq s' = ses_recvseq s \<and> ses_keys s' = ses_keys s
     \<and> kex_recvkexinit (ses_kexstate s') = kex_recvkexinit (ses_kexstate s)
     \<and> kex_sentkexinit (ses_kexstate s') = kex_sentkexinit (ses_kexstate s)
     \<and> kex_donefirstkex (ses_kexstate s') = kex_donefirstkex (ses_kexstate s)
     \<and> (kex_donefirstkex (ses_kexstate s) \<longrightarrow> kex_strict_kex (ses_kexstate s') = kex_strict_kex (ses_kexstate s))"

lemma same_kex_refl: "same_kex s s" by (simp add: same_kex_def)

lemma same_kex_upd [simp]:
  "same_kex s (s'\<lparr>ses_payload := x1\<rparr>) = same_kex s s'" "same_kex s (s'\<lparr>ses_newkeys := x2\<rparr>) = same_kex s s'"
  "same_kex s (s'\<lparr>ses_ignorenext := x3\<rparr>) = same_kex s s'"
  "same_kex s (upd_kexstate (\<lambda>k. k\<lparr>kex_them_firstfollows := x4\<rparr>) s') = same_kex s s'"
  "same_kex s (upd_kexstate (\<lambda>k. k\<lparr>kex_our_first_follows_matches := x5\<rparr>) s') = same_kex s s'"
  by (simp_all add: same_kex_def upd_kexstate_def)

lemma upd_kexstate_fields [simp]:
  "ses_payload (upd_kexstate f s) = ses_payload s" "ses_newkeys (upd_kexstate f s) = ses_newkeys s"
  by (simp_all add: upd_kexstate_def)

lemma runs_kex_flags:
  assumes w: "buf_wf b"
  shows "runs (\<lambda>(g2, b', s'). same_buf b b' \<and> same_kex s s' \<and> ses_payload s' = ses_payload s \<and> ses_newkeys s' = ses_newkeys s) (read_kex_flags a b s)"
  unfolding read_kex_flags_def Let_def
  apply (rule runs_rbind [OF runs_has_algo [OF w]], clarsimp split del: if_split)
  apply (rule runs_rbind [where Q = "\<lambda>(b', s'). same_buf b b' \<and> same_kex s s' \<and> ses_payload s' = ses_payload s \<and> ses_newkeys s' = ses_newkeys s"])
   apply (rule runs_if)
    apply (rule runs_rbind [OF runs_has_algo [OF same_buf_wf]], assumption)
    apply (auto simp: same_kex_def intro: same_buf_trans)[1]
   apply (simp add: same_kex_refl)
  apply (clarsimp split del: if_split)
  apply (rule runs_rbind [where Q = "\<lambda>(b', s'). same_buf b b' \<and> same_kex s s' \<and> ses_payload s' = ses_payload s \<and> ses_newkeys s' = ses_newkeys s"])
   apply (rule runs_if)
    apply (rule runs_rbind [OF runs_has_algo [OF same_buf_wf]], assumption)
    apply (auto simp: same_kex_def upd_kexstate_def intro: same_buf_trans)[1]
   apply simp
  by simp

lemma runs_read_kex_algos:
  assumes a: "tables_ok a" and pl: "ses_payload s = Some payload" "buf_wf payload" and nk: "ses_newkeys s = Some nk0"
  shows "runs (\<lambda>s'. \<exists>payload' nk. same_kex s s' \<and> ses_payload s' = Some payload' \<and> same_buf payload payload'
       \<and> ses_newkeys s' = Some nk \<and> keys_algo_kex nk \<noteq> None) (read_kex_algos a s)"
proof -
  have l: "length (kx_sshkex a) \<le> MAX_PROPOSED_ALGO" "length (kx_sigalgs a) \<le> MAX_PROPOSED_ALGO" using a by (simp_all add: tables_ok_def)
  show ?thesis
    unfolding read_kex_algos_def pl(1) nk prod.case option.case
    apply (rule runs_rbind [OF runs_incrpos [OF pl(2)]])
    apply (rule runs_rbind [OF runs_kex_flags], simp)
    apply (clarsimp split del: if_split)
    apply (rule runs_rbind [OF runs_match_or [OF same_buf_wf l(1)]], assumption, clarsimp split del: if_split)
    apply (clarsimp split: option.splits split del: if_split)
    apply (rule runs_rbind [OF runs_match_or [OF same_buf_wf l(2)]], assumption, clarsimp split del: if_split)
    apply (rule runs_rbind [where Q = "\<lambda>_. True"])
    subgoal using a by (auto simp: signkey_type_from_signature_def tables_ok_def)
    apply (rule runs_rbind [OF runs_match_directions [OF same_buf_wf a]], assumption, clarsimp split del: if_split)
    apply (rule runs_rbind [OF runs_eatstring [OF same_buf_wf]], assumption)
    apply (rule runs_rbind [OF runs_eatstring [OF same_buf_wf]], assumption)
    apply (rule runs_rbind [OF runs_getbool [OF same_buf_wf]], assumption)
    apply (clarsimp simp: Let_def split del: if_split)
    apply (rule runs_rbind [OF runs_getint [OF same_buf_wf]], assumption)
    by (clarsimp simp: same_buf_def)
qed



section \<open>The exchange hash\<close>

lemma put_peer_kexinit_appends:
  assumes kb: "at_end kb" and pl: "buf_wf payload" and r: "put_peer_kexinit kb payload beg = Inr (kb', payload')"
  shows "appends kb (sshstr (drop (unat beg) (buf_content payload))) kb'"
proof -
  obtain p1 p kb1 where p1: "buf_setpos payload beg = Inr p1" and p: "buf_getptr p1 (buf_len p1 - buf_pos p1) = Inr p"
    and k: "buf_putstring kb (drop p (buf_data p1)) (buf_len p1 - buf_pos p1) = Inr kb'"
    using r unfolding put_peer_kexinit_def Let_def by (auto elim!: rbind_InrE)
  have "unat beg \<le> unat (buf_len payload)" using p1 by (simp add: buf_setpos_def wnat split: if_splits)
  note ok = buf_setpos_ok [OF pl this]
  have e: "p1 = payload\<lparr>buf_pos := beg\<rparr>" using p1 ok(1) by simp
  then have w: "buf_wf p1" using ok(2) by simp
  have n: "unat (buf_len p1 - buf_pos p1) = length (buf_rest p1)"
    using buf_wf_bounds [OF w] buf_rest_length [OF w] by (simp add: unat_sub32 wnat)
  have pp: "p = unat (buf_pos p1)" using p w by (auto simp: buf_getptr_eq split: if_splits)
  have dt: "take (length (buf_rest p1)) (drop p (buf_data p1)) = buf_rest p1" "length (buf_rest p1) \<le> length (drop p (buf_data p1))"
  proof -
    have le: "unat (buf_pos p1) + length (buf_rest p1) \<le> length (buf_data p1)"
      using buf_wf_bounds [OF w] buf_rest_length [OF w] by linarith
    then show "take (length (buf_rest p1)) (drop p (buf_data p1)) = buf_rest p1"
      using buf_read_eq [OF w, of "length (buf_rest p1)"] pp by simp
    show "length (buf_rest p1) \<le> length (drop p (buf_data p1))" using le pp by simp
  qed
  have "buf_rest p1 = drop (unat beg) (buf_content payload)" using ok(4) e by simp
  with putstring_appends [OF kb _ k] n dt show ?thesis by simp
qed

lemma same_buf_content: "same_buf b b' \<Longrightarrow> buf_content b' = buf_content b"
  by (simp add: same_buf_def buf_content_def)

lemma put_kexhash_server:
  assumes kb: "at_end kb" "buf_content kb = []" and sv: "kx_server a" and pl: "buf_wf payload" and tk: "buf_wf tk"
    and id: "length (cstr rid) < 4294967296" and r: "put_kexhash a kb rid tk payload beg = Inr (kb', payload')"
  shows "buf_content kb' = sshstr (cstr rid) @ sshstr LOCAL_IDENT @ sshstr (drop (unat beg) (buf_content payload)) @ sshstr (buf_content tk)"
proof -
  let ?rl = "of_nat (length (cstr rid)) :: u32" and ?ll = "of_nat (length LOCAL_IDENT) :: u32"
  have lr: "unat ?rl = length (cstr rid)" using id by simp
  have ll: "unat ?ll = length LOCAL_IDENT" by (simp add: LOCAL_IDENT_def)
  have tr: "take (length (cstr rid)) rid = cstr rid" unfolding cstr_def by (rule takeWhile_eq_take [symmetric])
  obtain k1 k2 k3 where k: "buf_putstring kb rid ?rl = Inr k1" "buf_putstring k1 (LOCAL_IDENT @ [0]) ?ll = Inr k2"
     "put_peer_kexinit k2 payload beg = Inr (k3, payload')" "buf_putstring k3 (buf_data tk) (buf_len tk) = Inr kb'"
    using r sv unfolding put_kexhash_def Let_def by (auto elim!: rbind_InrE)
  have a1: "appends kb (sshstr (cstr rid)) k1" using putstring_appends [OF kb(1) _ k(1)] lr tr cstr_length [of rid] by simp
  have a2: "appends k1 (sshstr LOCAL_IDENT) k2" using putstring_appends [OF appends_end [OF a1] _ k(2)] ll by simp
  have a3: "appends k2 (sshstr (drop (unat beg) (buf_content payload))) k3"
    by (rule put_peer_kexinit_appends [OF appends_end [OF a2] pl k(3)])
  have a4: "appends k3 (sshstr (buf_content tk)) kb'"
    using putstring_appends [OF appends_end [OF a3] _ k(4)] buf_wf_bounds [OF tk] by (simp add: buf_content_def)
  show ?thesis using a1 a2 a3 a4 kb(2) by (simp add: appends_def)
qed

text \<open>
  C24. Handling a KEXINIT as a server (our own already sent): when \<^verbatim>\<open>recv_msg_kexinit\<close> returns, no KEXINIT was
  pending, the exchange hash starts with \<open>V_C, V_S, I_C, I_S\<close> as RFC 4253 prescribes (the peer's
  payload from its message byte on), only KEXDH_INIT is accepted next, and with strict key
  exchange in the first exchange the KEXINIT was the peer's first packet.
\<close>

theorem recv_msg_kexinit_server:
  assumes a: "tables_ok a" and sv: "kx_server a" and sent: "kex_sentkexinit (ses_kexstate s)"
    and st: "ses_remoteident s = Some rid" "ses_transkexinit s = Some tk" "ses_payload s = Some payload" "ses_newkeys s = Some nk0"
    and w: "buf_wf tk" "buf_wf payload" "length (cstr rid) < 4294967296" and r: "recv_msg_kexinit e a s = Inr s'"
  shows "\<not> kex_recvkexinit (ses_kexstate s) \<and> kex_recvkexinit (ses_kexstate s') \<and> ses_requirenext s' = SSH_MSG_KEXDH_INIT
    \<and> ses_transkexinit s' = None
    \<and> (\<exists>kb. ses_kexhashbuf s' = Some kb \<and> buf_content kb = sshstr (cstr rid) @ sshstr LOCAL_IDENT
         @ sshstr (drop (unat (ses_payload_beginning s)) (buf_content payload)) @ sshstr (buf_content tk))
    \<and> (kex_strict_kex (ses_kexstate s') \<and> \<not> kex_donefirstkex (ses_kexstate s) \<longrightarrow> ses_recvseq s = 1)"
proof -
  have nr: "\<not> kex_recvkexinit (ses_kexstate s)" using r sent by (auto simp: recv_msg_kexinit_def)
  obtain kb s1 where kb: "buf_new (of_nat (length LOCAL_IDENT) + of_nat (length (cstr rid)) + buf_len tk
                  + buf_len payload + KEXHASHBUF_MAX_INTS) = Inr kb" and s1: "read_kex_algos a s = Inr s1"
    using r sent nr st unfolding recv_msg_kexinit_def by (auto elim!: rbind_InrE)
  obtain payload1 where p1: "same_kex s s1" "ses_payload s1 = Some payload1" "same_buf payload payload1"
    using runs_read_kex_algos [OF a st(3) w(2) st(4)] s1 by auto
  obtain kb' p2 where k: "put_kexhash a kb rid tk payload1 (ses_payload_beginning s1) = Inr (kb', p2)"
    using r sent nr st kb s1 p1(2) unfolding recv_msg_kexinit_def by (auto elim!: rbind_InrE)
  define s2 where "s2 = upd_kexstate (\<lambda>k. k\<lparr>kex_recvkexinit := True\<rparr>)
     (s1\<lparr>ses_kexhashbuf := Some kb', ses_payload := Some p2, ses_transkexinit := None, ses_requirenext := SSH_MSG_KEXDH_INIT\<rparr>)"
  have s2: "s' = s2" "\<not> (kex_strict_kex (ses_kexstate s2) \<and> \<not> kex_donefirstkex (ses_kexstate s2) \<and> ses_recvseq s2 \<noteq> 1)"
    using r sent nr st kb s1 p1(2) k sv unfolding recv_msg_kexinit_def s2_def Let_def by (auto split: if_splits)
  have "buf_content kb' = sshstr (cstr rid) @ sshstr LOCAL_IDENT @ sshstr (drop (unat (ses_payload_beginning s1)) (buf_content payload1)) @ sshstr (buf_content tk)"
    using put_kexhash_server [OF _ _ sv same_buf_wf [OF p1(3)] w(1,3) k] buf_new_end [OF kb] by simp
  then show ?thesis
    using nr s2 p1(1) same_buf_content [OF p1(3)] by (auto simp: s2_def upd_kexstate_def same_kex_def)
qed

text \<open>Name-lists with one name that the local table has.\<close>

lemma one_name:
  assumes r: "reads b (sshstr nm @ t)" and nm: "0 \<notin> set nm" "comma \<notin> set nm" "length nm \<le> 9000"
  shows "\<exists>q. buf_getstring b = Inr (nm @ [0], of_nat (length nm), buf_adv b (4 + length nm)) \<and>
    get_algolist (nm @ [0]) (of_nat (length nm)) MAX_PROPOSED_ALGO = Inr q \<and> remote_names q = [nm] \<and> reads (buf_adv b (4 + length nm)) t"
proof -
  have sp: "split_comma nm = [nm]" using split_comma_append [OF nm(2), of "[]"] by simp
  show ?thesis using getstring_reads [OF r nm(3)] get_algolist_ok [OF nm(1), of "of_nat (length nm)" MAX_PROPOSED_ALGO] nm(3) sp
    by (auto simp: MAX_PROPOSED_ALGO_def)
qed

lemma one_match:
  assumes r: "reads b (sshstr nm @ t)" and nm: "0 \<notin> set nm" "comma \<notin> set nm" "length nm \<le> 9000"
    and x: "algo_name x = nm" "algo_usable x"
  shows "buf_match_algo True b [x] g = Inr (Some x, True, buf_adv b (4 + length nm)) \<and> reads (buf_adv b (4 + length nm)) t"
  using one_name [OF r nm] x by (auto simp: buf_match_algo_def local_names_def MAX_PROPOSED_ALGO_def Let_def)

lemma one_has:
  assumes r: "reads b (sshstr nm @ t)" and nm: "0 \<notin> set nm" "comma \<notin> set nm" "length nm \<le> 9000"
  shows "buf_has_algo b nm' = Inr (nm = nm', b)"
proof -
  have w: "buf_wf b" and l: "4 + length nm \<le> length (buf_rest b)" using r by (auto simp: reads_def)
  have w': "buf_wf (buf_adv b (4 + length nm))" using buf_adv_wf [OF w l] .
  have "buf_setpos (buf_adv b (4 + length nm)) (buf_pos b) = Inr b"
    using buf_setpos_ok(1) [OF w', of "buf_pos b"] buf_wf_bounds [OF w] by (simp add: buf_adv_def)
  then show ?thesis using one_name [OF r nm] by (auto simp: buf_has_algo_def Let_def)
qed

text \<open>Tables of one algorithm each, all with the same name, and a peer that offers it.\<close>

definition one_algo :: "int \<Rightarrow> 'd \<Rightarrow> 'm \<Rightarrow> ('d, 'm) algo_type" where
  "one_algo v d m = \<lparr>algo_name = [110], algo_val = v, algo_data = d, algo_usable = True, algo_mode = m\<rparr>"

lemma one_algo_fields [simp]: "algo_name (one_algo v d m) = [110]" "algo_val (one_algo v d m) = v" "algo_data (one_algo v d m) = d"
  "algo_usable (one_algo v d m)" "algo_mode (one_algo v d m) = m"
  by (simp_all add: one_algo_def)

definition one_kex :: "(unit, unit) kex_env" where
  "one_kex = (null_kex True)\<lparr>kx_sshkex := [one_algo 0 (Some \<lparr>kex_hash = (\<lambda>x. [of_nat (length x)]), kex_hashsize = 1\<rparr>) ()],
     kx_sigalgs := [one_algo 5 () ()], kx_sshciphers := [one_algo 0 dropbear_nocipher dropbear_mode_none],
     kx_sshhashes := [one_algo 0 dropbear_nohash ()], kx_compress_c2s := [one_algo 0 COMP_NONE ()],
     kx_compress_s2c := [one_algo 0 COMP_NONE ()]\<rparr>"

definition one_offer :: bytes where
  "one_offer = sshstr [110] @ sshstr [110] @ sshstr [110] @ sshstr [110] @ sshstr [110] @ sshstr [110] @ sshstr [110] @ sshstr [110]
     @ sshstr [] @ sshstr [] @ [0] @ store32h 0"

lemma one_match_or:
  assumes "reads b (sshstr [110] @ t)"
  shows "match_or one_kex b [one_algo v d m] g = Inr (one_algo v d m, True, buf_adv b 5) \<and> reads (buf_adv b 5) t"
  using one_match [OF assms, of "one_algo v d m" g]
  by (simp add: match_or_def one_kex_def null_kex_def one_algo_def comma_def)

lemma one_match_mac:
  assumes "reads b (sshstr [110] @ t)"
  shows "match_mac one_kex b dropbear_mode_none = Inr (Some (one_algo 0 dropbear_nohash ()), buf_adv b 5) \<and> reads (buf_adv b 5) t"
  using one_match [OF assms, of "one_algo 0 dropbear_nohash ()" False]
  by (simp add: match_mac_def one_kex_def null_kex_def one_algo_def comma_def dropbear_mode_none_def)

lemma one_directions:
  assumes r: "reads b (sshstr [110] @ sshstr [110] @ sshstr [110] @ sshstr [110] @ sshstr [110] @ sshstr [110] @ t)"
  shows "\<exists>c2s s2c b'. match_directions one_kex b = Inr (c2s, s2c, b') \<and> reads b' t"
proof -
  note m1 = one_match_or [OF r]
  note m2 = one_match_or [OF conjunct2 [OF m1]]
  note m3 = one_match_mac [OF conjunct2 [OF m2]]
  note m4 = one_match_mac [OF conjunct2 [OF m3]]
  note m5 = one_match_or [OF conjunct2 [OF m4]]
  note m6 = one_match_or [OF conjunct2 [OF m5]]
  have k: "kx_sshciphers one_kex = [one_algo 0 dropbear_nocipher dropbear_mode_none]" "kx_compress_c2s one_kex = [one_algo 0 COMP_NONE ()]"
    "kx_compress_s2c one_kex = [one_algo 0 COMP_NONE ()]" by (simp_all add: one_kex_def)
  show ?thesis
    by (simp add: match_directions_def k set_direction_def m1 m2 m3 m4 m5 m6 del: buf_adv_adv)
qed

lemma one_negotiation:
  assumes r: "reads b (replicate 16 0 @ one_offer)" and s: "ses_payload s = Some b" "ses_newkeys s = Some nk0"
    and f: "\<not> kex_donefirstkex (ses_kexstate s)"
  shows "\<exists>s'. read_kex_algos one_kex s = Inr s'"
proof -
  let ?n = "[110] :: bytes"
  have b1: "buf_incrpos b 16 = Inr (buf_adv b 16)" "reads (buf_adv b 16) one_offer"
    using r reads_adv [OF r] by (simp_all add: reads_def buf_incrpos_eq)
  have has: "buf_has_algo (buf_adv b 16) nm' = Inr (?n = nm', buf_adv b 16)" for nm'
    using one_has [OF b1(2) [unfolded one_offer_def]] by (simp add: comma_def)
  have fl: "read_kex_flags one_kex (buf_adv b 16) s = Inr (False, buf_adv b 16, s)"
    by (simp add: read_kex_flags_def has KEXGUESS2_ALGO_NAME_def SSH_EXT_INFO_C_def SSH_STRICT_KEX_C_def SSH_STRICT_KEX_S_def lit_def Let_def)
  note m1 = one_match_or [OF b1(2) [unfolded one_offer_def]]
  note m2 = one_match_or [OF conjunct2 [OF m1]]
  obtain c2s s2c b3 where d: "match_directions one_kex (buf_adv (buf_adv (buf_adv b 16) 5) 5) = Inr (c2s, s2c, b3)"
     "reads b3 (sshstr [] @ sshstr [] @ [0] @ store32h 0)" using one_directions [OF conjunct2 [OF m2]] by auto
  note e1 = eatstring_reads [OF d(2), simplified]
  note e2 = eatstring_reads [OF conjunct2 [OF e1], simplified]
  have e3: "buf_getbool (buf_adv (buf_adv b3 4) 4) = Inr (False, buf_adv (buf_adv (buf_adv b3 4) 4) 1)"
     "reads (buf_adv (buf_adv (buf_adv b3 4) 4) 1) (store32h 0)"
    using getbool_reads [of "buf_adv (buf_adv b3 4) 4" 0 "store32h 0"] e2 by simp_all
  have e4: "buf_getint (buf_adv (buf_adv (buf_adv b3 4) 4) 1) = Inr (0, buf_adv (buf_adv (buf_adv (buf_adv b3 4) 4) 1) 4)"
    using getint_reads [of _ 0 "[]"] e3(2) by simp
  have k: "kx_sshkex one_kex = [one_algo 0 (Some \<lparr>kex_hash = (\<lambda>x. [of_nat (length x)]), kex_hashsize = 1\<rparr>) ()]"
    "kx_sigalgs one_kex = [one_algo 5 () ()]" "kx_first_guess one_kex = None" by (simp_all add: one_kex_def null_kex_def)
  show ?thesis
    using e1 e2 e3 e4
    by (simp add: read_kex_algos_def s b1(1) fl k m1 m2 d(1) signkey_type_from_signature_def DROPBEAR_SIGNATURE_RSA_SHA256_def
        DROPBEAR_SIGNKEY_NUM_NAMED_def Let_def del: buf_adv_adv)
qed

text \<open>The hash buffer that \<^verbatim>\<open>recv_msg_kexinit\<close> allocates is large enough.\<close>

lemma putstring_fits:
  assumes "buf_wf b" "unat n \<le> length src" "buf_fits b (4 + unat n + m)"
  shows "\<exists>b'. buf_putstring b src n = Inr b' \<and> buf_wf b' \<and> buf_fits b' m"
proof -
  let ?x = "store32h n @ take (unat n) src"
  have f: "buf_fits b (length ?x)" "buf_fits b (length ?x + m)" "buf_fits b (4 + unat n)"
    using assms by (simp_all add: buf_fits_def)
  have "buf_putstring b src n = Inr (buf_put b ?x)" using buf_putstring_eq [OF assms(1,2)] f(3) by simp
  then show ?thesis using buf_put_wf [OF assms(1) f(1)] buf_put_fits [OF assms(1) f(2)] by blast
qed

lemma peer_kexinit_fits:
  assumes "buf_wf kb" "buf_wf p" "unat beg \<le> unat (buf_len p)" "buf_fits kb (4 + unat (buf_len p) + m)"
  shows "\<exists>kb' p'. put_peer_kexinit kb p beg = Inr (kb', p') \<and> buf_wf kb' \<and> buf_fits kb' m"
proof -
  define q where "q = p\<lparr>buf_pos := beg\<rparr>"
  have q: "buf_setpos p beg = Inr q" "buf_wf q" "buf_len q = buf_len p" "buf_pos q = beg" "buf_data q = buf_data p"
    using buf_setpos_ok [OF assms(2,3)] by (auto simp: q_def)
  have n: "unat (buf_len q - buf_pos q) = unat (buf_len p) - unat beg" using q assms(3) by (simp add: unat_sub32 wnat)
  have g: "buf_getptr q (buf_len q - buf_pos q) = Inr (unat beg)"
    using n q buf_rest_length [OF q(2)] by (simp add: buf_getptr_eq [OF q(2)])
  have le: "unat (buf_len q - buf_pos q) \<le> length (drop (unat beg) (buf_data q))" using n q(5) buf_wf_bounds [OF assms(2)] by simp
  have f: "buf_fits kb (4 + unat (buf_len q - buf_pos q) + m)" using assms(4) n by (simp add: buf_fits_def)
  obtain kb' where "buf_putstring kb (drop (unat beg) (buf_data q)) (buf_len q - buf_pos q) = Inr kb'" "buf_wf kb'" "buf_fits kb' m"
    using putstring_fits [OF assms(1) le f] by blast
  then show ?thesis using q(1) g by (simp add: put_peer_kexinit_def Let_def)
qed

lemma put_kexhash_fits:
  assumes sv: "kx_server a" and tk: "buf_wf tk" and p: "buf_wf p" "unat beg \<le> unat (buf_len p)"
    and l: "length (cstr rid) + unat (buf_len tk) + unat (buf_len p) \<le> 900000"
    and kb: "buf_new (of_nat (length LOCAL_IDENT) + of_nat (length (cstr rid)) + buf_len tk + buf_len p + KEXHASHBUF_MAX_INTS) = Inr kb"
  shows "\<exists>kb' p'. put_kexhash a kb rid tk p beg = Inr (kb', p')"
proof -
  let ?rl = "of_nat (length (cstr rid)) :: u32" and ?ll = "of_nat (length LOCAL_IDENT) :: u32"
  have li: "length LOCAL_IDENT = 24" by (simp add: LOCAL_IDENT_def)
  have u1: "unat ?rl = length (cstr rid)" "unat ?ll = 24" using l li by simp_all
  have u2: "unat (?ll + ?rl) = 24 + length (cstr rid)" using u1 l by (simp add: unat_add32)
  have u3: "unat (?ll + ?rl + buf_len tk) = 24 + length (cstr rid) + unat (buf_len tk)" using u2 l by (simp add: unat_add32)
  have u4: "unat (?ll + ?rl + buf_len tk + buf_len p) = 24 + length (cstr rid) + unat (buf_len tk) + unat (buf_len p)" using u3 l by (simp add: unat_add32)
  have u5: "unat (?ll + ?rl + buf_len tk + buf_len p + KEXHASHBUF_MAX_INTS) = 24 + length (cstr rid) + unat (buf_len tk) + unat (buf_len p) + 3012"
    using u4 l by (subst unat_add32) (simp_all add: KEXHASHBUF_MAX_INTS_def)
  have w: "buf_wf kb" using kb by (rule buf_new_wf)
  have f0: "buf_fits kb (4 + unat ?rl + (4 + unat ?ll + (4 + unat (buf_len p) + (4 + unat (buf_len tk) + 0))))"
    using buf_new_fits [OF kb] u1 u5 by simp
  obtain k1 where k1: "buf_putstring kb rid ?rl = Inr k1" "buf_wf k1" "buf_fits k1 (4 + unat ?ll + (4 + unat (buf_len p) + (4 + unat (buf_len tk) + 0)))"
    using putstring_fits [OF w _ f0] u1(1) cstr_length [of rid] by auto
  obtain k2 where k2: "buf_putstring k1 (LOCAL_IDENT @ [0]) ?ll = Inr k2" "buf_wf k2" "buf_fits k2 (4 + unat (buf_len p) + (4 + unat (buf_len tk) + 0))"
    using putstring_fits [OF k1(2) _ k1(3), of "LOCAL_IDENT @ [0]"] u1(2) li by auto
  obtain k3 p' where k3: "put_peer_kexinit k2 p beg = Inr (k3, p')" "buf_wf k3" "buf_fits k3 (4 + unat (buf_len tk) + 0)"
    using peer_kexinit_fits [OF k2(2) p k2(3)] by blast
  obtain k4 where "buf_putstring k3 (buf_data tk) (buf_len tk) = Inr k4"
    using putstring_fits [OF k3(2) _ k3(3), of "buf_data tk"] buf_wf_bounds [OF tk] by auto
  then show ?thesis using sv k1(1) k2(1) k3(1) by (simp add: put_kexhash_def Let_def)
qed

definition one_payload :: buffer where
  "one_payload = (let d = 20 # replicate 16 0 @ one_offer in
     \<lparr>buf_data = d, buf_len = of_nat (length d), buf_pos = 1, buf_size = of_nat (length d)\<rparr>)"

lemma one_payload_reads: "reads one_payload (replicate 16 0 @ one_offer)"
  using mkbuf_reads [of "[20]" "replicate 16 0 @ one_offer"] by (simp add: one_payload_def one_offer_def Let_def)

lemma one_payload_len: "unat (buf_len one_payload) = 70" "buf_content one_payload = 20 # replicate 16 0 @ one_offer"
  by (simp_all add: one_payload_def one_offer_def Let_def buf_content_def)

theorem recv_msg_kexinit_server_witness:
  "let s = fresh_session\<lparr>ses_payload := Some one_payload, ses_payload_beginning := 0, ses_recvseq := 1, ses_remoteident := Some [120, 0],
         ses_transkexinit := Some (mkbuf [20]), ses_newkeys := Some (zero_keys ()), ses_kexstate := zero_kexstate\<lparr>kex_sentkexinit := True\<rparr>\<rparr> in
   \<exists>s' kb. recv_msg_kexinit null_env one_kex s = Inr s' \<and> ses_requirenext s' = SSH_MSG_KEXDH_INIT \<and> ses_kexhashbuf s' = Some kb
     \<and> buf_content kb = sshstr [120] @ sshstr LOCAL_IDENT @ sshstr (20 # replicate 16 0 @ one_offer) @ sshstr [20]"
proof -
  let ?s = "fresh_session\<lparr>ses_payload := Some one_payload, ses_payload_beginning := 0, ses_recvseq := 1, ses_remoteident := Some [120, 0],
         ses_transkexinit := Some (mkbuf [20]), ses_newkeys := Some (zero_keys ()), ses_kexstate := zero_kexstate\<lparr>kex_sentkexinit := True\<rparr>\<rparr>"
  have w: "buf_wf one_payload" using one_payload_reads by (simp add: reads_def)
  have a: "tables_ok one_kex" "kx_server one_kex"
    by (simp_all add: tables_ok_def one_kex_def null_kex_def MAX_PROPOSED_ALGO_def DROPBEAR_SIGNKEY_NUM_NAMED_def dropbear_mode_none_def)
  have tk: "buf_wf (mkbuf [20])" "unat (buf_len (mkbuf [20])) = 1" "buf_content (mkbuf [20]) = [20]"
    using mkbuf_wf [of "[20]"] by (simp_all add: mkbuf_def buf_content_def)
  have c: "cstr [120, 0] = [120]" by (simp add: cstr_def)
  obtain kb where kb: "buf_new (of_nat (length LOCAL_IDENT) + of_nat (length (cstr [120, 0])) + buf_len (mkbuf [20])
                  + buf_len one_payload + KEXHASHBUF_MAX_INTS) = Inr kb"
    by (simp add: buf_new_def c mkbuf_def one_payload_def one_offer_def LOCAL_IDENT_def KEXHASHBUF_MAX_INTS_def BUF_MAX_SIZE_def Let_def)
  obtain s1 where s1: "read_kex_algos one_kex ?s = Inr s1"
    using one_negotiation [OF one_payload_reads, of ?s] by (auto simp: zero_kexstate_def)
  obtain p1 where p1: "same_kex ?s s1" "ses_payload s1 = Some p1" "same_buf one_payload p1"
    using runs_read_kex_algos [OF a(1) _ w, of ?s] s1 by auto
  have l: "buf_len p1 = buf_len one_payload" "ses_payload_beginning s1 = 0" "ses_recvseq s1 = 1"
    using p1 by (simp_all add: same_buf_def same_kex_def)
  obtain kb' p2 where k: "put_kexhash one_kex kb [120, 0] (mkbuf [20]) p1 (ses_payload_beginning s1) = Inr (kb', p2)"
    using put_kexhash_fits [OF a(2) tk(1) same_buf_wf [OF p1(3)], of "ses_payload_beginning s1" "[120, 0]" kb] kb l tk(2) one_payload_len(1) c by auto
  obtain s' where r: "recv_msg_kexinit null_env one_kex ?s = Inr s'"
    using kb s1 p1(2) k l(3) by (simp add: recv_msg_kexinit_def Let_def upd_kexstate_def zero_kexstate_def)
  have "ses_requirenext s' = SSH_MSG_KEXDH_INIT \<and> (\<exists>kb. ses_kexhashbuf s' = Some kb \<and> buf_content kb = sshstr [120] @ sshstr LOCAL_IDENT
     @ sshstr (20 # replicate 16 0 @ one_offer) @ sshstr [20])"
    using recv_msg_kexinit_server [OF a _ _ _ _ _ tk(1) w _ r, where rid = "[120, 0]" and ?nk0.0 = "zero_keys ()"] c tk(3) one_payload_len(2) by simp
  with r show ?thesis unfolding Let_def by blast
qed

end
