(* ===== verification/Packet_Send.thy ===== *)
theory Packet_Send
  imports Packet_Safe
begin

text \<open>
  Sending is safe: in a session whose keys are sane, \<^verbatim>\<open>encrypt_packet\<close> accepts any payload that fits
  its buffer, stays inside the buffer it allocates, with AEAD modes and compression included, and
  leaves the session ready for the next packet. The theories of the components that send use
  \<open>runs_encrypt_packet\<close>.
\<close>

section \<open>A session that can send\<close>

text \<open>
  What sending relies on of a cipher mode, and of zlib: the output has the size that was asked
  for; deflate with the documented expansion to spare consumes all its input.
\<close>

definition mode_enc_sane :: "'c dropbear_cipher_mode \<Rightarrow> bool" where
  "mode_enc_sane m \<longleftrightarrow> (\<forall>bs c out c'. mode_encrypt m bs c = Some (out, c') \<longrightarrow> length out = length bs)
     \<and> (\<forall>f q inp n t c out c'. aead_crypt m = Some f \<longrightarrow> f q inp n t c True = Some (out, c') \<longrightarrow> length out = n + t)"

definition deflate_ok :: "'z env \<Rightarrow> bool" where
  "deflate_ok e \<longleftrightarrow> (\<forall>z inp n out l z'. e_deflate e z inp n = ZResult True out l z' \<longrightarrow> length inp + 21 \<le> n \<longrightarrow> l = 0)"

definition send_ok :: "'z env \<Rightarrow> ('c, 'z) session \<Rightarrow> bool" where
  "send_ok e s \<longleftrightarrow> buf_wf (ses_writepayload s) \<and> buf_size (ses_writepayload s) = TRANS_MAX_PAYLOAD_LEN
     \<and> ciph_blocksize (dk_algo_crypt (ses_trans s)) \<noteq> 0 \<and> trans_macsize s \<le> MAX_MAC_LEN
     \<and> mode_enc_sane (dk_crypt_mode (ses_trans s)) \<and> (dk_algo_comp (ses_trans s) \<noteq> COMP_NONE \<longrightarrow> dk_zstream (ses_trans s) \<noteq> None)
     \<and> env_ok e \<and> deflate_ok e"

text \<open>The payload buffer between two messages.\<close>

definition wp_empty :: "('c, 'z) session \<Rightarrow> bool" where
  "wp_empty s \<longleftrightarrow> buf_pos (ses_writepayload s) = 0 \<and> buf_len (ses_writepayload s) = 0"

lemma send_ok_wp:
  "send_ok e s \<Longrightarrow> buf_wf wp \<Longrightarrow> buf_size wp = TRANS_MAX_PAYLOAD_LEN \<Longrightarrow> send_ok e (s\<lparr>ses_writepayload := wp\<rparr>)"
  by (simp add: send_ok_def trans_macsize_def)

lemma send_ok_D:
  assumes "send_ok e s"
  shows "buf_wf (ses_writepayload s)" "buf_size (ses_writepayload s) = TRANS_MAX_PAYLOAD_LEN" "env_ok e"
    "unat (buf_len (ses_writepayload s)) \<le> 16384" "\<And>t n. length (e_random e t n) = n"
  using assms buf_wf_bounds [of "ses_writepayload s"] by (simp_all add: send_ok_def TRANS_MAX_PAYLOAD_LEN_def env_ok_def)

section \<open>Building the packet\<close>

lemma env_ok_deflate: "env_ok e \<Longrightarrow> e_deflate e z inp n = ZResult ok out l z' \<Longrightarrow> length out \<le> n"
  unfolding env_ok_def by blast

lemma deflate_all: "deflate_ok e \<Longrightarrow> e_deflate e z inp n = ZResult True out l z' \<Longrightarrow> length inp + 21 \<le> n \<Longrightarrow> l = 0"
  unfolding deflate_ok_def by blast

lemma unat_ZCE: "unat ZLIB_COMPRESS_EXPANSION = 21"
  by (simp add: ZLIB_COMPRESS_EXPANSION_def RECV_MAX_PAYLOAD_LEN_def)

lemma runs_buf_compress:
  assumes d: "buf_wf dest" "unat (buf_pos dest) + unat n + 21 \<le> unat (buf_size dest)"
    and s: "buf_wf src" "buf_pos src = 0" "n = buf_len src" and e: "env_ok e" "deflate_ok e" and z: "z \<noteq> None"
  shows "runs (\<lambda>(dest', src', z'). buf_wf dest' \<and> buf_wf src' \<and> buf_size src' = buf_size src \<and> z' \<noteq> None) (buf_compress e z dest src n)"
proof -
  obtain z0 where z0: "z = Some z0" using z by blast
  note bd = buf_wf_bounds [OF d(1)] and bs = buf_wf_bounds [OF s(1)]
  have ao: "unat (buf_size dest - buf_pos dest) = unat (buf_size dest) - unat (buf_pos dest)" using bd by (simp add: unat_sub32 wnat)
  have nz: "unat (n + ZLIB_COMPRESS_EXPANSION) = unat n + 21" using d(2) bd by (simp add: unat_add32 unat_ZCE)
  have a: "n + ZLIB_COMPRESS_EXPANSION \<le> buf_size dest - buf_pos dest" using ao nz d(2) by (simp add: wnat)
  show ?thesis
    unfolding buf_compress_def z0 option.case Let_def
    apply (rule runs_rbind [where Q = "\<lambda>_. True"], simp add: a dropbear_assert_def)
    apply (rule runs_rbind [OF runs_getptr [OF s(1)]])
    apply (rule runs_rbind [OF runs_mem_read], use bs in simp)
    apply (rule runs_rbind [OF runs_getwriteptr [OF d(1)]])
    apply (clarsimp simp: Let_def split: zresult.splits)
    subgoal for ok out l z'
      apply (rule runs_rbind [OF runs_overwrite])
      subgoal using env_ok_deflate [OF e(1), of z0 "take (unat (buf_len src)) (buf_data src)" "unat (buf_size dest) - unat (buf_pos dest)" ok out l z'] bd ao s by simp
      apply (rule runs_rbind [OF runs_setpos [OF s(1)]])
      apply (rule runs_rbind [OF runs_setlen], rule buf_wf_over [OF d(1)], use bd in simp)
      apply (rule runs_rbind [OF runs_setpos], simp)
      apply (rule runs_if, simp)
      apply (rule runs_rbind [where Q = "\<lambda>_. True"])
      subgoal using deflate_all [OF e(2), of z0 "take (unat (buf_len src)) (buf_data src)" "unat (buf_size dest) - unat (buf_pos dest)" out l z'] d(2) ao s bs
        by (auto simp: dropbear_assert_def)
      by simp
    done
qed

lemma runs_packet_payload:
  assumes ok: "send_ok e s" and wp: "buf_wf wp" "buf_pos wp = 0" "buf_size wp = TRANS_MAX_PAYLOAD_LEN"
  shows "runs (\<lambda>(wb, wp', z). buf_wf wb \<and> buf_wf wp' \<and> buf_size wp' = buf_size wp
       \<and> (dk_algo_comp (ses_trans s) \<noteq> COMP_NONE \<longrightarrow> z \<noteq> None)) (packet_payload e s wp)"
proof -
  let ?k = "ses_trans s"
  define bs where "bs = (ucast (ciph_blocksize (dk_algo_crypt ?k)) :: u32)"
  define ms where "ms = (ucast (hash_hashsize (dk_algo_mac ?k)) :: u32)"
  define sz where "sz = (buf_len wp + 4 + 1) + max MIN_PACKET_LEN bs + 3 + ms + ZLIB_COMPRESS_EXPANSION + 1"
  have l: "unat (buf_len wp) \<le> 16384" using buf_wf_bounds [OF wp(1)] wp(3) by (simp add: TRANS_MAX_PAYLOAD_LEN_def)
  have b: "unat bs < 256" "unat ms < 256" using unat_u8_lt by (simp_all add: bs_def ms_def)
  have mx: "unat (max MIN_PACKET_LEN bs) \<le> 256" using b by (simp add: max_def MIN_PACKET_LEN_def wnat)
  have u1: "unat (buf_len wp + 4 + 1) = unat (buf_len wp) + 5" using l by (simp add: unat_add32)
  have u2: "unat (buf_len wp + 4 + 1 + max MIN_PACKET_LEN bs) = unat (buf_len wp) + 5 + unat (max MIN_PACKET_LEN bs)"
    using l mx u1 by (simp add: unat_add32)
  have u3: "unat (buf_len wp + 4 + 1 + max MIN_PACKET_LEN bs + 3) = unat (buf_len wp) + 8 + unat (max MIN_PACKET_LEN bs)"
    using l mx u2 by (simp add: unat_add32)
  have u4: "unat (buf_len wp + 4 + 1 + max MIN_PACKET_LEN bs + 3 + ms) = unat (buf_len wp) + 8 + unat (max MIN_PACKET_LEN bs) + unat ms"
    using l mx u3 b by (simp add: unat_add32)
  have u5: "unat (buf_len wp + 4 + 1 + max MIN_PACKET_LEN bs + 3 + ms + ZLIB_COMPRESS_EXPANSION)
      = unat (buf_len wp) + 29 + unat (max MIN_PACKET_LEN bs) + unat ms"
    using l mx u4 b by (simp add: unat_add32 unat_ZCE)
  have "unat sz = unat (buf_len wp) + 30 + unat (max MIN_PACKET_LEN bs) + unat ms"
    unfolding sz_def using l mx u5 b by (subst unat_add32) simp_all
  then have u: "5 + unat (buf_len wp) + 21 \<le> unat sz" by simp
  have off: "unat PACKET_PAYLOAD_OFF = 5" by (simp add: PACKET_PAYLOAD_OFF_def)
  have zs: "is_compress_trans s \<Longrightarrow> dk_zstream ?k \<noteq> None" "dk_algo_comp ?k \<noteq> COMP_NONE \<Longrightarrow> dk_zstream ?k \<noteq> None"
    using ok by (auto simp: send_ok_def is_compress_trans_def)
  have e: "env_ok e" "deflate_ok e" using ok by (simp_all add: send_ok_def)
  show ?thesis
    unfolding packet_payload_def Let_def bs_def [symmetric] ms_def [symmetric] sz_def [symmetric]
    apply (rule runs_rbind [OF runs_new])
    apply (rule runs_rbind [OF runs_setlen], simp)
    apply (rule runs_rbind [OF runs_setpos], simp)
    apply (rule runs_if)
    subgoal by (rule runs_weaken [OF runs_buf_compress [OF _ _ wp(1,2) refl e zs(1)]]) (use u off in auto)
    apply (rule runs_rbind [OF runs_getwriteptr], simp)
    apply (rule runs_rbind [OF runs_getptr [OF wp(1)]])
    apply (rule runs_rbind [OF runs_mem_read], use buf_wf_bounds [OF wp(1)] in simp)
    apply (rule runs_rbind [OF runs_overwrite], use buf_wf_bounds(1) in simp)
    apply (rule runs_rbind [OF runs_incrwritepos], rule buf_wf_over, simp, use buf_wf_bounds(1) in simp)
    using wp zs(2) by simp
qed

lemma runs_getptr_data:
  "buf_wf b \<Longrightarrow> runs (\<lambda>p. p = unat (buf_pos b) \<and> p + unat n \<le> length (buf_data b)) (buf_getptr b n)"
  using buf_wf_bounds [of b] by (auto intro: runs_weaken [OF runs_getptr])

lemma runs_getwriteptr_data:
  "buf_wf b \<Longrightarrow> runs (\<lambda>p. p = unat (buf_pos b) \<and> p + unat n \<le> length (buf_data b)) (buf_getwriteptr b n)"
  by (rule runs_weaken [OF runs_getwriteptr]) (auto dest: buf_wf_bounds(1))

lemma runs_packet_frame:
  assumes "buf_wf wb" "\<And>t n. length (e_random e t n) = n"
  shows "runs buf_wf (packet_frame e t wb pad)"
  unfolding packet_frame_def
  apply (rule runs_rbind [OF runs_setpos [OF assms(1)]])
  apply (rule runs_rbind [OF runs_putint], simp)
  apply (rule runs_rbind [OF runs_putbyte], simp add: grown_def)
  apply (rule runs_rbind [OF runs_setpos], simp add: grown_def)
  apply (rule runs_rbind [OF runs_incrlen], simp)
  apply (rule runs_rbind [OF runs_getptr_data], simp)
  apply (rule runs_rbind [OF runs_overwrite], use assms(2) in simp)
  by (simp, rule buf_wf_over) (auto dest: buf_wf_bounds(1))

lemma runs_encrypt_aead:
  assumes w: "buf_wf wb" and f: "aead_crypt (dk_crypt_mode k) = Some f" and m: "mode_enc_sane (dk_crypt_mode k)"
  shows "runs (\<lambda>(wb', c). buf_wf wb') (encrypt_aead q k f wb)"
proof -
  have out: "f q inp n t c True = Some (out, c') \<Longrightarrow> length out = n + t" for q inp n t c out c'
    using m f unfolding mode_enc_sane_def by blast
  show ?thesis
    unfolding encrypt_aead_def Let_def
    apply (rule runs_rbind [OF runs_setpos [OF w]])
    apply (rule runs_rbind [OF runs_incrlen], simp)
    apply (rule runs_rbind [OF runs_getptr_data], simp)
    apply (rule runs_rbind [OF runs_mem_read], simp)
    apply (rule runs_rbind [OF runs_getwriteptr_data], simp)
    apply (clarsimp split: option.splits)
    apply (rule runs_rbind [OF runs_overwrite])
    subgoal by (auto dest!: out)
    apply (rule runs_rbind [OF runs_incrpos], rule buf_wf_over, assumption, use buf_wf_bounds(1) [OF w] in simp)
    by simp
qed

lemma runs_encrypt_mac:
  assumes w: "buf_wf wb" and m: "mode_enc_sane (dk_crypt_mode k)" "unat (hash_hashsize (dk_algo_mac k)) \<le> MAX_MAC_LEN"
  shows "runs (\<lambda>(wb', c). buf_wf wb') (encrypt_mac e q k wb)"
proof -
  have out: "mode_encrypt (dk_crypt_mode k) bs c = Some (out, c') \<Longrightarrow> length out = length bs" for bs c out c'
    using m unfolding mode_enc_sane_def by blast
  show ?thesis
    unfolding encrypt_mac_def Let_def
    apply (rule runs_rbind [OF runs_make_mac [OF w]], clarsimp)
    apply (rule runs_rbind [OF runs_setpos], simp add: same_buf_def)
    apply (rule runs_rbind [OF runs_getptr_data], simp)
    apply (rule runs_rbind [OF runs_mem_read], simp)
    apply (rule runs_rbind [OF runs_getwriteptr_data], simp)
    apply (clarsimp split: option.splits)
    apply (rule runs_rbind [OF runs_overwrite], fastforce dest!: out)
    apply (rule runs_rbind [OF runs_incrpos], rule buf_wf_over, assumption)
     apply (auto simp: same_buf_def dest: buf_wf_bounds(1))[1]
    apply (rule runs_rbind [OF runs_putbytes])
    using m(2) by (auto simp: grown_def)
qed

lemma runs_packet_padlen: "bs \<noteq> 0 \<Longrightarrow> runs (\<lambda>_. True) (packet_padlen a bs n)"
  by (simp add: packet_padlen_def umod_def Let_def) (metis unat_ucast_u8 unat_eq_zero)

text \<open>What a packet does not change of the sending keys.\<close>

definition same_algos :: "('c, 'z) key_context_directional \<Rightarrow> ('c, 'z) key_context_directional \<Rightarrow> bool" where
  "same_algos k k' \<longleftrightarrow> dk_algo_crypt k' = dk_algo_crypt k \<and> dk_crypt_mode k' = dk_crypt_mode k \<and> dk_algo_mac k' = dk_algo_mac k
     \<and> dk_algo_comp k' = dk_algo_comp k \<and> (dk_algo_comp k \<noteq> COMP_NONE \<longrightarrow> dk_zstream k' \<noteq> None)"

lemma runs_build_packet:
  assumes ok: "send_ok e s" and wp: "buf_wf wp" "buf_pos wp = 0" "buf_size wp = TRANS_MAX_PAYLOAD_LEN"
  shows "runs (\<lambda>(wb, wp', k). buf_wf wb \<and> buf_wf wp' \<and> buf_size wp' = buf_size wp \<and> buf_pos wp' = 0 \<and> buf_len wp' = 0
     \<and> same_algos (ses_trans s) k) (build_packet e s wp)"
proof -
  have m: "mode_enc_sane (dk_crypt_mode (ses_trans s))" "unat (hash_hashsize (dk_algo_mac (ses_trans s))) \<le> MAX_MAC_LEN"
    "ciph_blocksize (dk_algo_crypt (ses_trans s)) \<noteq> 0" using ok by (simp_all add: send_ok_def trans_macsize_def)
  note rnd = send_ok_D(5) [OF ok]
  have enc: "runs (\<lambda>(wb', c). buf_wf wb') (case aead_crypt (dk_crypt_mode (ses_trans s)) of
        None \<Rightarrow> encrypt_mac e (ses_transseq s) (ses_trans s) wb | Some crypt \<Rightarrow> encrypt_aead (ses_transseq s) (ses_trans s) crypt wb)"
    if "buf_wf wb" for wb
    using runs_encrypt_mac [OF that m(1,2)] runs_encrypt_aead [OF that _ m(1)] by (auto split: option.split)
  show ?thesis
    unfolding build_packet_def Let_def
    apply (rule runs_rbind [OF runs_packet_payload [OF ok wp]], clarsimp)
    apply (rule runs_rbind [OF runs_setpos], assumption)
    apply (rule runs_rbind [OF runs_setlen], simp)
    apply (rule runs_rbind [OF runs_packet_padlen [OF m(3)]])
    apply (rule runs_rbind [OF runs_packet_frame [OF _ rnd]], assumption)
    apply (rule runs_rbind [OF enc], assumption)
    by (auto simp: same_algos_def)
qed

section \<open>Sending\<close>

lemma send_ok_algos:
  assumes "send_ok e s" "same_algos (ses_trans s) (ses_trans s')" "buf_wf (ses_writepayload s')"
    "buf_size (ses_writepayload s') = TRANS_MAX_PAYLOAD_LEN"
  shows "send_ok e s'"
  using assms by (simp add: send_ok_def same_algos_def trans_macsize_def)

lemma same_algos_refl: "send_ok e s \<Longrightarrow> same_algos (ses_trans s) (ses_trans s)"
  by (simp add: send_ok_def same_algos_def)

lemma runs_enqueue_reply:
  assumes "send_ok e s"
  shows "runs (\<lambda>s'. send_ok e s' \<and> wp_empty s' \<and> ses_keys s' = ses_keys s) (enqueue_reply_packet s)"
proof -
  note d = send_ok_D [OF assms]
  have nc: "runs (\<lambda>_. True) (buf_newcopy (ses_writepayload s))"
    unfolding buf_newcopy_def Let_def
    apply (rule runs_rbind [OF runs_new])
    using buf_wf_bounds [OF d(1)] by (auto simp: runs_def dest!: buf_wf_bounds(1) split: sum.split)
  show ?thesis
    unfolding enqueue_reply_packet_def
    apply (rule runs_rbind [OF nc])
    apply (rule runs_rbind [OF runs_setpos [OF d(1)]])
    apply (rule runs_rbind [OF runs_setlen], simp)
    using assms d(2) by (auto simp: send_ok_def wp_empty_def trans_macsize_def)
qed

lemma runs_packet_sent:
  assumes "buf_wf wb"
  shows "runs (\<lambda>s'. ses_keys s' = ses_keys s \<and> ses_writepayload s' = ses_writepayload s) (packet_sent e ty wb s)"
  unfolding packet_sent_def writebuf_enqueue_def
  using runs_setpos [OF assms, of 0] by (auto simp: Let_def tick_def runs_def split: sum.splits)

lemma runs_encrypt_packet:
  assumes ok: "send_ok e s"
  shows "runs (\<lambda>s'. send_ok e s' \<and> wp_empty s' \<and> same_core s s') (encrypt_packet e s)"
proof -
  note d = send_ok_D [OF ok]
  have "runs (\<lambda>s'. send_ok e s' \<and> wp_empty s') (encrypt_packet e s)"
    unfolding encrypt_packet_def
    apply (rule runs_rbind [OF runs_setpos [OF d(1)]])
    apply (rule runs_rbind [OF runs_getbyte], simp, clarsimp)
    apply (rule runs_rbind [OF runs_setpos], simp add: same_buf_def)
    apply (rule runs_if)
     apply (rule runs_weaken [OF runs_enqueue_reply])
      apply (rule send_ok_wp [OF ok], simp, use d(2) in \<open>simp add: same_buf_def\<close>)
     apply simp
    apply (rule runs_rbind [OF runs_build_packet [OF ok]], simp, simp, use d(2) in \<open>simp add: same_buf_def\<close>)
    apply clarsimp
    apply (rule runs_weaken [OF runs_packet_sent], assumption)
    using d(2) by (auto simp: wp_empty_def set_trans_def tick_def same_buf_def intro: send_ok_algos [OF ok])
  then show ?thesis using encrypt_packet_core [of e s] by (auto simp: runs_iff)
qed

lemma runs_send:
  assumes ok: "send_ok e s" and m: "runs (grown (ses_writepayload s)) m"
  shows "runs (\<lambda>s'. send_ok e s' \<and> wp_empty s' \<and> same_core s s') (rbind m (\<lambda>wp. encrypt_packet e (s\<lparr>ses_writepayload := wp\<rparr>)))"
proof (rule runs_rbind [OF m])
  fix wp assume g: "grown (ses_writepayload s) wp"
  let ?s = "s\<lparr>ses_writepayload := wp\<rparr>"
  have "send_ok e ?s" using send_ok_wp [OF ok] g send_ok_D(2) [OF ok] by (simp add: grown_def)
  from runs_encrypt_packet [OF this] show "runs (\<lambda>s'. send_ok e s' \<and> wp_empty s' \<and> same_core s s') (encrypt_packet e ?s)"
    by (rule runs_weaken) (auto intro: same_core_trans [of _ ?s])
qed

text \<open>
  C27. Sending never leaves a buffer: with sane keys \<^verbatim>\<open>encrypt_packet\<close> of any payload, whatever the cipher
  mode (AEAD or with a MAC) and with or without compression, either ends the session or returns
  with an empty payload buffer and the session ready for the next packet; no assertion fails.
\<close>

theorem encrypt_packet_safe:
  assumes "send_ok e s"
  shows "(\<exists>msg. encrypt_packet e s = Inl (Exit msg) \<or> encrypt_packet e s = Inl (Close msg)) \<or>
    (\<exists>s'. encrypt_packet e s = Inr s' \<and> send_ok e s' \<and> wp_empty s' \<and> ses_channels s' = ses_channels s
       \<and> ses_authstate s' = ses_authstate s \<and> ses_recv s' = ses_recv s)"
  using runs_encrypt_packet [OF assms] unfolding runs_iff same_core_def by blast

lemma fresh_writepayload: "buf_new TRANS_MAX_PAYLOAD_LEN = Inr (ses_writepayload fresh_session)"
  by (simp add: fresh_session_def common_session_init_def buf_new_def BUF_MAX_SIZE_def
      TRANS_MAX_PAYLOAD_LEN_def update_channel_prio_def Let_def)

lemma null_env_ok: "env_ok null_env" "deflate_ok null_env"
  by (simp_all add: env_ok_def null_env_def deflate_ok_def)

lemma fresh_send_ok: "send_ok null_env fresh_session" "wp_empty fresh_session"
proof -
  have "buf_wf (ses_writepayload fresh_session) \<and> buf_len (ses_writepayload fresh_session) = 0
    \<and> buf_pos (ses_writepayload fresh_session) = 0 \<and> buf_size (ses_writepayload fresh_session) = TRANS_MAX_PAYLOAD_LEN"
    using runs_new [of TRANS_MAX_PAYLOAD_LEN] fresh_writepayload by simp
  then show "send_ok null_env fresh_session" "wp_empty fresh_session"
    by (simp_all add: send_ok_def wp_empty_def null_env_ok none_keys_def dropbear_nocipher_def dropbear_nohash_def trans_macsize_def
        mode_enc_sane_def dropbear_mode_none_def void_cipher_def)
qed

theorem encrypt_packet_safe_witness:
  "\<exists>wp s'. buf_putbyte (ses_writepayload fresh_session) 2 = Inr wp
     \<and> encrypt_packet null_env (fresh_session\<lparr>ses_writepayload := wp\<rparr>) = Inr s' \<and> send_ok null_env s' \<and> wp_empty s'"
proof -
  note w = send_ok_D [OF fresh_send_ok(1)]
  have "buf_fits (ses_writepayload fresh_session) 1"
    using w fresh_send_ok(2) by (simp add: buf_fits_def wp_empty_def TRANS_MAX_PAYLOAD_LEN_def)
  then obtain wp where wp: "buf_putbyte (ses_writepayload fresh_session) 2 = Inr wp" using w by (simp add: buf_putbyte_eq)
  have e: "at_end (ses_writepayload fresh_session)" "buf_content (ses_writepayload fresh_session) = []"
    using w fresh_send_ok(2) by (simp_all add: at_end_def wp_empty_def buf_content_def)
  have a: "buf_wf wp" "buf_content wp = [2]" "buf_size wp = TRANS_MAX_PAYLOAD_LEN"
    using putbyte_appends [OF e(1) wp] e(2) w(2) by (auto simp: appends_def)
  let ?s = "fresh_session\<lparr>ses_writepayload := wp\<rparr>"
  have ok: "send_ok null_env ?s" using send_ok_wp [OF fresh_send_ok(1)] a by simp
  have "can_send null_env ?s [2]" using a
    by (simp add: can_send_def null_env_def trans_blocksize_def trans_macsize_def none_keys_def
      dropbear_nocipher_def dropbear_nohash_def is_compress_trans_def)
  moreover have "cipher_inverse (dk_crypt_mode (ses_trans ?s)) dropbear_mode_none (trans_blocksize ?s)"
    by (simp add: none_keys_def mode_none_inverse)
  ultimately obtain s' where "encrypt_packet null_env ?s = Inr s'" using encrypt_packet_ok by blast
  with encrypt_packet_safe [OF ok] wp show ?thesis by auto
qed

end
