(* ===== verification/Netio.thy ===== *)
theory Netio
  imports Session
begin

text \<open>
  Connecting and listening, \<^verbatim>\<open>netio.c\<close>: connections in progress, their callbacks, and the sockets of
  a listener. The resolver and the socket calls are an environment of their own. A connection of
  a server has no write queue (\<^verbatim>\<open>connect_set_writequeue\<close> is called by the client only), so the code
  for TCP fast open never runs; socket options other than \<^verbatim>\<open>SO_ERROR\<close> are not modelled.
\<close>

section \<open>The network\<close>

text \<open>
  The result of \<^verbatim>\<open>getaddrinfo\<close> (the flag is \<^verbatim>\<open>AI_PASSIVE\<close>) is the list of addresses or the error string, that of \<^verbatim>\<open>connect\<close> and of binding to a source
  address an error string or \<open>None\<close>, where a connection in progress is no error. \<open>n_sockopt\<close> is \<^verbatim>\<open>SO_ERROR\<close>, \<open>None\<close>
  when \<^verbatim>\<open>getsockopt\<close> fails. \<open>n_accept\<close> gives the descriptor, \<open>n_peername\<close> the numeric host and port.
\<close>

record net =
  n_getaddrinfo :: "nat \<Rightarrow> bool \<Rightarrow> bytes option \<Rightarrow> bytes option \<Rightarrow> bytes + addrinfo list"
  n_socket :: "nat \<Rightarrow> ai_family \<Rightarrow> int"
  n_bind_from :: "nat \<Rightarrow> int \<Rightarrow> bytes option \<Rightarrow> bytes option \<Rightarrow> bytes option"
  n_bind :: "nat \<Rightarrow> int \<Rightarrow> addrinfo \<Rightarrow> bool"
  n_listen :: "nat \<Rightarrow> int \<Rightarrow> bool"
  n_connect :: "nat \<Rightarrow> int \<Rightarrow> addrinfo \<Rightarrow> bytes option"
  n_sockopt :: "nat \<Rightarrow> int \<Rightarrow> int option"
  n_strerror :: "int \<Rightarrow> bytes"
  n_sock_port :: "nat \<Rightarrow> int \<Rightarrow> u32"
  n_accept :: "nat \<Rightarrow> int \<Rightarrow> int"
  n_peername :: "nat \<Rightarrow> int \<Rightarrow> (bytes \<times> bytes) option"

definition DROPBEAR_MAX_SOCKS :: nat where "DROPBEAR_MAX_SOCKS = 2"

text \<open>\<^verbatim>\<open>sizeof(sunaddr->sun_path)\<close>\<close>

definition SUN_PATH_LEN :: nat where "SUN_PATH_LEN = 108"

text \<open>\<^verbatim>\<open>close\<close> without a check, and \<^verbatim>\<open>m_close\<close> of \<^verbatim>\<open>dbutil.c\<close>, which ends the session when it fails.\<close>

definition close_fd :: "int \<Rightarrow> ('c, 'z) session \<Rightarrow> ('c, 'z) session" where
  "close_fd fd s = log_event (EvClose fd) (tick s)"

definition m_close :: "'z env \<Rightarrow> int \<Rightarrow> ('c, 'z) session \<Rightarrow> ('c, 'z) session res" where
  "m_close e fd s =
     (if fd < 0 then Inr s
      else if \<not> e_close_ok e (ses_tick s) fd then Inl (Exit ''Error closing fd %d, %s'')
      else Inr (log_event (EvClose fd) (tick s)))"

section \<open>Connections in progress\<close>

text \<open>Following a pointer to a connection that was freed is \<open>NullDeref\<close>.\<close>

definition get_conn :: "nat \<Rightarrow> ('c, 'z) session \<Rightarrow> dropbear_progress_connection res" where
  "get_conn k s = (case find (\<lambda>c. pc_id c = k) (ses_conn_pending s) of None \<Rightarrow> Inl NullDeref | Some c \<Rightarrow> Inr c)"

definition put_conn :: "dropbear_progress_connection \<Rightarrow> ('c, 'z) session \<Rightarrow> ('c, 'z) session" where
  "put_conn c s = s\<lparr>ses_conn_pending := map (\<lambda>x. if pc_id x = pc_id c then c else x) (ses_conn_pending s)\<rparr>"

definition remove_connect :: "nat \<Rightarrow> ('c, 'z) session \<Rightarrow> ('c, 'z) session" where
  "remove_connect k s = s\<lparr>ses_conn_pending := filter (\<lambda>c. pc_id c \<noteq> k) (ses_conn_pending s)\<rparr>"

definition cancel_callback :: "'z env \<Rightarrow> bool \<Rightarrow> int \<Rightarrow> ('c, 'z) session \<Rightarrow> ('c, 'z) session res" where
  "cancel_callback e result sock s = (if result then m_close e sock s else Inr s)"

definition cancel_connect :: "nat \<Rightarrow> ('c, 'z) session \<Rightarrow> ('c, 'z) session res" where
  "cancel_connect k s = rbind (get_conn k s) (\<lambda>c. Inr (put_conn (c\<lparr>pc_cb := Cancel_callback\<rparr>) s))"

text \<open>The loop of \<^verbatim>\<open>connect_try_next\<close> over the remaining addresses.\<close>

fun try_addrs :: "net \<Rightarrow> addrinfo list \<Rightarrow> dropbear_progress_connection \<Rightarrow> ('c, 'z) session
    \<Rightarrow> (dropbear_progress_connection \<times> ('c, 'z) session) res" where
  "try_addrs nt [] c s = Inr (c\<lparr>pc_res_iter := []\<rparr>, s)"
| "try_addrs nt (r # rs) c s =
     rbind (dropbear_assert ''c->sock == -1'' (pc_sock c = -1)) (\<lambda>_.
     let c = c\<lparr>pc_sock := n_socket nt (ses_tick s) (ai_family r)\<rparr>; s = tick s in
     if pc_sock c < 0 then try_addrs nt rs c s
     else
       case (if pc_bind_address c \<noteq> None \<or> pc_bind_port c \<noteq> None
             then n_bind_from nt (ses_tick s) (pc_sock c) (pc_bind_address c) (pc_bind_port c) else None) of
         Some err \<Rightarrow> try_addrs nt rs (c\<lparr>pc_errstring := Some err, pc_sock := -1\<rparr>) (close_fd (pc_sock c) s)
       | None \<Rightarrow>
         let s = s\<lparr>ses_maxfd := max (ses_maxfd s) (pc_sock c)\<rparr> in
         case n_connect nt (ses_tick s) (pc_sock c) r of
           Some err \<Rightarrow> try_addrs nt rs (c\<lparr>pc_errstring := Some err, pc_sock := -1\<rparr>) (close_fd (pc_sock c) s)
         | None \<Rightarrow> Inr (c\<lparr>pc_res_iter := rs\<rparr>, tick s))"

definition connect_try_next :: "net \<Rightarrow> dropbear_progress_connection \<Rightarrow> ('c, 'z) session
    \<Rightarrow> (dropbear_progress_connection \<times> ('c, 'z) session) res" where
  "connect_try_next nt c s = try_addrs nt (pc_res_iter c) c s"

text \<open>A new connection at the end of the list.\<close>

definition new_connect :: "bytes \<Rightarrow> bytes option \<Rightarrow> connect_callback \<Rightarrow> prio \<Rightarrow> ('c, 'z) session \<Rightarrow> dropbear_progress_connection" where
  "new_connect host port cb pr s = \<lparr>pc_id = ses_next_conn s, pc_res_iter = [], pc_remotehost = host, pc_remoteport = port,
     pc_cb = cb, pc_sock = -1, pc_errstring = None, pc_bind_address = None, pc_bind_port = None, pc_prio = pr\<rparr>"

definition connect_remote :: "net \<Rightarrow> bytes \<Rightarrow> bytes \<Rightarrow> connect_callback \<Rightarrow> bytes option \<Rightarrow> bytes option \<Rightarrow> prio
    \<Rightarrow> ('c, 'z) session \<Rightarrow> nat \<times> ('c, 'z) session" where
  "connect_remote nt remotehost remoteport cb bind_address bind_port pr s =
     (let c = new_connect remotehost (Some remoteport) cb pr s;
          c = (case n_getaddrinfo nt (ses_tick s) False (Some remotehost) (Some remoteport) of
                 Inl err \<Rightarrow> c\<lparr>pc_errstring := Some err\<rparr>
               | Inr res \<Rightarrow> c\<lparr>pc_res_iter := res\<rparr>);
          c = c\<lparr>pc_bind_address := bind_address, pc_bind_port := bind_port\<rparr> in
      (pc_id c, (tick s)\<lparr>ses_conn_pending := ses_conn_pending s @ [c], ses_next_conn := Suc (ses_next_conn s)\<rparr>))"

definition connect_streamlocal :: "bytes \<Rightarrow> connect_callback \<Rightarrow> prio \<Rightarrow> ('c, 'z) session \<Rightarrow> nat \<times> ('c, 'z) session" where
  "connect_streamlocal localpath cb pr s =
     (let c = new_connect localpath None cb pr s;
          c = (if length (cstr localpath) \<ge> SUN_PATH_LEN then c\<lparr>pc_errstring := Some (lit ''Stream path too long'')\<rparr>
               else c\<lparr>pc_res_iter := [\<lparr>ai_family = AF_UNIX, ai_addr = cstr localpath, ai_port = 0\<rparr>]\<rparr>) in
      (pc_id c, s\<lparr>ses_conn_pending := ses_conn_pending s @ [c], ses_next_conn := Suc (ses_next_conn s)\<rparr>))"

definition remove_connect_pending :: "('c, 'z) session \<Rightarrow> ('c, 'z) session" where
  "remove_connect_pending s = s\<lparr>ses_conn_pending := []\<rparr>"

text \<open>The loop \<^verbatim>\<open>while (c->res_iter && c->sock < 0) connect_try_next(c)\<close>: a round leaves a socket or no address.\<close>

lemma try_addrs_done: "try_addrs nt rs c s = Inr (c', s') \<Longrightarrow> pc_sock c' \<ge> 0 \<or> pc_res_iter c' = []"
  by (induction rs arbitrary: c s) (fastforce simp: Let_def elim!: rbind_InrE split: if_splits option.splits)+

function connect_start :: "net \<Rightarrow> dropbear_progress_connection \<Rightarrow> ('c, 'z) session
    \<Rightarrow> (dropbear_progress_connection \<times> ('c, 'z) session) res" where
  "connect_start nt c s =
     (if pc_res_iter c \<noteq> [] \<and> pc_sock c < 0
      then rbind (connect_try_next nt c s) (\<lambda>(c, s). connect_start nt c s)
      else Inr (c, s))"
  by pat_completeness auto

termination
proof (relation "measure (\<lambda>(_, c, _). if pc_sock c \<ge> 0 then 0 else length (pc_res_iter c))", goal_cases)
  case (2 nt c s x c' s')
  then have "pc_sock c' \<ge> 0 \<or> pc_res_iter c' = []" using try_addrs_done [of nt "pc_res_iter c" c s c' s'] by (simp add: connect_try_next_def)
  then show ?case using 2 by auto
qed simp

declare connect_start.simps [simp del]

text \<open>
  The two loops over the pending connections. \<open>cb\<close> calls a callback with the result, the socket
  and the error string. \<open>set_connect_fds\<close> returns the descriptors it adds to the set.
\<close>

type_synonym ('c, 'z) run_cb = "connect_callback \<Rightarrow> bool \<Rightarrow> int \<Rightarrow> bytes \<Rightarrow> ('c, 'z) session \<Rightarrow> ('c, 'z) session res"

fun set_connect_loop :: "net \<Rightarrow> ('c, 'z) run_cb \<Rightarrow> nat list \<Rightarrow> ('c, 'z) session \<Rightarrow> (int list \<times> ('c, 'z) session) res" where
  "set_connect_loop nt cb [] s = Inr ([], s)"
| "set_connect_loop nt cb (k # ks) s =
     rbind (get_conn k s) (\<lambda>c.
     rbind (connect_start nt c s) (\<lambda>(c, s).
     let s = put_conn c s in
     if pc_sock c \<ge> 0
     then rbind (set_connect_loop nt cb ks s) (\<lambda>(fds, s). Inr (pc_sock c # fds, s))
     else
       let err = (case pc_errstring c of None \<Rightarrow> lit ''unexpected failure'' | Some err \<Rightarrow> err) in
       rbind (cb (pc_cb c) False (-1) err (put_conn (c\<lparr>pc_errstring := Some err\<rparr>) s)) (\<lambda>s.
       set_connect_loop nt cb ks (remove_connect k s))))"

definition set_connect_fds :: "net \<Rightarrow> ('c, 'z) run_cb \<Rightarrow> ('c, 'z) session \<Rightarrow> (int list \<times> ('c, 'z) session) res" where
  "set_connect_fds nt cb s = set_connect_loop nt cb (map pc_id (ses_conn_pending s)) s"

fun handle_connect_loop :: "'z env \<Rightarrow> net \<Rightarrow> ('c, 'z) run_cb \<Rightarrow> (int \<Rightarrow> bool) \<Rightarrow> nat list \<Rightarrow> ('c, 'z) session \<Rightarrow> ('c, 'z) session res" where
  "handle_connect_loop e nt cb writefd [] s = Inr s"
| "handle_connect_loop e nt cb writefd (k # ks) s =
     rbind (get_conn k s) (\<lambda>c.
     if pc_sock c < 0 \<or> \<not> writefd (pc_sock c) then handle_connect_loop e nt cb writefd ks s
     else
       let val = n_sockopt nt (ses_tick s) (pc_sock c); s = tick s in
       case val of
         None \<Rightarrow> rbind (m_close e (pc_sock c) s) (\<lambda>s.
                 handle_connect_loop e nt cb writefd ks (put_conn (c\<lparr>pc_sock := -1\<rparr>) s))
       | Some v \<Rightarrow>
         if v \<noteq> 0
         then rbind (m_close e (pc_sock c) s) (\<lambda>s.
              handle_connect_loop e nt cb writefd ks (put_conn (c\<lparr>pc_sock := -1, pc_errstring := Some (n_strerror nt v)\<rparr>) s))
         else rbind (cb (pc_cb c) True (pc_sock c) [] s) (\<lambda>s. Inr (remove_connect k s)))"

definition handle_connect_fds :: "'z env \<Rightarrow> net \<Rightarrow> ('c, 'z) run_cb \<Rightarrow> (int \<Rightarrow> bool) \<Rightarrow> ('c, 'z) session \<Rightarrow> ('c, 'z) session res" where
  "handle_connect_fds e nt cb writefd s = handle_connect_loop e nt cb writefd (map pc_id (ses_conn_pending s)) s"

section \<open>Listening sockets\<close>

text \<open>
  The loop over the addresses. \<open>socks\<close> is the caller's array, \<open>lport_p\<close> tells whether the pointer to
  a port is set; a port number that was allocated is used for the following addresses.
\<close>

fun listen_addrs :: "net \<Rightarrow> addrinfo list \<Rightarrow> bool \<Rightarrow> u32 \<Rightarrow> int list \<Rightarrow> nat \<Rightarrow> nat \<Rightarrow> ('c, 'z) session
    \<Rightarrow> (int list \<times> nat \<times> ('c, 'z) session) res" where
  "listen_addrs nt [] lport_p lport socks nsock sockcount s = Inr (socks, nsock, s)"
| "listen_addrs nt (r # rs) lport_p lport socks nsock sockcount s =
     (if \<not> nsock < sockcount then Inr (socks, nsock, s)
      else
        let inet = (ai_family r \<noteq> AF_UNIX); lport_p = (lport_p \<or> lport > 0 \<and> inet);
            r = (if lport > 0 \<and> inet then r\<lparr>ai_port := lport\<rparr> else r) in
        if lport > 0 \<and> \<not> lport_p then Inl NullDeref
        else if length socks \<le> nsock then Inl OutOfBounds
        else
          let sock = n_socket nt (ses_tick s) (ai_family r); socks = socks[nsock := sock]; s = tick s in
          if sock < 0 then listen_addrs nt rs lport_p lport socks nsock sockcount s
          else if \<not> n_bind nt (ses_tick s) sock r \<or> \<not> n_listen nt (ses_tick s) sock
          then listen_addrs nt rs lport_p lport socks nsock sockcount (close_fd sock s)
          else listen_addrs nt rs lport_p (if lport = 0 then n_sock_port nt (ses_tick s) sock else lport) socks (Suc nsock) sockcount
                 ((tick s)\<lparr>ses_maxfd := max (ses_maxfd s) sock\<rparr>))"

text \<open>The sockets and their number, or \<open>None\<close> for a failure; the error string is only logged.\<close>

definition dropbear_listen :: "net \<Rightarrow> bytes option \<Rightarrow> bytes \<Rightarrow> int list \<Rightarrow> nat \<Rightarrow> ('c, 'z) session
    \<Rightarrow> ((int list \<times> nat) option \<times> ('c, 'z) session) res" where
  "dropbear_listen nt address port socks sockcount s =
     (let passive = (address \<noteq> None);
          address = (case address of None \<Rightarrow> None | Some a \<Rightarrow> if cstr a = [] then None else Some a) in
      case n_getaddrinfo nt (ses_tick s) passive address (Some port) of
        Inl err \<Rightarrow> Inr (None, tick s)
      | Inr res0 \<Rightarrow>
        rbind (listen_addrs nt res0 False 0 socks 0 sockcount (tick s)) (\<lambda>(socks, nsock, s).
        Inr (if nsock = 0 then None else Some (socks, nsock), s)))"

section \<open>Contract of the network\<close>

text \<open>
  What the documentation promises: \<^verbatim>\<open>socket\<close> and \<^verbatim>\<open>accept\<close> return -1 on failure, and the resolver gives
  internet addresses only.
\<close>

definition net_ok :: "net \<Rightarrow> bool" where
  "net_ok nt \<longleftrightarrow> (\<forall>t f. n_socket nt t f \<ge> -1)
     \<and> (\<forall>t f h p rs r. n_getaddrinfo nt t f h p = Inr rs \<longrightarrow> r \<in> set rs \<longrightarrow> ai_family r \<noteq> AF_UNIX)"

lemma get_conn_mem:
  assumes "distinct (map pc_id (ses_conn_pending s))" "c \<in> set (ses_conn_pending s)"
  shows "get_conn (pc_id c) s = Inr c"
proof -
  have "find (\<lambda>x. pc_id x = pc_id c) ps = Some c" if "distinct (map pc_id ps)" "c \<in> set ps" for ps
    using that by (induction ps) (auto intro: rev_image_eqI)
  from this [OF assms] show ?thesis by (simp add: get_conn_def)
qed

lemma get_conn_Inr: "get_conn k s = Inr c \<Longrightarrow> c \<in> set (ses_conn_pending s) \<and> pc_id c = k"
  by (auto simp: get_conn_def find_Some_iff split: option.splits)

lemma cancel_connect_eq:
  assumes "distinct (map pc_id (ses_conn_pending s))" "c \<in> set (ses_conn_pending s)"
  shows "cancel_connect (pc_id c) s =
    Inr (s\<lparr>ses_conn_pending := map (\<lambda>x. if pc_id x = pc_id c then x\<lparr>pc_cb := Cancel_callback\<rparr> else x) (ses_conn_pending s)\<rparr>)"
proof -
  have "x = c" if "x \<in> set (ses_conn_pending s)" "pc_id x = pc_id c" for x
    using assms that by (metis distinct_map inj_on_def)
  then have "map (\<lambda>x. if pc_id x = pc_id c then c\<lparr>pc_cb := Cancel_callback\<rparr> else x) (ses_conn_pending s)
      = map (\<lambda>x. if pc_id x = pc_id c then x\<lparr>pc_cb := Cancel_callback\<rparr> else x) (ses_conn_pending s)"
    by (auto intro!: map_cong)
  then show ?thesis by (simp add: cancel_connect_def get_conn_mem [OF assms] put_conn_def)
qed

lemma connect_remote_eq:
  "\<exists>c. pc_id c = ses_next_conn s \<and> pc_cb c = cb \<and> connect_remote nt h p cb ba bp pr s =
     (ses_next_conn s, (tick s)\<lparr>ses_conn_pending := ses_conn_pending s @ [c], ses_next_conn := Suc (ses_next_conn s)\<rparr>)"
proof (cases "n_getaddrinfo nt (ses_tick s) False (Some h) (Some p)")
  case (Inl err)
  let ?c = "(new_connect h (Some p) cb pr s)\<lparr>pc_errstring := Some err, pc_bind_address := ba, pc_bind_port := bp\<rparr>"
  show ?thesis by (rule exI [of _ ?c]) (simp add: Inl connect_remote_def new_connect_def Let_def)
next
  case (Inr rs)
  let ?c = "(new_connect h (Some p) cb pr s)\<lparr>pc_res_iter := rs, pc_bind_address := ba, pc_bind_port := bp\<rparr>"
  show ?thesis by (rule exI [of _ ?c]) (simp add: Inr connect_remote_def new_connect_def Let_def)
qed

lemma connect_streamlocal_eq:
  "\<exists>c. pc_id c = ses_next_conn s \<and> pc_cb c = cb \<and> connect_streamlocal path cb pr s =
     (ses_next_conn s, s\<lparr>ses_conn_pending := ses_conn_pending s @ [c], ses_next_conn := Suc (ses_next_conn s)\<rparr>)"
proof (cases "length (cstr path) \<ge> SUN_PATH_LEN")
  case True
  let ?c = "(new_connect path None cb pr s)\<lparr>pc_errstring := Some (lit ''Stream path too long'')\<rparr>"
  show ?thesis by (rule exI [of _ ?c]) (simp add: True connect_streamlocal_def new_connect_def Let_def)
next
  case False
  let ?c = "(new_connect path None cb pr s)\<lparr>pc_res_iter := [\<lparr>ai_family = AF_UNIX, ai_addr = cstr path, ai_port = 0\<rparr>]\<rparr>"
  show ?thesis by (rule exI [of _ ?c]) (simp add: False connect_streamlocal_def new_connect_def Let_def)
qed

end
