(* ===== verification/Channel.thy ===== *)
theory Channel
  imports Packet_Send Netio
begin

text \<open>
  The multiplexed channels of \<^verbatim>\<open>common-channel.c\<close>. A \<^verbatim>\<open>struct Channel *\<close> is the number of its slot in
  \<^verbatim>\<open>ses.channels\<close>; following a pointer to a removed channel is \<open>NullDeref\<close>. The handlers of a
  \<^verbatim>\<open>struct ChanType\<close> are functions on sessions, as they are function pointers in the code. A set of
  file descriptors is a predicate. On a server \<^verbatim>\<open>read_mangler\<close> is never set.
\<close>

section \<open>Channel types\<close>

definition SSH_OPEN_CONNECT_FAILED :: int where "SSH_OPEN_CONNECT_FAILED = 2"
definition SSH_OPEN_UNKNOWN_CHANNEL_TYPE :: int where "SSH_OPEN_UNKNOWN_CHANNEL_TYPE = 3"
definition SSH_OPEN_RESOURCE_SHORTAGE :: int where "SSH_OPEN_RESOURCE_SHORTAGE = 4"
definition SSH_OPEN_IN_PROGRESS :: int where "SSH_OPEN_IN_PROGRESS = 99"
definition SSH_EXTENDED_DATA_STDERR :: u32 where "SSH_EXTENDED_DATA_STDERR = 1"
definition RECV_MAX_CHANNEL_DATA_LEN :: u32 where "RECV_MAX_CHANNEL_DATA_LEN = RECV_MAX_PAYLOAD_LEN - (1 + 4 + 4)"
definition CHAN_NAME_MAX :: u32 where "CHAN_NAME_MAX = 64"
definition STDOUT_FILENO :: int where "STDOUT_FILENO = 1"
definition SHUT_RD :: nat where "SHUT_RD = 0"
definition SHUT_WR :: nat where "SHUT_WR = 1"
definition SHUT_RDWR :: nat where "SHUT_RDWR = 2"

type_synonym ('c, 'z) chan_fn = "nat \<Rightarrow> ('c, 'z) session \<Rightarrow> ('c, 'z) session res"

record ('c, 'z) ChanType =
  ct_name :: bytes
  ct_inithandler :: "(nat \<Rightarrow> ('c, 'z) session \<Rightarrow> (int \<times> ('c, 'z) session) res) option"
  ct_check_close :: "(nat \<Rightarrow> ('c, 'z) session \<Rightarrow> (bool \<times> ('c, 'z) session) res) option"
  ct_reqhandler :: "('c, 'z) chan_fn option"
  ct_closehandler :: "('c, 'z) chan_fn option"
  ct_cleanup :: "('c, 'z) chan_fn option"

text \<open>
  \<open>cn_types\<close> are the channel types of the program and \<open>cn_chantypes\<close> the numbers of those in
  \<^verbatim>\<open>ses.chantypes\<close>, which the peer may open. The listeners are a component of their own.
\<close>

record ('c, 'z) chan_env =
  cn_server :: bool
  cn_types :: "('c, 'z) ChanType list"
  cn_chantypes :: "nat list"
  cn_handle_listeners :: "(int \<Rightarrow> bool) \<Rightarrow> ('c, 'z) session \<Rightarrow> ('c, 'z) session res"

definition get_chan :: "('c, 'z) session \<Rightarrow> nat \<Rightarrow> Channel res" where
  "get_chan s i = (case (if i < length (ses_channels s) then ses_channels s ! i else None) of
     None \<Rightarrow> Inl NullDeref | Some ch \<Rightarrow> Inr ch)"

definition put_chan :: "nat \<Rightarrow> Channel \<Rightarrow> ('c, 'z) session \<Rightarrow> ('c, 'z) session" where
  "put_chan i ch s = s\<lparr>ses_channels := (ses_channels s)[i := Some ch]\<rparr>"

definition upd_chan :: "nat \<Rightarrow> (Channel \<Rightarrow> Channel) \<Rightarrow> ('c, 'z) session \<Rightarrow> ('c, 'z) session res" where
  "upd_chan i f s = rbind (get_chan s i) (\<lambda>ch. Inr (put_chan i (f ch) s))"

definition chan_type :: "('c, 'z) chan_env \<Rightarrow> Channel \<Rightarrow> ('c, 'z) ChanType res" where
  "chan_type cn ch = (if ch_type ch < length (cn_types cn) then Inr (cn_types cn ! ch_type ch) else Inl NullDeref)"

abbreviation errfd_is_read :: "Channel \<Rightarrow> bool" where "errfd_is_read ch \<equiv> ch_extrabuf ch = None"

section \<open>The table of channels\<close>

definition listeners_initialise :: "('c, 'z) session \<Rightarrow> ('c, 'z) session" where
  "listeners_initialise s = s\<lparr>ses_listeners := [None], ses_listensize := 1\<rparr>"

definition chaninitialise :: "('c, 'z) session \<Rightarrow> ('c, 'z) session" where
  "chaninitialise s = listeners_initialise (s\<lparr>ses_channels := [None], ses_chansize := 1, ses_chancount := 0\<rparr>)"

text \<open>The first free slot (the size of the table when there is none).\<close>

definition free_slot :: "Channel option list \<Rightarrow> nat" where
  "free_slot cs = length (takeWhile (\<lambda>c. c \<noteq> None) cs)"

text \<open>The slot of the new channel, if there is room for it.\<close>

definition newchannel :: "'z env \<Rightarrow> u32 \<Rightarrow> nat \<Rightarrow> u32 \<Rightarrow> u32 \<Rightarrow> ('c, 'z) session \<Rightarrow> (nat option \<times> ('c, 'z) session) res" where
  "newchannel e remotechan ty transwindow transmaxpacket s =
     (let sz = unat (ses_chansize s) in
      if length (ses_channels s) < sz then Inl OutOfBounds
      else
        let i = free_slot (take sz (ses_channels s)) in
        if i = sz \<and> ses_chansize s \<ge> MAX_CHANNELS then Inr (None, s)
        else
          let s = (if i = sz then s\<lparr>ses_channels := take sz (ses_channels s) @ replicate (unat CHAN_EXTEND_SIZE) None,
                       ses_chansize := ses_chansize s + CHAN_EXTEND_SIZE\<rparr> else s) in
          rbind (cbuf_new (opt_recv_window e)) (\<lambda>wb.
          let ch = \<lparr>ch_index = of_nat i, ch_remotechan = remotechan, ch_recvwindow = opt_recv_window e,
                    ch_transwindow = transwindow, ch_recvdonelen = 0, ch_recvmaxpacket = RECV_MAX_CHANNEL_DATA_LEN,
                    ch_transmaxpacket = transmaxpacket, ch_writefd = FD_UNINIT, ch_readfd = FD_UNINIT,
                    ch_errfd = FD_CLOSED, ch_bidir_fd = False, ch_writebuf = wb, ch_extrabuf = None,
                    ch_sent_close = False, ch_recv_close = False, ch_recv_eof = False, ch_sent_eof = False,
                    ch_flushing = False, ch_conn_pending = None, ch_await_open = False, ch_type = ty,
                    ch_prio = PRIO_NORMAL\<rparr> in
          Inr (Some i, (put_chan i ch s)\<lparr>ses_chancount := ses_chancount s + 1\<rparr>)))"

text \<open>The slot named in the packet, and the session with the payload read on.\<close>

definition getchannel_msg :: "('c, 'z) session \<Rightarrow> (nat \<times> ('c, 'z) session) res" where
  "getchannel_msg s =
     (case ses_payload s of None \<Rightarrow> Inl NullDeref
      | Some payload \<Rightarrow>
        rbind (buf_getint payload) (\<lambda>(chan, payload).
        if chan \<ge> ses_chansize s then Inl (Exit ''Unknown channel %d'')
        else if length (ses_channels s) \<le> unat chan then Inl OutOfBounds
        else if ses_channels s ! unat chan = None then Inl (Exit ''Unknown channel %d'')
        else Inr (unat chan, s\<lparr>ses_payload := Some payload\<rparr>)))"

definition getchannel :: "('c, 'z) session \<Rightarrow> (nat \<times> ('c, 'z) session) res" where
  "getchannel s = getchannel_msg s"

fun find_ready :: "Channel option list \<Rightarrow> nat \<Rightarrow> nat option" where
  "find_ready [] i = None"
| "find_ready (None # cs) i = find_ready cs (Suc i)"
| "find_ready (Some ch # cs) i =
     (if \<not> (ch_sent_eof ch \<or> ch_recv_eof ch) \<and> \<not> ch_await_open ch then Some i else find_ready cs (Suc i))"

definition get_any_ready_channel :: "('c, 'z) session \<Rightarrow> nat option res" where
  "get_any_ready_channel s =
     (if ses_chancount s = 0 then Inr None
      else if length (ses_channels s) < unat (ses_chansize s) then Inl OutOfBounds
      else Inr (find_ready (take (unat (ses_chansize s)) (ses_channels s)) 0))"

section \<open>Messages\<close>

text \<open>A message of a channel: its type, the peer's channel number and what follows.\<close>

definition send_chan_msg :: "'z env \<Rightarrow> u8 \<Rightarrow> u32 \<Rightarrow> (buffer \<Rightarrow> buffer res) \<Rightarrow> ('c, 'z) session \<Rightarrow> ('c, 'z) session res" where
  "send_chan_msg e msg remotechan rest s =
     rbind (rbind (buf_putbyte (ses_writepayload s) msg) (\<lambda>wp. rbind (buf_putint wp remotechan) rest)) (\<lambda>wp.
     encrypt_packet e (s\<lparr>ses_writepayload := wp\<rparr>))"

definition send_msg_channel_eof :: "'z env \<Rightarrow> nat \<Rightarrow> ('c, 'z) session \<Rightarrow> ('c, 'z) session res" where
  "send_msg_channel_eof e i s =
     rbind (get_chan s i) (\<lambda>ch.
     rbind (send_chan_msg e SSH_MSG_CHANNEL_EOF (ch_remotechan ch) Inr s) (\<lambda>s.
     upd_chan i (\<lambda>ch. ch\<lparr>ch_sent_eof := True\<rparr>) s))"

definition send_msg_channel_window_adjust :: "'z env \<Rightarrow> nat \<Rightarrow> u32 \<Rightarrow> ('c, 'z) session \<Rightarrow> ('c, 'z) session res" where
  "send_msg_channel_window_adjust e i incr s =
     rbind (get_chan s i) (\<lambda>ch.
     send_chan_msg e SSH_MSG_CHANNEL_WINDOW_ADJUST (ch_remotechan ch) (\<lambda>wp. buf_putint wp incr) s)"

definition send_msg_channel_failure :: "'z env \<Rightarrow> nat \<Rightarrow> ('c, 'z) session \<Rightarrow> ('c, 'z) session res" where
  "send_msg_channel_failure e i s =
     rbind (get_chan s i) (\<lambda>ch.
     if ch_sent_close ch then Inr s else send_chan_msg e SSH_MSG_CHANNEL_FAILURE (ch_remotechan ch) Inr s)"

definition send_msg_channel_success :: "'z env \<Rightarrow> nat \<Rightarrow> ('c, 'z) session \<Rightarrow> ('c, 'z) session res" where
  "send_msg_channel_success e i s =
     rbind (get_chan s i) (\<lambda>ch.
     if ch_sent_close ch then Inr s else send_chan_msg e SSH_MSG_CHANNEL_SUCCESS (ch_remotechan ch) Inr s)"

definition send_msg_channel_open_failure :: "'z env \<Rightarrow> u32 \<Rightarrow> int \<Rightarrow> bytes \<Rightarrow> bytes \<Rightarrow> ('c, 'z) session \<Rightarrow> ('c, 'z) session res" where
  "send_msg_channel_open_failure e remotechan reason txt lang s =
     send_chan_msg e SSH_MSG_CHANNEL_OPEN_FAILURE remotechan (\<lambda>wp.
       rbind (buf_putint wp (word_of_int reason)) (\<lambda>wp.
       rbind (buf_putstring wp (txt @ [0]) (of_nat (length txt))) (\<lambda>wp.
       buf_putstring wp (lang @ [0]) (of_nat (length lang))))) s"

definition send_msg_channel_open_confirmation :: "'z env \<Rightarrow> nat \<Rightarrow> u32 \<Rightarrow> u32 \<Rightarrow> ('c, 'z) session \<Rightarrow> ('c, 'z) session res" where
  "send_msg_channel_open_confirmation e i recvwindow recvmaxpacket s =
     rbind (get_chan s i) (\<lambda>ch.
     send_chan_msg e SSH_MSG_CHANNEL_OPEN_CONFIRMATION (ch_remotechan ch) (\<lambda>wp.
       rbind (buf_putint wp (ch_index ch)) (\<lambda>wp.
       rbind (buf_putint wp recvwindow) (\<lambda>wp.
       buf_putint wp recvmaxpacket))) s)"

definition send_msg_request_success :: "'z env \<Rightarrow> ('c, 'z) session \<Rightarrow> ('c, 'z) session res" where
  "send_msg_request_success e s =
     rbind (buf_putbyte (ses_writepayload s) SSH_MSG_REQUEST_SUCCESS) (\<lambda>wp.
     encrypt_packet e (s\<lparr>ses_writepayload := wp\<rparr>))"

definition send_msg_request_failure :: "'z env \<Rightarrow> ('c, 'z) session \<Rightarrow> ('c, 'z) session res" where
  "send_msg_request_failure e s =
     rbind (buf_putbyte (ses_writepayload s) SSH_MSG_REQUEST_FAILURE) (\<lambda>wp.
     encrypt_packet e (s\<lparr>ses_writepayload := wp\<rparr>))"

definition start_send_channel_request :: "nat \<Rightarrow> bytes \<Rightarrow> ('c, 'z) session \<Rightarrow> ('c, 'z) session res" where
  "start_send_channel_request i ty s =
     rbind (get_chan s i) (\<lambda>ch.
     rbind (buf_putbyte (ses_writepayload s) SSH_MSG_CHANNEL_REQUEST) (\<lambda>wp.
     rbind (buf_putint wp (ch_remotechan ch)) (\<lambda>wp.
     rbind (buf_putstring wp (ty @ [0]) (of_nat (length ty))) (\<lambda>wp.
     Inr (s\<lparr>ses_writepayload := wp\<rparr>)))))"

section \<open>Closing\<close>

definition close_chan_fd :: "'z env \<Rightarrow> nat \<Rightarrow> int \<Rightarrow> nat \<Rightarrow> ('c, 'z) session \<Rightarrow> ('c, 'z) session res" where
  "close_chan_fd e i fd how s =
     rbind (get_chan s i) (\<lambda>ch.
     rbind (if ch_bidir_fd ch then Inr (log_event (EvShutdown fd how) s) else m_close e fd s) (\<lambda>s.
     let closeout = (if ch_bidir_fd ch then how = 0 else True);
         closein = (if ch_bidir_fd ch then how \<noteq> 0 else True);
         ch = ch\<lparr>ch_readfd := (if closeout \<and> fd = ch_readfd ch then FD_CLOSED else ch_readfd ch),
                ch_errfd := (if (if errfd_is_read ch then closeout else closein) \<and> fd = ch_errfd ch then FD_CLOSED else ch_errfd ch),
                ch_writefd := (if closein \<and> fd = ch_writefd ch then FD_CLOSED else ch_writefd ch)\<rparr>;
         s = put_chan i ch s in
     if ch_bidir_fd ch \<and> ch_readfd ch = FD_CLOSED \<and> ch_writefd ch = FD_CLOSED \<and> ch_errfd ch = FD_CLOSED
     then m_close e fd s else Inr s))"

definition write_pending :: "Channel \<Rightarrow> bool" where
  "write_pending ch \<longleftrightarrow> (ch_writefd ch \<ge> 0 \<and> cbuf_getused (ch_writebuf ch) > 0)
     \<or> (ch_errfd ch \<ge> 0 \<and> (case ch_extrabuf ch of None \<Rightarrow> False | Some x \<Rightarrow> cbuf_getused x > 0))"

text \<open>A call of a handler that may be absent.\<close>

definition call_handler :: "('c, 'z) chan_fn option \<Rightarrow> ('c, 'z) chan_fn" where
  "call_handler h i s = (case h of None \<Rightarrow> Inr s | Some f \<Rightarrow> f i s)"

definition send_msg_channel_close :: "'z env \<Rightarrow> ('c, 'z) chan_env \<Rightarrow> nat \<Rightarrow> ('c, 'z) session \<Rightarrow> ('c, 'z) session res" where
  "send_msg_channel_close e cn i s =
     rbind (get_chan s i) (\<lambda>ch. rbind (chan_type cn ch) (\<lambda>ty.
     rbind (call_handler (ct_closehandler ty) i s) (\<lambda>s.
     rbind (get_chan s i) (\<lambda>ch.
     rbind (send_chan_msg e SSH_MSG_CHANNEL_CLOSE (ch_remotechan ch) Inr s) (\<lambda>s.
     rbind (upd_chan i (\<lambda>ch. ch\<lparr>ch_sent_eof := True, ch_sent_close := True\<rparr>) s) (\<lambda>s.
     rbind (get_chan s i) (\<lambda>ch. rbind (close_chan_fd e i (ch_readfd ch) SHUT_RD s) (\<lambda>s.
     rbind (get_chan s i) (\<lambda>ch. rbind (close_chan_fd e i (ch_errfd ch) SHUT_RDWR s) (\<lambda>s.
     rbind (get_chan s i) (\<lambda>ch. close_chan_fd e i (ch_writefd ch) SHUT_WR s)))))))))))"

definition remove_channel :: "'z env \<Rightarrow> ('c, 'z) chan_env \<Rightarrow> nat \<Rightarrow> ('c, 'z) session \<Rightarrow> ('c, 'z) session res" where
  "remove_channel e cn i s =
     rbind (get_chan s i) (\<lambda>ch.
     rbind (if cn_server cn \<or> ch_writefd ch \<noteq> STDOUT_FILENO
            then rbind (m_close e (ch_writefd ch) s) (\<lambda>s. rbind (m_close e (ch_readfd ch) s) (\<lambda>s. m_close e (ch_errfd ch) s))
            else Inr s) (\<lambda>s.
     rbind (chan_type cn ch) (\<lambda>ty.
     rbind (call_handler (ct_cleanup ty) i s) (\<lambda>s.
     rbind (get_chan s i) (\<lambda>ch.
     rbind (case ch_conn_pending ch of None \<Rightarrow> Inr s | Some k \<Rightarrow> cancel_connect k s) (\<lambda>s.
     if length (ses_channels s) \<le> unat (ch_index ch) then Inl OutOfBounds
     else Inr (update_channel_prio (s\<lparr>ses_channels := (ses_channels s)[unat (ch_index ch) := None],
                                      ses_chancount := ses_chancount s - 1\<rparr>))))))))"

text \<open>The parts of \<^verbatim>\<open>check_close\<close>, in its order.\<close>

definition close_allowed :: "('c, 'z) chan_env \<Rightarrow> nat \<Rightarrow> ('c, 'z) session \<Rightarrow> (bool \<times> ('c, 'z) session) res" where
  "close_allowed cn i s =
     rbind (get_chan s i) (\<lambda>ch. rbind (chan_type cn ch) (\<lambda>ty.
     case ct_check_close ty of None \<Rightarrow> Inr (True, s)
     | Some f \<Rightarrow> if ch_sent_close ch then Inr (True, s) else f i s))"

definition flush_fds :: "'z env \<Rightarrow> nat \<Rightarrow> ('c, 'z) session \<Rightarrow> ('c, 'z) session res" where
  "flush_fds e i s =
     rbind (get_chan s i) (\<lambda>ch.
     if \<not> ch_flushing ch then Inr s
     else
       rbind (if ch_readfd ch \<ge> 0 \<and> \<not> e_fd_read_pending e (ses_tick s) (ch_readfd ch)
              then close_chan_fd e i (ch_readfd ch) SHUT_RD (tick s) else Inr (tick s)) (\<lambda>s.
       rbind (get_chan s i) (\<lambda>ch.
       if errfd_is_read ch \<and> ch_errfd ch \<ge> 0 \<and> \<not> e_fd_read_pending e (ses_tick s) (ch_errfd ch)
       then close_chan_fd e i (ch_errfd ch) SHUT_RD (tick s) else Inr (tick s))))"

definition err_done :: "Channel \<Rightarrow> bool" where
  "err_done ch \<longleftrightarrow> \<not> errfd_is_read ch \<or> ch_errfd ch = FD_CLOSED"

definition check_close :: "'z env \<Rightarrow> ('c, 'z) chan_env \<Rightarrow> nat \<Rightarrow> ('c, 'z) session \<Rightarrow> ('c, 'z) session res" where
  "check_close e cn i s =
     rbind (close_allowed cn i s) (\<lambda>(allowed, s).
     rbind (flush_fds e i s) (\<lambda>s.
     rbind (get_chan s i) (\<lambda>ch.
     rbind (chan_type cn ch) (\<lambda>ty.
     if ch_recv_close ch \<and> \<not> write_pending ch \<and> allowed
     then rbind (if \<not> ch_sent_close ch then send_msg_channel_close e cn i s else Inr s) (\<lambda>s. remove_channel e cn i s)
     else
       rbind (if (ch_recv_eof ch \<and> \<not> write_pending ch)
                 \<or> (ch_writefd ch \<noteq> FD_UNINIT \<and> ct_check_close ty \<noteq> None \<and> allowed)
              then close_chan_fd e i (ch_writefd ch) SHUT_WR s else Inr s) (\<lambda>s.
       rbind (get_chan s i) (\<lambda>ch.
       rbind (if \<not> ch_sent_eof ch \<and> ch_readfd ch = FD_CLOSED \<and> err_done ch
              then send_msg_channel_eof e i s else Inr s) (\<lambda>s.
       rbind (get_chan s i) (\<lambda>ch.
       if ch_readfd ch = FD_CLOSED \<and> ch_writefd ch = FD_CLOSED \<and> err_done ch \<and> \<not> ch_sent_close ch
          \<and> allowed \<and> \<not> write_pending ch
       then send_msg_channel_close e cn i s else Inr s))))))))"

section \<open>Data from the peer\<close>

text \<open>Which of the channel's buffers a call is about.\<close>

datatype chan_buf = WriteBuf | ExtraBuf

definition chan_cbuf :: "chan_buf \<Rightarrow> Channel \<Rightarrow> circbuffer option" where
  "chan_cbuf b ch = (case b of WriteBuf \<Rightarrow> Some (ch_writebuf ch) | ExtraBuf \<Rightarrow> ch_extrabuf ch)"

definition set_cbuf :: "chan_buf \<Rightarrow> circbuffer \<Rightarrow> Channel \<Rightarrow> Channel" where
  "set_cbuf b c ch = (case b of WriteBuf \<Rightarrow> ch\<lparr>ch_writebuf := c\<rparr> | ExtraBuf \<Rightarrow> ch\<lparr>ch_extrabuf := Some c\<rparr>)"

text \<open>
  \<^verbatim>\<open>writechannel_writev\<close>: success, the bytes of \<open>moredata\<close> that were written (\<open>None\<close> when
  \<^verbatim>\<open>morelen\<close> is NULL) and the session.
\<close>

definition writechannel_writev :: "'z env \<Rightarrow> nat \<Rightarrow> int \<Rightarrow> chan_buf \<Rightarrow> bytes option \<Rightarrow> ('c, 'z) session
    \<Rightarrow> (bool \<times> u32 \<times> ('c, 'z) session) res" where
  "writechannel_writev e i fd b moredata s =
     rbind (get_chan s i) (\<lambda>ch.
     case chan_cbuf b ch of None \<Rightarrow> Inl NullDeref
     | Some cbuf \<Rightarrow>
       rbind (cbuf_peek cbuf) (\<lambda>circ.
       if circ = [] \<and> moredata = None then Inr (True, 0, s)
       else
         let extra = (case moredata of None \<Rightarrow> [] | Some m \<Rightarrow> m);
             r = e_write e (ses_tick s) fd (circ @ extra); s = tick s in
         case r of
           WrErr err \<Rightarrow>
             if err \<noteq> EINTR \<and> err \<noteq> EAGAIN
             then rbind (close_chan_fd e i fd SHUT_WR s) (\<lambda>s. Inr (False, 0, s))
             else Inr (True, 0, s)
         | WrOk written \<Rightarrow>
             let cbuf_written = min (length circ) written in
             rbind (cbuf_incrread cbuf (of_nat cbuf_written)) (\<lambda>cbuf.
             let s = log_event (EvWrite fd (take written (circ @ extra))) s;
                 ch = (set_cbuf b cbuf ch)\<lparr>ch_recvdonelen := ch_recvdonelen ch + of_nat written\<rparr> in
             Inr (True, of_nat (written - cbuf_written), put_chan i ch s))))"

definition RECV_WINDOWEXTEND :: "'z env \<Rightarrow> u32" where
  "RECV_WINDOWEXTEND e = opt_recv_window e div 3"

definition writechannel :: "'z env \<Rightarrow> nat \<Rightarrow> int \<Rightarrow> chan_buf \<Rightarrow> bytes option \<Rightarrow> ('c, 'z) session
    \<Rightarrow> (bool \<times> u32 \<times> ('c, 'z) session) res" where
  "writechannel e i fd b moredata s =
     rbind (writechannel_writev e i fd b moredata s) (\<lambda>(ret, consumed, s).
     rbind (get_chan s i) (\<lambda>ch.
     rbind (if ch_recvdonelen ch \<ge> RECV_WINDOWEXTEND e
            then rbind (send_msg_channel_window_adjust e i (ch_recvdonelen ch) s) (\<lambda>s.
                 upd_chan i (\<lambda>ch. ch\<lparr>ch_recvwindow := ch_recvwindow ch + ch_recvdonelen ch, ch_recvdonelen := 0\<rparr>) s)
            else Inr s) (\<lambda>s.
     rbind (get_chan s i) (\<lambda>ch.
     rbind (dropbear_assert ''channel->recvwindow <= opts.recv_window'' (ch_recvwindow ch \<le> opt_recv_window e)) (\<lambda>_.
     rbind (dropbear_assert ''channel->recvwindow <= cbuf_getavail(channel->writebuf)''
              (ch_recvwindow ch \<le> cbuf_getavail (ch_writebuf ch))) (\<lambda>_.
     rbind (dropbear_assert ''channel->extrabuf == NULL || channel->recvwindow <= cbuf_getavail(channel->extrabuf)''
              (case ch_extrabuf ch of None \<Rightarrow> True | Some x \<Rightarrow> ch_recvwindow ch \<le> cbuf_getavail x)) (\<lambda>_.
     Inr (ret, consumed, s))))))))"

text \<open>
  The loop that stores the rest of the data: at most two rounds when there is room. A round in
  which the buffer has no room would repeat for ever.
\<close>

function store_data :: "u32 \<Rightarrow> buffer \<Rightarrow> circbuffer \<Rightarrow> (buffer \<times> circbuffer) res" where
  "store_data len payload cbuf =
     (if len = 0 then Inr (payload, cbuf)
      else rbind (cbuf_writelen cbuf) (\<lambda>wl.
           let buflen = min wl len in
           if buflen = 0 then Inl Diverge
           else
             rbind (cbuf_writeptr cbuf buflen) (\<lambda>(q, cbuf).
             rbind (buf_getptr payload buflen) (\<lambda>p.
             rbind (mem_read (buf_data payload) p (unat buflen)) (\<lambda>bs.
             rbind (case cbuf_data cbuf of None \<Rightarrow> Inl NullDeref | Some d \<Rightarrow> mem_write d q bs) (\<lambda>d.
             rbind (cbuf_incrwrite (cbuf\<lparr>cbuf_data := Some d\<rparr>) buflen) (\<lambda>cbuf.
             rbind (buf_incrpos payload buflen) (\<lambda>payload.
             store_data (len - buflen) payload cbuf))))))))"
  by pat_completeness auto

termination
proof (relation "measure (\<lambda>(len, _, _). unat len)", goal_cases)
  case (2 len payload cbuf wl buflen)
  have "unat (len - min wl len) = unat len - unat (min wl len)" by (simp add: unat_sub32 wnat unat_min)
  moreover have "min wl len \<noteq> 0" "unat (min wl len) \<le> unat len" using 2 by (simp_all add: unat_min)
  moreover from this have "0 < unat (min wl len)" by (simp add: unat_gt_0 del: unat_min)
  ultimately show ?case using 2 by simp
qed simp

declare store_data.simps [simp del]

definition common_recv_msg_channel_data :: "'z env \<Rightarrow> nat \<Rightarrow> int \<Rightarrow> chan_buf \<Rightarrow> ('c, 'z) session \<Rightarrow> ('c, 'z) session res" where
  "common_recv_msg_channel_data e i fd b s =
     rbind (get_chan s i) (\<lambda>ch.
     if ch_recv_eof ch then Inl (Exit ''Received data after eof'')
     else case chan_cbuf b ch of None \<Rightarrow> Inr s
     | Some cbuf \<Rightarrow>
       if fd < 0 then Inr s
       else case ses_payload s of None \<Rightarrow> Inl NullDeref
       | Some payload \<Rightarrow>
         rbind (buf_getint payload) (\<lambda>(datalen, payload).
         if datalen > cbuf_getavail cbuf then Inl (Exit ''Oversized packet'')
         else
           rbind (dropbear_assert ''channel->recvwindow >= datalen'' (ch_recvwindow ch \<ge> datalen)) (\<lambda>_.
           let ch = ch\<lparr>ch_recvwindow := ch_recvwindow ch - datalen\<rparr>;
               s = put_chan i ch (s\<lparr>ses_payload := Some payload\<rparr>) in
           rbind (dropbear_assert ''channel->recvwindow <= opts.recv_window'' (ch_recvwindow ch \<le> opt_recv_window e)) (\<lambda>_.
           rbind (buf_getptr payload datalen) (\<lambda>p.
           rbind (mem_read (buf_data payload) p (unat datalen)) (\<lambda>bs.
           rbind (writechannel e i fd b (Some bs) s) (\<lambda>(res, consumed, s).
           rbind (buf_incrpos payload consumed) (\<lambda>payload.
           if res
           then rbind (get_chan s i) (\<lambda>ch.
                case chan_cbuf b ch of None \<Rightarrow> Inl NullDeref
                | Some cbuf \<Rightarrow>
                  rbind (store_data (datalen - consumed) payload cbuf) (\<lambda>(payload, cbuf).
                  Inr (put_chan i (set_cbuf b cbuf ch) (s\<lparr>ses_payload := Some payload\<rparr>))))
           else Inr (s\<lparr>ses_payload := Some payload\<rparr>)))))))))"

definition recv_msg_channel_data :: "'z env \<Rightarrow> ('c, 'z) session \<Rightarrow> ('c, 'z) session res" where
  "recv_msg_channel_data e s =
     rbind (getchannel s) (\<lambda>(i, s).
     rbind (get_chan s i) (\<lambda>ch.
     common_recv_msg_channel_data e i (ch_writefd ch) WriteBuf s))"

definition recv_msg_channel_window_adjust :: "('c, 'z) session \<Rightarrow> ('c, 'z) session res" where
  "recv_msg_channel_window_adjust s =
     rbind (getchannel s) (\<lambda>(i, s).
     case ses_payload s of None \<Rightarrow> Inl NullDeref
     | Some payload \<Rightarrow>
       rbind (buf_getint payload) (\<lambda>(incr, payload).
       upd_chan i (\<lambda>ch.
         let newwin = ch_transwindow ch + incr;
             newwin = (if newwin < ch_transwindow ch then 0xffffffff else newwin) in
         ch\<lparr>ch_transwindow := newwin\<rparr>) (s\<lparr>ses_payload := Some payload\<rparr>)))"

definition recv_msg_channel_eof :: "'z env \<Rightarrow> ('c, 'z) chan_env \<Rightarrow> ('c, 'z) session \<Rightarrow> ('c, 'z) session res" where
  "recv_msg_channel_eof e cn s =
     rbind (getchannel_msg s) (\<lambda>(i, s).
     rbind (upd_chan i (\<lambda>ch. ch\<lparr>ch_recv_eof := True\<rparr>) s) (\<lambda>s.
     check_close e cn i s))"

definition recv_msg_channel_close :: "'z env \<Rightarrow> ('c, 'z) chan_env \<Rightarrow> ('c, 'z) session \<Rightarrow> ('c, 'z) session res" where
  "recv_msg_channel_close e cn s =
     rbind (getchannel_msg s) (\<lambda>(i, s).
     rbind (upd_chan i (\<lambda>ch. ch\<lparr>ch_recv_eof := True, ch_recv_close := True\<rparr>) s) (\<lambda>s.
     check_close e cn i s))"

definition recv_msg_channel_request :: "'z env \<Rightarrow> ('c, 'z) chan_env \<Rightarrow> ('c, 'z) session \<Rightarrow> ('c, 'z) session res" where
  "recv_msg_channel_request e cn s =
     rbind (getchannel s) (\<lambda>(i, s).
     rbind (get_chan s i) (\<lambda>ch. rbind (chan_type cn ch) (\<lambda>ty.
     case ct_reqhandler ty of Some f \<Rightarrow> f i s
     | None \<Rightarrow>
       (case ses_payload s of None \<Rightarrow> Inl NullDeref
        | Some payload \<Rightarrow>
          rbind (buf_eatstring payload) (\<lambda>payload.
          rbind (buf_getbool payload) (\<lambda>(wantreply, payload).
          let s = s\<lparr>ses_payload := Some payload\<rparr> in
          if wantreply then send_msg_channel_failure e i s else Inr s))))))"

section \<open>Data to the peer\<close>

text \<open>The payload buffer emptied, and what \<^verbatim>\<open>send_msg_channel_data\<close> does once the header is written.\<close>

definition clear_payload :: "buffer \<Rightarrow> ('c, 'z) session \<Rightarrow> ('c, 'z) session res" where
  "clear_payload wp s = rbind (buf_setpos wp 0) (\<lambda>wp. rbind (buf_setlen wp 0) (\<lambda>wp. Inr (s\<lparr>ses_writepayload := wp\<rparr>)))"

definition send_read_data :: "'z env \<Rightarrow> nat \<Rightarrow> Channel \<Rightarrow> buffer \<Rightarrow> nat \<Rightarrow> u32 \<Rightarrow> bytes \<Rightarrow> ('c, 'z) session \<Rightarrow> ('c, 'z) session res" where
  "send_read_data e i ch wp p size_pos bs s =
     rbind (rbind (mem_write (buf_data wp) p bs) (\<lambda>d.
            rbind (buf_incrwritepos (wp\<lparr>buf_data := d\<rparr>) (of_nat (length bs))) (\<lambda>wp.
            rbind (buf_setpos wp size_pos) (\<lambda>wp.
            buf_putint wp (of_nat (length bs)))))) (\<lambda>wp.
     let s = put_chan i (ch\<lparr>ch_transwindow := ch_transwindow ch - of_nat (length bs)\<rparr>) s in
     encrypt_packet e (s\<lparr>ses_writepayload := wp\<rparr>))"

definition read_and_send :: "'z env \<Rightarrow> nat \<Rightarrow> Channel \<Rightarrow> int \<Rightarrow> u32 \<Rightarrow> u32 \<Rightarrow> buffer \<Rightarrow> ('c, 'z) session \<Rightarrow> ('c, 'z) session res" where
  "read_and_send e i ch fd maxlen size_pos wp s =
     rbind (buf_getwriteptr wp maxlen) (\<lambda>p.
     let r = e_read e (ses_tick s) fd (unat maxlen); s = (tick s)\<lparr>ses_writepayload := wp\<rparr> in
     case r of
       RdErr err \<Rightarrow>
         rbind (if err \<noteq> EINTR then close_chan_fd e i fd SHUT_RD s else Inr s) (clear_payload wp)
     | RdData bs \<Rightarrow>
         if bs = [] then rbind (close_chan_fd e i fd SHUT_RD s) (clear_payload wp)
         else send_read_data e i ch wp p size_pos bs s)"

definition send_msg_channel_data :: "'z env \<Rightarrow> nat \<Rightarrow> bool \<Rightarrow> ('c, 'z) session \<Rightarrow> ('c, 'z) session res" where
  "send_msg_channel_data e i isextended s =
     rbind (get_chan s i) (\<lambda>ch.
     rbind (dropbear_assert ''!channel->sent_close'' (\<not> ch_sent_close ch)) (\<lambda>_.
     let fd = (if isextended then ch_errfd ch else ch_readfd ch) in
     rbind (dropbear_assert ''fd >= 0'' (fd \<ge> 0)) (\<lambda>_.
     let maxlen = min (min (ch_transwindow ch) (ch_transmaxpacket ch))
                    (buf_size (ses_writepayload s) - 1 - 4 - 4 - (if isextended then 4 else 0)) in
     if maxlen = 0 then Inr s
     else
       rbind (buf_putbyte (ses_writepayload s) (if isextended then SSH_MSG_CHANNEL_EXTENDED_DATA else SSH_MSG_CHANNEL_DATA)) (\<lambda>wp.
       rbind (buf_putint wp (ch_remotechan ch)) (\<lambda>wp.
       rbind (if isextended then buf_putint wp SSH_EXTENDED_DATA_STDERR else Inr wp) (\<lambda>wp.
       let size_pos = buf_pos wp in
       rbind (buf_putint wp 0) (\<lambda>wp.
       read_and_send e i ch fd maxlen size_pos wp s)))))))"

section \<open>Opening\<close>

text \<open>The loop over \<^verbatim>\<open>ses.chantypes\<close>.\<close>

fun find_chantype :: "('c, 'z) chan_env \<Rightarrow> nat list \<Rightarrow> bytes \<Rightarrow> nat option res" where
  "find_chantype cn [] ty = Inr None"
| "find_chantype cn (t # ts) ty =
     (if t \<ge> length (cn_types cn) then Inl NullDeref
      else if cstr ty = ct_name (cn_types cn ! t) then Inr (Some t) else find_chantype cn ts ty)"

definition recv_msg_channel_open :: "'z env \<Rightarrow> ('c, 'z) chan_env \<Rightarrow> ('c, 'z) session \<Rightarrow> ('c, 'z) session res" where
  "recv_msg_channel_open e cn s =
     (case ses_payload s of None \<Rightarrow> Inl NullDeref
      | Some payload \<Rightarrow>
        rbind (buf_getstring payload) (\<lambda>(ty, typelen, payload).
        rbind (buf_getint payload) (\<lambda>(remotechan, payload).
        rbind (buf_getint payload) (\<lambda>(transwindow, payload).
        rbind (buf_getint payload) (\<lambda>(transmaxpacket, payload).
        let transmaxpacket = min transmaxpacket TRANS_MAX_PAYLOAD_LEN;
            s = s\<lparr>ses_payload := Some payload\<rparr>;
            failure = (\<lambda>errtype s. send_msg_channel_open_failure e remotechan errtype [] [] s) in
        if typelen > CHAN_NAME_MAX then failure SSH_OPEN_UNKNOWN_CHANNEL_TYPE s
        else
          rbind (find_chantype cn (cn_chantypes cn) ty) (\<lambda>r.
          case r of None \<Rightarrow> failure SSH_OPEN_UNKNOWN_CHANNEL_TYPE s
          | Some t \<Rightarrow>
            rbind (newchannel e remotechan t transwindow transmaxpacket s) (\<lambda>(r, s).
            case r of None \<Rightarrow> failure SSH_OPEN_RESOURCE_SHORTAGE s
            | Some i \<Rightarrow>
              rbind (case ct_inithandler (cn_types cn ! t) of None \<Rightarrow> Inr (0, s) | Some f \<Rightarrow> f i s) (\<lambda>(ret, s).
              if ret = SSH_OPEN_IN_PROGRESS then Inr s
              else if ret > 0 then rbind (remove_channel e cn i s) (failure ret)
              else
                let s = update_channel_prio s in
                rbind (get_chan s i) (\<lambda>ch.
                send_msg_channel_open_confirmation e i (ch_recvwindow ch) (ch_recvmaxpacket ch) s)))))))))"

definition put_channel_open :: "'z env \<Rightarrow> bytes \<Rightarrow> u32 \<Rightarrow> buffer \<Rightarrow> buffer res" where
  "put_channel_open e name index wp =
     rbind (buf_putbyte wp SSH_MSG_CHANNEL_OPEN) (\<lambda>wp.
     rbind (buf_putstring wp (name @ [0]) (of_nat (length name))) (\<lambda>wp.
     rbind (buf_putint wp index) (\<lambda>wp.
     rbind (buf_putint wp (opt_recv_window e)) (\<lambda>wp.
     buf_putint wp RECV_MAX_CHANNEL_DATA_LEN))))"

definition send_msg_channel_open_init :: "'z env \<Rightarrow> ('c, 'z) chan_env \<Rightarrow> int \<Rightarrow> nat \<Rightarrow> ('c, 'z) session
    \<Rightarrow> (bool \<times> ('c, 'z) session) res" where
  "send_msg_channel_open_init e cn fd t s =
     rbind (newchannel e 0 t 0 0 s) (\<lambda>(r, s).
     case r of None \<Rightarrow> Inr (False, s)
     | Some i \<Rightarrow>
       if t \<ge> length (cn_types cn) then Inl NullDeref
       else
         rbind (upd_chan i (\<lambda>ch. ch\<lparr>ch_writefd := fd, ch_readfd := fd, ch_bidir_fd := True, ch_await_open := True\<rparr>) s) (\<lambda>s.
         let s = s\<lparr>ses_maxfd := max (ses_maxfd s) fd\<rparr>; name = ct_name (cn_types cn ! t) in
         rbind (get_chan s i) (\<lambda>ch.
         rbind (put_channel_open e name (ch_index ch) (ses_writepayload s)) (\<lambda>wp.
         Inr (True, s\<lparr>ses_writepayload := wp\<rparr>)))))"

definition recv_msg_channel_open_confirmation :: "'z env \<Rightarrow> ('c, 'z) chan_env \<Rightarrow> ('c, 'z) session \<Rightarrow> ('c, 'z) session res" where
  "recv_msg_channel_open_confirmation e cn s =
     rbind (getchannel s) (\<lambda>(i, s).
     rbind (get_chan s i) (\<lambda>ch.
     if \<not> ch_await_open ch then Inl (Exit ''Unexpected channel reply'')
     else case ses_payload s of None \<Rightarrow> Inl NullDeref
     | Some payload \<Rightarrow>
       rbind (buf_getint payload) (\<lambda>(remotechan, payload).
       rbind (buf_getint payload) (\<lambda>(transwindow, payload).
       rbind (buf_getint payload) (\<lambda>(transmaxpacket, payload).
       let s = put_chan i (ch\<lparr>ch_await_open := False, ch_remotechan := remotechan, ch_transwindow := transwindow,
                 ch_transmaxpacket := transmaxpacket\<rparr>) (s\<lparr>ses_payload := Some payload\<rparr>) in
       rbind (chan_type cn ch) (\<lambda>ty.
       rbind (case ct_inithandler ty of None \<Rightarrow> Inr (0, s) | Some f \<Rightarrow> f i s) (\<lambda>(ret, s).
       if ret > 0 then remove_channel e cn i s else Inr (update_channel_prio s))))))))"

definition recv_msg_channel_open_failure :: "'z env \<Rightarrow> ('c, 'z) chan_env \<Rightarrow> ('c, 'z) session \<Rightarrow> ('c, 'z) session res" where
  "recv_msg_channel_open_failure e cn s =
     rbind (getchannel s) (\<lambda>(i, s).
     rbind (get_chan s i) (\<lambda>ch.
     if \<not> ch_await_open ch then Inl (Exit ''Unexpected channel reply'')
     else remove_channel e cn i (put_chan i (ch\<lparr>ch_await_open := False\<rparr>) s)))"

text \<open>\<open>result\<close> is success; \<open>errstring\<close> is only used on failure.\<close>

definition channel_connect_done :: "'z env \<Rightarrow> ('c, 'z) chan_env \<Rightarrow> bool \<Rightarrow> int \<Rightarrow> nat \<Rightarrow> bytes \<Rightarrow> ('c, 'z) session \<Rightarrow> ('c, 'z) session res" where
  "channel_connect_done e cn result sock i errstring s =
     rbind (get_chan s i) (\<lambda>ch.
     if result then
       send_msg_channel_open_confirmation e i (ch_recvwindow ch) (ch_recvmaxpacket ch)
         (put_chan i (ch\<lparr>ch_readfd := sock, ch_writefd := sock, ch_bidir_fd := True, ch_conn_pending := None\<rparr>) s)
     else
       rbind (send_msg_channel_open_failure e (ch_remotechan ch) SSH_OPEN_CONNECT_FAILED errstring [] s) (\<lambda>s.
       remove_channel e cn i s))"

section \<open>The main loop's part\<close>

definition chan_read_fds :: "('c, 'z) session \<Rightarrow> bool \<Rightarrow> Channel \<Rightarrow> int list" where
  "chan_read_fds s allow_reads ch =
     (if ch_transwindow ch > 0 \<and> ses_dataallowed s \<and> allow_reads
      then (if ch_readfd ch \<ge> 0 then [ch_readfd ch] else [])
         @ (if errfd_is_read ch \<and> ch_errfd ch \<ge> 0 then [ch_errfd ch] else [])
      else [])"

definition chan_write_fds :: "Channel \<Rightarrow> int list" where
  "chan_write_fds ch =
     (if ch_writefd ch \<ge> 0 \<and> cbuf_getused (ch_writebuf ch) > 0 then [ch_writefd ch] else [])
     @ (case ch_extrabuf ch of None \<Rightarrow> [] | Some x \<Rightarrow> if ch_errfd ch \<ge> 0 \<and> cbuf_getused x > 0 then [ch_errfd ch] else [])"

text \<open>The descriptors that \<^verbatim>\<open>setchannelfds\<close> adds to the two sets, without the listeners'.\<close>

definition setchannelfds :: "('c, 'z) session \<Rightarrow> bool \<Rightarrow> (int list \<times> int list) res" where
  "setchannelfds s allow_reads =
     (if length (ses_channels s) < unat (ses_chansize s) then Inl OutOfBounds
      else let chans = List.map_filter id (take (unat (ses_chansize s)) (ses_channels s)) in
           Inr (concat (map (chan_read_fds s allow_reads) chans), concat (map chan_write_fds chans)))"

text \<open>One round of the loop of \<^verbatim>\<open>channelio\<close>, for a channel in use.\<close>

definition chan_io :: "'z env \<Rightarrow> ('c, 'z) chan_env \<Rightarrow> (int \<Rightarrow> bool) \<Rightarrow> (int \<Rightarrow> bool) \<Rightarrow> nat \<Rightarrow> ('c, 'z) session \<Rightarrow> ('c, 'z) session res" where
  "chan_io e cn readfds writefds i s =
     rbind (get_chan s i) (\<lambda>ch.
     let c1 = ch_readfd ch \<ge> 0 \<and> readfds (ch_readfd ch) in
     rbind (if c1 then send_msg_channel_data e i False s else Inr s) (\<lambda>s.
     rbind (get_chan s i) (\<lambda>ch.
     let c2 = errfd_is_read ch \<and> ch_errfd ch \<ge> 0 \<and> readfds (ch_errfd ch) in
     rbind (if c2 then send_msg_channel_data e i True s else Inr s) (\<lambda>s.
     rbind (get_chan s i) (\<lambda>ch.
     let c3 = ch_writefd ch \<ge> 0 \<and> writefds (ch_writefd ch) in
     rbind (if c3 then rbind (writechannel e i (ch_writefd ch) WriteBuf None s) (\<lambda>(_, _, s). Inr s) else Inr s) (\<lambda>s.
     rbind (get_chan s i) (\<lambda>ch.
     let c4 = \<not> errfd_is_read ch \<and> ch_errfd ch \<ge> 0 \<and> writefds (ch_errfd ch) in
     rbind (if c4 then rbind (writechannel e i (ch_errfd ch) ExtraBuf None s) (\<lambda>(_, _, s). Inr s) else Inr s) (\<lambda>s.
     if c1 \<or> c2 \<or> c3 \<or> c4 \<or> ses_channel_signal_pending s then check_close e cn i s else Inr s))))))))"

function channelio_loop :: "'z env \<Rightarrow> ('c, 'z) chan_env \<Rightarrow> (int \<Rightarrow> bool) \<Rightarrow> (int \<Rightarrow> bool) \<Rightarrow> nat \<Rightarrow> ('c, 'z) session \<Rightarrow> ('c, 'z) session res" where
  "channelio_loop e cn readfds writefds i s =
     (if i < unat (ses_chansize s)
      then if length (ses_channels s) \<le> i then Inl OutOfBounds
           else rbind (if ses_channels s ! i = None then Inr s else chan_io e cn readfds writefds i s) (\<lambda>s.
                channelio_loop e cn readfds writefds (Suc i) s)
      else Inr s)"
  by pat_completeness auto

termination
proof (relation "measure (\<lambda>(_, _, _, _, i, _). 2 ^ 32 - i)", goal_cases)
  case (2 e cn rf wf i s s')
  then have "i < 2 ^ 32" using unsigned_less [of "ses_chansize s", where ?'a = nat] by simp
  then show ?case by simp
qed simp

declare channelio_loop.simps [simp del]

definition channelio :: "'z env \<Rightarrow> ('c, 'z) chan_env \<Rightarrow> (int \<Rightarrow> bool) \<Rightarrow> (int \<Rightarrow> bool) \<Rightarrow> ('c, 'z) session \<Rightarrow> ('c, 'z) session res" where
  "channelio e cn readfds writefds s =
     rbind (channelio_loop e cn readfds writefds 0 s) (\<lambda>s. cn_handle_listeners cn readfds s)"

text \<open>\<^verbatim>\<open>chancleanup\<close>: every channel in use is removed.\<close>

fun chancleanup_loop :: "'z env \<Rightarrow> ('c, 'z) chan_env \<Rightarrow> nat list \<Rightarrow> ('c, 'z) session \<Rightarrow> ('c, 'z) session res" where
  "chancleanup_loop e cn [] s = Inr s"
| "chancleanup_loop e cn (i # is) s =
     (if length (ses_channels s) \<le> i then Inl OutOfBounds
      else rbind (if ses_channels s ! i \<noteq> None then remove_channel e cn i s else Inr s) (\<lambda>s. chancleanup_loop e cn is s))"

definition chancleanup :: "'z env \<Rightarrow> ('c, 'z) chan_env \<Rightarrow> ('c, 'z) session \<Rightarrow> ('c, 'z) session res" where
  "chancleanup e cn s = chancleanup_loop e cn [0..<unat (ses_chansize s)] s"

end
