(* ===== verification/Channel_Safe.thy ===== *)
theory Channel_Safe
  imports Channel
begin

text \<open>
  The invariant of the channels and that every operation keeps it, for any behaviour of the peer,
  of the descriptors and of the handlers that obey their contract (locale \<open>chan_handlers\<close>).
  In particular the flow control is sound: what a peer may still send, what is acknowledged
  but not announced and what is buffered never exceed the receive window, so that the three
  assertions of \<^verbatim>\<open>writechannel\<close> never fail and no received byte is without a place.
\<close>

section \<open>Outcomes with assertions\<close>

text \<open>
  A peer that sends more than its window, or that closes a channel which is still connecting,
  makes a \<^verbatim>\<open>dropbear_assert\<close> fail, which ends the session like \<^verbatim>\<open>dropbear_exit\<close>. \<open>keeps P m\<close> allows that,
  and excludes memory errors and endless loops.
\<close>

definition tame :: "fatal \<Rightarrow> bool" where
  "tame e \<longleftrightarrow> (case e of Exit _ \<Rightarrow> True | Close _ \<Rightarrow> True | AssertFail _ \<Rightarrow> True | _ \<Rightarrow> False)"

definition keeps :: "('a \<Rightarrow> bool) \<Rightarrow> 'a res \<Rightarrow> bool" where
  "keeps P m \<longleftrightarrow> (case m of Inl e \<Rightarrow> tame e | Inr x \<Rightarrow> P x)"

lemma tame_simps [simp]: "tame (Exit m)" "tame (Close m)" "tame (AssertFail m)" "\<not> tame OutOfBounds"
  "\<not> tame NullDeref" "\<not> tame DivByZero" "\<not> tame Diverge"
  by (simp_all add: tame_def)

lemma keeps_simps [simp]: "keeps P (Inr x) \<longleftrightarrow> P x" "keeps P (Inl e) \<longleftrightarrow> tame e"
  by (simp_all add: keeps_def)

lemma keeps_rbind: "keeps Q m \<Longrightarrow> (\<And>x. Q x \<Longrightarrow> keeps P (f x)) \<Longrightarrow> keeps P (rbind m f)"
  by (cases m) auto

lemma keeps_weaken: "keeps Q m \<Longrightarrow> (\<And>x. Q x \<Longrightarrow> P x) \<Longrightarrow> keeps P m"
  by (cases m) auto

lemma runs_keeps: "runs Q m \<Longrightarrow> (\<And>x. Q x \<Longrightarrow> P x) \<Longrightarrow> keeps P m"
  by (cases m) (auto simp: clean_def tame_def split: fatal.splits)

lemma keeps_runs: "runs Q m \<Longrightarrow> (\<And>x. Q x \<Longrightarrow> keeps P (f x)) \<Longrightarrow> keeps P (rbind m f)"
  by (rule keeps_rbind [OF runs_keeps])

lemma keeps_if: "(c \<Longrightarrow> keeps P a) \<Longrightarrow> (\<not> c \<Longrightarrow> keeps P b) \<Longrightarrow> keeps P (if c then a else b)"
  by simp

lemma keeps_assert: "(c \<Longrightarrow> keeps P (f ())) \<Longrightarrow> keeps P (rbind (dropbear_assert m c) f)"
  by (simp add: dropbear_assert_def)

lemma keeps_InrD: "keeps P m \<Longrightarrow> m = Inr x \<Longrightarrow> P x"
  by simp

section \<open>The invariant\<close>

text \<open>\<open>chan_room e n ch\<close>: the channel can take \<open>n\<close> more bytes than those it has accounted for.\<close>

definition extra_used :: "Channel \<Rightarrow> nat" where
  "extra_used ch = (case ch_extrabuf ch of None \<Rightarrow> 0 | Some x \<Rightarrow> unat (cbuf_used x))"

definition chan_room :: "'z env \<Rightarrow> nat \<Rightarrow> Channel \<Rightarrow> bool" where
  "chan_room e n ch \<longleftrightarrow> cbuf_wf (ch_writebuf ch) \<and> cbuf_size (ch_writebuf ch) = opt_recv_window e
     \<and> (\<forall>x. ch_extrabuf ch = Some x \<longrightarrow> cbuf_wf x \<and> cbuf_size x = opt_recv_window e)
     \<and> unat (ch_recvwindow ch) + unat (ch_recvdonelen ch) + unat (cbuf_used (ch_writebuf ch)) + extra_used ch + n
         \<le> unat (opt_recv_window e)"

definition chans_inv :: "'z env \<Rightarrow> ('c, 'z) chan_env \<Rightarrow> Channel option list \<Rightarrow> bool" where
  "chans_inv e cn cs \<longleftrightarrow> length cs \<le> 1002 \<and> (\<forall>i ch. i < length cs \<longrightarrow> cs ! i = Some ch \<longrightarrow>
     unat (ch_index ch) = i \<and> chan_room e 0 ch \<and> ch_type ch < length (cn_types cn)
       \<and> (ch_await_open ch \<longrightarrow> ch_conn_pending ch = None))"

definition count_chans :: "Channel option list \<Rightarrow> nat" where
  "count_chans cs = length (filter (\<lambda>c. c \<noteq> None) cs)"

text \<open>
  Pending connections and channels refer to each other: the callback of a connection never names
  a removed channel, and a channel never names a freed connection.
\<close>

definition conns_inv :: "Channel option list \<Rightarrow> dropbear_progress_connection list \<Rightarrow> nat \<Rightarrow> bool" where
  "conns_inv cs ps n \<longleftrightarrow> distinct (map pc_id ps)
     \<and> (\<forall>c\<in>set ps. pc_id c < n \<and> (\<forall>i. pc_cb c = Channel_connect_done i \<longrightarrow>
          i < length cs \<and> (\<exists>ch. cs ! i = Some ch \<and> ch_conn_pending ch = Some (pc_id c))))
     \<and> (\<forall>i ch k. i < length cs \<longrightarrow> cs ! i = Some ch \<longrightarrow> ch_conn_pending ch = Some k \<longrightarrow>
          (\<exists>c\<in>set ps. pc_id c = k \<and> pc_cb c = Channel_connect_done i))"

definition listener_ok :: "('c, 'z) chan_env \<Rightarrow> Listener \<Rightarrow> bool" where
  "listener_ok cn l \<longleftrightarrow> length (l_socks l) = DROPBEAR_MAX_SOCKS \<and> unat (l_nsocks l) \<le> DROPBEAR_MAX_SOCKS
     \<and> (l_acceptor l \<noteq> Agent_acceptor \<longrightarrow> (\<exists>fl. l_typedata l = Some fl \<and> fl_chantype fl < length (cn_types cn)
          \<and> fl_request_listenaddr fl \<noteq> None))
     \<and> l_type l \<le> 2 \<and> (l_type l \<noteq> 0 \<longrightarrow> l_acceptor l \<noteq> Agent_acceptor) \<and> (l_cleanup l \<noteq> None \<longrightarrow> l_typedata l \<noteq> None)"

definition listeners_inv :: "('c, 'z) chan_env \<Rightarrow> Listener option list \<Rightarrow> u32 \<Rightarrow> bool" where
  "listeners_inv cn ls n \<longleftrightarrow> unat n = length ls \<and> length ls \<le> 21
     \<and> (\<forall>i l. i < length ls \<longrightarrow> ls ! i = Some l \<longrightarrow> l_index l = i \<and> listener_ok cn l)"

text \<open>Every \<^verbatim>\<open>permitopen\<close> entry of the user's key names a host.\<close>

definition permits_ok :: "AuthState \<Rightarrow> bool" where
  "permits_ok a \<longleftrightarrow> (\<forall>po es. auth_pubkey_options a = Some po \<longrightarrow> permit_open_destinations po = Some es \<longrightarrow> (\<forall>x\<in>set es. fwd_host x \<noteq> None))"

definition ses_inv :: "'z env \<Rightarrow> ('c, 'z) chan_env \<Rightarrow> ('c, 'z) session \<Rightarrow> bool" where
  "ses_inv e cn s \<longleftrightarrow> send_ok e s \<and> chans_inv e cn (ses_channels s) \<and> unat (ses_chansize s) = length (ses_channels s)
     \<and> unat (ses_chancount s) = count_chans (ses_channels s)
     \<and> conns_inv (ses_channels s) (ses_conn_pending s) (ses_next_conn s)
     \<and> listeners_inv cn (ses_listeners s) (ses_listensize s) \<and> permits_ok (ses_authstate s)
     \<and> (\<forall>pb. ses_payload s = Some pb \<longrightarrow> buf_wf pb)
     \<and> 0 < opt_recv_window e \<and> opt_recv_window e \<le> MAX_CBUF_SIZE"

definition slot :: "('c, 'z) session \<Rightarrow> nat \<Rightarrow> bool" where
  "slot s i \<longleftrightarrow> i < length (ses_channels s) \<and> ses_channels s ! i \<noteq> None"

lemma chan_room_mono: "chan_room e n ch \<Longrightarrow> m \<le> n \<Longrightarrow> chan_room e m ch"
  by (simp add: chan_room_def)

lemma chan_room_upd [simp]:
  "chan_room e n (ch\<lparr>ch_remotechan := x1\<rparr>) = chan_room e n ch" "chan_room e n (ch\<lparr>ch_transwindow := x1\<rparr>) = chan_room e n ch"
  "chan_room e n (ch\<lparr>ch_transmaxpacket := x1\<rparr>) = chan_room e n ch" "chan_room e n (ch\<lparr>ch_writefd := x2\<rparr>) = chan_room e n ch"
  "chan_room e n (ch\<lparr>ch_readfd := x2\<rparr>) = chan_room e n ch" "chan_room e n (ch\<lparr>ch_errfd := x2\<rparr>) = chan_room e n ch"
  "chan_room e n (ch\<lparr>ch_bidir_fd := x3\<rparr>) = chan_room e n ch" "chan_room e n (ch\<lparr>ch_sent_close := x3\<rparr>) = chan_room e n ch"
  "chan_room e n (ch\<lparr>ch_recv_close := x3\<rparr>) = chan_room e n ch" "chan_room e n (ch\<lparr>ch_recv_eof := x3\<rparr>) = chan_room e n ch"
  "chan_room e n (ch\<lparr>ch_sent_eof := x3\<rparr>) = chan_room e n ch" "chan_room e n (ch\<lparr>ch_flushing := x3\<rparr>) = chan_room e n ch"
  "chan_room e n (ch\<lparr>ch_conn_pending := x5\<rparr>) = chan_room e n ch" "chan_room e n (ch\<lparr>ch_await_open := x3\<rparr>) = chan_room e n ch"
  "chan_room e n (ch\<lparr>ch_prio := x4\<rparr>) = chan_room e n ch"
  by (simp_all add: chan_room_def extra_used_def cong: option.case_cong)

lemma ses_inv_upd [simp]:
  "ses_inv e cn (s\<lparr>ses_trace := x1\<rparr>) = ses_inv e cn s" "ses_inv e cn (s\<lparr>ses_tick := x2\<rparr>) = ses_inv e cn s"
  "ses_inv e cn (s\<lparr>ses_socket_prio := x3\<rparr>) = ses_inv e cn s" "ses_inv e cn (s\<lparr>ses_maxfd := x4\<rparr>) = ses_inv e cn s"
  "ses_inv e cn (tick s) = ses_inv e cn s" "ses_inv e cn (log_event ev s) = ses_inv e cn s"
  "ses_inv e cn (update_channel_prio s) = ses_inv e cn s"
  by (simp_all add: ses_inv_def send_ok_def trans_macsize_def tick_def log_event_def update_channel_prio_def Let_def)

lemma slot_upd [simp]:
  "slot (tick s) i = slot s i" "slot (log_event ev s) i = slot s i" "slot (update_channel_prio s) i = slot s i"
  "slot (s\<lparr>ses_payload := x\<rparr>) i = slot s i" "slot (s\<lparr>ses_writepayload := y\<rparr>) i = slot s i"
  "slot (s\<lparr>ses_conn_pending := ps\<rparr>) i = slot s i" "slot (s\<lparr>ses_next_conn := n\<rparr>) i = slot s i"
  by (simp_all add: slot_def tick_def log_event_def update_channel_prio_def Let_def)

lemma slot_put [simp]: "slot (put_chan k ch s) i \<longleftrightarrow> slot s i \<or> (k = i \<and> i < length (ses_channels s))"
  by (cases "k = i") (auto simp: slot_def put_chan_def)

lemma ses_inv_payload: "ses_inv e cn s \<Longrightarrow> buf_wf pb \<Longrightarrow> ses_inv e cn (s\<lparr>ses_payload := Some pb\<rparr>)"
  by (simp add: ses_inv_def send_ok_def trans_macsize_def)

lemma ses_inv_send: "ses_inv e cn s \<Longrightarrow> send_ok e s" by (simp add: ses_inv_def)

lemma ses_inv_pb: "ses_inv e cn s \<Longrightarrow> ses_payload s = Some pb \<Longrightarrow> buf_wf pb" by (simp add: ses_inv_def)

lemma slotE: assumes "slot s i" obtains ch where "ses_channels s ! i = Some ch" "i < length (ses_channels s)" "get_chan s i = Inr ch"
  using assms by (auto simp: slot_def get_chan_def)

lemma ses_inv_chan:
  assumes "ses_inv e cn s" "get_chan s i = Inr ch"
  shows "unat (ch_index ch) = i" "chan_room e 0 ch" "ch_type ch < length (cn_types cn)" "i < length (ses_channels s)"
    "ses_channels s ! i = Some ch" "slot s i" "i < 1002" "ch_await_open ch \<Longrightarrow> ch_conn_pending ch = None"
  using assms by (auto simp: ses_inv_def chans_inv_def get_chan_def slot_def split: if_splits option.splits)

lemma count_chans_update:
  "i < length cs \<Longrightarrow> cs ! i \<noteq> None \<Longrightarrow> count_chans (cs[i := Some ch]) = count_chans cs"
  unfolding count_chans_def by (induction cs arbitrary: i) (auto split: nat.split simp: nth_Cons' list_update.simps)

lemma conns_inv_same:
  assumes "conns_inv cs ps n" "length cs' = length cs" "\<And>i. map_option ch_conn_pending (cs' ! i) = map_option ch_conn_pending (cs ! i)"
  shows "conns_inv cs' ps n"
proof -
  have 1: "\<exists>ch'. cs' ! i = Some ch' \<and> ch_conn_pending ch' = ch_conn_pending ch" if "cs ! i = Some ch" for i ch
    using assms(3) [of i] that by (cases "cs' ! i") auto
  have 2: "\<exists>ch'. cs ! i = Some ch' \<and> ch_conn_pending ch' = ch_conn_pending ch" if "cs' ! i = Some ch" for i ch
    using assms(3) [of i] that by (cases "cs ! i") auto
  from assms(1,2) show ?thesis unfolding conns_inv_def by (auto dest!: 2) (metis 1)
qed

lemma ses_inv_put:
  assumes s: "ses_inv e cn s" "get_chan s i = Inr ch0"
    and ch: "ch_index ch = ch_index ch0" "ch_type ch = ch_type ch0" "chan_room e 0 ch" "ch_conn_pending ch = ch_conn_pending ch0"
      "ch_await_open ch \<longrightarrow> ch_await_open ch0 \<or> ch_conn_pending ch = None"
  shows "ses_inv e cn (put_chan i ch s)"
proof -
  note c = ses_inv_chan [OF s]
  have "conns_inv ((ses_channels s)[i := Some ch]) (ses_conn_pending s) (ses_next_conn s)"
    by (rule conns_inv_same [of "ses_channels s"]) (use s(1) c(4,5) ch(4) in \<open>auto simp: ses_inv_def nth_list_update\<close>)
  moreover have "chans_inv e cn ((ses_channels s)[i := Some ch])"
    using s(1) ch c unfolding ses_inv_def chans_inv_def by (auto simp: nth_list_update)
  ultimately show ?thesis using s(1) c(4,5) unfolding ses_inv_def put_chan_def send_ok_def trans_macsize_def
    by (simp add: count_chans_update)
qed

lemma get_put [simp]: "i < length (ses_channels s) \<Longrightarrow> get_chan (put_chan i ch s) i = Inr ch"
  by (simp add: get_chan_def put_chan_def)

lemma put_chan_payload [simp]: "ses_payload (put_chan i ch s) = ses_payload s"
  by (simp add: put_chan_def)

lemma get_chan_upd [simp]: "get_chan (tick s) i = get_chan s i" "get_chan (log_event ev s) i = get_chan s i"
  "get_chan (s\<lparr>ses_payload := x\<rparr>) i = get_chan s i" "get_chan (s\<lparr>ses_writepayload := y\<rparr>) i = get_chan s i"
  "get_chan (s\<lparr>ses_conn_pending := ps\<rparr>) i = get_chan s i" "get_chan (s\<lparr>ses_next_conn := n\<rparr>) i = get_chan s i"
  by (simp_all add: get_chan_def tick_def log_event_def)

section \<open>Messages\<close>

lemma ses_inv_core:
  assumes "ses_inv e cn s" "send_ok e s'" "same_core s s'" shows "ses_inv e cn s'" "slot s' i = slot s i" "get_chan s' i = get_chan s i"
  using assms by (auto simp: ses_inv_def same_core_def slot_def get_chan_def)

lemma runs_send_inv:
  assumes "ses_inv e cn s" "runs (grown (ses_writepayload s)) m"
  shows "runs (\<lambda>s'. ses_inv e cn s' \<and> same_core s s') (rbind m (\<lambda>wp. encrypt_packet e (s\<lparr>ses_writepayload := wp\<rparr>)))"
  by (rule runs_weaken [OF runs_send [OF ses_inv_send [OF assms(1)] assms(2)]]) (auto intro: ses_inv_core(1) [OF assms(1)])

lemma runs_put2:
  assumes "buf_wf wp" "\<And>b. grown wp b \<Longrightarrow> runs (grown wp) (f b)"
  shows "runs (grown wp) (rbind (buf_putbyte wp m) (\<lambda>wp. rbind (buf_putint wp n) f))"
  apply (rule runs_rbind [OF runs_putbyte [OF assms(1)]])
  apply (rule runs_rbind [OF runs_putint], simp add: grown_def)
  by (rule assms(2)) (rule grown_trans)

lemma runs_chan_msg:
  assumes s: "ses_inv e cn s" and f: "\<And>b. grown (ses_writepayload s) b \<Longrightarrow> runs (grown (ses_writepayload s)) (f b)"
  shows "runs (\<lambda>s'. ses_inv e cn s' \<and> same_core s s') (send_chan_msg e m n f s)"
  unfolding send_chan_msg_def
  by (rule runs_send_inv [OF s runs_put2 [OF send_ok_D(1) [OF ses_inv_send [OF s]] f]])

lemma unat_of_nat_le: "unat (of_nat n :: u32) \<le> n"
  by (simp add: unat_of_nat take_bit_nat_def)

lemma runs_putint_grown: "grown wp b \<Longrightarrow> runs (grown wp) (buf_putint b n)"
  by (rule runs_weaken [OF runs_putint]) (auto simp: grown_def)

lemma runs_putstring_grown: "grown wp b \<Longrightarrow> unat n \<le> length src \<Longrightarrow> runs (grown wp) (buf_putstring b src n)"
  by (rule runs_weaken [OF runs_putstring]) (auto simp: grown_def)

lemma same_core_slot: "same_core s s' \<Longrightarrow> get_chan s' i = get_chan s i" "same_core s s' \<Longrightarrow> slot s' i = slot s i"
  by (simp_all add: same_core_def get_chan_def slot_def)

lemma runs_upd_chan:
  assumes s: "ses_inv e cn s" "slot s i"
    and f: "\<And>ch. ch_index (f ch) = ch_index ch" "\<And>ch. ch_type (f ch) = ch_type ch" "\<And>ch. chan_room e 0 ch \<Longrightarrow> chan_room e 0 (f ch)"
      "\<And>ch. ch_conn_pending (f ch) = ch_conn_pending ch" "\<And>ch. ch_await_open (f ch) = ch_await_open ch"
  shows "runs (\<lambda>s'. ses_inv e cn s' \<and> slot s' i) (upd_chan i f s)"
proof -
  obtain ch where ch: "get_chan s i = Inr ch" using slotE [OF s(2)] by blast
  note c = ses_inv_chan [OF s(1) ch]
  show ?thesis using ses_inv_put [OF s(1) ch, of "f ch"] c f s(2) by (simp add: upd_chan_def ch)
qed

lemma runs_chan_eof: "ses_inv e cn s \<Longrightarrow> slot s i \<Longrightarrow> runs (\<lambda>s'. ses_inv e cn s' \<and> slot s' i) (send_msg_channel_eof e i s)"
  unfolding send_msg_channel_eof_def
  apply (erule slotE, simp)
  apply (rule runs_rbind [OF runs_chan_msg], assumption, simp)
  by (rule runs_upd_chan) (auto simp: slot_def same_core_def)

lemma runs_chan_reply:
  assumes "ses_inv e cn s" "slot s i"
  shows "runs (\<lambda>s'. ses_inv e cn s' \<and> slot s' i) (send_msg_channel_failure e i s)"
    "runs (\<lambda>s'. ses_inv e cn s' \<and> slot s' i) (send_msg_channel_success e i s)"
proof -
  obtain ch where ch: "get_chan s i = Inr ch" using slotE [OF assms(2)] by blast
  have "runs (\<lambda>s'. ses_inv e cn s' \<and> slot s' i) (send_chan_msg e m n Inr s)" for m n
    by (rule runs_weaken [OF runs_chan_msg [OF assms(1)]]) (use assms(2) same_core_slot(2) in auto)
  then show "runs (\<lambda>s'. ses_inv e cn s' \<and> slot s' i) (send_msg_channel_failure e i s)"
    "runs (\<lambda>s'. ses_inv e cn s' \<and> slot s' i) (send_msg_channel_success e i s)"
    using assms by (simp_all add: send_msg_channel_failure_def send_msg_channel_success_def ch)
qed

lemma runs_open_failure:
  assumes "ses_inv e cn s"
  shows "runs (\<lambda>s'. ses_inv e cn s' \<and> same_core s s') (send_msg_channel_open_failure e n r txt lang s)"
  unfolding send_msg_channel_open_failure_def
  apply (rule runs_chan_msg [OF assms(1)])
  apply (rule runs_rbind [OF runs_putint_grown], assumption)
  apply (rule runs_rbind [OF runs_putstring_grown], assumption, simp add: unat_of_nat_le le_SucI)
  by (rule runs_putstring_grown, assumption, simp add: unat_of_nat_le le_SucI)

lemma runs_open_confirmation:
  assumes "ses_inv e cn s" "slot s i"
  shows "runs (\<lambda>s'. ses_inv e cn s' \<and> slot s' i) (send_msg_channel_open_confirmation e i w m s)"
proof -
  obtain ch where ch: "get_chan s i = Inr ch" using slotE [OF assms(2)] by blast
  have "runs (\<lambda>s'. ses_inv e cn s' \<and> same_core s s') (send_msg_channel_open_confirmation e i w m s)"
    unfolding send_msg_channel_open_confirmation_def ch rbind_simps
    apply (rule runs_chan_msg [OF assms(1)])
    apply (rule runs_rbind [OF runs_putint_grown], assumption)
    apply (rule runs_rbind [OF runs_putint_grown], assumption)
    by (rule runs_putint_grown)
  then show ?thesis by (rule runs_weaken) (use assms(2) same_core_slot(2) in auto)
qed

lemma runs_window_adjust:
  assumes "ses_inv e cn s" "slot s i"
  shows "runs (\<lambda>s'. ses_inv e cn s' \<and> same_core s s') (send_msg_channel_window_adjust e i n s)"
proof -
  obtain ch where ch: "get_chan s i = Inr ch" using slotE [OF assms(2)] by blast
  show ?thesis
    unfolding send_msg_channel_window_adjust_def ch rbind_simps
    by (rule runs_chan_msg [OF assms(1) runs_putint_grown])
qed

section \<open>Closing\<close>

lemma runs_m_close: "ses_inv e cn s \<Longrightarrow> runs (\<lambda>s'. ses_inv e cn s' \<and> slot s' i = slot s i \<and> get_chan s' i = get_chan s i) (m_close e fd s)"
  by (simp add: m_close_def)

lemma runs_close_fd:
  assumes s: "ses_inv e cn s" "slot s i"
  shows "runs (\<lambda>s'. ses_inv e cn s' \<and> slot s' i) (close_chan_fd e i fd how s)"
proof -
  obtain ch where ch: "get_chan s i = Inr ch" using slotE [OF s(2)] by blast
  note c = ses_inv_chan [OF s(1) ch]
  have put: "ses_inv e cn (put_chan i ch' s') \<and> slot (put_chan i ch' s') i"
    if "ch_index ch' = ch_index ch" "ch_type ch' = ch_type ch" "chan_room e 0 ch'" "ch_conn_pending ch' = ch_conn_pending ch"
      "ch_await_open ch' = ch_await_open ch" "ses_inv e cn s'" "get_chan s' i = Inr ch" for ch' s'
    using ses_inv_put [OF that(6,7), of ch'] that ses_inv_chan(4) [OF that(6,7)] by simp
  define ch' where "ch' b c = ch\<lparr>ch_readfd := (if b \<and> fd = ch_readfd ch then FD_CLOSED else ch_readfd ch),
      ch_errfd := (if (if errfd_is_read ch then b else c) \<and> fd = ch_errfd ch then FD_CLOSED else ch_errfd ch),
      ch_writefd := (if c \<and> fd = ch_writefd ch then FD_CLOSED else ch_writefd ch)\<rparr>" for b c
  have ch': "ch_index (ch' b c) = ch_index ch" "ch_type (ch' b c) = ch_type ch" "chan_room e 0 (ch' b c)"
    "ch_conn_pending (ch' b c) = ch_conn_pending ch" "ch_await_open (ch' b c) = ch_await_open ch" for b c
    using c(2) by (simp_all add: ch'_def)
  show ?thesis
    unfolding close_chan_fd_def ch rbind_simps Let_def ch'_def [symmetric]
    apply (rule runs_rbind [where Q = "\<lambda>s'. ses_inv e cn s' \<and> get_chan s' i = Inr ch"])
     apply (rule runs_if, use s ch in simp)
     apply (rule runs_weaken [OF runs_m_close [OF s(1), where i = i]], use ch in simp)
    apply (rule runs_if)
     apply (rule runs_weaken [OF runs_m_close [where i = i]], rule conjunct1 [OF put], (rule ch')+, simp, simp)
     apply (metis put ch')
    by (simp del: slot_put) (metis put ch')
qed

lemma count_chans_remove:
  "i < length cs \<Longrightarrow> cs ! i \<noteq> None \<Longrightarrow> count_chans cs = Suc (count_chans (cs[i := None]))"
  unfolding count_chans_def by (induction cs arbitrary: i) (auto split: nat.split simp: nth_Cons' list_update.simps)

lemma conns_cancel:
  assumes inv: "conns_inv cs ps n" and i: "i < length cs" "cs ! i = Some ch"
  shows "conns_inv (cs[i := None]) (map (\<lambda>c. if Some (pc_id c) = ch_conn_pending ch then c\<lparr>pc_cb := Cancel_callback\<rparr> else c) ps) n"
proof -
  let ?f = "\<lambda>c. if Some (pc_id c) = ch_conn_pending ch then c\<lparr>pc_cb := Cancel_callback\<rparr> else c"
  have id: "pc_id (?f c) = pc_id c" for c by simp
  have other: "k \<noteq> i" "cs ! k = Some ch' \<and> ch_conn_pending ch' = Some (pc_id c)"
    if "c \<in> set ps" "pc_cb (?f c) = Channel_connect_done k" "cs ! k = Some ch'" for c k ch'
    using that inv i unfolding conns_inv_def by (fastforce split: if_splits)+
  have ret: "\<exists>c\<in>set ps. pc_id (?f c) = m \<and> pc_cb (?f c) = Channel_connect_done k"
    if pr: "k < length cs" "k \<noteq> i" "cs ! k = Some ch'" "ch_conn_pending ch' = Some m" for k ch' m
  proof -
    obtain c where c: "c \<in> set ps" "pc_id c = m" "pc_cb c = Channel_connect_done k" using inv pr unfolding conns_inv_def by blast
    have "ch_conn_pending ch \<noteq> Some m"
    proof
      assume "ch_conn_pending ch = Some m"
      then obtain c' where "c' \<in> set ps" "pc_id c' = m" "pc_cb c' = Channel_connect_done i" using inv i unfolding conns_inv_def by blast
      then have "c' = c" using c inv unfolding conns_inv_def by (metis inj_on_def distinct_map)
      then show False using c \<open>pc_cb c' = _\<close> pr(2) by simp
    qed
    then show ?thesis using c by (intro bexI [of _ c]) auto
  qed
  have d: "map pc_id (map ?f ps) = map pc_id ps" by simp
  show ?thesis
    unfolding conns_inv_def d ball_simps set_map image_iff
  proof (intro conjI allI ballI impI, goal_cases)
    case 1
    show ?case using inv by (simp add: conns_inv_def)
  next
    case (2 c)
    then show ?case using inv unfolding conns_inv_def id by blast
  next
    case (3 c k)
    then have cb: "pc_cb c = Channel_connect_done k" by (simp split: if_splits)
    then show ?case using inv 3(1) unfolding conns_inv_def by auto
  next
    case (4 c k)
    then have cb: "pc_cb c = Channel_connect_done k" by (simp split: if_splits)
    then obtain ch' where ch': "cs ! k = Some ch'" using inv 4(1) unfolding conns_inv_def by blast
    show ?case using other [OF 4(1,2) ch'] ch' by (simp add: nth_list_update)
  next
    case (5 k ch' m)
    then have "k < length cs" "k \<noteq> i" "cs ! k = Some ch'" using i(1) by (auto simp: nth_list_update split: if_splits)
    from ret [OF this 5(3)] show ?case by blast
  qed
qed

lemma runs_unlink_channel:
  assumes s: "ses_inv e cn s" "get_chan s i = Inr ch"
  shows "runs (\<lambda>s'. ses_inv e cn s' \<and> \<not> slot s' i)
     (rbind (case ch_conn_pending ch of None \<Rightarrow> Inr s | Some k \<Rightarrow> cancel_connect k s) (\<lambda>s.
       if length (ses_channels s) \<le> unat (ch_index ch) then Inl OutOfBounds
       else Inr (update_channel_prio (s\<lparr>ses_channels := (ses_channels s)[unat (ch_index ch) := None],
                                        ses_chancount := ses_chancount s - 1\<rparr>))))"
proof -
  note c = ses_inv_chan [OF s]
  let ?ps = "map (\<lambda>c. if Some (pc_id c) = ch_conn_pending ch then c\<lparr>pc_cb := Cancel_callback\<rparr> else c) (ses_conn_pending s)"
  let ?s = "s\<lparr>ses_conn_pending := ?ps\<rparr>"
  have inv: "conns_inv (ses_channels s) (ses_conn_pending s) (ses_next_conn s)" using s(1) by (simp add: ses_inv_def)
  have cc: "(case ch_conn_pending ch of None \<Rightarrow> Inr s | Some k \<Rightarrow> cancel_connect k s) = Inr ?s"
  proof (cases "ch_conn_pending ch")
    case (Some k)
    then obtain pc where "pc \<in> set (ses_conn_pending s)" "pc_id pc = k" using inv c(4,5) unfolding conns_inv_def by blast
    moreover have "distinct (map pc_id (ses_conn_pending s))" using inv by (simp add: conns_inv_def)
    ultimately show ?thesis using cancel_connect_eq [of s pc] Some by simp
  qed simp
  have "count_chans (ses_channels s) = Suc (count_chans ((ses_channels s)[i := None]))"
    using c(4,5) by (intro count_chans_remove) auto
  then have "unat (ses_chancount s - 1) = count_chans ((ses_channels s)[i := None])"
    using s(1) by (simp add: ses_inv_def unat_sub32 wnat)
  moreover have "chans_inv e cn ((ses_channels s)[i := None])"
    using s(1) c(4) unfolding ses_inv_def chans_inv_def by (auto simp: nth_list_update split: if_splits)
  ultimately have "ses_inv e cn (?s\<lparr>ses_channels := (ses_channels s)[i := None], ses_chancount := ses_chancount s - 1\<rparr>)"
    using s(1) conns_cancel [OF inv c(4,5)] unfolding ses_inv_def send_ok_def trans_macsize_def by simp
  then show ?thesis using c(1,4) by (simp add: cc) (simp add: slot_def)
qed

text \<open>
  The contract of the handlers of a channel type: called for a channel in use they keep the
  invariant, and, requests apart, they leave the channel in place. The handlers of an open
  request and of a request are called while a packet is handled, the former for a channel that
  waits neither for a connection nor for the peer.
\<close>

locale chan_handlers =
  fixes e :: "'z env" and cn :: "('c, 'z) chan_env"
  assumes types: "t \<in> set (cn_chantypes cn) \<Longrightarrow> t < length (cn_types cn)"
    and init: "ty \<in> set (cn_types cn) \<Longrightarrow> ct_inithandler ty = Some f \<Longrightarrow> ses_inv e cn s \<Longrightarrow>
      get_chan s i = Inr ch \<Longrightarrow> ch_conn_pending ch = None \<Longrightarrow> \<not> ch_await_open ch \<Longrightarrow> ses_payload s = Some pb \<Longrightarrow>
      keeps (\<lambda>(r, s'). ses_inv e cn s' \<and> slot s' i) (f i s)"
    and check: "ty \<in> set (cn_types cn) \<Longrightarrow> ct_check_close ty = Some g \<Longrightarrow> ses_inv e cn s \<Longrightarrow> slot s i \<Longrightarrow>
      keeps (\<lambda>(r, s'). ses_inv e cn s' \<and> slot s' i) (g i s)"
    and req: "ty \<in> set (cn_types cn) \<Longrightarrow> ct_reqhandler ty = Some h \<Longrightarrow> ses_inv e cn s \<Longrightarrow> slot s i \<Longrightarrow>
      ses_payload s = Some pb \<Longrightarrow> keeps (ses_inv e cn) (h i s)"
    and close: "ty \<in> set (cn_types cn) \<Longrightarrow> ses_inv e cn s \<Longrightarrow> slot s i \<Longrightarrow>
      keeps (\<lambda>s'. ses_inv e cn s' \<and> slot s' i) (call_handler (ct_closehandler ty) i s)"
    and cleanup: "ty \<in> set (cn_types cn) \<Longrightarrow> ses_inv e cn s \<Longrightarrow> slot s i \<Longrightarrow>
      keeps (\<lambda>s'. ses_inv e cn s' \<and> slot s' i) (call_handler (ct_cleanup ty) i s)"
    and listeners: "ses_inv e cn s \<Longrightarrow> keeps (ses_inv e cn) (cn_handle_listeners cn fds s)"
begin

lemma chan_type_ok:
  assumes "ses_inv e cn s" "get_chan s i = Inr ch"
  obtains ty where "chan_type cn ch = Inr ty" "ty \<in> set (cn_types cn)"
  using ses_inv_chan(3) [OF assms] that by (simp add: chan_type_def)

lemma channel_close:
  assumes s: "ses_inv e cn s" "slot s i"
  shows "keeps (\<lambda>s'. ses_inv e cn s' \<and> slot s' i) (send_msg_channel_close e cn i s)"
proof -
  obtain ch where ch: "get_chan s i = Inr ch" using slotE [OF s(2)] by blast
  obtain ty where ty: "chan_type cn ch = Inr ty" "ty \<in> set (cn_types cn)" using chan_type_ok [OF s(1) ch] .
  show ?thesis
    unfolding send_msg_channel_close_def ch ty(1) rbind_simps
    apply (rule keeps_rbind [OF close [OF ty(2) s]], clarsimp)
    apply (erule slotE, simp)
    apply (rule keeps_runs [OF runs_chan_msg], assumption, simp, clarsimp)
    apply (rule keeps_runs [OF runs_upd_chan [where i = i]], assumption)
    apply (auto simp: slot_def same_core_def)[1] apply (simp, simp, simp, simp, simp)
    apply (clarsimp, erule slotE, simp)
    apply (rule keeps_runs [OF runs_close_fd [where i = i]], assumption, simp add: slot_def)
    apply (clarsimp, erule slotE, simp)
    apply (rule keeps_runs [OF runs_close_fd [where i = i]], assumption, simp add: slot_def)
    apply (clarsimp, erule slotE, simp)
    by (rule runs_keeps [OF runs_close_fd [where i = i]]) (simp_all add: slot_def)
qed

lemma remove:
  assumes s: "ses_inv e cn s" "slot s i"
  shows "keeps (\<lambda>s'. ses_inv e cn s' \<and> \<not> slot s' i) (remove_channel e cn i s)"
proof -
  obtain ch where ch: "get_chan s i = Inr ch" using slotE [OF s(2)] by blast
  obtain ty where ty: "chan_type cn ch = Inr ty" "ty \<in> set (cn_types cn)" using chan_type_ok [OF s(1) ch] .
  show ?thesis
    unfolding remove_channel_def ch ty(1) rbind_simps
    apply (rule keeps_rbind [where Q = "\<lambda>s'. ses_inv e cn s' \<and> slot s' i"])
     apply (rule keeps_if)
      apply (rule keeps_runs [OF runs_m_close [OF s(1), where i = i]], erule conjE)
      apply (rule keeps_runs [OF runs_m_close [where i = i]], assumption, erule conjE)
      apply (rule runs_keeps [OF runs_m_close [where i = i]], erule conjunct1, use s(2) in simp)
     apply (use s in simp)
    apply clarsimp
    apply (rule keeps_rbind [OF cleanup [OF ty(2)]], assumption, assumption, clarsimp)
    subgoal for s1 s2
      apply (rule slotE [of s2 i], assumption, simp split del: if_split)
      by (rule keeps_weaken [OF runs_keeps [OF runs_unlink_channel]]) auto
    done
qed

lemma allowed:
  assumes s: "ses_inv e cn s" "slot s i"
  shows "keeps (\<lambda>(r, s'). ses_inv e cn s' \<and> slot s' i) (close_allowed cn i s)"
proof -
  obtain ch where ch: "get_chan s i = Inr ch" using slotE [OF s(2)] by blast
  obtain ty where ty: "chan_type cn ch = Inr ty" "ty \<in> set (cn_types cn)" using chan_type_ok [OF s(1) ch] .
  show ?thesis unfolding close_allowed_def ch ty(1) rbind_simps
    using s check [OF ty(2)] by (auto split: option.split)
qed

lemma runs_flush:
  assumes s: "ses_inv e cn s" "slot s i"
  shows "runs (\<lambda>s'. ses_inv e cn s' \<and> slot s' i) (flush_fds e i s)"
proof -
  obtain ch where ch: "get_chan s i = Inr ch" using slotE [OF s(2)] by blast
  show ?thesis
    unfolding flush_fds_def ch rbind_simps
    apply (rule runs_if, use s in simp)
    apply (rule runs_rbind [where Q = "\<lambda>s'. ses_inv e cn s' \<and> slot s' i"])
     apply (rule runs_if, rule runs_close_fd, use s in simp_all)[1]
    subgoal for s1
      apply (rule slotE [of s1 i], simp, simp split del: if_split)
      by (rule runs_if, rule runs_close_fd) simp_all
    done
qed

lemma closing:
  assumes s: "ses_inv e cn s" "slot s i"
  shows "keeps (ses_inv e cn) (check_close e cn i s)"
proof -
  have tail: "keeps (ses_inv e cn)
     (rbind (get_chan s' i) (\<lambda>ch.
       rbind (if \<not> ch_sent_eof ch \<and> ch_readfd ch = FD_CLOSED \<and> err_done ch
              then send_msg_channel_eof e i s' else Inr s') (\<lambda>s.
       rbind (get_chan s i) (\<lambda>ch.
       if ch_readfd ch = FD_CLOSED \<and> ch_writefd ch = FD_CLOSED \<and> err_done ch \<and> \<not> ch_sent_close ch
          \<and> b \<and> \<not> write_pending ch
       then send_msg_channel_close e cn i s else Inr s))))" if "ses_inv e cn s'" "slot s' i" for s' b
    apply (rule slotE [OF that(2)], simp split del: if_split)
    apply (rule keeps_rbind [where Q = "\<lambda>s'. ses_inv e cn s' \<and> slot s' i"])
     apply (rule keeps_if, rule runs_keeps [OF runs_chan_eof [OF that]], simp, use that in simp)
    apply (clarsimp split del: if_split)
    subgoal for ch s1
      apply (rule slotE [of s1 i], assumption, simp split del: if_split)
      apply (rule keeps_if, rule keeps_weaken [OF channel_close], assumption, assumption, simp)
      by simp
    done
  show ?thesis
    unfolding check_close_def
    apply (rule keeps_rbind [OF allowed [OF s]], clarsimp split del: if_split)
    apply (rule keeps_runs [OF runs_flush], assumption, assumption, clarsimp split del: if_split)
    subgoal for b s1 s2
      apply (rule slotE [of s2 i], assumption, simp split del: if_split)
      apply (rule chan_type_ok [of s2 i], assumption, assumption, simp split del: if_split)
      apply (rule keeps_if)
       apply (rule keeps_rbind [where Q = "\<lambda>s'. ses_inv e cn s' \<and> slot s' i"])
        apply (rule keeps_if, rule channel_close, assumption, assumption, simp)
       apply (rule keeps_weaken [OF remove], simp, simp, simp)
      apply (rule keeps_runs [where Q = "\<lambda>s'. ses_inv e cn s' \<and> slot s' i"])
       apply (rule runs_if, rule runs_close_fd, assumption, assumption, simp)
      by (rule tail) auto
    done
qed

end

end
