(* ===== verification/Channel_Data.thy ===== *)
theory Channel_Data
  imports Channel_Safe
begin

text \<open>
  The data path of a channel: what the peer sends is written to the descriptor or buffered, in
  order and without loss, within the window; what is read from the descriptor is sent within
  the peer's window.
\<close>

section \<open>Writing to the descriptor\<close>

text \<open>What has been written to a descriptor.\<close>

definition fd_output :: "int \<Rightarrow> event list \<Rightarrow> bytes" where
  "fd_output fd tr = concat (map (\<lambda>ev. case ev of EvWrite f bs \<Rightarrow> if f = fd then bs else [] | _ \<Rightarrow> []) tr)"

lemma fd_output_append [simp]: "fd_output fd (a @ b) = fd_output fd a @ fd_output fd b"
  by (simp add: fd_output_def)

lemma fd_output_single [simp]: "fd_output fd [EvWrite fd bs] = bs" "fd_output fd [] = []"
  by (simp_all add: fd_output_def)

lemma env_ok_write: "env_ok e \<Longrightarrow> e_write e t fd bs = WrOk n \<Longrightarrow> n \<le> length bs"
  by (simp add: env_ok_def)

lemma chan_room_cbuf:
  assumes "chan_room e n ch" "chan_cbuf b ch = Some c"
  shows "cbuf_wf c" "cbuf_size c = opt_recv_window e" "unat (cbuf_used c) + unat (ch_recvdonelen ch) + n \<le> unat (opt_recv_window e)"
    "unat (ch_recvwindow ch) \<le> unat (opt_recv_window e)" "unat (cbuf_used c) + unat (ch_recvwindow ch) + n \<le> unat (opt_recv_window e)"
  using assms by (auto simp: chan_room_def chan_cbuf_def extra_used_def split: chan_buf.splits)

text \<open>The accounting when \<open>k\<close> buffered and \<open>m\<close> fresh bytes have been written.\<close>

lemma chan_room_written:
  assumes r: "chan_room e n ch" "chan_cbuf b ch = Some c" and c': "cbuf_wf c'" "cbuf_size c' = cbuf_size c"
    and u: "unat (cbuf_used c) = unat (cbuf_used c') + k" "m \<le> n"
  shows "chan_room e (n - m) ((set_cbuf b c' ch)\<lparr>ch_recvdonelen := ch_recvdonelen ch + of_nat (k + m)\<rparr>)"
proof -
  note f = chan_room_cbuf [OF r]
  have w: "unat (opt_recv_window e) < 4294967296" using unsigned_less [of "opt_recv_window e", where ?'a = nat] by simp
  have "unat (ch_recvdonelen ch + of_nat (k + m)) = unat (ch_recvdonelen ch) + (k + m)"
    using f(3) u w by (simp add: unat_add32 unat_of_nat32 del: of_nat_add)
  then show ?thesis using r c' u f(1,2)
    by (cases b) (auto simp: chan_room_def set_cbuf_def extra_used_def chan_cbuf_def split: option.splits)
qed

text \<open>What a write to the local side promises.\<close>

definition written_ok :: "'z env \<Rightarrow> ('c, 'z) chan_env \<Rightarrow> nat \<Rightarrow> int \<Rightarrow> chan_buf \<Rightarrow> bytes \<Rightarrow> bytes \<Rightarrow> ('c, 'z) session
    \<Rightarrow> bool \<times> u32 \<times> ('c, 'z) session \<Rightarrow> bool" where
  "written_ok e cn i fd b old xs s = (\<lambda>(ret, consumed, s'). ses_inv e cn s' \<and> unat consumed \<le> length xs \<and> ses_payload s' = ses_payload s
     \<and> (\<exists>ch'. get_chan s' i = Inr ch' \<and> (ret \<longrightarrow> chan_room e (length xs - unat consumed) ch'
          \<and> (\<exists>c'. chan_cbuf b ch' = Some c' \<and>
              fd_output fd (ses_trace s') @ cbuf_contents c' @ drop (unat consumed) xs = fd_output fd (ses_trace s) @ old @ xs))))"

lemma put_chan_fields [simp]: "ses_trace (put_chan i ch s) = ses_trace s" "ses_payload (put_chan i ch s) = ses_payload s"
  "ses_tick (put_chan i ch s) = ses_tick s" "ses_writepayload (put_chan i ch s) = ses_writepayload s"
  "length (ses_channels (put_chan i ch s)) = length (ses_channels s)"
  by (simp_all add: put_chan_def)

lemma log_tick_fields [simp]: "ses_trace (log_event ev s) = ses_trace s @ [ev]" "ses_trace (tick s) = ses_trace s"
  "ses_payload (log_event ev s) = ses_payload s" "ses_payload (tick s) = ses_payload s"
  "ses_channels (log_event ev s) = ses_channels s" "ses_channels (tick s) = ses_channels s"
  by (simp_all add: log_event_def tick_def)

lemma close_fd_payload: "close_chan_fd e i fd how s = Inr s' \<Longrightarrow> ses_payload s' = ses_payload s"
  unfolding close_chan_fd_def m_close_def Let_def by (elim rbind_InrE) (auto split: if_splits)

lemma runs_writev:
  assumes s: "ses_inv e cn s" and ch: "get_chan s i = Inr ch" "chan_cbuf b ch = Some c" "chan_room e (length xs) ch"
    and xs: "xs = (case md of None \<Rightarrow> [] | Some m \<Rightarrow> m)"
  shows "runs (written_ok e cn i fd b (cbuf_contents c) xs s) (writechannel_writev e i fd b md s)"
proof -
  note f = chan_room_cbuf [OF ch(3,2)]
  note sc = ses_inv_chan [OF s ch(1)]
  let ?circ = "cbuf_contents c"
  have ok: "env_ok e" using ses_inv_send [OF s] by (simp add: send_ok_def)
  have pk: "cbuf_peek c = Inr ?circ" by (rule cbuf_peek_eq [OF f(1)])
  have lu: "length ?circ = unat (cbuf_used c)" by (rule cbuf_contents_length [OF f(1)])
  have same: "written_ok e cn i fd b ?circ xs s (True, 0, s')" if "ses_inv e cn s'" "get_chan s' i = Inr ch" "ses_trace s' = ses_trace s" "ses_payload s' = ses_payload s" for s'
    using that ch by (simp add: written_ok_def)
  show ?thesis
  proof (cases "?circ = [] \<and> md = None")
    case True
    then show ?thesis using same [of s] s ch by (simp add: writechannel_writev_def pk)
  next
    case False
    then have nz: "(?circ = [] \<and> md = None) = False" by blast
    show ?thesis
    proof (cases "e_write e (ses_tick s) fd (?circ @ xs)")
      case (WrErr err)
      have cl: "runs (\<lambda>s'. ses_inv e cn s' \<and> slot s' i) (close_chan_fd e i fd SHUT_WR (tick s))"
        using runs_close_fd [of e cn "tick s" i fd SHUT_WR] s sc(6) by simp
      have "runs (written_ok e cn i fd b ?circ xs s) (rbind (close_chan_fd e i fd SHUT_WR (tick s)) (\<lambda>s. Inr (False, 0, s)))"
        by (rule runs_rbind [OF runs_ret [OF cl]]) (auto simp: written_ok_def dest!: close_fd_payload elim!: slotE)
      moreover have "written_ok e cn i fd b ?circ xs s (True, 0, tick s)" using same [of "tick s"] s ch(1) by simp
      ultimately show ?thesis using WrErr
        by (simp add: writechannel_writev_def ch pk xs [symmetric] Let_def nz)
    next
      case (WrOk w)
      have w: "w \<le> length ?circ + length xs" using env_ok_write [OF ok WrOk] by simp
      define k where "k = min (length ?circ) w"
      have k: "k \<le> unat (cbuf_used c)" "k \<le> w" "w - k \<le> length xs" using w lu by (auto simp: k_def)
      have k32: "k < 4294967296" using k(1) unsigned_less [of "cbuf_used c", where ?'a = nat] by simp
      obtain c' where c': "cbuf_incrread c (of_nat k) = Inr c'" "cbuf_wf c'" "cbuf_contents c' = drop k ?circ" "cbuf_size c' = cbuf_size c"
        using cbuf_incrread_law [OF f(1), of "of_nat k"] k(1) k32 by (auto simp: unat_of_nat32)
      have u': "unat (cbuf_used c) = unat (cbuf_used c') + k"
        using cbuf_contents_length [OF c'(2)] c'(3) lu k(1) by simp
      define ch' where "ch' = (set_cbuf b c' ch)\<lparr>ch_recvdonelen := ch_recvdonelen ch + of_nat w\<rparr>"
      have room: "chan_room e (length xs - (w - k)) ch'"
        using chan_room_written [OF ch(3,2) c'(2,4) u' k(3)] k(2) by (simp add: ch'_def)
      have cb': "chan_cbuf b ch' = Some c'" "ch_index ch' = ch_index ch" "ch_type ch' = ch_type ch"
        "ch_conn_pending ch' = ch_conn_pending ch" "ch_await_open ch' = ch_await_open ch"
        by (auto simp: ch'_def set_cbuf_def chan_cbuf_def split: chan_buf.split)
      have w32: "unat (of_nat (w - k) :: u32) = w - k"
        using k(3) f(3) unsigned_less [of "opt_recv_window e", where ?'a = nat] by (simp add: unat_of_nat32)
      let ?s1 = "log_event (EvWrite fd (take w (?circ @ xs))) (tick s)"
      have inv: "ses_inv e cn (put_chan i ch' ?s1)"
        using ses_inv_put [of e cn ?s1 i ch ch'] s ch sc cb' chan_room_mono [OF room] by simp
      have cons: "take w (?circ @ xs) @ drop k ?circ @ drop (w - k) xs = ?circ @ xs"
        by (cases "w \<le> length ?circ") (simp_all add: k_def)
      have "written_ok e cn i fd b ?circ xs s (True, of_nat (w - k), put_chan i ch' ?s1)"
        using inv w32 k(3) sc(4) room cb'(1) c'(3) cons by (simp add: written_ok_def)
      then show ?thesis using WrOk c'(1)
        by (simp add: writechannel_writev_def ch pk nz xs [symmetric] Let_def k_def [symmetric] ch'_def)
    qed
  qed
qed

text \<open>The assertions of \<^verbatim>\<open>writechannel\<close> hold.\<close>

lemma chan_room_asserts:
  assumes "chan_room e n ch"
  shows "ch_recvwindow ch \<le> opt_recv_window e" "ch_recvwindow ch \<le> cbuf_getavail (ch_writebuf ch)"
    "case ch_extrabuf ch of None \<Rightarrow> True | Some x \<Rightarrow> ch_recvwindow ch \<le> cbuf_getavail x"
proof -
  have av: "ch_recvwindow ch \<le> cbuf_getavail c" if "chan_cbuf b ch = Some c" for b c
    using chan_room_cbuf [OF assms that] cbuf_wf_nat(3) [of c] by (simp add: cbuf_getavail_def unat_sub32 wnat)
  show "ch_recvwindow ch \<le> opt_recv_window e" using assms by (simp add: chan_room_def wnat)
  show "ch_recvwindow ch \<le> cbuf_getavail (ch_writebuf ch)" by (rule av [of WriteBuf]) (simp add: chan_cbuf_def)
  show "case ch_extrabuf ch of None \<Rightarrow> True | Some x \<Rightarrow> ch_recvwindow ch \<le> cbuf_getavail x"
    using av [of ExtraBuf] by (auto simp: chan_cbuf_def split: option.split)
qed

lemma chan_room_announce:
  assumes "chan_room e n ch"
  shows "chan_room e n (ch\<lparr>ch_recvwindow := ch_recvwindow ch + ch_recvdonelen ch, ch_recvdonelen := 0\<rparr>)"
proof -
  have "unat (ch_recvwindow ch + ch_recvdonelen ch) = unat (ch_recvwindow ch) + unat (ch_recvdonelen ch)"
    using assms unsigned_less [of "opt_recv_window e", where ?'a = nat] by (auto simp: chan_room_def unat_add32)
  then show ?thesis using assms by (auto simp: chan_room_def extra_used_def)
qed

text \<open>The window adjustment keeps what a write has promised.\<close>

lemma runs_announce:
  assumes w: "written_ok e cn i fd b old xs s (ret, consumed, s1)" and ch: "get_chan s1 i = Inr ch"
  shows "runs (\<lambda>s2. written_ok e cn i fd b old xs s (ret, consumed, s2))
     (if ch_recvdonelen ch \<ge> RECV_WINDOWEXTEND e
      then rbind (send_msg_channel_window_adjust e i (ch_recvdonelen ch) s1) (\<lambda>s.
           upd_chan i (\<lambda>ch. ch\<lparr>ch_recvwindow := ch_recvwindow ch + ch_recvdonelen ch, ch_recvdonelen := 0\<rparr>) s)
      else Inr s1)"
proof -
  have inv: "ses_inv e cn s1" using w by (simp add: written_ok_def)
  note c = ses_inv_chan [OF inv ch]
  show ?thesis
  proof (rule runs_if [OF runs_rbind [OF runs_window_adjust [OF inv c(6)]]])
    fix s2 assume s2: "ses_inv e cn s2 \<and> same_core s1 s2"
    define ch2 where "ch2 = ch\<lparr>ch_recvwindow := ch_recvwindow ch + ch_recvdonelen ch, ch_recvdonelen := 0\<rparr>"
    have g: "get_chan s2 i = Inr ch" "length (ses_channels s2) = length (ses_channels s1)" "ses_trace s2 = ses_trace s1" "ses_payload s2 = ses_payload s1"
      using s2 ch same_core_slot(1) [of s1 s2 i] by (simp_all add: same_core_def)
    note c2 = ses_inv_chan [OF conjunct1 [OF s2] g(1)]
    have "ses_inv e cn (put_chan i ch2 s2)"
      using ses_inv_put [of e cn s2 i ch ch2] s2 g(1) chan_room_announce [OF c2(2)] by (simp add: ch2_def)
    moreover have "chan_cbuf b ch2 = chan_cbuf b ch" by (simp add: ch2_def chan_cbuf_def cong: chan_buf.case_cong)
    ultimately have "written_ok e cn i fd b old xs s (ret, consumed, put_chan i ch2 s2)"
      using w ch g c2(4) chan_room_announce [of e _ ch] by (simp add: written_ok_def ch2_def)
    then show "runs (\<lambda>s2. written_ok e cn i fd b old xs s (ret, consumed, s2))
        (upd_chan i (\<lambda>ch. ch\<lparr>ch_recvwindow := ch_recvwindow ch + ch_recvdonelen ch, ch_recvdonelen := 0\<rparr>) s2)"
      by (simp add: upd_chan_def g(1) ch2_def)
  qed (simp add: w)
qed

lemma runs_writechannel:
  assumes s: "ses_inv e cn s" and ch: "get_chan s i = Inr ch" "chan_cbuf b ch = Some c" "chan_room e (length xs) ch"
    and xs: "xs = (case md of None \<Rightarrow> [] | Some m \<Rightarrow> m)"
  shows "runs (written_ok e cn i fd b (cbuf_contents c) xs s) (writechannel e i fd b md s)"
proof -
  let ?P = "written_ok e cn i fd b (cbuf_contents c) xs s"
  have fin: "runs ?P (rbind (get_chan s2 i) (\<lambda>ch.
     rbind (dropbear_assert m1 (ch_recvwindow ch \<le> opt_recv_window e)) (\<lambda>_.
     rbind (dropbear_assert m2 (ch_recvwindow ch \<le> cbuf_getavail (ch_writebuf ch))) (\<lambda>_.
     rbind (dropbear_assert m3 (case ch_extrabuf ch of None \<Rightarrow> True | Some x \<Rightarrow> ch_recvwindow ch \<le> cbuf_getavail x)) (\<lambda>_.
     Inr (ret, n, s2))))))" if p: "?P (ret, n, s2)" for s2 ret n m1 m2 m3
  proof -
    obtain ch2 where g: "get_chan s2 i = Inr ch2" using p by (auto simp: written_ok_def)
    have "ses_inv e cn s2" using p by (simp add: written_ok_def)
    from chan_room_asserts [OF ses_inv_chan(2) [OF this g]] show ?thesis using p by (simp add: g dropbear_assert_def)
  qed
  have step: "runs ?P (rbind (get_chan s1 i) (\<lambda>ch.
     rbind (if ch_recvdonelen ch \<ge> RECV_WINDOWEXTEND e
            then rbind (send_msg_channel_window_adjust e i (ch_recvdonelen ch) s1) (\<lambda>s.
                 upd_chan i (\<lambda>ch. ch\<lparr>ch_recvwindow := ch_recvwindow ch + ch_recvdonelen ch, ch_recvdonelen := 0\<rparr>) s)
            else Inr s1) (\<lambda>s.
     rbind (get_chan s i) (\<lambda>ch.
     rbind (dropbear_assert m1 (ch_recvwindow ch \<le> opt_recv_window e)) (\<lambda>_.
     rbind (dropbear_assert m2 (ch_recvwindow ch \<le> cbuf_getavail (ch_writebuf ch))) (\<lambda>_.
     rbind (dropbear_assert m3 (case ch_extrabuf ch of None \<Rightarrow> True | Some x \<Rightarrow> ch_recvwindow ch \<le> cbuf_getavail x)) (\<lambda>_.
     Inr (ret, n, s))))))))" if p: "?P (ret, n, s1)" for s1 ret n m1 m2 m3
  proof -
    obtain ch1 where g: "get_chan s1 i = Inr ch1" using p by (auto simp: written_ok_def)
    show ?thesis unfolding g rbind_simps by (rule runs_rbind [OF runs_announce [OF p g]]) (rule fin)
  qed
  show ?thesis unfolding writechannel_def
    by (rule runs_rbind [OF runs_writev [OF s ch xs]]) (clarsimp simp del: dropbear_assert_Inr intro!: step)
qed

section \<open>Storing the rest\<close>

lemma store_data_step:
  assumes c: "cbuf_wf c" and n: "unat n \<le> cbuf_room c" "n \<noteq> 0" and bs: "length bs = unat n"
  shows "\<exists>c1 q d c'. cbuf_writeptr c n = Inr (q, c1) \<and> cbuf_data c1 = Some d \<and> (\<exists>d'. mem_write d q bs = Inr d' \<and>
    cbuf_incrwrite (c1\<lparr>cbuf_data := Some d'\<rparr>) n = Inr c') \<and> cbuf_wf c' \<and> cbuf_contents c' = cbuf_contents c @ bs \<and> cbuf_size c' = cbuf_size c"
proof -
  have l: "of_nat (length bs) = n" using bs by simp
  obtain c' where "cbuf_write c bs = Inr c'" "cbuf_wf c'" "cbuf_contents c' = cbuf_contents c @ bs" "cbuf_size c' = cbuf_size c"
    using cbuf_put_law [OF c, of bs] n(1) bs by auto
  then show ?thesis unfolding cbuf_write_def l by (fastforce elim!: rbind_InrE split: option.splits)
qed

lemma runs_store_data:
  assumes "cbuf_wf c" "buf_wf p" "unat len + unat (cbuf_used c) \<le> unat (cbuf_size c)"
  shows "runs (\<lambda>(p', c'). buf_wf p' \<and> cbuf_wf c' \<and> cbuf_size c' = cbuf_size c
     \<and> cbuf_contents c' = cbuf_contents c @ take (unat len) (buf_rest p)) (store_data len p c)"
  using assms
proof (induction len p c rule: store_data.induct)
  case (1 len p c)
  show ?case
  proof (cases "len = 0")
    case True then show ?thesis using 1 by (simp add: store_data.simps)
  next
    case False
    note c = 1(2) and pw = 1(3) and room = 1(4)
    have "cbuf_used c \<noteq> cbuf_size c" using room False unat_gt_0 [of len] by auto
    then have r0: "0 < cbuf_room c" by (rule cbuf_room_pos [OF c])
    define n where "n = min (of_nat (cbuf_room c)) len"
    have rb: "cbuf_room c < 4294967296" using cbuf_room_bound [OF c] by simp
    have n: "unat n = min (cbuf_room c) (unat len)" using rb by (simp add: n_def unat_min)
    have "0 < unat n" using n r0 False unat_gt_0 [of len] by simp
    then have n: "unat n = min (cbuf_room c) (unat len)" "n \<noteq> 0" using n by auto
    have wl: "cbuf_writelen c = Inr (of_nat (cbuf_room c))" by (rule cbuf_writelen_eq [OF c])
    show ?thesis
    proof (cases "unat n \<le> length (buf_rest p)")
      case no: False
      have "cbuf_writeptr c n \<noteq> Inl x" for x using store_data_step [OF c _ n(2), of "replicate (unat n) 0"] n by auto
      then obtain q c1 where "cbuf_writeptr c n = Inr (q, c1)" by (cases "cbuf_writeptr c n") auto
      then show ?thesis using no False n(2) wl
        by (subst store_data.simps) (simp add: n_def [symmetric] buf_getptr_eq [OF pw] Let_def)
    next
      case le: True
      let ?bs = "take (unat n) (buf_rest p)"
      obtain c1 q d d' c' where st: "cbuf_writeptr c n = Inr (q, c1)" "cbuf_data c1 = Some d" "mem_write d q ?bs = Inr d'"
        "cbuf_incrwrite (c1\<lparr>cbuf_data := Some d'\<rparr>) n = Inr c'" "cbuf_wf c'" "cbuf_contents c' = cbuf_contents c @ ?bs" "cbuf_size c' = cbuf_size c"
        using store_data_step [OF c _ n(2), of ?bs] le n(1) by auto
      have p1: "buf_getptr p n = Inr (unat (buf_pos p))" using le by (simp add: buf_getptr_eq [OF pw])
      have p2: "mem_read (buf_data p) (unat (buf_pos p)) (unat n) = Inr ?bs" by (rule buf_read_eq [OF pw le])
      have p3: "buf_incrpos p n = Inr (buf_adv p (unat n))" using le by (simp add: buf_incrpos_eq [OF pw])
      have p4: "buf_wf (buf_adv p (unat n))" "buf_rest (buf_adv p (unat n)) = drop (unat n) (buf_rest p)"
        using buf_adv_wf [OF pw le] buf_adv_rest [OF pw le] by simp_all
      have u: "unat (len - n) = unat len - unat n" using n(1) by (simp add: unat_sub32 wnat)
      have used: "unat (cbuf_used c') = unat (cbuf_used c) + unat n"
        using cbuf_contents_length [OF st(5)] cbuf_contents_length [OF c] st(6) le by simp
      have eq: "store_data len p c = store_data (len - n) (buf_adv p (unat n)) c'"
        using False n(2) wl st(1-4) p1 p2 p3 by (subst store_data.simps) (simp add: n_def [symmetric] Let_def del: mem_read_ok mem_write_ok)
      have ih: "runs (\<lambda>(p', c''). buf_wf p' \<and> cbuf_wf c'' \<and> cbuf_size c'' = cbuf_size c'
         \<and> cbuf_contents c'' = cbuf_contents c' @ take (unat (len - n)) (buf_rest (buf_adv p (unat n)))) (store_data (len - n) (buf_adv p (unat n)) c')"
        using 1(1) [OF False wl _ _ st(1) _ p1 p2 _ st(4) p3] st n(2) p4(1) u used room n(1) by (simp add: n_def [symmetric])
      have "take (unat n) (buf_rest p) @ take (unat len - unat n) (drop (unat n) (buf_rest p)) = take (unat len) (buf_rest p)"
        using n(1) by (simp add: take_add [symmetric])
      then show ?thesis unfolding eq by (intro runs_weaken [OF ih]) (auto simp: st u p4)
    qed
  qed
qed

section \<open>Receiving\<close>

text \<open>The data of a message whose string is next in the payload.\<close>

definition msg_data :: "buffer \<Rightarrow> bytes" where
  "msg_data pb = take (unat (load32h (buf_rest pb))) (drop 4 (buf_rest pb))"

definition writes_go_on :: "'z env \<Rightarrow> int \<Rightarrow> bool" where
  "writes_go_on e fd \<longleftrightarrow> (\<forall>t bs. e_write e t fd bs \<noteq> WrErr EOTHER)"

lemma writechannel_ret:
  assumes "writes_go_on e fd" "writechannel e i fd b md s = Inr (ret, n, s')" shows ret
proof -
  obtain s1 where "writechannel_writev e i fd b md s = Inr (ret, n, s1)"
    using assms(2) unfolding writechannel_def by (auto elim!: rbind_InrE)
  then show ?thesis using assms(1) errno.exhaust
    unfolding writechannel_writev_def writes_go_on_def Let_def
    by (auto elim!: rbind_InrE split: option.splits wr_result.splits if_splits) metis+
qed

definition received_ok :: "'z env \<Rightarrow> nat \<Rightarrow> int \<Rightarrow> chan_buf \<Rightarrow> bytes \<Rightarrow> bytes \<Rightarrow> ('c, 'z) session \<Rightarrow> ('c, 'z) session \<Rightarrow> bool" where
  "received_ok e i fd b old xs s s' \<longleftrightarrow> (writes_go_on e fd \<longrightarrow> (\<exists>ch' c'. get_chan s' i = Inr ch' \<and> chan_cbuf b ch' = Some c' \<and>
     fd_output fd (ses_trace s') @ cbuf_contents c' = fd_output fd (ses_trace s) @ old @ xs))"

text \<open>The end of the function, after the attempt to write at once.\<close>

lemma runs_recv_rest:
  assumes w: "written_ok e cn i fd b old xs s0 (ret, n, s1)" and ret: "writes_go_on e fd \<Longrightarrow> ret"
    and p: "buf_wf p" "xs = take (unat len) (buf_rest p)" "unat len \<le> length (buf_rest p)"
  shows "runs (\<lambda>s'. ses_inv e cn s' \<and> slot s' i \<and> received_ok e i fd b old xs s0 s')
     (rbind (buf_incrpos p n) (\<lambda>payload.
       if ret
       then rbind (get_chan s1 i) (\<lambda>ch.
            case chan_cbuf b ch of None \<Rightarrow> Inl NullDeref
            | Some cbuf \<Rightarrow>
              rbind (store_data (len - n) payload cbuf) (\<lambda>(payload, cbuf).
              Inr (put_chan i (set_cbuf b cbuf ch) (s1\<lparr>ses_payload := Some payload\<rparr>))))
       else Inr (s1\<lparr>ses_payload := Some payload\<rparr>)))"
proof -
  have inv: "ses_inv e cn s1" and n: "unat n \<le> length xs" using w by (auto simp: written_ok_def)
  obtain ch where ch: "get_chan s1 i = Inr ch" using w by (auto simp: written_ok_def)
  note c = ses_inv_chan [OF inv ch]
  have le: "unat n \<le> length (buf_rest p)" "unat n \<le> unat len" using n p by simp_all
  have adv: "buf_incrpos p n = Inr (buf_adv p (unat n))" "buf_wf (buf_adv p (unat n))" "buf_rest (buf_adv p (unat n)) = drop (unat n) (buf_rest p)"
    using le buf_adv_wf [OF p(1) le(1)] buf_adv_rest [OF p(1) le(1)] by (simp_all add: buf_incrpos_eq [OF p(1)])
  show ?thesis
  proof (cases ret)
    case False
    then have "received_ok e i fd b old xs s0 s'" for s' using ret by (auto simp: received_ok_def)
    then show ?thesis using False adv inv c(6) by (simp add: ses_inv_payload)
  next
    case True
    obtain cb where room: "chan_room e (length xs - unat n) ch" and cb: "chan_cbuf b ch = Some cb"
      and out: "fd_output fd (ses_trace s1) @ cbuf_contents cb @ drop (unat n) xs = fd_output fd (ses_trace s0) @ old @ xs"
      using w True ch by (auto simp: written_ok_def)
    note f = chan_room_cbuf [OF room cb]
    have u: "unat (len - n) = length xs - unat n" using le p by (simp add: unat_sub32 wnat)
    have fits: "unat (len - n) + unat (cbuf_used cb) \<le> unat (cbuf_size cb)" using f u by simp
    have rest: "take (unat (len - n)) (drop (unat n) (buf_rest p)) = drop (unat n) xs" using p(2,3) u by (simp add: drop_take)
    show ?thesis
      unfolding adv(1) ch rbind_simps cb option.case if_P [OF True]
    proof (rule runs_rbind [OF runs_store_data [OF f(1) adv(2) fits]], clarsimp)
      fix p' c' assume a: "buf_wf p'" "cbuf_wf c'" "cbuf_size c' = cbuf_size cb"
        "cbuf_contents c' = cbuf_contents cb @ take (unat (len - n)) (buf_rest (buf_adv p (unat n)))"
      define ch' where "ch' = set_cbuf b c' ch"
      have used: "unat (cbuf_used c') = unat (cbuf_used cb) + (length xs - unat n)"
        using cbuf_contents_length [OF a(2)] cbuf_contents_length [OF f(1)] a(4) rest adv(3) by simp
      have "chan_room e 0 ch'" using room cb a(2,3) used f(1,2)
        by (cases b) (auto simp: chan_room_def ch'_def set_cbuf_def extra_used_def chan_cbuf_def split: option.splits)
      moreover have ix: "ch_index ch' = ch_index ch" "ch_type ch' = ch_type ch" "chan_cbuf b ch' = Some c'"
        "ch_conn_pending ch' = ch_conn_pending ch" "ch_await_open ch' = ch_await_open ch"
        by (auto simp: ch'_def set_cbuf_def chan_cbuf_def split: chan_buf.split)
      ultimately have "ses_inv e cn (put_chan i ch' (s1\<lparr>ses_payload := Some p'\<rparr>))"
        using ses_inv_put [OF ses_inv_payload [OF inv a(1)], of i ch ch'] ch by simp
      then show "ses_inv e cn (put_chan i ch' (s1\<lparr>ses_payload := Some p'\<rparr>)) \<and>
          (slot s1 i \<or> i < length (ses_channels s1)) \<and> received_ok e i fd b old xs s0 (put_chan i ch' (s1\<lparr>ses_payload := Some p'\<rparr>))"
        using c ix out a(4) rest adv(3) by (simp add: received_ok_def)
    qed
  qed
qed

lemma keeps_recv_data:
  assumes s: "ses_inv e cn s" and ch: "get_chan s i = Inr ch" and pb: "ses_payload s = Some pb"
  shows "keeps (\<lambda>s'. ses_inv e cn s' \<and> slot s' i \<and> (\<forall>c. 0 \<le> fd \<longrightarrow> chan_cbuf b ch = Some c \<longrightarrow>
      received_ok e i fd b (cbuf_contents c) (msg_data pb) s s')) (common_recv_msg_channel_data e i fd b s)"
proof (cases "chan_cbuf b ch = None \<or> ch_recv_eof ch \<or> fd < 0")
  case True
  then show ?thesis using s ses_inv_chan(6) [OF s ch] by (auto simp: common_recv_msg_channel_data_def ch split: option.split)
next
  case False
  then obtain c where cb: "chan_cbuf b ch = Some c" and nf: "\<not> ch_recv_eof ch" "\<not> fd < 0" by auto
  note cc = ses_inv_chan [OF s ch]
  have w: "buf_wf pb" using ses_inv_pb [OF s pb] .
  show ?thesis
  proof (cases "4 \<le> length (buf_rest pb)")
    case no: False
    then show ?thesis using w by (simp add: common_recv_msg_channel_data_def ch nf cb pb buf_getint_eq)
  next
    case yes: True
    define len where "len = load32h (buf_rest pb)"
    define p where "p = buf_adv pb 4"
    have g: "buf_getint pb = Inr (len, p)" using yes w by (simp add: buf_getint_eq len_def p_def)
    have pw: "buf_wf p" "buf_rest p = drop 4 (buf_rest pb)" using yes buf_adv_wf [OF w yes] buf_adv_rest [OF w yes] by (simp_all add: p_def)
    show ?thesis
    proof (cases "unat len \<le> length (buf_rest p)")
      case no: False
      then show ?thesis
        unfolding common_recv_msg_channel_data_def ch rbind_simps cb option.case pb g prod.case if_not_P [OF nf(1)] if_not_P [OF nf(2)] Let_def
        apply (intro keeps_if keeps_assert)
        by (simp_all add: buf_getptr_eq [OF pw(1)])
    next
      case ok: True
      let ?xs = "take (unat len) (buf_rest p)"
      have xs: "msg_data pb = ?xs" by (simp add: msg_data_def len_def pw(2))
      define ch1 where "ch1 = ch\<lparr>ch_recvwindow := ch_recvwindow ch - len\<rparr>"
      define s1 where "s1 = put_chan i ch1 (s\<lparr>ses_payload := Some p\<rparr>)"
      have gp: "buf_getptr p len = Inr (unat (buf_pos p))" using ok by (simp add: buf_getptr_eq [OF pw(1)])
      have rd: "mem_read (buf_data p) (unat (buf_pos p)) (unat len) = Inr ?xs" by (rule buf_read_eq [OF pw(1) ok])
      have step: "keeps (\<lambda>s'. ses_inv e cn s' \<and> slot s' i \<and> received_ok e i fd b (cbuf_contents c) ?xs s s')
        (rbind (writechannel e i fd b (Some ?xs) s1) (\<lambda>(res, consumed, s).
           rbind (buf_incrpos p consumed) (\<lambda>payload.
           if res
           then rbind (get_chan s i) (\<lambda>ch.
                case chan_cbuf b ch of None \<Rightarrow> Inl NullDeref
                | Some cbuf \<Rightarrow>
                  rbind (store_data (len - consumed) payload cbuf) (\<lambda>(payload, cbuf).
                  Inr (put_chan i (set_cbuf b cbuf ch) (s\<lparr>ses_payload := Some payload\<rparr>))))
           else Inr (s\<lparr>ses_payload := Some payload\<rparr>))))" if le: "len \<le> ch_recvwindow ch"
      proof -
        have u: "unat (ch_recvwindow ch - len) = unat (ch_recvwindow ch) - unat len" "unat len \<le> unat (ch_recvwindow ch)"
          using le by (simp_all add: unat_sub32 wnat)
        have room: "chan_room e (length ?xs) ch1" using cc(2) u ok by (auto simp: chan_room_def ch1_def extra_used_def)
        have cb1: "chan_cbuf b ch1 = Some c" "ch_index ch1 = ch_index ch" "ch_type ch1 = ch_type ch"
          "ch_conn_pending ch1 = ch_conn_pending ch" "ch_await_open ch1 = ch_await_open ch"
          using cb by (auto simp: ch1_def chan_cbuf_def split: chan_buf.split)
        have inv1: "ses_inv e cn s1" "get_chan s1 i = Inr ch1"
          using ses_inv_put [OF ses_inv_payload [OF s pw(1)], of i ch ch1] ch cc cb1 chan_room_mono [OF room] by (simp_all add: s1_def)
        have tr: "ses_trace s1 = ses_trace s" by (simp add: s1_def)
        show ?thesis
        proof (rule keeps_runs [OF runs_ret [OF runs_writechannel [OF inv1 cb1(1) room, where md = "Some ?xs"]]], simp, clarsimp split del: if_split)
          fix ret n s2 assume a: "writechannel e i fd b (Some ?xs) s1 = Inr (ret, n, s2)" "written_ok e cn i fd b (cbuf_contents c) ?xs s1 (ret, n, s2)"
          show "keeps (\<lambda>s'. ses_inv e cn s' \<and> slot s' i \<and> received_ok e i fd b (cbuf_contents c) ?xs s s')
             (rbind (buf_incrpos p n) (\<lambda>payload.
               if ret
               then rbind (get_chan s2 i) (\<lambda>ch.
                    case chan_cbuf b ch of None \<Rightarrow> Inl NullDeref
                    | Some cbuf \<Rightarrow>
                      rbind (store_data (len - n) payload cbuf) (\<lambda>(payload, cbuf).
                      Inr (put_chan i (set_cbuf b cbuf ch) (s2\<lparr>ses_payload := Some payload\<rparr>))))
               else Inr (s2\<lparr>ses_payload := Some payload\<rparr>)))"
            by (rule runs_keeps [OF runs_recv_rest [OF a(2) writechannel_ret [OF _ a(1)] pw(1) refl ok]]) (auto simp: received_ok_def tr)
        qed
      qed
      show ?thesis
        unfolding common_recv_msg_channel_data_def ch rbind_simps cb option.case pb g prod.case if_not_P [OF nf(1)] if_not_P [OF nf(2)] Let_def
        apply (rule keeps_if, simp)
        apply (intro keeps_assert)
        unfolding gp rbind_simps rd ch1_def [symmetric] s1_def [symmetric]
        by (rule keeps_weaken [OF step]) (auto simp: xs)
    qed
  qed
qed

end
