(* ===== verification/Channel_Props.thy ===== *)
theory Channel_Props
  imports Channel_Data Process_Packet
begin

text \<open>
  The properties of the channels: every handler keeps the invariant whatever the peer sends, data
  is neither lost nor reordered, and both windows are respected.
\<close>

section \<open>Sending data\<close>

lemma ses_inv_wp: "ses_inv e cn s \<Longrightarrow> grown (ses_writepayload s) wp \<Longrightarrow> ses_inv e cn (s\<lparr>ses_writepayload := wp\<rparr>)"
  by (simp add: ses_inv_def send_ok_def trans_macsize_def grown_def)

lemma runs_clear:
  assumes "buf_wf wp" "buf_size wp = TRANS_MAX_PAYLOAD_LEN" "ses_inv e cn s" "slot s i"
  shows "runs (\<lambda>s'. ses_inv e cn s' \<and> slot s' i) (clear_payload wp s)"
  unfolding clear_payload_def
  apply (rule runs_rbind [OF runs_setpos [OF assms(1)]])
  apply (rule runs_rbind [OF runs_setlen], simp)
  using assms by (auto simp: ses_inv_def send_ok_def trans_macsize_def)

lemma runs_send_read_data:
  assumes s: "ses_inv e cn s" and ch: "get_chan s i = Inr ch" and wp: "grown (ses_writepayload s) wp" "p + length bs \<le> length (buf_data wp)"
  shows "runs (\<lambda>s'. ses_inv e cn s' \<and> slot s' i) (send_read_data e i ch wp p size_pos bs s)"
proof -
  note c = ses_inv_chan [OF s ch]
  let ?s1 = "put_chan i (ch\<lparr>ch_transwindow := ch_transwindow ch - of_nat (length bs)\<rparr>) s"
  have s1: "ses_inv e cn ?s1" "slot ?s1 i" using ses_inv_put [OF s ch] c by simp_all
  have g: "runs (grown (ses_writepayload ?s1)) (rbind (mem_write (buf_data wp) p bs) (\<lambda>d.
      rbind (buf_incrwritepos (wp\<lparr>buf_data := d\<rparr>) (of_nat (length bs))) (\<lambda>wp.
      rbind (buf_setpos wp size_pos) (\<lambda>wp. buf_putint wp (of_nat (length bs))))))"
    apply (rule runs_rbind [OF runs_overwrite [OF wp(2)]])
    apply (rule runs_rbind [OF runs_incrwritepos], rule buf_wf_over, use wp(1) in \<open>simp add: grown_def\<close>)
     apply (use wp(1) buf_wf_bounds(1) [of wp] in \<open>simp add: grown_def\<close>)
    apply (rule runs_rbind [OF runs_setpos], simp)
    by (rule runs_weaken [OF runs_putint]) (use wp(1) in \<open>auto simp: grown_def\<close>)
  show ?thesis unfolding send_read_data_def Let_def
    by (rule runs_weaken [OF runs_send_inv [OF s1(1) g]]) (use s1(2) same_core_slot(2) [of ?s1] in simp)
qed

lemma runs_read_and_send:
  assumes s: "ses_inv e cn s" and ch: "get_chan s i = Inr ch" and wp: "grown (ses_writepayload s) wp"
  shows "runs (\<lambda>s'. ses_inv e cn s' \<and> slot s' i) (read_and_send e i ch fd m size_pos wp s)"
proof -
  note c = ses_inv_chan [OF s ch] and d = send_ok_D [OF ses_inv_send [OF s]]
  let ?s = "(tick s)\<lparr>ses_writepayload := wp\<rparr>"
  have w: "buf_wf wp" "buf_size wp = TRANS_MAX_PAYLOAD_LEN" using wp d(2) by (simp_all add: grown_def)
  have st: "ses_inv e cn ?s" "slot ?s i" "get_chan ?s i = Inr ch" "grown (ses_writepayload ?s) wp"
    using ses_inv_wp [of e cn "tick s" wp] s wp c(6) ch w by (simp_all add: tick_def grown_def slot_def get_chan_def)
  have cl: "runs (\<lambda>s'. ses_inv e cn s' \<and> slot s' i) (rbind (close_chan_fd e i fd SHUT_RD ?s) (clear_payload wp))"
    by (rule runs_rbind [OF runs_close_fd [OF st(1,2)]]) (auto intro: runs_clear [OF w])
  show ?thesis
    unfolding read_and_send_def
  proof (rule runs_rbind [OF runs_getwriteptr_data [OF w(1)]])
    fix p assume p: "p = unat (buf_pos wp) \<and> p + unat m \<le> length (buf_data wp)"
    have sd: "e_read e (ses_tick s) fd (unat m) = RdData bs \<Longrightarrow> runs (\<lambda>s'. ses_inv e cn s' \<and> slot s' i) (send_read_data e i ch wp p size_pos bs ?s)" for bs
      using runs_send_read_data [OF st(1,3,4), of p bs] env_ok_read [OF d(3), of "ses_tick s" fd "unat m" bs] p by simp
    show "runs (\<lambda>s'. ses_inv e cn s' \<and> slot s' i) (let r = e_read e (ses_tick s) fd (unat m); s = (tick s)\<lparr>ses_writepayload := wp\<rparr> in
     case r of
       RdErr err \<Rightarrow> rbind (if err \<noteq> EINTR then close_chan_fd e i fd SHUT_RD s else Inr s) (clear_payload wp)
     | RdData bs \<Rightarrow> if bs = [] then rbind (close_chan_fd e i fd SHUT_RD s) (clear_payload wp) else send_read_data e i ch wp p size_pos bs s)"
      using cl runs_clear [OF w st(1,2)] sd by (simp add: Let_def split: rd_result.split)
  qed
qed

lemma keeps_send_data:
  assumes s: "ses_inv e cn s" "slot s i"
  shows "keeps (\<lambda>s'. ses_inv e cn s' \<and> slot s' i) (send_msg_channel_data e i ext s)"
proof -
  obtain ch where ch: "get_chan s i = Inr ch" using slotE [OF s(2)] by blast
  note d = send_ok_D [OF ses_inv_send [OF s(1)]]
  show ?thesis
    unfolding send_msg_channel_data_def ch rbind_simps Let_def
    apply (intro keeps_assert keeps_if, use s in simp)
    apply (rule keeps_runs [OF runs_putbyte [OF d(1)]])
    apply (rule keeps_runs [OF runs_putint_grown], assumption)
    apply (rule keeps_runs [where Q = "grown (ses_writepayload s)"])
     apply (simp add: runs_putint_grown)
    apply (rule keeps_runs [OF runs_putint_grown], assumption)
    by (rule runs_keeps [OF runs_read_and_send [OF s(1) ch]]) auto
qed

section \<open>Every handler keeps the invariant\<close>

lemma runs_getchannel:
  assumes s: "ses_inv e cn s" and pb: "ses_payload s = Some pb"
  shows "runs (\<lambda>(i, s'). ses_inv e cn s' \<and> slot s' i \<and> (\<exists>pb'. ses_payload s' = Some pb' \<and> buf_wf pb')) (getchannel_msg s)"
proof -
  have l: "unat (ses_chansize s) = length (ses_channels s)" using s by (simp add: ses_inv_def)
  show ?thesis
    unfolding getchannel_msg_def pb option.case
    apply (rule runs_rbind [OF runs_getint [OF ses_inv_pb [OF s pb]]])
    using l s by (auto simp: same_buf_def wnat not_le slot_def ses_inv_payload)
qed

lemma count_chans_add: "i < length cs \<Longrightarrow> cs ! i = None \<Longrightarrow> count_chans (cs[i := Some ch]) = Suc (count_chans cs)"
  unfolding count_chans_def by (induction cs arbitrary: i) (auto split: nat.split simp: nth_Cons' list_update.simps)

lemma count_chans_le: "count_chans cs \<le> length cs"
  by (simp add: count_chans_def)

lemma free_slot_free: "free_slot cs < length cs \<Longrightarrow> cs ! free_slot cs = None"
  unfolding free_slot_def using nth_length_takeWhile by blast

lemma chans_inv_extend:
  assumes "chans_inv e cn cs" "length cs \<le> 999" shows "chans_inv e cn (cs @ replicate 3 None)"
  using assms unfolding chans_inv_def by (auto simp: nth_append split: if_splits)

lemma chans_inv_put:
  assumes "chans_inv e cn cs" "i < length cs" "unat (ch_index ch) = i" "chan_room e 0 ch" "ch_type ch < length (cn_types cn)"
    "ch_conn_pending ch = None"
  shows "chans_inv e cn (cs[i := Some ch])"
  using assms unfolding chans_inv_def by (auto simp: nth_list_update)

lemma conns_inv_mono:
  assumes inv: "conns_inv cs ps n"
    and up: "\<And>i ch. i < length cs \<Longrightarrow> cs ! i = Some ch \<Longrightarrow> i < length cs' \<and> cs' ! i = Some ch"
    and down: "\<And>i ch. i < length cs' \<Longrightarrow> cs' ! i = Some ch \<Longrightarrow> ch_conn_pending ch \<noteq> None \<Longrightarrow> i < length cs \<and> cs ! i = Some ch"
  shows "conns_inv cs' ps n"
  unfolding conns_inv_def
proof (intro conjI ballI allI impI, goal_cases)
  case (3 c i)
  then show ?case using inv up unfolding conns_inv_def by blast
next
  case (4 c i)
  then show ?case using inv up unfolding conns_inv_def by blast
next
  case (5 i ch k)
  then have "i < length cs \<and> cs ! i = Some ch" using down by blast
  then show ?case using inv 5 unfolding conns_inv_def by blast
qed (use inv in \<open>auto simp: conns_inv_def\<close>)

lemma conns_inv_extend: "conns_inv cs ps n \<Longrightarrow> conns_inv (cs @ replicate m None) ps n"
  by (erule conns_inv_mono) (auto simp: nth_append split: if_splits)

lemma conns_inv_new:
  assumes "conns_inv cs ps n" "i < length cs" "cs ! i = None" "ch_conn_pending ch = None"
  shows "conns_inv (cs[i := Some ch]) ps n"
  by (rule conns_inv_mono [OF assms(1)]) (use assms(2-4) in \<open>auto simp: nth_list_update split: if_splits\<close>)

lemma runs_newchannel:
  assumes s: "ses_inv e cn s" and t: "t < length (cn_types cn)"
  shows "runs (\<lambda>(r, s'). ses_inv e cn s' \<and> ses_payload s' = ses_payload s \<and> (\<forall>i. r = Some i \<longrightarrow>
     (\<exists>ch. get_chan s' i = Inr ch \<and> ch_conn_pending ch = None \<and> \<not> ch_await_open ch))) (newchannel e rc t tw tm s)"
proof -
  let ?cs = "ses_channels s"
  have f: "unat (ses_chansize s) = length ?cs" "chans_inv e cn ?cs" "unat (ses_chancount s) = count_chans ?cs"
    "0 < opt_recv_window e" "opt_recv_window e \<le> MAX_CBUF_SIZE" "length ?cs \<le> 1002" using s by (auto simp: ses_inv_def chans_inv_def)
  define i where "i = free_slot ?cs"
  have il: "i \<le> length ?cs" by (simp add: i_def free_slot_def length_takeWhile_le)
  have full: "ses_chansize s \<ge> MAX_CHANNELS \<longleftrightarrow> 1000 \<le> length ?cs" using f(1) by (simp add: MAX_CHANNELS_def wnat)
  define cs where "cs = (if i = length ?cs then ?cs @ replicate 3 None else ?cs)"
  define ch where "ch wb = \<lparr>ch_index = of_nat i, ch_remotechan = rc, ch_recvwindow = opt_recv_window e,
                    ch_transwindow = tw, ch_recvdonelen = 0, ch_recvmaxpacket = RECV_MAX_CHANNEL_DATA_LEN,
                    ch_transmaxpacket = tm, ch_writefd = FD_UNINIT, ch_readfd = FD_UNINIT,
                    ch_errfd = FD_CLOSED, ch_bidir_fd = False, ch_writebuf = wb, ch_extrabuf = None,
                    ch_sent_close = False, ch_recv_close = False, ch_recv_eof = False, ch_sent_eof = False,
                    ch_flushing = False, ch_conn_pending = None, ch_await_open = False, ch_type = t,
                    ch_prio = PRIO_NORMAL\<rparr>" for wb
  have "\<not> MAX_CBUF_SIZE < opt_recv_window e" using f(5) by simp
  then obtain wb where wb: "cbuf_new (opt_recv_window e) = Inr wb" by (auto simp: cbuf_new_def)
  have wbf: "cbuf_wf wb" "cbuf_used wb = 0" "cbuf_size wb = opt_recv_window e"
    using cbuf_new_wf [OF f(4) wb] wb by (auto simp: cbuf_new_def split: if_splits)
  have room: "chan_room e 0 (ch wb)" using wbf by (simp add: chan_room_def ch_def extra_used_def)
  show ?thesis
  proof (cases "i = length ?cs \<and> 1000 \<le> length ?cs")
    case True
    then show ?thesis using s f(1) full by (simp add: newchannel_def Let_def i_def [symmetric])
  next
    case False
    have ci: "chans_inv e cn cs" "length cs \<le> 1002" "i < length cs" "cs ! i = None" "count_chans cs = count_chans ?cs"
    proof -
      have "i < length ?cs \<Longrightarrow> ?cs ! i = None" using free_slot_free by (simp add: i_def)
      then show "chans_inv e cn cs" "length cs \<le> 1002" "i < length cs" "cs ! i = None" "count_chans cs = count_chans ?cs"
        using False il f(2,6) chans_inv_extend [OF f(2)] by (auto simp: cs_def count_chans_def nth_append)
    qed
    have n: "unat (of_nat i :: u32) = i" using ci by simp
    have inv: "chans_inv e cn (cs[i := Some (ch wb)])" using chans_inv_put [OF ci(1,3)] n room t by (simp add: ch_def)
    have sz: "unat (ses_chansize s + CHAN_EXTEND_SIZE) = length ?cs + 3" using f(1,6) by (simp add: CHAN_EXTEND_SIZE_def unat_add32)
    have cc: "unat (ses_chancount s + 1) = Suc (count_chans cs)" using f(3,6) ci(5) count_chans_le [of ?cs] by (simp add: unat_add32)
    let ?s' = "(s\<lparr>ses_channels := cs[i := Some (ch wb)], ses_chansize := (if i = length ?cs then ses_chansize s + CHAN_EXTEND_SIZE else ses_chansize s)\<rparr>)\<lparr>ses_chancount := ses_chancount s + 1\<rparr>"
    have run: "newchannel e rc t tw tm s = Inr (Some i, ?s')"
      using False f(1) full wb by (simp add: newchannel_def Let_def i_def [symmetric] cs_def ch_def put_chan_def CHAN_EXTEND_SIZE_def)
    have "conns_inv cs (ses_conn_pending s) (ses_next_conn s)"
      using s conns_inv_extend by (simp add: ses_inv_def cs_def)
    then have "conns_inv (cs[i := Some (ch wb)]) (ses_conn_pending s) (ses_next_conn s)"
      using conns_inv_new [OF _ ci(3,4)] by (simp add: ch_def)
    then have "ses_inv e cn ?s'" using s inv sz cc ci(3,4) count_chans_add [OF ci(3,4)] f(1)
      by (simp add: ses_inv_def send_ok_def trans_macsize_def cs_def)
    then show ?thesis using run ci(3) by (simp add: get_chan_def ch_def)
  qed
qed

context chan_handlers
begin

lemma find_type:
  assumes "set ts \<subseteq> set (cn_chantypes cn)"
  shows "runs (\<lambda>r. \<forall>t. r = Some t \<longrightarrow> t < length (cn_types cn)) (find_chantype cn ts ty)"
  using assms by (induction ts) (auto dest: types)

lemma initialised:
  assumes "t < length (cn_types cn)" "ses_inv e cn s" "get_chan s i = Inr ch" "ch_conn_pending ch = None" "\<not> ch_await_open ch" "ses_payload s = Some pb"
  shows "keeps (\<lambda>(r, s'). ses_inv e cn s' \<and> slot s' i) (case ct_inithandler (cn_types cn ! t) of None \<Rightarrow> Inr (0, s) | Some f \<Rightarrow> f i s)"
  using assms init [of "cn_types cn ! t"] ses_inv_chan(6) [OF assms(2,3)] by (auto split: option.split)

lemma open_fails: "ses_inv e cn s \<Longrightarrow> keeps (ses_inv e cn) (send_msg_channel_open_failure e n r [] [] s)"
  by (rule runs_keeps [OF runs_open_failure [where cn = cn]]) simp_all

lemma open_tail:
  assumes "t < length (cn_types cn)" "ses_inv e cn s" "get_chan s i = Inr ch" "ch_conn_pending ch = None" "\<not> ch_await_open ch" "ses_payload s = Some pb"
  shows "keeps (ses_inv e cn)
     (rbind (case ct_inithandler (cn_types cn ! t) of None \<Rightarrow> Inr (0, s) | Some f \<Rightarrow> f i s) (\<lambda>(ret, s).
      if ret = SSH_OPEN_IN_PROGRESS then Inr s
      else if ret > 0 then rbind (remove_channel e cn i s) (\<lambda>s. send_msg_channel_open_failure e n ret [] [] s)
      else rbind (get_chan (update_channel_prio s) i) (\<lambda>ch.
           send_msg_channel_open_confirmation e i (ch_recvwindow ch) (ch_recvmaxpacket ch) (update_channel_prio s))))"
  apply (rule keeps_rbind [OF initialised [OF assms]], clarsimp split del: if_split)
  apply (rule keeps_if, simp)
  apply (rule keeps_if, rule keeps_rbind [OF remove], assumption, assumption, rule open_fails, erule conjunct1)
  subgoal for ret s1
    apply (rule slotE [of "update_channel_prio s1" i], simp, simp)
    by (rule runs_keeps [OF runs_open_confirmation [where cn = cn]]) simp_all
  done

lemma opened:
  assumes s: "ses_inv e cn s" "ses_payload s = Some pb"
  shows "keeps (ses_inv e cn) (recv_msg_channel_open e cn s)"
  unfolding recv_msg_channel_open_def s(2) option.case Let_def
  apply (rule keeps_runs [OF runs_getstring [OF ses_inv_pb [OF s]]], clarsimp split del: if_split)
  apply (rule keeps_runs [OF runs_getint [OF same_buf_wf]], assumption, clarsimp split del: if_split)
  apply (rule keeps_runs [OF runs_getint [OF same_buf_wf]], assumption, clarsimp split del: if_split)
  apply (rule keeps_runs [OF runs_getint [OF same_buf_wf]], assumption, clarsimp split del: if_split)
  apply (rule keeps_if, rule open_fails, rule ses_inv_payload [OF s(1) same_buf_wf], assumption)
  apply (rule keeps_runs [OF find_type [OF subset_refl]])
  subgoal for ty n b1 rc b2 tw b3 tm b4 r
    apply (cases r, simp, rule open_fails, rule ses_inv_payload [OF s(1) same_buf_wf], assumption)
    apply (simp split del: if_split)
    apply (rule keeps_runs [OF runs_newchannel], rule ses_inv_payload [OF s(1) same_buf_wf], assumption, assumption)
    subgoal for t x
      apply (cases x)
      subgoal for r' s'
        apply (cases r', simp add: open_fails)
        by (clarsimp split del: if_split) (rule open_tail, simp_all)
      done
    done
  done

lemma confirmed:
  assumes s: "ses_inv e cn s" "ses_payload s = Some pb"
  shows "keeps (ses_inv e cn) (recv_msg_channel_open_confirmation e cn s)"
  unfolding recv_msg_channel_open_confirmation_def getchannel_def Let_def
  apply (rule keeps_runs [OF runs_getchannel [OF s]], clarsimp split del: if_split)
  subgoal for i s1 pb1
    apply (rule slotE [of s1 i], assumption, simp split del: if_split)
    apply (rule keeps_if, simp, simp split del: if_split)
    apply (rule keeps_runs [OF runs_getint], assumption, clarsimp)
    apply (rule keeps_runs [OF runs_getint [OF same_buf_wf]], assumption, clarsimp)
    apply (rule keeps_runs [OF runs_getint [OF same_buf_wf]], assumption, clarsimp)
    subgoal for ch n1 b1 n2 b2 n3 b3
      apply (rule chan_type_ok [of s1 i], assumption, assumption, simp)
      apply (rule keeps_rbind [where Q = "\<lambda>(r, s'). ses_inv e cn s' \<and> slot s' i"])
      subgoal for ty
        using init [of ty] ses_inv_put [OF ses_inv_payload [of e cn s1 b3], of i ch "ch\<lparr>ch_await_open := False, ch_remotechan := n1, ch_transwindow := n2, ch_transmaxpacket := n3\<rparr>"] ses_inv_chan [of e cn s1 i ch]
        by (auto simp: same_buf_def split: option.split)
      apply (clarsimp split del: if_split)
      by (rule keeps_if, rule keeps_weaken [OF remove]) auto
    done
  done

lemma refused:
  assumes s: "ses_inv e cn s" "ses_payload s = Some pb"
  shows "keeps (ses_inv e cn) (recv_msg_channel_open_failure e cn s)"
  unfolding recv_msg_channel_open_failure_def getchannel_def
  apply (rule keeps_runs [OF runs_getchannel [OF s]], clarsimp split del: if_split)
  subgoal for i s1 pb1
    apply (rule slotE [of s1 i], assumption, simp split del: if_split)
    apply (rule keeps_if, simp)
    subgoal for ch
      using remove [of "put_chan i (ch\<lparr>ch_await_open := False\<rparr>) s1" i] ses_inv_put [of e cn s1 i ch "ch\<lparr>ch_await_open := False\<rparr>"] ses_inv_chan [of e cn s1 i ch]
      by (auto elim: keeps_weaken)
    done
  done

lemma connect_failed:
  assumes s: "ses_inv e cn s" "slot s i"
  shows "keeps (ses_inv e cn) (channel_connect_done e cn False sock i err s)"
proof -
  obtain ch where ch: "get_chan s i = Inr ch" using slotE [OF s(2)] by blast
  show ?thesis
    unfolding channel_connect_done_def ch rbind_simps if_False
    apply (rule keeps_runs [OF runs_open_failure [OF s(1)]])
    by (rule keeps_weaken [OF remove]) (use s(2) same_core_slot(2) in auto)
qed

lemma eof_close:
  assumes s: "ses_inv e cn s" "ses_payload s = Some pb"
  shows "keeps (ses_inv e cn) (recv_msg_channel_eof e cn s)" "keeps (ses_inv e cn) (recv_msg_channel_close e cn s)"
proof -
  have upd: "keeps (ses_inv e cn) (rbind (upd_chan i f s1) (check_close e cn i))"
    if "ses_inv e cn s1" "slot s1 i" "\<And>ch. ch_index (f ch) = ch_index ch" "\<And>ch. ch_type (f ch) = ch_type ch" "\<And>ch. chan_room e 0 ch \<Longrightarrow> chan_room e 0 (f ch)"
      "\<And>ch. ch_conn_pending (f ch) = ch_conn_pending ch" "\<And>ch. ch_await_open (f ch) = ch_await_open ch" for i f s1
    by (rule keeps_runs [OF runs_upd_chan [OF that(1,2)]]) (use that closing in auto)
  show "keeps (ses_inv e cn) (recv_msg_channel_eof e cn s)" unfolding recv_msg_channel_eof_def
    by (rule keeps_runs [OF runs_getchannel [OF s]]) (auto intro!: upd)
  show "keeps (ses_inv e cn) (recv_msg_channel_close e cn s)" unfolding recv_msg_channel_close_def
    by (rule keeps_runs [OF runs_getchannel [OF s]]) (auto intro!: upd)
qed

lemma requested:
  assumes s: "ses_inv e cn s" "ses_payload s = Some pb"
  shows "keeps (ses_inv e cn) (recv_msg_channel_request e cn s)"
  unfolding recv_msg_channel_request_def getchannel_def Let_def
  apply (rule keeps_runs [OF runs_getchannel [OF s]], clarsimp)
  subgoal for i s1 pb1
    apply (rule slotE [of s1 i], assumption, simp)
    apply (rule chan_type_ok [of s1 i], assumption, assumption, simp)
    apply (clarsimp split: option.split, intro conjI impI allI)
     apply (rule keeps_runs [OF runs_eatstring], assumption)
     apply (rule keeps_runs [OF runs_getbool [OF same_buf_wf]], assumption, clarsimp)
     apply (intro conjI impI, rule runs_keeps [OF runs_chan_reply(1)], rule ses_inv_payload, assumption, erule same_buf_wf, simp, simp)
     apply (rule ses_inv_payload, assumption, erule same_buf_wf)
    by (rule req)
  done

lemma adjusted:
  assumes s: "ses_inv e cn s" "ses_payload s = Some pb"
  shows "keeps (ses_inv e cn) (recv_msg_channel_window_adjust s)"
  unfolding recv_msg_channel_window_adjust_def getchannel_def Let_def
  apply (rule keeps_runs [OF runs_getchannel [OF s]], clarsimp)
  apply (rule keeps_runs [OF runs_getint], assumption, clarsimp)
  by (rule runs_keeps [OF runs_upd_chan], rule ses_inv_payload, assumption, erule same_buf_wf) auto

lemma data_received:
  assumes s: "ses_inv e cn s" "ses_payload s = Some pb"
  shows "keeps (ses_inv e cn) (recv_msg_channel_data e s)"
  unfolding recv_msg_channel_data_def getchannel_def
  apply (rule keeps_runs [OF runs_getchannel [OF s]], clarsimp)
  subgoal for i s1 pb1
    apply (rule slotE [of s1 i], assumption, simp)
    by (rule keeps_weaken [OF keeps_recv_data]) auto
  done

lemma written_inv: "written_ok e cn i fd b old xs s (r, n, s') \<Longrightarrow> ses_inv e cn s' \<and> slot s' i"
  by (auto simp: written_ok_def dest: ses_inv_chan(6))

lemma written_out:
  assumes s: "ses_inv e cn s" "get_chan s i = Inr ch" "chan_cbuf b ch \<noteq> None"
  shows "keeps (\<lambda>s'. ses_inv e cn s' \<and> slot s' i) (rbind (writechannel e i fd b None s) (\<lambda>(_, _, s). Inr s))"
proof -
  obtain c where c: "chan_cbuf b ch = Some c" using s(3) by blast
  have r: "chan_room e (length []) ch" using ses_inv_chan(2) [OF s(1,2)] by simp
  show ?thesis
    by (rule keeps_runs [OF runs_writechannel [OF s(1,2) c r, where md = None]], simp, clarsimp) (erule written_inv)
qed

lemma one_io:
  assumes s: "ses_inv e cn s" "slot s i"
  shows "keeps (ses_inv e cn) (chan_io e cn rfs wfs i s)"
  unfolding chan_io_def Let_def
  apply (rule slotE [OF s(2)], simp split del: if_split)
  apply (rule keeps_rbind [where Q = "\<lambda>s'. ses_inv e cn s' \<and> slot s' i"])
   apply (rule keeps_if, rule keeps_send_data [OF s], use s in simp)
  subgoal for ch s1
    apply (rule slotE [of s1 i], simp, simp split del: if_split)
    apply (rule keeps_rbind [where Q = "\<lambda>s'. ses_inv e cn s' \<and> slot s' i"])
     apply (rule keeps_if, rule keeps_send_data, simp, simp, simp)
    subgoal for ch1 s2
      apply (rule slotE [of s2 i], simp, simp split del: if_split)
      apply (rule keeps_rbind [where Q = "\<lambda>s'. ses_inv e cn s' \<and> slot s' i"])
       apply (rule keeps_if, rule written_out, simp, assumption, simp add: chan_cbuf_def, simp)
      subgoal for ch2 s3
        apply (rule slotE [of s3 i], simp, simp split del: if_split)
        apply (rule keeps_rbind [where Q = "\<lambda>s'. ses_inv e cn s' \<and> slot s' i"])
         apply (rule keeps_if, rule written_out, simp, assumption, simp add: chan_cbuf_def, simp)
        by (rule keeps_if, rule closing) simp_all
      done
    done
  done

lemma io_loop: "ses_inv e cn s \<Longrightarrow> keeps (ses_inv e cn) (channelio_loop e cn rfs wfs i s)"
proof (induction "2 ^ 32 - i" arbitrary: i s rule: less_induct)
  case less
  have len: "unat (ses_chansize s) = length (ses_channels s)" using less.prems by (simp add: ses_inv_def)
  show ?case
  proof (cases "i < unat (ses_chansize s)")
    case True
    then have "i < 2 ^ 32" using unsigned_less [of "ses_chansize s", where ?'a = nat] by simp
    then have next_round: "ses_inv e cn s' \<Longrightarrow> keeps (ses_inv e cn) (channelio_loop e cn rfs wfs (Suc i) s')" for s'
      using less.hyps [of "Suc i" s'] by simp
    have k: "keeps (ses_inv e cn) (if ses_channels s ! i = None then Inr s else chan_io e cn rfs wfs i s)"
      using less.prems one_io [OF less.prems, of i] True len by (auto simp: slot_def)
    show ?thesis using True len keeps_rbind [OF k next_round] by (subst channelio_loop.simps) simp
  next
    case False
    then show ?thesis using less.prems by (subst channelio_loop.simps) simp
  qed
qed

lemma io: "ses_inv e cn s \<Longrightarrow> keeps (ses_inv e cn) (channelio e cn rfs wfs s)"
  unfolding channelio_def by (rule keeps_rbind [OF io_loop]) (auto intro: listeners)

end

section \<open>Data in order\<close>

text \<open>
  C15. Channel data arrives complete and in order: when \<^verbatim>\<open>recv_msg_channel_data\<close> returns and writes to
  the channel's descriptor do not fail, what was written to it so far followed by what is still
  buffered is what it was before followed by the data of the message. The windows stay
  accounted for: what the peer may still send, what is to be announced and what is buffered
  fit the receive window.
\<close>

theorem recv_channel_data_in_order:
  assumes s: "ses_inv e cn s" and ch: "get_chan s (unat chan) = Inr ch" and fd: "0 \<le> ch_writefd ch"
    and pb: "ses_payload s = Some pb" "reads pb (store32h chan @ sshstr data)" "length data \<le> 4000000000"
    and w: "writes_go_on e (ch_writefd ch)" and r: "recv_msg_channel_data e s = Inr s'"
  shows "\<exists>ch'. get_chan s' (unat chan) = Inr ch'
    \<and> fd_output (ch_writefd ch) (ses_trace s') @ cbuf_contents (ch_writebuf ch')
        = fd_output (ch_writefd ch) (ses_trace s) @ cbuf_contents (ch_writebuf ch) @ data
    \<and> unat (ch_recvwindow ch') + unat (ch_recvdonelen ch') + length (cbuf_contents (ch_writebuf ch')) \<le> unat (opt_recv_window e)"
proof -
  let ?i = "unat chan" and ?p = "buf_adv pb 4"
  have g: "buf_getint pb = Inr (chan, ?p)" "reads ?p (sshstr data)" using getint_reads [OF pb(2)] by simp_all
  have cs: "unat (ses_chansize s) = length (ses_channels s)" using s by (simp add: ses_inv_def)
  note c = ses_inv_chan [OF s ch]
  have gc: "getchannel s = Inr (?i, s\<lparr>ses_payload := Some ?p\<rparr>)"
    using c cs by (simp add: getchannel_def getchannel_msg_def pb(1) g(1) wnat not_le)
  let ?s = "s\<lparr>ses_payload := Some ?p\<rparr>"
  have inv: "ses_inv e cn ?s" using ses_inv_payload [OF s] g(2) by (simp add: reads_def)
  have rd: "common_recv_msg_channel_data e ?i (ch_writefd ch) WriteBuf ?s = Inr s'"
    using r ch by (simp add: recv_msg_channel_data_def gc)
  have d: "msg_data ?p = data"
    using g(2) pb(3) by (simp add: msg_data_def reads_def sshstr_def)
  have ch': "get_chan ?s ?i = Inr ch" using ch by simp
  have ok: "ses_inv e cn s'" "received_ok e ?i (ch_writefd ch) WriteBuf (cbuf_contents (ch_writebuf ch)) data ?s s'"
    using keeps_InrD [OF keeps_recv_data [OF inv ch', of ?p] rd] fd d by (simp_all add: chan_cbuf_def)
  then obtain ch2 where c2: "get_chan s' ?i = Inr ch2"
    "fd_output (ch_writefd ch) (ses_trace s') @ cbuf_contents (ch_writebuf ch2)
        = fd_output (ch_writefd ch) (ses_trace s) @ cbuf_contents (ch_writebuf ch) @ data"
    using w by (auto simp: received_ok_def chan_cbuf_def)
  have "chan_room e 0 ch2" using ses_inv_chan(2) [OF ok(1) c2(1)] .
  then show ?thesis using c2 cbuf_contents_length [of "ch_writebuf ch2"] by (auto simp: chan_room_def)
qed

section \<open>The peer's window\<close>

lemma mem_write_putbytes:
  assumes "buf_wf wp" "buf_getwriteptr wp m = Inr p" "length bs \<le> unat m" "mem_write (buf_data wp) p bs = Inr d"
    "buf_incrwritepos (wp\<lparr>buf_data := d\<rparr>) (of_nat (length bs)) = Inr wp'"
  shows "buf_putbytes wp bs (of_nat (length bs)) = Inr wp'"
proof -
  have l: "unat (of_nat (length bs) :: u32) = length bs"
    using assms(3) unsigned_less [of m, where ?'a = nat] by simp
  have p: "p = unat (buf_pos wp)" "unat (buf_pos wp) + unat m \<le> unat (buf_size wp)"
    using runs_getwriteptr [OF assms(1), of m] assms(2) by simp_all
  have "buf_getwriteptr wp (of_nat (length bs)) = Inr p"
    using p assms(3) l by (simp add: buf_getwriteptr_eq [OF assms(1)] buf_fits_def)
  then show ?thesis using assms(4,5) l by (simp add: buf_putbytes_def)
qed

lemma backpatch:
  assumes a: "at_end wp1" "buf_putint wp1 0 = Inr wp2" "buf_putbytes wp2 bs (of_nat (length bs)) = Inr wp3" "length bs < 4294967296"
    and b: "buf_setpos wp3 (buf_pos wp1) = Inr wp4" "buf_putint wp4 n = Inr wp5"
  shows "buf_content wp5 = buf_content wp1 @ store32h n @ bs"
proof -
  have e2: "appends wp1 (store32h 0) wp2" by (rule putint_appends [OF a(1,2)])
  have e3: "appends wp2 bs wp3" using putbytes_appends [OF appends_end [OF e2] _ a(3)] a(4) by simp
  have c3: "buf_content wp3 = buf_content wp1 @ store32h 0 @ bs" "buf_wf wp3" using e2 e3 by (simp_all add: appends_def)
  have l1: "unat (buf_pos wp1) = length (buf_content wp1)" using a(1) by (simp add: at_end_def)
  have w4: "buf_wf wp4" "buf_content wp4 = buf_content wp3" "buf_pos wp4 = buf_pos wp1"
    using runs_setpos [OF c3(2), of "buf_pos wp1"] b(1) by (auto simp: buf_content_def)
  have f: "buf_fits wp4 4" "wp5 = buf_put wp4 (store32h n)" using b(2) by (auto simp: buf_putint_eq [OF w4(1)] split: if_splits)
  then show ?thesis using buf_put_content [OF w4(1), of "store32h n"] w4 c3(1) l1 by simp
qed

lemma close_fd_window:
  assumes "close_chan_fd e i fd how s = Inr s'" "get_chan s i = Inr ch"
  shows "\<exists>ch'. get_chan s' i = Inr ch' \<and> ch_transwindow ch' = ch_transwindow ch"
proof -
  have "i < length (ses_channels s)" using assms(2) by (auto simp: get_chan_def split: if_splits)
  then show ?thesis using assms unfolding close_chan_fd_def m_close_def Let_def
    by (elim rbind_InrE) (auto split: if_splits)
qed

lemma read_and_send_result:
  assumes s: "ses_inv e cn s" "get_chan s i = Inr ch" "grown (ses_writepayload s) wp"
    and wp: "at_end wp1" "buf_putint wp1 0 = Inr wp" and r: "read_and_send e i ch fd m (buf_pos wp1) wp s = Inr s'"
  shows "(\<exists>ch'. get_chan s' i = Inr ch' \<and> ch_transwindow ch' = ch_transwindow ch) \<or>
    (\<exists>bs s1. bs \<noteq> [] \<and> length bs \<le> unat m \<and> e_read e (ses_tick s) fd (unat m) = RdData bs \<and> encrypt_packet e s1 = Inr s'
       \<and> buf_content (ses_writepayload s1) = buf_content wp1 @ sshstr bs
       \<and> get_chan s' i = Inr (ch\<lparr>ch_transwindow := ch_transwindow ch - of_nat (length bs)\<rparr>))"
proof -
  let ?s = "(tick s)\<lparr>ses_writepayload := wp\<rparr>"
  have c: "get_chan ?s i = Inr ch" "i < length (ses_channels s)" using s(2) ses_inv_chan(4) [OF s(1,2)] by simp_all
  have ok: "env_ok e" using send_ok_D(3) [OF ses_inv_send [OF s(1)]] .
  have clear: "clear_payload wp s1 = Inr s2 \<Longrightarrow> get_chan s2 i = get_chan s1 i" for s1 s2
    unfolding clear_payload_def by (auto elim!: rbind_InrE)
  obtain p where p: "buf_getwriteptr wp m = Inr p" using r unfolding read_and_send_def by (auto elim!: rbind_InrE)
  show ?thesis
  proof (cases "\<exists>bs. e_read e (ses_tick s) fd (unat m) = RdData bs \<and> bs \<noteq> []")
    case False
    have "\<exists>s1. (s1 = ?s \<or> close_chan_fd e i fd SHUT_RD ?s = Inr s1) \<and> clear_payload wp s1 = Inr s'"
      using r p False unfolding read_and_send_def Let_def
      by (auto split: rd_result.splits if_splits elim!: rbind_InrE)
    then show ?thesis using close_fd_window [OF _ c(1)] clear c(1) by fastforce
  next
    case True
    then obtain bs where bs: "e_read e (ses_tick s) fd (unat m) = RdData bs" "bs \<noteq> []" by blast
    have le: "length bs \<le> unat m" using env_ok_read [OF ok bs(1)] .
    have "send_read_data e i ch wp p (buf_pos wp1) bs ?s = Inr s'" using r p bs by (simp add: read_and_send_def)
    then obtain d wp3 wp4 wp5 where w: "mem_write (buf_data wp) p bs = Inr d" "buf_incrwritepos (wp\<lparr>buf_data := d\<rparr>) (of_nat (length bs)) = Inr wp3"
      "buf_setpos wp3 (buf_pos wp1) = Inr wp4" "buf_putint wp4 (of_nat (length bs)) = Inr wp5"
      and e: "encrypt_packet e ((put_chan i (ch\<lparr>ch_transwindow := ch_transwindow ch - of_nat (length bs)\<rparr>) ?s)\<lparr>ses_writepayload := wp5\<rparr>) = Inr s'"
      unfolding send_read_data_def Let_def by (auto elim!: rbind_InrE)
    have pb: "buf_putbytes wp bs (of_nat (length bs)) = Inr wp3"
      using mem_write_putbytes [OF _ p le w(1,2)] s(3) by (simp add: grown_def)
    have "length bs < 4294967296" using le unsigned_less [of m, where ?'a = nat] by simp
    from backpatch [OF wp pb this w(3,4)] have "buf_content wp5 = buf_content wp1 @ sshstr bs" by (simp add: sshstr_def)
    moreover have "get_chan s' i = Inr (ch\<lparr>ch_transwindow := ch_transwindow ch - of_nat (length bs)\<rparr>)"
      using same_core_slot(1) [OF encrypt_packet_core [OF e]] c(2) by simp
    ultimately show ?thesis using bs le e by fastforce
  qed
qed


section \<open>Window adjustments\<close>

text \<open>
  A window adjustment adds to the channel's window and saturates instead of wrapping round:
  the new window is the sum, or the largest 32-bit number when the peer announces more.
\<close>

theorem window_adjust_saturates:
  assumes s: "ses_inv e cn s" and ch: "get_chan s (unat chan) = Inr ch"
    and pb: "ses_payload s = Some pb" "reads pb (store32h chan @ store32h incr @ t)"
  shows "\<exists>s' ch'. recv_msg_channel_window_adjust s = Inr s' \<and> get_chan s' (unat chan) = Inr ch'
    \<and> unat (ch_transwindow ch') = min (unat (ch_transwindow ch) + unat incr) (2 ^ 32 - 1)"
proof -
  let ?i = "unat chan"
  have g: "buf_getint pb = Inr (chan, buf_adv pb 4)" "reads (buf_adv pb 4) (store32h incr @ t)" using getint_reads [OF pb(2)] by simp_all
  have g2: "buf_getint (buf_adv pb 4) = Inr (incr, buf_adv (buf_adv pb 4) 4)" using getint_reads [OF g(2)] by simp
  have cs: "unat (ses_chansize s) = length (ses_channels s)" using s by (simp add: ses_inv_def)
  note c = ses_inv_chan [OF s ch]
  have gc: "getchannel s = Inr (?i, s\<lparr>ses_payload := Some (buf_adv pb 4)\<rparr>)"
    using c cs by (simp add: getchannel_def getchannel_msg_def pb(1) g(1) wnat not_le)
  let ?w = "ch_transwindow ch"
  define w' where "w' = (if ?w + incr < ?w then 0xffffffff else ?w + incr)"
  have "unat w' = min (unat ?w + unat incr) (2 ^ 32 - 1)"
    using unsigned_less [of ?w, where ?'a = nat] unsigned_less [of incr, where ?'a = nat]
    by (auto simp: w'_def wnat unat_word_ariths mod_if)
  then show ?thesis using c(4) ch g2
    by (simp add: recv_msg_channel_window_adjust_def gc upd_chan_def Let_def w'_def [symmetric])
qed

section \<open>A session with one channel\<close>

definition demo_chan :: Channel where
  "demo_chan = \<lparr>ch_index = 0, ch_remotechan = 5, ch_recvwindow = 24576,
     ch_transwindow = 100, ch_recvdonelen = 0, ch_recvmaxpacket = RECV_MAX_CHANNEL_DATA_LEN,
     ch_transmaxpacket = 4000, ch_writefd = 7, ch_readfd = 7, ch_errfd = FD_CLOSED, ch_bidir_fd = False,
     ch_writebuf = \<lparr>cbuf_size = 24576, cbuf_readpos = 0, cbuf_writepos = 0, cbuf_used = 0, cbuf_data = None\<rparr>,
     ch_extrabuf = None, ch_sent_close = False, ch_recv_close = False, ch_recv_eof = False, ch_sent_eof = False,
     ch_flushing = False, ch_conn_pending = None, ch_await_open = False, ch_type = 0, ch_prio = PRIO_NORMAL\<rparr>"

definition demo_chan_env :: "(unit, unit) chan_env" where
  "demo_chan_env = \<lparr>cn_server = True, cn_types = [\<lparr>ct_name = [102], ct_inithandler = None, ct_check_close = None,
     ct_reqhandler = None, ct_closehandler = None, ct_cleanup = None\<rparr>], cn_chantypes = [0], cn_handle_listeners = (\<lambda>_ s. Inr s)\<rparr>"

definition demo_buf :: "bytes \<Rightarrow> buffer" where
  "demo_buf bs = \<lparr>buf_data = bs, buf_len = of_nat (length bs), buf_pos = 0, buf_size = of_nat (length bs)\<rparr>"

definition demo_session :: "bytes \<Rightarrow> (unit, unit) session" where
  "demo_session bs = fresh_session\<lparr>ses_channels := [Some demo_chan], ses_chansize := 1, ses_chancount := 1,
     ses_payload := Some (demo_buf bs)\<rparr>"

lemma demo_payload: "length bs \<le> 1000000 \<Longrightarrow> reads (demo_buf bs) bs"
  using mkbuf_reads [of "[]" bs] by (simp add: demo_buf_def)

lemma demo_fields: "get_chan (demo_session bs) 0 = Inr demo_chan" "ses_payload (demo_session bs) = Some (demo_buf bs)"
  "ses_trace (demo_session bs) = []" "ses_tick (demo_session bs) = 1"
  by (simp_all add: get_chan_def demo_session_def)

lemma demo_inv:
  assumes "length bs \<le> 1000000" shows "ses_inv (null_env\<lparr>e_read := rd\<rparr>) demo_chan_env (demo_session bs) \<longleftrightarrow> env_ok (null_env\<lparr>e_read := rd\<rparr>)"
proof -
  have "buf_wf (demo_buf bs)"
    using demo_payload [OF assms] by (simp add: reads_def)
  moreover have "send_ok (null_env\<lparr>e_read := rd\<rparr>) (demo_session bs) \<longleftrightarrow> env_ok (null_env\<lparr>e_read := rd\<rparr>)"
    using fresh_send_ok(1) by (simp add: send_ok_def demo_session_def trans_macsize_def deflate_ok_def)
  ultimately show ?thesis
    by (simp add: ses_inv_def demo_session_def chans_inv_def count_chans_def demo_chan_def demo_chan_env_def chan_room_def
        cbuf_wf_def MAX_CBUF_SIZE_def extra_used_def null_env_def conns_inv_def listeners_inv_def permits_ok_def zero_authstate_def nth_Cons' cong: conj_cong)
qed

theorem window_adjust_saturates_witness:
  "\<exists>s' ch'. recv_msg_channel_window_adjust (demo_session (store32h 0 @ store32h 4294967290)) = Inr s'
    \<and> get_chan s' 0 = Inr ch' \<and> unat (ch_transwindow ch') = 2 ^ 32 - 1"
proof -
  let ?bs = "store32h 0 @ store32h 4294967290 @ []"
  have "ses_inv null_env demo_chan_env (demo_session ?bs)" using demo_inv [of ?bs "e_read null_env"] null_env_ok by simp
  from window_adjust_saturates [where chan = 0 and ch = demo_chan, OF this _ demo_fields(2) demo_payload] show ?thesis
    by (simp add: demo_fields) (simp add: demo_chan_def)
qed

theorem recv_channel_data_in_order_witness:
  "\<exists>s' ch'. recv_msg_channel_data null_env (demo_session (store32h 0 @ sshstr [104, 105])) = Inr s'
    \<and> get_chan s' 0 = Inr ch' \<and> fd_output 7 (ses_trace s') @ cbuf_contents (ch_writebuf ch') = [104, 105]"
proof -
  let ?bs = "store32h 0 @ sshstr [104, 105]" let ?s = "demo_session ?bs"
  have i: "ses_inv null_env demo_chan_env ?s" using demo_inv [of ?bs "e_read null_env"] null_env_ok by (simp add: sshstr_def)
  have "recv_msg_channel_data null_env ?s \<noteq> Inl x" for x
    by (simp add: recv_msg_channel_data_def getchannel_def getchannel_msg_def demo_session_def demo_buf_def demo_chan_def sshstr_def store32h_def
      buf_getint_def load32h_def buf_getptr_def buf_incrpos_def get_chan_def put_chan_def common_recv_msg_channel_data_def chan_cbuf_def cbuf_getavail_def
      dropbear_assert_def null_env_def mem_read_def writechannel_def writechannel_writev_def cbuf_peek_def cbuf_readptrs_def cbuf_getused_def cbuf_incrread_def
      cbuf_deref_def umod_def BUF_MAX_INCR_def BUF_MAX_SIZE_def RECV_WINDOWEXTEND_def set_cbuf_def log_event_def tick_def store_data.simps Let_def)
  then obtain s' where r: "recv_msg_channel_data null_env ?s = Inr s'" by (cases "recv_msg_channel_data null_env ?s") auto
  have "writes_go_on null_env 7" by (simp add: writes_go_on_def null_env_def)
  with recv_channel_data_in_order [where chan = 0 and ch = demo_chan, OF i _ _ demo_fields(2) demo_payload _ _ r] r show ?thesis
    by (simp add: demo_fields sshstr_def) (auto simp: demo_chan_def cbuf_contents_def [of "\<lparr>cbuf_size = 24576, cbuf_readpos = 0, cbuf_writepos = 0, cbuf_used = 0, cbuf_data = None\<rparr>"])
qed

definition demo_send_env :: "unit env" where
  "demo_send_env = null_env\<lparr>e_read := (\<lambda>_ _ n. RdData (take n [104, 105]))\<rparr>"

lemma put_fits: "at_end b \<Longrightarrow> length (buf_content b) + n \<le> unat (buf_size b) \<Longrightarrow> buf_fits b n"
  by (simp add: at_end_def buf_fits_def)

lemma demo_read_send:
  assumes w: "at_end w" "buf_content w = [94, 0, 0, 0, 5]" "buf_size w = TRANS_MAX_PAYLOAD_LEN"
  shows "\<exists>w' s1. buf_putint w 0 = Inr w' \<and> read_and_send demo_send_env 0 demo_chan 7 100 (buf_pos w) w' (demo_session []) = encrypt_packet demo_send_env s1
    \<and> can_send demo_send_env s1 ([94, 0, 0, 0, 5] @ sshstr [104, 105])
    \<and> cipher_inverse (dk_crypt_mode (ses_trans s1)) dropbear_mode_none (trans_blocksize s1)"
proof -
  have f: "buf_fits w 4" using w by (intro put_fits) (simp_all add: TRANS_MAX_PAYLOAD_LEN_def)
  define w1 where "w1 = buf_put w (store32h 0)"
  have p1: "buf_putint w 0 = Inr w1" using w(1) f by (simp add: w1_def buf_putint_eq at_end_def)
  have a1: "appends w (store32h 0) w1" by (rule putint_appends [OF w(1) p1])
  have c1: "at_end w1" "length (buf_content w1) = 9" "buf_size w1 = TRANS_MAX_PAYLOAD_LEN" using a1 w by (simp_all add: appends_def)
  have u1: "unat (buf_pos w1) = 9" "unat (buf_size w1) = 16384" "buf_wf w1" using c1 by (simp_all add: at_end_def TRANS_MAX_PAYLOAD_LEN_def)
  have "buf_fits w1 2" using u1 by (simp add: buf_fits_def)
  then obtain w2 where p2: "buf_putbytes w1 [104, 105] 2 = Inr w2" using u1(3) by (simp add: buf_putbytes_eq)
  then obtain d where d: "mem_write (buf_data w1) 9 [104, 105] = Inr d" "buf_incrwritepos (w1\<lparr>buf_data := d\<rparr>) 2 = Inr w2"
    using u1 by (auto simp: buf_putbytes_def buf_getwriteptr_eq elim!: rbind_InrE)
  have a2: "appends w1 [104, 105] w2" using putbytes_appends [OF c1(1) _ p2] by simp
  have c2: "buf_wf w2" "length (buf_content w2) = 11" "buf_size w2 = TRANS_MAX_PAYLOAD_LEN" using a2 c1 by (simp_all add: appends_def at_end_def)
  have "length (buf_content w) = 5" using w(2) by simp
  then have pw: "unat (buf_pos w) = 5" using w(1) by (simp add: at_end_def)
  obtain w3 where p3: "buf_setpos w2 (buf_pos w) = Inr w3" using c2 pw by (simp add: buf_setpos_def wnat)
  then have c3: "buf_wf w3" "buf_fits w3 4" using runs_setpos [OF c2(1), of "buf_pos w"] c2(3) pw by (auto simp: buf_fits_def TRANS_MAX_PAYLOAD_LEN_def)
  then obtain w4 where p4: "buf_putint w3 2 = Inr w4" by (simp add: buf_putint_eq)
  have "buf_content w4 = buf_content w @ store32h 2 @ [104, 105]"
    by (rule backpatch [OF w(1) p1 _ _ p3 p4]) (use p2 in simp_all)
  moreover have "buf_wf w4" using p4 c3 by (auto simp: buf_putint_eq)
  ultimately show ?thesis
    using p1 u1 d p3 p4 pw
    by (intro exI [of _ w1] exI [of _ "(put_chan 0 (demo_chan\<lparr>ch_transwindow := 98\<rparr>) (tick (demo_session [])))\<lparr>ses_writepayload := w4\<rparr>"])
      (simp add: read_and_send_def send_read_data_def buf_getwriteptr_eq demo_send_env_def Let_def,
       simp add: demo_chan_def demo_session_def put_chan_def tick_def can_send_def null_env_def trans_blocksize_def trans_macsize_def none_keys_def
      dropbear_nocipher_def dropbear_nohash_def is_compress_trans_def w sshstr_def mode_none_inverse)
qed


end
