(* ===== verification/Pubkey_Options.thy ===== *)
theory Pubkey_Options
  imports Session Outcome
begin

text \<open>
  The options of a line of \<^verbatim>\<open>authorized_keys\<close>, \<^verbatim>\<open>svr-authpubkeyoptions.c\<close>: the parser and the
  restrictions it sets. The reference is an abstract syntax of options with its meaning; the
  parser accepts exactly the texts of comma separated known options and gives their meaning.
  The configuration has agent forwarding and security keys but no X11 forwarding.
\<close>

section \<open>Strings and numbers\<close>

definition tolower :: "u8 \<Rightarrow> u8" where
  "tolower c = (if 65 \<le> c \<and> c \<le> 90 then c + 32 else c)"

definition isspace :: "u8 \<Rightarrow> bool" where
  "isspace c \<longleftrightarrow> c = 32 \<or> (9 \<le> c \<and> c \<le> 13)"

definition isdigit :: "u8 \<Rightarrow> bool" where
  "isdigit c \<longleftrightarrow> 48 \<le> c \<and> c \<le> 57"

text \<open>\<^verbatim>\<open>strtoul\<close> with base 10 and 64 bits: the number and the rest of the string, or \<open>None\<close> without digits.\<close>

definition strtoul :: "bytes \<Rightarrow> (nat \<times> bytes) option" where
  "strtoul str =
     (let t = dropWhile isspace (cstr str);
          neg = (t \<noteq> [] \<and> hd t = 45);
          u = (if t \<noteq> [] \<and> (hd t = 45 \<or> hd t = 43) then tl t else t);
          ds = takeWhile isdigit u;
          v = foldl (\<lambda>n d. 10 * n + (unat d - 48)) 0 ds in
      if ds = [] then None
      else Some (if v \<ge> 2 ^ 64 then 2 ^ 64 - 1 else if neg then (2 ^ 64 - v) mod 2 ^ 64 else v, dropWhile isdigit u))"

text \<open>\<open>einval\<close>: whether \<^verbatim>\<open>errno\<close>, which the code does not reset, is \<^verbatim>\<open>EINVAL\<close>.\<close>

definition m_str_to_uint :: "bool \<Rightarrow> bytes \<Rightarrow> u32 option" where
  "m_str_to_uint einval str =
     (case strtoul str of None \<Rightarrow> None
      | Some (l, endp) \<Rightarrow>
        if endp \<noteq> [] \<or> (l = 0 \<and> einval) \<or> l > 2 ^ 32 - 1 then None else Some (of_nat l))"

text \<open>The address and the port of a \<^verbatim>\<open>host:port\<close> string, or \<open>None\<close> for a failure.\<close>

definition split_address_port :: "bytes \<Rightarrow> (bytes option \<times> bytes option) option" where
  "split_address_port spec =
     (let s = cstr spec; first = (\<lambda>a. if a = [] then None else Some a) in
      if s \<noteq> [] \<and> hd s = 91
      then
        let addr = takeWhile (\<lambda>c. c \<noteq> 93) (tl s) in
        (case dropWhile (\<lambda>c. c \<noteq> 93) (tl s) of
           [] \<Rightarrow> None
         | _ # rest \<Rightarrow>
           (case rest of
              [] \<Rightarrow> Some (first addr, None)
            | c # port \<Rightarrow> if c \<noteq> 58 then None else Some (first addr, Some port)))
      else if 58 \<notin> set s then Some (first s, None)
      else Some (first (rev (tl (dropWhile (\<lambda>c. c \<noteq> 58) (rev s)))), Some (rev (takeWhile (\<lambda>c. c \<noteq> 58) (rev s)))))"

section \<open>Restrictions\<close>

definition PUBKEY_OPTIONS_ANY_PORT :: u32 where "PUBKEY_OPTIONS_ANY_PORT = 0xffffffff"

definition svr_pubkey_allows_agentfwd :: "('c, 'z) session \<Rightarrow> bool" where
  "svr_pubkey_allows_agentfwd s \<longleftrightarrow>
     (case auth_pubkey_options (ses_authstate s) of None \<Rightarrow> True | Some po \<Rightarrow> \<not> no_agent_forwarding_flag po)"

definition svr_pubkey_allows_tcpfwd :: "('c, 'z) session \<Rightarrow> bool" where
  "svr_pubkey_allows_tcpfwd s \<longleftrightarrow>
     (case auth_pubkey_options (ses_authstate s) of None \<Rightarrow> True | Some po \<Rightarrow> \<not> no_port_forwarding_flag po)"

definition svr_pubkey_has_forced_command :: "('c, 'z) session \<Rightarrow> bool" where
  "svr_pubkey_has_forced_command s \<longleftrightarrow>
     (case auth_pubkey_options (ses_authstate s) of None \<Rightarrow> False | Some po \<Rightarrow> forced_command po \<noteq> None)"

definition svr_pubkey_allows_x11fwd :: "('c, 'z) session \<Rightarrow> bool" where
  "svr_pubkey_allows_x11fwd s \<longleftrightarrow>
     (case auth_pubkey_options (ses_authstate s) of None \<Rightarrow> True | Some po \<Rightarrow> \<not> no_x11_forwarding_flag po)"

definition svr_pubkey_allows_pty :: "('c, 'z) session \<Rightarrow> bool" where
  "svr_pubkey_allows_pty s \<longleftrightarrow>
     (case auth_pubkey_options (ses_authstate s) of None \<Rightarrow> True | Some po \<Rightarrow> \<not> no_pty_flag po)"

definition svr_pubkey_allows_local_tcpfwd :: "bytes \<Rightarrow> u32 \<Rightarrow> ('c, 'z) session \<Rightarrow> bool res" where
  "svr_pubkey_allows_local_tcpfwd host port s =
     (case auth_pubkey_options (ses_authstate s) of None \<Rightarrow> Inr True
      | Some po \<Rightarrow>
        case permit_open_destinations po of None \<Rightarrow> Inr True
        | Some es \<Rightarrow>
          if \<exists>entry\<in>set es. fwd_host entry = None then Inl NullDeref
          else Inr (list_ex (\<lambda>entry. map_option cstr (fwd_host entry) = Some (cstr host)
                       \<and> (fwd_port entry = PUBKEY_OPTIONS_ANY_PORT \<or> fwd_port entry = port)) es))"

definition svr_pubkey_allows_remote_tcpfwd :: "bytes \<Rightarrow> u32 \<Rightarrow> ('c, 'z) session \<Rightarrow> bool" where
  "svr_pubkey_allows_remote_tcpfwd host port s \<longleftrightarrow>
     (case auth_pubkey_options (ses_authstate s) of None \<Rightarrow> True
      | Some po \<Rightarrow>
        case permit_listens po of None \<Rightarrow> True | Some es \<Rightarrow> list_ex (\<lambda>entry. fwd_port entry = port) es)"

section \<open>The parser\<close>

definition match_option :: "buffer \<Rightarrow> bytes \<Rightarrow> (bool \<times> buffer) res" where
  "match_option b opt_name =
     (let len = of_nat (length opt_name) in
      if buf_len b - buf_pos b < len then Inr (False, b)
      else
        rbind (buf_getptr b len) (\<lambda>p.
        rbind (mem_read (buf_data b) p (unat len)) (\<lambda>bs.
        if map tolower bs = map tolower opt_name
        then rbind (buf_incrpos b len) (\<lambda>b. Inr (True, b)) else Inr (False, b))))"

text \<open>The two loops that look for the closing quote: whether it was found, and the buffer after it.\<close>

lemma buf_getbyte_adv: "buf_getbyte b = Inr (c, b') \<Longrightarrow> buf_len b' = buf_len b \<and> unat (buf_pos b') = Suc (unat (buf_pos b))
    \<and> unat (buf_pos b) < unat (buf_len b)"
proof -
  assume a: "buf_getbyte b = Inr (c, b')"
  then have "buf_pos b < buf_len b" "b' = b\<lparr>buf_pos := buf_pos b + 1\<rparr>" by (auto simp: buf_getbyte_def elim!: rbind_InrE split: if_splits)
  moreover from this have "unat (buf_pos b + 1) = Suc (unat (buf_pos b))"
    using unsigned_less [of "buf_len b", where ?'a = nat] by (simp add: wnat unat_word_ariths)
  ultimately show ?thesis by (simp add: wnat)
qed

function scan_command :: "bool \<Rightarrow> buffer \<Rightarrow> (bool \<times> buffer) res" where
  "scan_command escaped b =
     (if buf_pos b < buf_len b
      then rbind (buf_getbyte b) (\<lambda>(c, b).
           if \<not> escaped \<and> c = 34 then Inr (True, b) else scan_command (\<not> escaped \<and> c = 92) b)
      else Inr (False, b))"
  by pat_completeness auto

termination
  by (relation "measure (\<lambda>(_, b). unat (buf_len b) - unat (buf_pos b))") (auto dest!: buf_getbyte_adv)

function scan_quote :: "buffer \<Rightarrow> (bool \<times> buffer) res" where
  "scan_quote b =
     (if buf_pos b < buf_len b
      then rbind (buf_getbyte b) (\<lambda>(c, b). if c = 34 then Inr (True, b) else scan_quote b)
      else Inr (False, b))"
  by pat_completeness auto

termination
  by (relation "measure (\<lambda>b. unat (buf_len b) - unat (buf_pos b))") (auto dest!: buf_getbyte_adv)

declare scan_command.simps [simp del] scan_quote.simps [simp del]

text \<open>The bytes between the start of the value and the closing quote that was just read.\<close>

definition quoted_value :: "buffer \<Rightarrow> nat \<Rightarrow> bytes res" where
  "quoted_value b start = rbind (buf_getptr b 0) (\<lambda>p. mem_read (buf_data b) start (p - start - 1))"

text \<open>The value of \<^verbatim>\<open>permitopen\<close>: a host and a port.\<close>

definition permitopen_entry :: "bool \<Rightarrow> bytes \<Rightarrow> PermitTCPFwdEntry option" where
  "permitopen_entry einval spec =
     (case split_address_port (spec @ [0]) of
        Some (Some host, Some portstring) \<Rightarrow>
          if portstring = lit ''*'' then Some \<lparr>fwd_host = Some (host @ [0]), fwd_port = PUBKEY_OPTIONS_ANY_PORT\<rparr>
          else map_option (\<lambda>port. \<lparr>fwd_host = Some (host @ [0]), fwd_port = port\<rparr>) (m_str_to_uint einval (portstring @ [0]))
      | _ \<Rightarrow> None)"

definition empty_options :: PubKeyOptions where
  "empty_options = \<lparr>no_port_forwarding_flag = False, no_agent_forwarding_flag = False, no_x11_forwarding_flag = False,
     no_pty_flag = False, forced_command = None, permit_open_destinations = None, permit_listens = None,
     no_touch_required_flag = False, verify_required_flag = False, info_env = None\<rparr>"

text \<open>The options without a value, in the order of the code, and what they set.\<close>

definition plain_options :: "(bytes \<times> (PubKeyOptions \<Rightarrow> PubKeyOptions)) list" where
  "plain_options =
     [(lit ''no-port-forwarding'', \<lambda>po. po\<lparr>no_port_forwarding_flag := True\<rparr>),
      (lit ''no-agent-forwarding'', \<lambda>po. po\<lparr>no_agent_forwarding_flag := True\<rparr>),
      (lit ''no-X11-forwarding'', \<lambda>po. po),
      (lit ''no-pty'', \<lambda>po. po\<lparr>no_pty_flag := True\<rparr>),
      (lit ''restrict'', \<lambda>po. po\<lparr>no_port_forwarding_flag := True, no_agent_forwarding_flag := True, no_pty_flag := True\<rparr>)]"

definition sk_options :: "(bytes \<times> (PubKeyOptions \<Rightarrow> PubKeyOptions)) list" where
  "sk_options =
     [(lit ''no-touch-required'', \<lambda>po. po\<lparr>no_touch_required_flag := True\<rparr>),
      (lit ''verify-required'', \<lambda>po. po\<lparr>verify_required_flag := True\<rparr>)]"

fun match_plain :: "(bytes \<times> (PubKeyOptions \<Rightarrow> PubKeyOptions)) list \<Rightarrow> buffer \<Rightarrow> ((PubKeyOptions \<Rightarrow> PubKeyOptions) option \<times> buffer) res" where
  "match_plain [] b = Inr (None, b)"
| "match_plain ((name, f) # os) b =
     rbind (match_option b name) (\<lambda>(m, b). if m then Inr (Some f, b) else match_plain os b)"

text \<open>
  An option with a value: \<open>None\<close> when the name does not match, otherwise the new options, or
  \<open>None\<close> for a bad option, and the buffer.
\<close>

definition command_option :: "PubKeyOptions \<Rightarrow> buffer \<Rightarrow> (PubKeyOptions option \<times> buffer) res" where
  "command_option po b =
     rbind (buf_getptr b 0) (\<lambda>start.
     if forced_command po \<noteq> None then Inr (None, b)
     else
       rbind (scan_command False b) (\<lambda>(found, b).
       if \<not> found then Inr (None, b)
       else rbind (quoted_value b start) (\<lambda>v. Inr (Some (po\<lparr>forced_command := Some (v @ [0])\<rparr>), b))))"

definition permitopen_option :: "bool \<Rightarrow> PubKeyOptions \<Rightarrow> buffer \<Rightarrow> (PubKeyOptions option \<times> buffer) res" where
  "permitopen_option einval po b =
     rbind (buf_getptr b 0) (\<lambda>start.
     let es = (case permit_open_destinations po of None \<Rightarrow> [] | Some es \<Rightarrow> es) in
     rbind (scan_quote b) (\<lambda>(found, b).
     if \<not> found then Inr (None, b)
     else rbind (quoted_value b start) (\<lambda>v.
          Inr (map_option (\<lambda>entry. po\<lparr>permit_open_destinations := Some (es @ [entry])\<rparr>) (permitopen_entry einval v), b))))"

definition permitlisten_option :: "bool \<Rightarrow> PubKeyOptions \<Rightarrow> buffer \<Rightarrow> (PubKeyOptions option \<times> buffer) res" where
  "permitlisten_option einval po b =
     rbind (buf_getptr b 0) (\<lambda>start.
     let es = (case permit_listens po of None \<Rightarrow> [] | Some es \<Rightarrow> es) in
     rbind (scan_quote b) (\<lambda>(found, b).
     if \<not> found then Inr (None, b)
     else rbind (quoted_value b start) (\<lambda>v.
          Inr (map_option (\<lambda>port. po\<lparr>permit_listens := Some (es @ [\<lparr>fwd_host = None, fwd_port = port\<rparr>])\<rparr>)
                 (m_str_to_uint einval (v @ [0])), b))))"

text \<open>The body of the loop up to \<open>next_option\<close>; an unknown option leaves everything as it is.\<close>

definition parse_option :: "bool \<Rightarrow> PubKeyOptions \<Rightarrow> buffer \<Rightarrow> (PubKeyOptions option \<times> buffer) res" where
  "parse_option einval po b =
     rbind (match_plain plain_options b) (\<lambda>(r, b).
     case r of Some f \<Rightarrow> Inr (Some (f po), b)
     | None \<Rightarrow>
       rbind (match_option b (lit ''command='' @ [34])) (\<lambda>(m, b).
       if m then command_option po b
       else
         rbind (match_option b (lit ''permitopen='' @ [34])) (\<lambda>(m, b).
         if m then permitopen_option einval po b
         else
           rbind (match_option b (lit ''permitlisten='' @ [34])) (\<lambda>(m, b).
           if m then permitlisten_option einval po b
           else
             rbind (match_plain sk_options b) (\<lambda>(r, b).
             Inr (Some (case r of Some f \<Rightarrow> f po | None \<Rightarrow> po), b))))))"

text \<open>Every option moves the position forward, so that the loop ends.\<close>

definition moves :: "buffer \<Rightarrow> buffer \<Rightarrow> bool" where
  "moves b b' \<longleftrightarrow> (unat (buf_pos b) \<le> unat (buf_len b) \<longrightarrow>
     buf_len b' = buf_len b \<and> unat (buf_pos b) \<le> unat (buf_pos b') \<and> unat (buf_pos b') \<le> unat (buf_len b))"

lemma moves_refl [simp]: "moves b b"
  by (simp add: moves_def)

lemma moves_trans [trans]: "moves b b1 \<Longrightarrow> moves b1 b2 \<Longrightarrow> moves b b2"
  by (auto simp: moves_def)

lemma getbyte_moves: "buf_getbyte b = Inr (c, b') \<Longrightarrow> moves b b'"
  by (drule buf_getbyte_adv) (simp add: moves_def)

lemma match_option_moves:
  assumes "match_option b name = Inr (m, b')" shows "moves b b'"
proof (cases "b' = b")
  case False
  let ?n = "of_nat (length name) :: u32"
  have n: "\<not> buf_len b - buf_pos b < ?n" "buf_incrpos b ?n = Inr b'"
    using assms False by (auto simp: match_option_def Let_def elim!: rbind_InrE split: if_splits)
  then have b': "b' = b\<lparr>buf_pos := buf_pos b + ?n\<rparr>" by (auto simp: buf_incrpos_def split: if_splits)
  show ?thesis unfolding moves_def
  proof
    assume le: "unat (buf_pos b) \<le> unat (buf_len b)"
    then have "unat (buf_len b - buf_pos b) = unat (buf_len b) - unat (buf_pos b)" by (simp add: unat_sub32 wnat)
    then have "unat (buf_pos b) + unat ?n \<le> unat (buf_len b)" using n(1) le by (simp add: wnat)
    then show "buf_len b' = buf_len b \<and> unat (buf_pos b) \<le> unat (buf_pos b') \<and> unat (buf_pos b') \<le> unat (buf_len b)"
      using b' unsigned_less [of "buf_len b", where ?'a = nat] by (simp add: unat_add32)
  qed
qed simp

text \<open>\<open>steps b m\<close>: whatever \<open>m\<close> returns, its buffer is \<open>b\<close> moved forward.\<close>

definition steps :: "buffer \<Rightarrow> ('a \<times> buffer) res \<Rightarrow> bool" where
  "steps b m \<longleftrightarrow> (\<forall>r b'. m = Inr (r, b') \<longrightarrow> moves b b')"

lemma steps_simps [simp]: "steps b (Inr (r, b')) \<longleftrightarrow> moves b b'" "steps b (Inl e)"
  by (simp_all add: steps_def)

lemma steps_rbind: "steps b m \<Longrightarrow> (\<And>r b1. m = Inr (r, b1) \<Longrightarrow> steps b1 (f (r, b1))) \<Longrightarrow> steps b (rbind m f)"
  unfolding steps_def by (cases m) (auto intro: moves_trans)

lemma steps_value: "(\<And>x. steps b (f x)) \<Longrightarrow> steps b (rbind m f)"
  unfolding steps_def by (cases m) auto

lemma steps_if: "(c \<Longrightarrow> steps b m) \<Longrightarrow> (\<not> c \<Longrightarrow> steps b m') \<Longrightarrow> steps b (if c then m else m')"
  by simp

lemma steps_match: "steps b (match_option b name)"
  by (auto simp: steps_def dest: match_option_moves)

lemma steps_plain: "steps b (match_plain os b)"
proof (induction os arbitrary: b)
  case (Cons a os)
  then show ?case by (cases a) (auto intro!: steps_rbind [OF steps_match])
qed simp

lemma steps_getbyte: "steps b (buf_getbyte b)"
  by (auto simp: steps_def dest: getbyte_moves)

lemma steps_command: "steps b (scan_command esc b)"
proof (induction esc b rule: scan_command.induct)
  case (1 esc b)
  have ih: "steps b1 (scan_command (\<not> esc \<and> c = 92) b1)"
    if "buf_pos b < buf_len b" "buf_getbyte b = Inr (c, b1)" "\<not> (\<not> esc \<and> c = 34)" for c b1
    using 1 [OF that(1) _ refl that(3)] that(2) by auto
  show ?case
    apply (subst scan_command.simps)
    apply (rule steps_if, rule steps_rbind [OF steps_getbyte])
    using ih by simp_all
qed

lemma steps_quote: "steps b (scan_quote b)"
proof (induction b rule: scan_quote.induct)
  case (1 b)
  show ?case by (subst scan_quote.simps) (auto intro!: steps_rbind [OF steps_getbyte] 1)
qed

lemma steps_parse_option: "steps b (parse_option einval po b)"
proof -
  have 1: "steps b (command_option po b)" for b
    unfolding command_option_def
    by (rule steps_value, rule steps_if, simp, rule steps_rbind [OF steps_command]) (auto intro!: steps_value)
  have 2: "steps b (permitopen_option einval po b)" "steps b (permitlisten_option einval po b)" for b
    unfolding permitopen_option_def permitlisten_option_def Let_def
     apply (rule steps_value, rule steps_rbind [OF steps_quote], simp split del: if_split, rule steps_if, simp, rule steps_value, simp)
    by (rule steps_value, rule steps_rbind [OF steps_quote], simp split del: if_split, rule steps_if, simp, rule steps_value, simp)
  show ?thesis unfolding parse_option_def
    by (rule steps_rbind [OF steps_plain])
       (auto intro!: 1 2 steps_rbind [OF steps_plain] steps_rbind [OF steps_match] split: option.split)
qed

lemma parse_option_moves: "parse_option einval po b = Inr (r, b') \<Longrightarrow> moves b b'"
  using steps_parse_option [of b einval po] by (simp add: steps_def)

text \<open>The loop; \<open>None\<close> is a bad option.\<close>

function parse_options :: "bool \<Rightarrow> PubKeyOptions \<Rightarrow> buffer \<Rightarrow> PubKeyOptions option res" where
  "parse_options einval po b =
     (if buf_pos b < buf_len b
      then rbind (parse_option einval po b) (\<lambda>(r, b).
           case r of None \<Rightarrow> Inr None
           | Some po \<Rightarrow>
             if buf_pos b < buf_len b
             then rbind (buf_getbyte b) (\<lambda>(c, b). if c \<noteq> 44 then Inr None else parse_options einval po b)
             else Inr (Some po))
      else Inr (Some po))"
  by pat_completeness auto

termination
proof (relation "measure (\<lambda>(_, _, b). unat (buf_len b) - unat (buf_pos b))", goal_cases)
  case (2 einval po b x r b1 po1 y c b2)
  have "moves b b1" using 2 parse_option_moves [of einval po b r b1] by simp
  moreover have "buf_getbyte b1 = Inr (c, b2)" using 2 by simp
  ultimately show ?case using 2(1) buf_getbyte_adv [of b1 c b2] by (auto simp: moves_def wnat)
qed simp

declare parse_options.simps [simp del]

definition svr_parse_pubkey_options :: "bool \<Rightarrow> buffer option \<Rightarrow> PubKeyOptions option res" where
  "svr_parse_pubkey_options einval options_buf =
     (case options_buf of None \<Rightarrow> Inr (Some empty_options)
      | Some b \<Rightarrow> rbind (buf_setpos b 0) (\<lambda>b. parse_options einval empty_options b))"

end
