(* ===== verification/Pubkey_Options_Spec.thy ===== *)
theory Pubkey_Options_Spec
  imports Pubkey_Options
begin

text \<open>
  The meaning of the options of a public key, and that \<^verbatim>\<open>svr_parse_pubkey_options\<close> accepts exactly the
  texts of known options and gives their meaning.
\<close>

section \<open>Abstract syntax\<close>

datatype pk_option = NoPortForwarding | NoAgentForwarding | NoX11Forwarding | NoPty | Restrict
  | Command bytes | PermitOpen PermitTCPFwdEntry | PermitListen u32 | NoTouchRequired | VerifyRequired | Blank

definition ci_eq :: "bytes \<Rightarrow> bytes \<Rightarrow> bool" where
  "ci_eq a b \<longleftrightarrow> map tolower a = map tolower b"

text \<open>The position of the quote that ends a command: one that no backslash escapes.\<close>

fun cmd_end :: "bool \<Rightarrow> bytes \<Rightarrow> nat option" where
  "cmd_end esc [] = None"
| "cmd_end esc (c # cs) = (if \<not> esc \<and> c = 34 then Some 0 else map_option Suc (cmd_end (\<not> esc \<and> c = 92) cs))"

text \<open>\<open>opt_text einval opt t\<close>: \<open>t\<close> is a text of the option.\<close>

fun opt_text :: "bool \<Rightarrow> pk_option \<Rightarrow> bytes \<Rightarrow> bool" where
  "opt_text einval NoPortForwarding t \<longleftrightarrow> ci_eq t (lit ''no-port-forwarding'')"
| "opt_text einval NoAgentForwarding t \<longleftrightarrow> ci_eq t (lit ''no-agent-forwarding'')"
| "opt_text einval NoX11Forwarding t \<longleftrightarrow> ci_eq t (lit ''no-X11-forwarding'')"
| "opt_text einval NoPty t \<longleftrightarrow> ci_eq t (lit ''no-pty'')"
| "opt_text einval Restrict t \<longleftrightarrow> ci_eq t (lit ''restrict'')"
| "opt_text einval (Command c) t \<longleftrightarrow> (\<exists>q. t = q @ c @ [34] \<and> ci_eq q (lit ''command='' @ [34]) \<and> cmd_end False (c @ [34]) = Some (length c))"
| "opt_text einval (PermitOpen entry) t \<longleftrightarrow> (\<exists>q v. t = q @ v @ [34] \<and> ci_eq q (lit ''permitopen='' @ [34]) \<and> 34 \<notin> set v
     \<and> permitopen_entry einval v = Some entry)"
| "opt_text einval (PermitListen port) t \<longleftrightarrow> (\<exists>q v. t = q @ v @ [34] \<and> ci_eq q (lit ''permitlisten='' @ [34]) \<and> 34 \<notin> set v
     \<and> m_str_to_uint einval (v @ [0]) = Some port)"
| "opt_text einval NoTouchRequired t \<longleftrightarrow> ci_eq t (lit ''no-touch-required'')"
| "opt_text einval VerifyRequired t \<longleftrightarrow> ci_eq t (lit ''verify-required'')"
| "opt_text einval Blank t \<longleftrightarrow> t = []"

text \<open>What an option sets; a second command is refused.\<close>

fun apply_option :: "pk_option \<Rightarrow> PubKeyOptions \<Rightarrow> PubKeyOptions option" where
  "apply_option NoPortForwarding po = Some (po\<lparr>no_port_forwarding_flag := True\<rparr>)"
| "apply_option NoAgentForwarding po = Some (po\<lparr>no_agent_forwarding_flag := True\<rparr>)"
| "apply_option NoX11Forwarding po = Some po"
| "apply_option NoPty po = Some (po\<lparr>no_pty_flag := True\<rparr>)"
| "apply_option Restrict po = Some (po\<lparr>no_port_forwarding_flag := True, no_agent_forwarding_flag := True, no_pty_flag := True\<rparr>)"
| "apply_option (Command c) po = (if forced_command po \<noteq> None then None else Some (po\<lparr>forced_command := Some (c @ [0])\<rparr>))"
| "apply_option (PermitOpen entry) po = Some (po\<lparr>permit_open_destinations :=
     Some ((case permit_open_destinations po of None \<Rightarrow> [] | Some es \<Rightarrow> es) @ [entry])\<rparr>)"
| "apply_option (PermitListen port) po = Some (po\<lparr>permit_listens :=
     Some ((case permit_listens po of None \<Rightarrow> [] | Some es \<Rightarrow> es) @ [\<lparr>fwd_host = None, fwd_port = port\<rparr>])\<rparr>)"
| "apply_option NoTouchRequired po = Some (po\<lparr>no_touch_required_flag := True\<rparr>)"
| "apply_option VerifyRequired po = Some (po\<lparr>verify_required_flag := True\<rparr>)"
| "apply_option Blank po = Some po"

fun apply_options :: "pk_option list \<Rightarrow> PubKeyOptions \<Rightarrow> PubKeyOptions option" where
  "apply_options [] po = Some po"
| "apply_options (opt # os) po = (case apply_option opt po of None \<Rightarrow> None | Some po \<Rightarrow> apply_options os po)"

fun comma_join :: "bytes list \<Rightarrow> bytes" where
  "comma_join [] = []"
| "comma_join [t] = t"
| "comma_join (t # ts) = t @ 44 # comma_join ts"

section \<open>Matching\<close>

definition ci_prefix :: "bytes \<Rightarrow> bytes \<Rightarrow> bool" where
  "ci_prefix name xs \<longleftrightarrow> length name \<le> length xs \<and> ci_eq (take (length name) xs) name"

lemma reads_len: "reads b xs \<Longrightarrow> unat (buf_len b) = unat (buf_pos b) + length xs" "reads b xs \<Longrightarrow> length xs \<le> 1000000000"
  using buf_wf_bounds [of b] by (auto simp: reads_def buf_rest_length)

lemma reads_more: "reads b xs \<Longrightarrow> buf_pos b < buf_len b \<longleftrightarrow> xs \<noteq> []"
  using reads_len(1) [of b xs] by (simp add: wnat)

lemma reads_drop: "reads b xs \<Longrightarrow> n \<le> length xs \<Longrightarrow> reads (buf_adv b n) (drop n xs)"
  using reads_adv [of b "take n xs" "drop n xs"] by simp

lemma match_option_reads:
  assumes r: "reads b xs" and n: "length name \<le> 1000"
  shows "match_option b name = Inr (if ci_prefix name xs then (True, buf_adv b (length name)) else (False, b))"
proof -
  have u: "unat (of_nat (length name) :: u32) = length name" using n by simp
  have l: "unat (buf_len b - buf_pos b) = length xs" using reads_len(1) [OF r] by (simp add: unat_sub32 wnat)
  have w: "buf_wf b" "buf_rest b = xs" using r by (simp_all add: reads_def)
  show ?thesis
  proof (cases "length name \<le> length xs")
    case True
    then show ?thesis using u l w buf_read_eq [of b "length name"]
      by (simp add: match_option_def Let_def wnat buf_getptr_eq buf_incrpos_eq ci_prefix_def ci_eq_def del: mem_read_ok)
  qed (use u l in \<open>simp add: match_option_def Let_def wnat ci_prefix_def\<close>)
qed

lemma scan_command_reads:
  "reads b xs \<Longrightarrow> case cmd_end esc xs of None \<Rightarrow> \<exists>b'. scan_command esc b = Inr (False, b') \<and> reads b' []
     | Some n \<Rightarrow> n < length xs \<and> scan_command esc b = Inr (True, buf_adv b (Suc n))"
proof (induction xs arbitrary: esc b)
  case Nil
  then show ?case using reads_more [OF Nil] by (simp add: scan_command.simps)
next
  case (Cons c xs)
  have g: "buf_getbyte b = Inr (c, buf_adv b 1)" "reads (buf_adv b 1) xs" using getbyte_reads [OF Cons(2)] by simp_all
  have s: "scan_command esc b = (if \<not> esc \<and> c = 34 then Inr (True, buf_adv b 1) else scan_command (\<not> esc \<and> c = 92) (buf_adv b 1))"
    using reads_more [OF Cons(2)] by (subst scan_command.simps) (simp add: g)
  show ?case using Cons(1) [OF g(2), of "\<not> esc \<and> c = 92"] unfolding s by (auto simp: buf_adv_adv split: option.splits)
qed

lemma scan_quote_reads:
  "reads b xs \<Longrightarrow> if 34 \<in> set xs then scan_quote b = Inr (True, buf_adv b (Suc (length (takeWhile (\<lambda>c. c \<noteq> 34) xs))))
     else \<exists>b'. scan_quote b = Inr (False, b') \<and> reads b' []"
proof (induction xs arbitrary: b)
  case Nil
  then show ?case using reads_more [OF Nil] by (simp add: scan_quote.simps)
next
  case (Cons c xs)
  have g: "buf_getbyte b = Inr (c, buf_adv b 1)" "reads (buf_adv b 1) xs" using getbyte_reads [OF Cons(2)] by simp_all
  have s: "scan_quote b = (if c = 34 then Inr (True, buf_adv b 1) else scan_quote (buf_adv b 1))"
    using reads_more [OF Cons(2)] by (subst scan_quote.simps) (simp add: g)
  show ?case using Cons(1) [OF g(2)] by (auto simp: s buf_adv_adv split: if_splits)
qed

lemma quoted_value_reads:
  assumes "reads b xs" "n < length xs"
  shows "quoted_value (buf_adv b (Suc n)) (unat (buf_pos b)) = Inr (take n xs)"
proof -
  have w: "buf_wf b" "buf_rest b = xs" "buf_wf (buf_adv b (Suc n))" using assms by (auto simp: reads_def)
  have p: "unat (buf_pos (buf_adv b (Suc n))) = unat (buf_pos b) + Suc n" using assms w by (intro buf_adv_pos) auto
  show ?thesis using buf_read_eq [OF w(1), of n] w assms(2) p by (simp add: quoted_value_def buf_getptr_eq [OF w(3)])
qed

section \<open>One option\<close>

text \<open>The option at the head of a text and the text after it; \<open>None\<close> for a bad value.\<close>

definition lex_value :: "bool \<Rightarrow> bytes \<Rightarrow> bytes \<Rightarrow> pk_option option \<times> bytes" where
  "lex_value einval name ys =
     (let v = takeWhile (\<lambda>c. c \<noteq> 34) ys; rest = drop (Suc (length v)) ys; c = cmd_end False ys in
      if name = lit ''command='' @ [34] then (map_option (\<lambda>n. Command (take n ys)) c, case c of None \<Rightarrow> [] | Some n \<Rightarrow> drop (Suc n) ys)
      else if 34 \<notin> set ys then (None, [])
      else if name = lit ''permitopen='' @ [34] then (map_option PermitOpen (permitopen_entry einval v), rest)
      else (map_option PermitListen (m_str_to_uint einval (v @ [0])), rest))"

definition lex_option :: "bool \<Rightarrow> bytes \<Rightarrow> pk_option option \<times> bytes" where
  "lex_option einval xs =
     (let starts = (\<lambda>name. ci_prefix (lit name) xs); after = (\<lambda>name. drop (length (lit name)) xs) in
      if starts ''no-port-forwarding'' then (Some NoPortForwarding, after ''no-port-forwarding'')
      else if starts ''no-agent-forwarding'' then (Some NoAgentForwarding, after ''no-agent-forwarding'')
      else if starts ''no-X11-forwarding'' then (Some NoX11Forwarding, after ''no-X11-forwarding'')
      else if starts ''no-pty'' then (Some NoPty, after ''no-pty'')
      else if starts ''restrict'' then (Some Restrict, after ''restrict'')
      else if ci_prefix (lit ''command='' @ [34]) xs then lex_value einval (lit ''command='' @ [34]) (drop 9 xs)
      else if ci_prefix (lit ''permitopen='' @ [34]) xs then lex_value einval (lit ''permitopen='' @ [34]) (drop 12 xs)
      else if ci_prefix (lit ''permitlisten='' @ [34]) xs then lex_value einval (lit ''permitlisten='' @ [34]) (drop 14 xs)
      else if starts ''no-touch-required'' then (Some NoTouchRequired, after ''no-touch-required'')
      else if starts ''verify-required'' then (Some VerifyRequired, after ''verify-required'')
      else (Some Blank, xs))"

lemma ci_prefix_reads: "reads b xs \<Longrightarrow> ci_prefix name xs \<Longrightarrow> reads (buf_adv b (length name)) (drop (length name) xs)"
  by (rule reads_drop) (simp_all add: ci_prefix_def)

definition lexed :: "PubKeyOptions \<Rightarrow> (pk_option option \<times> bytes) \<Rightarrow> (PubKeyOptions option \<times> buffer) res \<Rightarrow> bool" where
  "lexed po l m \<longleftrightarrow> (\<exists>r b'. m = Inr (r, b') \<and> r = Option.bind (fst l) (\<lambda>opt. apply_option opt po) \<and> (r \<noteq> None \<longrightarrow> reads b' (snd l)))"

lemma command_option_reads:
  assumes "reads b ys" shows "lexed po (lex_value e (lit ''command='' @ [34]) ys) (command_option po b)"
proof -
  have p: "buf_getptr b 0 = Inr (unat (buf_pos b))" using assms by (simp add: reads_def buf_getptr_eq)
  show ?thesis
  proof (cases "forced_command po")
    case None
    show ?thesis using scan_command_reads [OF assms, of False] quoted_value_reads [OF assms] reads_drop [OF assms] None
      by (auto simp: command_option_def p lex_value_def lexed_def split: option.splits)
  next
    case (Some c)
    then show ?thesis by (cases "cmd_end False ys") (auto simp: command_option_def p lex_value_def lexed_def)
  qed
qed

lemma permit_option_reads:
  assumes "reads b ys"
  shows "lexed po (lex_value e (lit ''permitopen='' @ [34]) ys) (permitopen_option e po b)"
    "lexed po (lex_value e (lit ''permitlisten='' @ [34]) ys) (permitlisten_option e po b)"
proof -
  have p: "buf_getptr b 0 = Inr (unat (buf_pos b))" using assms by (simp add: reads_def buf_getptr_eq)
  have ne: "lit ''permitopen='' @ [34] \<noteq> lit ''command='' @ [34]" "lit ''permitlisten='' @ [34] \<noteq> lit ''command='' @ [34]"
    "lit ''permitlisten='' @ [34] \<noteq> lit ''permitopen='' @ [34]" by (simp_all add: lit_def)
  let ?v = "takeWhile (\<lambda>c. c \<noteq> 34) ys"
  have q: "34 \<in> set ys \<Longrightarrow> length ?v < length ys" by (induction ys) auto
  have tk: "take (length ?v) ys = ?v" by (simp add: takeWhile_eq_take [symmetric])
  note facts = scan_quote_reads [OF assms] quoted_value_reads [OF assms q] reads_drop [OF assms, of "Suc (length ?v)"] q
  show "lexed po (lex_value e (lit ''permitopen='' @ [34]) ys) (permitopen_option e po b)"
    using facts unfolding permitopen_option_def p lex_value_def if_not_P [OF ne(1)] Let_def lexed_def
    by (cases "34 \<in> set ys"; cases "permitopen_entry e ?v") (auto simp: tk)
  show "lexed po (lex_value e (lit ''permitlisten='' @ [34]) ys) (permitlisten_option e po b)"
    using facts unfolding permitlisten_option_def p lex_value_def if_not_P [OF ne(2)] if_not_P [OF ne(3)] Let_def lexed_def
    by (cases "34 \<in> set ys"; cases "m_str_to_uint e (?v @ [0])") (auto simp: tk)
qed

lemma parse_option_reads:
  assumes "reads b xs" shows "lexed po (lex_option e xs) (parse_option e po b)"
proof -
  have m: "match_option b (lit ''command='' @ [34]) = Inr (if ci_prefix (lit ''command='' @ [34]) xs then (True, buf_adv b 9) else (False, b))"
    "match_option b (lit ''permitopen='' @ [34]) = Inr (if ci_prefix (lit ''permitopen='' @ [34]) xs then (True, buf_adv b 12) else (False, b))"
    "match_option b (lit ''permitlisten='' @ [34]) = Inr (if ci_prefix (lit ''permitlisten='' @ [34]) xs then (True, buf_adv b 14) else (False, b))"
    by (simp_all add: match_option_reads [OF assms] numeral_eq_Suc)
  have mp: "match_option b (lit n) = Inr (if ci_prefix (lit n) xs then (True, buf_adv b (length (lit n))) else (False, b))"
    if "length n \<le> 1000" for n by (rule match_option_reads [OF assms]) (use that in simp)
  note adv = ci_prefix_reads [OF assms]
  have v: "reads (buf_adv b 9) (drop 9 xs)" if "ci_prefix (lit ''command='' @ [34]) xs" using adv [OF that] by (simp add: numeral_eq_Suc)
  have v2: "reads (buf_adv b 12) (drop 12 xs)" if "ci_prefix (lit ''permitopen='' @ [34]) xs" using adv [OF that] by (simp add: numeral_eq_Suc)
  have v3: "reads (buf_adv b 14) (drop 14 xs)" if "ci_prefix (lit ''permitlisten='' @ [34]) xs" using adv [OF that] by (simp add: numeral_eq_Suc)
  have lx: "lexed po (Some opt, drop (length (lit n)) xs) (Inr (Some po', buf_adv b (length (lit n))))"
    if "ci_prefix (lit n) xs" "apply_option opt po = Some po'" for n opt po'
    using adv [OF that(1)] that(2) by (simp add: lexed_def)
  have bl: "lexed po (Some Blank, xs) (Inr (Some po, b))" using assms by (simp add: lexed_def)
  note defs = parse_option_def mp m lex_option_def plain_options_def sk_options_def
  consider (1) "ci_prefix (lit ''no-port-forwarding'')xs"
    | (2) "\<not> ci_prefix (lit ''no-port-forwarding'')xs" "ci_prefix (lit ''no-agent-forwarding'')xs"
    | (3) "\<not> ci_prefix (lit ''no-port-forwarding'')xs" "\<not> ci_prefix (lit ''no-agent-forwarding'')xs" "ci_prefix (lit ''no-X11-forwarding'')xs"
    | (4) "\<not> ci_prefix (lit ''no-port-forwarding'')xs" "\<not> ci_prefix (lit ''no-agent-forwarding'')xs" "\<not> ci_prefix (lit ''no-X11-forwarding'')xs" "ci_prefix (lit ''no-pty'')xs"
    | (5) "\<not> ci_prefix (lit ''no-port-forwarding'')xs" "\<not> ci_prefix (lit ''no-agent-forwarding'')xs" "\<not> ci_prefix (lit ''no-X11-forwarding'')xs" "\<not> ci_prefix (lit ''no-pty'')xs" "ci_prefix (lit ''restrict'')xs"
    | (6) "\<not> ci_prefix (lit ''no-port-forwarding'')xs" "\<not> ci_prefix (lit ''no-agent-forwarding'')xs" "\<not> ci_prefix (lit ''no-X11-forwarding'')xs" "\<not> ci_prefix (lit ''no-pty'')xs" "\<not> ci_prefix (lit ''restrict'')xs" "ci_prefix (lit ''command='' @ [34]) xs"
    | (7) "\<not> ci_prefix (lit ''no-port-forwarding'')xs" "\<not> ci_prefix (lit ''no-agent-forwarding'')xs" "\<not> ci_prefix (lit ''no-X11-forwarding'')xs" "\<not> ci_prefix (lit ''no-pty'')xs" "\<not> ci_prefix (lit ''restrict'')xs" "\<not> ci_prefix (lit ''command='' @ [34]) xs" "ci_prefix (lit ''permitopen='' @ [34]) xs"
    | (8) "\<not> ci_prefix (lit ''no-port-forwarding'')xs" "\<not> ci_prefix (lit ''no-agent-forwarding'')xs" "\<not> ci_prefix (lit ''no-X11-forwarding'')xs" "\<not> ci_prefix (lit ''no-pty'')xs" "\<not> ci_prefix (lit ''restrict'')xs" "\<not> ci_prefix (lit ''command='' @ [34]) xs" "\<not> ci_prefix (lit ''permitopen='' @ [34]) xs" "ci_prefix (lit ''permitlisten='' @ [34]) xs"
    | (9) "\<not> ci_prefix (lit ''no-port-forwarding'')xs" "\<not> ci_prefix (lit ''no-agent-forwarding'')xs" "\<not> ci_prefix (lit ''no-X11-forwarding'')xs" "\<not> ci_prefix (lit ''no-pty'')xs" "\<not> ci_prefix (lit ''restrict'')xs" "\<not> ci_prefix (lit ''command='' @ [34]) xs" "\<not> ci_prefix (lit ''permitopen='' @ [34]) xs" "\<not> ci_prefix (lit ''permitlisten='' @ [34]) xs" "ci_prefix (lit ''no-touch-required'')xs"
    | (10) "\<not> ci_prefix (lit ''no-port-forwarding'')xs" "\<not> ci_prefix (lit ''no-agent-forwarding'')xs" "\<not> ci_prefix (lit ''no-X11-forwarding'')xs" "\<not> ci_prefix (lit ''no-pty'')xs" "\<not> ci_prefix (lit ''restrict'')xs" "\<not> ci_prefix (lit ''command='' @ [34]) xs" "\<not> ci_prefix (lit ''permitopen='' @ [34]) xs" "\<not> ci_prefix (lit ''permitlisten='' @ [34]) xs" "\<not> ci_prefix (lit ''no-touch-required'')xs" "ci_prefix (lit ''verify-required'')xs"
    | (11) "\<not> ci_prefix (lit ''no-port-forwarding'')xs" "\<not> ci_prefix (lit ''no-agent-forwarding'')xs" "\<not> ci_prefix (lit ''no-X11-forwarding'')xs" "\<not> ci_prefix (lit ''no-pty'')xs" "\<not> ci_prefix (lit ''restrict'')xs" "\<not> ci_prefix (lit ''command='' @ [34]) xs" "\<not> ci_prefix (lit ''permitopen='' @ [34]) xs" "\<not> ci_prefix (lit ''permitlisten='' @ [34]) xs" "\<not> ci_prefix (lit ''no-touch-required'')xs" "\<not> ci_prefix (lit ''verify-required'')xs"
    by blast
  then show ?thesis
  proof cases
    case 1
    show ?thesis using lx [OF 1(1), of NoPortForwarding] by (simp add: defs 1(1))
  next
    case 2
    show ?thesis using lx [OF 2(2), of NoAgentForwarding] by (simp add: defs 2(1) 2(2))
  next
    case 3
    show ?thesis using lx [OF 3(3), of NoX11Forwarding] by (simp add: defs 3(1) 3(2) 3(3))
  next
    case 4
    show ?thesis using lx [OF 4(4), of NoPty] by (simp add: defs 4(1) 4(2) 4(3) 4(4))
  next
    case 5
    show ?thesis using lx [OF 5(5), of Restrict] by (simp add: defs 5(1) 5(2) 5(3) 5(4) 5(5))
  next
    case 6
    show ?thesis using command_option_reads [OF v [OF 6(6)]] by (simp add: defs 6(1) 6(2) 6(3) 6(4) 6(5) 6(6))
  next
    case 7
    show ?thesis using permit_option_reads(1) [OF v2 [OF 7(7)]] by (simp add: defs 7(1) 7(2) 7(3) 7(4) 7(5) 7(6) 7(7))
  next
    case 8
    show ?thesis using permit_option_reads(2) [OF v3 [OF 8(8)]] by (simp add: defs 8(1) 8(2) 8(3) 8(4) 8(5) 8(6) 8(7) 8(8))
  next
    case 9
    show ?thesis using lx [OF 9(9), of NoTouchRequired] by (simp add: defs 9(1) 9(2) 9(3) 9(4) 9(5) 9(6) 9(7) 9(8) 9(9))
  next
    case 10
    show ?thesis using lx [OF 10(10), of VerifyRequired] by (simp add: defs 10(1) 10(2) 10(3) 10(4) 10(5) 10(6) 10(7) 10(8) 10(9) 10(10))
  next
    case 11
    show ?thesis using bl by (simp add: defs 11(1) 11(2) 11(3) 11(4) 11(5) 11(6) 11(7) 11(8) 11(9) 11(10))
  qed
qed

section \<open>Recognition\<close>

text \<open>No name is the beginning of another, whatever the case of the letters.\<close>

definition clash :: "bytes \<Rightarrow> bytes \<Rightarrow> bool" where
  "clash m n \<longleftrightarrow> list_ex (\<lambda>(a, c). tolower a \<noteq> tolower c) (zip m n)"

definition option_names :: "bytes list" where
  "option_names = [lit ''no-port-forwarding'', lit ''no-agent-forwarding'', lit ''no-X11-forwarding'', lit ''no-pty'', lit ''restrict'',
     lit ''command='' @ [34], lit ''permitopen='' @ [34], lit ''permitlisten='' @ [34], lit ''no-touch-required'', lit ''verify-required'']"

fun all_clash :: "bytes list \<Rightarrow> bool" where
  "all_clash [] \<longleftrightarrow> True"
| "all_clash (n # ns) \<longleftrightarrow> list_all (clash n) ns \<and> all_clash ns"

lemma names_clash: "all_clash option_names"
  by code_simp

lemma ci_eq_nth: "ci_eq a c \<longleftrightarrow> length a = length c \<and> (\<forall>i<length c. tolower (a ! i) = tolower (c ! i))"
  by (auto simp: ci_eq_def list_eq_iff_nth_eq)

lemma clash_not_prefix:
  assumes c: "clash m n" and q: "ci_eq q n" shows "\<not> ci_prefix m (q @ ys)"
proof
  assume p: "ci_prefix m (q @ ys)"
  obtain i where i: "i < length m" "i < length n" "tolower (m ! i) \<noteq> tolower (n ! i)"
    using c by (auto simp: clash_def list_ex_iff set_zip)
  have "tolower ((q @ ys) ! i) = tolower (m ! i)" using p i(1) by (simp add: ci_prefix_def ci_eq_nth del: take_append)
  moreover have "(q @ ys) ! i = q ! i" "tolower (q ! i) = tolower (n ! i)" using q i(2) by (auto simp: ci_eq_nth nth_append)
  ultimately show False using i(3) by simp
qed

lemma ci_prefix_append: "ci_eq q n \<Longrightarrow> ci_prefix n (q @ ys)" "ci_eq q n \<Longrightarrow> length q = length n"
  by (auto simp: ci_prefix_def ci_eq_nth nth_append)

lemma ci_prefix_blank:
  assumes "rest = [] \<or> hd rest = 44" "m \<noteq> []" "tolower (hd m) \<noteq> 44" shows "\<not> ci_prefix m rest"
  using assms by (cases m; cases rest) (auto simp: ci_prefix_def ci_eq_def tolower_def)

lemma ci_prefix_split: "ci_prefix n xs \<Longrightarrow> \<exists>q. xs = q @ drop (length n) xs \<and> ci_eq q n"
  by (rule exI [of _ "take (length n) xs"]) (simp add: ci_prefix_def)

lemma cmd_end_take:
  "cmd_end esc ys = Some n \<Longrightarrow> n < length ys \<and> ys ! n = 34 \<and> cmd_end esc (take n ys @ [34]) = Some n"
  by (induction esc ys arbitrary: n rule: cmd_end.induct) (auto split: if_splits)

lemma cmd_end_append: "cmd_end esc ys = Some n \<Longrightarrow> cmd_end esc (ys @ zs) = Some n"
  by (induction esc ys arbitrary: n rule: cmd_end.induct) (auto split: if_splits)

lemma split_quote: "34 \<in> set ys \<Longrightarrow> ys = takeWhile (\<lambda>c. c \<noteq> 34) ys @ [34] @ drop (Suc (length (takeWhile (\<lambda>c. c \<noteq> 34) ys))) ys"
  by (induction ys) auto

lemma lex_value_sound:
  assumes l: "lex_value e name ys = (Some opt, rest)" and q: "ci_eq q name"
    and n: "name \<in> {lit ''command='' @ [34], lit ''permitopen='' @ [34], lit ''permitlisten='' @ [34]}"
  shows "\<exists>t. ys = t @ rest \<and> opt_text e opt (q @ t)"
proof -
  have ne: "lit ''permitopen='' @ [34] \<noteq> lit ''command='' @ [34]" "lit ''permitlisten='' @ [34] \<noteq> lit ''command='' @ [34]"
    "lit ''permitlisten='' @ [34] \<noteq> lit ''permitopen='' @ [34]" by (simp_all add: lit_def)
  let ?v = "takeWhile (\<lambda>c. c \<noteq> 34) ys"
  have v: "34 \<notin> set ?v" by (auto dest: set_takeWhileD)
  consider (1) "name = lit ''command='' @ [34]" | (2) "name = lit ''permitopen='' @ [34]" | (3) "name = lit ''permitlisten='' @ [34]"
    using n by blast
  then show ?thesis
  proof cases
    case 1
    then obtain k where k: "cmd_end False ys = Some k" "opt = Command (take k ys)" "rest = drop (Suc k) ys"
      using l by (auto simp: lex_value_def Let_def split: option.splits)
    note t = cmd_end_take [OF k(1)]
    have "ys = (take k ys @ [34]) @ rest" using t k(3) id_take_nth_drop [of k ys] by simp
    then show ?thesis using t q k(2) 1 by (intro exI [of _ "take k ys @ [34]"]) auto
  next
    case 2
    then have k: "34 \<in> set ys" "map_option PermitOpen (permitopen_entry e ?v) = Some opt" "rest = drop (Suc (length ?v)) ys"
      using l ne by (auto simp: lex_value_def Let_def split: if_splits)
    then obtain z where "opt = PermitOpen z" "permitopen_entry e ?v = Some z" by blast
    moreover from this have "opt_text e (PermitOpen z) (q @ ?v @ [34])" using v q 2 unfolding opt_text.simps by blast
    ultimately have "opt_text e opt (q @ ?v @ [34])" by simp
    then show ?thesis using split_quote [OF k(1)] k(3) by (intro exI [of _ "?v @ [34]"]) simp
  next
    case 3
    then have k: "34 \<in> set ys" "map_option PermitListen (m_str_to_uint e (?v @ [0])) = Some opt" "rest = drop (Suc (length ?v)) ys"
      using l ne by (auto simp: lex_value_def Let_def split: if_splits)
    then obtain z where "opt = PermitListen z" "m_str_to_uint e (?v @ [0]) = Some z" by blast
    moreover from this have "opt_text e (PermitListen z) (q @ ?v @ [34])" using v q 3 unfolding opt_text.simps by blast
    ultimately have "opt_text e opt (q @ ?v @ [34])" by simp
    then show ?thesis using split_quote [OF k(1)] k(3) by (intro exI [of _ "?v @ [34]"]) simp
  qed
qed

lemma if_eqE: "(if c then a else b) = r \<Longrightarrow> (c \<Longrightarrow> a = r \<Longrightarrow> P) \<Longrightarrow> (\<not> c \<Longrightarrow> b = r \<Longrightarrow> P) \<Longrightarrow> P"
  by (cases c) auto

lemma lex_sound:
  assumes "lex_option e xs = (Some opt, rest)" shows "\<exists>t. xs = t @ rest \<and> opt_text e opt t"
proof -
  have plain: "\<exists>t. xs = t @ drop (length (lit n)) xs \<and> ci_eq t (lit n)" if "ci_prefix (lit n) xs" for n
    using ci_prefix_split [OF that] by blast
  have val: "\<exists>t. xs = t @ rest \<and> opt_text e opt t"
    if p: "ci_prefix name xs" "lex_value e name (drop (length name) xs) = (Some opt, rest)"
      "name \<in> {lit ''command='' @ [34], lit ''permitopen='' @ [34], lit ''permitlisten='' @ [34]}" for name
  proof -
    obtain q where q: "xs = q @ drop (length name) xs" "ci_eq q name" using ci_prefix_split [OF p(1)] by blast
    obtain t where "drop (length name) xs = t @ rest" "opt_text e opt (q @ t)" using lex_value_sound [OF p(2) q(2) p(3)] by blast
    then show ?thesis using q(1) by (intro exI [of _ "q @ t"]) simp
  qed
  note vals = val [of "lit ''command='' @ [34]"] val [of "lit ''permitopen='' @ [34]"] val [of "lit ''permitlisten='' @ [34]"]
  have named: "\<exists>t. xs = t @ rest \<and> opt_text e opt t"
    if "ci_prefix (lit n) xs" "(Some o', drop (length (lit n)) xs) = (Some opt, rest)" "\<And>t. opt_text e o' t \<longleftrightarrow> ci_eq t (lit n)" for n o'
    using plain [OF that(1)] that(2,3) by auto
  show ?thesis using assms unfolding lex_option_def Let_def
    apply -
    apply (erule if_eqE, erule named, assumption, simp)+
    apply (erule if_eqE, rule vals(1), assumption, simp add: numeral_eq_Suc, simp)
    apply (erule if_eqE, rule vals(2), assumption, simp add: numeral_eq_Suc, simp)
    apply (erule if_eqE, rule vals(3), assumption, simp add: numeral_eq_Suc, simp)
    apply (erule if_eqE, erule named, assumption, simp)+
    by auto
qed

lemma lex_value_complete:
  "cmd_end False (c @ [34]) = Some (length c) \<Longrightarrow> lex_value e (lit ''command='' @ [34]) (c @ 34 # rest) = (Some (Command c), rest)"
  "34 \<notin> set v \<Longrightarrow> permitopen_entry e v = Some entry \<Longrightarrow>
     lex_value e (lit ''permitopen='' @ [34]) (v @ 34 # rest) = (Some (PermitOpen entry), rest)"
  "34 \<notin> set v \<Longrightarrow> m_str_to_uint e (v @ [0]) = Some port \<Longrightarrow>
     lex_value e (lit ''permitlisten='' @ [34]) (v @ 34 # rest) = (Some (PermitListen port), rest)"
proof -
  have ne: "lit ''permitopen='' @ [34] \<noteq> lit ''command='' @ [34]" "lit ''permitlisten='' @ [34] \<noteq> lit ''command='' @ [34]"
    "lit ''permitlisten='' @ [34] \<noteq> lit ''permitopen='' @ [34]" by (simp_all add: lit_def)
  have tw: "takeWhile (\<lambda>c. c \<noteq> 34) (v @ 34 # rest) = v" if "34 \<notin> set v" using that by (induction v) auto
  show "cmd_end False (c @ [34]) = Some (length c) \<Longrightarrow> lex_value e (lit ''command='' @ [34]) (c @ 34 # rest) = (Some (Command c), rest)"
    using cmd_end_append [of False "c @ [34]" "length c" rest] by (simp add: lex_value_def)
  show "34 \<notin> set v \<Longrightarrow> permitopen_entry e v = Some entry \<Longrightarrow>
     lex_value e (lit ''permitopen='' @ [34]) (v @ 34 # rest) = (Some (PermitOpen entry), rest)"
    using tw unfolding lex_value_def if_not_P [OF ne(1)] by simp
  show "34 \<notin> set v \<Longrightarrow> m_str_to_uint e (v @ [0]) = Some port \<Longrightarrow>
     lex_value e (lit ''permitlisten='' @ [34]) (v @ 34 # rest) = (Some (PermitListen port), rest)"
    using tw unfolding lex_value_def if_not_P [OF ne(2)] if_not_P [OF ne(3)] by simp
qed

lemma lex_complete:
  assumes t: "opt_text e opt t" and rest: "rest = [] \<or> hd rest = 44" shows "lex_option e (t @ rest) = (Some opt, rest)"
proof -
  note cl = names_clash [unfolded option_names_def all_clash.simps list.pred_inject]
  have no: "\<not> ci_prefix m (q @ ys)" if "ci_eq q n" "clash m n" for m n q ys using clash_not_prefix that by blast
  have command: "lex_option e (q @ c @ 34 # rest) = lex_value e (lit ''command='' @ [34]) (c @ 34 # rest)"
    if q: "ci_eq q (lit ''command='' @ [34])" for q c
  proof -
    have "length q = 9" using ci_prefix_append(2) [OF q] by (simp add: numeral_eq_Suc)
    then show ?thesis by (simp add: lex_option_def Let_def no [OF q] cl ci_prefix_append(1) [OF q])
  qed
  have permitopen: "lex_option e (q @ c @ 34 # rest) = lex_value e (lit ''permitopen='' @ [34]) (c @ 34 # rest)"
    if q: "ci_eq q (lit ''permitopen='' @ [34])" for q c
  proof -
    have "length q = 12" using ci_prefix_append(2) [OF q] by (simp add: numeral_eq_Suc)
    then show ?thesis by (simp add: lex_option_def Let_def no [OF q] cl ci_prefix_append(1) [OF q])
  qed
  have permitlisten: "lex_option e (q @ c @ 34 # rest) = lex_value e (lit ''permitlisten='' @ [34]) (c @ 34 # rest)"
    if q: "ci_eq q (lit ''permitlisten='' @ [34])" for q c
  proof -
    have "length q = 14" using ci_prefix_append(2) [OF q] by (simp add: numeral_eq_Suc)
    then show ?thesis by (simp add: lex_option_def Let_def no [OF q] cl ci_prefix_append(1) [OF q])
  qed
  have plain: "ci_prefix (lit n) (t @ rest)" "drop (length n) (t @ rest) = rest" if "ci_eq t (lit n)" for n
    using ci_prefix_append [OF that] by simp_all
  show ?thesis
  proof (cases opt)
    case (Command c)
    then show ?thesis using t command lex_value_complete(1) by auto
  next
    case (PermitOpen entry)
    then show ?thesis using t permitopen lex_value_complete(2) by auto
  next
    case (PermitListen port)
    then show ?thesis using t permitlisten lex_value_complete(3) by auto
  next
    case Blank
    then show ?thesis using t ci_prefix_blank [OF rest] by (simp add: lex_option_def Let_def lit_def tolower_def)
  next
    case NoPortForwarding
    then have q: "ci_eq t (lit ''no-port-forwarding'')" using t by simp
    then show ?thesis using plain [OF q] unfolding lex_option_def Let_def length_lit by (simp add: NoPortForwarding)
  next
    case NoAgentForwarding
    then have q: "ci_eq t (lit ''no-agent-forwarding'')" using t by simp
    show ?thesis unfolding lex_option_def Let_def length_lit plain(2) [OF q] by (simp add: NoAgentForwarding no [OF q] cl plain(1) [OF q])
  next
    case NoX11Forwarding
    then have q: "ci_eq t (lit ''no-X11-forwarding'')" using t by simp
    show ?thesis unfolding lex_option_def Let_def length_lit plain(2) [OF q] by (simp add: NoX11Forwarding no [OF q] cl plain(1) [OF q])
  next
    case NoPty
    then have q: "ci_eq t (lit ''no-pty'')" using t by simp
    show ?thesis unfolding lex_option_def Let_def length_lit plain(2) [OF q] by (simp add: NoPty no [OF q] cl plain(1) [OF q])
  next
    case Restrict
    then have q: "ci_eq t (lit ''restrict'')" using t by simp
    show ?thesis unfolding lex_option_def Let_def length_lit plain(2) [OF q] by (simp add: Restrict no [OF q] cl plain(1) [OF q])
  next
    case NoTouchRequired
    then have q: "ci_eq t (lit ''no-touch-required'')" using t by simp
    show ?thesis unfolding lex_option_def Let_def length_lit plain(2) [OF q] by (simp add: NoTouchRequired no [OF q] cl plain(1) [OF q])
  next
    case VerifyRequired
    then have q: "ci_eq t (lit ''verify-required'')" using t by simp
    show ?thesis unfolding lex_option_def Let_def length_lit plain(2) [OF q] by (simp add: VerifyRequired no [OF q] cl plain(1) [OF q])
  qed
qed

section \<open>The list of options\<close>

lemma parse_options_step:
  assumes "reads b xs" "xs \<noteq> []"
  obtains (bad) "parse_options e po b = Inr None" "Option.bind (fst (lex_option e xs)) (\<lambda>opt. apply_option opt po) = None"
  | (last) opt po' where "lex_option e xs = (Some opt, [])" "apply_option opt po = Some po'" "parse_options e po b = Inr (Some po')"
  | (comma) opt po' rest b' where "lex_option e xs = (Some opt, 44 # rest)" "apply_option opt po = Some po'" "reads b' rest"
      "parse_options e po b = parse_options e po' b'"
  | (junk) opt c rest where "lex_option e xs = (Some opt, c # rest)" "c \<noteq> 44" "parse_options e po b = Inr None"
proof -
  obtain r b1 where p: "parse_option e po b = Inr (r, b1)" "r = Option.bind (fst (lex_option e xs)) (\<lambda>opt. apply_option opt po)"
    "r \<noteq> None \<longrightarrow> reads b1 (snd (lex_option e xs))" using parse_option_reads [OF assms(1), of po e] by (auto simp: lexed_def)
  note st = parse_options.simps [of e po b] reads_more [OF assms(1)] assms(2) p(1)
  show thesis
  proof (cases r)
    case None
    then show ?thesis using bad p(2) st by simp
  next
    case (Some po')
    then obtain opt where o: "fst (lex_option e xs) = Some opt" "apply_option opt po = Some po'" using p(2) by (auto simp: bind_eq_Some_conv)
    obtain rest where l: "lex_option e xs = (Some opt, rest)" using o(1) by (metis prod.collapse)
    have r1: "reads b1 rest" using p(3) Some l by simp
    show ?thesis
    proof (cases rest)
      case Nil
      then show ?thesis using last [OF l [unfolded Nil] o(2)] st Some reads_more [OF r1] by simp
    next
      case (Cons c ys)
      have g: "buf_getbyte b1 = Inr (c, buf_adv b1 1)" "reads (buf_adv b1 1) ys" using getbyte_reads [OF r1 [unfolded Cons]] by simp_all
      have eq: "parse_options e po b = (if c \<noteq> 44 then Inr None else parse_options e po' (buf_adv b1 1))"
        using st Some Cons reads_more [OF r1] g(1) by simp
      show ?thesis using junk [of opt c ys] comma [of opt ys po' "buf_adv b1 1"] l Cons o(2) g(2) eq by (cases "c = 44") auto
    qed
  qed
qed

lemma lex_shrinks: "lex_option e xs = (Some opt, rest) \<Longrightarrow> length rest \<le> length xs"
  using lex_sound [of e xs opt rest] by auto

text \<open>The meaning of a text: what its comma separated options set, one after the other.\<close>

definition options_text :: "bool \<Rightarrow> bytes \<Rightarrow> PubKeyOptions \<Rightarrow> PubKeyOptions \<Rightarrow> bool" where
  "options_text e xs po po' \<longleftrightarrow> (\<exists>os ts. ts \<noteq> [] \<and> list_all2 (opt_text e) os ts \<and> xs = comma_join ts \<and> apply_options os po = Some po')"

lemma options_text_Nil: "options_text e [] po po"
  unfolding options_text_def by (intro exI [of _ "[Blank]"] exI [of _ "[[]]"]) simp

lemma options_text_one: "opt_text e opt t \<Longrightarrow> apply_option opt po = Some po' \<Longrightarrow> options_text e t po po'"
  unfolding options_text_def by (intro exI [of _ "[opt]"] exI [of _ "[t]"]) simp

lemma options_text_comma:
  assumes "opt_text e opt t" "apply_option opt po = Some po1" "options_text e rest po1 po'"
  shows "options_text e (t @ 44 # rest) po po'"
proof -
  obtain os ts where o: "ts \<noteq> []" "list_all2 (opt_text e) os ts" "rest = comma_join ts" "apply_options os po1 = Some po'"
    using assms(3) by (auto simp: options_text_def)
  then show ?thesis unfolding options_text_def using assms(1,2)
    by (intro exI [of _ "opt # os"] exI [of _ "t # ts"]) (cases ts, simp_all)
qed

lemma parse_options_total_sound:
  "reads b xs \<Longrightarrow> \<exists>r. parse_options e po b = Inr r \<and> (\<forall>po'. r = Some po' \<longrightarrow> options_text e xs po po')"
proof (induction "length xs" arbitrary: xs b po rule: less_induct)
  case less
  show ?case
  proof (cases "xs = []")
    case True
    then show ?thesis using reads_more [OF less.prems] options_text_Nil by (subst parse_options.simps) simp
  next
    case False
    show ?thesis
    proof (rule parse_options_step [OF less.prems False, of e po])
      fix opt po' assume a: "lex_option e xs = (Some opt, [])" "apply_option opt po = Some po'" "parse_options e po b = Inr (Some po')"
      then show ?thesis using lex_sound [OF a(1)] options_text_one by auto
    next
      fix opt po1 rest b' assume a: "lex_option e xs = (Some opt, 44 # rest)" "apply_option opt po = Some po1" "reads b' rest"
        "parse_options e po b = parse_options e po1 b'"
      obtain t where t: "xs = t @ 44 # rest" "opt_text e opt t" using lex_sound [OF a(1)] by blast
      from less.hyps [of rest b' po1] a(3) t(1) obtain r where "parse_options e po1 b' = Inr r" "\<forall>po'. r = Some po' \<longrightarrow> options_text e rest po1 po'" by auto
      then show ?thesis using a(4) t options_text_comma [OF t(2) a(2)] by auto
    qed auto
  qed
qed

lemma parse_options_complete:
  "ts \<noteq> [] \<Longrightarrow> list_all2 (opt_text e) os ts \<Longrightarrow> reads b (comma_join ts) \<Longrightarrow> apply_options os po = Some po' \<Longrightarrow> parse_options e po b = Inr (Some po')"
proof (induction ts arbitrary: os b po)
  case (Cons t ts)
  obtain opt os' po1 where o: "os = opt # os'" "opt_text e opt t" "list_all2 (opt_text e) os' ts"
    "apply_option opt po = Some po1" "apply_options os' po1 = Some po'"
    using Cons.prems(2,4) by (auto simp: list_all2_Cons2 split: option.splits)
  define rest where "rest = (if ts = [] then [] else 44 # comma_join ts)"
  have j: "comma_join (t # ts) = t @ rest" by (cases ts) (simp_all add: rest_def)
  have l: "lex_option e (t @ rest) = (Some opt, rest)" by (rule lex_complete [OF o(2)]) (simp add: rest_def)
  show ?case
  proof (cases "t @ rest = []")
    case True
    then have "parse_options e po b = Inr (Some po)" using reads_more [OF Cons.prems(3)] j by (subst parse_options.simps) simp
    moreover have "opt = Blank" using True o(2) by (cases opt) (auto simp: ci_eq_def lit_def)
    ultimately show ?thesis using True o j by (auto simp: rest_def split: if_splits)
  next
    case False
    have r: "reads b (t @ rest)" using Cons.prems(3) j by simp
    show ?thesis
    proof (rule parse_options_step [OF r False, of e po])
      fix opt' po2 rest' b' assume a: "lex_option e (t @ rest) = (Some opt', 44 # rest')" "apply_option opt' po = Some po2" "reads b' rest'"
        "parse_options e po b = parse_options e po2 b'"
      then have "ts \<noteq> []" "rest' = comma_join ts" "po2 = po1" using l o(4) by (auto simp: rest_def split: if_splits)
      then show ?thesis using Cons.IH [of os' b' po1] a(3,4) o(3,5) by simp
    qed (use l o in \<open>auto simp: rest_def split: if_splits\<close>)
  qed
qed simp

lemma parse_options_text:
  assumes "buf_wf b"
  shows "\<exists>r. svr_parse_pubkey_options e (Some b) = Inr r \<and> (\<forall>po. r = Some po \<longleftrightarrow>
    (\<exists>os ts. ts \<noteq> [] \<and> list_all2 (opt_text e) os ts \<and> buf_content b = comma_join ts \<and> apply_options os empty_options = Some po))"
proof -
  let ?b = "b\<lparr>buf_pos := 0\<rparr>"
  have s: "buf_setpos b 0 = Inr ?b" by (simp add: buf_setpos_def)
  have r: "reads ?b (buf_content b)" using assms by (simp add: reads_def buf_wf_def buf_rest_def buf_content_def)
  obtain x where x: "parse_options e empty_options ?b = Inr x" "\<forall>po'. x = Some po' \<longrightarrow> options_text e (buf_content b) empty_options po'"
    using parse_options_total_sound [OF r, of e empty_options] by blast
  have "x = Some po" if "ts \<noteq> []" "list_all2 (opt_text e) os ts" "buf_content b = comma_join ts" "apply_options os empty_options = Some po" for os ts po
    using parse_options_complete [OF that(1,2) _ that(4), of ?b] r that(3) x(1) by simp
  then show ?thesis using x s unfolding options_text_def by (intro exI [of _ x]) (auto simp: svr_parse_pubkey_options_def)
qed

text \<open>
  C31. \<^verbatim>\<open>svr_parse_pubkey_options\<close> always returns, without leaving the buffer, and accepts exactly the texts
  of comma separated known options (empty ones included): the options it gives are what these set
  one after the other, with at most one command. An unknown option, a bad value and a second
  command are refused.
\<close>

theorem parse_pubkey_options_correct:
  assumes "buf_wf b"
  shows "\<exists>r. svr_parse_pubkey_options e (Some b) = Inr r \<and> (\<forall>po. r = Some po \<longleftrightarrow>
    (\<exists>os ts. ts \<noteq> [] \<and> list_all2 (opt_text e) os ts \<and> buf_content b = comma_join ts \<and> apply_options os empty_options = Some po))"
  by (rule parse_options_text [OF assms])

section \<open>Restrictions\<close>

definition open_entries :: "pk_option list \<Rightarrow> PermitTCPFwdEntry list" where
  "open_entries os = concat (map (\<lambda>opt. case opt of PermitOpen entry \<Rightarrow> [entry] | _ \<Rightarrow> []) os)"

definition listen_ports :: "pk_option list \<Rightarrow> u32 list" where
  "listen_ports os = concat (map (\<lambda>opt. case opt of PermitListen port \<Rightarrow> [port] | _ \<Rightarrow> []) os)"

lemma apply_flags:
  "apply_options os po = Some po' \<Longrightarrow>
     (no_port_forwarding_flag po' \<longleftrightarrow> no_port_forwarding_flag po \<or> NoPortForwarding \<in> set os \<or> Restrict \<in> set os)
   \<and> (no_agent_forwarding_flag po' \<longleftrightarrow> no_agent_forwarding_flag po \<or> NoAgentForwarding \<in> set os \<or> Restrict \<in> set os)
   \<and> (no_pty_flag po' \<longleftrightarrow> no_pty_flag po \<or> NoPty \<in> set os \<or> Restrict \<in> set os)
   \<and> (forced_command po' \<noteq> None \<longleftrightarrow> forced_command po \<noteq> None \<or> (\<exists>c. Command c \<in> set os))"
proof (induction os arbitrary: po)
  case (Cons opt os)
  then show ?case by (cases opt) (auto split: option.splits if_splits)
qed simp

lemma apply_permits:
  "apply_options os po = Some po' \<Longrightarrow>
     permit_open_destinations po' = (if open_entries os = [] then permit_open_destinations po
       else Some ((case permit_open_destinations po of None \<Rightarrow> [] | Some es \<Rightarrow> es) @ open_entries os))
   \<and> permit_listens po' = (if listen_ports os = [] then permit_listens po
       else Some ((case permit_listens po of None \<Rightarrow> [] | Some es \<Rightarrow> es) @ map (\<lambda>port. \<lparr>fwd_host = None, fwd_port = port\<rparr>) (listen_ports os)))"
proof (induction os arbitrary: po)
  case (Cons opt os)
  then show ?case by (cases opt) (force simp: open_entries_def listen_ports_def split: option.splits if_splits)+
qed (simp add: open_entries_def listen_ports_def)

lemma open_entries_iff: "entry \<in> set (open_entries os) \<longleftrightarrow> PermitOpen entry \<in> set os"
  unfolding open_entries_def by (induction os) (auto split: pk_option.splits)

lemma listen_ports_iff: "port \<in> set (listen_ports os) \<longleftrightarrow> PermitListen port \<in> set os"
  unfolding listen_ports_def by (induction os) (auto split: pk_option.splits)

lemma permitopen_host: "permitopen_entry e v = Some entry \<Longrightarrow> fwd_host entry \<noteq> None"
  unfolding permitopen_entry_def by (auto split: option.splits if_splits)

lemma open_entry_host: "list_all2 (opt_text e) os ts \<Longrightarrow> PermitOpen entry \<in> set os \<Longrightarrow> fwd_host entry \<noteq> None"
proof (induction rule: list_all2_induct)
  case (Cons x xs y ys)
  then show ?case using permitopen_host [of e _ entry] by auto
qed simp


section \<open>A line\<close>

definition demo_line :: bytes where
  "demo_line = lit ''No-Pty,permitopen='' @ [34] @ lit ''a:22'' @ [34]"

definition demo_line_buf :: buffer where
  "demo_line_buf = \<lparr>buf_data = demo_line, buf_len = of_nat (length demo_line), buf_pos = 0, buf_size = of_nat (length demo_line)\<rparr>"

definition demo_options :: PubKeyOptions where
  "demo_options = empty_options\<lparr>no_pty_flag := True,
     permit_open_destinations := Some [\<lparr>fwd_host = Some (lit ''a'' @ [0]), fwd_port = 22\<rparr>]\<rparr>"

lemma demo_line_ok: "buf_wf demo_line_buf" "buf_content demo_line_buf = demo_line"
  by (simp_all add: demo_line_buf_def demo_line_def buf_wf_def buf_content_def BUF_MAX_SIZE_def lit_def)

lemma demo_entry: "permitopen_entry False (lit ''a:22'') = Some \<lparr>fwd_host = Some (lit ''a'' @ [0]), fwd_port = 22\<rparr>"
  by (simp add: permitopen_entry_def split_address_port_def cstr_def lit_def m_str_to_uint_def strtoul_def isspace_def isdigit_def)

lemma demo_line_options:
  "list_all2 (opt_text False) [NoPty, PermitOpen \<lparr>fwd_host = Some (lit ''a'' @ [0]), fwd_port = 22\<rparr>]
     [lit ''No-Pty'', lit ''permitopen='' @ [34] @ lit ''a:22'' @ [34]]"
proof -
  have "ci_eq (lit ''No-Pty'') (lit ''no-pty'')" "34 \<notin> set (lit ''a:22'')" by (simp_all add: ci_eq_def lit_def tolower_def)
  moreover have "opt_text False (PermitOpen \<lparr>fwd_host = Some (lit ''a'' @ [0]), fwd_port = 22\<rparr>) (lit ''permitopen='' @ [34] @ lit ''a:22'' @ [34])"
    unfolding opt_text.simps using demo_entry \<open>34 \<notin> _\<close>
    by (intro exI [of _ "lit ''permitopen='' @ [34]"] exI [of _ "lit ''a:22''"]) (simp add: ci_eq_def)
  ultimately show ?thesis by simp
qed

lemma demo_line_meaning:
  "\<exists>os ts. ts \<noteq> [] \<and> list_all2 (opt_text False) os ts \<and> buf_content demo_line_buf = comma_join ts
      \<and> apply_options os empty_options = Some demo_options"
proof -
  let ?os = "[NoPty, PermitOpen \<lparr>fwd_host = Some (lit ''a'' @ [0]), fwd_port = 22\<rparr>]"
  let ?ts = "[lit ''No-Pty'', lit ''permitopen='' @ [34] @ lit ''a:22'' @ [34]]"
  have "buf_content demo_line_buf = comma_join ?ts" by (simp add: demo_line_ok demo_line_def lit_def)
  moreover have "apply_options ?os empty_options = Some demo_options" by (simp add: demo_options_def empty_options_def)
  ultimately show ?thesis using demo_line_options by (intro exI [of _ ?os] exI [of _ ?ts] conjI) simp_all
qed

theorem parse_pubkey_options_correct_witness:
  "svr_parse_pubkey_options False (Some demo_line_buf) = Inr (Some demo_options)"
  using parse_pubkey_options_correct [OF demo_line_ok(1), of False] demo_line_meaning by metis


end
