(* ===== verification/Listener.thy ===== *)
theory Listener
  imports Channel
begin

text \<open>
  The listening sockets of a session, \<^verbatim>\<open>listener.c\<close>. A \<^verbatim>\<open>struct Listener *\<close> is the number of its slot in
  \<^verbatim>\<open>ses.listeners\<close>; the functions a listener points to are run by an argument.
\<close>

definition MAX_LISTENERS :: u32 where "MAX_LISTENERS = 20"
definition LISTENER_EXTEND_SIZE :: u32 where "LISTENER_EXTEND_SIZE = 1"
definition LISTENER_TYPE_TCPFORWARDED :: u32 where "LISTENER_TYPE_TCPFORWARDED = 1"
definition LISTENER_TYPE_STREAMFORWARDED :: u32 where "LISTENER_TYPE_STREAMFORWARDED = 2"

type_synonym ('c, 'z) run_acceptor = "acceptor \<Rightarrow> Listener \<Rightarrow> int \<Rightarrow> ('c, 'z) session \<Rightarrow> ('c, 'z) session res"

definition get_lst :: "nat \<Rightarrow> ('c, 'z) session \<Rightarrow> Listener res" where
  "get_lst i s = (case (if i < length (ses_listeners s) then ses_listeners s ! i else None) of
     None \<Rightarrow> Inl NullDeref | Some l \<Rightarrow> Inr l)"

text \<open>The descriptors of the listeners in use.\<close>

definition set_listener_fds :: "('c, 'z) session \<Rightarrow> int list res" where
  "set_listener_fds s =
     (if length (ses_listeners s) < unat (ses_listensize s) then Inl OutOfBounds
      else let ls = List.map_filter id (take (unat (ses_listensize s)) (ses_listeners s)) in
           if \<exists>l\<in>set ls. length (l_socks l) < unat (l_nsocks l) then Inl OutOfBounds
           else Inr (concat (map (\<lambda>l. take (unat (l_nsocks l)) (l_socks l)) ls)))"

text \<open>The two loops of \<^verbatim>\<open>handle_listeners\<close>: over the sockets of a listener and over the listeners.\<close>

function handle_socks :: "('c, 'z) run_acceptor \<Rightarrow> (int \<Rightarrow> bool) \<Rightarrow> nat \<Rightarrow> nat \<Rightarrow> ('c, 'z) session \<Rightarrow> ('c, 'z) session res" where
  "handle_socks acc readfds i j s =
     rbind (get_lst i s) (\<lambda>l.
     if j < unat (l_nsocks l)
     then if length (l_socks l) \<le> j then Inl OutOfBounds
          else let sock = l_socks l ! j in
               rbind (if readfds sock then acc (l_acceptor l) l sock s else Inr s) (\<lambda>s. handle_socks acc readfds i (Suc j) s)
     else Inr s)"
  by pat_completeness auto

termination
proof (relation "measure (\<lambda>(_, _, _, j, _). 2 ^ 32 - j)", goal_cases)
  case (2 acc readfds i j s l sock s')
  then have "j < 2 ^ 32" using unsigned_less [of "l_nsocks l", where ?'a = nat] by simp
  then show ?case by simp
qed simp

function handle_listeners_loop :: "('c, 'z) run_acceptor \<Rightarrow> (int \<Rightarrow> bool) \<Rightarrow> nat \<Rightarrow> ('c, 'z) session \<Rightarrow> ('c, 'z) session res" where
  "handle_listeners_loop acc readfds i s =
     (if i < unat (ses_listensize s)
      then if length (ses_listeners s) \<le> i then Inl OutOfBounds
           else rbind (if ses_listeners s ! i = None then Inr s else handle_socks acc readfds i 0 s) (\<lambda>s.
                handle_listeners_loop acc readfds (Suc i) s)
      else Inr s)"
  by pat_completeness auto

termination
proof (relation "measure (\<lambda>(_, _, i, _). 2 ^ 32 - i)", goal_cases)
  case (2 acc readfds i s s')
  then have "i < 2 ^ 32" using unsigned_less [of "ses_listensize s", where ?'a = nat] by simp
  then show ?case by simp
qed simp

declare handle_socks.simps [simp del] handle_listeners_loop.simps [simp del]

definition handle_listeners :: "('c, 'z) run_acceptor \<Rightarrow> (int \<Rightarrow> bool) \<Rightarrow> ('c, 'z) session \<Rightarrow> ('c, 'z) session res" where
  "handle_listeners acc readfds s = handle_listeners_loop acc readfds 0 s"

definition free_listener :: "Listener option list \<Rightarrow> nat" where
  "free_listener ls = length (takeWhile (\<lambda>l. l \<noteq> None) ls)"

definition close_socks :: "int list \<Rightarrow> ('c, 'z) session \<Rightarrow> ('c, 'z) session" where
  "close_socks socks s = fold close_fd socks s"

text \<open>The slot of the new listener, or \<open>None\<close> after closing the sockets.\<close>

definition new_listener :: "int list \<Rightarrow> u32 \<Rightarrow> u32 \<Rightarrow> FwdListener option \<Rightarrow> acceptor \<Rightarrow> cleanup option
    \<Rightarrow> ('c, 'z) session \<Rightarrow> (nat option \<times> ('c, 'z) session) res" where
  "new_listener socks nsocks ty typedata acceptor cleanup s =
     (let sz = unat (ses_listensize s); n = unat nsocks in
      if length (ses_listeners s) < sz then Inl OutOfBounds
      else
        let i = free_listener (take sz (ses_listeners s)) in
        if length socks < n then Inl OutOfBounds
        else if i = sz \<and> ses_listensize s > MAX_LISTENERS then Inr (None, close_socks (take n socks) s)
        else
          let s = (if i = sz then s\<lparr>ses_listeners := take sz (ses_listeners s) @ replicate (unat LISTENER_EXTEND_SIZE) None,
                       ses_listensize := ses_listensize s + LISTENER_EXTEND_SIZE\<rparr> else s);
              s = s\<lparr>ses_maxfd := fold max (take n socks) (ses_maxfd s)\<rparr> in
          if DROPBEAR_MAX_SOCKS < n then Inl OutOfBounds
          else
            let l = \<lparr>l_socks = take n socks @ replicate (DROPBEAR_MAX_SOCKS - n) 0, l_nsocks = nsocks, l_index = i,
                     l_acceptor = acceptor, l_cleanup = cleanup, l_type = ty, l_typedata = typedata\<rparr> in
            Inr (Some i, s\<lparr>ses_listeners := (ses_listeners s)[i := Some l]\<rparr>))"

text \<open>The first listener of the type whose data matches.\<close>

fun find_listener :: "Listener option list \<Rightarrow> nat \<Rightarrow> u32 \<Rightarrow> (FwdListener option \<Rightarrow> bool res) \<Rightarrow> nat option res" where
  "find_listener [] i ty mt = Inr None"
| "find_listener (None # ls) i ty mt = find_listener ls (Suc i) ty mt"
| "find_listener (Some l # ls) i ty mt =
     (if l_type l \<noteq> ty then find_listener ls (Suc i) ty mt
      else rbind (mt (l_typedata l)) (\<lambda>m. if m then Inr (Some i) else find_listener ls (Suc i) ty mt))"

definition get_listener :: "u32 \<Rightarrow> (FwdListener option \<Rightarrow> bool res) \<Rightarrow> ('c, 'z) session \<Rightarrow> nat option res" where
  "get_listener ty mt s =
     (if length (ses_listeners s) < unat (ses_listensize s) then Inl OutOfBounds
      else find_listener (take (unat (ses_listensize s)) (ses_listeners s)) 0 ty mt)"

text \<open>\<^verbatim>\<open>cleanup_tcp\<close> only frees memory; \<^verbatim>\<open>cleanup_streamlocal\<close> removes the socket file.\<close>

definition cleanup_tcp :: "Listener \<Rightarrow> ('c, 'z) session \<Rightarrow> ('c, 'z) session res" where
  "cleanup_tcp l s = (case l_typedata l of None \<Rightarrow> Inl NullDeref | Some tcpinfo \<Rightarrow> Inr s)"

definition unlink_streamsocket :: "bytes \<Rightarrow> ('c, 'z) session \<Rightarrow> ('c, 'z) session" where
  "unlink_streamsocket path s = log_event (EvUnlink (cstr path)) s"

definition cleanup_streamlocal :: "Listener \<Rightarrow> ('c, 'z) session \<Rightarrow> ('c, 'z) session res" where
  "cleanup_streamlocal l s =
     (case l_typedata l of None \<Rightarrow> Inl NullDeref
      | Some tcpinfo \<Rightarrow>
        Inr (case fl_socket_path tcpinfo of None \<Rightarrow> s | Some path \<Rightarrow> unlink_streamsocket path s))"

definition remove_listener :: "nat \<Rightarrow> ('c, 'z) session \<Rightarrow> ('c, 'z) session res" where
  "remove_listener i s =
     rbind (get_lst i s) (\<lambda>l.
     rbind (case l_cleanup l of None \<Rightarrow> Inr s
            | Some Cleanup_tcp \<Rightarrow> cleanup_tcp l s
            | Some Cleanup_streamlocal \<Rightarrow> cleanup_streamlocal l s) (\<lambda>s.
     if length (l_socks l) < unat (l_nsocks l) \<or> length (ses_listeners s) \<le> l_index l then Inl OutOfBounds
     else Inr ((close_socks (take (unat (l_nsocks l)) (l_socks l)) s)
                 \<lparr>ses_listeners := (ses_listeners s)[l_index l := None]\<rparr>)))"

fun remove_listeners :: "nat list \<Rightarrow> ('c, 'z) session \<Rightarrow> ('c, 'z) session res" where
  "remove_listeners [] s = Inr s"
| "remove_listeners (i # is) s =
     (if length (ses_listeners s) \<le> i then Inl OutOfBounds
      else rbind (if ses_listeners s ! i \<noteq> None then remove_listener i s else Inr s) (\<lambda>s. remove_listeners is s))"

definition remove_all_listeners :: "('c, 'z) session \<Rightarrow> ('c, 'z) session res" where
  "remove_all_listeners s =
     rbind (remove_listeners [0..<unat (ses_listensize s)] s) (\<lambda>s. Inr (s\<lparr>ses_listeners := []\<rparr>))"

end
