(* ===== verification/Forward.thy ===== *)
theory Forward
  imports Listener Pubkey_Options
begin

text \<open>
  Forwarding on a server: TCP (\<^verbatim>\<open>svr-tcpfwd.c\<close>, \<^verbatim>\<open>tcp-accept.c\<close>), Unix sockets (\<^verbatim>\<open>svr-streamfwd.c\<close>) and
  the global requests that start and stop it (\<^verbatim>\<open>svr-forward.c\<close>).
\<close>

record svr_opts =
  svr_nolocaltcp :: bool
  svr_noremotefwd :: bool
  svr_forced_command :: "bytes option"
  svr_interface :: "bytes option"
  opts_listen_fwd_all :: bool

definition MAX_HOST_LEN :: u32 where "MAX_HOST_LEN = 254"
definition MAX_NAME_LEN :: u32 where "MAX_NAME_LEN = 64"
definition IPPORT_RESERVED :: u32 where "IPPORT_RESERVED = 1024"
definition SSH_OPEN_ADMINISTRATIVELY_PROHIBITED :: int where "SSH_OPEN_ADMINISTRATIVELY_PROHIBITED = 1"
definition CHANNEL_ID_STREAMLOCALFORWARDED :: u32 where "CHANNEL_ID_STREAMLOCALFORWARDED = 0x53747265"

text \<open>The decimal digits of a number, as \<^verbatim>\<open>snprintf\<close> writes them, and \<^verbatim>\<open>atol\<close> of a string.\<close>

fun decimal :: "nat \<Rightarrow> bytes" where
  "decimal n = (if n < 10 then [of_nat (48 + n)] else decimal (n div 10) @ [of_nat (48 + n mod 10)])"

declare decimal.simps [simp del]

definition atol :: "bytes \<Rightarrow> int" where
  "atol str =
     (let t = dropWhile isspace (cstr str);
          neg = (t \<noteq> [] \<and> hd t = 45);
          u = (if t \<noteq> [] \<and> (hd t = 45 \<or> hd t = 43) then tl t else t);
          v = foldl (\<lambda>n d. 10 * n + int (unat d - 48)) 0 (takeWhile isdigit u) in
      if neg then - v else v)"

section \<open>Channel types\<close>

text \<open>The numbers of the channel types in the table that section \<open>Interpretation\<close> builds.\<close>

definition CT_TCPDIRECT :: nat where "CT_TCPDIRECT = 0"
definition CT_STREAMLOCAL :: nat where "CT_STREAMLOCAL = 1"
definition CT_TCPREMOTE :: nat where "CT_TCPREMOTE = 2"
definition CT_STREAMLOCALREMOTE :: nat where "CT_STREAMLOCALREMOTE = 3"

definition CT_AGENT :: nat where "CT_AGENT = 4"

definition chan_svr_agent :: "('c, 'z) ChanType" where
  "chan_svr_agent = \<lparr>ct_name = lit ''auth-agent@openssh.com'', ct_inithandler = None, ct_check_close = None,
     ct_reqhandler = None, ct_closehandler = None, ct_cleanup = None\<rparr>"

definition svr_chan_tcpremote :: "('c, 'z) ChanType" where
  "svr_chan_tcpremote = \<lparr>ct_name = lit ''forwarded-tcpip'', ct_inithandler = None, ct_check_close = None,
     ct_reqhandler = None, ct_closehandler = None, ct_cleanup = None\<rparr>"

definition svr_chan_streamlocalremote :: "('c, 'z) ChanType" where
  "svr_chan_streamlocalremote = \<lparr>ct_name = lit ''forwarded-streamlocal@openssh.com'', ct_inithandler = None, ct_check_close = None,
     ct_reqhandler = None, ct_closehandler = None, ct_cleanup = None\<rparr>"

text \<open>\<^verbatim>\<open>newtcpdirect\<close>: the strings and ports of the request are checked, then a connection is started.\<close>

definition newtcpdirect :: "net \<Rightarrow> svr_opts \<Rightarrow> nat \<Rightarrow> ('c, 'z) session \<Rightarrow> (int \<times> ('c, 'z) session) res" where
  "newtcpdirect nt so i s =
     (let prohibited = (\<lambda>s. Inr (SSH_OPEN_ADMINISTRATIVELY_PROHIBITED, s)) in
      if svr_nolocaltcp so \<or> \<not> svr_pubkey_allows_tcpfwd s then prohibited s
      else case ses_payload s of None \<Rightarrow> Inl NullDeref
      | Some payload \<Rightarrow>
        rbind (buf_getstring payload) (\<lambda>(desthost, len, payload).
        if len > MAX_HOST_LEN then prohibited (s\<lparr>ses_payload := Some payload\<rparr>)
        else
          rbind (buf_getint payload) (\<lambda>(destport, payload).
          rbind (buf_getstring payload) (\<lambda>(orighost, len, payload).
          if len > MAX_HOST_LEN then prohibited (s\<lparr>ses_payload := Some payload\<rparr>)
          else
            rbind (buf_getint payload) (\<lambda>(origport, payload).
            let s = s\<lparr>ses_payload := Some payload\<rparr> in
            if origport > 65535 \<or> destport > 65535 then prohibited s
            else
              rbind (svr_pubkey_allows_local_tcpfwd desthost destport s) (\<lambda>ok.
              if \<not> ok then prohibited s
              else
                let (k, s) = connect_remote nt (cstr desthost) (decimal (unat destport)) (Channel_connect_done i) None None PRIO_NORMAL s in
                rbind (upd_chan i (\<lambda>ch. ch\<lparr>ch_conn_pending := Some k\<rparr>) s) (\<lambda>s.
                Inr (SSH_OPEN_IN_PROGRESS, s))))))))"

definition svr_chan_tcpdirect :: "net \<Rightarrow> svr_opts \<Rightarrow> ('c, 'z) ChanType" where
  "svr_chan_tcpdirect nt so = \<lparr>ct_name = lit ''direct-tcpip'', ct_inithandler = Some (newtcpdirect nt so), ct_check_close = None,
     ct_reqhandler = None, ct_closehandler = None, ct_cleanup = None\<rparr>"

definition newstreamlocal :: "svr_opts \<Rightarrow> nat \<Rightarrow> ('c, 'z) session \<Rightarrow> (int \<times> ('c, 'z) session) res" where
  "newstreamlocal so i s =
     (let prohibited = (\<lambda>s. Inr (SSH_OPEN_ADMINISTRATIVELY_PROHIBITED, s)) in
      if svr_forced_command so \<noteq> None \<or> svr_pubkey_has_forced_command s then prohibited s
      else if svr_nolocaltcp so \<or> \<not> svr_pubkey_allows_tcpfwd s then prohibited s
      else case ses_payload s of None \<Rightarrow> Inl NullDeref
      | Some payload \<Rightarrow>
        rbind (buf_getstring payload) (\<lambda>(destsocket, len, payload).
        let s = s\<lparr>ses_payload := Some payload\<rparr> in
        if len > MAX_HOST_LEN then prohibited s
        else
          let (k, s) = connect_streamlocal destsocket (Channel_connect_done i) PRIO_NORMAL s in
          rbind (upd_chan i (\<lambda>ch. ch\<lparr>ch_conn_pending := Some k\<rparr>) s) (\<lambda>s.
          Inr (SSH_OPEN_IN_PROGRESS, s))))"

definition svr_chan_streamlocal :: "svr_opts \<Rightarrow> ('c, 'z) ChanType" where
  "svr_chan_streamlocal so = \<lparr>ct_name = lit ''direct-streamlocal@openssh.com'', ct_inithandler = Some (newstreamlocal so), ct_check_close = None,
     ct_reqhandler = None, ct_closehandler = None, ct_cleanup = None\<rparr>"

section \<open>Accepting\<close>

text \<open>A \<^verbatim>\<open>char *\<close> at \<open>addr\<close> and its length.\<close>

definition put_cstring :: "buffer \<Rightarrow> bytes \<Rightarrow> buffer res" where
  "put_cstring wp str = buf_putstring wp (cstr str @ [0]) (of_nat (length (cstr str)))"

definition tcp_acceptor :: "'z env \<Rightarrow> net \<Rightarrow> ('c, 'z) chan_env \<Rightarrow> Listener \<Rightarrow> int \<Rightarrow> ('c, 'z) session \<Rightarrow> ('c, 'z) session res" where
  "tcp_acceptor e nt cn listener sock s =
     (let fd = n_accept nt (ses_tick s) sock; s = tick s in
      if fd < 0 then Inr s
      else case n_peername nt (ses_tick s) fd of
        None \<Rightarrow> m_close e fd s
      | Some (ipstring, portstring) \<Rightarrow>
        (case l_typedata listener of None \<Rightarrow> Inl NullDeref
         | Some tcpinfo \<Rightarrow>
           rbind (send_msg_channel_open_init e cn fd (fl_chantype tcpinfo) s) (\<lambda>(ok, s).
           if \<not> ok then Inr (close_fd fd s)
           else
             let (addr, port) = (if fl_fwd_type tcpinfo = fwd_direct then (fl_sendaddr tcpinfo, fl_sendport tcpinfo)
                                 else (fl_request_listenaddr tcpinfo, fl_listenport tcpinfo));
                 addr = (case addr of None \<Rightarrow> lit ''localhost'' @ [0] | Some a \<Rightarrow> a) in
             rbind (rbind (put_cstring (ses_writepayload s) addr) (\<lambda>wp.
                    rbind (buf_putint wp port) (\<lambda>wp.
                    rbind (put_cstring wp ipstring) (\<lambda>wp.
                    buf_putint wp (word_of_int (atol portstring)))))) (\<lambda>wp.
             encrypt_packet e (s\<lparr>ses_writepayload := wp\<rparr>)))))"

definition streamlocal_acceptor :: "'z env \<Rightarrow> net \<Rightarrow> ('c, 'z) chan_env \<Rightarrow> Listener \<Rightarrow> int \<Rightarrow> ('c, 'z) session \<Rightarrow> ('c, 'z) session res" where
  "streamlocal_acceptor e nt cn listener sock s =
     (let fd = n_accept nt (ses_tick s) sock; s = tick s in
      if fd < 0 then Inr s
      else case l_typedata listener of None \<Rightarrow> Inl NullDeref
      | Some tcpinfo \<Rightarrow>
        rbind (send_msg_channel_open_init e cn fd (fl_chantype tcpinfo) s) (\<lambda>(ok, s).
        if \<not> ok then Inr (close_fd fd s)
        else case fl_request_listenaddr tcpinfo of None \<Rightarrow> Inl NullDeref
        | Some addr \<Rightarrow>
          rbind (rbind (put_cstring (ses_writepayload s) addr) (\<lambda>wp. buf_putstring wp [0] 0)) (\<lambda>wp.
          encrypt_packet e (s\<lparr>ses_writepayload := wp\<rparr>))))"

definition send_msg_channel_open_agent :: "'z env \<Rightarrow> ('c, 'z) chan_env \<Rightarrow> int \<Rightarrow> ('c, 'z) session \<Rightarrow> (bool \<times> ('c, 'z) session) res" where
  "send_msg_channel_open_agent e cn fd s =
     rbind (send_msg_channel_open_init e cn fd CT_AGENT s) (\<lambda>(ok, s).
     if ok then rbind (encrypt_packet e s) (\<lambda>s. Inr (True, s)) else Inr (False, s))"

definition agentaccept :: "'z env \<Rightarrow> net \<Rightarrow> ('c, 'z) chan_env \<Rightarrow> int \<Rightarrow> ('c, 'z) session \<Rightarrow> ('c, 'z) session res" where
  "agentaccept e nt cn sock s =
     (let fd = n_accept nt (ses_tick s) sock; s = tick s in
      if fd < 0 then Inr s
      else rbind (send_msg_channel_open_agent e cn fd s) (\<lambda>(ok, s). Inr (if ok then s else close_fd fd s)))"

text \<open>The function a listener's \<^verbatim>\<open>acceptor\<close> names.\<close>

definition svr_acceptor :: "'z env \<Rightarrow> net \<Rightarrow> ('c, 'z) chan_env \<Rightarrow> ('c, 'z) run_acceptor" where
  "svr_acceptor e nt cn a l sock s =
     (case a of Tcp_acceptor \<Rightarrow> tcp_acceptor e nt cn l sock s
      | Streamlocal_acceptor \<Rightarrow> streamlocal_acceptor e nt cn l sock s
      | Agent_acceptor \<Rightarrow> agentaccept e nt cn sock s)"

section \<open>Listening\<close>

definition listen_tcpfwd :: "net \<Rightarrow> FwdListener \<Rightarrow> ('c, 'z) session \<Rightarrow> (nat option \<times> ('c, 'z) session) res" where
  "listen_tcpfwd nt tcpinfo s =
     rbind (dropbear_listen nt (fl_listenaddr tcpinfo) (decimal (unat (fl_listenport tcpinfo)))
              (replicate DROPBEAR_MAX_SOCKS 0) DROPBEAR_MAX_SOCKS s) (\<lambda>(r, s).
     case r of None \<Rightarrow> Inr (None, s)
     | Some (socks, nsocks) \<Rightarrow>
       new_listener socks (of_nat nsocks) LISTENER_TYPE_TCPFORWARDED (Some tcpinfo) Tcp_acceptor (Some Cleanup_tcp) s)"

definition listen_streamlocal :: "'z env \<Rightarrow> net \<Rightarrow> FwdListener \<Rightarrow> ('c, 'z) session \<Rightarrow> (nat option \<times> ('c, 'z) session) res" where
  "listen_streamlocal e nt tcpinfo s =
     (case fl_socket_path tcpinfo of None \<Rightarrow> Inr (None, s)
      | Some path \<Rightarrow>
        if length (cstr path) \<ge> SUN_PATH_LEN then Inr (None, s)
        else
          let sock = n_socket nt (ses_tick s) AF_UNIX; s = tick s in
          if sock < 0 then Inr (None, s)
          else
            let s = unlink_streamsocket path s;
                bound = n_bind nt (ses_tick s) sock \<lparr>ai_family = AF_UNIX, ai_addr = cstr path, ai_port = 0\<rparr>; s = tick s in
            if \<not> bound then rbind (m_close e sock s) (\<lambda>s. Inr (None, s))
            else if \<not> n_listen nt (ses_tick s) sock
            then rbind (m_close e sock (unlink_streamsocket path (tick s))) (\<lambda>s. Inr (None, s))
            else
              rbind (new_listener [sock] 1 LISTENER_TYPE_STREAMFORWARDED (Some tcpinfo) Streamlocal_acceptor (Some Cleanup_streamlocal) (tick s)) (\<lambda>(r, s).
              case r of Some i \<Rightarrow> Inr (Some i, s)
              | None \<Rightarrow> rbind (m_close e sock (unlink_streamsocket path s)) (\<lambda>s. Inr (None, s))))"

section \<open>Requests\<close>

definition matchtcp :: "FwdListener \<Rightarrow> FwdListener option \<Rightarrow> bool res" where
  "matchtcp info1 typedata2 =
     (case typedata2 of None \<Rightarrow> Inl NullDeref
      | Some info2 \<Rightarrow>
        if fl_listenport info1 \<noteq> fl_listenport info2 then Inr False
        else case (fl_request_listenaddr info1, fl_request_listenaddr info2) of
          (Some a, Some b) \<Rightarrow> Inr (cstr a = cstr b)
        | _ \<Rightarrow> Inl NullDeref)"

definition zero_fwd :: FwdListener where
  "zero_fwd = \<lparr>fl_sendaddr = None, fl_sendport = 0, fl_listenaddr = None, fl_listenport = 0, fl_request_listenaddr = None,
     fl_interface = None, fl_chantype = CT_TCPREMOTE, fl_fwd_type = fwd_direct, fl_socket_path = None\<rparr>"

text \<open>\<open>True\<close> is \<^verbatim>\<open>DROPBEAR_SUCCESS\<close>.\<close>

definition svr_cancelremotetcp :: "('c, 'z) session \<Rightarrow> (bool \<times> ('c, 'z) session) res" where
  "svr_cancelremotetcp s =
     (case ses_payload s of None \<Rightarrow> Inl NullDeref
      | Some payload \<Rightarrow>
        rbind (buf_getstring payload) (\<lambda>(request_addr, addrlen, payload).
        if addrlen > MAX_HOST_LEN then Inr (False, s\<lparr>ses_payload := Some payload\<rparr>)
        else
          rbind (buf_getint payload) (\<lambda>(port, payload).
          let s = s\<lparr>ses_payload := Some payload\<rparr>;
              tcpinfo = zero_fwd\<lparr>fl_request_listenaddr := Some request_addr, fl_listenport := port\<rparr> in
          rbind (get_listener LISTENER_TYPE_TCPFORWARDED (matchtcp tcpinfo) s) (\<lambda>r.
          case r of None \<Rightarrow> Inr (False, s)
          | Some i \<Rightarrow> rbind (remove_listener i s) (\<lambda>s. Inr (True, s))))))"

text \<open>The reply of \<^verbatim>\<open>svr_remotetcpreq\<close>: success with the port when it was chosen here, or failure.\<close>

definition remotetcp_reply :: "'z env \<Rightarrow> bool \<Rightarrow> u32 option \<Rightarrow> ('c, 'z) session \<Rightarrow> ('c, 'z) session res" where
  "remotetcp_reply e ok chosen_port s =
     rbind (if ok
            then rbind (buf_putbyte (ses_writepayload s) SSH_MSG_REQUEST_SUCCESS) (\<lambda>wp.
                 case chosen_port of None \<Rightarrow> Inr wp | Some p \<Rightarrow> buf_putint wp p)
            else buf_putbyte (ses_writepayload s) SSH_MSG_REQUEST_FAILURE) (\<lambda>wp.
     encrypt_packet e (s\<lparr>ses_writepayload := wp\<rparr>))"

definition set_listenport :: "nat \<Rightarrow> u32 \<Rightarrow> ('c, 'z) session \<Rightarrow> ('c, 'z) session res" where
  "set_listenport i p s =
     rbind (get_lst i s) (\<lambda>l.
     Inr (s\<lparr>ses_listeners := (ses_listeners s)[i := Some (l\<lparr>l_typedata := map_option (\<lambda>fl. fl\<lparr>fl_listenport := p\<rparr>) (l_typedata l)\<rparr>)]\<rparr>))"

definition svr_remotetcpreq :: "'z env \<Rightarrow> net \<Rightarrow> svr_opts \<Rightarrow> bool \<Rightarrow> ('c, 'z) session \<Rightarrow> (bool \<times> ('c, 'z) session) res" where
  "svr_remotetcpreq e nt so wantreply s =
     (case ses_payload s of None \<Rightarrow> Inl NullDeref
      | Some payload \<Rightarrow>
        let out = (\<lambda>ok chosen s. rbind (if wantreply then remotetcp_reply e ok chosen s else Inr s) (\<lambda>s. Inr (ok, s))) in
        rbind (buf_getstring payload) (\<lambda>(request_addr, addrlen, payload).
        if addrlen > MAX_HOST_LEN then out False None (s\<lparr>ses_payload := Some payload\<rparr>)
        else
          rbind (buf_getint payload) (\<lambda>(port, payload).
          let s = s\<lparr>ses_payload := Some payload\<rparr> in
          if port \<noteq> 0 \<and> (port > 65535 \<or> (\<not> ses_allowprivport s \<and> port < IPPORT_RESERVED)) then out False None s
          else if \<not> svr_pubkey_allows_remote_tcpfwd request_addr port s then out False None s
          else
            let tcpinfo = zero_fwd\<lparr>fl_listenport := port, fl_chantype := CT_TCPREMOTE, fl_fwd_type := fwd_forwarded,
                  fl_interface := svr_interface so, fl_request_listenaddr := Some request_addr,
                  fl_listenaddr := (if \<not> opts_listen_fwd_all so \<or> cstr request_addr = lit ''localhost'' then None else Some request_addr)\<rparr> in
            rbind (listen_tcpfwd nt tcpinfo s) (\<lambda>(r, s).
            case r of None \<Rightarrow> out False None s
            | Some i \<Rightarrow>
              rbind (get_lst i s) (\<lambda>l.
              if l_socks l = [] then Inl OutOfBounds
              else
                let p = n_sock_port nt (ses_tick s) (hd (l_socks l)) in
                rbind (set_listenport i p (tick s)) (\<lambda>s.
                out True (if port = 0 then Some p else None) s))))))"

definition matchstreamlocal :: "FwdListener \<Rightarrow> FwdListener option \<Rightarrow> bool res" where
  "matchstreamlocal info1 typedata2 =
     (case typedata2 of None \<Rightarrow> Inl NullDeref
      | Some info2 \<Rightarrow>
        case (fl_socket_path info1, fl_socket_path info2) of
          (Some a, Some b) \<Rightarrow> Inr (fl_chantype info1 = fl_chantype info2 \<and> cstr a = cstr b)
        | _ \<Rightarrow> Inr False)"

definition svr_cancelremotestreamlocal :: "('c, 'z) session \<Rightarrow> (bool \<times> ('c, 'z) session) res" where
  "svr_cancelremotestreamlocal s =
     (case ses_payload s of None \<Rightarrow> Inl NullDeref
      | Some payload \<Rightarrow>
        rbind (buf_getstring payload) (\<lambda>(socket_path, pathlen, payload).
        let s = s\<lparr>ses_payload := Some payload\<rparr> in
        if pathlen > MAX_HOST_LEN \<or> length (cstr socket_path) \<noteq> unat pathlen then Inr (False, s)
        else
          let tcpinfo = zero_fwd\<lparr>fl_socket_path := Some socket_path, fl_chantype := CT_STREAMLOCALREMOTE\<rparr> in
          rbind (get_listener CHANNEL_ID_STREAMLOCALFORWARDED (matchstreamlocal tcpinfo) s) (\<lambda>r.
          case r of None \<Rightarrow> Inr (False, s)
          | Some i \<Rightarrow> rbind (remove_listener i s) (\<lambda>s. Inr (True, s)))))"

text \<open>
  At the label \<open>out\<close> a failure frees \<^verbatim>\<open>tcpinfo->socket_path\<close>, also when \<^verbatim>\<open>tcpinfo\<close> is still NULL.
\<close>

definition svr_remotestreamlocalreq :: "'z env \<Rightarrow> net \<Rightarrow> svr_opts \<Rightarrow> ('c, 'z) session \<Rightarrow> (bool \<times> ('c, 'z) session) res" where
  "svr_remotestreamlocalreq e nt so s =
     (let out = (\<lambda>tcpinfo r s. case r of Some i \<Rightarrow> Inr (True, s) | None \<Rightarrow> if tcpinfo = None then Inl NullDeref else Inr (False, s)) in
      if svr_forced_command so \<noteq> None \<or> svr_pubkey_has_forced_command s then out (None :: FwdListener option) None s
      else if svr_noremotefwd so \<or> \<not> svr_pubkey_allows_tcpfwd s then out None None s
      else case ses_payload s of None \<Rightarrow> Inl NullDeref
      | Some payload \<Rightarrow>
        rbind (buf_getstring payload) (\<lambda>(request_path, pathlen, payload).
        let s = s\<lparr>ses_payload := Some payload\<rparr> in
        if pathlen > MAX_HOST_LEN \<or> length (cstr request_path) \<noteq> unat pathlen then out None None s
        else
          let tcpinfo = zero_fwd\<lparr>fl_chantype := CT_STREAMLOCALREMOTE, fl_fwd_type := fwd_forwarded,
                fl_socket_path := Some request_path, fl_request_listenaddr := Some request_path\<rparr> in
          rbind (listen_streamlocal e nt tcpinfo s) (\<lambda>(r, s). out (Some tcpinfo) r s)))"

definition svr_recv_msg_global_request :: "'z env \<Rightarrow> net \<Rightarrow> svr_opts \<Rightarrow> ('c, 'z) session \<Rightarrow> ('c, 'z) session res" where
  "svr_recv_msg_global_request e nt so s =
     (case ses_payload s of None \<Rightarrow> Inl NullDeref
      | Some payload \<Rightarrow>
        rbind (buf_getstring payload) (\<lambda>(reqname, namelen, payload).
        rbind (buf_getbool payload) (\<lambda>(wantreply, payload).
        let s = s\<lparr>ses_payload := Some payload\<rparr>;
            out = (\<lambda>wantreply (ret, s). if \<not> wantreply then Inr s
                     else if ret then send_msg_request_success e s else send_msg_request_failure e s) in
        if svr_noremotefwd so \<or> \<not> svr_pubkey_allows_tcpfwd s then out wantreply (False, s)
        else if namelen > MAX_NAME_LEN then out wantreply (False, s)
        else if cstr reqname = lit ''tcpip-forward'' then rbind (svr_remotetcpreq e nt so wantreply s) (out False)
        else if cstr reqname = lit ''cancel-tcpip-forward'' then rbind (svr_cancelremotetcp s) (out wantreply)
        else if cstr reqname = lit ''streamlocal-forward@openssh.com'' then rbind (svr_remotestreamlocalreq e nt so s) (out wantreply)
        else if cstr reqname = lit ''cancel-streamlocal-forward@openssh.com'' then rbind (svr_cancelremotestreamlocal s) (out wantreply)
        else out wantreply (False, s))))"

section \<open>The server's channels\<close>

text \<open>
  The channel types of forwarding, with the listeners. \<open>open_init\<close> uses the table of types only, so
  that the acceptors can be given the table before the listeners are in it.
\<close>

definition fwd_chan_types :: "net \<Rightarrow> svr_opts \<Rightarrow> ('c, 'z) ChanType list" where
  "fwd_chan_types nt so = [svr_chan_tcpdirect nt so, svr_chan_streamlocal so, svr_chan_tcpremote, svr_chan_streamlocalremote, chan_svr_agent]"

definition fwd_table :: "net \<Rightarrow> svr_opts \<Rightarrow> ('c, 'z) chan_env" where
  "fwd_table nt so = \<lparr>cn_server = True, cn_types = fwd_chan_types nt so, cn_chantypes = [CT_TCPDIRECT, CT_STREAMLOCAL],
     cn_handle_listeners = (\<lambda>_. Inr)\<rparr>"

definition fwd_chan_env :: "'z env \<Rightarrow> net \<Rightarrow> svr_opts \<Rightarrow> ('c, 'z) chan_env" where
  "fwd_chan_env e nt so = (fwd_table nt so)\<lparr>cn_handle_listeners := handle_listeners (svr_acceptor e nt (fwd_table nt so))\<rparr>"

text \<open>The callbacks of connections.\<close>

definition run_callback :: "'z env \<Rightarrow> ('c, 'z) chan_env \<Rightarrow> ('c, 'z) run_cb" where
  "run_callback e cn cb result sock errstring s =
     (case cb of Channel_connect_done i \<Rightarrow> channel_connect_done e cn result sock i errstring s
      | Cancel_callback \<Rightarrow> cancel_callback e result sock s)"

end
