(* ===== verification/Forward_Safe.thy ===== *)
theory Forward_Safe
  imports Forward Channel_Props
begin

text \<open>
  Forwarding keeps the invariant of the session: the handlers of open requests, the acceptors of
  listening sockets, the callbacks of connections and the global requests.
\<close>

section \<open>Channels that the server opens\<close>

lemma newchannel_keeps:
  assumes "newchannel e rc t tw tm s = Inr (r, s')"
  shows "ses_listeners s' = ses_listeners s" "ses_listensize s' = ses_listensize s"
  using assms by (auto simp: newchannel_def Let_def put_chan_def elim!: rbind_InrE split: if_splits)

definition same_lst :: "('c, 'z) session \<Rightarrow> ('c, 'z) session \<Rightarrow> bool" where
  "same_lst s s' \<longleftrightarrow> ses_listeners s' = ses_listeners s \<and> ses_listensize s' = ses_listensize s"

lemma same_lst_upd [simp]: "same_lst s (tick s') = same_lst s s'" "same_lst s (log_event ev s') = same_lst s s'"
  "same_lst (tick s) s' = same_lst s s'" "same_lst s s" "same_lst s (close_fd fd s') = same_lst s s'"
  "same_lst s (put_chan i ch s') = same_lst s s'" "same_lst s (s'\<lparr>ses_writepayload := wp\<rparr>) = same_lst s s'"
  "same_lst s (s'\<lparr>ses_maxfd := m\<rparr>) = same_lst s s'" "same_lst s (s'\<lparr>ses_payload := p\<rparr>) = same_lst s s'"
  by (simp_all add: same_lst_def tick_def log_event_def close_fd_def put_chan_def)

lemma get_lst_same: "same_lst s s' \<Longrightarrow> get_lst i s' = get_lst i s"
  by (simp add: same_lst_def get_lst_def)

lemma same_lst_core: "same_lst s s1 \<Longrightarrow> same_core s1 s2 \<Longrightarrow> same_lst s s2"
  by (simp add: same_lst_def same_core_def)

lemma ses_inv_maxfd [simp]: "ses_inv e cn (close_fd fd s) = ses_inv e cn s"
  by (simp add: close_fd_def)

lemma runs_put_open:
  assumes "buf_wf wp" shows "runs (grown wp) (put_channel_open e name n wp)"
  unfolding put_channel_open_def
  apply (rule runs_rbind [OF runs_putbyte [OF assms]])
  apply (rule runs_rbind [OF runs_putstring_grown], assumption, simp add: unat_of_nat_le le_SucI)
  apply (rule runs_rbind [OF runs_putint_grown], assumption)
  apply (rule runs_rbind [OF runs_putint_grown], assumption)
  by (rule runs_putint_grown)

lemma runs_open_init:
  assumes s: "ses_inv e cn s" and t: "t < length (cn_types cn)"
  shows "runs (\<lambda>(ok, s'). ses_inv e cn s' \<and> same_lst s s') (send_msg_channel_open_init e cn fd t s)"
  unfolding send_msg_channel_open_init_def
proof (rule runs_rbind [OF runs_ret [OF runs_newchannel [OF s t]]], clarify)
  fix r s1 assume a: "newchannel e 0 t 0 0 s = Inr (r, s1)" "ses_inv e cn s1"
    and ri: "\<forall>i. r = Some i \<longrightarrow> (\<exists>ch. get_chan s1 i = Inr ch \<and> ch_conn_pending ch = None \<and> \<not> ch_await_open ch)"
  have l: "same_lst s s1" using newchannel_keeps [OF a(1)] by (simp add: same_lst_def)
  show "runs (\<lambda>(ok, s'). ses_inv e cn s' \<and> same_lst s s') (case r of None \<Rightarrow> Inr (False, s1)
     | Some i \<Rightarrow>
       if t \<ge> length (cn_types cn) then Inl NullDeref
       else
         rbind (upd_chan i (\<lambda>ch. ch\<lparr>ch_writefd := fd, ch_readfd := fd, ch_bidir_fd := True, ch_await_open := True\<rparr>) s1) (\<lambda>s.
         let s = s\<lparr>ses_maxfd := max (ses_maxfd s) fd\<rparr>; name = ct_name (cn_types cn ! t) in
         rbind (get_chan s i) (\<lambda>ch.
         rbind (put_channel_open e name (ch_index ch) (ses_writepayload s)) (\<lambda>wp.
         Inr (True, s\<lparr>ses_writepayload := wp\<rparr>)))))"
  proof (cases r)
    case None
    then show ?thesis using a(2) l by simp
  next
    case (Some i)
    then obtain ch where ch: "get_chan s1 i = Inr ch" "ch_conn_pending ch = None" "\<not> ch_await_open ch" using ri by blast
    let ?ch = "ch\<lparr>ch_writefd := fd, ch_readfd := fd, ch_bidir_fd := True, ch_await_open := True\<rparr>"
    let ?s2 = "(put_chan i ?ch s1)\<lparr>ses_maxfd := max (ses_maxfd (put_chan i ?ch s1)) fd\<rparr>"
    have s2: "ses_inv e cn ?s2" "get_chan ?s2 i = Inr ?ch"
      using ses_inv_put [OF a(2) ch(1), of ?ch] ses_inv_chan [OF a(2) ch(1)] ch(2) by (simp_all add: get_chan_def put_chan_def)
    have "runs (\<lambda>(ok, s'). ses_inv e cn s' \<and> same_lst s s') (rbind (put_channel_open e (ct_name (cn_types cn ! t)) (ch_index ?ch) (ses_writepayload ?s2))
        (\<lambda>wp. Inr (True, ?s2\<lparr>ses_writepayload := wp\<rparr>)))"
      by (rule runs_rbind [OF runs_put_open [OF send_ok_D(1) [OF ses_inv_send [OF s2(1)]]]]) (use ses_inv_wp [OF s2(1)] l in simp)
    then show ?thesis using Some t ch(1) s2(2) by (simp add: upd_chan_def Let_def)
  qed
qed

section \<open>Acceptors\<close>

lemma runs_put_cstring: "grown wp b \<Longrightarrow> runs (grown wp) (put_cstring b str)"
  unfolding put_cstring_def by (rule runs_putstring_grown) (simp_all add: unat_of_nat_le le_SucI)

lemma runs_m_close_lst: "ses_inv e cn s \<Longrightarrow> runs (\<lambda>s'. ses_inv e cn s' \<and> same_lst s s') (m_close e fd s)"
  by (simp add: m_close_def)

lemma runs_accept_send:
  assumes "ses_inv e cn s" "runs (grown (ses_writepayload s)) m"
  shows "runs (\<lambda>s'. ses_inv e cn s' \<and> same_lst s s') (rbind m (\<lambda>wp. encrypt_packet e (s\<lparr>ses_writepayload := wp\<rparr>)))"
  by (rule runs_weaken [OF runs_send_inv [OF assms]]) (auto intro: same_lst_core [of s s])

lemma grown_refl: "buf_wf b \<Longrightarrow> grown b b"
  by (simp add: grown_def)

lemma runs_tcp_acceptor:
  assumes s: "ses_inv e cn s" and l: "l_typedata l = Some fl" "fl_chantype fl < length (cn_types cn)"
  shows "runs (\<lambda>s'. ses_inv e cn s' \<and> same_lst s s') (tcp_acceptor e nt cn l sock s)"
proof -
  have send: "runs (\<lambda>s'. ses_inv e cn s' \<and> same_lst s s') (rbind (rbind (put_cstring (ses_writepayload s1) addr) (\<lambda>wp.
      rbind (buf_putint wp port) (\<lambda>wp. rbind (put_cstring wp ip) (\<lambda>wp. buf_putint wp p)))) (\<lambda>wp. encrypt_packet e (s1\<lparr>ses_writepayload := wp\<rparr>)))"
    if "ses_inv e cn s1" "same_lst s s1" for s1 addr port ip p
    apply (rule runs_weaken [OF runs_accept_send [OF that(1)]])
     apply (rule runs_rbind [OF runs_put_cstring [OF grown_refl]], rule send_ok_D(1) [OF ses_inv_send [OF that(1)]])
     apply (rule runs_rbind [OF runs_putint_grown], assumption)
     apply (rule runs_rbind [OF runs_put_cstring], assumption)
     apply (erule runs_putint_grown)
    using that(2) by (auto simp: same_lst_def)
  show ?thesis
    unfolding tcp_acceptor_def Let_def l(1) option.case
    apply (rule runs_if, use s in simp)
    apply (cases "n_peername nt (ses_tick (tick s)) (n_accept nt (ses_tick s) sock)")
     apply (simp, rule runs_weaken [OF runs_m_close_lst [of e cn]], use s in simp, simp)
    apply (clarsimp split del: if_split)
    apply (rule runs_rbind [OF runs_open_init [OF _ l(2)]], use s in simp)
    apply (clarsimp split del: if_split)
    apply (rule runs_if, simp)
    by (simp split: prod.split) (auto intro: send)
qed

lemma runs_streamlocal_acceptor:
  assumes s: "ses_inv e cn s" and l: "l_typedata l = Some fl" "fl_chantype fl < length (cn_types cn)" "fl_request_listenaddr fl = Some addr"
  shows "runs (\<lambda>s'. ses_inv e cn s' \<and> same_lst s s') (streamlocal_acceptor e nt cn l sock s)"
proof -
  have send: "runs (\<lambda>s'. ses_inv e cn s' \<and> same_lst s s') (rbind (rbind (put_cstring (ses_writepayload s1) addr) (\<lambda>wp. buf_putstring wp [0] 0))
      (\<lambda>wp. encrypt_packet e (s1\<lparr>ses_writepayload := wp\<rparr>)))"
    if "ses_inv e cn s1" "same_lst s s1" for s1
    apply (rule runs_weaken [OF runs_accept_send [OF that(1)]])
     apply (rule runs_rbind [OF runs_put_cstring [OF grown_refl]], rule send_ok_D(1) [OF ses_inv_send [OF that(1)]])
     apply (erule runs_putstring_grown, simp)
    using that(2) by (auto simp: same_lst_def)
  show ?thesis
    unfolding streamlocal_acceptor_def Let_def l(1,3) option.case
    apply (rule runs_if, use s in simp)
    apply (rule runs_rbind [OF runs_open_init [OF _ l(2)]], use s in simp)
    apply (clarsimp split del: if_split)
    by (rule runs_if) (auto intro: send)
qed

lemma runs_agentaccept:
  assumes s: "ses_inv e cn s" and t: "CT_AGENT < length (cn_types cn)"
  shows "runs (\<lambda>s'. ses_inv e cn s' \<and> same_lst s s') (agentaccept e nt cn sock s)"
proof -
  have send: "runs (\<lambda>s'. ses_inv e cn s' \<and> same_lst s s') (encrypt_packet e s1)" if "ses_inv e cn s1" "same_lst s s1" for s1
    using runs_encrypt_packet [OF ses_inv_send [OF that(1)]] ses_inv_core(1) [OF that(1)] same_lst_core [OF that(2)] by (auto elim: runs_weaken)
  show ?thesis
    unfolding agentaccept_def send_msg_channel_open_agent_def Let_def rbind_assoc
    apply (rule runs_if, use s in simp)
    apply (rule runs_rbind [OF runs_open_init [OF _ t]], use s in simp)
    apply (clarsimp split del: if_split)
    subgoal for ok s1 by (cases ok) (auto simp: rbind_assoc intro!: runs_rbind [OF send])
    done
qed

text \<open>
  The contract of acceptors, and that the loops over the listeners keep the invariant under it.
\<close>

locale acceptors =
  fixes e :: "'z env" and cn :: "('c, 'z) chan_env" and acc :: "('c, 'z) run_acceptor"
  assumes accepts: "ses_inv e cn s \<Longrightarrow> listener_ok cn l \<Longrightarrow> keeps (\<lambda>s'. ses_inv e cn s' \<and> same_lst s s') (acc (l_acceptor l) l sock s)"
begin

lemma socks:
  assumes "ses_inv e cn s" "get_lst i s = Inr l" "listener_ok cn l"
  shows "keeps (ses_inv e cn) (handle_socks acc fds i j s)"
  using assms(1,2)
proof (induction "2 ^ 32 - j" arbitrary: j s rule: less_induct)
  case less
  have n: "unat (l_nsocks l) \<le> length (l_socks l)" using assms(3) by (simp add: listener_ok_def)
  show ?case
  proof (cases "j < unat (l_nsocks l)")
    case True
    then have "j < 2 ^ 32" using unsigned_less [of "l_nsocks l", where ?'a = nat] by simp
    then have ih: "keeps (ses_inv e cn) (handle_socks acc fds i (Suc j) s')" if "ses_inv e cn s'" "same_lst s s'" for s'
      using less.hyps [of "Suc j" s'] less.prems(2) that get_lst_same [OF that(2)] by simp
    have k: "keeps (\<lambda>s'. ses_inv e cn s' \<and> same_lst s s') (if fds (l_socks l ! j) then acc (l_acceptor l) l (l_socks l ! j) s else Inr s)"
      using accepts [OF less.prems(1) assms(3)] less.prems(1) by simp
    from keeps_rbind [OF k, of "ses_inv e cn" "handle_socks acc fds i (Suc j)"] ih show ?thesis
      using True n by (subst handle_socks.simps) (simp add: less.prems(2) Let_def)
  next
    case False
    then show ?thesis using less.prems by (subst handle_socks.simps) simp
  qed
qed

lemma loop: "ses_inv e cn s \<Longrightarrow> keeps (ses_inv e cn) (handle_listeners_loop acc fds i s)"
proof (induction "2 ^ 32 - i" arbitrary: i s rule: less_induct)
  case less
  have inv: "listeners_inv cn (ses_listeners s) (ses_listensize s)" using less.prems by (simp add: ses_inv_def)
  then have len: "unat (ses_listensize s) = length (ses_listeners s)" by (simp add: listeners_inv_def)
  show ?case
  proof (cases "i < unat (ses_listensize s)")
    case True
    then have "i < 2 ^ 32" using unsigned_less [of "ses_listensize s", where ?'a = nat] by simp
    then have ih: "keeps (ses_inv e cn) (handle_listeners_loop acc fds (Suc i) s')" if "ses_inv e cn s'" for s'
      using less.hyps [of "Suc i" s'] that by simp
    have k: "keeps (ses_inv e cn) (if ses_listeners s ! i = None then Inr s else handle_socks acc fds i 0 s)"
      using socks [OF less.prems, of i] less.prems True len inv by (auto simp: get_lst_def listeners_inv_def)
    show ?thesis using True len keeps_rbind [OF k ih] by (subst handle_listeners_loop.simps) simp
  next
    case False
    then show ?thesis using less.prems by (subst handle_listeners_loop.simps) simp
  qed
qed

lemma handled: "ses_inv e cn s \<Longrightarrow> keeps (ses_inv e cn) (handle_listeners acc fds s)"
  unfolding handle_listeners_def by (rule loop)

end

section \<open>Interpretation\<close>

text \<open>The invariant only depends on the number of channel types.\<close>

lemma ses_inv_types:
  assumes "length (cn_types cn') = length (cn_types cn)" shows "ses_inv e cn' s = ses_inv e cn s"
  by (simp add: ses_inv_def chans_inv_def listeners_inv_def listener_ok_def assms)

lemma fwd_types [simp]: "cn_types (fwd_table nt so) = fwd_chan_types nt so" "cn_types (fwd_chan_env e nt so) = fwd_chan_types nt so"
  "length (fwd_chan_types nt so) = 5" "cn_chantypes (fwd_chan_env e nt so) = [CT_TCPDIRECT, CT_STREAMLOCAL]"
  by (simp_all add: fwd_table_def fwd_chan_env_def fwd_chan_types_def)

interpretation fwd_acc: acceptors e "fwd_table nt so" "svr_acceptor e nt (fwd_table nt so)" for e nt so
proof (unfold_locales, goal_cases)
  case (1 s l sock)
  note s = 1(1) and l = 1(2)
  show ?case
  proof (cases "l_acceptor l")
    case Tcp_acceptor
    then obtain fl where "l_typedata l = Some fl" "fl_chantype fl < 5" using l by (auto simp: listener_ok_def)
    from runs_keeps [OF runs_tcp_acceptor [OF s this(1)]] this(2) Tcp_acceptor show ?thesis by (simp add: svr_acceptor_def)
  next
    case Streamlocal_acceptor
    then obtain fl addr where "l_typedata l = Some fl" "fl_chantype fl < 5" "fl_request_listenaddr fl = Some addr" using l by (auto simp: listener_ok_def)
    from runs_keeps [OF runs_streamlocal_acceptor [OF s this(1) _ this(3)]] this(2) Streamlocal_acceptor show ?thesis by (simp add: svr_acceptor_def)
  next
    case Agent_acceptor
    from runs_keeps [OF runs_agentaccept [OF s]] Agent_acceptor show ?thesis by (simp add: svr_acceptor_def CT_AGENT_def)
  qed
qed

text \<open>Starting a connection for a channel.\<close>

lemma conns_inv_add:
  assumes inv: "conns_inv cs ps n" and i: "i < length cs" "cs ! i = Some ch" "ch_conn_pending ch = None"
    and c: "pc_id c = n" "pc_cb c = Channel_connect_done i"
  shows "conns_inv (cs[i := Some (ch\<lparr>ch_conn_pending := Some n\<rparr>)]) (ps @ [c]) (Suc n)"
proof -
  let ?cs = "cs[i := Some (ch\<lparr>ch_conn_pending := Some n\<rparr>)]"
  have lt: "pc_id x < n" if "x \<in> set ps" for x using inv that by (auto simp: conns_inv_def)
  have old: "k \<noteq> i \<and> k < length cs \<and> (\<exists>ch'. cs ! k = Some ch' \<and> ch_conn_pending ch' = Some (pc_id x))"
    if "x \<in> set ps" "pc_cb x = Channel_connect_done k" for x k
    using inv that i(2,3) unfolding conns_inv_def by fastforce
  show ?thesis unfolding conns_inv_def
  proof (intro conjI ballI allI impI, goal_cases)
    case 1
    show ?case using inv c by (auto simp: conns_inv_def dest: lt)
  next
    case (2 x)
    then show ?case using c lt [of x] by auto
  next
    case (3 x k)
    then show ?case using old [of x k] c i(1) by auto
  next
    case (4 x k)
    then show ?case using old [of x k] c i(1) by (auto simp: nth_list_update)
  next
    case (5 k ch' m)
    show ?case
    proof (cases "k = i")
      case True
      then show ?thesis using 5 c i(1) by auto
    next
      case False
      then have "k < length cs" "cs ! k = Some ch'" using 5 by (simp_all add: nth_list_update)
      then show ?thesis using inv 5(3) unfolding conns_inv_def by auto
    qed
  qed
qed

lemma start_connect_inv:
  assumes s: "ses_inv e cn s" and ch: "get_chan s i = Inr ch" "ch_conn_pending ch = None" "\<not> ch_await_open ch"
    and c: "pc_id c = ses_next_conn s" "pc_cb c = Channel_connect_done i"
  shows "ses_inv e cn (put_chan i (ch\<lparr>ch_conn_pending := Some (ses_next_conn s)\<rparr>)
     (s\<lparr>ses_conn_pending := ses_conn_pending s @ [c], ses_next_conn := Suc (ses_next_conn s)\<rparr>))"
proof -
  note k = ses_inv_chan [OF s ch(1)]
  let ?ch = "ch\<lparr>ch_conn_pending := Some (ses_next_conn s)\<rparr>"
  have "conns_inv ((ses_channels s)[i := Some ?ch]) (ses_conn_pending s @ [c]) (Suc (ses_next_conn s))"
    using s by (intro conns_inv_add [OF _ k(4,5) ch(2) c]) (simp add: ses_inv_def)
  moreover have "chans_inv e cn ((ses_channels s)[i := Some ?ch])"
    using s k ch(3) unfolding ses_inv_def chans_inv_def by (auto simp: nth_list_update)
  ultimately show ?thesis using s k(4,5) unfolding ses_inv_def put_chan_def send_ok_def trans_macsize_def
    by (simp add: count_chans_update)
qed

lemma keeps_start_connect:
  assumes s: "ses_inv e cn s" and ch: "get_chan s i = Inr ch" "ch_conn_pending ch = None" "\<not> ch_await_open ch"
    and c: "pc_id c = ses_next_conn s" "pc_cb c = Channel_connect_done i"
  shows "keeps (\<lambda>(r, s'). ses_inv e cn s' \<and> slot s' i)
     (rbind (upd_chan i (\<lambda>ch. ch\<lparr>ch_conn_pending := Some (ses_next_conn s)\<rparr>)
        (s\<lparr>ses_conn_pending := ses_conn_pending s @ [c], ses_next_conn := Suc (ses_next_conn s)\<rparr>)) (\<lambda>s. Inr (SSH_OPEN_IN_PROGRESS, s)))"
proof -
  let ?s = "s\<lparr>ses_conn_pending := ses_conn_pending s @ [c], ses_next_conn := Suc (ses_next_conn s)\<rparr>"
  have "get_chan ?s i = Inr ch" using ch(1) by simp
  then show ?thesis using start_connect_inv [OF s ch c] ses_inv_chan(4) [OF s ch(1)] by (simp add: upd_chan_def)
qed

lemma allows_local_ok: "ses_inv e cn s \<Longrightarrow> \<exists>r. svr_pubkey_allows_local_tcpfwd host port s = Inr r"
  by (fastforce simp: svr_pubkey_allows_local_tcpfwd_def ses_inv_def permits_ok_def split: option.split)

lemma newtcpdirect_keeps:
  assumes s: "ses_inv e cn s" and ch: "get_chan s i = Inr ch" "ch_conn_pending ch = None" "\<not> ch_await_open ch" and p: "ses_payload s = Some pb"
  shows "keeps (\<lambda>(r, s'). ses_inv e cn s' \<and> slot s' i) (newtcpdirect nt so i s)"
proof -
  have sl: "slot s i" using ses_inv_chan(6) [OF s ch(1)] .
  have inv: "ses_inv e cn (s\<lparr>ses_payload := Some b\<rparr>)" if "same_buf b' b" for b' b using ses_inv_payload [OF s] that by (simp add: same_buf_def)
  have con: "keeps (\<lambda>(r, s'). ses_inv e cn s' \<and> slot s' i)
     (let (k, s) = connect_remote nt h p (Channel_connect_done i) None None PRIO_NORMAL (s\<lparr>ses_payload := Some b\<rparr>) in
      rbind (upd_chan i (\<lambda>ch. ch\<lparr>ch_conn_pending := Some k\<rparr>) s) (\<lambda>s. Inr (SSH_OPEN_IN_PROGRESS, s)))" if "same_buf b' b" for b' b h p
  proof -
    let ?s = "tick (s\<lparr>ses_payload := Some b\<rparr>)"
    obtain c where c: "pc_id c = ses_next_conn ?s" "pc_cb c = Channel_connect_done i"
      "connect_remote nt h p (Channel_connect_done i) None None PRIO_NORMAL (s\<lparr>ses_payload := Some b\<rparr>) = (ses_next_conn ?s,
         ?s\<lparr>ses_conn_pending := ses_conn_pending ?s @ [c], ses_next_conn := Suc (ses_next_conn ?s)\<rparr>)"
      using connect_remote_eq [of "s\<lparr>ses_payload := Some b\<rparr>" "Channel_connect_done i" nt h p None None PRIO_NORMAL] by (auto simp: tick_def)
    show ?thesis using keeps_start_connect [OF _ _ ch(2,3) c(1,2)] inv [OF that] ch(1) unfolding c(3) by simp
  qed
  show ?thesis
    unfolding newtcpdirect_def Let_def p option.case
    apply (rule keeps_if, use s sl in simp)
    apply (rule keeps_runs [OF runs_getstring [OF ses_inv_pb [OF s p]]], clarsimp split del: if_split)
    apply (rule keeps_if, use inv sl in simp)
    apply (rule keeps_runs [OF runs_getint [OF same_buf_wf]], assumption, clarsimp split del: if_split)
    apply (rule keeps_runs [OF runs_getstring [OF same_buf_wf]], assumption, clarsimp split del: if_split)
    apply (rule keeps_if, use inv sl in simp)
    apply (rule keeps_runs [OF runs_getint [OF same_buf_wf]], assumption, clarsimp split del: if_split)
    apply (rule keeps_if, use inv sl in simp)
    subgoal for h n b1 dp b2 oh m b3 op b4
      using allows_local_ok [OF inv [of b3 b4], of h dp] inv [of b3 b4] sl con [of b3 b4, unfolded Let_def] by auto
    done
qed

lemma newstreamlocal_keeps:
  assumes s: "ses_inv e cn s" and ch: "get_chan s i = Inr ch" "ch_conn_pending ch = None" "\<not> ch_await_open ch" and p: "ses_payload s = Some pb"
  shows "keeps (\<lambda>(r, s'). ses_inv e cn s' \<and> slot s' i) (newstreamlocal so i s)"
proof -
  have sl: "slot s i" using ses_inv_chan(6) [OF s ch(1)] .
  have inv: "ses_inv e cn (s\<lparr>ses_payload := Some b\<rparr>)" if "same_buf b' b" for b' b using ses_inv_payload [OF s] that by (simp add: same_buf_def)
  have con: "keeps (\<lambda>(r, s'). ses_inv e cn s' \<and> slot s' i)
     (let (k, s) = connect_streamlocal path (Channel_connect_done i) PRIO_NORMAL (s\<lparr>ses_payload := Some b\<rparr>) in
      rbind (upd_chan i (\<lambda>ch. ch\<lparr>ch_conn_pending := Some k\<rparr>) s) (\<lambda>s. Inr (SSH_OPEN_IN_PROGRESS, s)))" if "same_buf b' b" for b' b path
  proof -
    let ?s = "s\<lparr>ses_payload := Some b\<rparr>"
    obtain c where c: "pc_id c = ses_next_conn ?s" "pc_cb c = Channel_connect_done i"
      "connect_streamlocal path (Channel_connect_done i) PRIO_NORMAL ?s = (ses_next_conn ?s,
         ?s\<lparr>ses_conn_pending := ses_conn_pending ?s @ [c], ses_next_conn := Suc (ses_next_conn ?s)\<rparr>)"
      using connect_streamlocal_eq [of ?s "Channel_connect_done i" path PRIO_NORMAL] by auto
    show ?thesis using keeps_start_connect [OF _ _ ch(2,3) c(1,2)] inv [OF that] ch(1) unfolding c(3) by simp
  qed
  show ?thesis
    unfolding newstreamlocal_def Let_def p option.case
    apply (rule keeps_if, use s sl in simp)
    apply (rule keeps_if, use s sl in simp)
    apply (rule keeps_runs [OF runs_getstring [OF ses_inv_pb [OF s p]]], clarsimp split del: if_split)
    by (rule keeps_if, use inv sl in simp, rule con [unfolded Let_def])
qed

text \<open>The channel types of the server obey the contract of handlers.\<close>

lemma fwd_handlers:
  assumes "ty \<in> set (fwd_chan_types nt so)"
  shows "ct_check_close ty = None" "ct_reqhandler ty = None" "ct_closehandler ty = None" "ct_cleanup ty = None"
    "ct_inithandler ty = Some f \<Longrightarrow> f = newtcpdirect nt so \<or> f = newstreamlocal so"
  using assms by (auto simp: fwd_chan_types_def svr_chan_tcpdirect_def svr_chan_streamlocal_def svr_chan_tcpremote_def
      svr_chan_streamlocalremote_def chan_svr_agent_def)

lemma fwd_inv: "ses_inv e (fwd_table nt so) = ses_inv e (fwd_chan_env e nt so)"
  by (rule ext, rule ses_inv_types) simp

lemma fwd_listeners: "cn_handle_listeners (fwd_chan_env e nt so) = handle_listeners (svr_acceptor e nt (fwd_table nt so))"
  by (simp add: fwd_chan_env_def)

interpretation fwd: chan_handlers e "fwd_chan_env e nt so" for e nt so
proof (unfold_locales, goal_cases)
  case (1 t)
  then show ?case by (auto simp: CT_TCPDIRECT_def CT_STREAMLOCAL_def)
next
  case (2 ty f s i ch pb)
  then have "f = newtcpdirect nt so \<or> f = newstreamlocal so" using fwd_handlers(5) [of ty nt so f] by simp
  then show ?case using newtcpdirect_keeps [OF 2(3-7)] newstreamlocal_keeps [OF 2(3-7)] by auto
next
  case (3 ty g s i)
  then show ?case using fwd_handlers(1) [of ty nt so] by simp
next
  case (4 ty h s i pb)
  then show ?case using fwd_handlers(2) [of ty nt so] by simp
next
  case (5 ty s i)
  then show ?case using fwd_handlers(3) [of ty nt so] by (simp add: call_handler_def)
next
  case (6 ty s i)
  then show ?case using fwd_handlers(4) [of ty nt so] by (simp add: call_handler_def)
next
  case (7 s fds)
  then show ?case using fwd_acc.handled [of e nt so s fds] by (simp add: fwd_inv fwd_listeners)
qed

end
