(* ===== verification/Connections.thy ===== *)
theory Connections
  imports Forward_Safe
begin

text \<open>
  The loops over the connections in progress (\<^verbatim>\<open>set_connect_fds\<close> and \<^verbatim>\<open>handle_connect_fds\<close>): they end,
  every callback is called with a channel that still exists, and the invariant is kept.
\<close>

section \<open>Calls that only touch sockets\<close>

definition only_net :: "('c, 'z) session \<Rightarrow> ('c, 'z) session \<Rightarrow> bool" where
  "only_net s s' \<longleftrightarrow> (\<exists>t k m. s' = s\<lparr>ses_trace := t, ses_tick := k, ses_maxfd := m\<rparr>)"

lemma only_netI: "only_net s (s\<lparr>ses_trace := t, ses_tick := k, ses_maxfd := m\<rparr>)"
  unfolding only_net_def by blast

lemma only_net_steps [simp]: "only_net s s" "only_net s (tick s') = only_net s s'" "only_net s (close_fd fd s') = only_net s s'"
  "only_net s (s'\<lparr>ses_maxfd := m\<rparr>) = only_net s s'"
proof -
  show "only_net s s" using only_netI [where s = s and t = "ses_trace s" and k = "ses_tick s" and m = "ses_maxfd s"] by simp
  have up: "only_net s (s'\<lparr>ses_trace := t, ses_tick := k, ses_maxfd := m\<rparr>) \<longleftrightarrow> only_net s s'" for s' t k m
  proof
    assume "only_net s (s'\<lparr>ses_trace := t, ses_tick := k, ses_maxfd := m\<rparr>)"
    then obtain t' k' m' where eq: "s'\<lparr>ses_trace := t, ses_tick := k, ses_maxfd := m\<rparr> = s\<lparr>ses_trace := t', ses_tick := k', ses_maxfd := m'\<rparr>"
      by (auto simp: only_net_def)
    have "s' = (s'\<lparr>ses_trace := t, ses_tick := k, ses_maxfd := m\<rparr>)\<lparr>ses_trace := ses_trace s', ses_tick := ses_tick s', ses_maxfd := ses_maxfd s'\<rparr>" by simp
    also have "\<dots> = s\<lparr>ses_trace := ses_trace s', ses_tick := ses_tick s', ses_maxfd := ses_maxfd s'\<rparr>" unfolding eq by simp
    finally show "only_net s s'" using only_netI by metis
  next
    assume "only_net s s'"
    then obtain t' k' m' where "s' = s\<lparr>ses_trace := t', ses_tick := k', ses_maxfd := m'\<rparr>" unfolding only_net_def by blast
    then show "only_net s (s'\<lparr>ses_trace := t, ses_tick := k, ses_maxfd := m\<rparr>)"
      using only_netI [where s = s and t = t and k = k and m = m] by simp
  qed
  show "only_net s (tick s') = only_net s s'"
    using up [where s' = s' and t = "ses_trace s'" and k = "Suc (ses_tick s')" and m = "ses_maxfd s'"] by (simp add: tick_def)
  show "only_net s (s'\<lparr>ses_maxfd := m\<rparr>) = only_net s s'" for m
    using up [where s' = s' and t = "ses_trace s'" and k = "ses_tick s'" and m = m] by simp
  show "only_net s (close_fd fd s') = only_net s s'"
    using up [where s' = s' and t = "ses_trace s' @ [EvClose fd]" and k = "Suc (ses_tick s')" and m = "ses_maxfd s'"]
    by (cases s') (simp add: close_fd_def log_event_def tick_def)
qed

lemma only_netD: "only_net s s' \<Longrightarrow> ses_inv e cn s' = ses_inv e cn s" "only_net s s' \<Longrightarrow> ses_conn_pending s' = ses_conn_pending s"
  by (auto simp: only_net_def)

lemma try_addrs_net:
  "only_net s0 s \<Longrightarrow> keeps (\<lambda>(c', s'). pc_id c' = pc_id c \<and> pc_cb c' = pc_cb c \<and> only_net s0 s') (try_addrs nt rs c s)"
proof (induction rs arbitrary: c s)
  case (Cons r rs)
  have ih: "keeps (\<lambda>(c', s'). pc_id c' = pc_id c \<and> pc_cb c' = pc_cb c \<and> only_net s0 s') (try_addrs nt rs c1 s1)"
    if "only_net s0 s1" "pc_id c1 = pc_id c" "pc_cb c1 = pc_cb c" for c1 s1
    using Cons.IH [OF that(1), of c1] that(2,3) by simp
  show ?case unfolding try_addrs.simps Let_def
    apply (intro keeps_assert keeps_if, use ih Cons.prems in simp)
    using Cons.prems by (auto split: option.split intro!: ih)
qed simp

lemma connect_start_net:
  "only_net s0 s \<Longrightarrow> keeps (\<lambda>(c', s'). pc_id c' = pc_id c \<and> pc_cb c' = pc_cb c \<and> only_net s0 s') (connect_start nt c s)"
proof (induction nt c s rule: connect_start.induct)
  case (1 nt c s)
  show ?case
  proof (cases "pc_res_iter c \<noteq> [] \<and> pc_sock c < 0")
    case True
    note k = try_addrs_net [OF 1(2), where c = c and nt = nt and rs = "pc_res_iter c", folded connect_try_next_def]
    show ?thesis
    proof (cases "connect_try_next nt c s")
      case (Inl x)
      then show ?thesis using k True by (subst connect_start.simps) simp
    next
      case (Inr x)
      obtain c1 s1 where x: "x = (c1, s1)" by (cases x)
      have "keeps (\<lambda>(c', s'). pc_id c' = pc_id c1 \<and> pc_cb c' = pc_cb c1 \<and> only_net s0 s') (connect_start nt c1 s1)"
        by (rule 1(1) [OF True Inr]) (use k Inr x in simp_all)
      then show ?thesis using k Inr x True by (subst connect_start.simps) simp
    qed
  next
    case False
    then show ?thesis using 1(2) by (subst connect_start.simps) auto
  qed
qed

section \<open>Updates of a connection\<close>

lemma conns_inv_replace:
  assumes inv: "conns_inv cs ps n" and c: "c' \<in> set ps" "pc_id c = pc_id c'" "pc_cb c = pc_cb c'"
  shows "conns_inv cs (map (\<lambda>x. if pc_id x = pc_id c then c else x) ps) n"
proof -
  let ?f = "\<lambda>x. if pc_id x = pc_id c then c else x"
  have inj: "inj_on pc_id (set ps)" using inv unfolding conns_inv_def distinct_map by blast
  have eq: "x = c'" if "x \<in> set ps" "pc_id x = pc_id c" for x using inj_onD [OF inj _ that(1) c(1)] that(2) c(2) by simp
  have f: "pc_id (?f x) = pc_id x" "pc_cb (?f x) = pc_cb x" if "x \<in> set ps" for x using eq [OF that] c by auto
  have d: "map pc_id (map ?f ps) = map pc_id ps" using f by simp
  have img: "\<exists>x\<in>set ps. pc_id y = pc_id x \<and> pc_cb y = pc_cb x" if y: "y \<in> ?f ` set ps" for y
  proof -
    obtain x where "x \<in> set ps" "y = ?f x" using y by blast
    then show ?thesis using f [of x] by (intro bexI [of _ x]) simp_all
  qed
  show ?thesis
    unfolding conns_inv_def d set_map
  proof (intro conjI ballI allI impI, goal_cases)
    case 1
    then show ?case using inv by (simp add: conns_inv_def)
  next
    case (2 y)
    then obtain x where "x \<in> set ps" "pc_id y = pc_id x" using img by blast
    then show ?case using inv by (simp add: conns_inv_def)
  next
    case (3 y i)
    then obtain x where "x \<in> set ps" "pc_cb x = Channel_connect_done i" using img [of y] by auto
    then show ?case using inv by (simp add: conns_inv_def)
  next
    case (4 y i)
    then obtain x where "x \<in> set ps" "pc_cb x = Channel_connect_done i" "pc_id y = pc_id x" using img [of y] by auto
    then show ?case using inv by (simp add: conns_inv_def)
  next
    case (5 i ch k)
    then obtain x where "x \<in> set ps" "pc_id x = k" "pc_cb x = Channel_connect_done i" using inv unfolding conns_inv_def by blast
    then show ?case using f [of x] by (intro bexI [of _ "?f x"] conjI imageI) (simp_all split del: if_split)
  qed
qed

lemma ses_inv_conns:
  assumes "ses_inv e cn s" "conns_inv (ses_channels s) ps (ses_next_conn s)" shows "ses_inv e cn (s\<lparr>ses_conn_pending := ps\<rparr>)"
  using assms by (simp add: ses_inv_def send_ok_def trans_macsize_def)

lemma ses_inv_conns_inv: "ses_inv e cn s \<Longrightarrow> conns_inv (ses_channels s) (ses_conn_pending s) (ses_next_conn s)"
  by (simp add: ses_inv_def)

lemma put_conn_inv:
  assumes "ses_inv e cn s" "c' \<in> set (ses_conn_pending s)" "pc_id c = pc_id c'" "pc_cb c = pc_cb c'"
  shows "ses_inv e cn (put_conn c s)" "map pc_id (ses_conn_pending (put_conn c s)) = map pc_id (ses_conn_pending s)"
    "c \<in> set (ses_conn_pending (put_conn c s))"
  using ses_inv_conns [OF assms(1) conns_inv_replace [OF ses_inv_conns_inv [OF assms(1)] assms(2-4)]] assms(2,3)
  by (auto simp: put_conn_def)

text \<open>A connection goes when no channel refers to it.\<close>

lemma remove_connect_inv:
  assumes s: "ses_inv e cn s" and k: "\<forall>x\<in>set (ses_conn_pending s). pc_id x = k \<longrightarrow> pc_cb x = Cancel_callback"
  shows "ses_inv e cn (remove_connect k s)"
proof -
  note inv = ses_inv_conns_inv [OF s]
  have "conns_inv (ses_channels s) (filter (\<lambda>c. pc_id c \<noteq> k) (ses_conn_pending s)) (ses_next_conn s)"
    unfolding conns_inv_def
  proof (intro conjI ballI allI impI, goal_cases)
    case 1
    then show ?case using inv by (simp add: conns_inv_def distinct_map_filter)
  next
    case (5 i ch m)
    then obtain x where "x \<in> set (ses_conn_pending s)" "pc_id x = m" "pc_cb x = Channel_connect_done i"
      using inv unfolding conns_inv_def by blast
    then show ?case using k by (intro bexI [of _ x]) auto
  qed (use inv in \<open>auto simp: conns_inv_def\<close>)
  then show ?thesis using ses_inv_conns [OF s] by (simp add: remove_connect_def)
qed

section \<open>The contract of callbacks\<close>

text \<open>
  A callback that is told of a failure leaves the list of connections in place and no channel that
  refers to its connection; after one that is told of a socket the connection may be freed.
\<close>

locale conn_callbacks =
  fixes e :: "'z env" and cn :: "('c, 'z) chan_env" and cb :: "('c, 'z) run_cb"
  assumes failed: "ses_inv e cn s \<Longrightarrow> c \<in> set (ses_conn_pending s) \<Longrightarrow>
      keeps (\<lambda>s'. ses_inv e cn s' \<and> map pc_id (ses_conn_pending s') = map pc_id (ses_conn_pending s)
        \<and> (\<forall>x\<in>set (ses_conn_pending s'). pc_id x = pc_id c \<longrightarrow> pc_cb x = Cancel_callback)) (cb (pc_cb c) False sock err s)"
    and established: "ses_inv e cn s \<Longrightarrow> c \<in> set (ses_conn_pending s) \<Longrightarrow>
      keeps (\<lambda>s'. ses_inv e cn (remove_connect (pc_id c) s')) (cb (pc_cb c) True sock err s)"
begin

lemma get_pending:
  assumes "ses_inv e cn s" "k \<in> pc_id ` set (ses_conn_pending s)"
  obtains c where "get_conn k s = Inr c" "c \<in> set (ses_conn_pending s)" "pc_id c = k"
proof -
  obtain c where "c \<in> set (ses_conn_pending s)" "pc_id c = k" using assms(2) by blast
  then show ?thesis using that [of c] get_conn_mem [of s c] ses_inv_conns_inv [OF assms(1)] by (auto simp: conns_inv_def)
qed

lemma set_loop:
  assumes "ses_inv e cn s" "distinct ks" "set ks \<subseteq> pc_id ` set (ses_conn_pending s)"
  shows "keeps (\<lambda>(fds, s'). ses_inv e cn s') (set_connect_loop nt cb ks s)"
  using assms
proof (induction ks arbitrary: s)
  case (Cons k ks)
  obtain c where c: "get_conn k s = Inr c" "c \<in> set (ses_conn_pending s)" "pc_id c = k"
    using get_pending [OF Cons.prems(1), of k] Cons.prems(3) by auto
  show ?case
    unfolding set_connect_loop.simps c(1) rbind_simps Let_def
  proof (rule keeps_rbind [OF connect_start_net [of s]], simp, clarsimp split del: if_split)
    fix c1 :: dropbear_progress_connection and s1 assume a: "pc_id c1 = pc_id c" "pc_cb c1 = pc_cb c" "only_net s s1"
    have s1: "ses_inv e cn s1" "ses_conn_pending s1 = ses_conn_pending s" using only_netD [OF a(3)] Cons.prems(1) by auto
    have c2: "c \<in> set (ses_conn_pending s1)" using c(2) s1(2) by simp
    note p = put_conn_inv [OF s1(1) c2 a(1,2)]
    have ids: "pc_id ` set (ses_conn_pending (put_conn c1 s1)) = pc_id ` set (ses_conn_pending s)"
      using p(2) s1(2) by (metis set_map)
    define c3 where "c3 err = c1\<lparr>pc_errstring := Some err\<rparr>" for err
    have c3: "pc_id (c3 err) = pc_id c1" "pc_cb (c3 err) = pc_cb c1" for err by (simp_all add: c3_def)
    note q = put_conn_inv [OF p(1,3) c3]
    have more: "keeps (\<lambda>(fds, s'). ses_inv e cn s') (set_connect_loop nt cb ks (remove_connect k s2))"
      if "ses_inv e cn s2" "map pc_id (ses_conn_pending s2) = map pc_id (ses_conn_pending (put_conn (c3 err) (put_conn c1 s1)))"
        "\<forall>x\<in>set (ses_conn_pending s2). pc_id x = k \<longrightarrow> pc_cb x = Cancel_callback" for s2 err
    proof (rule Cons.IH [OF remove_connect_inv [OF that(1,3)]])
      have "pc_id ` set (ses_conn_pending s2) = pc_id ` set (ses_conn_pending s)" using that(2) q(2) ids by (metis set_map)
      moreover have "pc_id ` set (ses_conn_pending (remove_connect k s2)) = pc_id ` set (ses_conn_pending s2) - {k}"
        by (auto simp: remove_connect_def)
      ultimately show "set ks \<subseteq> pc_id ` set (ses_conn_pending (remove_connect k s2))" using Cons.prems(2,3) by auto
    qed (use Cons.prems(2) in simp)
    show "keeps (\<lambda>(fds, s'). ses_inv e cn s') (if 0 \<le> pc_sock c1
       then rbind (set_connect_loop nt cb ks (put_conn c1 s1)) (\<lambda>(fds, s). Inr (pc_sock c1 # fds, s))
       else rbind (cb (pc_cb c1) False (- 1) (case pc_errstring c1 of None \<Rightarrow> lit ''unexpected failure'' | Some err \<Rightarrow> err)
          (put_conn (c1\<lparr>pc_errstring := Some (case pc_errstring c1 of None \<Rightarrow> lit ''unexpected failure'' | Some err \<Rightarrow> err)\<rparr>) (put_conn c1 s1)))
          (\<lambda>s. set_connect_loop nt cb ks (remove_connect k s)))"
      unfolding c3_def [symmetric]
      apply (rule keeps_if)
       apply (rule keeps_rbind [OF Cons.IH [OF p(1)]], use Cons.prems(2) in simp, use Cons.prems(3) ids in simp, clarsimp)
      apply (rule keeps_rbind [OF failed [OF q(1,3), unfolded c3]])
      subgoal for s2
        using more [of s2 "case pc_errstring c1 of None \<Rightarrow> lit ''unexpected failure'' | Some err \<Rightarrow> err"] a(1) c(3) c3(1) by simp
      done
  qed
qed simp

lemma handle_loop:
  assumes "ses_inv e cn s" "set ks \<subseteq> pc_id ` set (ses_conn_pending s)"
  shows "keeps (ses_inv e cn) (handle_connect_loop e nt cb fds ks s)"
  using assms
proof (induction ks arbitrary: s)
  case (Cons k ks)
  obtain c where c: "get_conn k s = Inr c" "c \<in> set (ses_conn_pending s)" "pc_id c = k"
    using get_pending [OF Cons.prems(1), of k] Cons.prems(2) by auto
  have closed: "keeps (ses_inv e cn) (rbind (m_close e (pc_sock c) (tick s)) (\<lambda>s. handle_connect_loop e nt cb fds ks (put_conn c' s)))"
    if "pc_id c' = pc_id c" "pc_cb c' = pc_cb c" for c'
  proof -
    have "keeps (\<lambda>s'. ses_inv e cn s' \<and> ses_conn_pending s' = ses_conn_pending s) (m_close e (pc_sock c) (tick s))"
      using Cons.prems(1) by (simp add: m_close_def) (simp add: tick_def log_event_def)
    then show ?thesis
    proof (rule keeps_rbind, elim conjE)
      fix s1 assume s1: "ses_inv e cn s1" "ses_conn_pending s1 = ses_conn_pending s"
      have "c \<in> set (ses_conn_pending s1)" using c(2) s1(2) by simp
      note p = put_conn_inv [OF s1(1) this that]
      have "pc_id ` set (ses_conn_pending (put_conn c' s1)) = pc_id ` set (ses_conn_pending s)" using p(2) s1(2) by (metis set_map)
      then show "keeps (ses_inv e cn) (handle_connect_loop e nt cb fds ks (put_conn c' s1))"
        using Cons.IH [OF p(1)] Cons.prems(2) by simp
    qed
  qed
  have est: "keeps (ses_inv e cn) (rbind (cb (pc_cb c) True (pc_sock c) [] (tick s)) (\<lambda>s. Inr (remove_connect k s)))"
    using keeps_rbind [OF established [of "tick s" c "pc_sock c" "[]"], of "ses_inv e cn" "\<lambda>s. Inr (remove_connect k s)"] Cons.prems(1) c(2,3)
    by (simp add: tick_def)
  show ?case
    unfolding handle_connect_loop.simps c(1) rbind_simps Let_def
    apply (rule keeps_if, rule Cons.IH, use Cons.prems in simp_all)[1]
    using closed est by (auto split: option.split)
qed simp

lemma set_fds: "ses_inv e cn s \<Longrightarrow> keeps (\<lambda>(fds, s'). ses_inv e cn s') (set_connect_fds nt cb s)"
  unfolding set_connect_fds_def by (rule set_loop) (auto simp: ses_inv_def conns_inv_def)

lemma handle_fds: "ses_inv e cn s \<Longrightarrow> keeps (ses_inv e cn) (handle_connect_fds e nt cb fds s)"
  unfolding handle_connect_fds_def by (rule handle_loop) auto

end

section \<open>The callbacks of the server\<close>

text \<open>A clean-up handler that leaves the list of connections alone: \<^verbatim>\<open>remove_channel\<close> cancels the channel's.\<close>

locale conn_handlers = chan_handlers +
  assumes quiet: "ty \<in> set (cn_types cn) \<Longrightarrow> call_handler (ct_cleanup ty) i s = Inr s' \<Longrightarrow> ses_conn_pending s' = ses_conn_pending s"
begin

lemma remove_conns:
  assumes s: "ses_inv e cn s" "slot s i" and c: "c \<in> set (ses_conn_pending s)" "pc_cb c = Channel_connect_done i"
    and r: "remove_channel e cn i s = Inr s'"
  shows "ses_conn_pending s' = map (\<lambda>x. if pc_id x = pc_id c then x\<lparr>pc_cb := Cancel_callback\<rparr> else x) (ses_conn_pending s)"
proof -
  obtain ch where ch: "get_chan s i = Inr ch" using slotE [OF s(2)] by blast
  obtain ty where ty: "chan_type cn ch = Inr ty" "ty \<in> set (cn_types cn)" using chan_type_ok [OF s(1) ch] .
  have cl: "ses_inv e cn s1 \<and> slot s1 i \<and> ses_conn_pending s1 = ses_conn_pending s0"
    if "m_close e fd s0 = Inr s1" "ses_inv e cn s0" "slot s0 i" for fd s0 s1
    using that by (auto simp: m_close_def split: if_splits) (simp_all add: log_event_def tick_def)
  obtain s1 s2 ch2 s3 where a: "ses_inv e cn s1" "slot s1 i" "ses_conn_pending s1 = ses_conn_pending s"
    "call_handler (ct_cleanup ty) i s1 = Inr s2" "get_chan s2 i = Inr ch2"
    "(case ch_conn_pending ch2 of None \<Rightarrow> Inr s2 | Some k \<Rightarrow> cancel_connect k s2) = Inr s3" "ses_conn_pending s' = ses_conn_pending s3"
    using r s unfolding remove_channel_def ch ty(1) rbind_simps
    by (auto elim!: rbind_InrE split: if_splits dest!: cl simp: update_channel_prio_def Let_def)
  have s2: "ses_inv e cn s2" using keeps_InrD [OF cleanup [OF ty(2) a(1,2)] a(4)] by simp
  have p2: "ses_conn_pending s2 = ses_conn_pending s" using quiet [OF ty(2) a(4)] a(3) by simp
  have "ses_channels s2 ! i = Some ch2" by (rule ses_inv_chan(5) [OF s2 a(5)])
  then have "ch_conn_pending ch2 = Some (pc_id c)" using ses_inv_conns_inv [OF s2] c p2 unfolding conns_inv_def by fastforce
  moreover have "cancel_connect (pc_id c) s2 = Inr (s2\<lparr>ses_conn_pending := map (\<lambda>x. if pc_id x = pc_id c then x\<lparr>pc_cb := Cancel_callback\<rparr> else x) (ses_conn_pending s2)\<rparr>)"
    by (rule cancel_connect_eq) (use ses_inv_conns_inv [OF s2] c p2 in \<open>simp_all add: conns_inv_def\<close>)
  ultimately show ?thesis using a(6,7) p2 by auto
qed

lemma connect_failed_conns:
  assumes s: "ses_inv e cn s" and c: "c \<in> set (ses_conn_pending s)" "pc_cb c = Channel_connect_done i"
  shows "keeps (\<lambda>s'. ses_inv e cn s' \<and> map pc_id (ses_conn_pending s') = map pc_id (ses_conn_pending s)
        \<and> (\<forall>x\<in>set (ses_conn_pending s'). pc_id x = pc_id c \<longrightarrow> pc_cb x = Cancel_callback)) (channel_connect_done e cn False sock i err s)"
proof -
  have sl: "slot s i" using ses_inv_conns_inv [OF s] c unfolding conns_inv_def slot_def by fastforce
  then obtain ch where ch: "get_chan s i = Inr ch" using slotE by blast
  show ?thesis
    unfolding channel_connect_done_def ch rbind_simps if_False
  proof (rule keeps_runs [OF runs_open_failure [OF s]], elim conjE)
    fix s1 assume s1: "ses_inv e cn s1" "same_core s s1"
    have p: "ses_conn_pending s1 = ses_conn_pending s" "slot s1 i" using s1(2) sl same_core_slot(2) by (auto simp: same_core_def)
    have c1: "c \<in> set (ses_conn_pending s1)" using p c by simp
    show "keeps (\<lambda>s'. ses_inv e cn s' \<and> map pc_id (ses_conn_pending s') = map pc_id (ses_conn_pending s)
        \<and> (\<forall>x\<in>set (ses_conn_pending s'). pc_id x = pc_id c \<longrightarrow> pc_cb x = Cancel_callback)) (remove_channel e cn i s1)"
      using remove [OF s1(1) p(2)] remove_conns [OF s1(1) p(2) c1 c(2)] p(1)
      by (cases "remove_channel e cn i s1") (auto simp: comp_def)
  qed
qed

end

lemma conns_inv_done:
  assumes inv: "conns_inv cs ps n" and i: "i < length cs" "cs ! i = Some ch" "ch_conn_pending ch = Some k" and ch': "ch_conn_pending ch' = None"
  shows "conns_inv (cs[i := Some ch']) (filter (\<lambda>c. pc_id c \<noteq> k) ps) n"
proof -
  have ne: "j \<noteq> i" if x: "x \<in> set ps" "pc_id x \<noteq> k" "pc_cb x = Channel_connect_done j" for x j
    using inv x i unfolding conns_inv_def by fastforce
  show ?thesis unfolding conns_inv_def
  proof (intro conjI ballI allI impI, goal_cases)
    case 1
    then show ?case using inv by (simp add: conns_inv_def distinct_map_filter)
  next
    case (2 x)
    then show ?case using inv by (simp add: conns_inv_def)
  next
    case (3 x j)
    then show ?case using inv unfolding conns_inv_def by auto
  next
    case (4 x j)
    then have "\<exists>ch. cs ! j = Some ch \<and> ch_conn_pending ch = Some (pc_id x)" "i \<noteq> j" using inv ne [of x j] unfolding conns_inv_def by auto
    then show ?case by simp
  next
    case (5 j c m)
    then have "j \<noteq> i" "j < length cs" using ch' by auto
    then have j: "j \<noteq> i" "j < length cs" "cs ! j = Some c" using 5(2) by simp_all
    obtain x where x: "x \<in> set ps" "pc_id x = m" "pc_cb x = Channel_connect_done j" using inv j 5(3) unfolding conns_inv_def by blast
    obtain y where y: "y \<in> set ps" "pc_id y = k" "pc_cb y = Channel_connect_done i" using inv i unfolding conns_inv_def by blast
    have inj: "inj_on pc_id (set ps)" using inv unfolding conns_inv_def distinct_map by blast
    have "m \<noteq> k" using inj_onD [OF inj _ x(1) y(1)] x(2,3) y(2,3) j(1) by auto
    then show ?case using x by (intro bexI [of _ x]) auto
  qed
qed

lemma runs_confirmation:
  assumes "send_ok e s" "get_chan s i = Inr ch"
  shows "runs (\<lambda>s'. send_ok e s' \<and> same_core s s') (send_msg_channel_open_confirmation e i w m s)"
  unfolding send_msg_channel_open_confirmation_def assms(2) rbind_simps send_chan_msg_def
  apply (rule runs_weaken [OF runs_send [OF assms(1) runs_put2 [OF send_ok_D(1) [OF assms(1)]]]])
   apply (rule runs_rbind [OF runs_putint_grown], assumption)
   apply (rule runs_rbind [OF runs_putint_grown], assumption)
   apply (erule runs_putint_grown)
  by simp

lemma connect_established:
  assumes s: "ses_inv e cn s" and c: "c \<in> set (ses_conn_pending s)" "pc_cb c = Channel_connect_done i"
  shows "keeps (\<lambda>s'. ses_inv e cn (remove_connect (pc_id c) s')) (channel_connect_done e cn True sock i err s)"
proof -
  obtain ch where ch: "i < length (ses_channels s)" "ses_channels s ! i = Some ch" "ch_conn_pending ch = Some (pc_id c)"
    using ses_inv_conns_inv [OF s] c unfolding conns_inv_def by blast
  then have g: "get_chan s i = Inr ch" by (simp add: get_chan_def)
  note k = ses_inv_chan [OF s g]
  define ch' where "ch' = ch\<lparr>ch_readfd := sock, ch_writefd := sock, ch_bidir_fd := True, ch_conn_pending := None\<rparr>"
  let ?s = "put_chan i ch' s"
  have f: "ch_index ch' = ch_index ch" "ch_type ch' = ch_type ch" "chan_room e 0 ch'" "ch_conn_pending ch' = None"
    using k(2) by (simp_all add: ch'_def)
  have "chans_inv e cn ((ses_channels s)[i := Some ch'])" using s f k unfolding ses_inv_def chans_inv_def by (auto simp: nth_list_update)
  moreover have "conns_inv ((ses_channels s)[i := Some ch']) (filter (\<lambda>x. pc_id x \<noteq> pc_id c) (ses_conn_pending s)) (ses_next_conn s)"
    by (rule conns_inv_done [OF ses_inv_conns_inv [OF s] ch f(4)])
  ultimately have inv: "ses_inv e cn (remove_connect (pc_id c) ?s)"
    using s ch(1,2) unfolding ses_inv_def put_chan_def remove_connect_def send_ok_def trans_macsize_def by (simp add: count_chans_update)
  have so: "send_ok e ?s" using ses_inv_send [OF s] by (simp add: send_ok_def put_chan_def trans_macsize_def)
  have gs: "get_chan ?s i = Inr ch'" using ch(1) by simp
  have fin: "ses_inv e cn (remove_connect (pc_id c) s')" if "send_ok e s'" "same_core ?s s'" for s'
  proof (rule ses_inv_core(1) [OF inv])
    show "send_ok e (remove_connect (pc_id c) s')" using that(1) by (simp add: remove_connect_def send_ok_def trans_macsize_def)
    show "same_core (remove_connect (pc_id c) ?s) (remove_connect (pc_id c) s')" using that(2) by (simp add: same_core_def remove_connect_def)
  qed
  show ?thesis
    unfolding channel_connect_done_def g rbind_simps if_True ch'_def [symmetric]
    by (rule runs_keeps [OF runs_confirmation [OF so gs]]) (auto intro: fin)
qed

interpretation fwd_conn: conn_handlers e "fwd_chan_env e nt so" for e nt so
  by unfold_locales (simp add: fwd_handlers(4) [of _ nt so] call_handler_def)

interpretation fwd_cb: conn_callbacks e "fwd_chan_env e nt so" "run_callback e (fwd_chan_env e nt so)" for e nt so
proof (unfold_locales, goal_cases)
  case (1 s c sock err)
  show ?case
  proof (cases "pc_cb c")
    case (Channel_connect_done i)
    then show ?thesis using fwd_conn.connect_failed_conns [OF 1 Channel_connect_done] by (simp add: run_callback_def)
  next
    case Cancel_callback
    have "x = c" if x: "x \<in> set (ses_conn_pending s)" "pc_id x = pc_id c" for x
      using ses_inv_conns_inv [OF 1(1)] x 1(2) unfolding conns_inv_def distinct_map by (blast dest: inj_onD)
    then show ?thesis using 1 Cancel_callback by (auto simp: run_callback_def cancel_callback_def)
  qed
next
  case (2 s c sock err)
  show ?case
  proof (cases "pc_cb c")
    case (Channel_connect_done i)
    then show ?thesis using connect_established [OF 2 Channel_connect_done] by (simp add: run_callback_def)
  next
    case Cancel_callback
    have "x = c" if x: "x \<in> set (ses_conn_pending s)" "pc_id x = pc_id c" for x
      using ses_inv_conns_inv [OF 2(1)] x 2(2) unfolding conns_inv_def distinct_map by (blast dest: inj_onD)
    then have can: "\<forall>x\<in>set (ses_conn_pending s). pc_id x = pc_id c \<longrightarrow> pc_cb x = Cancel_callback" using Cancel_callback by auto
    have "keeps (\<lambda>s'. ses_inv e (fwd_chan_env e nt so) s' \<and> ses_conn_pending s' = ses_conn_pending s) (m_close e sock s)"
      using 2(1) by (simp add: m_close_def) (simp add: tick_def log_event_def)
    then have "keeps (\<lambda>s'. ses_inv e (fwd_chan_env e nt so) (remove_connect (pc_id c) s')) (m_close e sock s)"
      by (rule keeps_weaken) (use can in \<open>auto intro: remove_connect_inv\<close>)
    then show ?thesis using Cancel_callback by (simp add: run_callback_def cancel_callback_def)
  qed
qed

end
