(* ===== verification/Forward_Global.thy ===== *)
theory Forward_Global
  imports Connections
begin

text \<open>
  The global requests of \<^verbatim>\<open>svr-forward.c\<close>: new and removed listeners keep the invariant, and the two
  requests about Unix sockets do not do what they are meant to do.
\<close>

section \<open>Listeners\<close>

lemma listeners_inv_upd:
  assumes "listeners_inv cn ls n" "i < length ls" "case l of None \<Rightarrow> True | Some l \<Rightarrow> l_index l = i \<and> listener_ok cn l"
  shows "listeners_inv cn (ls[i := l]) n"
  using assms unfolding listeners_inv_def by (auto simp: nth_list_update split: option.splits)

lemma ses_inv_listeners:
  assumes "ses_inv e cn s" "listeners_inv cn ls n" shows "ses_inv e cn (s\<lparr>ses_listeners := ls, ses_listensize := n\<rparr>)"
  using assms by (simp add: ses_inv_def send_ok_def trans_macsize_def)

lemma ses_inv_lst:
  assumes "ses_inv e cn s" "get_lst i s = Inr l"
  shows "i < length (ses_listeners s)" "ses_listeners s ! i = Some l" "l_index l = i" "listener_ok cn l"
proof -
  show "i < length (ses_listeners s)" "ses_listeners s ! i = Some l"
    using assms(2) by (auto simp: get_lst_def split: if_splits option.splits)
  then show "l_index l = i" "listener_ok cn l" using assms(1) by (simp_all add: ses_inv_def listeners_inv_def)
qed

lemma close_socks_inv: "ses_inv e cn (close_socks fds s) = ses_inv e cn s"
  unfolding close_socks_def by (induction fds arbitrary: s) simp_all

lemma close_socks_fields: "ses_listeners (close_socks fds s) = ses_listeners s" "ses_listensize (close_socks fds s) = ses_listensize s"
  unfolding close_socks_def by (induction fds arbitrary: s) (simp_all add: close_fd_def log_event_def tick_def)

lemma listeners_inv_extend:
  "listeners_inv cn ls n \<Longrightarrow> length ls \<le> 20 \<Longrightarrow> listeners_inv cn (ls @ [None]) (n + 1)"
  unfolding listeners_inv_def by (auto simp: nth_append unat_add32 less_Suc_eq)

lemma runs_new_listener:
  assumes s: "ses_inv e cn s" and n: "unat n \<le> length socks" "unat n \<le> DROPBEAR_MAX_SOCKS"
    and ok: "acc \<noteq> Agent_acceptor" "cl \<noteq> None" "fl_chantype fl < length (cn_types cn)" "fl_request_listenaddr fl \<noteq> None" "ty \<le> 2"
  shows "runs (\<lambda>(r, s'). ses_inv e cn s' \<and> (\<forall>i. r = Some i \<longrightarrow> (\<exists>l. get_lst i s' = Inr l)))
    (new_listener socks n ty (Some fl) acc cl s)"
proof -
  let ?ls = "ses_listeners s"
  have inv: "listeners_inv cn ?ls (ses_listensize s)" using s by (simp add: ses_inv_def)
  then have sz: "unat (ses_listensize s) = length ?ls" "length ?ls \<le> 21" by (simp_all add: listeners_inv_def)
  define i where "i = free_listener ?ls"
  have il: "i \<le> length ?ls" by (simp add: i_def free_listener_def length_takeWhile_le)
  have full: "ses_listensize s > MAX_LISTENERS \<longleftrightarrow> 20 < length ?ls" using sz(1) by (simp add: MAX_LISTENERS_def wnat)
  define l where "l = \<lparr>l_socks = take (unat n) socks @ replicate (DROPBEAR_MAX_SOCKS - unat n) 0, l_nsocks = n, l_index = i,
                     l_acceptor = acc, l_cleanup = cl, l_type = ty, l_typedata = Some fl\<rparr>"
  have lok: "l_index l = i \<and> listener_ok cn l" using n ok by (simp add: l_def listener_ok_def)
  let ?ls' = "if i = length ?ls then ?ls @ [None] else ?ls" and ?n' = "if i = length ?ls then ses_listensize s + 1 else ses_listensize s"
  show ?thesis
  proof (cases "i = length ?ls \<and> 20 < length ?ls")
    case True
    then show ?thesis using s sz full n by (simp add: new_listener_def Let_def i_def [symmetric] close_socks_inv)
  next
    case False
    have inv': "listeners_inv cn ?ls' ?n'" using inv False listeners_inv_extend [OF inv] by auto
    have i': "i < length ?ls'" using il by auto
    define s1 where "s1 = s\<lparr>ses_maxfd := fold max (take (unat n) socks) (ses_maxfd s), ses_listeners := ?ls'[i := Some l], ses_listensize := ?n'\<rparr>"
    have run: "new_listener socks n ty (Some fl) acc cl s = Inr (Some i, s1)"
      using False sz full n by (simp add: new_listener_def Let_def i_def [symmetric] s1_def l_def LISTENER_EXTEND_SIZE_def)
    have "ses_inv e cn s1" unfolding s1_def
      by (rule ses_inv_listeners) (use s lok listeners_inv_upd [OF inv' i'] in simp_all)
    then show ?thesis using run i' by (simp add: get_lst_def s1_def)
  qed
qed

lemma runs_remove_listener:
  assumes s: "ses_inv e cn s" "get_lst i s = Inr l"
  shows "runs (ses_inv e cn) (remove_listener i s)"
proof -
  note l = ses_inv_lst [OF s]
  have c: "runs (\<lambda>s'. ses_inv e cn s' \<and> ses_listeners s' = ses_listeners s) (case l_cleanup l of None \<Rightarrow> Inr s
            | Some Cleanup_tcp \<Rightarrow> cleanup_tcp l s | Some Cleanup_streamlocal \<Rightarrow> cleanup_streamlocal l s)"
    using l(4) s(1) by (auto simp: listener_ok_def cleanup_tcp_def cleanup_streamlocal_def unlink_streamsocket_def log_event_def split: option.split cleanup.split)
  show ?thesis
    unfolding remove_listener_def s(2) rbind_simps
  proof (rule runs_rbind [OF c], elim conjE)
    fix s1 assume s1: "ses_inv e cn s1" "ses_listeners s1 = ses_listeners s"
    let ?s = "close_socks (take (unat (l_nsocks l)) (l_socks l)) s1"
    have i: "ses_inv e cn ?s" using s1(1) close_socks_inv by blast
    have "listeners_inv cn (ses_listeners s1) (ses_listensize s1)" using s1(1) by (simp add: ses_inv_def)
    then have "listeners_inv cn ((ses_listeners s1)[i := None]) (ses_listensize s1)" using l(1) s1(2) by (intro listeners_inv_upd) simp_all
    then have "ses_inv e cn (?s\<lparr>ses_listeners := (ses_listeners s1)[i := None], ses_listensize := ses_listensize ?s\<rparr>)"
      using ses_inv_listeners [OF i] close_socks_fields by metis
    then show "runs (ses_inv e cn) (if length (l_socks l) < unat (l_nsocks l) \<or> length (ses_listeners s1) \<le> l_index l then Inl OutOfBounds
       else Inr (?s\<lparr>ses_listeners := (ses_listeners s1)[l_index l := None]\<rparr>))"
      using l s1(2) by (simp add: listener_ok_def)
  qed
qed

section \<open>Listening sockets\<close>

lemma runs_listen_addrs:
  assumes "only_net s0 s" "length socks = N" "nsock \<le> cnt" "cnt \<le> N" "\<forall>r\<in>set rs. ai_family r \<noteq> AF_UNIX"
  shows "runs (\<lambda>(socks', n, s'). length socks' = N \<and> n \<le> cnt \<and> only_net s0 s') (listen_addrs nt rs lp lport socks nsock cnt s)"
  using assms
proof (induction rs arbitrary: lp lport socks nsock s)
  case (Cons r rs)
  have inet: "ai_family r \<noteq> AF_UNIX" using Cons.prems(5) by simp
  note ih = Cons.IH
  show ?case
    unfolding listen_addrs.simps Let_def
    apply (rule runs_if, use Cons.prems in simp)
    apply (rule runs_if, use inet in blast)
    by (intro runs_if ih) (use Cons.prems in simp_all)
qed simp

lemma runs_dropbear_listen:
  assumes nt: "net_ok nt" and "length socks = cnt"
  shows "runs (\<lambda>(r, s'). only_net s s' \<and> (\<forall>socks' n. r = Some (socks', n) \<longrightarrow> length socks' = cnt \<and> n \<le> cnt)) (dropbear_listen nt addr port socks cnt s)"
proof (cases "n_getaddrinfo nt (ses_tick s) (addr \<noteq> None) (case addr of None \<Rightarrow> None | Some a \<Rightarrow> if cstr a = [] then None else Some a) (Some port)")
  case (Inl err)
  then show ?thesis by (simp add: dropbear_listen_def Let_def)
next
  case (Inr rs)
  then have "\<forall>r\<in>set rs. ai_family r \<noteq> AF_UNIX" using nt unfolding net_ok_def by blast
  then have "runs (\<lambda>(socks', n, s'). length socks' = cnt \<and> n \<le> cnt \<and> only_net s s') (listen_addrs nt rs False 0 socks 0 cnt (tick s))"
    by (intro runs_listen_addrs) (use assms(2) in simp_all)
  then show ?thesis unfolding dropbear_listen_def Let_def Inr sum.case by (rule runs_rbind) auto
qed

lemma runs_listen_tcpfwd:
  assumes s: "ses_inv e cn s" and nt: "net_ok nt" and fl: "fl_chantype fl < length (cn_types cn)" "fl_request_listenaddr fl \<noteq> None"
  shows "runs (\<lambda>(r, s'). ses_inv e cn s' \<and> (\<forall>i. r = Some i \<longrightarrow> (\<exists>l. get_lst i s' = Inr l))) (listen_tcpfwd nt fl s)"
  unfolding listen_tcpfwd_def
proof (rule runs_rbind [OF runs_dropbear_listen [OF nt, of _ _ s]], simp, clarsimp)
  fix r :: "(int list \<times> nat) option" and s1 assume a: "only_net s s1" "\<forall>socks' n. r = Some (socks', n) \<longrightarrow> length socks' = DROPBEAR_MAX_SOCKS \<and> n \<le> DROPBEAR_MAX_SOCKS"
  have s1: "ses_inv e cn s1" using only_netD(1) [OF a(1)] s by simp
  show "runs (\<lambda>(r, s'). ses_inv e cn s' \<and> (\<forall>i. r = Some i \<longrightarrow> (\<exists>l. get_lst i s' = Inr l)))
     (case r of None \<Rightarrow> Inr (None, s1) | Some (socks, nsocks) \<Rightarrow>
        new_listener socks (word_of_nat nsocks) LISTENER_TYPE_TCPFORWARDED (Some fl) Tcp_acceptor (Some Cleanup_tcp) s1)"
  proof (cases r)
    case None
    then show ?thesis using s1 by simp
  next
    case (Some x)
    obtain socks n where x: "x = (socks, n)" by (cases x)
    then have "length socks = DROPBEAR_MAX_SOCKS" "n \<le> DROPBEAR_MAX_SOCKS" using a(2) Some by auto
    then show ?thesis using runs_new_listener [OF s1 _ _ _ _ fl, of "of_nat n" socks] Some x order_trans [OF unat_of_nat_le]
      by (simp add: LISTENER_TYPE_TCPFORWARDED_def)
  qed
qed

section \<open>TCP requests\<close>

lemma runs_find_listener:
  assumes "\<And>k l. k < length ls \<Longrightarrow> ls ! k = Some l \<Longrightarrow> l_type l = ty \<Longrightarrow> runs (\<lambda>_. True) (mt (l_typedata l))"
  shows "runs (\<lambda>r. \<forall>i. r = Some i \<longrightarrow> j \<le> i \<and> i - j < length ls \<and> (\<exists>l. ls ! (i - j) = Some l \<and> l_type l = ty)) (find_listener ls j ty mt)"
  using assms
proof (induction ls arbitrary: j)
  case (Cons x ls)
  have ih: "runs (\<lambda>r. \<forall>i. r = Some i \<longrightarrow> j \<le> i \<and> i - j < length (x # ls) \<and> (\<exists>l. (x # ls) ! (i - j) = Some l \<and> l_type l = ty)) (find_listener ls (Suc j) ty mt)"
    by (rule runs_weaken [OF Cons.IH [of "Suc j"]])
      (use Cons.prems [of "Suc _"] in \<open>auto simp: Suc_le_eq nth_Cons' Suc_diff_Suc simp flip: diff_Suc_eq_diff_pred\<close>)
  show ?case
  proof (cases x)
    case None
    then show ?thesis using ih by simp
  next
    case (Some l)
    show ?thesis
    proof (cases "l_type l = ty")
      case True
      have "runs (\<lambda>_. True) (mt (l_typedata l))" using Cons.prems [of 0 l] Some True by simp
      then show ?thesis unfolding Some find_listener.simps using True ih [unfolded Some]
        by (simp split del: if_split) (erule runs_rbind, simp)
    qed (use ih Some in simp)
  qed
qed simp

lemma runs_get_tcp_listener:
  assumes s: "ses_inv e cn s" and info: "fl_request_listenaddr info \<noteq> None"
  shows "runs (\<lambda>r. \<forall>i. r = Some i \<longrightarrow> (\<exists>l. get_lst i s = Inr l)) (get_listener LISTENER_TYPE_TCPFORWARDED (matchtcp info) s)"
proof -
  have inv: "listeners_inv cn (ses_listeners s) (ses_listensize s)" using s by (simp add: ses_inv_def)
  have m: "runs (\<lambda>_. True) (matchtcp info (l_typedata l))" if l: "k < length (ses_listeners s)" "ses_listeners s ! k = Some l" "l_type l = LISTENER_TYPE_TCPFORWARDED" for k l
  proof -
    have "listener_ok cn l" using inv l(1,2) by (simp add: listeners_inv_def)
    then obtain fl where "l_typedata l = Some fl" "fl_request_listenaddr fl \<noteq> None"
      using l(3) by (auto simp: listener_ok_def LISTENER_TYPE_TCPFORWARDED_def)
    then show ?thesis using info by (auto simp: matchtcp_def)
  qed
  have "runs (\<lambda>r. \<forall>i. r = Some i \<longrightarrow> 0 \<le> i \<and> i - 0 < length (ses_listeners s) \<and> (\<exists>l. ses_listeners s ! (i - 0) = Some l \<and> l_type l = LISTENER_TYPE_TCPFORWARDED))
      (find_listener (ses_listeners s) 0 LISTENER_TYPE_TCPFORWARDED (matchtcp info))"
    by (rule runs_find_listener) (rule m)
  moreover have "get_listener LISTENER_TYPE_TCPFORWARDED (matchtcp info) s = find_listener (ses_listeners s) 0 LISTENER_TYPE_TCPFORWARDED (matchtcp info)"
    using inv by (simp add: get_listener_def listeners_inv_def)
  ultimately show ?thesis by (auto elim!: runs_weaken simp: get_lst_def)
qed

lemma runs_cancelremotetcp:
  assumes s: "ses_inv e cn s" "ses_payload s = Some pb"
  shows "runs (\<lambda>(r, s'). ses_inv e cn s') (svr_cancelremotetcp s)"
  unfolding svr_cancelremotetcp_def s(2) option.case Let_def
  apply (rule runs_rbind [OF runs_getstring [OF ses_inv_pb [OF s]]], clarsimp split del: if_split)
  apply (rule runs_if, simp, rule ses_inv_payload [OF s(1) same_buf_wf], assumption)
  apply (rule runs_rbind [OF runs_getint [OF same_buf_wf]], assumption, clarsimp split del: if_split)
  apply (rule runs_rbind [OF runs_get_tcp_listener], rule ses_inv_payload [OF s(1) same_buf_wf], assumption, simp)
  subgoal for addr n b1 port b2 r
    using runs_remove_listener [of e cn "s\<lparr>ses_payload := Some b2\<rparr>"] ses_inv_payload [OF s(1), of b2]
    by (auto simp: same_buf_def split: option.split intro!: runs_rbind)
  done

lemma set_listenport_inv:
  assumes s: "ses_inv e cn s" "get_lst i s = Inr l"
  shows "\<exists>s'. set_listenport i p s = Inr s' \<and> ses_inv e cn s'"
proof -
  note l = ses_inv_lst [OF s]
  let ?l = "l\<lparr>l_typedata := map_option (\<lambda>fl. fl\<lparr>fl_listenport := p\<rparr>) (l_typedata l)\<rparr>"
  have "listener_ok cn ?l" using l(4) by (auto simp: listener_ok_def)
  moreover have "listeners_inv cn (ses_listeners s) (ses_listensize s)" using s(1) by (simp add: ses_inv_def)
  ultimately have "listeners_inv cn ((ses_listeners s)[i := Some ?l]) (ses_listensize s)" using l by (intro listeners_inv_upd) simp_all
  from ses_inv_listeners [OF s(1) this] show ?thesis by (simp add: set_listenport_def s(2))
qed

lemma runs_remotetcp_reply:
  assumes "ses_inv e cn s" shows "runs (ses_inv e cn) (remotetcp_reply e ok chosen s)"
proof -
  note wp = send_ok_D(1) [OF ses_inv_send [OF assms]]
  have "runs (grown (ses_writepayload s)) (if ok
            then rbind (buf_putbyte (ses_writepayload s) SSH_MSG_REQUEST_SUCCESS) (\<lambda>wp.
                 case chosen of None \<Rightarrow> Inr wp | Some p \<Rightarrow> buf_putint wp p)
            else buf_putbyte (ses_writepayload s) SSH_MSG_REQUEST_FAILURE)"
    by (auto intro!: runs_rbind [OF runs_putbyte [OF wp]] runs_putbyte [OF wp] runs_putint_grown split: option.split)
  from runs_send_inv [OF assms this] show ?thesis unfolding remotetcp_reply_def by (rule runs_weaken) simp
qed

lemma runs_remotetcpreq:
  assumes s: "ses_inv e cn s" "ses_payload s = Some pb" and nt: "net_ok nt" and ct: "CT_TCPREMOTE < length (cn_types cn)"
  shows "runs (\<lambda>(r, s'). ses_inv e cn s') (svr_remotetcpreq e nt so wantreply s)"
proof -
  have out: "runs (\<lambda>(r, s'). ses_inv e cn s') (rbind (if wantreply then remotetcp_reply e ok chosen s1 else Inr s1) (\<lambda>s. Inr (ok, s)))"
    if "ses_inv e cn s1" for ok chosen s1
    by (rule runs_rbind [where Q = "ses_inv e cn"]) (use that runs_remotetcp_reply in auto)
  have fin: "runs (\<lambda>(r, s'). ses_inv e cn s') (rbind (set_listenport i p (tick s1)) (\<lambda>s.
      rbind (if wantreply then remotetcp_reply e True chosen s else Inr s) (\<lambda>s. Inr (True, s))))"
    if pr: "ses_inv e cn s1" "get_lst i s1 = Inr l" for i p s1 l chosen
  proof -
    have "get_lst i (tick s1) = Inr l" using pr(2) get_lst_same [of s1 "tick s1" i] by simp
    then obtain s2 where "set_listenport i p (tick s1) = Inr s2" "ses_inv e cn s2" using set_listenport_inv [of e cn "tick s1" i l p] pr(1) by auto
    then show ?thesis using out [of s2 True chosen] by simp
  qed
  show ?thesis
    unfolding svr_remotetcpreq_def s(2) option.case Let_def
    apply (rule runs_rbind [OF runs_getstring [OF ses_inv_pb [OF s]]], clarsimp split del: if_split)
    apply (rule runs_if, rule out, rule ses_inv_payload [OF s(1) same_buf_wf], assumption)
    apply (rule runs_rbind [OF runs_getint [OF same_buf_wf]], assumption, clarsimp split del: if_split)
    apply (rule runs_if, rule out, rule ses_inv_payload [OF s(1) same_buf_wf], assumption)
    apply (rule runs_if, rule out, rule ses_inv_payload [OF s(1) same_buf_wf], assumption)
    apply (rule runs_rbind [OF runs_listen_tcpfwd [OF _ nt]], rule ses_inv_payload [OF s(1) same_buf_wf], assumption,
      simp add: ct, simp, clarsimp split del: if_split)
    subgoal for addr n b1 port b2 r s1
      apply (cases r, simp only: option.case, rule out, assumption)
      apply (clarsimp split del: if_split)
      subgoal for i l
        using ses_inv_lst(4) [of e cn s1 i l] by (intro runs_if fin) (auto simp: listener_ok_def DROPBEAR_MAX_SOCKS_def)
      done
    done
qed

section \<open>Unix socket requests\<close>

lemma keeps_listen_streamlocal:
  assumes s: "ses_inv e cn s" and fl: "fl_chantype fl < length (cn_types cn)" "fl_request_listenaddr fl \<noteq> None"
  shows "keeps (\<lambda>(r, s'). ses_inv e cn s') (listen_streamlocal e nt fl s)"
proof (cases "fl_socket_path fl")
  case None
  then show ?thesis using s by (simp add: listen_streamlocal_def)
next
  case (Some path)
  have cl: "keeps (\<lambda>(r, s'). ses_inv e cn s') (rbind (m_close e fd s1) (\<lambda>s. Inr (None, s)))" if "ses_inv e cn s1" for fd s1
    using that by (simp add: m_close_def)
  have un: "ses_inv e cn (unlink_streamsocket path s1) = ses_inv e cn s1" for s1 by (simp add: unlink_streamsocket_def)
  have nl: "keeps (\<lambda>(r, s'). ses_inv e cn s') (rbind (new_listener [fd] 1 LISTENER_TYPE_STREAMFORWARDED (Some fl) Streamlocal_acceptor (Some Cleanup_streamlocal) s1)
     (\<lambda>(r, s). case r of Some i \<Rightarrow> Inr (Some i, s) | None \<Rightarrow> rbind (m_close e fd (unlink_streamsocket path s)) (\<lambda>s. Inr (None, s))))"
    if pr: "ses_inv e cn s1" for fd s1
  proof (rule keeps_runs [OF runs_new_listener [OF pr]], goal_cases)
    case (8 x)
    then show ?case using cl un by (auto split: option.split prod.split)
  qed (use fl in \<open>simp_all add: DROPBEAR_MAX_SOCKS_def LISTENER_TYPE_STREAMFORWARDED_def\<close>)
  show ?thesis
    unfolding listen_streamlocal_def Some option.case Let_def
    apply (rule keeps_if, use s in simp)
    apply (rule keeps_if, use s in simp)
    apply (rule keeps_if, rule cl, use s un in simp)
    apply (rule keeps_if, rule cl, use s un in simp)
    by (rule nl) (use s un in simp)
qed

lemma cancelremotestreamlocal_result:
  assumes s: "ses_inv e cn s" "ses_payload s = Some pb"
  shows "runs (\<lambda>(r, s'). \<not> r \<and> (\<exists>b. buf_wf b \<and> s' = s\<lparr>ses_payload := Some b\<rparr>)) (svr_cancelremotestreamlocal s)"
proof -
  have inv: "listeners_inv cn (ses_listeners s) (ses_listensize s)" using s(1) by (simp add: ses_inv_def)
  have f: "find_listener ls j CHANNEL_ID_STREAMLOCALFORWARDED mt = Inr None" if "\<forall>l. Some l \<in> set ls \<longrightarrow> l_type l \<le> 2" for ls j mt
    using that by (induction ls j CHANNEL_ID_STREAMLOCALFORWARDED mt rule: find_listener.induct) (auto simp: CHANNEL_ID_STREAMLOCALFORWARDED_def)
  have "\<forall>l. Some l \<in> set (ses_listeners s) \<longrightarrow> l_type l \<le> 2" using inv by (auto simp: listeners_inv_def listener_ok_def in_set_conv_nth)
  then have g: "get_listener CHANNEL_ID_STREAMLOCALFORWARDED mt (s\<lparr>ses_payload := b\<rparr>) = Inr None" for mt b
    using inv f by (simp add: get_listener_def listeners_inv_def)
  show ?thesis
    unfolding svr_cancelremotestreamlocal_def s(2) option.case Let_def g rbind_simps
    by (rule runs_rbind [OF runs_getstring [OF ses_inv_pb [OF s]]]) (auto simp: same_buf_def)
qed

lemma find_listener_first:
  assumes "\<And>m l. m < length ls \<Longrightarrow> ls ! m = Some l \<Longrightarrow> l_type l = ty \<Longrightarrow> \<exists>b. mt (l_typedata l) = Inr b"
    and "k < length ls" "ls ! k = Some l" "l_type l = ty" "mt (l_typedata l) = Inr True"
  shows "\<exists>m l'. m \<le> k \<and> ls ! m = Some l' \<and> l_type l' = ty \<and> mt (l_typedata l') = Inr True \<and> find_listener ls j ty mt = Inr (Some (j + m))"
  using assms
proof (induction ls arbitrary: j k)
  case (Cons x ls)
  have more: "\<exists>m l'. m \<le> k \<and> (x # ls) ! m = Some l' \<and> l_type l' = ty \<and> mt (l_typedata l') = Inr True \<and> find_listener ls (Suc j) ty mt = Inr (Some (j + m))"
    if k: "k = Suc k'" for k'
  proof -
    have "\<exists>m l'. m \<le> k' \<and> ls ! m = Some l' \<and> l_type l' = ty \<and> mt (l_typedata l') = Inr True \<and> find_listener ls (Suc j) ty mt = Inr (Some (Suc j + m))"
    proof (rule Cons.IH)
      show "\<exists>b. mt (l_typedata l) = Inr b" if "m < length ls" "ls ! m = Some l" "l_type l = ty" for m l
        using Cons.prems(1) [of "Suc m" l] that by simp
    qed (use Cons.prems k in auto)
    then obtain m l' where "m \<le> k'" "ls ! m = Some l'" "l_type l' = ty" "mt (l_typedata l') = Inr True"
      "find_listener ls (Suc j) ty mt = Inr (Some (Suc j + m))" by blast
    then show ?thesis using k by (intro exI [of _ "Suc m"] exI [of _ l']) simp
  qed
  show ?case
  proof (cases "\<exists>l0. x = Some l0 \<and> l_type l0 = ty \<and> mt (l_typedata l0) = Inr True")
    case True
    then show ?thesis by (intro exI [of _ 0]) auto
  next
    case False
    then obtain k' where k: "k = Suc k'" using Cons.prems(3-5) by (cases k) auto
    have "find_listener (x # ls) j ty mt = find_listener ls (Suc j) ty mt"
      using False Cons.prems(1) [of 0] by (cases x) auto
    then show ?thesis using more [OF k] by simp
  qed
qed simp

definition forwards :: "bytes \<Rightarrow> u32 \<Rightarrow> Listener \<Rightarrow> bool" where
  "forwards addr port l \<longleftrightarrow> l_type l = LISTENER_TYPE_TCPFORWARDED \<and> (\<exists>fl a. l_typedata l = Some fl \<and> fl_listenport fl = port
     \<and> fl_request_listenaddr fl = Some a \<and> cstr a = addr)"

lemma remove_listener_result:
  assumes s: "ses_inv e cn s" "get_lst k s = Inr l" and r: "remove_listener k s = Inr s'"
  shows "ses_listeners s' = (ses_listeners s)[k := None]" "\<forall>fd\<in>set (take (unat (l_nsocks l)) (l_socks l)). EvClose fd \<in> set (ses_trace s')"
proof -
  have tr: "set (ses_trace (close_socks fds s1)) = set (ses_trace s1) \<union> EvClose ` set fds" for fds and s1 :: "('c, 'z) session"
    unfolding close_socks_def by (induction fds arbitrary: s1) (auto simp: close_fd_def log_event_def tick_def)
  obtain s1 where c: "(case l_cleanup l of None \<Rightarrow> Inr s | Some Cleanup_tcp \<Rightarrow> cleanup_tcp l s | Some Cleanup_streamlocal \<Rightarrow> cleanup_streamlocal l s) = Inr s1"
    "s' = (close_socks (take (unat (l_nsocks l)) (l_socks l)) s1)\<lparr>ses_listeners := (ses_listeners s1)[l_index l := None]\<rparr>"
    using r unfolding remove_listener_def s(2) rbind_simps by (elim rbind_InrE) (auto split: if_splits)
  moreover from c(1) have "ses_listeners s1 = ses_listeners s"
    by (auto split: option.splits cleanup.splits simp: cleanup_tcp_def cleanup_streamlocal_def unlink_streamsocket_def log_event_def)
  ultimately show "ses_listeners s' = (ses_listeners s)[k := None]" "\<forall>fd\<in>set (take (unat (l_nsocks l)) (l_socks l)). EvClose fd \<in> set (ses_trace s')"
    using ses_inv_lst(3) [OF s] by (auto simp: tr)
qed

lemma matchtcp_forwards:
  assumes "ses_inv e cn s" "get_lst k s = Inr l" "l_type l = LISTENER_TYPE_TCPFORWARDED" "fl_request_listenaddr info = Some a" "fl_listenport info = port"
  shows "matchtcp info (l_typedata l) = Inr (forwards (cstr a) port l)"
proof -
  obtain fl b where "l_typedata l = Some fl" "fl_request_listenaddr fl = Some b"
    using ses_inv_lst(4) [OF assms(1,2)] assms(3) by (auto simp: listener_ok_def LISTENER_TYPE_TCPFORWARDED_def)
  then show ?thesis using assms(3-5) by (auto simp: matchtcp_def forwards_def)
qed

text \<open>
  C39. A forwarded port can be cancelled: the request \<^verbatim>\<open>cancel-tcpip-forward\<close> with the address and
  port of a listener succeeds, removes the first listener with that address and port and no other,
  and closes its sockets.
\<close>

theorem cancel_tcpip_forward:
  assumes s: "ses_inv e cn s" "get_lst i s = Inr l" "forwards (cstr addr) port l"
    and pb: "ses_payload s = Some pb" "reads pb (sshstr addr @ store32h port @ t)" "length addr \<le> 254"
  shows "\<exists>k l' s'. svr_cancelremotetcp s = Inr (True, s') \<and> k \<le> i \<and> get_lst k s = Inr l' \<and> forwards (cstr addr) port l'
    \<and> ses_listeners s' = (ses_listeners s)[k := None]
    \<and> (\<forall>fd\<in>set (take (unat (l_nsocks l')) (l_socks l')). EvClose fd \<in> set (ses_trace s'))"
proof -
  have inv: "unat (ses_listensize s) = length (ses_listeners s)" using s(1) by (simp add: ses_inv_def listeners_inv_def)
  have c0: "cstr (addr @ [0]) = cstr addr" by (simp add: cstr_def takeWhile_tail)
  have g: "buf_getstring pb = Inr (addr @ [0], of_nat (length addr), buf_adv pb (4 + length addr))"
    "reads (buf_adv pb (4 + length addr)) (store32h port @ t)" using getstring_reads [OF pb(2)] pb(3) by simp_all
  let ?b = "buf_adv (buf_adv pb (4 + length addr)) 4" let ?s = "s\<lparr>ses_payload := Some ?b\<rparr>"
  have g2: "buf_getint (buf_adv pb (4 + length addr)) = Inr (port, ?b)" "reads ?b t" using getint_reads [OF g(2)] by simp_all
  let ?info = "zero_fwd\<lparr>fl_request_listenaddr := Some (addr @ [0]), fl_listenport := port\<rparr>"
  have mt: "matchtcp ?info (l_typedata x) = Inr (forwards (cstr addr) port x)"
    if "get_lst m s = Inr x" "l_type x = LISTENER_TYPE_TCPFORWARDED" for m x
    using matchtcp_forwards [OF s(1) that, of ?info "addr @ [0]" port] c0 by simp
  have gl: "get_lst m s = Inr x" if "m < length (ses_listeners s)" "ses_listeners s ! m = Some x" for m x using that by (simp add: get_lst_def)
  note li = ses_inv_lst [OF s(1,2)]
  have ty: "l_type l = LISTENER_TYPE_TCPFORWARDED" using s(3) by (simp add: forwards_def)
  have all: "\<exists>b. matchtcp ?info (l_typedata x) = Inr b"
    if "m < length (ses_listeners s)" "ses_listeners s ! m = Some x" "l_type x = LISTENER_TYPE_TCPFORWARDED" for m x
    using mt [OF gl [OF that(1,2)] that(3)] by blast
  have this_one: "matchtcp ?info (l_typedata l) = Inr True" using mt [OF s(2) ty] s(3) by simp
  obtain k l' where k: "k \<le> i" "ses_listeners s ! k = Some l'" "l_type l' = LISTENER_TYPE_TCPFORWARDED" "matchtcp ?info (l_typedata l') = Inr True"
    "find_listener (ses_listeners s) 0 LISTENER_TYPE_TCPFORWARDED (matchtcp ?info) = Inr (Some k)"
    using find_listener_first [where j = 0 and ls = "ses_listeners s" and mt = "matchtcp ?info" and ty = LISTENER_TYPE_TCPFORWARDED, OF _ li(1,2) ty this_one] all by auto
  have kl: "get_lst k s = Inr l'" using gl k(1,2) li(1) by simp
  have inv': "ses_inv e cn ?s" using ses_inv_payload [OF s(1)] g2(2) by (simp add: reads_def)
  have kl': "get_lst k ?s = Inr l'" using kl get_lst_same [of s ?s k] by simp
  have "\<exists>s'. remove_listener k ?s = Inr s'"
  proof -
    have "listener_ok cn l'" by (rule ses_inv_lst(4) [OF s(1) kl])
    moreover have "\<exists>s2. (case l_cleanup l' of None \<Rightarrow> Inr ?s | Some Cleanup_tcp \<Rightarrow> cleanup_tcp l' ?s | Some Cleanup_streamlocal \<Rightarrow> cleanup_streamlocal l' ?s) = Inr s2
        \<and> ses_listeners s2 = ses_listeners s"
      using calculation by (auto simp: listener_ok_def cleanup_tcp_def cleanup_streamlocal_def unlink_streamsocket_def log_event_def split: option.split cleanup.split)
    ultimately show ?thesis using ses_inv_lst(1,3) [OF s(1) kl] by (auto simp: remove_listener_def kl' listener_ok_def)
  qed
  then obtain s' where s': "remove_listener k ?s = Inr s'" by blast
  have len: "\<not> MAX_HOST_LEN < (of_nat (length addr) :: u32)" using pb(3) by (simp add: MAX_HOST_LEN_def word_less_nat_alt)
  have "svr_cancelremotetcp s = Inr (True, s')"
    using k(5) s' inv len by (simp add: svr_cancelremotetcp_def pb(1) g g2 get_listener_def)
  moreover have "forwards (cstr addr) port l'" using mt [OF kl k(3)] k(4) by simp
  ultimately show ?thesis using k(1) kl remove_listener_result [OF inv' kl' s'] by (intro exI [of _ k] exI [of _ l'] exI [of _ s']) simp
qed

definition demo_fwd :: FwdListener where
  "demo_fwd = zero_fwd\<lparr>fl_chantype := 0, fl_listenport := 8080, fl_request_listenaddr := Some [104, 0]\<rparr>"

definition demo_listener :: Listener where
  "demo_listener = \<lparr>l_socks = [5, 0], l_nsocks = 1, l_index = 0, l_acceptor = Tcp_acceptor, l_cleanup = Some Cleanup_tcp,
     l_type = LISTENER_TYPE_TCPFORWARDED, l_typedata = Some demo_fwd\<rparr>"

definition demo_fwd_session :: "bytes \<Rightarrow> (unit, unit) session" where
  "demo_fwd_session bs = (demo_session bs)\<lparr>ses_listeners := [Some demo_listener], ses_listensize := 1\<rparr>"

lemma demo_fwd_inv: "length bs \<le> 1000000 \<Longrightarrow> ses_inv null_env demo_chan_env (demo_fwd_session bs)"
  unfolding demo_fwd_session_def
proof (rule ses_inv_listeners)
  show "ses_inv null_env demo_chan_env (demo_session bs)" if "length bs \<le> 1000000"
    using demo_inv [OF that, of "e_read null_env"] null_env_ok by simp
  show "listeners_inv demo_chan_env [Some demo_listener] 1"
    by (simp add: listeners_inv_def listener_ok_def demo_listener_def demo_fwd_def DROPBEAR_MAX_SOCKS_def LISTENER_TYPE_TCPFORWARDED_def demo_chan_env_def)
qed

theorem cancel_tcpip_forward_witness:
  "\<exists>s'. svr_cancelremotetcp (demo_fwd_session (sshstr [104] @ store32h 8080)) = Inr (True, s') \<and> ses_listeners s' = [None] \<and> EvClose 5 \<in> set (ses_trace s')"
proof -
  let ?bs = "sshstr [104] @ store32h 8080 @ []"
  have i: "ses_inv null_env demo_chan_env (demo_fwd_session ?bs)" by (rule demo_fwd_inv) (simp add: sshstr_def)
  have g: "get_lst 0 (demo_fwd_session ?bs) = Inr demo_listener" by (simp add: get_lst_def demo_fwd_session_def)
  have f: "forwards (cstr [104]) 8080 demo_listener" by (simp add: forwards_def demo_listener_def demo_fwd_def cstr_def)
  have p: "ses_payload (demo_fwd_session ?bs) = Some (demo_buf ?bs)" "reads (demo_buf ?bs) ?bs"
    using demo_payload [of ?bs] by (simp_all add: demo_fwd_session_def demo_fields sshstr_def)
  obtain l' s' where r: "svr_cancelremotetcp (demo_fwd_session ?bs) = Inr (True, s')" "get_lst 0 (demo_fwd_session ?bs) = Inr l'"
    "ses_listeners s' = (ses_listeners (demo_fwd_session ?bs))[0 := None]" "\<forall>fd\<in>set (take (unat (l_nsocks l')) (l_socks l')). EvClose fd \<in> set (ses_trace s')"
    using cancel_tcpip_forward [OF i g f p] by auto
  moreover have "l' = demo_listener" using r(2) g by simp
  ultimately show ?thesis by (intro exI [of _ s']) (simp add: demo_fwd_session_def demo_listener_def)
qed

text \<open>
  C40. The code dereferences a null pointer: a \<^verbatim>\<open>streamlocal-forward@openssh.com\<close> request that is refused
  because of a forced command, a long path or a path with a NUL reaches \<^verbatim>\<open>m_free(tcpinfo->socket_path)\<close>
  while \<^verbatim>\<open>tcpinfo\<close> is still NULL, which ends the server process of the session.
\<close>

theorem streamlocal_forward_null:
  assumes pb: "ses_payload s = Some pb" "reads pb (sshstr (lit ''streamlocal-forward@openssh.com'') @ w # sshstr path @ t)" "length path \<le> 9000"
    and on: "\<not> svr_noremotefwd so" "svr_pubkey_allows_tcpfwd s"
    and bad: "svr_forced_command so \<noteq> None \<or> svr_pubkey_has_forced_command s \<or> 254 < length path \<or> 0 \<in> set path"
  shows "svr_recv_msg_global_request e nt so s = Inl NullDeref"
proof -
  let ?n = "lit ''streamlocal-forward@openssh.com''"
  have n: "length ?n = 31" "cstr (?n @ [0]) = ?n" by (simp_all add: lit_def cstr_def)
  let ?b1 = "buf_adv pb 35" let ?b2 = "buf_adv ?b1 1" let ?b3 = "buf_adv ?b2 (4 + length path)"
  have g: "buf_getstring pb = Inr (?n @ [0], 31, ?b1)" "reads ?b1 (w # sshstr path @ t)" using getstring_reads [OF pb(2)] n by simp_all
  have g2: "buf_getbool ?b1 = Inr (w \<noteq> 0, ?b2)" "reads ?b2 (sshstr path @ t)" using getbool_reads [OF g(2)] by simp_all
  have g3: "buf_getstring ?b2 = Inr (path @ [0], of_nat (length path), ?b3)" using getstring_reads [OF g2(2) pb(3)] by simp
  have c: "length (cstr (path @ [0])) \<noteq> length path" if "0 \<in> set path"
  proof
    assume l: "length (cstr (path @ [0])) = length path"
    have "cstr (path @ [0]) = takeWhile (\<lambda>c. c \<noteq> 0) path" by (simp add: cstr_def takeWhile_tail)
    then have "takeWhile (\<lambda>c. c \<noteq> 0) path = path" using l takeWhile_eq_take [of "\<lambda>c. c \<noteq> 0" path] by simp
    then show False using that by (metis set_takeWhileD)
  qed
  have u: "unat (of_nat (length path) :: u32) = length path" using pb(3) by simp
  have "svr_remotestreamlocalreq e nt so (s\<lparr>ses_payload := Some ?b2\<rparr>) = Inl NullDeref"
    using bad g3 c u on by (auto simp: svr_remotestreamlocalreq_def svr_pubkey_has_forced_command_def svr_pubkey_allows_tcpfwd_def
        MAX_HOST_LEN_def word_less_nat_alt)
  then show ?thesis using on g g2 n
    by (simp add: svr_recv_msg_global_request_def pb(1) svr_pubkey_allows_tcpfwd_def MAX_NAME_LEN_def) (simp add: lit_def)
qed

definition demo_opts :: svr_opts where
  "demo_opts = \<lparr>svr_nolocaltcp = False, svr_noremotefwd = False, svr_forced_command = None, svr_interface = None, opts_listen_fwd_all = False\<rparr>"

definition demo_net :: net where
  "demo_net = \<lparr>n_getaddrinfo = (\<lambda>_ _ _ _. Inr []), n_socket = (\<lambda>_ _. 9), n_bind_from = (\<lambda>_ _ _ _. None), n_bind = (\<lambda>_ _ _. True),
     n_listen = (\<lambda>_ _. True), n_connect = (\<lambda>_ _ _. None), n_sockopt = (\<lambda>_ _. Some 0), n_strerror = (\<lambda>_. []),
     n_sock_port = (\<lambda>_ _. 8080), n_accept = (\<lambda>_ _. 10), n_peername = (\<lambda>_ _. None)\<rparr>"

lemma demo_net_ok: "net_ok demo_net"
  by (simp add: net_ok_def demo_net_def)

theorem streamlocal_forward_null_witness:
  "svr_recv_msg_global_request null_env demo_net demo_opts
     (demo_session (sshstr (lit ''streamlocal-forward@openssh.com'') @ 1 # sshstr [47, 0] @ [])) = Inl NullDeref"
proof -
  let ?bs = "sshstr (lit ''streamlocal-forward@openssh.com'') @ 1 # sshstr [47, 0] @ []"
  have "reads (demo_buf ?bs) ?bs" by (rule demo_payload) (simp add: sshstr_def lit_def)
  from streamlocal_forward_null [OF demo_fields(2) this, where nt = demo_net and e = null_env and so = demo_opts] show ?thesis
    by (simp add: demo_opts_def svr_pubkey_allows_tcpfwd_def) (simp add: demo_session_def zero_authstate_def)
qed

text \<open>
  \<^verbatim>\<open>cancel-streamlocal-forward@openssh.com\<close> never cancels anything: the request looks for a listener
  of type \<^verbatim>\<open>CHANNEL_ID_STREAMLOCALFORWARDED\<close>, while the listeners of Unix sockets have the type
  \<^verbatim>\<open>LISTENER_TYPE_STREAMFORWARDED\<close>. It fails and changes nothing but the position in the payload, or the session
  ends because the packet is malformed.
\<close>

theorem cancel_streamlocal_never:
  assumes "ses_inv e cn s" "ses_payload s = Some pb"
  shows "(\<exists>x. svr_cancelremotestreamlocal s = Inl x \<and> clean x)
    \<or> (\<exists>b. svr_cancelremotestreamlocal s = Inr (False, s\<lparr>ses_payload := Some b\<rparr>))"
  using cancelremotestreamlocal_result [OF assms]
  by (cases "svr_cancelremotestreamlocal s") auto

theorem cancel_streamlocal_never_witness:
  "(\<exists>x. svr_cancelremotestreamlocal (demo_fwd_session (sshstr [47])) = Inl x \<and> clean x)
    \<or> (\<exists>b. svr_cancelremotestreamlocal (demo_fwd_session (sshstr [47])) = Inr (False, (demo_fwd_session (sshstr [47]))\<lparr>ses_payload := Some b\<rparr>))"
proof -
  have i: "ses_inv null_env demo_chan_env (demo_fwd_session (sshstr [47]))" by (rule demo_fwd_inv) (simp add: sshstr_def)
  have p: "ses_payload (demo_fwd_session (sshstr [47])) = Some (demo_buf (sshstr [47]))" by (simp add: demo_fwd_session_def demo_fields)
  show ?thesis by (rule cancel_streamlocal_never [OF i p])
qed

section \<open>Every global request\<close>

text \<open>\<open>fine b P m\<close>: \<open>m\<close> keeps \<open>P\<close>, or, where \<open>b\<close> allows it, is the null dereference of a refused Unix socket request.\<close>

definition fine :: "bool \<Rightarrow> ('a \<Rightarrow> bool) \<Rightarrow> 'a res \<Rightarrow> bool" where
  "fine b P m \<longleftrightarrow> keeps P m \<or> (b \<and> m = Inl NullDeref)"

lemma fineI: "keeps P m \<Longrightarrow> fine b P m"
  by (simp add: fine_def)

lemma fine_rbind: "fine b Q m \<Longrightarrow> (\<And>x. Q x \<Longrightarrow> fine b P (f x)) \<Longrightarrow> fine b P (rbind m f)"
  by (cases m) (auto simp: fine_def)

lemma fine_runs: "runs Q m \<Longrightarrow> (\<And>x. Q x \<Longrightarrow> fine b P (f x)) \<Longrightarrow> fine b P (rbind m f)"
  by (rule fine_rbind [OF fineI [OF runs_keeps]])

lemma fine_if: "(c \<Longrightarrow> fine b P x) \<Longrightarrow> (\<not> c \<Longrightarrow> fine b P y) \<Longrightarrow> fine b P (if c then x else y)"
  by simp

lemma fine_remotestreamlocalreq:
  assumes s: "ses_inv e cn s" "ses_payload s = Some pb" and ct: "CT_STREAMLOCALREMOTE < length (cn_types cn)"
  shows "fine True (\<lambda>(r, s'). ses_inv e cn s') (svr_remotestreamlocalreq e nt so s)"
  unfolding svr_remotestreamlocalreq_def s(2) option.case Let_def
  apply (rule fine_if, simp add: fine_def)
  apply (rule fine_if, simp add: fine_def)
  apply (rule fine_runs [OF runs_getstring [OF ses_inv_pb [OF s]]], clarsimp split del: if_split)
  apply (rule fine_if, simp add: fine_def)
  apply (rule fineI, rule keeps_rbind [OF keeps_listen_streamlocal], rule ses_inv_payload [OF s(1) same_buf_wf], assumption, simp add: ct, simp)
  by (auto split: option.split)

lemma keeps_request_reply:
  assumes "ses_inv e cn s"
  shows "keeps (ses_inv e cn) (send_msg_request_success e s)" "keeps (ses_inv e cn) (send_msg_request_failure e s)"
  unfolding send_msg_request_success_def send_msg_request_failure_def
  using runs_keeps [OF runs_send_inv [OF assms runs_putbyte [OF send_ok_D(1) [OF ses_inv_send [OF assms]]]]] by auto

lemma global_request_kept:
  fixes s :: "('c, 'z) session"
  assumes s: "ses_inv e cn s" "ses_payload s = Some pb" and nt: "net_ok nt"
    and ct: "CT_TCPREMOTE < length (cn_types cn)" "CT_STREAMLOCALREMOTE < length (cn_types cn)"
  shows "fine (\<exists>nm n b. buf_getstring pb = Inr (nm, n, b) \<and> cstr nm = lit ''streamlocal-forward@openssh.com'')
    (ses_inv e cn) (svr_recv_msg_global_request e nt so s)"
proof (cases "buf_getstring pb")
  case (Inl x)
  then show ?thesis using runs_keeps [OF runs_getstring [OF ses_inv_pb [OF s]], of "\<lambda>_. True"] by (simp add: svr_recv_msg_global_request_def s(2) fine_def)
next
  case (Inr x)
  obtain nm n b where x: "x = (nm, n, b)" by (cases x)
  have b: "same_buf pb b" using runs_getstring [OF ses_inv_pb [OF s]] Inr x by simp
  let ?B = "cstr nm = lit ''streamlocal-forward@openssh.com''"
  define out where "out = (\<lambda>wantreply (ret, s :: ('c, 'z) session). if \<not> wantreply then Inr s else if ret then send_msg_request_success e s else send_msg_request_failure e s)"
  have outk: "keeps (ses_inv e cn) (out w x)" if "case x of (r, s') \<Rightarrow> ses_inv e cn s'" for w x
    using that keeps_request_reply by (auto simp: out_def split: prod.split)
  have sub: "fine ?B (ses_inv e cn) (rbind m (out w))" if "keeps (\<lambda>(r, s'). ses_inv e cn s') m" for m w
    by (rule fineI, rule keeps_rbind [OF that outk])
  have rest: "fine ?B (ses_inv e cn) (if svr_noremotefwd so \<or> \<not> svr_pubkey_allows_tcpfwd s1 then out w (False, s1)
        else if n > MAX_NAME_LEN then out w (False, s1)
        else if cstr nm = lit ''tcpip-forward'' then rbind (svr_remotetcpreq e nt so w s1) (out False)
        else if cstr nm = lit ''cancel-tcpip-forward'' then rbind (svr_cancelremotetcp s1) (out w)
        else if cstr nm = lit ''streamlocal-forward@openssh.com'' then rbind (svr_remotestreamlocalreq e nt so s1) (out w)
        else if cstr nm = lit ''cancel-streamlocal-forward@openssh.com'' then rbind (svr_cancelremotestreamlocal s1) (out w)
        else out w (False, s1))" if s1: "ses_inv e cn s1" "ses_payload s1 = Some b'" for s1 w b'
  proof (intro fine_if, goal_cases)
    case 3
    show ?case by (rule sub, rule runs_keeps [OF runs_remotetcpreq [OF s1 nt ct(1)]])
  next
    case 4
    show ?case by (rule sub, rule runs_keeps [OF runs_cancelremotetcp [OF s1]])
  next
    case 5
    show ?case by (rule fine_rbind [OF _ fineI [OF outk]]) (use fine_remotestreamlocalreq [OF s1 ct(2)] 5 in auto)
  next
    case 6
    show ?case by (rule sub, rule runs_keeps [OF cancelremotestreamlocal_result [OF s1]]) (auto intro: ses_inv_payload [OF s1(1)])
  qed (rule fineI, rule outk, use s1 in simp)+
  have "fine ?B (ses_inv e cn) (svr_recv_msg_global_request e nt so s)"
    unfolding svr_recv_msg_global_request_def s(2) option.case Inr x rbind_simps prod.case Let_def out_def [symmetric]
    apply (rule fine_runs [OF runs_getbool [OF same_buf_wf [OF b]]], clarsimp split del: if_split)
    by (rule rest) (auto intro: ses_inv_payload [OF s(1)] simp: same_buf_def)
  then show ?thesis using Inr x by (auto simp: fine_def)
qed

end
