(* ===== verification/Server.thy ===== *)
theory Server
  imports Forward_Global Process_Packet Kex
begin

text \<open>
  The server after authentication (\<^verbatim>\<open>svr-session.c\<close> and the part of \<^verbatim>\<open>session_loop\<close> that works on channels): the table
  of handlers, and that no sequence of packets, connections and descriptors makes a channel
  operation go wrong.
\<close>

section \<open>The table of handlers\<close>

definition ignore_recv_response :: "('c, 'z) session \<Rightarrow> ('c, 'z) session res" where
  "ignore_recv_response s = Inr s"

text \<open>The handlers of authentication and services, and that of KEXDH_INIT, which also narrows the signature
  algorithms of the kex environment (\<open>Kex\<close>), are arguments.\<close>

definition svr_packettypes :: "'z env \<Rightarrow> ('c, 'z) kex_env \<Rightarrow> ('c, 'z) chan_env \<Rightarrow> net \<Rightarrow> svr_opts
    \<Rightarrow> ('c, 'z) handler \<Rightarrow> ('c, 'z) handler \<Rightarrow> ('c, 'z) handler \<Rightarrow> ('c, 'z) packettypes" where
  "svr_packettypes e k cn nt so kexdh_init recv_msg_userauth_request recv_msg_service_request =
    [(SSH_MSG_CHANNEL_DATA, recv_msg_channel_data e),
     (SSH_MSG_CHANNEL_WINDOW_ADJUST, recv_msg_channel_window_adjust),
     (SSH_MSG_USERAUTH_REQUEST, recv_msg_userauth_request),
     (SSH_MSG_SERVICE_REQUEST, recv_msg_service_request),
     (SSH_MSG_KEXINIT, recv_msg_kexinit e k),
     (SSH_MSG_KEXDH_INIT, kexdh_init),
     (SSH_MSG_NEWKEYS, recv_msg_newkeys e k),
     (SSH_MSG_GLOBAL_REQUEST, svr_recv_msg_global_request e nt so),
     (SSH_MSG_CHANNEL_REQUEST, recv_msg_channel_request e cn),
     (SSH_MSG_CHANNEL_OPEN, recv_msg_channel_open e cn),
     (SSH_MSG_CHANNEL_EOF, recv_msg_channel_eof e cn),
     (SSH_MSG_CHANNEL_CLOSE, recv_msg_channel_close e cn),
     (SSH_MSG_CHANNEL_SUCCESS, ignore_recv_response),
     (SSH_MSG_CHANNEL_FAILURE, ignore_recv_response),
     (SSH_MSG_REQUEST_FAILURE, ignore_recv_response),
     (SSH_MSG_REQUEST_SUCCESS, ignore_recv_response),
     (SSH_MSG_CHANNEL_OPEN_CONFIRMATION, recv_msg_channel_open_confirmation e cn),
     (SSH_MSG_CHANNEL_OPEN_FAILURE, recv_msg_channel_open_failure e cn),
     (0, ignore_recv_response)]"

section \<open>Dispatch\<close>

lemma ses_inv_packet_fields [simp]:
  "ses_inv e cn (s\<lparr>ses_last_packet_time_keepalive_recv := x1\<rparr>) = ses_inv e cn s" "ses_inv e cn (s\<lparr>ses_last_packet_time_idle := x2\<rparr>) = ses_inv e cn s"
  "ses_inv e cn (s\<lparr>ses_requirenext := x3\<rparr>) = ses_inv e cn s" "ses_inv e cn (s\<lparr>ses_ignorenext := x4\<rparr>) = ses_inv e cn s"
  "ses_inv e cn (s\<lparr>ses_lastpacket := x5\<rparr>) = ses_inv e cn s"
  by (simp_all add: ses_inv_def send_ok_def trans_macsize_def)

lemma ses_inv_no_payload: "ses_inv e cn s \<Longrightarrow> ses_inv e cn (s\<lparr>ses_payload := None\<rparr>)"
  by (simp add: ses_inv_def send_ok_def trans_macsize_def)

lemma packet_out_inv: "ses_inv e cn s \<Longrightarrow> ses_inv e cn (packet_out t s)"
  using ses_inv_no_payload [of e cn "s\<lparr>ses_lastpacket := t\<rparr>"] by (simp add: packet_out_def)

lemma runs_recv_unimplemented:
  assumes "ses_inv e cn s" shows "runs (ses_inv e cn) (recv_unimplemented e s)"
proof -
  have "runs (grown (ses_writepayload s)) (rbind (buf_putbyte (ses_writepayload s) SSH_MSG_UNIMPLEMENTED) (\<lambda>wp. buf_putint wp (ses_recvseq s - 1)))"
    by (rule runs_rbind [OF runs_putbyte [OF send_ok_D(1) [OF ses_inv_send [OF assms]]]], rule runs_putint_grown)
  from runs_send_inv [OF assms this] show ?thesis unfolding recv_unimplemented_def rbind_assoc by (rule runs_weaken) simp
qed

text \<open>A request to forward a Unix socket, the one that may follow a null pointer.\<close>

definition streamlocal_request :: "buffer \<Rightarrow> bool" where
  "streamlocal_request pb \<longleftrightarrow> (\<exists>nm n b. buf_getstring pb = Inr (nm, n, b) \<and> cstr nm = lit ''streamlocal-forward@openssh.com'')"

lemma find_handler_cases:
  "(0, h0) \<in> set ts \<Longrightarrow> find_handler ts t = Inr None \<or> (\<exists>h. find_handler ts t = Inr (Some h) \<and> (t, h) \<in> set ts)"
  by (induction ts t rule: find_handler.induct) auto

context chan_handlers
begin

text \<open>Every handler of the connection protocol keeps the invariant.\<close>

lemma handler_kept:
  assumes s: "ses_inv e cn s" "ses_payload s = Some pb" and nt: "net_ok nt"
    and ct: "CT_TCPREMOTE < length (cn_types cn)" "CT_STREAMLOCALREMOTE < length (cn_types cn)" and t: "80 \<le> t"
  shows "fine (t = SSH_MSG_GLOBAL_REQUEST \<and> streamlocal_request pb) (ses_inv e cn) (run_handler e (svr_packettypes e k cn nt so kd ua sr) t s)"
proof -
  let ?B = "t = SSH_MSG_GLOBAL_REQUEST \<and> streamlocal_request pb"
  have ua: "t > MAX_UNAUTH_PACKET_TYPE" using t by (auto simp: MAX_UNAUTH_PACKET_TYPE_def ssh_msgs wnat)
  have un: "fine ?B (ses_inv e cn) (recv_unimplemented e s)" by (rule fineI, rule runs_keeps [OF runs_recv_unimplemented [OF s(1)]])
  have gl: "fine ?B (ses_inv e cn) (svr_recv_msg_global_request e nt so s)" if "t = SSH_MSG_GLOBAL_REQUEST"
    using global_request_kept [OF s nt ct, of so] that by (simp add: streamlocal_request_def)
  note kept = data_received [OF s] adjusted [OF s] requested [OF s] opened [OF s] eof_close [OF s] confirmed [OF s] refused [OF s]
  have lo: "t \<noteq> SSH_MSG_USERAUTH_REQUEST" "t \<noteq> SSH_MSG_SERVICE_REQUEST" "t \<noteq> SSH_MSG_KEXINIT" "t \<noteq> SSH_MSG_KEXDH_INIT" "t \<noteq> SSH_MSG_NEWKEYS" "t \<noteq> 0"
    using t by (auto simp: ssh_msgs)
  have ig: "fine ?B (ses_inv e cn) (ignore_recv_response s)" using s(1) by (simp add: ignore_recv_response_def fine_def)
  have hs: "fine ?B (ses_inv e cn) (h s)" if "(t, h) \<in> set (svr_packettypes e k cn nt so kd ua sr)" for h
  proof -
    have "(h = svr_recv_msg_global_request e nt so \<and> t = SSH_MSG_GLOBAL_REQUEST) \<or> h \<in> {recv_msg_channel_data e, recv_msg_channel_window_adjust,
      recv_msg_channel_request e cn, recv_msg_channel_open e cn, recv_msg_channel_eof e cn, recv_msg_channel_close e cn, ignore_recv_response,
      recv_msg_channel_open_confirmation e cn, recv_msg_channel_open_failure e cn}"
      using that lo unfolding svr_packettypes_def set_simps insert_iff prod.inject by blast
    then show ?thesis using gl ig kept [THEN fineI [where b = ?B]] by blast
  qed
  have end_mark: "(0, ignore_recv_response) \<in> set (svr_packettypes e k cn nt so kd ua sr)" by (simp add: svr_packettypes_def)
  show ?thesis
    unfolding run_handler_def
    apply (rule fine_if, simp add: fine_def)
    using find_handler_cases [OF end_mark, of t] un hs by auto
qed

lemma packet_kept:
  assumes s: "ses_inv e cn s" "ses_payload s = Some pb" "buf_getbyte pb = Inr (t, pb')" and nt: "net_ok nt"
    and ct: "CT_TCPREMOTE < length (cn_types cn)" "CT_STREAMLOCALREMOTE < length (cn_types cn)" and t: "80 \<le> t"
  shows "fine (t = SSH_MSG_GLOBAL_REQUEST \<and> streamlocal_request pb') (ses_inv e cn) (process_packet e (svr_packettypes e k cn nt so kd ua sr) s)"
proof -
  let ?B = "t = SSH_MSG_GLOBAL_REQUEST \<and> streamlocal_request pb'"
  have wf: "buf_wf pb'" using runs_getbyte [OF ses_inv_pb [OF s(1,2)]] s(3) by (simp add: same_buf_def)
  have out: "fine ?B (ses_inv e cn) (rbind m (\<lambda>s. Inr (packet_out t s)))" if "fine ?B (ses_inv e cn) m" for m
    by (rule fine_rbind [OF that]) (simp add: fine_def packet_out_inv)
  have un: "fine ?B (ses_inv e cn) (recv_unimplemented e s1)" if "ses_inv e cn s1" for s1
    by (rule fineI, rule runs_keeps [OF runs_recv_unimplemented [OF that]])
  have inv: "ses_inv e cn (s1\<lparr>ses_payload := Some pb'\<rparr>)" if "ses_inv e cn s1" for s1 using ses_inv_payload [OF that wf] .
  show ?thesis
    unfolding process_packet_def s(2,3) option.case rbind_simps prod.case Let_def
    apply (rule fine_if, simp add: fine_def)
    apply (rule fine_if, simp add: fine_def packet_out_inv inv s)
    apply (rule fine_if, rule fine_if, rule out, rule un, simp add: inv s, simp add: fine_def)
    apply (rule fine_if, simp add: fine_def packet_out_inv inv s)
    by (rule out, rule handler_kept [OF _ _ nt ct t]) (simp_all add: inv s)
qed

end

section \<open>Runs\<close>

text \<open>
  What the main loop does with channels after authentication, in any order: a packet of the
  connection protocol, the two passes over the connections in progress, and the pass over the
  channels, with any descriptors ready.
\<close>

datatype conn_event = Packet_in buffer | Connect_pass | Connected_pass "int \<Rightarrow> bool" | Channel_pass "int \<Rightarrow> bool" "int \<Rightarrow> bool"

inductive conn_step :: "'z env \<Rightarrow> ('c, 'z) packettypes \<Rightarrow> net \<Rightarrow> ('c, 'z) chan_env \<Rightarrow> conn_event \<Rightarrow> ('c, 'z) session \<Rightarrow> ('c, 'z) session res \<Rightarrow> bool"
  for e types nt cn where
  packet_in: "buf_wf pb \<Longrightarrow> buf_getbyte pb = Inr (t, pb') \<Longrightarrow> 80 \<le> t \<Longrightarrow>
    conn_step e types nt cn (Packet_in pb) s (process_packet e types (s\<lparr>ses_payload := Some pb\<rparr>))"
| connect_pass: "conn_step e types nt cn Connect_pass s (rbind (set_connect_fds nt (run_callback e cn) s) (\<lambda>(fds, s). Inr s))"
| connected_pass: "conn_step e types nt cn (Connected_pass w) s (handle_connect_fds e nt (run_callback e cn) w s)"
| channel_pass: "conn_step e types nt cn (Channel_pass r w) s (channelio e cn r w s)"

inductive conn_run :: "'z env \<Rightarrow> ('c, 'z) packettypes \<Rightarrow> net \<Rightarrow> ('c, 'z) chan_env \<Rightarrow> ('c, 'z) session \<Rightarrow> ('c, 'z) session \<Rightarrow> bool"
  for e types nt cn s0 where
  start: "conn_run e types nt cn s0 s0"
| again: "conn_run e types nt cn s0 s \<Longrightarrow> conn_step e types nt cn ev s (Inr s') \<Longrightarrow> conn_run e types nt cn s0 s'"

definition streamlocal_packet :: "conn_event \<Rightarrow> bool" where
  "streamlocal_packet ev \<longleftrightarrow> (\<exists>pb pb'. ev = Packet_in pb \<and> buf_getbyte pb = Inr (SSH_MSG_GLOBAL_REQUEST, pb') \<and> streamlocal_request pb')"

lemma conn_step_kept:
  assumes "conn_step e (svr_packettypes e k (fwd_chan_env e nt so) nt so kd ua sr) nt (fwd_chan_env e nt so) ev s r"
    and "ses_inv e (fwd_chan_env e nt so) s" "net_ok nt"
  shows "fine (streamlocal_packet ev) (ses_inv e (fwd_chan_env e nt so)) r"
  using assms(1)
proof cases
  case (packet_in pb t pb')
  let ?s = "s\<lparr>ses_payload := Some pb\<rparr>"
  have "fine (t = SSH_MSG_GLOBAL_REQUEST \<and> streamlocal_request pb') (ses_inv e (fwd_chan_env e nt so)) r"
    unfolding packet_in(2) by (rule fwd.packet_kept [OF ses_inv_payload [OF assms(2) packet_in(3)] _ packet_in(4) assms(3)])
      (simp_all add: CT_TCPREMOTE_def CT_STREAMLOCALREMOTE_def packet_in(5))
  then show ?thesis using packet_in(1,4) by (auto simp: fine_def streamlocal_packet_def)
next
  case connect_pass
  show ?thesis unfolding connect_pass(2)
    by (rule fineI, rule keeps_rbind [OF fwd_cb.set_fds [OF assms(2)]]) auto
next
  case (connected_pass w)
  show ?thesis unfolding connected_pass(2) by (rule fineI, rule fwd_cb.handle_fds [OF assms(2)])
next
  case (channel_pass rd w)
  show ?thesis unfolding channel_pass(2) by (rule fineI, rule fwd.io [OF assms(2)])
qed

lemma conn_run_kept:
  assumes "conn_run e (svr_packettypes e k (fwd_chan_env e nt so) nt so kd ua sr) nt (fwd_chan_env e nt so) s0 s"
    and "ses_inv e (fwd_chan_env e nt so) s0" "net_ok nt"
  shows "ses_inv e (fwd_chan_env e nt so) s"
  using assms(1)
proof induction
  case start
  show ?case by (rule assms(2))
next
  case (again s ev s')
  then show ?case using conn_step_kept [OF again(2) again(3) assms(3)] by (simp add: fine_def)
qed


lemma ses_inv_more_types: "ses_inv e cn s \<Longrightarrow> length (cn_types cn) \<le> length (cn_types cn') \<Longrightarrow> ses_inv e cn' s"
  unfolding ses_inv_def chans_inv_def listeners_inv_def listener_ok_def by (clarsimp, fastforce)


end
