(* ===== verification/Base64.thy ===== *)
theory Base64
  imports DB_Prelude
begin

text \<open>
  Base64 as \<^verbatim>\<open>base64_encode.c\<close> and \<^verbatim>\<open>base64_decode.c\<close> of libtomcrypt have it: keys in \<^verbatim>\<open>authorized_keys\<close> are
  decoded with the relaxed decoder, which skips characters that are not of the alphabet. The decoder inverts the
  encoder, and it never writes more than three bytes for four characters.
\<close>

section \<open>The two routines\<close>

datatype crypt_error = CRYPT_BUFFER_OVERFLOW | CRYPT_INVALID_PACKET

type_synonym u64 = "64 word"

definition codes_base64 :: bytes where
  "codes_base64 = lit ''ABCDEFGHIJKLMNOPQRSTUVWXYZabcdefghijklmnopqrstuvwxyz0123456789+/''"

definition map_base64 :: bytes where
  "map_base64 = [
     255, 255, 255, 255, 255, 255, 255, 255, 255, 255, 255, 255, 255, 255, 255, 255, 255, 255, 255, 255, 255, 255, 255, 255,
     255, 255, 255, 255, 255, 255, 255, 255, 255, 255, 255, 255, 255, 255, 255, 255, 255, 255, 255, 62, 255, 255, 255, 63,
     52, 53, 54, 55, 56, 57, 58, 59, 60, 61, 255, 255, 255, 254, 255, 255, 255, 0, 1, 2, 3, 4, 5, 6,
     7, 8, 9, 10, 11, 12, 13, 14, 15, 16, 17, 18, 19, 20, 21, 22, 23, 24, 25, 255, 255, 255, 255, 255,
     255, 26, 27, 28, 29, 30, 31, 32, 33, 34, 35, 36, 37, 38, 39, 40, 41, 42, 43, 44, 45, 46, 47, 48,
     49, 50, 51, 255, 255, 255, 255, 255, 255, 255, 255, 255, 255, 255, 255, 255, 255, 255, 255, 255, 255, 255, 255, 255,
     255, 255, 255, 255, 255, 255, 255, 255, 255, 255, 255, 255, 255, 255, 255, 255, 255, 255, 255, 255, 255, 255, 255, 255,
     255, 255, 255, 255, 255, 255, 255, 255, 255, 255, 255, 255, 255, 255, 255, 255, 255, 255, 255, 255, 255, 255, 255, 255,
     255, 255, 255, 255, 255, 255, 255, 255, 255, 255, 255, 255, 255, 255, 255, 255, 255, 255, 255, 255, 255, 255, 255, 255,
     255, 255, 255, 255, 255, 255, 255, 255, 255, 255, 255, 255, 255, 255, 255, 255, 255, 255, 255, 255, 255, 255, 255, 255,
     255, 255, 255, 255, 255, 255, 255, 255, 255, 255, 255, 255, 255, 255, 255, 255]"

text \<open>\<open>x >> n\<close> and \<open>x & 0x3F\<close> on a byte promoted to an \<^verbatim>\<open>int\<close>.\<close>

definition code64 :: "u32 \<Rightarrow> u8" where
  "code64 i = codes_base64 ! unat (i AND 0x3F)"

fun base64_groups :: "bytes \<Rightarrow> bytes" where
  "base64_groups (a # b # c # xs) =
     [code64 (drop_bit 2 (ucast a)), code64 (push_bit 4 (ucast a AND 3) + drop_bit 4 (ucast b)),
      code64 (push_bit 2 (ucast b AND 0xf) + drop_bit 6 (ucast c)), code64 (ucast c)] @ base64_groups xs"
| "base64_groups [a, b] =
     [code64 (drop_bit 2 (ucast a)), code64 (push_bit 4 (ucast a AND 3) + drop_bit 4 (ucast b)),
      code64 (push_bit 2 (ucast b AND 0xf)), 61]"
| "base64_groups [a] =
     [code64 (drop_bit 2 (ucast a)), code64 (push_bit 4 (ucast a AND 3)), 61, 61]"
| "base64_groups [] = []"

text \<open>The string without its terminator; \<open>outlen\<close> is the room for both.\<close>

definition base64_encode :: "bytes \<Rightarrow> nat \<Rightarrow> crypt_error + bytes" where
  "base64_encode inp outlen =
     (if outlen < 4 * ((length inp + 2) div 3) + 1 then Inl CRYPT_BUFFER_OVERFLOW else Inr (base64_groups inp))"

text \<open>The loop of the decoder: the counter \<open>y\<close>, the bits \<open>t\<close>, the number \<open>g\<close> of pad characters and the output.\<close>

fun base64_loop :: "bool \<Rightarrow> nat \<Rightarrow> bytes \<Rightarrow> nat \<Rightarrow> u64 \<Rightarrow> nat \<Rightarrow> bytes \<Rightarrow> crypt_error + nat \<times> u64 \<times> nat \<times> bytes" where
  "base64_loop strict outlen [] y t g out = Inr (y, t, g, out)"
| "base64_loop strict outlen (x # xs) y t g out =
     (let c = map_base64 ! unat x in
      if c = 254 then base64_loop strict outlen xs y t (Suc g) out
      else if strict \<and> g > 0 then Inl CRYPT_INVALID_PACKET
      else if c = 255 then (if strict then Inl CRYPT_INVALID_PACKET else base64_loop strict outlen xs y t g out)
      else
        let t = push_bit 6 t OR ucast c in
        if Suc y = 4
        then if length out + 3 > outlen then Inl CRYPT_BUFFER_OVERFLOW
             else base64_loop strict outlen xs 0 0 g (out @ [ucast (drop_bit 16 t AND 255), ucast (drop_bit 8 t AND 255), ucast (t AND 255)])
        else base64_loop strict outlen xs (Suc y) t g out)"

definition base64_decode_internal :: "bool \<Rightarrow> bytes \<Rightarrow> nat \<Rightarrow> crypt_error + bytes" where
  "base64_decode_internal strict inp outlen =
     (case base64_loop strict outlen inp 0 0 0 [] of Inl err \<Rightarrow> Inl err
      | Inr (y, t, g, out) \<Rightarrow>
        if y \<noteq> 0 then
          if y = 1 then Inl CRYPT_INVALID_PACKET
          else if y + g \<noteq> 4 \<and> strict then Inl CRYPT_INVALID_PACKET
          else
            let t = push_bit (6 * (4 - y)) t in
            if length out + y - 1 > outlen then Inl CRYPT_BUFFER_OVERFLOW
            else
              let out = (if y \<ge> 2 then out @ [ucast (drop_bit 16 t AND 255)] else out);
                  out = (if y = 3 then out @ [ucast (drop_bit 8 t AND 255)] else out) in
              Inr out
        else Inr out)"

definition base64_decode :: "bytes \<Rightarrow> nat \<Rightarrow> crypt_error + bytes" where
  "base64_decode inp outlen = base64_decode_internal False inp outlen"

section \<open>Numbers\<close>

lemma map_base64_code: "i < 64 \<Longrightarrow> map_base64 ! unat (codes_base64 ! i) = of_nat i"
proof -
  have "list_all (\<lambda>i. map_base64 ! unat (codes_base64 ! i) = of_nat i) [0..<64]" by code_simp
  then show "i < 64 \<Longrightarrow> ?thesis" by (simp add: list_all_iff)
qed

lemma map_base64_pad: "map_base64 ! 61 = 254"
  by code_simp

lemma unat_low6: "unat (i AND 0x3F :: u32) = unat i mod 64"
proof -
  have "i AND 0x3F = take_bit 6 i" by (simp add: take_bit_eq_mask mask_eq_exp_minus_1)
  moreover have "unat (take_bit 6 i) = take_bit 6 (unat i)" by (rule unsigned_take_bit_eq)
  ultimately show ?thesis by (simp only: take_bit_eq_mod power_numeral) simp
qed

lemma map_code64: "map_base64 ! unat (code64 i) = of_nat (unat i mod 64)"
  using map_base64_code [of "unat i mod 64"] by (simp add: code64_def unat_low6)

lemma unat_byte: "unat (ucast (a :: u8) :: u32) = unat a"
  by (simp add: unsigned_ucast_eq take_bit_nat_eq_self less_trans [OF unsigned_less])

text \<open>The four six-bit numbers of three bytes.\<close>

lemma unat_shifts:
  fixes a :: u8
  shows "unat (drop_bit n (ucast a :: u32)) = unat a div 2 ^ n" "unat (ucast a AND 3 :: u32) = unat a mod 4"
    "unat (ucast a AND 0xf :: u32) = unat a mod 16"
proof -
  have m: "(ucast a AND 3 :: u32) = take_bit 2 (ucast a)" "(ucast a AND 0xf :: u32) = take_bit 4 (ucast a)"
    by (simp_all add: take_bit_eq_mask mask_eq_exp_minus_1)
  show "unat (ucast a AND 3 :: u32) = unat a mod 4" "unat (ucast a AND 0xf :: u32) = unat a mod 16"
    unfolding m unsigned_take_bit_eq by (simp_all add: unat_byte take_bit_eq_mod)
  show "unat (drop_bit n (ucast a :: u32)) = unat a div 2 ^ n"
    unfolding unsigned_drop_bit_eq using unsigned_less [of a, where ?'a = nat] by (simp add: drop_bit_eq_div unat_byte take_bit_nat_eq_self)
qed

lemma unat_push:
  "unat x * 2 ^ n < 2 ^ 32 \<Longrightarrow> unat (push_bit n x :: u32) = unat x * 2 ^ n"
  unfolding unsigned_push_bit_eq by (simp add: push_bit_eq_mult take_bit_nat_eq_self)

lemma unat_add_low: "unat (x :: u32) = m \<Longrightarrow> unat y = k \<Longrightarrow> m + k < 64 \<Longrightarrow> unat (x + y) mod 64 = m + k"
  by (simp add: unat_word_ariths)

lemma sextets:
  fixes a b :: u8
  shows "unat (drop_bit 2 (ucast a :: u32)) mod 64 = unat a div 4"
    "unat (push_bit 4 (ucast a AND 3) + drop_bit 4 (ucast b) :: u32) mod 64 = unat a mod 4 * 16 + unat b div 16"
    "unat (push_bit 2 (ucast a AND 0xf) + drop_bit 6 (ucast b) :: u32) mod 64 = unat a mod 16 * 4 + unat b div 64"
    "unat (ucast a :: u32) mod 64 = unat a mod 64"
    "unat (push_bit 4 (ucast a AND 3) :: u32) mod 64 = unat a mod 4 * 16"
    "unat (push_bit 2 (ucast a AND 0xf) :: u32) mod 64 = unat a mod 16 * 4"
proof -
  have lt: "unat a < 256" "unat b < 256" using unsigned_less [of a, where ?'a = nat] unsigned_less [of b, where ?'a = nat] by simp_all
  have p: "unat (push_bit 4 (ucast a AND 3) :: u32) = unat a mod 4 * 16" "unat (push_bit 2 (ucast a AND 0xf) :: u32) = unat a mod 16 * 4"
    by (subst unat_push; simp add: unat_shifts)+
  have d: "unat a div 4 < 64" "unat b div 16 < 16" "unat b div 64 < 4" using lt by (simp_all add: less_mult_imp_div_less)
  show "unat (drop_bit 2 (ucast a :: u32)) mod 64 = unat a div 4" using d by (simp add: unat_shifts)
  have m: "unat a mod 4 * 16 + unat b div 16 < 64" "unat a mod 16 * 4 + unat b div 64 < 64" using d
    pos_mod_bound [of 4 "int (unat a)"] mod_less_divisor [of 4 "unat a"] mod_less_divisor [of 16 "unat a"] by linarith+
  then show "unat (push_bit 4 (ucast a AND 3) + drop_bit 4 (ucast b) :: u32) mod 64 = unat a mod 4 * 16 + unat b div 16"
    "unat (push_bit 2 (ucast a AND 0xf) + drop_bit 6 (ucast b) :: u32) mod 64 = unat a mod 16 * 4 + unat b div 64"
    using unat_add_low [OF p(1) unat_shifts(1)] unat_add_low [OF p(2) unat_shifts(1)] by simp_all
  show "unat (ucast a :: u32) mod 64 = unat a mod 64" by (simp add: unat_byte)
  show "unat (push_bit 4 (ucast a AND 3) :: u32) mod 64 = unat a mod 4 * 16" "unat (push_bit 2 (ucast a AND 0xf) :: u32) mod 64 = unat a mod 16 * 4"
    using p m by simp_all
qed

text \<open>Adding six bits.\<close>

lemma unat_add6:
  assumes "unat (t :: u64) < 2 ^ 18" "n < 64"
  shows "unat (push_bit 6 t OR ucast (of_nat n :: u8)) = unat t * 64 + n"
proof -
  have c: "unat (ucast (of_nat n :: u8) :: u64) = n" using assms(2) by (simp add: unsigned_ucast_eq unat_of_nat take_bit_nat_eq_self)
  have "push_bit 6 t AND ucast (of_nat n :: u8) = (0 :: u64)"
  proof (rule bit_word_eqI)
    fix i assume "i < LENGTH(64)"
    have "bit (ucast (of_nat n :: u8) :: u64) i \<Longrightarrow> i < 6"
    proof -
      assume b: "bit (ucast (of_nat n :: u8) :: u64) i"
      then have "bit n i" by (simp add: bit_simps bit_of_nat_iff)
      then show "i < 6" using assms(2) bit_take_bit_iff [of 6 n i] take_bit_nat_eq_self [of n 6] by simp
    qed
    then show "bit (push_bit 6 t AND ucast (of_nat n :: u8)) i = bit (0 :: u64) i" by (auto simp: bit_simps)
  qed
  then have "push_bit 6 t OR ucast (of_nat n :: u8) = push_bit 6 t + ucast (of_nat n :: u8)" by (simp add: disjunctive_add_eq_or)
  moreover have "unat (push_bit 6 t) = unat t * 64"
    using assms(1) unfolding unsigned_push_bit_eq by (simp add: push_bit_eq_mult take_bit_nat_eq_self)
  ultimately show ?thesis using assms c by (simp add: unat_word_ariths)
qed

lemma byte_of: "ucast ((t :: u64) AND 255) = (of_nat (unat t) :: u8)"
proof -
  have m: "t AND 255 = take_bit 8 t" by (simp add: take_bit_eq_mask mask_eq_exp_minus_1)
  show ?thesis unfolding m by (rule bit_word_eqI) (auto simp: bit_simps bit_of_nat_iff)
qed

lemma unat_drop64: "unat (drop_bit n (t :: u64)) = unat t div 2 ^ n"
  unfolding unsigned_drop_bit_eq using unsigned_less [of t, where ?'a = nat] by (simp add: drop_bit_eq_div take_bit_nat_eq_self)

lemma mult_256: "(a :: u8) * 256 = 0" "(a :: u8) * 65536 = 0"
proof -
  have "(256 :: u8) = 0" "(65536 :: u8) = 0" by simp_all
  then show "a * 256 = 0" "a * 65536 = 0" by (metis mult_zero_right)+
qed

lemma of_nat_bytes:
  fixes a b c :: u8
  shows "of_nat ((unat a * 65536 + unat b * 256 + unat c) div 65536) = a"
    "of_nat ((unat a * 65536 + unat b * 256 + unat c) div 256) = b"
    "of_nat (unat a * 65536 + unat b * 256 + unat c) = c"
proof -
  have lt: "unat b < 256" "unat c < 256" using unsigned_less [of b, where ?'a = nat] unsigned_less [of c, where ?'a = nat] by simp_all
  have "(unat a * 65536 + unat b * 256 + unat c) div 65536 = unat a" using lt by (intro div_nat_eqI) simp_all
  then show "of_nat ((unat a * 65536 + unat b * 256 + unat c) div 65536) = a" by simp
  have "(unat a * 65536 + unat b * 256 + unat c) div 256 = unat a * 256 + unat b" using lt by (intro div_nat_eqI) simp_all
  then show "of_nat ((unat a * 65536 + unat b * 256 + unat c) div 256) = b" by (simp add: mult_256)
  show "of_nat (unat a * 65536 + unat b * 256 + unat c) = c" by (simp add: mult_256)
qed

section \<open>Decoding what was encoded\<close>

text \<open>One character of the alphabet.\<close>

lemma base64_loop_code:
  assumes "unat i mod 64 = n"
  shows "base64_loop strict outlen (code64 i # xs) y t 0 out =
     (let t = push_bit 6 t OR ucast (of_nat n :: u8) in
      if Suc y = 4
      then if length out + 3 > outlen then Inl CRYPT_BUFFER_OVERFLOW
           else base64_loop strict outlen xs 0 0 0 (out @ [of_nat (unat t div 65536), of_nat (unat t div 256), of_nat (unat t)])
      else base64_loop strict outlen xs (Suc y) t 0 out)"
proof -
  have n: "n < 64" using assms by auto
  then have "unat (of_nat n :: u8) = n" by (simp add: unat_of_nat take_bit_nat_eq_self)
  then have "(of_nat n :: u8) \<noteq> 254" "(of_nat n :: u8) \<noteq> 255" using n by (auto dest!: arg_cong [where f = unat])
  then show ?thesis unfolding base64_loop.simps Let_def map_code64 assms
    by (simp only: byte_of unat_drop64 simp_thms if_False if_True) simp
qed

lemmas base64_codes = base64_loop_code [OF sextets(1)] base64_loop_code [OF sextets(2)] base64_loop_code [OF sextets(3)]
  base64_loop_code [OF sextets(4)] base64_loop_code [OF sextets(5)] base64_loop_code [OF sextets(6)]

lemma base64_loop_pad: "base64_loop strict outlen (61 # xs) y t g out = base64_loop strict outlen xs y t (Suc g) out"
  by (simp add: map_base64_pad)

text \<open>The bits after each character of a group.\<close>

definition bits64 :: "nat list \<Rightarrow> u64" where
  "bits64 ns = foldl (\<lambda>t n. push_bit 6 t OR ucast (of_nat n :: u8)) 0 ns"

lemma unat_bits64:
  assumes "\<forall>n\<in>set ns. n < 64" "length ns \<le> 4"
  shows "unat (bits64 ns) = foldl (\<lambda>t n. t * 64 + n) 0 ns" "unat (bits64 ns) < 64 ^ length ns"
proof -
  have "unat (bits64 ns) = foldl (\<lambda>t n. t * 64 + n) 0 ns \<and> unat (bits64 ns) < 64 ^ length ns" using assms
  proof (induction ns rule: rev_induct)
    case (snoc n ns)
    have ih: "unat (bits64 ns) = foldl (\<lambda>t n. t * 64 + n) 0 ns" "unat (bits64 ns) < 64 ^ length ns" and n: "n < 64"
      using snoc by simp_all
    have "(64 :: nat) ^ length ns \<le> 64 ^ 3" using snoc.prems(2) by (intro power_increasing) simp_all
    then have "unat (bits64 ns) < 2 ^ 18" using ih(2) by simp
    from unat_add6 [OF this n] have "unat (bits64 (ns @ [n])) = unat (bits64 ns) * 64 + n" by (simp add: bits64_def)
    then show ?case using ih n by simp
  qed (simp add: bits64_def)
  then show "unat (bits64 ns) = foldl (\<lambda>t n. t * 64 + n) 0 ns" "unat (bits64 ns) < 64 ^ length ns" by blast+
qed

lemma bits64_snoc: "push_bit 6 (bits64 ns) OR ucast (of_nat n :: u8) = bits64 (ns @ [n])"
  by (simp add: bits64_def)

lemma bits64_start: "push_bit 6 0 OR ucast (of_nat n :: u8) = bits64 [n]"
  by (simp add: bits64_def)

lemma group_arith:
  "(a :: nat) = ah * 4 + al \<Longrightarrow> b = bh * 16 + bl \<Longrightarrow> c = ch * 64 + cl \<Longrightarrow>
     ((ah * 64 + (al * 16 + bh)) * 64 + (bl * 4 + ch)) * 64 + cl = a * 65536 + b * 256 + c"
  by simp

text \<open>The six-bit numbers of a group of three bytes, and of a last group with zeros for the missing ones.\<close>

lemma group_bits:
  fixes a b c :: u8
  shows "unat (bits64 [unat a div 4, unat a mod 4 * 16 + unat b div 16, unat b mod 16 * 4 + unat c div 64, unat c mod 64])
      = unat a * 65536 + unat b * 256 + unat c"
    "unat (push_bit 6 (bits64 [unat a div 4, unat a mod 4 * 16 + unat b div 16, unat b mod 16 * 4])) = unat a * 65536 + unat b * 256"
    "unat (push_bit 12 (bits64 [unat a div 4, unat a mod 4 * 16])) = unat a * 65536"
proof -
  have lt: "unat a < 256" "unat b < 256" "unat c < 256"
    using unsigned_less [of a, where ?'a = nat] unsigned_less [of b, where ?'a = nat] unsigned_less [of c, where ?'a = nat] by simp_all
  have d: "unat a div 4 < 64" "unat b div 16 < 16" "unat c div 64 < 4" using lt by (simp_all add: less_mult_imp_div_less)
  have m: "unat a mod 4 * 16 + unat b div 16 < 64" "unat b mod 16 * 4 + unat c div 64 < 64" "unat c mod 64 < 64"
    "unat b mod 16 * 4 < 64" "unat a mod 4 * 16 < 64"
    using d mod_less_divisor [of 4 "unat a"] mod_less_divisor [of 16 "unat b"] mod_less_divisor [of 64 "unat c"] by linarith+
  have e: "unat a = unat a div 4 * 4 + unat a mod 4" "unat b = unat b div 16 * 16 + unat b mod 16" "unat c = unat c div 64 * 64 + unat c mod 64"
    by simp_all
  show "unat (bits64 [unat a div 4, unat a mod 4 * 16 + unat b div 16, unat b mod 16 * 4 + unat c div 64, unat c mod 64])
      = unat a * 65536 + unat b * 256 + unat c"
  proof -
    have "unat (bits64 [unat a div 4, unat a mod 4 * 16 + unat b div 16, unat b mod 16 * 4 + unat c div 64, unat c mod 64])
        = ((unat a div 4 * 64 + (unat a mod 4 * 16 + unat b div 16)) * 64 + (unat b mod 16 * 4 + unat c div 64)) * 64 + unat c mod 64"
      using d m by (subst unat_bits64(1)) simp_all
    then show ?thesis using group_arith [OF e] by simp
  qed
  have p: "unat (push_bit n t) = unat t * 2 ^ n" if "unat t * 2 ^ n < 2 ^ 64" for n and t :: u64
    using that unfolding unsigned_push_bit_eq by (simp add: push_bit_eq_mult take_bit_nat_eq_self)
  have "unat (bits64 [unat a div 4, unat a mod 4 * 16 + unat b div 16, unat b mod 16 * 4])
      = (unat a div 4 * 64 + (unat a mod 4 * 16 + unat b div 16)) * 64 + unat b mod 16 * 4"
    using d m by (subst unat_bits64(1)) simp_all
  then have "unat (bits64 [unat a div 4, unat a mod 4 * 16 + unat b div 16, unat b mod 16 * 4]) * 2 ^ 6 = unat a * 65536 + unat b * 256"
    using group_arith [OF e(1,2), of 0 0 0] by simp
  then show "unat (push_bit 6 (bits64 [unat a div 4, unat a mod 4 * 16 + unat b div 16, unat b mod 16 * 4])) = unat a * 65536 + unat b * 256"
    using lt by (subst p) simp_all
  have "unat (bits64 [unat a div 4, unat a mod 4 * 16]) = unat a div 4 * 64 + unat a mod 4 * 16" using d m by (subst unat_bits64(1)) simp_all
  then have "unat (bits64 [unat a div 4, unat a mod 4 * 16]) * 2 ^ 12 = unat a * 65536" using group_arith [OF e(1), of 0 0 0 0 0 0] by simp
  then show "unat (push_bit 12 (bits64 [unat a div 4, unat a mod 4 * 16])) = unat a * 65536" using lt by (subst p) simp_all
qed

lemma base64_group:
  assumes "length out + 3 \<le> outlen"
  shows "base64_loop strict outlen (base64_groups (a # b # c # bs)) 0 0 0 out = base64_loop strict outlen (base64_groups bs) 0 0 0 (out @ [a, b, c])"
  unfolding base64_groups.simps append.simps base64_codes Let_def bits64_start bits64_snoc append.simps group_bits
  using assms by (simp add: of_nat_bytes del: of_nat_add of_nat_mult)

text \<open>What the last group leaves to the end of the decoder.\<close>

definition b64_end :: "bytes \<Rightarrow> bytes \<Rightarrow> nat \<times> u64 \<times> nat \<times> bytes \<Rightarrow> bool" where
  "b64_end bs out r = (case r of (y, t, g, out') \<Rightarrow>
     y = 0 \<and> out' = out @ bs
     \<or> y = 2 \<and> g = 2 \<and> (\<exists>a ds. bs = ds @ [a] \<and> out' = out @ ds \<and> unat (push_bit 12 t) = unat a * 65536)
     \<or> y = 3 \<and> g = 1 \<and> (\<exists>a b ds. bs = ds @ [a, b] \<and> out' = out @ ds \<and> unat (push_bit 6 t) = unat a * 65536 + unat b * 256))"

lemma b64_end_shift:
  assumes "b64_end bs (out @ xs) r" shows "b64_end (xs @ bs) out r"
proof -
  obtain y t g out' where r: "r = (y, t, g, out')" by (cases r)
  consider "y = 0" "out' = (out @ xs) @ bs"
    | a ds where "y = 2" "g = 2" "bs = ds @ [a]" "out' = (out @ xs) @ ds" "unat (push_bit 12 t) = unat a * 65536"
    | a b ds where "y = 3" "g = 1" "bs = ds @ [a, b]" "out' = (out @ xs) @ ds" "unat (push_bit 6 t) = unat a * 65536 + unat b * 256"
    using assms unfolding b64_end_def r prod.case by blast
  then show ?thesis
  proof cases
    case 2
    then show ?thesis unfolding b64_end_def r prod.case by (intro disjI2 disjI1 conjI exI [of _ a] exI [of _ "xs @ ds"]) simp_all
  next
    case 3
    then show ?thesis unfolding b64_end_def r prod.case by (intro disjI2 conjI exI [of _ a] exI [of _ b] exI [of _ "xs @ ds"]) simp_all
  qed (simp add: b64_end_def r)
qed

lemma base64_loop_end:
  "length out + length bs \<le> outlen \<Longrightarrow>
     \<exists>r. base64_loop strict outlen (base64_groups bs) 0 0 0 out = Inr r \<and> b64_end bs out r"
proof (induction bs arbitrary: out rule: base64_groups.induct)
  case (1 a b c bs)
  have "length (out @ [a, b, c]) + length bs \<le> outlen" using "1.prems" by simp
  from "1.IH" [OF this] obtain r where r: "base64_loop strict outlen (base64_groups bs) 0 0 0 (out @ [a, b, c]) = Inr r" "b64_end bs (out @ [a, b, c]) r"
    by blast
  then show ?case using base64_group [of out outlen strict a b c bs] "1.prems" b64_end_shift [OF r(2)] by simp
next
  case (2 a b)
  show ?case unfolding base64_groups.simps append.simps base64_codes Let_def bits64_start bits64_snoc base64_loop_pad
    using group_bits(2) [of a b] by (auto simp: b64_end_def)
next
  case (3 a)
  show ?case unfolding base64_groups.simps append.simps base64_codes Let_def bits64_start bits64_snoc base64_loop_pad
    using group_bits(3) [of a] by (auto simp: b64_end_def)
qed (simp add: b64_end_def)

lemma byte_of_drop: "ucast (drop_bit n (t :: u64) AND 255) = (of_nat (unat t div 2 ^ n) :: u8)"
  unfolding byte_of unat_drop64 ..

lemma base64_decode_encoded:
  assumes "length bs \<le> outlen"
  shows "base64_decode_internal strict (base64_groups bs) outlen = Inr bs"
proof -
  obtain y t g out where r: "base64_loop strict outlen (base64_groups bs) 0 0 0 [] = Inr (y, t, g, out)" "b64_end bs [] (y, t, g, out)"
    using base64_loop_end [of "[]" bs outlen strict] assms by (metis list.size(3) add_0 prod_cases4)
  consider "y = 0" "out = bs"
    | a where "y = 2" "g = 2" "bs = out @ [a]" "unat (push_bit 12 t) = unat a * 65536"
    | a b where "y = 3" "g = 1" "bs = out @ [a, b]" "unat (push_bit 6 t) = unat a * 65536 + unat b * 256"
    using r(2) unfolding b64_end_def prod.case append_Nil by blast
  then show ?thesis
  proof cases
    case 2
    then show ?thesis using assms of_nat_bytes(1) [of a 0 0]
      unfolding base64_decode_internal_def r(1) Let_def by (simp add: byte_of_drop)
  next
    case 3
    then show ?thesis using assms of_nat_bytes(1) [of a b 0] of_nat_bytes(2) [of a b 0]
      unfolding base64_decode_internal_def r(1) Let_def by (simp add: byte_of_drop)
  qed (simp add: base64_decode_internal_def r(1))
qed

text \<open>
  C38. Decoding inverts encoding: what \<^verbatim>\<open>base64_encode\<close> writes for any bytes, both decoders read back as those bytes, whenever the output fits.
\<close>

theorem base64_roundtrip:
  assumes "base64_encode bs n = Inr str" "length bs \<le> outlen"
  shows "base64_decode str outlen = Inr bs \<and> base64_decode_internal True str outlen = Inr bs"
  using assms base64_decode_encoded [OF assms(2)] by (auto simp: base64_encode_def base64_decode_def split: if_splits)

theorem base64_roundtrip_witness:
  "base64_encode (lit ''ssh-rsa'') 13 = Inr (lit ''c3NoLXJzYQ=='') \<and> base64_decode (lit ''c3NoLXJzYQ=='') 7 = Inr (lit ''ssh-rsa'')"
proof -
  have e: "base64_encode (lit ''ssh-rsa'') 13 = Inr (lit ''c3NoLXJzYQ=='')" by code_simp
  have "length (lit ''ssh-rsa'') \<le> 7" by (simp add: lit_def)
  from base64_roundtrip [OF e this] e show ?thesis by simp
qed

text \<open>The output is at most three bytes for four characters, so that the space of \<^verbatim>\<open>cmp_base64_key\<close> is enough.\<close>

lemma base64_loop_length:
  "base64_loop strict outlen xs y t g out = Inr (y', t', g', out') \<Longrightarrow> y \<le> 3 \<Longrightarrow>
     4 * length out' + 3 * y' \<le> 4 * length out + 3 * (y + length xs) \<and> y' \<le> 3"
proof (induction xs arbitrary: strict y t g out)
  case (Cons x xs)
  show ?case
  proof (cases "map_base64 ! unat x = 254 \<or> map_base64 ! unat x = 255 \<or> y \<noteq> 3")
    case True
    then show ?thesis using Cons.prems by (auto simp: Let_def split: if_splits dest!: Cons.IH)
  next
    case False
    then show ?thesis using Cons.prems by (auto simp: Let_def split: if_splits dest!: Cons.IH)
  qed
qed simp

lemma base64_decode_length: "base64_decode str outlen = Inr bs \<Longrightarrow> length bs \<le> length str"
  unfolding base64_decode_def base64_decode_internal_def
  by (auto simp: Let_def split: sum.splits if_splits dest!: base64_loop_length)

end
