(* ===== verification/Sign_Names.thy ===== *)
theory Sign_Names
  imports Kex Outcome
begin

text \<open>
  The names and types of keys and of signatures (\<^verbatim>\<open>signkey.c\<close>, \<^verbatim>\<open>signkey_is_ecdsa\<close> of \<^verbatim>\<open>ecdsa.c\<close>). The configuration has RSA with
  SHA-256 only, ECDSA, Ed25519 and security keys.
\<close>

section \<open>Names and types\<close>

definition DROPBEAR_SIGNKEY_ECDSA_NISTP256 :: int where "DROPBEAR_SIGNKEY_ECDSA_NISTP256 = 1"
definition DROPBEAR_SIGNKEY_ECDSA_NISTP384 :: int where "DROPBEAR_SIGNKEY_ECDSA_NISTP384 = 2"
definition DROPBEAR_SIGNKEY_ECDSA_NISTP521 :: int where "DROPBEAR_SIGNKEY_ECDSA_NISTP521 = 3"
definition DROPBEAR_SIGNKEY_SK_ECDSA_NISTP256 :: int where "DROPBEAR_SIGNKEY_SK_ECDSA_NISTP256 = 4"
definition DROPBEAR_SIGNKEY_ED25519 :: int where "DROPBEAR_SIGNKEY_ED25519 = 5"
definition DROPBEAR_SIGNKEY_SK_ED25519 :: int where "DROPBEAR_SIGNKEY_SK_ED25519 = 6"
definition DROPBEAR_SIGNKEY_ANY :: int where "DROPBEAR_SIGNKEY_ANY = 80"
definition DROPBEAR_SIGNKEY_NONE :: int where "DROPBEAR_SIGNKEY_NONE = 90"

lemmas signkey_types = DROPBEAR_SIGNKEY_RSA_def DROPBEAR_SIGNKEY_ECDSA_NISTP256_def DROPBEAR_SIGNKEY_ECDSA_NISTP384_def
  DROPBEAR_SIGNKEY_ECDSA_NISTP521_def DROPBEAR_SIGNKEY_SK_ECDSA_NISTP256_def DROPBEAR_SIGNKEY_ED25519_def
  DROPBEAR_SIGNKEY_SK_ED25519_def DROPBEAR_SIGNKEY_ANY_def DROPBEAR_SIGNKEY_NONE_def DROPBEAR_SIGNKEY_NUM_NAMED_def
  DROPBEAR_SIGNATURE_RSA_SHA256_def

definition signkey_names :: "bytes list" where
  "signkey_names = [lit ''ssh-rsa'', lit ''ecdsa-sha2-nistp256'', lit ''ecdsa-sha2-nistp384'', lit ''ecdsa-sha2-nistp521'',
     lit ''sk-ecdsa-sha2-nistp256@openssh.com'', lit ''ssh-ed25519'', lit ''sk-ssh-ed25519@openssh.com'']"

definition signkey_name_from_type :: "int \<Rightarrow> bytes res" where
  "signkey_name_from_type type =
     (if type \<ge> DROPBEAR_SIGNKEY_NUM_NAMED then Inl (Exit ''Bad key type %d'')
      else if type < 0 then Inl OutOfBounds else Inr (signkey_names ! nat type))"

text \<open>\<open>namelen\<close> bytes of the memory \<open>name\<close> against a fixed name.\<close>

definition same_name :: "bytes \<Rightarrow> u32 \<Rightarrow> bytes \<Rightarrow> bool" where
  "same_name name namelen fixed \<longleftrightarrow> unat namelen = length fixed \<and> take (unat namelen) name = fixed"

fun find_signkey :: "bytes list \<Rightarrow> int \<Rightarrow> bytes \<Rightarrow> u32 \<Rightarrow> int" where
  "find_signkey [] i name namelen = DROPBEAR_SIGNKEY_NONE"
| "find_signkey (fixed # fs) i name namelen =
     (if same_name name namelen fixed then i else find_signkey fs (i + 1) name namelen)"

definition signkey_type_from_name :: "bytes \<Rightarrow> u32 \<Rightarrow> int" where
  "signkey_type_from_name name namelen = find_signkey signkey_names 0 name namelen"

definition signature_name_from_type :: "int \<Rightarrow> bytes res" where
  "signature_name_from_type type =
     (if type = DROPBEAR_SIGNATURE_RSA_SHA256 then Inr (lit ''rsa-sha2-256'') else signkey_name_from_type type)"

definition signature_type_from_name :: "bytes \<Rightarrow> u32 \<Rightarrow> int" where
  "signature_type_from_name name namelen =
     (if same_name name namelen (lit ''rsa-sha2-256'') then DROPBEAR_SIGNATURE_RSA_SHA256
      else signkey_type_from_name name namelen)"

definition signkey_is_ecdsa :: "int \<Rightarrow> bool" where
  "signkey_is_ecdsa type \<longleftrightarrow> type = DROPBEAR_SIGNKEY_ECDSA_NISTP256 \<or> type = DROPBEAR_SIGNKEY_ECDSA_NISTP384
     \<or> type = DROPBEAR_SIGNKEY_ECDSA_NISTP521"

end
