(* ===== verification/Random_Mpint.thy ===== *)
theory Random_Mpint
  imports Packet
begin

text \<open>
  Random integers below a bound (\<^verbatim>\<open>gen_random_mpint\<close> of \<^verbatim>\<open>dbrandom.c\<close>). \<open>rnd i len\<close> are the \<open>len\<close> bytes of the \<open>i\<close>-th call of \<^verbatim>\<open>genrandom\<close>. The
  loop may go on for ever: then its value is \<open>None\<close>. Otherwise there are the integer and the number of the next call.
\<close>

text \<open>Sequencing code that may end the process or never return.\<close>

definition obind :: "'a res option \<Rightarrow> ('a \<Rightarrow> 'b res option) \<Rightarrow> 'b res option" where
  "obind m f = (case m of None \<Rightarrow> None | Some (Inl err) \<Rightarrow> Some (Inl err) | Some (Inr x) \<Rightarrow> f x)"

lemma obind_simps [simp]: "obind None f = None" "obind (Some (Inl err)) f = Some (Inl err)" "obind (Some (Inr x)) f = f x"
  by (simp_all add: obind_def)

definition masks :: "u8 list" where
  "masks = [0xff, 0x01, 0x03, 0x07, 0x0f, 0x1f, 0x3f, 0x7f]"

text \<open>One round: \<open>len\<close> random bytes with the bits above the size of the bound masked out.\<close>

definition draw :: "nat \<Rightarrow> bytes \<Rightarrow> mp_int" where
  "draw size_bits randbuf = mp_from_ubin ((hd randbuf AND masks ! (size_bits mod 8)) # tl randbuf)"

partial_function (option) random_loop :: "(nat \<Rightarrow> nat \<Rightarrow> bytes) \<Rightarrow> nat \<Rightarrow> nat \<Rightarrow> mp_int \<Rightarrow> nat \<Rightarrow> (mp_int \<times> nat) option" where
  "random_loop rnd len size_bits bound i =
     (let r = draw size_bits (rnd i len) in
      if \<not> (r < bound \<and> r > 0) then random_loop rnd len size_bits bound (Suc i) else Some (r, Suc i))"

definition gen_random_mpint :: "(nat \<Rightarrow> nat \<Rightarrow> bytes) \<Rightarrow> nat \<Rightarrow> mp_int \<Rightarrow> (mp_int \<times> nat) res option" where
  "gen_random_mpint rnd i bound =
     (let size_bits = mp_count_bits bound;
          len = size_bits div 8;
          len = (if size_bits mod 8 \<noteq> 0 then len + 1 else len) in
      if len = 0 then Some (Inl (Exit ''m_malloc failed''))
      else map_option Inr (random_loop rnd len size_bits bound i))"

text \<open>A draw that the loop accepts.\<close>

definition in_range :: "nat \<Rightarrow> mp_int \<Rightarrow> bytes \<Rightarrow> bool" where
  "in_range bits bound bs \<longleftrightarrow> 0 < draw bits bs \<and> draw bits bs < bound"

lemma random_loop_first:
  assumes "\<And>j. j < n \<Longrightarrow> \<not> in_range bits bound (rnd (i + j) len)" "in_range bits bound (rnd (i + n) len)"
  shows "random_loop rnd len bits bound i = Some (draw bits (rnd (i + n) len), Suc (i + n))"
  using assms
proof (induction n arbitrary: i)
  case 0
  then show ?case by (subst random_loop.simps) (simp add: in_range_def)
next
  case (Suc n)
  have "\<not> in_range bits bound (rnd (Suc i + j) len)" if "j < n" for j using Suc.prems(1) [of "Suc j"] that by simp
  then have "random_loop rnd len bits bound (Suc i) = Some (draw bits (rnd (Suc i + n) len), Suc (Suc i + n))"
    using Suc.prems(2) by (intro Suc.IH) auto
  then show ?case using Suc.prems(1) [of 0] by (subst random_loop.simps) (auto simp: in_range_def Let_def)
qed

lemma random_loop_some:
  assumes ret: "random_loop rnd len bits bound i = Some y"
  shows "\<exists>n. in_range bits bound (rnd (i + n) len)"
proof (rule random_loop.raw_induct [where P = "\<lambda>rnd len bits bound i y. \<exists>n. in_range bits bound (rnd (i + n) len)", OF _ ret])
  fix loop rnd len bits bound i y
  assume ih: "\<And>rnd len bits bound i y. loop rnd len bits bound i = Some y \<Longrightarrow> \<exists>n. in_range bits bound (rnd (i + n) len)"
    and eq: "(let r = draw bits (rnd i len) in
      if \<not> (r < bound \<and> r > 0) then loop rnd len bits bound (Suc i) else Some (r, Suc i)) = Some y"
  show "\<exists>n. in_range bits bound (rnd (i + n) len)"
  proof (cases "in_range bits bound (rnd i len)")
    case True
    then show ?thesis by (intro exI [of _ 0]) simp
  next
    case False
    then have "loop rnd len bits bound (Suc i) = Some y" using eq by (auto simp: in_range_def Let_def split: if_splits)
    from ih [OF this] obtain n where "in_range bits bound (rnd (Suc i + n) len)" by blast
    then show ?thesis by (intro exI [of _ "Suc n"]) simp
  qed
qed

text \<open>Masking keeps the low bits of the first byte, so that a draw is the random number modulo the power of two above the bound.\<close>

lemma mask_value: "unat (c AND masks ! m) = unat c mod (if m = 0 then 256 else 2 ^ m)" if "m < 8" for c :: u8
proof -
  have m: "m = 0 \<or> m = 1 \<or> m = 2 \<or> m = 3 \<or> m = 4 \<or> m = 5 \<or> m = 6 \<or> m = 7" using that by auto
  have k: "masks ! m = mask (if m = 0 then 8 else m)" using m by (auto simp: masks_def mask_eq_exp_minus_1)
  have "unat (c AND masks ! m) = take_bit (if m = 0 then 8 else m) (unat c)"
    unfolding k by (simp add: take_bit_eq_mask [symmetric] unsigned_take_bit_eq)
  then show ?thesis by (simp add: take_bit_eq_mod)
qed

lemma ubin_value_less: "ubin_value bs < 256 ^ length bs"
proof (induction bs)
  case (Cons c bs)
  have "unat c * 256 ^ length bs + ubin_value bs < Suc (unat c) * 256 ^ length bs" using Cons by simp
  also have "\<dots> \<le> 256 * 256 ^ length bs" using unat_u8_lt [of c] by (intro mult_right_mono) simp_all
  finally show ?case by (simp add: ubin_value_Cons)
qed (simp add: ubin_value_def)

lemma mp_from_ubin_value: "mp_from_ubin bs = int (ubin_value bs)"
  by (simp add: mp_from_ubin_def ubin_value_def)

lemma draw_value:
  assumes "length bs = bits div 8 + (if bits mod 8 \<noteq> 0 then 1 else 0)" "0 < bits"
  shows "draw bits bs = mp_from_ubin bs mod 2 ^ bits"
proof -
  obtain c t where bs: "bs = c # t" using assms by (cases bs) (auto split: if_splits)
  define q where "q = (if bits mod 8 = 0 then 256 else 2 ^ (bits mod 8) :: nat)"
  have "bits = 8 * length t + (if bits mod 8 = 0 then 8 else bits mod 8)" using assms bs by (auto split: if_splits)
  then have "(2::nat) ^ bits = 2 ^ (8 * length t) * 2 ^ (if bits mod 8 = 0 then 8 else bits mod 8)" by (metis power_add)
  then have b: "(2::nat) ^ bits = 256 ^ length t * q" by (simp add: q_def power_mult)
  have "ubin_value ((c AND masks ! (bits mod 8)) # t) = (unat c mod q) * 256 ^ length t + ubin_value t"
    using mask_value [of "bits mod 8" c] by (simp add: ubin_value_Cons q_def)
  also have "\<dots> = (unat c * 256 ^ length t + ubin_value t) mod (256 ^ length t * q)"
    using ubin_value_less [of t] by (simp add: mod_mult2_eq)
  finally have "draw bits bs = int (ubin_value bs mod 2 ^ bits)"
    by (simp add: draw_def mp_from_ubin_value bs ubin_value_Cons b)
  then show ?thesis by (simp add: mp_from_ubin_value zmod_int)
qed

text \<open>
  C36. \<^verbatim>\<open>gen_random_mpint\<close> draws from the integers below the power of two above the bound, without bias (the random number modulo that
  power), and returns the first draw that lies strictly between 0 and the bound. It returns exactly when there is such a draw.
\<close>

theorem gen_random_mpint_first:
  assumes "0 < bound" "\<And>j n. length (rnd j n) = n"
  defines "v \<equiv> \<lambda>j. mp_from_ubin (rnd j ((mp_count_bits bound + 7) div 8)) mod 2 ^ mp_count_bits bound"
  shows "(\<forall>n. 0 < v (i + n) \<and> v (i + n) < bound \<and> (\<forall>j<n. \<not> (0 < v (i + j) \<and> v (i + j) < bound)) \<longrightarrow>
       gen_random_mpint rnd i bound = Some (Inr (v (i + n), Suc (i + n))))
    \<and> (gen_random_mpint rnd i bound = None \<longleftrightarrow> (\<forall>n. \<not> (0 < v (i + n) \<and> v (i + n) < bound)))"
proof -
  define bits len where "bits = mp_count_bits bound" and "len = bits div 8 + (if bits mod 8 \<noteq> 0 then 1 else 0)"
  have bits: "0 < bits"
  proof (rule ccontr)
    assume "\<not> 0 < bits"
    then have "nat \<bar>bound\<bar> < 1" using count_bits_bound [of "nat \<bar>bound\<bar>"] by (simp add: bits_def mp_count_bits_def)
    then show False using assms(1) by simp
  qed
  have len: "(bits + 7) div 8 = len" "0 < len" using bits by (auto simp: len_def) presburger+
  have v: "v j = draw bits (rnd j len)" for j
    using draw_value [of "rnd j len" bits] assms(2) bits by (simp add: v_def bits_def [symmetric] len(1)) (simp add: len_def)
  have r: "in_range bits bound (rnd j len) \<longleftrightarrow> 0 < v j \<and> v j < bound" for j by (simp add: in_range_def v)
  have g: "gen_random_mpint rnd i bound = map_option Inr (random_loop rnd len bits bound i)"
    using len(2) by (auto simp: gen_random_mpint_def Let_def bits_def [symmetric] len_def)
  have some: "random_loop rnd len bits bound i = Some (v (i + n), Suc (i + n))"
    if "0 < v (i + n) \<and> v (i + n) < bound" "\<forall>j<n. \<not> (0 < v (i + j) \<and> v (i + j) < bound)" for n
    using random_loop_first [of n bits bound rnd i len] that by (simp add: r) (simp add: v)
  have none: "random_loop rnd len bits bound i = None \<longleftrightarrow> (\<forall>n. \<not> (0 < v (i + n) \<and> v (i + n) < bound))"
  proof
    assume n: "random_loop rnd len bits bound i = None"
    show "\<forall>n. \<not> (0 < v (i + n) \<and> v (i + n) < bound)"
    proof (rule ccontr)
      assume "\<not> ?thesis"
      then obtain n where "0 < v (i + n) \<and> v (i + n) < bound" by blast
      then obtain m where "0 < v (i + m) \<and> v (i + m) < bound" "\<forall>j<m. \<not> (0 < v (i + j) \<and> v (i + j) < bound)"
        using exists_least_iff [of "\<lambda>n. 0 < v (i + n) \<and> v (i + n) < bound"] by blast
      then show False using some n by simp
    qed
  next
    assume "\<forall>n. \<not> (0 < v (i + n) \<and> v (i + n) < bound)"
    then have "\<not> (\<exists>n. in_range bits bound (rnd (i + n) len))" by (simp add: r)
    then show "random_loop rnd len bits bound i = None"
      using random_loop_some [of rnd len bits bound i] by (cases "random_loop rnd len bits bound i") auto
  qed
  show ?thesis using some none by (auto simp: g)
qed

theorem gen_random_mpint_first_witness:
  "gen_random_mpint (\<lambda>j n. replicate n (if j = 0 then 0xff else 0x35)) 0 100 = Some (Inr (53, 2))"
proof -
  have b: "mp_count_bits 100 = 7" by code_simp
  have "gen_random_mpint (\<lambda>j n. replicate n (if j = 0 then 0xff else 0x35)) 0 100
      = Some (Inr (mp_from_ubin (replicate 1 0x35) mod 2 ^ 7, Suc (0 + 1)))"
    using gen_random_mpint_first [of 100 "\<lambda>j n. replicate n (if j = 0 then 0xff else 0x35)" 0]
    unfolding b by (auto simp: mp_from_ubin_def dest!: spec [of _ 1] conjunct1)
  then show ?thesis by (simp add: mp_from_ubin_def)
qed

end
