(* ===== verification/Ecc_Key.thy ===== *)
theory Ecc_Key
  imports Sign_Names Random_Mpint
begin

text \<open>
  Elliptic curve keys: the curves and points (\<^verbatim>\<open>ecc.c\<close>), ECDSA keys and signatures (\<^verbatim>\<open>ecdsa.c\<close>), Ed25519 keys and signatures
  (\<^verbatim>\<open>ed25519.c\<close>) and the signatures of security keys (\<^verbatim>\<open>sk-ecdsa.c\<close>, \<^verbatim>\<open>sk-ed25519.c\<close>). The hash functions, the arithmetic of points and
  the Ed25519 scheme itself are parameters (\<open>key_env\<close>). The domain parameters are those of \<^verbatim>\<open>ltc_ecc_sets\<close> of libtomcrypt;
  an \<^verbatim>\<open>mp_int\<close> is its value.
\<close>

section \<open>Parameters\<close>

datatype hash_desc = Sha256 | Sha384 | Sha512

definition hashsize :: "hash_desc \<Rightarrow> nat" where
  "hashsize h = (case h of Sha256 \<Rightarrow> 32 | Sha384 \<Rightarrow> 48 | Sha512 \<Rightarrow> 64)"

record ltc_ecc_set_type =
  dp_size :: u32
  dp_prime :: mp_int
  dp_B :: mp_int
  dp_order :: mp_int
  dp_Gx :: mp_int
  dp_Gy :: mp_int

text \<open>
  \<open>ke_mul2add dp u1 Q u2\<close> is the affine x coordinate of \<open>u1 G + u2 Q\<close> that \<^verbatim>\<open>ecc_mul2add\<close> leaves, \<open>None\<close> for an error;
  \<open>ke_ed25519_verify\<close> and \<open>ke_ed25519_sign\<close> are \<^verbatim>\<open>dropbear_ed25519_verify\<close> and \<^verbatim>\<open>dropbear_ed25519_sign\<close>.
\<close>

record key_env =
  ke_hash :: "hash_desc \<Rightarrow> bytes \<Rightarrow> bytes"
  ke_mul2add :: "ltc_ecc_set_type \<Rightarrow> mp_int \<Rightarrow> mp_int \<times> mp_int \<times> mp_int \<Rightarrow> mp_int \<Rightarrow> mp_int option"
  ke_ed25519_verify :: "bytes \<Rightarrow> bytes \<Rightarrow> bytes \<Rightarrow> bool"
  ke_ed25519_sign :: "bytes \<Rightarrow> bytes \<Rightarrow> bytes \<Rightarrow> bytes"

text \<open>The data of a buffer as the hash and signature functions take it.\<close>

definition buf_all :: "buffer \<Rightarrow> bytes res" where
  "buf_all b = mem_read (buf_data b) 0 (unat (buf_len b))"

section \<open>Modular inverses\<close>

text \<open>\<^verbatim>\<open>mp_invmod\<close>: the extended Euclidean algorithm. There is an error when there is no inverse.\<close>

function egcd :: "int \<Rightarrow> int \<Rightarrow> int \<times> int \<times> int" where
  "egcd a b = (if b \<le> 0 then (a, 1, 0) else let (g, u, v) = egcd b (a mod b) in (g, v, u - (a div b) * v))"
  by pat_completeness auto

termination
  by (relation "measure (\<lambda>(a, b). nat b)") auto

declare egcd.simps [simp del]

definition mp_invmod :: "mp_int \<Rightarrow> mp_int \<Rightarrow> mp_int option" where
  "mp_invmod a m = (if m \<le> 1 then None else let (g, u, _) = egcd (a mod m) m in if g = 1 then Some (u mod m) else None)"

lemma egcd_bezout: "egcd a b = (g, u, v) \<Longrightarrow> g = u * a + v * b"
proof (induction a b arbitrary: g u v rule: egcd.induct)
  case (1 a b)
  show ?case
  proof (cases "b \<le> 0")
    case False
    obtain g' u' v' where r: "egcd b (a mod b) = (g', u', v')" by (cases "egcd b (a mod b)")
    then have e: "g = g'" "u = v'" "v = u' - (a div b) * v'" using "1.prems" False by (auto simp: egcd.simps [of a b])
    have "g' = u' * b + v' * (a mod b)" using "1.IH" [OF False r] .
    also have "a mod b = a - (a div b) * b" by (simp add: minus_div_mult_eq_mod)
    finally show ?thesis unfolding e by (simp add: algebra_simps)
  qed (use "1.prems" in \<open>simp add: egcd.simps [of a b]\<close>)
qed

lemma mp_invmod_sound:
  assumes "mp_invmod a m = Some w" shows "(a * w) mod m = 1" "0 \<le> w" "w < m" "1 < m"
proof -
  have m: "1 < m" using assms by (auto simp: mp_invmod_def split: if_splits)
  obtain g u v where r: "egcd (a mod m) m = (g, u, v)" by (cases "egcd (a mod m) m")
  then have g: "g = 1" "w = u mod m" using assms m by (auto simp: mp_invmod_def split: if_splits)
  have "1 = u * (a mod m) + v * m" using egcd_bezout [OF r] g(1) by simp
  then have "1 mod m = (u * (a mod m)) mod m" by (metis mod_mult_self1)
  then show "(a * w) mod m = 1" using m unfolding g(2) by (simp add: mod_mult_right_eq mult.commute mod_simps)
  show "0 \<le> w" "w < m" "1 < m" using m g(2) by simp_all
qed

section \<open>Curves\<close>

definition ecc_set_256 :: ltc_ecc_set_type where
  "ecc_set_256 = \<lparr>dp_size = 32,
     dp_prime = 0xFFFFFFFF00000001000000000000000000000000FFFFFFFFFFFFFFFFFFFFFFFF,
     dp_B = 0x5AC635D8AA3A93E7B3EBBD55769886BC651D06B0CC53B0F63BCE3C3E27D2604B,
     dp_order = 0xFFFFFFFF00000000FFFFFFFFFFFFFFFFBCE6FAADA7179E84F3B9CAC2FC632551,
     dp_Gx = 0x6B17D1F2E12C4247F8BCE6E563A440F277037D812DEB33A0F4A13945D898C296,
     dp_Gy = 0x4FE342E2FE1A7F9B8EE7EB4A7C0F9E162BCE33576B315ECECBB6406837BF51F5\<rparr>"

definition ecc_set_384 :: ltc_ecc_set_type where
  "ecc_set_384 = \<lparr>dp_size = 48,
     dp_prime = 0xFFFFFFFFFFFFFFFFFFFFFFFFFFFFFFFFFFFFFFFFFFFFFFFFFFFFFFFFFFFFFFFEFFFFFFFF0000000000000000FFFFFFFF,
     dp_B = 0xB3312FA7E23EE7E4988E056BE3F82D19181D9C6EFE8141120314088F5013875AC656398D8A2ED19D2A85C8EDD3EC2AEF,
     dp_order = 0xFFFFFFFFFFFFFFFFFFFFFFFFFFFFFFFFFFFFFFFFFFFFFFFFC7634D81F4372DDF581A0DB248B0A77AECEC196ACCC52973,
     dp_Gx = 0xAA87CA22BE8B05378EB1C71EF320AD746E1D3B628BA79B9859F741E082542A385502F25DBF55296C3A545E3872760AB7,
     dp_Gy = 0x3617DE4A96262C6F5D9E98BF9292DC29F8F41DBD289A147CE9DA3113B5F0B8C00A60B1CE1D7E819D7A431D7C90EA0E5F\<rparr>"

definition ecc_set_521 :: ltc_ecc_set_type where
  "ecc_set_521 = \<lparr>dp_size = 66,
     dp_prime = 0x1FFFFFFFFFFFFFFFFFFFFFFFFFFFFFFFFFFFFFFFFFFFFFFFFFFFFFFFFFFFFFFFFFFFFFFFFFFFFFFFFFFFFFFFFFFFFFFFFFFFFFFFFFFFFFFFFFFFFFFFFFFFFFFFFFF,
     dp_B = 0x51953EB9618E1C9A1F929A21A0B68540EEA2DA725B99B315F3B8B489918EF109E156193951EC7E937B1652C0BD3BB1BF073573DF883D2C34F1EF451FD46B503F00,
     dp_order = 0x1FFFFFFFFFFFFFFFFFFFFFFFFFFFFFFFFFFFFFFFFFFFFFFFFFFFFFFFFFFFFFFFFFA51868783BF2F966B7FCC0148F709A5D03BB5C9B8899C47AEBB6FB71E91386409,
     dp_Gx = 0xC6858E06B70404E9CD9E3ECB662395B4429C648139053FB521F828AF606B4D3DBAA14B5E77EFE75928FE1DC127A2FFA8DE3348B3C1856A429BF97E7E31C2E5BD66,
     dp_Gy = 0x11839296A789A3BC0045C8A5FB42C7D1BD998F54449579B446817AFBD17273E662C97EE72995EF42640C550B9013FAD0761353C7086A272C24088BE94769FD16650\<rparr>"

definition ltc_ecc_sets :: "ltc_ecc_set_type list" where
  "ltc_ecc_sets = [ecc_set_256, ecc_set_384, ecc_set_521]"

record dropbear_ecc_curve =
  cv_ltc_size :: u32
  cv_dp :: "ltc_ecc_set_type option"
  cv_hash_desc :: hash_desc
  cv_name :: bytes

definition ecc_curves_init :: "dropbear_ecc_curve list" where
  "ecc_curves_init =
     [\<lparr>cv_ltc_size = 32, cv_dp = None, cv_hash_desc = Sha256, cv_name = lit ''nistp256''\<rparr>,
      \<lparr>cv_ltc_size = 48, cv_dp = None, cv_hash_desc = Sha384, cv_name = lit ''nistp384''\<rparr>,
      \<lparr>cv_ltc_size = 66, cv_dp = None, cv_hash_desc = Sha512, cv_name = lit ''nistp521''\<rparr>]"

text \<open>The inner loop stops at the entry that it took, from which the next curve goes on.\<close>

fun fill_dp :: "dropbear_ecc_curve list \<Rightarrow> ltc_ecc_set_type list \<Rightarrow> dropbear_ecc_curve list res" where
  "fill_dp [] dps = Inr []"
| "fill_dp (c # cs) dps =
     (case dropWhile (\<lambda>dp. dp_size dp \<noteq> cv_ltc_size c) dps of
        [] \<Rightarrow> Inl (Exit ''Missing ECC params %s'')
      | dp # dps \<Rightarrow> rbind (fill_dp cs (dp # dps)) (\<lambda>cs. Inr (c\<lparr>cv_dp := Some dp\<rparr> # cs)))"

definition dropbear_ecc_fill_dp :: "dropbear_ecc_curve list \<Rightarrow> dropbear_ecc_curve list res" where
  "dropbear_ecc_fill_dp curves = fill_dp curves ltc_ecc_sets"

text \<open>The curves after start-up.\<close>

definition dropbear_ecc_curves :: "dropbear_ecc_curve list" where
  "dropbear_ecc_curves =
     [\<lparr>cv_ltc_size = 32, cv_dp = Some ecc_set_256, cv_hash_desc = Sha256, cv_name = lit ''nistp256''\<rparr>,
      \<lparr>cv_ltc_size = 48, cv_dp = Some ecc_set_384, cv_hash_desc = Sha384, cv_name = lit ''nistp384''\<rparr>,
      \<lparr>cv_ltc_size = 66, cv_dp = Some ecc_set_521, cv_hash_desc = Sha512, cv_name = lit ''nistp521''\<rparr>]"

lemma ecc_fill_dp: "dropbear_ecc_fill_dp ecc_curves_init = Inr dropbear_ecc_curves"
  by (simp add: dropbear_ecc_fill_dp_def ecc_curves_init_def ltc_ecc_sets_def dropbear_ecc_curves_def ecc_set_256_def ecc_set_384_def ecc_set_521_def)

text \<open>The entries of \<^verbatim>\<open>ltc_ecc_sets\<close> are different, so that comparing pointers to them is comparing them.\<close>

definition curve_for_dp :: "ltc_ecc_set_type \<Rightarrow> dropbear_ecc_curve res" where
  "curve_for_dp dp =
     (case filter (\<lambda>c. cv_dp c = Some dp) dropbear_ecc_curves of
        [] \<Rightarrow> Inl (AssertFail ''*curve'') | c # _ \<Rightarrow> Inr c)"

section \<open>Points\<close>

record ecc_key =
  ec_dp :: ltc_ecc_set_type
  ec_x :: mp_int
  ec_y :: mp_int
  ec_z :: mp_int
  ec_k :: mp_int

text \<open>The two loops at the end of \<^verbatim>\<open>ecc_is_point\<close>; a prime that is not positive would keep them running.\<close>

function add_while_neg :: "int \<Rightarrow> int \<Rightarrow> int res" where
  "add_while_neg t p = (if t < 0 then if p \<le> 0 then Inl Diverge else add_while_neg (t + p) p else Inr t)"
  by pat_completeness auto

termination
  by (relation "measure (\<lambda>(t, p). nat (- t))") auto

function sub_while_ge :: "int \<Rightarrow> int \<Rightarrow> int res" where
  "sub_while_ge t p = (if \<not> t < p then if p \<le> 0 then Inl Diverge else sub_while_ge (t - p) p else Inr t)"
  by pat_completeness auto

termination
  by (relation "measure (\<lambda>(t, p). nat t)") auto

declare add_while_neg.simps [simp del] sub_while_ge.simps [simp del]

definition ecc_is_point :: "ecc_key \<Rightarrow> bool res" where
  "ecc_is_point key =
     (let prime = dp_prime (ec_dp key); b = dp_B (ec_dp key);
          t1 = ec_y key * ec_y key;
          t2 = ec_x key * ec_x key;
          t2 = t2 mod prime;
          t2 = ec_x key * t2;
          t1 = t1 - t2;
          t1 = t1 + ec_x key;
          t1 = t1 + ec_x key;
          t1 = t1 + ec_x key;
          t1 = t1 mod prime in
      rbind (add_while_neg t1 prime) (\<lambda>t1.
      rbind (sub_while_ge t1 prime) (\<lambda>t1.
      Inr (t1 = b))))"

definition buf_get_ecc_raw_pubkey :: "buffer \<Rightarrow> dropbear_ecc_curve \<Rightarrow> ecc_key option res" where
  "buf_get_ecc_raw_pubkey b curve =
     (case cv_dp curve of None \<Rightarrow> Inl NullDeref
      | Some dp \<Rightarrow>
        let size = dp_size dp in
        rbind (buf_setpos b 0) (\<lambda>b.
        rbind (buf_getbyte b) (\<lambda>(first, b).
        if first = 2 \<or> first = 3 then Inr None
        else if first \<noteq> 4 \<or> buf_len b \<noteq> 1 + 2 * size then Inr None
        else
          rbind (buf_getptr b size) (\<lambda>p.
          rbind (mem_read (buf_data b) p (unat size)) (\<lambda>xs.
          rbind (buf_incrpos b size) (\<lambda>b.
          rbind (buf_getptr b size) (\<lambda>p.
          rbind (mem_read (buf_data b) p (unat size)) (\<lambda>ys.
          rbind (buf_incrpos b size) (\<lambda>b.
          let key = \<lparr>ec_dp = dp, ec_x = mp_from_ubin xs, ec_y = mp_from_ubin ys, ec_z = 1, ec_k = 0\<rparr> in
          rbind (ecc_is_point key) (\<lambda>on_curve.
          if \<not> on_curve then Inr None
          else if ec_x key = 0 then Inr None
          else if ec_y key = 0 then Inr None
          else Inr (Some key)))))))))))"

text \<open>
  \<^verbatim>\<open>ecc_ansi_x963_export\<close> of libtomcrypt: a byte 4 and the two coordinates, each padded to the size of the curve.
\<close>

definition ecc_ansi_x963_export :: "ecc_key \<Rightarrow> bytes option" where
  "ecc_ansi_x963_export key =
     (let numlen = unat (dp_size (ec_dp key)); xlen = mp_ubin_size (ec_x key); ylen = mp_ubin_size (ec_y key) in
      if xlen > numlen \<or> ylen > numlen then None
      else case (mp_to_ubin (ec_x key) xlen, mp_to_ubin (ec_y key) ylen) of
        (Some xs, Some ys) \<Rightarrow> Some (4 # replicate (numlen - xlen) 0 @ xs @ replicate (numlen - ylen) 0 @ ys)
      | _ \<Rightarrow> None)"

definition buf_put_ecc_raw_pubkey_string :: "buffer \<Rightarrow> ecc_key \<Rightarrow> buffer res" where
  "buf_put_ecc_raw_pubkey_string b key =
     (let len = dp_size (ec_dp key) * 2 + 1 in
      rbind (buf_putint b len) (\<lambda>b.
      rbind (buf_getwriteptr b len) (\<lambda>p.
      case ecc_ansi_x963_export key of None \<Rightarrow> Inl (Exit ''ECC error'')
      | Some bs \<Rightarrow>
        rbind (mem_write (buf_data b) p bs) (\<lambda>d.
        buf_incrwritepos (b\<lparr>buf_data := d\<rparr>) len))))"

section \<open>ECDSA keys\<close>

definition ecdsa_prefix :: bytes where "ecdsa_prefix = lit ''ecdsa-sha2-''"

fun find_curve :: "dropbear_ecc_curve list \<Rightarrow> bytes \<Rightarrow> dropbear_ecc_curve option res" where
  "find_curve [] ident = Inr None"
| "find_curve (c # cs) ident =
     rbind (mem_read ident 0 (length (cv_name c))) (\<lambda>bs. if bs = cv_name c then Inr (Some c) else find_curve cs ident)"

text \<open>Whether the two identifiers of the key belong together.\<close>

definition ident_match :: "bytes \<Rightarrow> u32 \<Rightarrow> bytes \<Rightarrow> u32 \<Rightarrow> bool res" where
  "ident_match key_ident key_ident_len identifier identifier_len =
     (if cstr key_ident = lit ''sk-ecdsa-sha2-nistp256@openssh.com'' then Inr (cstr identifier = lit ''nistp256'')
      else if key_ident_len \<noteq> identifier_len + of_nat (length ecdsa_prefix) then Inr False
      else
        rbind (mem_read key_ident (length ecdsa_prefix) (unat identifier_len)) (\<lambda>a.
        rbind (mem_read identifier 0 (unat identifier_len)) (\<lambda>b. Inr (a = b))))"

definition buf_get_ecdsa_pub_key :: "buffer \<Rightarrow> (ecc_key option \<times> buffer) res" where
  "buf_get_ecdsa_pub_key b =
     rbind (buf_getstring b) (\<lambda>(key_ident, key_ident_len, b).
     rbind (buf_getstring b) (\<lambda>(identifier, identifier_len, b).
     rbind (ident_match key_ident key_ident_len identifier identifier_len) (\<lambda>ok.
     if \<not> ok then Inr (None, b)
     else
       rbind (find_curve dropbear_ecc_curves identifier) (\<lambda>curve.
       case curve of None \<Rightarrow> Inr (None, b)
       | Some curve \<Rightarrow>
         rbind (buf_getstringbuf b) (\<lambda>(q_buf, b).
         rbind (buf_get_ecc_raw_pubkey q_buf curve) (\<lambda>new_key.
         Inr (new_key, b)))))))"

definition buf_get_ecdsa_priv_key :: "buffer \<Rightarrow> (ecc_key option \<times> buffer) res" where
  "buf_get_ecdsa_priv_key b =
     rbind (buf_get_ecdsa_pub_key b) (\<lambda>(new_key, b).
     case new_key of None \<Rightarrow> Inr (None, b)
     | Some key \<Rightarrow>
       rbind (buf_getmpint b) (\<lambda>(k, b).
       case k of None \<Rightarrow> Inr (None, b) | Some k \<Rightarrow> Inr (Some (key\<lparr>ec_k := k\<rparr>), b)))"

definition buf_put_ecdsa_pub_key :: "buffer \<Rightarrow> ecc_key \<Rightarrow> buffer res" where
  "buf_put_ecdsa_pub_key b key =
     rbind (curve_for_dp (ec_dp key)) (\<lambda>curve.
     let key_ident = ecdsa_prefix @ cv_name curve in
     rbind (buf_putstring b key_ident (of_nat (length key_ident))) (\<lambda>b.
     rbind (buf_putstring b (cv_name curve) (of_nat (length (cv_name curve)))) (\<lambda>b.
     buf_put_ecc_raw_pubkey_string b key)))"

definition buf_put_ecdsa_priv_key :: "buffer \<Rightarrow> ecc_key \<Rightarrow> buffer res" where
  "buf_put_ecdsa_priv_key b key =
     rbind (buf_put_ecdsa_pub_key b key) (\<lambda>b. buf_putmpint b (ec_k key))"

section \<open>ECDSA signatures\<close>

definition buf_get_ecdsa_verify_params :: "buffer \<Rightarrow> ((mp_int \<times> mp_int) option \<times> buffer) res" where
  "buf_get_ecdsa_verify_params b =
     rbind (buf_getint b) (\<lambda>(sig_len, b).
     let sig_pos = buf_pos b in
     rbind (buf_getmpint b) (\<lambda>(r, b).
     case r of None \<Rightarrow> Inr (None, b)
     | Some r \<Rightarrow>
       rbind (buf_getmpint b) (\<lambda>(s, b).
       case s of None \<Rightarrow> Inr (None, b)
       | Some s \<Rightarrow> if buf_pos b - sig_pos \<noteq> sig_len then Inr (None, b) else Inr (Some (r, s), b))))"

definition buf_ecdsa_verify :: "key_env \<Rightarrow> buffer \<Rightarrow> ecc_key \<Rightarrow> buffer \<Rightarrow> (bool \<times> buffer) res" where
  "buf_ecdsa_verify ke b key data_buf =
     rbind (curve_for_dp (ec_dp key)) (\<lambda>curve.
     rbind (buf_get_ecdsa_verify_params b) (\<lambda>(params, b).
     case params of None \<Rightarrow> Inr (False, b)
     | Some (r, s) \<Rightarrow>
       rbind (buf_all data_buf) (\<lambda>dat.
       let e = mp_from_ubin (ke_hash ke (cv_hash_desc curve) dat); p = dp_order (ec_dp key) in
       if r = 0 \<or> s = 0 \<or> \<not> r < p \<or> \<not> s < p then Inr (False, b)
       else case mp_invmod s p of None \<Rightarrow> Inr (False, b)
       | Some w \<Rightarrow>
         let u1 = (e * w) mod p; u2 = (r * w) mod p in
         case ke_mul2add ke (ec_dp key) u1 (ec_x key, ec_y key, ec_z key) u2 of None \<Rightarrow> Inr (False, b)
         | Some x \<Rightarrow> let v = x mod p in Inr (v = r, b))))"

text \<open>
  Signing: \<open>eph i\<close> is the private number and the x coordinate of the \<open>i\<close>-th ephemeral key that \<^verbatim>\<open>ecc_make_key_ex\<close> makes, \<open>None\<close>
  when it fails. Every failure ends the process. The loop goes on until \<open>r\<close> and \<open>s\<close> are not zero: its value is \<open>None\<close> if it never ends.
\<close>

partial_function (option) ecdsa_sign_loop :: "(nat \<Rightarrow> (mp_int \<times> mp_int) option) \<Rightarrow> nat \<Rightarrow> mp_int \<Rightarrow> mp_int \<Rightarrow> mp_int \<Rightarrow> (mp_int \<times> mp_int) res option" where
  "ecdsa_sign_loop eph i e x p =
     (case eph i of None \<Rightarrow> Some (Inl (Exit ''ECC error''))
      | Some (k, Rx) \<Rightarrow>
        let r = Rx mod p in
        if r = 0 then ecdsa_sign_loop eph (Suc i) e x p
        else case mp_invmod k p of None \<Rightarrow> Some (Inl (Exit ''ECC error''))
        | Some k' \<Rightarrow>
          let s = (x * r) mod p; s = e + s; s = s mod p; s = (s * k') mod p in
          if s \<noteq> 0 then Some (Inr (r, s)) else ecdsa_sign_loop eph (Suc i) e x p)"

definition buf_put_ecdsa_sign :: "key_env \<Rightarrow> (nat \<Rightarrow> (mp_int \<times> mp_int) option) \<Rightarrow> buffer \<Rightarrow> ecc_key \<Rightarrow> buffer \<Rightarrow> buffer res option" where
  "buf_put_ecdsa_sign ke eph b key data_buf =
     obind (Some (curve_for_dp (ec_dp key))) (\<lambda>curve.
     obind (Some (buf_all data_buf)) (\<lambda>dat.
     let e = mp_from_ubin (ke_hash ke (cv_hash_desc curve) dat) in
     obind (ecdsa_sign_loop eph 0 e (ec_k key) (dp_order (ec_dp key))) (\<lambda>(r, s).
     let key_ident = ecdsa_prefix @ cv_name curve in
     Some (rbind (buf_putstring b key_ident (of_nat (length key_ident))) (\<lambda>b.
           rbind (buf_new 200) (\<lambda>sigbuf.
           rbind (buf_putmpint sigbuf r) (\<lambda>sigbuf.
           rbind (buf_putmpint sigbuf s) (\<lambda>sigbuf.
           buf_putbufstring b sigbuf))))))))"

section \<open>Ed25519\<close>

definition CURVE25519_LEN :: u32 where "CURVE25519_LEN = 32"

record dropbear_ed25519_key =
  ed_priv :: bytes
  ed_pub :: bytes

text \<open>The key that is read is a new one; its private part is zeroed. \<open>None\<close> is \<^verbatim>\<open>DROPBEAR_FAILURE\<close>.\<close>

definition buf_get_ed25519_pub_key :: "int \<Rightarrow> buffer \<Rightarrow> (dropbear_ed25519_key option \<times> buffer) res" where
  "buf_get_ed25519_pub_key expect_keytype b =
     rbind (buf_getstring b) (\<lambda>(keytype, typelen, b).
     if signkey_type_from_name keytype typelen \<noteq> expect_keytype then Inr (None, b)
     else
       rbind (buf_getint b) (\<lambda>(len, b).
       if len \<noteq> CURVE25519_LEN \<or> buf_len b - buf_pos b < len then Inr (None, b)
       else
         rbind (buf_getptr b CURVE25519_LEN) (\<lambda>p.
         rbind (mem_read (buf_data b) p (unat CURVE25519_LEN)) (\<lambda>pub.
         rbind (buf_incrpos b CURVE25519_LEN) (\<lambda>b.
         Inr (Some \<lparr>ed_priv = replicate 32 0, ed_pub = pub\<rparr>, b))))))"

definition buf_get_ed25519_priv_key :: "buffer \<Rightarrow> (dropbear_ed25519_key option \<times> buffer) res" where
  "buf_get_ed25519_priv_key b =
     rbind (buf_incrpos b (4 + 11)) (\<lambda>b.
     rbind (buf_getint b) (\<lambda>(len, b).
     if len \<noteq> CURVE25519_LEN * 2 \<or> buf_len b - buf_pos b < len then Inr (None, b)
     else
       rbind (buf_getptr b CURVE25519_LEN) (\<lambda>p.
       rbind (mem_read (buf_data b) p (unat CURVE25519_LEN)) (\<lambda>priv.
       rbind (buf_incrpos b CURVE25519_LEN) (\<lambda>b.
       rbind (buf_getptr b CURVE25519_LEN) (\<lambda>p.
       rbind (mem_read (buf_data b) p (unat CURVE25519_LEN)) (\<lambda>pub.
       rbind (buf_incrpos b CURVE25519_LEN) (\<lambda>b.
       Inr (Some \<lparr>ed_priv = priv, ed_pub = pub\<rparr>, b)))))))))"

definition buf_put_ed25519_pub_key :: "buffer \<Rightarrow> dropbear_ed25519_key \<Rightarrow> buffer res" where
  "buf_put_ed25519_pub_key b key =
     rbind (buf_putstring b (lit ''ssh-ed25519'') 11) (\<lambda>b.
     buf_putstring b (ed_pub key) CURVE25519_LEN)"

definition buf_put_ed25519_priv_key :: "buffer \<Rightarrow> dropbear_ed25519_key \<Rightarrow> buffer res" where
  "buf_put_ed25519_priv_key b key =
     rbind (buf_putstring b (lit ''ssh-ed25519'') 11) (\<lambda>b.
     rbind (buf_putint b (CURVE25519_LEN * 2)) (\<lambda>b.
     rbind (buf_putbytes b (ed_priv key) CURVE25519_LEN) (\<lambda>b.
     buf_putbytes b (ed_pub key) CURVE25519_LEN)))"

definition buf_put_ed25519_sign :: "key_env \<Rightarrow> buffer \<Rightarrow> dropbear_ed25519_key \<Rightarrow> buffer \<Rightarrow> buffer res" where
  "buf_put_ed25519_sign ke b key data_buf =
     rbind (buf_all data_buf) (\<lambda>dat.
     let s = ke_ed25519_sign ke dat (ed_priv key) (ed_pub key) in
     rbind (buf_putstring b (lit ''ssh-ed25519'') 11) (\<lambda>b.
     buf_putstring b s (of_nat (length s))))"

definition buf_ed25519_verify :: "key_env \<Rightarrow> buffer \<Rightarrow> dropbear_ed25519_key \<Rightarrow> buffer \<Rightarrow> (bool \<times> buffer) res" where
  "buf_ed25519_verify ke b key data_buf =
     rbind (buf_getint b) (\<lambda>(slen, b).
     if slen \<noteq> 64 \<or> buf_len b - buf_pos b < slen then Inr (False, b)
     else
       rbind (buf_getptr b slen) (\<lambda>p.
       rbind (mem_read (buf_data b) p (unat slen)) (\<lambda>s.
       rbind (buf_all data_buf) (\<lambda>dat.
       Inr (ke_ed25519_verify ke dat s (ed_pub key), b)))))"

section \<open>Security keys\<close>

definition SSH_SK_USER_PRESENCE_REQD :: u8 where "SSH_SK_USER_PRESENCE_REQD = 1"
definition SSH_SK_USER_VERIFICATION_REQD :: u8 where "SSH_SK_USER_VERIFICATION_REQD = 4"

text \<open>The message that the security key signs; \<open>app\<close> is the memory of the application string.\<close>

definition sk_message :: "key_env \<Rightarrow> bytes option \<Rightarrow> u32 \<Rightarrow> u8 \<Rightarrow> u32 \<Rightarrow> buffer \<Rightarrow> buffer res" where
  "sk_message ke app applen flags counter data_buf =
     rbind (buf_new (2 * 32 + 5)) (\<lambda>sk_buffer.
     rbind (case app of None \<Rightarrow> Inl NullDeref | Some app \<Rightarrow> mem_read app 0 (unat applen)) (\<lambda>app.
     rbind (buf_putbytes sk_buffer (ke_hash ke Sha256 app) 32) (\<lambda>sk_buffer.
     rbind (buf_putbyte sk_buffer flags) (\<lambda>sk_buffer.
     rbind (buf_putint sk_buffer counter) (\<lambda>sk_buffer.
     rbind (buf_all data_buf) (\<lambda>dat.
     buf_putbytes sk_buffer (ke_hash ke Sha256 dat) 32))))))"

text \<open>The checks of the flags that \<^verbatim>\<open>authorized_keys\<close> demands.\<close>

definition sk_flags_ok :: "u8 \<Rightarrow> u8 \<Rightarrow> bool \<Rightarrow> bool" where
  "sk_flags_ok flags sk_flags_mask ret =
     (let ret = (if NOT flags AND sk_flags_mask AND SSH_SK_USER_PRESENCE_REQD \<noteq> 0 then False else ret) in
      if NOT flags AND sk_flags_mask AND SSH_SK_USER_VERIFICATION_REQD \<noteq> 0 then False else ret)"

definition buf_sk_ed25519_verify :: "key_env \<Rightarrow> buffer \<Rightarrow> dropbear_ed25519_key \<Rightarrow> buffer \<Rightarrow> bytes option \<Rightarrow> u32 \<Rightarrow> u8 \<Rightarrow> (bool \<times> buffer) res" where
  "buf_sk_ed25519_verify ke b key data_buf app applen sk_flags_mask =
     rbind (buf_getint b) (\<lambda>(slen, b).
     if slen \<noteq> 64 \<or> buf_len b - buf_pos b < slen then Inr (False, b)
     else
       rbind (buf_getptr b slen) (\<lambda>p.
       rbind (mem_read (buf_data b) p (unat slen)) (\<lambda>s.
       rbind (buf_incrpos b slen) (\<lambda>b.
       rbind (buf_getbyte b) (\<lambda>(flags, b).
       rbind (buf_getint b) (\<lambda>(counter, b).
       rbind (sk_message ke app applen flags counter data_buf) (\<lambda>sk_buffer.
       rbind (buf_all sk_buffer) (\<lambda>msg.
       Inr (sk_flags_ok flags sk_flags_mask (ke_ed25519_verify ke msg s (ed_pub key)), b)))))))))"

definition buf_sk_ecdsa_verify :: "key_env \<Rightarrow> buffer \<Rightarrow> ecc_key \<Rightarrow> buffer \<Rightarrow> bytes option \<Rightarrow> u32 \<Rightarrow> u8 \<Rightarrow> (bool \<times> buffer) res" where
  "buf_sk_ecdsa_verify ke b key data_buf app applen sk_flags_mask =
     rbind (buf_getbuf b) (\<lambda>(sig_buffer, b).
     rbind (buf_getbyte b) (\<lambda>(flags, b).
     rbind (buf_getint b) (\<lambda>(counter, b).
     rbind (sk_message ke app applen flags counter data_buf) (\<lambda>sk_buffer.
     rbind (buf_ecdsa_verify ke sig_buffer key sk_buffer) (\<lambda>(ret, _).
     Inr (sk_flags_ok flags sk_flags_mask ret, b))))))"

end
