(* ===== verification/Sign_Key.thy ===== *)
theory Sign_Key
  imports Ecc_Key Base64
begin

text \<open>
  Public and private keys: RSA keys and signatures (\<^verbatim>\<open>rsa.c\<close>), reading and writing keys of any type, signing and verifying
  (\<^verbatim>\<open>signkey.c\<close>), and the comparison of a key with a line of \<^verbatim>\<open>authorized_keys\<close>.
\<close>

section \<open>Keys\<close>

record dropbear_rsa_key =
  rsa_n :: mp_int
  rsa_e :: mp_int
  rsa_d :: "mp_int option"
  rsa_p :: "mp_int option"
  rsa_q :: "mp_int option"

record sign_key =
  sk_rsakey :: "dropbear_rsa_key option"
  sk_ecckey256 :: "ecc_key option"
  sk_ecckey384 :: "ecc_key option"
  sk_ecckey521 :: "ecc_key option"
  sk_ed25519key :: "dropbear_ed25519_key option"
  sk_app :: "bytes option"
  sk_applen :: u32
  sk_flags_mask :: u8

definition new_sign_key :: sign_key where
  "new_sign_key = \<lparr>sk_rsakey = None, sk_ecckey256 = None, sk_ecckey384 = None, sk_ecckey521 = None, sk_ed25519key = None,
     sk_app = None, sk_applen = 0, sk_flags_mask = 0\<rparr>"

text \<open>The field that \<^verbatim>\<open>signkey_key_ptr\<close> points to, for ECDSA keys: reading and writing it.\<close>

definition signkey_key_get :: "sign_key \<Rightarrow> int \<Rightarrow> ecc_key option" where
  "signkey_key_get key type =
     (if type = DROPBEAR_SIGNKEY_ECDSA_NISTP256 \<or> type = DROPBEAR_SIGNKEY_SK_ECDSA_NISTP256 then sk_ecckey256 key
      else if type = DROPBEAR_SIGNKEY_ECDSA_NISTP384 then sk_ecckey384 key
      else if type = DROPBEAR_SIGNKEY_ECDSA_NISTP521 then sk_ecckey521 key
      else None)"

definition signkey_key_set :: "int \<Rightarrow> ecc_key option \<Rightarrow> sign_key \<Rightarrow> sign_key" where
  "signkey_key_set type k key =
     (if type = DROPBEAR_SIGNKEY_ECDSA_NISTP256 \<or> type = DROPBEAR_SIGNKEY_SK_ECDSA_NISTP256 then key\<lparr>sk_ecckey256 := k\<rparr>
      else if type = DROPBEAR_SIGNKEY_ECDSA_NISTP384 then key\<lparr>sk_ecckey384 := k\<rparr>
      else if type = DROPBEAR_SIGNKEY_ECDSA_NISTP521 then key\<lparr>sk_ecckey521 := k\<rparr>
      else key)"

section \<open>RSA\<close>

definition MIN_RSA_KEYLEN :: nat where "MIN_RSA_KEYLEN = 1024"

definition buf_get_rsa_pub_key :: "buffer \<Rightarrow> (dropbear_rsa_key option \<times> buffer) res" where
  "buf_get_rsa_pub_key b =
     rbind (buf_incrpos b (4 + 7)) (\<lambda>b.
     rbind (buf_getmpint b) (\<lambda>(e, b).
     case e of None \<Rightarrow> Inr (None, b)
     | Some e \<Rightarrow>
       rbind (buf_getmpint b) (\<lambda>(n, b).
       case n of None \<Rightarrow> Inr (None, b)
       | Some n \<Rightarrow>
         if mp_count_bits n < MIN_RSA_KEYLEN then Inr (None, b)
         else if mp_count_bits e > 64 then Inr (None, b)
         else Inr (Some \<lparr>rsa_n = n, rsa_e = e, rsa_d = None, rsa_p = None, rsa_q = None\<rparr>, b))))"

definition buf_get_rsa_priv_key :: "buffer \<Rightarrow> (dropbear_rsa_key option \<times> buffer) res" where
  "buf_get_rsa_priv_key b =
     rbind (buf_get_rsa_pub_key b) (\<lambda>(key, b).
     case key of None \<Rightarrow> Inr (None, b)
     | Some key \<Rightarrow>
       rbind (buf_getmpint b) (\<lambda>(d, b).
       case d of None \<Rightarrow> Inr (None, b)
       | Some d \<Rightarrow>
         if buf_pos b = buf_len b then Inl (Exit ''RSA key format is ancient'')
         else
           rbind (buf_getmpint b) (\<lambda>(p, b).
           case p of None \<Rightarrow> Inr (None, b)
           | Some p \<Rightarrow>
             rbind (buf_getmpint b) (\<lambda>(q, b).
             case q of None \<Rightarrow> Inr (None, b)
             | Some q \<Rightarrow> Inr (Some (key\<lparr>rsa_d := Some d, rsa_p := Some p, rsa_q := Some q\<rparr>), b)))))"

definition buf_put_rsa_pub_key :: "buffer \<Rightarrow> dropbear_rsa_key \<Rightarrow> buffer res" where
  "buf_put_rsa_pub_key b key =
     rbind (buf_putstring b (lit ''ssh-rsa'') 7) (\<lambda>b.
     rbind (buf_putmpint b (rsa_e key)) (\<lambda>b.
     buf_putmpint b (rsa_n key)))"

text \<open>A private part that is not there is a null pointer.\<close>

definition need :: "'a option \<Rightarrow> 'a res" where
  "need x = (case x of None \<Rightarrow> Inl NullDeref | Some x \<Rightarrow> Inr x)"

definition buf_put_rsa_priv_key :: "buffer \<Rightarrow> dropbear_rsa_key \<Rightarrow> buffer res" where
  "buf_put_rsa_priv_key b key =
     rbind (buf_put_rsa_pub_key b key) (\<lambda>b.
     rbind (need (rsa_d key)) (\<lambda>d.
     rbind (buf_putmpint b d) (\<lambda>b.
     rbind (case rsa_p key of None \<Rightarrow> Inr b | Some p \<Rightarrow> buf_putmpint b p) (\<lambda>b.
     case rsa_q key of None \<Rightarrow> Inr b | Some q \<Rightarrow> buf_putmpint b q))))"

definition T_sha256 :: bytes where
  "T_sha256 = [0x30, 0x31, 0x30, 0x0d] @ [0x06, 0x09, 0x60, 0x86, 0x48, 0x01] @ [0x65, 0x03, 0x04, 0x02, 0x01] @ [0x05, 0x00] @ [0x04, 0x20]"

fun put_bytes_n :: "nat \<Rightarrow> u8 \<Rightarrow> buffer \<Rightarrow> buffer res" where
  "put_bytes_n 0 c b = Inr b"
| "put_bytes_n (Suc n) c b = rbind (buf_putbyte b c) (put_bytes_n n c)"

text \<open>
  Every round of the padding loop writes a byte or ends the process, so that it has as many rounds as the position is
  away from its end.
\<close>

definition rsa_pad_em :: "key_env \<Rightarrow> dropbear_rsa_key \<Rightarrow> buffer \<Rightarrow> int \<Rightarrow> mp_int res" where
  "rsa_pad_em ke key data_buf sigtype =
     (if sigtype \<noteq> DROPBEAR_SIGNATURE_RSA_SHA256 then Inl (AssertFail ''0'')
      else
        rbind (buf_new (of_nat (mp_ubin_size (rsa_n key)))) (\<lambda>em.
        rbind (buf_putbyte em 0x00) (\<lambda>em.
        rbind (buf_putbyte em 0x01) (\<lambda>em.
        rbind (put_bytes_n (unat (buf_size em - (1 + 19 + 32) - buf_pos em)) 0xff em) (\<lambda>em.
        rbind (buf_putbyte em 0x00) (\<lambda>em.
        rbind (buf_putbytes em T_sha256 19) (\<lambda>em.
        rbind (buf_all data_buf) (\<lambda>dat.
        rbind (buf_getwriteptr em 32) (\<lambda>p.
        rbind (mem_write (buf_data em) p (ke_hash ke Sha256 dat)) (\<lambda>d.
        rbind (buf_incrwritepos (em\<lparr>buf_data := d\<rparr>) 32) (\<lambda>em.
        rbind (dropbear_assert ''rsa_EM->pos == rsa_EM->size'' (buf_pos em = buf_size em)) (\<lambda>_.
        rbind (buf_setpos em 0) (\<lambda>em.
        rbind (buf_getptr em (buf_size em)) (\<lambda>p.
        rbind (mem_read (buf_data em) p (unat (buf_size em))) (\<lambda>bs.
        Inr (mp_from_ubin bs))))))))))))))))"

definition buf_rsa_verify :: "key_env \<Rightarrow> buffer \<Rightarrow> dropbear_rsa_key \<Rightarrow> int \<Rightarrow> buffer \<Rightarrow> (bool \<times> buffer) res" where
  "buf_rsa_verify ke b key sigtype data_buf =
     rbind (buf_getint b) (\<lambda>(slen, b).
     if slen \<noteq> of_nat (mp_ubin_size (rsa_n key)) then Inr (False, b)
     else
       rbind (buf_getptr b (buf_len b - buf_pos b)) (\<lambda>p.
       rbind (mem_read (buf_data b) p (unat (buf_len b - buf_pos b))) (\<lambda>bs.
       let rsa_s = mp_from_ubin bs in
       if \<not> rsa_s < rsa_n key then Inr (False, b)
       else
         rbind (rsa_pad_em ke key data_buf sigtype) (\<lambda>em.
         let mdash = rsa_s ^ nat (rsa_e key) mod rsa_n key in
         Inr (em = mdash, b)))))"

text \<open>\<^verbatim>\<open>mp_exptmod\<close>: a negative exponent means the inverse.\<close>

definition mp_exptmod :: "mp_int \<Rightarrow> mp_int \<Rightarrow> mp_int \<Rightarrow> mp_int option" where
  "mp_exptmod g x p =
     (if p < 0 then None
      else if x < 0 then (case mp_invmod g p of None \<Rightarrow> None | Some g' \<Rightarrow> Some (g' ^ nat (- x) mod p))
      else Some (g ^ nat x mod p))"

definition rsa_error :: "'a option \<Rightarrow> 'a res" where
  "rsa_error x = (case x of None \<Rightarrow> Inl (Exit ''RSA error'') | Some x \<Rightarrow> Inr x)"

text \<open>The signature proper, with base blinding by \<^verbatim>\<open>r\<close> and exponent blinding by a 64-bit number; \<open>rnd\<close> and \<open>i\<close> as in \<open>gen_random_mpint\<close>.\<close>

definition rsa_sign_value :: "(nat \<Rightarrow> nat \<Rightarrow> bytes) \<Rightarrow> nat \<Rightarrow> dropbear_rsa_key \<Rightarrow> mp_int \<Rightarrow> (mp_int \<times> nat) res option" where
  "rsa_sign_value rnd i key em =
     (let n = rsa_n key in
      obind (gen_random_mpint rnd i n) (\<lambda>(r, i).
      obind (Some (rsa_error (mp_exptmod r (rsa_e key) n))) (\<lambda>re.
      obind (Some (rsa_error (mp_invmod r n))) (\<lambda>r_inv.
      let em' = (em * re) mod n in
      obind (gen_random_mpint rnd i 0xffffffffffffffff) (\<lambda>(b_rand, i).
      let phi_n = n + 1 in
      obind (Some (need (rsa_p key))) (\<lambda>p.
      let b_d = phi_n - p in
      obind (Some (need (rsa_q key))) (\<lambda>q.
      let phi_n = b_d - q; b_tmp = b_rand * phi_n in
      obind (Some (need (rsa_d key))) (\<lambda>d.
      let b_d = d + b_tmp in
      obind (Some (rsa_error (mp_exptmod em' b_d n))) (\<lambda>s'.
      Some (Inr ((s' * r_inv) mod n, i)))))))))))"

definition buf_put_rsa_sign :: "key_env \<Rightarrow> (nat \<Rightarrow> nat \<Rightarrow> bytes) \<Rightarrow> nat \<Rightarrow> buffer \<Rightarrow> dropbear_rsa_key \<Rightarrow> int \<Rightarrow> buffer \<Rightarrow> buffer res option" where
  "buf_put_rsa_sign ke rnd i b key sigtype data_buf =
     obind (Some (rsa_pad_em ke key data_buf sigtype)) (\<lambda>em.
     obind (rsa_sign_value rnd i key em) (\<lambda>(rsa_s, _).
     Some (rbind (signature_name_from_type sigtype) (\<lambda>name.
           rbind (buf_putstring b name (of_nat (length name))) (\<lambda>b.
           let nsize = mp_ubin_size (rsa_n key) in
           rbind (buf_putint b (of_nat nsize)) (\<lambda>b.
           let ssize = mp_ubin_size rsa_s in
           rbind (dropbear_assert ''ssize <= nsize'' (ssize \<le> nsize)) (\<lambda>_.
           rbind (put_bytes_n (nsize - ssize) 0x00 b) (\<lambda>b.
           rbind (buf_getwriteptr b (of_nat ssize)) (\<lambda>p.
           rbind (rsa_error (mp_to_ubin rsa_s ssize)) (\<lambda>bs.
           rbind (mem_write (buf_data b) p bs) (\<lambda>d.
           buf_incrwritepos (b\<lparr>buf_data := d\<rparr>) (of_nat (length bs)))))))))))))"

section \<open>Reading and writing keys\<close>

text \<open>The key that was read and its type, or a failure, with the type that \<^verbatim>\<open>*type\<close> has then.\<close>

definition buf_get_pub_key :: "buffer \<Rightarrow> sign_key \<Rightarrow> int \<Rightarrow> (bool \<times> sign_key \<times> int \<times> buffer) res" where
  "buf_get_pub_key b key type =
     rbind (buf_getstring b) (\<lambda>(ident, len, b).
     let keytype = signkey_type_from_name ident len in
     if type \<noteq> DROPBEAR_SIGNKEY_ANY \<and> type \<noteq> keytype then Inr (False, key, type, b)
     else
       rbind (buf_decrpos b (len + 4)) (\<lambda>b.
       rbind (if keytype = DROPBEAR_SIGNKEY_RSA
              then rbind (buf_get_rsa_pub_key b) (\<lambda>(k, b). Inr (k \<noteq> None, key\<lparr>sk_rsakey := k\<rparr>, b))
              else if signkey_is_ecdsa keytype \<or> keytype = DROPBEAR_SIGNKEY_SK_ECDSA_NISTP256
              then rbind (buf_get_ecdsa_pub_key b) (\<lambda>(k, b). Inr (k \<noteq> None, signkey_key_set keytype k key, b))
              else if keytype = DROPBEAR_SIGNKEY_ED25519 \<or> keytype = DROPBEAR_SIGNKEY_SK_ED25519
              then rbind (buf_get_ed25519_pub_key keytype b) (\<lambda>(k, b). Inr (k \<noteq> None, key\<lparr>sk_ed25519key := k\<rparr>, b))
              else Inr (False, key, b)) (\<lambda>(ret, key, b).
       if keytype = DROPBEAR_SIGNKEY_SK_ED25519 \<or> keytype = DROPBEAR_SIGNKEY_SK_ECDSA_NISTP256
       then rbind (buf_getstring b) (\<lambda>(app, applen, b). Inr (ret, key\<lparr>sk_app := Some app, sk_applen := applen\<rparr>, keytype, b))
       else Inr (ret, key, keytype, b))))"

definition buf_get_priv_key :: "buffer \<Rightarrow> sign_key \<Rightarrow> int \<Rightarrow> (bool \<times> sign_key \<times> int \<times> buffer) res" where
  "buf_get_priv_key b key type =
     rbind (buf_getstring b) (\<lambda>(ident, len, b).
     let keytype = signkey_type_from_name ident len in
     if type \<noteq> DROPBEAR_SIGNKEY_ANY \<and> type \<noteq> keytype then Inr (False, key, type, b)
     else
       rbind (buf_decrpos b (len + 4)) (\<lambda>b.
       if keytype = DROPBEAR_SIGNKEY_RSA
       then rbind (buf_get_rsa_priv_key b) (\<lambda>(k, b). Inr (k \<noteq> None, key\<lparr>sk_rsakey := k\<rparr>, keytype, b))
       else if signkey_is_ecdsa keytype
       then rbind (buf_get_ecdsa_priv_key b) (\<lambda>(k, b). Inr (k \<noteq> None, signkey_key_set keytype k key, keytype, b))
       else if keytype = DROPBEAR_SIGNKEY_ED25519
       then rbind (buf_get_ed25519_priv_key b) (\<lambda>(k, b). Inr (k \<noteq> None, key\<lparr>sk_ed25519key := k\<rparr>, keytype, b))
       else Inr (False, key, keytype, b)))"

definition MAX_PUBKEY_SIZE :: u32 where "MAX_PUBKEY_SIZE = 600"

definition buf_put_pub_key :: "buffer \<Rightarrow> sign_key \<Rightarrow> int \<Rightarrow> buffer res" where
  "buf_put_pub_key b key type =
     rbind (buf_new MAX_PUBKEY_SIZE) (\<lambda>pubkeys.
     rbind (if type = DROPBEAR_SIGNKEY_RSA then rbind (need (sk_rsakey key)) (buf_put_rsa_pub_key pubkeys)
            else if signkey_is_ecdsa type \<or> type = DROPBEAR_SIGNKEY_SK_ECDSA_NISTP256
            then (case signkey_key_get key type of None \<Rightarrow> Inr pubkeys | Some k \<Rightarrow> buf_put_ecdsa_pub_key pubkeys k)
            else if type = DROPBEAR_SIGNKEY_ED25519 \<or> type = DROPBEAR_SIGNKEY_SK_ED25519
            then rbind (need (sk_ed25519key key)) (buf_put_ed25519_pub_key pubkeys)
            else Inr pubkeys) (\<lambda>pubkeys.
     if buf_len pubkeys = 0 then Inl (Exit ''Bad key types in buf_put_pub_key'')
     else buf_putbufstring b pubkeys))"

definition buf_put_priv_key :: "buffer \<Rightarrow> sign_key \<Rightarrow> int \<Rightarrow> buffer res" where
  "buf_put_priv_key b key type =
     (if type = DROPBEAR_SIGNKEY_RSA then rbind (need (sk_rsakey key)) (buf_put_rsa_priv_key b)
      else if signkey_is_ecdsa type \<and> signkey_key_get key type \<noteq> None
      then buf_put_ecdsa_priv_key b (the (signkey_key_get key type))
      else if type = DROPBEAR_SIGNKEY_ED25519 then rbind (need (sk_ed25519key key)) (buf_put_ed25519_priv_key b)
      else Inl (Exit ''Bad key types in put pub key''))"

text \<open>The text without its terminator; \<open>keyblob\<close> is the memory of the key.\<close>

definition sign_key_fingerprint :: "key_env \<Rightarrow> bytes \<Rightarrow> u32 \<Rightarrow> bytes res" where
  "sign_key_fingerprint ke keyblob keybloblen =
     rbind (mem_read keyblob 0 (unat keybloblen)) (\<lambda>blob.
     case base64_encode (ke_hash ke Sha256 blob) (43 + 4) of Inl err \<Rightarrow> Inl (Exit ''base64 failed'')
     | Inr txt \<Rightarrow> Inr (lit ''SHA256:'' @ take 43 txt))"

section \<open>Signing and verifying\<close>

definition buf_put_sign :: "key_env \<Rightarrow> (nat \<Rightarrow> nat \<Rightarrow> bytes) \<Rightarrow> nat \<Rightarrow> (nat \<Rightarrow> (mp_int \<times> mp_int) option) \<Rightarrow> buffer \<Rightarrow> sign_key \<Rightarrow> int \<Rightarrow> buffer
    \<Rightarrow> buffer res option" where
  "buf_put_sign ke rnd i eph b key sigtype data_buf =
     obind (Some (buf_new MAX_PUBKEY_SIZE)) (\<lambda>sigblob.
     obind (Some (signkey_type_from_signature sigtype)) (\<lambda>keytype.
     obind (if keytype = DROPBEAR_SIGNKEY_RSA
            then obind (Some (need (sk_rsakey key))) (\<lambda>k. buf_put_rsa_sign ke rnd i sigblob k sigtype data_buf)
            else if signkey_is_ecdsa keytype
            then (case signkey_key_get key keytype of None \<Rightarrow> Some (Inr sigblob) | Some k \<Rightarrow> buf_put_ecdsa_sign ke eph sigblob k data_buf)
            else if keytype = DROPBEAR_SIGNKEY_ED25519
            then obind (Some (need (sk_ed25519key key))) (\<lambda>k. Some (buf_put_ed25519_sign ke sigblob k data_buf))
            else Some (Inr sigblob)) (\<lambda>sigblob.
     if buf_len sigblob = 0 then Some (Inl (Exit ''Non-matching signing type''))
     else Some (buf_putbufstring b sigblob))))"

definition buf_verify :: "key_env \<Rightarrow> buffer \<Rightarrow> sign_key \<Rightarrow> int \<Rightarrow> buffer \<Rightarrow> (bool \<times> buffer) res" where
  "buf_verify ke b key expect_sigtype data_buf =
     rbind (buf_getint b) (\<lambda>(bloblen, b).
     rbind (buf_getstring b) (\<lambda>(type_name, type_name_len, b).
     let sigtype = signature_type_from_name type_name type_name_len in
     if expect_sigtype \<noteq> sigtype then Inl (Exit ''Non-matching signing type'')
     else
       rbind (signkey_type_from_signature sigtype) (\<lambda>keytype.
       if keytype = DROPBEAR_SIGNKEY_RSA
       then (case sk_rsakey key of None \<Rightarrow> Inl (Exit ''No RSA key to verify signature'') | Some k \<Rightarrow> buf_rsa_verify ke b k sigtype data_buf)
       else if signkey_is_ecdsa keytype \<and> signkey_key_get key keytype \<noteq> None
       then buf_ecdsa_verify ke b (the (signkey_key_get key keytype)) data_buf
       else if keytype = DROPBEAR_SIGNKEY_ED25519
       then (case sk_ed25519key key of None \<Rightarrow> Inl (Exit ''No Ed25519 key to verify signature'') | Some k \<Rightarrow> buf_ed25519_verify ke b k data_buf)
       else if keytype = DROPBEAR_SIGNKEY_SK_ECDSA_NISTP256 \<and> signkey_key_get key keytype \<noteq> None
       then buf_sk_ecdsa_verify ke b (the (signkey_key_get key keytype)) data_buf (sk_app key) (sk_applen key) (sk_flags_mask key)
       else if keytype = DROPBEAR_SIGNKEY_SK_ED25519 \<and> sk_ed25519key key \<noteq> None
       then buf_sk_ed25519_verify ke b (the (sk_ed25519key key)) data_buf (sk_app key) (sk_applen key) (sk_flags_mask key)
       else Inl (Exit ''Non-matching signing type''))))"

text \<open>\<open>line\<close> stands at the base64 text. A failed base64 decoding is a failure.\<close>

definition cmp_base64_key :: "bytes \<Rightarrow> u32 \<Rightarrow> bytes \<Rightarrow> u32 \<Rightarrow> buffer \<Rightarrow> bool res" where
  "cmp_base64_key keyblob keybloblen algoname algolen line =
     (let len = buf_len line - buf_pos line in
      if len = 0 then Inr False
      else
        let decodekeylen = len * 2 in
        rbind (buf_new decodekeylen) (\<lambda>decodekey.
        rbind (buf_getptr line len) (\<lambda>p.
        rbind (mem_read (buf_data line) p (unat len)) (\<lambda>txt.
        rbind (buf_getwriteptr decodekey (buf_size decodekey)) (\<lambda>q.
        case base64_decode txt (unat decodekeylen) of Inl err \<Rightarrow> Inr False
        | Inr bs \<Rightarrow>
          rbind (mem_write (buf_data decodekey) q bs) (\<lambda>d.
          rbind (buf_incrlen (decodekey\<lparr>buf_data := d\<rparr>) (of_nat (length bs))) (\<lambda>decodekey.
          if length bs \<noteq> unat keybloblen then Inr False
          else
            rbind (buf_getptr decodekey (buf_len decodekey)) (\<lambda>p.
            rbind (mem_read (buf_data decodekey) p (unat (buf_len decodekey))) (\<lambda>dec.
            rbind (mem_read keyblob 0 (unat (buf_len decodekey))) (\<lambda>blob.
            if dec \<noteq> blob then Inr False
            else
              rbind (buf_getint decodekey) (\<lambda>(filealgolen, decodekey).
              rbind (buf_getptr decodekey filealgolen) (\<lambda>p.
              if filealgolen \<noteq> algolen then Inr False
              else
                rbind (mem_read (buf_data decodekey) p (unat algolen)) (\<lambda>filealgo.
                rbind (mem_read algoname 0 (unat algolen)) (\<lambda>algo.
                Inr (filealgo = algo)))))))))))))))"

end
