(* ===== verification/Authorized_Keys.thy ===== *)
theory Authorized_Keys
  imports Sign_Key Pubkey_Options Netio
begin

text \<open>
  The file \<^verbatim>\<open>authorized_keys\<close> of a user (\<^verbatim>\<open>svr-authpubkey.c\<close>, \<^verbatim>\<open>buf_getline\<close> and the path functions of \<^verbatim>\<open>dbutil.c\<close>): where
  it is, whether its directories may be trusted, and which keys its lines authorise, with their options. The file
  system, the system calls that change the identity of the process and the databases of users are parameters
  (\<open>auth_env\<close>); the process changes to the user before it looks at files.
\<close>

section \<open>Parameters\<close>

record passwd =
  pwd_uid :: int
  pwd_gid :: int
  pwd_name :: bytes
  pwd_dir :: bytes
  pwd_shell :: bytes
  pwd_passwd :: "bytes option"

text \<open>Opening a file for reading: \<^verbatim>\<open>open\<close> may fail, \<^verbatim>\<open>fdopen\<close> may fail on the descriptor, or there is the text of the file.\<close>

datatype open_result = Open_failed | Fdopen_failed int | Opened bytes

text \<open>
  Strings are given without their terminator. \<open>ae_ids_ok\<close> tells whether a call that changes identities succeeds,
  \<open>ae_stat\<close> gives the owner and the mode, \<open>ae_getgrouplist\<close> all groups of a user, \<open>ae_einval\<close> whether \<^verbatim>\<open>errno\<close> is
  \<^verbatim>\<open>EINVAL\<close> when options are parsed.
\<close>

record auth_env =
  ae_keys :: "key_env"
  ae_getpwnam :: "bytes \<Rightarrow> passwd option"
  ae_getspnam :: "bytes \<Rightarrow> bytes option option"
  ae_getgrouplist :: "bytes \<Rightarrow> int \<Rightarrow> int list"
  ae_usershells :: "bytes list"
  ae_crypt :: "bytes \<Rightarrow> bytes \<Rightarrow> bytes option"
  ae_getgrnam_utmp :: "int option"
  ae_ids_ok :: "nat \<Rightarrow> bool"
  ae_stat :: "creds \<Rightarrow> bytes \<Rightarrow> (int \<times> u32) option"
  ae_open :: "creds \<Rightarrow> bytes \<Rightarrow> open_result"
  ae_gettime :: "nat \<Rightarrow> int \<times> int"
  ae_einval :: bool

text \<open>
  The options of the server that authentication reads. \<open>ao_password_auth\<close> is the compile-time option
  \<^verbatim>\<open>DROPBEAR_SVR_PASSWORD_AUTH\<close>, \<open>ao_restrict_group\<close> the group of \<^verbatim>\<open>-G\<close>.
\<close>

record auth_opts =
  ao_password_auth :: bool
  ao_noauthpass :: bool
  ao_norootpass :: bool
  ao_allowblankpass :: bool
  ao_norootlogin :: bool
  ao_multiauthmethod :: bool
  ao_maxauthtries :: u32
  ao_restrict_group :: "int option"
  ao_authorized_keys_dir :: bytes

definition MIN_AUTHKEYS_LINE :: u32 where "MIN_AUTHKEYS_LINE = 10"
definition MAX_AUTHKEYS_LINE :: u32 where "MAX_AUTHKEYS_LINE = 4200"

section \<open>Identities\<close>

definition upd_creds :: "(creds \<Rightarrow> creds) \<Rightarrow> ('c, 'z) session \<Rightarrow> ('c, 'z) session" where
  "upd_creds f s = s\<lparr>ses_svr := (ses_svr s)\<lparr>svr_creds := f (svr_creds (ses_svr s))\<rparr>\<rparr>"

abbreviation ses_creds :: "('c, 'z) session \<Rightarrow> creds" where
  "ses_creds s \<equiv> svr_creds (ses_svr s)"

text \<open>A call that changes identities: it fails, or the change happens.\<close>

definition sys_ids :: "auth_env \<Rightarrow> (creds \<Rightarrow> creds) \<Rightarrow> ('c, 'z) session \<Rightarrow> bool \<times> ('c, 'z) session" where
  "sys_ids ae f s = (if ae_ids_ok ae (ses_tick s) then (True, upd_creds f (tick s)) else (False, tick s))"

definition setegid :: "auth_env \<Rightarrow> int \<Rightarrow> ('c, 'z) session \<Rightarrow> bool \<times> ('c, 'z) session" where
  "setegid ae g s = sys_ids ae (\<lambda>c. c\<lparr>cr_egid := g\<rparr>) s"

definition seteuid :: "auth_env \<Rightarrow> int \<Rightarrow> ('c, 'z) session \<Rightarrow> bool \<times> ('c, 'z) session" where
  "seteuid ae u s = sys_ids ae (\<lambda>c. c\<lparr>cr_euid := u\<rparr>) s"

section \<open>Lines\<close>

text \<open>\<open>EOF\<close> is -1. The loop of \<^verbatim>\<open>buf_getline\<close>: whether it jumps to \<^verbatim>\<open>out\<close>, the last character, the line and the rest of the file.\<close>

fun getline_loop :: "int \<Rightarrow> buffer \<Rightarrow> bytes \<Rightarrow> (bool \<times> int \<times> buffer \<times> bytes) res" where
  "getline_loop c line [] = (if buf_pos line < buf_size line then Inr (True, -1, line, []) else Inr (False, c, line, []))"
| "getline_loop c line (x # f) =
     (if buf_pos line < buf_size line
      then if x = 10 \<or> x = 13 then Inr (True, uint x, line, f)
           else rbind (buf_putbyte line x) (\<lambda>line. getline_loop (uint x) line f)
      else Inr (False, c, line, x # f))"

definition buf_getline :: "buffer \<Rightarrow> bytes \<Rightarrow> (bool \<times> buffer \<times> bytes) res" where
  "buf_getline line f =
     rbind (buf_setpos line 0) (\<lambda>line.
     rbind (buf_setlen line 0) (\<lambda>line.
     rbind (getline_loop (-1) line f) (\<lambda>(out, c, line, f).
     rbind (if out then Inr line else buf_setlen line 0) (\<lambda>line.
     if c = -1 \<and> buf_pos line = 0 then Inr (False, line, f)
     else rbind (buf_setpos line 0) (\<lambda>line. Inr (True, line, f))))))"

text \<open>The comparison that \<^verbatim>\<open>strncmp\<close> makes.\<close>

definition strncmp_eq :: "bytes \<Rightarrow> bytes \<Rightarrow> nat \<Rightarrow> bool" where
  "strncmp_eq a b n \<longleftrightarrow> take n (cstr a) = take n (cstr b)"

definition isalnum :: "u8 \<Rightarrow> bool" where
  "isalnum c \<longleftrightarrow> isdigit c \<or> (65 \<le> c \<and> c \<le> 90) \<or> (97 \<le> c \<and> c \<le> 122)"

text \<open>Skipping whitespace: whether a comment starts, and the line.\<close>

function skip_white :: "buffer \<Rightarrow> (bool \<times> buffer) res" where
  "skip_white line =
     (if buf_pos line < buf_len line
      then rbind (buf_getbyte line) (\<lambda>(c, line).
           if c = 32 \<or> c = 9 then skip_white line
           else if c = 35 then Inr (True, line)
           else rbind (buf_decrpos line 1) (\<lambda>line. Inr (False, line)))
      else Inr (False, line))"
  by pat_completeness auto

termination
  by (relation "measure (\<lambda>b. unat (buf_len b) - unat (buf_pos b))") (auto dest!: buf_getbyte_adv)

text \<open>The end of the options, with their length.\<close>

function scan_options :: "bool \<Rightarrow> bool \<Rightarrow> u32 \<Rightarrow> buffer \<Rightarrow> (u32 \<times> buffer) res" where
  "scan_options quoted escape options_len line =
     (if buf_pos line < buf_len line
      then rbind (buf_getbyte line) (\<lambda>(c, line).
           if \<not> quoted \<and> (c = 32 \<or> c = 9) then Inr (options_len, line)
           else
             let escape = (\<not> escape \<and> c = 92);
                 quoted = (if \<not> escape \<and> c = 34 then \<not> quoted else quoted) in
             scan_options quoted escape (options_len + 1) line)
      else Inr (options_len, line))"
  by pat_completeness auto

termination
  by (relation "measure (\<lambda>(_, _, _, b). unat (buf_len b) - unat (buf_pos b))") (auto dest!: buf_getbyte_adv)

function scan_base64 :: "u32 \<Rightarrow> buffer \<Rightarrow> (u32 \<times> buffer) res" where
  "scan_base64 len line =
     (if buf_pos line < buf_len line
      then rbind (buf_getbyte line) (\<lambda>(c, line). if c = 32 then Inr (len, line) else scan_base64 (len + 1) line)
      else Inr (len, line))"
  by pat_completeness auto

termination
  by (relation "measure (\<lambda>(_, b). unat (buf_len b) - unat (buf_pos b))") (auto dest!: buf_getbyte_adv)

function scan_info :: "u32 \<Rightarrow> buffer \<Rightarrow> (u32 \<times> buffer) res" where
  "scan_info infolen line =
     (if buf_pos line < buf_len line
      then rbind (buf_getbyte line) (\<lambda>(c, line).
           if c = 32 then Inr (infolen, line)
           else if \<not> (isalnum c \<or> c \<in> set (lit ''.,_-+@'')) then Inr (0, line)
           else scan_info (infolen + 1) line)
      else Inr (infolen, line))"
  by pat_completeness auto

termination
  by (relation "measure (\<lambda>(_, b). unat (buf_len b) - unat (buf_pos b))") (auto dest!: buf_getbyte_adv)

declare skip_white.simps [simp del] scan_options.simps [simp del] scan_base64.simps [simp del] scan_info.simps [simp del]

text \<open>The algorithm at the position of the line.\<close>

definition at_algo :: "buffer \<Rightarrow> bytes \<Rightarrow> u32 \<Rightarrow> bool res" where
  "at_algo line algo algolen =
     rbind (buf_getptr line algolen) (\<lambda>p.
     rbind (mem_read (buf_data line) p (unat algolen)) (\<lambda>bs.
     Inr (strncmp_eq bs algo (unat algolen))))"

text \<open>Options before the algorithm: \<open>None\<close> for a line without a key, or the options and the line after them.\<close>

definition line_options :: "buffer \<Rightarrow> bytes \<Rightarrow> u32 \<Rightarrow> (buffer \<times> buffer) option res" where
  "line_options line algo algolen =
     rbind (skip_white line) (\<lambda>(is_comment, line).
     if is_comment then Inr None
     else
       rbind (buf_getptr line 1) (\<lambda>options_start.
       rbind (scan_options False False 0 line) (\<lambda>(options_len, line).
       rbind (buf_new options_len) (\<lambda>options_buf.
       rbind (buf_putbytes options_buf (drop options_start (buf_data line)) options_len) (\<lambda>options_buf.
       if buf_pos line + algolen + 3 > buf_len line then Inr None
       else
         rbind (at_algo line algo algolen) (\<lambda>m.
         if m then Inr (Some (options_buf, line)) else Inr None))))))"

text \<open>The comment after the key, for \<^verbatim>\<open>SSH_PUBKEYINFO\<close>; the line is positioned at it.\<close>

definition key_info :: "buffer \<Rightarrow> bytes option res" where
  "key_info line =
     (let infopos = buf_pos line in
      rbind (scan_info 0 line) (\<lambda>(infolen, line).
      if infolen > 0 then
        rbind (buf_setpos line infopos) (\<lambda>line.
        rbind (buf_getptr line infolen) (\<lambda>p.
        rbind (mem_read (buf_data line) p (unat infolen)) (\<lambda>bs.
        Inr (Some (cstr bs @ [0])))))
      else Inr None))"

text \<open>The part after the options.\<close>

definition line_key :: "bool \<Rightarrow> buffer \<Rightarrow> buffer option \<Rightarrow> bytes \<Rightarrow> u32 \<Rightarrow> bytes \<Rightarrow> u32 \<Rightarrow> PubKeyOptions option res" where
  "line_key einval line options_buf algo algolen keyblob keybloblen =
     rbind (buf_incrpos line algolen) (\<lambda>line.
     rbind (buf_getbyte line) (\<lambda>(c, line).
     if c \<noteq> 32 then Inr None
     else
       let pos = buf_pos line in
       rbind (scan_base64 0 line) (\<lambda>(len, line).
       rbind (key_info line) (\<lambda>info_str.
       rbind (buf_setpos line pos) (\<lambda>line.
       rbind (buf_setlen line (buf_pos line + len)) (\<lambda>line.
       rbind (cmp_base64_key keyblob keybloblen algo algolen line) (\<lambda>same.
       if \<not> same then Inr None
       else
         rbind (svr_parse_pubkey_options einval options_buf) (\<lambda>ret_options.
         Inr (map_option (\<lambda>po. po\<lparr>info_env := info_str\<rparr>) ret_options)))))))))"

text \<open>
  The options of the key, or \<open>None\<close> for \<^verbatim>\<open>DROPBEAR_FAILURE\<close>. The next \<^verbatim>\<open>buf_getline\<close> sets the position and the length of
  the line anew, and the data does not change.
\<close>

definition checkpubkey_line :: "bool \<Rightarrow> buffer \<Rightarrow> bytes \<Rightarrow> u32 \<Rightarrow> bytes \<Rightarrow> u32 \<Rightarrow> PubKeyOptions option res" where
  "checkpubkey_line einval line algo algolen keyblob keybloblen =
     (if buf_len line < MIN_AUTHKEYS_LINE \<or> buf_len line > MAX_AUTHKEYS_LINE then Inr None
      else
        rbind (mem_read (buf_data line) 0 (unat (buf_len line))) (\<lambda>bs.
        if 0 \<in> set bs then Inr None
        else if buf_pos line + algolen + 3 > buf_len line then Inr None
        else
          rbind (at_algo line algo algolen) (\<lambda>m.
          if m then line_key einval line None algo algolen keyblob keybloblen
          else
            rbind (line_options line algo algolen) (\<lambda>r.
            case r of None \<Rightarrow> Inr None
            | Some (options_buf, line) \<Rightarrow> line_key einval line (Some options_buf) algo algolen keyblob keybloblen))))"

section \<open>The file\<close>

definition expand_homedir_path_home :: "bytes \<Rightarrow> bytes option \<Rightarrow> bytes" where
  "expand_homedir_path_home inpath homedir =
     (case homedir of
        Some h \<Rightarrow> if take 2 inpath = lit ''~/'' then h @ lit ''/'' @ drop 2 inpath else inpath
      | None \<Rightarrow> inpath)"

definition authorized_keys_filepath :: "auth_opts \<Rightarrow> ('c, 'z) session \<Rightarrow> bytes" where
  "authorized_keys_filepath ao s =
     expand_homedir_path_home (ao_authorized_keys_dir ao) (auth_pw_dir (ses_authstate s)) @ lit ''/authorized_keys''"

definition upd_auth :: "(AuthState \<Rightarrow> AuthState) \<Rightarrow> ('c, 'z) session \<Rightarrow> ('c, 'z) session" where
  "upd_auth f s = s\<lparr>ses_authstate := f (ses_authstate s)\<rparr>"

text \<open>\<^verbatim>\<open>S_IWGRP | S_IWOTH\<close> is octal 22.\<close>

definition checkfileperm :: "auth_env \<Rightarrow> bytes \<Rightarrow> ('c, 'z) session \<Rightarrow> bool \<times> ('c, 'z) session" where
  "checkfileperm ae filename s =
     (case ae_stat ae (ses_creds s) filename of None \<Rightarrow> (False, s)
      | Some (st_uid, st_mode) \<Rightarrow>
        let badperm = (st_uid \<noteq> auth_pw_uid (ses_authstate s) \<and> st_uid \<noteq> 0);
            badperm = (badperm \<or> st_mode AND 0x12 \<noteq> 0) in
        if badperm then (False, upd_auth (\<lambda>a. a\<lparr>auth_perm_warn := True\<rparr>) s)
        else (True, s))"

text \<open>The index of the last slash.\<close>

definition strrchr_slash :: "bytes \<Rightarrow> nat option" where
  "strrchr_slash p = (let t = dropWhile (\<lambda>c. c \<noteq> 47) (rev p) in if t = [] then None else Some (length t - 1))"

lemma strrchr_slashD:
  assumes "strrchr_slash p = Some i"
  shows "i < length p" "p ! i = 47" "47 \<notin> set (drop (Suc i) p)"
proof -
  define w t where "w = takeWhile (\<lambda>c. c \<noteq> 47) (rev p)" and "t = dropWhile (\<lambda>c. c \<noteq> 47) (rev p)"
  have t: "t \<noteq> []" "i = length t - 1" using assms by (auto simp: strrchr_slash_def Let_def t_def split: if_splits)
  have "rev p = w @ t" by (simp add: w_def t_def)
  then have p: "p = rev t @ rev w" by (metis rev_append rev_rev_ident)
  have "hd t = 47" using hd_dropWhile [of "\<lambda>c. c \<noteq> 47" "rev p"] t(1) unfolding t_def by blast
  then obtain t' where t': "t = 47 # t'" using t(1) by (cases t) auto
  have "47 \<notin> set w" using set_takeWhileD [of 47 "\<lambda>c. c \<noteq> 47" "rev p"] by (auto simp: w_def)
  then show "i < length p" "p ! i = 47" "47 \<notin> set (drop (Suc i) p)" using t(2) by (simp_all add: p t' nth_append)
qed

text \<open>The directory of a path: the part before the last slash, or the root directory.\<close>

definition parent_dir :: "bytes \<Rightarrow> nat \<Rightarrow> bytes" where
  "parent_dir path sep = (if sep = 0 then take 1 path else take sep path)"

function perms_loop :: "auth_env \<Rightarrow> bytes \<Rightarrow> bool \<Rightarrow> ('c, 'z) session \<Rightarrow> (bool \<times> ('c, 'z) session) res" where
  "perms_loop ae path ret s =
     (case strrchr_slash path of None \<Rightarrow> Inr (ret, s)
      | Some sep \<Rightarrow>
        let path = parent_dir path sep; (ok, s) = checkfileperm ae path s; ret = (ret \<and> ok) in
        case auth_pw_dir (ses_authstate s) of None \<Rightarrow> Inl NullDeref
        | Some home \<Rightarrow>
          if path = home \<or> path = lit ''/'' then Inr (ret, s)
          else perms_loop ae path ret s)"
  by pat_completeness auto

termination
proof (relation "measure (\<lambda>(_, path, _, _). length path)", goal_cases)
  case (2 ae path ret s sep p pr ok s' r home)
  then have st: "strrchr_slash path = Some sep" "p = parent_dir path sep" "p \<noteq> lit ''/''" by simp_all
  note sep = strrchr_slashD [OF st(1)]
  have "sep \<noteq> 0"
  proof
    assume "sep = 0"
    then have "p = lit ''/''" using sep(1,2) st(2) by (cases path) (simp_all add: parent_dir_def lit_def)
    then show False using st(3) by simp
  qed
  then show ?case using sep(1) st(2) by (simp add: parent_dir_def)
qed simp

declare perms_loop.simps [simp del]

definition checkpubkeyperms :: "auth_env \<Rightarrow> auth_opts \<Rightarrow> ('c, 'z) session \<Rightarrow> (bool \<times> ('c, 'z) session) res" where
  "checkpubkeyperms ae ao s = perms_loop ae (authorized_keys_filepath ao s) True s"

text \<open>
  The loop over the lines. Each \<^verbatim>\<open>buf_getline\<close> that does not report the end takes something from the file when the line has
  room, so that \<open>Diverge\<close> does not happen.
\<close>

function lines_loop :: "auth_env \<Rightarrow> buffer \<Rightarrow> bytes \<Rightarrow> bytes \<Rightarrow> u32 \<Rightarrow> bytes \<Rightarrow> u32 \<Rightarrow> PubKeyOptions option res" where
  "lines_loop ae line f algo algolen keyblob keybloblen =
     rbind (buf_getline line f) (\<lambda>(ok, line, f').
     if \<not> ok then Inr None
     else
       rbind (checkpubkey_line (ae_einval ae) line algo algolen keyblob keybloblen) (\<lambda>r.
       case r of Some po \<Rightarrow> Inr (Some po)
       | None \<Rightarrow> if length f' < length f then lines_loop ae line f' algo algolen keyblob keybloblen else Inl Diverge))"
  by pat_completeness auto

termination
  by (relation "measure (\<lambda>(_, _, f, _). length f)") auto

declare lines_loop.simps [simp del]

text \<open>
  The process takes the identity of the user, opens the file, takes its own identity again and looks for the key.
  \<open>keyblob\<close> is the memory of the key in the payload.
\<close>

definition open_authkeys :: "'z env \<Rightarrow> auth_env \<Rightarrow> auth_opts \<Rightarrow> ('c, 'z) session \<Rightarrow> (bytes option \<times> ('c, 'z) session) res" where
  "open_authkeys e ae ao s =
     rbind (checkpubkeyperms ae ao s) (\<lambda>(ok, s).
     if \<not> ok then Inr (None, s)
     else case ae_open ae (ses_creds s) (authorized_keys_filepath ao s) of
       Open_failed \<Rightarrow> Inr (None, s)
     | Fdopen_failed fd \<Rightarrow> rbind (m_close e fd s) (\<lambda>s. Inr (None, s))
     | Opened f \<Rightarrow> Inr (Some f, s))"

definition checkpubkey :: "'z env \<Rightarrow> auth_env \<Rightarrow> auth_opts \<Rightarrow> bytes \<Rightarrow> u32 \<Rightarrow> bytes \<Rightarrow> u32 \<Rightarrow> ('c, 'z) session
    \<Rightarrow> (PubKeyOptions option \<times> ('c, 'z) session) res" where
  "checkpubkey e ae ao keyalgo keyalgolen keyblob keybloblen s =
     (let origuid = cr_uid (ses_creds s); origgid = cr_gid (ses_creds s);
          (ok1, s) = setegid ae (auth_pw_gid (ses_authstate s)) s in
      if \<not> ok1 then Inl (Exit ''Failed to set euid'')
      else
        let (ok2, s) = seteuid ae (auth_pw_uid (ses_authstate s)) s in
        if \<not> ok2 then Inl (Exit ''Failed to set euid'')
        else
          rbind (open_authkeys e ae ao s) (\<lambda>(authfile, s).
          let (ok3, s) = seteuid ae origuid s in
          if \<not> ok3 then Inl (Exit ''Failed to revert euid'')
          else
            let (ok4, s) = setegid ae origgid s in
            if \<not> ok4 then Inl (Exit ''Failed to revert euid'')
            else case authfile of None \<Rightarrow> Inr (None, s)
            | Some f \<Rightarrow>
              rbind (buf_new MAX_AUTHKEYS_LINE) (\<lambda>line.
              rbind (lines_loop ae line f keyalgo keyalgolen keyblob keybloblen) (\<lambda>r.
              Inr (r, s)))))"

end
