(* ===== verification/Authorized_Keys_Spec.thy ===== *)
theory Authorized_Keys_Spec
  imports Authorized_Keys Pubkey_Options_Spec
begin

text \<open>
  What a line of \<^verbatim>\<open>authorized_keys\<close> means, as a function on its text, and that \<^verbatim>\<open>checkpubkey_line\<close> computes it; what a
  file authorises; which directories are checked.
\<close>

section \<open>The scanners\<close>

definition split_at_space :: "bytes \<Rightarrow> bytes \<times> bytes" where
  "split_at_space xs = (takeWhile (\<lambda>c. c \<noteq> 32) xs, tl (dropWhile (\<lambda>c. c \<noteq> 32) xs))"

fun split_options :: "bool \<Rightarrow> bool \<Rightarrow> bytes \<Rightarrow> bytes \<times> bytes" where
  "split_options q e [] = ([], [])"
| "split_options q e (c # cs) =
     (if \<not> q \<and> (c = 32 \<or> c = 9) then ([], cs)
      else let e' = (\<not> e \<and> c = 92); q' = (if \<not> e' \<and> c = 34 then \<not> q else q); (opts, r) = split_options q' e' cs in (c # opts, r))"

definition info_text :: "bytes \<Rightarrow> bytes option" where
  "info_text xs =
     (let w = takeWhile (\<lambda>c. c \<noteq> 32) xs in
      if w \<noteq> [] \<and> list_all (\<lambda>c. isalnum c \<or> c \<in> set (lit ''.,_-+@'')) w then Some w else None)"

lemma reads_pos_less: "reads b xs \<Longrightarrow> buf_pos b < buf_len b \<longleftrightarrow> xs \<noteq> []"
  using buf_rest_length [of b] buf_wf_bounds [of b] by (auto simp: reads_def wnat simp flip: length_0_conv)

lemma scan_base64_reads:
  "reads b xs \<Longrightarrow> \<exists>m. scan_base64 n b = Inr (n + of_nat (length (fst (split_at_space xs))), buf_adv b m)
     \<and> m \<le> length xs \<and> reads (buf_adv b m) (snd (split_at_space xs))"
proof (induction xs arbitrary: b n)
  case Nil
  then show ?case using reads_pos_less [OF Nil] by (auto simp: scan_base64.simps [of n b] split_at_space_def intro!: exI [of _ 0])
next
  case (Cons c cs)
  note g = getbyte_reads [OF Cons.prems]
  show ?case
  proof (cases "c = 32")
    case True
    then show ?thesis using g reads_pos_less [OF Cons.prems] by (auto simp: scan_base64.simps [of n b] split_at_space_def intro!: exI [of _ 1])
  next
    case False
    obtain m where "scan_base64 (n + 1) (buf_adv b 1) = Inr (n + 1 + of_nat (length (fst (split_at_space cs))), buf_adv (buf_adv b 1) m)"
      "m \<le> length cs" "reads (buf_adv (buf_adv b 1) m) (snd (split_at_space cs))" using Cons.IH [of "buf_adv b 1" "n + 1"] g by blast
    then show ?thesis using False g reads_pos_less [OF Cons.prems]
      by (auto simp: scan_base64.simps [of n b] split_at_space_def buf_adv_adv ac_simps intro!: exI [of _ "Suc m"])
  qed
qed

lemma scan_info_reads:
  "reads b xs \<Longrightarrow> \<exists>b'. scan_info n b = Inr (let w = takeWhile (\<lambda>c. c \<noteq> 32) xs in
       if list_all (\<lambda>c. isalnum c \<or> c \<in> set (lit ''.,_-+@'')) w then n + of_nat (length w) else 0, b') \<and> same_buf b b'"
proof (induction xs arbitrary: b n)
  case Nil
  then show ?case using reads_pos_less [OF Nil] by (auto simp: scan_info.simps [of n b] same_buf_def reads_def)
next
  case (Cons c cs)
  note g = getbyte_reads [OF Cons.prems]
  have sb: "same_buf b (buf_adv b 1)" using g by (simp add: same_buf_def reads_def)
  show ?case
  proof (cases "c = 32 \<or> \<not> (isalnum c \<or> c \<in> set (lit ''.,_-+@''))")
    case True
    then show ?thesis using g reads_pos_less [OF Cons.prems] sb by (auto simp: scan_info.simps [of n b])
  next
    case False
    obtain b' where b': "scan_info (n + 1) (buf_adv b 1) = Inr (let w = takeWhile (\<lambda>c. c \<noteq> 32) cs in
       if list_all (\<lambda>c. isalnum c \<or> c \<in> set (lit ''.,_-+@'')) w then n + 1 + of_nat (length w) else 0, b')" "same_buf (buf_adv b 1) b'"
      using Cons.IH [of "buf_adv b 1" "n + 1"] g by blast
    have "scan_info n b = scan_info (n + 1) (buf_adv b 1)" using False g reads_pos_less [OF Cons.prems] by (simp add: scan_info.simps [of n b])
    then show ?thesis using False b' same_buf_trans [OF sb b'(2)] by (auto simp: Let_def ac_simps)
  qed
qed

lemma skip_white_reads:
  assumes "reads b xs"
  shows "\<exists>b'. skip_white b = Inr (\<exists>ys. dropWhile (\<lambda>c. c = 32 \<or> c = 9) xs = 35 # ys, b') \<and> same_buf b b'
     \<and> ((\<forall>ys. dropWhile (\<lambda>c. c = 32 \<or> c = 9) xs \<noteq> 35 # ys) \<longrightarrow> reads b' (dropWhile (\<lambda>c. c = 32 \<or> c = 9) xs))"
  using assms
proof (induction xs arbitrary: b)
  case Nil
  then show ?case using reads_pos_less [OF Nil] by (auto simp: skip_white.simps [of b] same_buf_def reads_def)
next
  case (Cons c cs)
  note g = getbyte_reads [OF Cons.prems]
  have sb: "same_buf b (buf_adv b 1)" using g by (simp add: same_buf_def reads_def)
  show ?case
  proof (cases "c = 32 \<or> c = 9")
    case True
    then have "skip_white b = skip_white (buf_adv b 1)" using g reads_pos_less [OF Cons.prems] by (auto simp: skip_white.simps [of b])
    then show ?thesis using Cons.IH [of "buf_adv b 1"] g True same_buf_trans [OF sb] by simp blast
  next
    case False
    have w: "buf_wf b" using Cons.prems by (simp add: reads_def)
    have p: "unat (buf_pos (buf_adv b 1)) = unat (buf_pos b) + 1" using Cons.prems by (intro buf_adv_pos) (simp_all add: reads_def)
    then have "\<not> 1 > buf_pos (buf_adv b 1)" by (simp add: wnat)
    moreover have "(buf_adv b 1)\<lparr>buf_pos := buf_pos (buf_adv b 1) - 1\<rparr> = b" by (simp add: buf_adv_def)
    ultimately have "buf_decrpos (buf_adv b 1) 1 = Inr b" by (simp add: buf_decrpos_def)
    then show ?thesis using False g reads_pos_less [OF Cons.prems] sb Cons.prems w by (auto simp: skip_white.simps [of b] same_buf_refl)
  qed
qed

lemma split_options_Cons:
  assumes "\<not> (\<not> q \<and> (c = 32 \<or> c = 9))"
  shows "split_options q e (c # cs) = (let e' = (\<not> e \<and> c = 92); q' = (if \<not> e' \<and> c = 34 then \<not> q else q) in
     (c # fst (split_options q' e' cs), snd (split_options q' e' cs)))"
  using assms by (auto simp: Let_def split: prod.splits)

lemma scan_options_reads:
  "reads b xs \<Longrightarrow> \<exists>m. scan_options q e n b = Inr (n + of_nat (length (fst (split_options q e xs))), buf_adv b m)
     \<and> m \<le> length xs \<and> length (fst (split_options q e xs)) \<le> m \<and> reads (buf_adv b m) (snd (split_options q e xs))"
proof (induction xs arbitrary: b q e n)
  case Nil
  then show ?case using reads_pos_less [OF Nil] by (auto simp: scan_options.simps [of q e n b] intro!: exI [of _ 0])
next
  case (Cons c cs)
  note g = getbyte_reads [OF Cons.prems]
  show ?case
  proof (cases "\<not> q \<and> (c = 32 \<or> c = 9)")
    case True
    then have "scan_options q e n b = Inr (n, buf_adv b 1)" using g reads_pos_less [OF Cons.prems] by (subst scan_options.simps) auto
    then show ?thesis using True g by (auto intro!: exI [of _ 1])
  next
    case False
    define e' where "e' = (\<not> e \<and> c = 92)"
    define q' where "q' = (if \<not> e' \<and> c = 34 then \<not> q else q)"
    have step: "scan_options q e n b = scan_options q' e' (n + 1) (buf_adv b 1)"
      using False g reads_pos_less [OF Cons.prems] by (auto simp: scan_options.simps [of q e n b] Let_def e'_def q'_def)
    obtain m where m: "scan_options q' e' (n + 1) (buf_adv b 1) = Inr (n + 1 + of_nat (length (fst (split_options q' e' cs))), buf_adv (buf_adv b 1) m)"
      "m \<le> length cs" "length (fst (split_options q' e' cs)) \<le> m" "reads (buf_adv (buf_adv b 1) m) (snd (split_options q' e' cs))"
      using Cons.IH [of "buf_adv b 1" q' e' "n + 1"] g by blast
    have "split_options q e (c # cs) = (c # fst (split_options q' e' cs), snd (split_options q' e' cs))"
      using split_options_Cons [OF False] by (simp add: e'_def q'_def Let_def)
    then show ?thesis using m step by (auto simp: buf_adv_adv ac_simps intro!: exI [of _ "Suc m"])
  qed
qed

lemma split_options_append: "xs = fst (split_options q e xs) @ drop (length (fst (split_options q e xs))) xs"
proof (induction xs arbitrary: q e)
  case (Cons c cs)
  show ?case
  proof (cases "\<not> q \<and> (c = 32 \<or> c = 9)")
    case False
    then show ?thesis using Cons.IH unfolding split_options_Cons [OF False] Let_def by simp
  qed auto
qed simp

section \<open>The key of a line\<close>

text \<open>\<open>txt\<close> is the base64 text of the key \<open>blob\<close>, which names the algorithm \<open>algo\<close>.\<close>

definition key_match :: "bytes \<Rightarrow> bytes \<Rightarrow> bytes \<Rightarrow> bool res" where
  "key_match txt blob algo =
     (if txt = [] then Inr False
      else case base64_decode txt (2 * length txt) of Inl err \<Rightarrow> Inr False
      | Inr bs \<Rightarrow>
        if bs \<noteq> blob then Inr False
        else if length bs < 4 \<or> length bs < 4 + unat (load32h bs) then Inl (Exit ''Bad buf_getptr'')
        else Inr (unat (load32h bs) = length algo \<and> take (length algo) (drop 4 bs) = algo))"

lemma cmp_base64_key_eq:
  assumes r: "reads line txt" "length txt \<le> 4200" and kb: "unat keybloblen \<le> length keyblob"
    and al: "unat algolen \<le> length algoname"
  shows "cmp_base64_key keyblob keybloblen algoname algolen line = key_match txt (take (unat keybloblen) keyblob) (take (unat algolen) algoname)"
proof -
  have w: "buf_wf line" "buf_rest line = txt" using r(1) by (simp_all add: reads_def)
  have ul: "unat (buf_len line - buf_pos line) = length txt"
    using buf_rest_length [OF w(1)] buf_wf_bounds [OF w(1)] w(2) by (simp add: unat_sub wnat)
  then have z: "buf_len line - buf_pos line = 0 \<longleftrightarrow> txt = []" by (metis unat_0 unat_eq_zero length_0_conv)
  have ln: "buf_len line - buf_pos line = of_nat (length txt)" using ul by (simp flip: ul)
  have u2: "unat (of_nat (length txt) * 2 :: u32) = 2 * length txt" using r(2) by (simp add: unat_word_ariths unat_of_nat take_bit_nat_eq_self)
  show ?thesis
  proof (cases "txt = []")
    case True
    then show ?thesis using z by (simp add: cmp_base64_key_def key_match_def)
  next
    case False
    have nb: "buf_new (of_nat (length txt) * 2) = Inr \<lparr>buf_data = replicate (2 * length txt) 0, buf_len = 0, buf_pos = 0, buf_size = of_nat (length txt) * 2\<rparr>"
      using r(2) u2 by (simp add: buf_new_eq wnat BUF_MAX_SIZE_def)
    have rd: "buf_getptr line (of_nat (length txt)) = Inr (unat (buf_pos line))" "mem_read (buf_data line) (unat (buf_pos line)) (length txt) = Inr txt"
      using buf_read_eq [OF w(1), of "length txt"] ul w r(2) by (simp_all add: buf_getptr_eq ln [symmetric])
    show ?thesis
    proof (cases "base64_decode txt (2 * length txt)")
      case (Inl err)
      then show ?thesis using False z ln nb rd u2 r(2)
        by (simp add: cmp_base64_key_def key_match_def Let_def buf_getwriteptr_def BUF_MAX_INCR_def wnat unat_of_nat take_bit_nat_eq_self)
    next
      case (Inr bs)
      have bl: "length bs \<le> length txt" using base64_decode_length [OF Inr] .
      define dk where "dk = \<lparr>buf_data = bs @ replicate (2 * length txt - length bs) 0, buf_len = of_nat (length bs), buf_pos = 0, buf_size = of_nat (length txt) * 2 :: u32\<rparr>"
      have ub: "unat (of_nat (length bs) :: u32) = length bs" using bl r(2) by (simp add: unat_of_nat take_bit_nat_eq_self)
      have dw: "buf_wf dk" "buf_rest dk = bs" "buf_content dk = bs" using bl r(2) u2 ub by (simp_all add: dk_def buf_wf_def buf_rest_def buf_content_def wnat BUF_MAX_SIZE_def)
      have mw: "mem_write (replicate (2 * length txt) 0) 0 bs = Inr (bs @ replicate (2 * length txt - length bs) 0)"
        using bl by (simp add: mem_write_def)
      have il: "buf_incrlen \<lparr>buf_data = bs @ replicate (2 * length txt - length bs) 0, buf_len = 0, buf_pos = 0, buf_size = of_nat (length txt) * 2\<rparr> (of_nat (length bs)) = Inr dk"
        using bl r(2) u2 ub by (simp add: buf_incrlen_def dk_def BUF_MAX_INCR_def wnat)
      have l: "unat (buf_len dk) = length bs" by (simp add: dk_def ub)
      have rb: "buf_getptr dk (buf_len dk) = Inr 0" "mem_read (buf_data dk) 0 (length bs) = Inr bs"
        using dw by (simp_all add: buf_getptr_eq l) (simp_all add: dk_def)
      have rb2: "length bs = unat keybloblen \<Longrightarrow> mem_read (buf_data dk) 0 (unat keybloblen) = Inr bs" using rb(2) by simp
      have pre: "cmp_base64_key keyblob keybloblen algoname algolen line =
        (if length bs \<noteq> unat keybloblen then Inr False
          else
            rbind (mem_read keyblob 0 (unat (buf_len dk))) (\<lambda>blob.
            if bs \<noteq> blob then Inr False
            else
              rbind (buf_getint dk) (\<lambda>(filealgolen, decodekey).
              rbind (buf_getptr decodekey filealgolen) (\<lambda>p.
              if filealgolen \<noteq> algolen then Inr False
              else
                rbind (mem_read (buf_data decodekey) p (unat algolen)) (\<lambda>filealgo.
                rbind (mem_read algoname 0 (unat algolen)) (\<lambda>algo.
                Inr (filealgo = algo)))))))"
        using False z ln nb rd u2 r(2) Inr mw il rb rb2 l
        by (simp add: cmp_base64_key_def Let_def buf_getwriteptr_def BUF_MAX_INCR_def wnat unat_of_nat take_bit_nat_eq_self)
      show ?thesis
      proof (cases "bs = take (unat keybloblen) keyblob")
        case False
        then show ?thesis using pre kb Inr \<open>txt \<noteq> []\<close> l by (auto simp: key_match_def)
      next
        case True
        then have eq: "length bs = unat keybloblen" using kb by simp
        define n where "n = load32h bs"
        have kr: "mem_read keyblob 0 (unat (buf_len dk)) = Inr bs" using True kb l eq by simp
        have gi: "buf_getint dk = (if 4 \<le> length bs then Inr (n, buf_adv dk 4) else Inl (Exit ''Bad buf_getptr''))"
          using dw by (simp add: buf_getint_eq n_def)
        have "cmp_base64_key keyblob keybloblen algoname algolen line =
           (if length bs < 4 \<or> length bs < 4 + unat n then Inl (Exit ''Bad buf_getptr'')
            else Inr (unat n = unat algolen \<and> take (unat algolen) (drop 4 bs) = take (unat algolen) algoname))"
        proof (cases "length bs < 4 \<or> length bs < 4 + unat n")
          case True
          then show ?thesis unfolding pre kr gi using eq dw buf_adv_rest [OF dw(1), of 4] buf_adv_wf [OF dw(1), of 4]
            by (auto simp: buf_getptr_eq)
        next
          case False
          then have f: "4 \<le> length bs" "4 + unat n \<le> length bs" by auto
          have a: "buf_wf (buf_adv dk 4)" "buf_rest (buf_adv dk 4) = drop 4 bs" using f dw buf_adv_rest [OF dw(1)] by (auto intro!: buf_adv_wf)
          have p4: "unat (buf_pos (buf_adv dk 4)) = 4" using buf_adv_pos [OF dw(1), of 4] f(1) dw(2) by (simp add: dk_def)
          have m: "mem_read (buf_data dk) 4 k = Inr (take k (drop 4 bs))" if "4 + k \<le> length bs" for k
            using that by (simp add: dk_def)
          have na: "n = algolen \<longleftrightarrow> unat n = unat algolen" by (simp add: word_unat_eq_iff)
          show ?thesis unfolding pre kr gi using eq al f a p4 na m [of "unat algolen"] by (auto simp: buf_getptr_eq)
        qed
        then show ?thesis using True Inr \<open>txt \<noteq> []\<close> al by (simp add: key_match_def n_def)
      qed
    qed
  qed
qed

text \<open>What options mean depends on their text only.\<close>

definition text_buf :: "bytes \<Rightarrow> buffer" where
  "text_buf xs = \<lparr>buf_data = xs, buf_len = of_nat (length xs), buf_pos = 0, buf_size = of_nat (length xs)\<rparr>"

lemma text_buf_ok:
  assumes "length xs \<le> 1000000000" shows "reads (text_buf xs) xs" "buf_wf (text_buf xs)" "buf_content (text_buf xs) = xs"
  using mkbuf_reads [of "[]" xs] assms by (simp_all add: text_buf_def reads_def buf_content_def)

definition options_value :: "bool \<Rightarrow> bytes option \<Rightarrow> PubKeyOptions option res" where
  "options_value einval opts = svr_parse_pubkey_options einval (map_option text_buf opts)"

lemma parse_by_content:
  assumes "buf_wf b" "buf_wf b'" "buf_content b = buf_content b'"
  shows "svr_parse_pubkey_options einval (Some b) = svr_parse_pubkey_options einval (Some b')"
proof -
  note p = parse_options_text [OF assms(1), of einval] parse_options_text [OF assms(2), of einval]
  show ?thesis using p unfolding assms(3) by (metis not_Some_eq)
qed

definition key_value :: "bool \<Rightarrow> bytes option \<Rightarrow> bytes \<Rightarrow> bytes \<Rightarrow> bytes \<Rightarrow> PubKeyOptions option res" where
  "key_value einval opts zs algo blob =
     (if hd zs \<noteq> 32 then Inr None
      else let (txt, rest) = split_at_space (tl zs) in
        rbind (key_match txt blob algo) (\<lambda>same.
        if \<not> same then Inr None
        else rbind (options_value einval opts) (\<lambda>po.
          Inr (map_option (\<lambda>po. po\<lparr>info_env := map_option (\<lambda>w. w @ [0]) (info_text rest)\<rparr>) po))))"

definition line_value :: "bool \<Rightarrow> bytes \<Rightarrow> bytes \<Rightarrow> bytes \<Rightarrow> PubKeyOptions option res" where
  "line_value einval xs algo blob =
     (if length xs < 10 \<or> length xs > 4200 \<or> 0 \<in> set xs \<or> length xs < length algo + 3 then Inr None
      else if take (length algo) xs = algo then key_value einval None (drop (length algo) xs) algo blob
      else let ys = dropWhile (\<lambda>c. c = 32 \<or> c = 9) xs in
        if ys = [] then Inl (Exit ''Bad buf_getptr'')
        else if hd ys = 35 then Inr None
        else let (opts, rest) = split_options False False ys in
          if length rest < length algo + 3 \<or> take (length algo) rest \<noteq> algo then Inr None
          else key_value einval (Some opts) (drop (length algo) rest) algo blob)"

section \<open>The line\<close>

lemma cstr_no_zero: "0 \<notin> set xs \<Longrightarrow> cstr xs = xs"
  by (simp add: cstr_def takeWhile_eq_all_conv) metis

lemma key_info_reads:
  assumes r: "reads b xs" and n: "length xs \<le> 4200" "0 \<notin> set xs"
  shows "key_info b = Inr (map_option (\<lambda>w. w @ [0]) (info_text xs))"
proof -
  define w where "w = takeWhile (\<lambda>c. c \<noteq> 32) xs"
  have wl: "length w \<le> length xs" "take (length w) xs = w" by (simp_all add: w_def length_takeWhile_le takeWhile_eq_take [symmetric])
  have u: "unat (of_nat (length w) :: u32) = length w" using wl n(1) by (simp add: unat_of_nat take_bit_nat_eq_self)
  obtain b' where b': "scan_info 0 b = Inr (if list_all (\<lambda>c. isalnum c \<or> c \<in> set (lit ''.,_-+@'')) w then of_nat (length w) else 0, b')" "same_buf b b'"
    using scan_info_reads [OF r, of 0] by (auto simp: w_def Let_def)
  have b: "buf_wf b" "buf_rest b = xs" using r by (simp_all add: reads_def)
  have sp: "buf_setpos b' (buf_pos b) = Inr (b'\<lparr>buf_pos := buf_pos b\<rparr>)"
    using b'(2) buf_wf_bounds [OF b(1)] by (simp add: buf_setpos_def same_buf_def wnat)
  have bb: "b'\<lparr>buf_pos := buf_pos b\<rparr> = b" using b'(2) by (cases b; cases b') (simp add: same_buf_def)
  have rd: "buf_getptr b (of_nat (length w)) = Inr (unat (buf_pos b))" "mem_read (buf_data b) (unat (buf_pos b)) (length w) = Inr w"
    using b wl u buf_read_eq [OF b(1), of "length w"] by (simp_all add: buf_getptr_eq)
  have "(0 :: u32) < of_nat (length w) \<longleftrightarrow> w \<noteq> []" using u by (auto simp: wnat)
  moreover have "cstr w = w" using n(2) by (intro cstr_no_zero) (auto simp: w_def dest: set_takeWhileD)
  ultimately show ?thesis using b'(1) sp bb rd u by (auto simp: key_info_def info_text_def w_def [symmetric] Let_def)
qed

lemma key_value_eq:
  assumes r: "reads line (algo @ zs)" and n: "length (algo @ zs) \<le> 4200" "0 \<notin> set zs" "zs \<noteq> []" and kb: "unat kl \<le> length kb"
    and ob: "svr_parse_pubkey_options einval ob = options_value einval opts" and al: "unat alen = length algo"
  shows "line_key einval line ob algo alen kb kl = key_value einval opts zs algo (take (unat kl) kb)"
proof -
  obtain c cs where zs: "zs = c # cs" using n(3) by (cases zs) auto
  have b0: "buf_wf line" "buf_rest line = algo @ zs" using r by (simp_all add: reads_def)
  define b1 where "b1 = buf_adv line (length algo)"
  have ip: "buf_incrpos line alen = Inr b1" "reads b1 zs" using b0 al reads_adv [OF r] by (simp_all add: buf_incrpos_eq b1_def)
  note g = getbyte_reads [OF ip(2) [unfolded zs]]
  define b2 where "b2 = buf_adv b1 1"
  have g2: "buf_getbyte b1 = Inr (c, b2)" "reads b2 cs" using g by (simp_all add: b2_def)
  obtain tx rest where sp: "split_at_space cs = (tx, rest)" by (cases "split_at_space cs")
  obtain m where m: "scan_base64 0 b2 = Inr (of_nat (length tx), buf_adv b2 m)" "m \<le> length cs" "reads (buf_adv b2 m) rest"
    using scan_base64_reads [OF g2(2), of 0] sp by auto
  have tl: "length tx \<le> length cs" "take (length tx) cs = tx" "set rest \<subseteq> set cs" "length rest \<le> length cs"
  proof -
    have t: "tx = takeWhile (\<lambda>c. c \<noteq> 32) cs" using sp by (simp add: split_at_space_def)
    show "length tx \<le> length cs" "take (length tx) cs = tx" unfolding t by (simp_all add: length_takeWhile_le takeWhile_eq_take [symmetric])
    define d where "d = dropWhile (\<lambda>c. c \<noteq> 32) cs"
    have r: "rest = tl d" using sp by (simp add: split_at_space_def d_def)
    have d: "set d \<subseteq> set cs" "length d \<le> length cs" by (auto simp: d_def length_dropWhile_le dest: set_dropWhileD)
    have "set (tl d) \<subseteq> set d" "length (tl d) \<le> length d" by (cases d; auto)+
    then show "set rest \<subseteq> set cs" "length rest \<le> length cs" using d unfolding r by (blast, linarith)
  qed
  have ki: "key_info (buf_adv b2 m) = Inr (map_option (\<lambda>w. w @ [0]) (info_text rest))"
    using key_info_reads [OF m(3)] n tl zs by auto
  have w2: "buf_wf b2" "buf_rest b2 = cs" using g2(2) by (simp_all add: reads_def)
  note bd = buf_wf_bounds [OF w2(1)]
  have sp2: "buf_setpos (buf_adv b2 m) (buf_pos b2) = Inr b2" using bd by (simp add: buf_setpos_def wnat buf_adv_def)
  have ut: "unat (of_nat (length tx) :: u32) = length tx" using tl(1) n zs by (simp add: unat_of_nat take_bit_nat_eq_self)
  have le: "unat (buf_pos b2) + length tx \<le> unat (buf_len b2)" using tl(1) buf_rest_length [OF w2(1)] w2(2) bd by simp
  have pl: "unat (buf_pos b2 + of_nat (length tx)) = unat (buf_pos b2) + length tx" using le bd ut unat_incr [of "buf_pos b2" "of_nat (length tx)"] by simp
  define b3 where "b3 = b2\<lparr>buf_len := buf_pos b2 + of_nat (length tx)\<rparr>"
  have sl: "buf_setlen b2 (buf_pos b2 + of_nat (length tx)) = Inr b3"
    using le bd pl by (simp add: buf_setlen_def wnat b3_def min_def)
  have r3: "reads b3 tx"
    using w2 bd le pl tl(2) by (auto simp: reads_def b3_def buf_wf_def wnat buf_rest_def buf_content_def drop_take)
  have cmp: "cmp_base64_key kb kl algo alen b3 = key_match tx (take (unat kl) kb) algo"
    using cmp_base64_key_eq [OF r3 _ kb, of alen algo] tl(1) n zs al by simp
  show ?thesis unfolding line_key_def ip(1) key_value_def zs list.sel sp ob
    using m(1) g2(1) ki sp2 sl cmp ob by (simp add: Let_def)
qed

lemma strncmp_take: "0 \<notin> set xs \<Longrightarrow> 0 \<notin> set algo \<Longrightarrow> strncmp_eq (take (length algo) xs) algo (length algo) \<longleftrightarrow> take (length algo) xs = algo"
proof -
  assume "0 \<notin> set xs" "0 \<notin> set algo"
  then have "cstr (take (length algo) xs) = take (length algo) xs" "cstr algo = algo" by (auto intro!: cstr_no_zero dest: in_set_takeD)
  then show ?thesis by (simp add: strncmp_eq_def)
qed

lemma at_algo_reads:
  assumes r: "reads b xs" and n: "0 \<notin> set xs" "0 \<notin> set algo" "length algo \<le> length xs" and al: "unat alen = length algo"
  shows "at_algo b algo alen = Inr (take (length algo) xs = algo)"
proof -
  have b: "buf_wf b" "buf_rest b = xs" using r by (simp_all add: reads_def)
  show ?thesis using buf_read_eq [OF b(1), of "length algo"] b n(3) al strncmp_take [OF n(1,2)] by (simp add: at_algo_def buf_getptr_eq)
qed

lemma room_guard:
  assumes r: "reads b xs" "length xs \<le> 4200" and al: "unat alen = length algo" "length algo \<le> 100" and len: "unat (buf_len b) \<le> 4200"
  shows "buf_pos b + alen + 3 > buf_len b \<longleftrightarrow> length xs < length algo + 3"
proof -
  have b: "buf_wf b" "buf_rest b = xs" using r(1) by (simp_all add: reads_def)
  note bd = buf_wf_bounds [OF b(1)]
  have "unat (buf_pos b + alen + 3) = unat (buf_pos b) + length algo + 3"
    using al len bd by (simp add: unat_word_ariths)
  then show ?thesis using buf_rest_length [OF b(1)] b(2) bd by (auto simp: wnat)
qed

lemma line_options_reads:
  assumes r: "reads b xs" and n: "length xs \<le> 4200" "0 \<notin> set xs" "0 \<notin> set algo" and al: "unat alen = length algo" "length algo \<le> 100"
    and len: "unat (buf_len b) \<le> 4200"
  defines "ys \<equiv> dropWhile (\<lambda>c. c = 32 \<or> c = 9) xs"
  defines "opts \<equiv> fst (split_options False False ys)" and "rest \<equiv> snd (split_options False False ys)"
  shows "ys = [] \<Longrightarrow> line_options b algo alen = Inl (Exit ''Bad buf_getptr'')"
    "ys \<noteq> [] \<Longrightarrow> hd ys = 35 \<Longrightarrow> line_options b algo alen = Inr None"
    "ys \<noteq> [] \<Longrightarrow> hd ys \<noteq> 35 \<Longrightarrow> \<exists>ob b'. line_options b algo alen =
         Inr (if length rest < length algo + 3 \<or> take (length algo) rest \<noteq> algo then None else Some (ob, b'))
       \<and> buf_wf ob \<and> buf_content ob = opts \<and> reads b' rest \<and> buf_len b' = buf_len b \<and> set rest \<subseteq> set xs \<and> length rest \<le> length xs"
proof -
  obtain b1 where b1: "skip_white b = Inr (\<exists>zs. ys = 35 # zs, b1)" "same_buf b b1" "(\<forall>zs. ys \<noteq> 35 # zs) \<longrightarrow> reads b1 ys"
    using skip_white_reads [OF r] unfolding ys_def by blast
  show "line_options b algo alen = Inl (Exit ''Bad buf_getptr'')" if "ys = []"
    using b1 that by (simp add: line_options_def reads_def buf_getptr_eq)
  show "line_options b algo alen = Inr None" if "ys \<noteq> []" "hd ys = 35"
    using b1(1) that by (cases ys) (simp_all add: line_options_def)
  assume ys: "ys \<noteq> []" "hd ys \<noteq> 35"
  then have nc: "\<not> (\<exists>zs. ys = 35 # zs)" and r1: "reads b1 ys" using b1(3) by auto
  have w1: "buf_wf b1" "buf_rest b1 = ys" using r1 by (simp_all add: reads_def)
  have yl: "length ys \<le> length xs" "set ys \<subseteq> set xs" by (auto simp: ys_def length_dropWhile_le dest: set_dropWhileD)
  obtain m where m: "scan_options False False 0 b1 = Inr (of_nat (length opts), buf_adv b1 m)" "m \<le> length ys" "length opts \<le> m"
    "reads (buf_adv b1 m) rest" using scan_options_reads [OF r1, of False False 0] by (auto simp: opts_def rest_def)
  have uo: "unat (of_nat (length opts) :: u32) = length opts" using m(2,3) yl(1) n(1) by (simp add: unat_of_nat take_bit_nat_eq_self)
  have g: "buf_getptr b1 1 = Inr (unat (buf_pos b1))" using w1 ys(1) by (cases ys) (simp_all add: buf_getptr_eq)
  have od: "take (length opts) (drop (unat (buf_pos b1)) (buf_data b1)) = opts"
  proof -
    have "take (length opts) (drop (unat (buf_pos b1)) (buf_data b1)) = take (length opts) ys"
      using buf_data_slice [OF w1(1), of "length opts"] buf_rest_length [OF w1(1)] w1 m(2,3) buf_wf_bounds [OF w1(1)] by simp
    also have "\<dots> = opts" using split_options_append [of ys False False] by (metis append_eq_conv_conj opts_def)
    finally show ?thesis .
  qed
  have ol: "length opts \<le> length (drop (unat (buf_pos b1)) (buf_data b1))" using od by (metis length_take min.cobounded1 min_def nat_le_linear)
  define ob0 where "ob0 = \<lparr>buf_data = replicate (length opts) 0 :: bytes, buf_len = 0, buf_pos = 0, buf_size = of_nat (length opts)\<rparr>"
  have n0: "buf_new (of_nat (length opts)) = Inr ob0" using uo m(2,3) yl(1) n(1) by (simp add: buf_new_eq wnat BUF_MAX_SIZE_def ob0_def)
  have ob0: "buf_new (of_nat (length opts)) = Inr ob0" "at_end ob0" "buf_content ob0 = []" "buf_size ob0 = of_nat (length opts)" "buf_pos ob0 = 0"
    using n0 buf_new_end [OF n0] by (simp_all add: ob0_def)
  obtain ob where ob: "buf_putbytes ob0 (drop (unat (buf_pos b1)) (buf_data b1)) (of_nat (length opts)) = Inr ob"
    using buf_putbytes_eq [OF at_end_wf [OF ob0(2)], of "of_nat (length opts)"] ol uo ob0 by (auto simp: buf_fits_def)
  have oc: "buf_wf ob" "buf_content ob = opts" using putbytes_appends [OF ob0(2) _ ob] ol uo ob0(3) od by (simp_all add: appends_def)
  have rl: "set rest \<subseteq> set ys" "length rest \<le> length ys"
  proof -
    have "rest = drop m ys" using m(2,4) w1 buf_adv_rest [OF w1(1), of m] by (simp add: reads_def)
    then show "set rest \<subseteq> set ys" "length rest \<le> length ys" by (simp_all add: set_drop_subset)
  qed
  have lm: "buf_len (buf_adv b1 m) = buf_len b" using b1(2) by (simp add: same_buf_def)
  have gd: "buf_pos (buf_adv b1 m) + alen + 3 > buf_len (buf_adv b1 m) \<longleftrightarrow> length rest < length algo + 3"
    using room_guard [OF m(4) _ al] rl(2) yl(1) n(1) len lm by simp
  have aa: "length algo + 3 \<le> length rest \<Longrightarrow> at_algo (buf_adv b1 m) algo alen = Inr (take (length algo) rest = algo)"
    using rl(1) yl(2) n(2,3) al by (intro at_algo_reads [OF m(4)]) auto
  have "line_options b algo alen =
         Inr (if length rest < length algo + 3 \<or> take (length algo) rest \<noteq> algo then None else Some (ob, buf_adv b1 m))"
    using b1(1) nc g m(1) ob0(1) ob gd aa by (auto simp: line_options_def not_less not_le)
  then show "\<exists>ob b'. line_options b algo alen =
         Inr (if length rest < length algo + 3 \<or> take (length algo) rest \<noteq> algo then None else Some (ob, b'))
       \<and> buf_wf ob \<and> buf_content ob = opts \<and> reads b' rest \<and> buf_len b' = buf_len b \<and> set rest \<subseteq> set xs \<and> length rest \<le> length xs"
    using oc m(4) lm rl yl by (intro exI [of _ ob] exI [of _ "buf_adv b1 m"]) auto
qed

lemma checkpubkey_line_value:
  assumes r: "reads line xs" "buf_pos line = 0" and algo: "0 \<notin> set algo" "length algo \<le> 100" "unat alen = length algo"
    and kb: "unat kl \<le> length kb"
  shows "checkpubkey_line einval line algo alen kb kl = line_value einval xs algo (take (unat kl) kb)"
proof -
  have b: "buf_wf line" "buf_rest line = xs" using r by (simp_all add: reads_def)
  note bd = buf_wf_bounds [OF b(1)]
  have l: "unat (buf_len line) = length xs" "take (length xs) (buf_data line) = xs" using b r(2) buf_rest_length [OF b(1)] by (simp_all add: buf_rest_def buf_content_def)
  have lens: "buf_len line < MIN_AUTHKEYS_LINE \<longleftrightarrow> length xs < 10" "buf_len line > MAX_AUTHKEYS_LINE \<longleftrightarrow> length xs > 4200"
    by (simp_all add: wnat l MIN_AUTHKEYS_LINE_def MAX_AUTHKEYS_LINE_def)
  have rd: "mem_read (buf_data line) 0 (unat (buf_len line)) = Inr xs" using l bd by simp
  show ?thesis
  proof (cases "length xs < 10 \<or> length xs > 4200 \<or> 0 \<in> set xs")
    case True
    then show ?thesis using lens rd by (auto simp: checkpubkey_line_def line_value_def)
  next
    case False
    then have n: "length xs \<le> 4200" "0 \<notin> set xs" "10 \<le> length xs" by auto
    have gd: "buf_pos line + alen + 3 > buf_len line \<longleftrightarrow> length xs < length algo + 3"
      using room_guard [OF r(1) n(1) algo(3,2)] l(1) n(1) by simp
    show ?thesis
    proof (cases "length xs < length algo + 3")
      case True
      then show ?thesis using n lens rd gd by (simp add: checkpubkey_line_def line_value_def)
    next
      case room: False
      have aa: "at_algo line algo alen = Inr (take (length algo) xs = algo)" using at_algo_reads [OF r(1) n(2) algo(1) _ algo(3)] room by simp
      have ck: "checkpubkey_line einval line algo alen kb kl = (if take (length algo) xs = algo then line_key einval line None algo alen kb kl
          else rbind (line_options line algo alen) (\<lambda>r. case r of None \<Rightarrow> Inr None
            | Some (ob, line) \<Rightarrow> line_key einval line (Some ob) algo alen kb kl))"
        using n room lens rd gd aa by (simp add: checkpubkey_line_def)
      show ?thesis
      proof (cases "take (length algo) xs = algo")
        case True
        then have "xs = algo @ drop (length algo) xs" by (metis append_take_drop_id)
        then have "reads line (algo @ drop (length algo) xs)" using r(1) by simp
        from key_value_eq [OF this _ _ _ kb _ algo(3), of einval None None] n room True ck
        show ?thesis by (auto simp: line_value_def options_value_def dest: in_set_dropD)
      next
        case no: False
        define ys where "ys = dropWhile (\<lambda>c. c = 32 \<or> c = 9) xs"
        define opts rest where "opts = fst (split_options False False ys)" and "rest = snd (split_options False False ys)"
        note lo = line_options_reads [OF r(1) n(1,2) algo(1,3,2), folded ys_def opts_def rest_def]
        have lv: "line_value einval xs algo (take (unat kl) kb) =
          (if ys = [] then Inl (Exit ''Bad buf_getptr'') else if hd ys = 35 then Inr None
           else if length rest < length algo + 3 \<or> take (length algo) rest \<noteq> algo then Inr None
           else key_value einval (Some opts) (drop (length algo) rest) algo (take (unat kl) kb))"
          using no n room by (simp add: line_value_def ys_def [symmetric] Let_def opts_def rest_def split: prod.split)
        show ?thesis
        proof (cases "ys = [] \<or> hd ys = 35")
          case True
          then show ?thesis using ck no lo(1,2) l(1) n(1) lv by auto
        next
          case False
          obtain ob b' where o: "line_options line algo alen = Inr (if length rest < length algo + 3 \<or> take (length algo) rest \<noteq> algo then None else Some (ob, b'))"
            "buf_wf ob" "buf_content ob = opts" "reads b' rest" "set rest \<subseteq> set xs" "length rest \<le> length xs"
            using lo(3) False l(1) n(1) by auto
          have ol: "length opts \<le> 1000000000" using buf_content_length [OF o(2)] buf_wf_bounds [OF o(2)] o(3) by simp
          have op: "svr_parse_pubkey_options einval (Some ob) = options_value einval (Some opts)"
            using parse_by_content [OF o(2) text_buf_ok(2) [OF ol]] text_buf_ok(3) [OF ol] o(3) by (simp add: options_value_def)
          show ?thesis
          proof (cases "length rest < length algo + 3 \<or> take (length algo) rest \<noteq> algo")
            case True
            then show ?thesis using ck no o(1) lv False by auto
          next
            case key: False
            then have "rest = algo @ drop (length algo) rest" by (metis append_take_drop_id)
            then have "reads b' (algo @ drop (length algo) rest)" using o(4) by simp
            from key_value_eq [OF this _ _ _ kb op algo(3)] n o(5,6) key ck no lv False o(1)
            show ?thesis by (auto dest: in_set_dropD)
          qed
        qed
      qed
    qed
  qed
qed

section \<open>The file\<close>

text \<open>
  The next line of a file, read into a buffer of \<open>n\<close> bytes: the first \<open>n\<close> bytes of a longer line are dropped and its
  rest counts as the next line.
\<close>

definition next_line :: "nat \<Rightarrow> bytes \<Rightarrow> (bytes \<times> bytes) option" where
  "next_line n f =
     (let w = takeWhile (\<lambda>c. c \<noteq> 10 \<and> c \<noteq> 13) f; r = dropWhile (\<lambda>c. c \<noteq> 10 \<and> c \<noteq> 13) f in
      if n \<le> length w then Some ([], drop n f)
      else if r = [] \<and> w = [] then None else Some (w, tl r))"

lemma next_line_less:
  assumes a: "next_line n f = Some (w, r)" "0 < n" shows "length r < length f"
proof -
  define u d where "u = takeWhile (\<lambda>c. c \<noteq> 10 \<and> c \<noteq> 13) f" and "d = dropWhile (\<lambda>c. c \<noteq> 10 \<and> c \<noteq> 13) f"
  have "u @ d = f" by (simp add: u_def d_def)
  from arg_cong [OF this, of length] have l: "length f = length u + length d" by simp
  have "r = drop n f \<and> n \<le> length u \<or> r = tl d \<and> (d \<noteq> [] \<or> u \<noteq> [])"
    using a(1) unfolding next_line_def Let_def u_def [symmetric] d_def [symmetric] by (simp split: if_splits)
  then show ?thesis using l a(2) by (cases d) auto
qed

function file_value :: "bool \<Rightarrow> nat \<Rightarrow> bytes \<Rightarrow> bytes \<Rightarrow> bytes \<Rightarrow> PubKeyOptions option res" where
  "file_value einval n f algo blob =
     (if n = 0 then Inr None
      else case next_line n f of None \<Rightarrow> Inr None
      | Some (w, r) \<Rightarrow>
        rbind (line_value einval w algo blob) (\<lambda>x.
        case x of Some po \<Rightarrow> Inr (Some po) | None \<Rightarrow> file_value einval n r algo blob))"
  by pat_completeness auto

termination
  by (relation "measure (\<lambda>(_, _, f, _). length f)") (auto dest: next_line_less)

declare file_value.simps [simp del]

text \<open>A line that is being filled: \<open>w\<close> was read into it.\<close>

lemma getline_loop_eq:
  "at_end b \<Longrightarrow> \<exists>b'. getline_loop c b f =
       (let k = unat (buf_size b) - unat (buf_pos b); w = takeWhile (\<lambda>c. c \<noteq> 10 \<and> c \<noteq> 13) f; r = dropWhile (\<lambda>c. c \<noteq> 10 \<and> c \<noteq> 13) f in
        if k \<le> length w then Inr (False, if k = 0 then c else uint (f ! (k - 1)), b', drop k f)
        else Inr (True, if r = [] then -1 else uint (hd r), b', tl r))
     \<and> appends b (take (unat (buf_size b) - unat (buf_pos b)) (takeWhile (\<lambda>c. c \<noteq> 10 \<and> c \<noteq> 13) f)) b'"
proof (induction f arbitrary: b c)
  case Nil
  note bd = buf_wf_bounds [OF at_end_wf [OF Nil]]
  show ?case using bd Nil by (auto simp: Let_def wnat appends_def intro!: exI [of _ b])
next
  case (Cons x f)
  note bd = buf_wf_bounds [OF at_end_wf [OF Cons.prems]]
  define k where "k = unat (buf_size b) - unat (buf_pos b)"
  show ?case
  proof (cases "k = 0 \<or> x = 10 \<or> x = 13")
    case True
    then show ?thesis using bd Cons.prems k_def by (auto simp: Let_def wnat appends_def intro!: exI [of _ b])
  next
    case False
    have fit: "buf_fits b 1" using False bd by (simp add: buf_fits_def k_def)
    have pb: "buf_putbyte b x = Inr (buf_put b [x])" using fit buf_putbyte_eq [OF at_end_wf [OF Cons.prems], of x] by simp
    have ap: "appends b [x] (buf_put b [x])" using put_appends [OF Cons.prems, of "[x]"] fit by simp
    have k': "unat (buf_size (buf_put b [x])) - unat (buf_pos (buf_put b [x])) = k - 1"
      using buf_put_pos [OF at_end_wf [OF Cons.prems], of "[x]"] fit by (simp add: k_def)
    obtain b' where b': "getline_loop (uint x) (buf_put b [x]) f =
       (let w = takeWhile (\<lambda>c. c \<noteq> 10 \<and> c \<noteq> 13) f; r = dropWhile (\<lambda>c. c \<noteq> 10 \<and> c \<noteq> 13) f in
        if k - 1 \<le> length w then Inr (False, if k - 1 = 0 then uint x else uint (f ! (k - 1 - 1)), b', drop (k - 1) f)
        else Inr (True, if r = [] then -1 else uint (hd r), b', tl r))"
      "appends (buf_put b [x]) (take (k - 1) (takeWhile (\<lambda>c. c \<noteq> 10 \<and> c \<noteq> 13) f)) b'"
      using Cons.IH [OF appends_end [OF ap], of "uint x"] unfolding k' Let_def by blast
    obtain j where j: "k = Suc j" using False by (cases k) auto
    have lt: "buf_pos b < buf_size b" using False by (simp add: wnat k_def)
    have st: "getline_loop c b (x # f) = getline_loop (uint x) (buf_put b [x]) f" using False lt pb by simp
    have "appends b (take k (takeWhile (\<lambda>c. c \<noteq> 10 \<and> c \<noteq> 13) (x # f))) b'"
      using appends_trans [OF ap b'(2)] False j by simp
    moreover have "getline_loop c b (x # f) =
       (let w = takeWhile (\<lambda>c. c \<noteq> 10 \<and> c \<noteq> 13) (x # f); r = dropWhile (\<lambda>c. c \<noteq> 10 \<and> c \<noteq> 13) (x # f) in
        if k \<le> length w then Inr (False, if k = 0 then c else uint ((x # f) ! (k - 1)), b', drop k (x # f))
        else Inr (True, if r = [] then -1 else uint (hd r), b', tl r))"
      unfolding st b'(1) using False j by (cases j) (simp_all add: Let_def)
    ultimately show ?thesis unfolding k_def [symmetric] Let_def by blast
  qed
qed

lemma buf_getline_value:
  assumes w: "buf_wf line" "0 < unat (buf_size line)"
  shows "\<exists>line'. buf_wf line' \<and> buf_size line' = buf_size line \<and> (case next_line (unat (buf_size line)) f of
       None \<Rightarrow> \<exists>f'. buf_getline line f = Inr (False, line', f')
     | Some (xs, r) \<Rightarrow> buf_getline line f = Inr (True, line', r) \<and> reads line' xs \<and> buf_pos line' = 0)"
proof -
  define n where "n = unat (buf_size line)"
  define b where "b = line\<lparr>buf_pos := 0, buf_len := 0\<rparr>"
  have st: "buf_setpos line 0 = Inr (line\<lparr>buf_pos := 0\<rparr>)" "buf_setlen (line\<lparr>buf_pos := 0\<rparr>) 0 = Inr b"
    by (simp_all add: buf_setpos_def buf_setlen_def b_def)
  have e: "at_end b" "buf_content b = []" "buf_pos b = 0" "buf_size b = buf_size line"
    using w(1) by (simp_all add: at_end_def b_def buf_wf_def buf_content_def)
  define u where "u = takeWhile (\<lambda>c. c \<noteq> 10 \<and> c \<noteq> 13) f"
  define r where "r = dropWhile (\<lambda>c. c \<noteq> 10 \<and> c \<noteq> 13) f"
  obtain b' where b': "getline_loop (-1) b f = (if n \<le> length u then Inr (False, if n = 0 then -1 else uint (f ! (n - 1)), b', drop n f)
        else Inr (True, if r = [] then -1 else uint (hd r), b', tl r))" "appends b (take n u) b'"
    using getline_loop_eq [OF e(1), of "-1" f]
    unfolding Let_def e(3,4) unat_0 diff_zero n_def [symmetric] u_def [symmetric] r_def [symmetric] by blast
  have a: "at_end b'" "buf_content b' = take n u" "buf_size b' = buf_size line" using b'(2) e by (simp_all add: appends_def)
  note bw = buf_wf_bounds [OF at_end_wf [OF a(1)]]
  have p': "unat (buf_pos b') = length (take n u)" using a(1,2) buf_content_length [OF at_end_wf [OF a(1)]] by (simp add: at_end_def)
  have nn: "uint x \<noteq> -1" for x :: u8 using uint_nonnegative [of x] by linarith
  show ?thesis
  proof (cases "n \<le> length u")
    case True
    define l where "l = b'\<lparr>buf_len := 0, buf_pos := 0\<rparr>"
    have "buf_setlen b' 0 = Inr l" by (simp add: buf_setlen_def l_def)
    moreover have "buf_setpos l 0 = Inr l" by (simp add: buf_setpos_def l_def)
    ultimately have "buf_getline line f = Inr (True, l, drop n f)"
      unfolding buf_getline_def st rbind_simps b'(1) using True w(2) nn by (simp add: n_def)
    moreover have "reads l []" using at_end_wf [OF a(1)] by (simp add: reads_def l_def buf_wf_def buf_rest_def buf_content_def)
    ultimately show ?thesis using True a(3)
      by (intro exI [of _ l]) (auto simp: next_line_def n_def [symmetric] u_def [symmetric] Let_def reads_def l_def)
  next
    case False
    define l where "l = b'\<lparr>buf_pos := 0\<rparr>"
    have u: "take n u = u" using False by simp
    have sp: "buf_setpos b' 0 = Inr l" by (simp add: buf_setpos_def l_def)
    have z: "buf_pos b' = 0 \<longleftrightarrow> u = []" using p' u by (metis length_0_conv unat_0 unat_eq_zero)
    have rl: "reads l u" "buf_wf l" using at_end_wf [OF a(1)] a(2) u by (simp_all add: reads_def l_def buf_wf_def buf_rest_def buf_content_def)
    have "buf_getline line f = (if r = [] \<and> u = [] then Inr (False, b', tl r) else Inr (True, l, tl r))"
      unfolding buf_getline_def st rbind_simps b'(1) using False sp z nn by simp
    then show ?thesis using False a(3) rl at_end_wf [OF a(1)]
      by (cases "r = [] \<and> u = []") (auto simp: next_line_def n_def [symmetric] u_def [symmetric] r_def [symmetric] Let_def l_def)
  qed
qed

lemma lines_loop_value:
  assumes w: "buf_wf line" "0 < unat (buf_size line)" and algo: "0 \<notin> set algo" "length algo \<le> 100" "unat alen = length algo"
    and kb: "unat kl \<le> length kb"
  shows "lines_loop ae line f algo alen kb kl = file_value (ae_einval ae) (unat (buf_size line)) f algo (take (unat kl) kb)"
  using w
proof (induction f arbitrary: line rule: length_induct)
  case (1 f)
  let ?n = "unat (buf_size line)"
  obtain line' where l: "buf_wf line'" "buf_size line' = buf_size line" "case next_line ?n f of
       None \<Rightarrow> \<exists>f'. buf_getline line f = Inr (False, line', f')
     | Some (xs, r) \<Rightarrow> buf_getline line f = Inr (True, line', r) \<and> reads line' xs \<and> buf_pos line' = 0"
    using buf_getline_value [OF "1.prems"] by blast
  show ?case
  proof (cases "next_line ?n f")
    case None
    then show ?thesis using l(3) "1.prems"(2) by (auto simp: lines_loop.simps [of ae line f] file_value.simps [of _ ?n f])
  next
    case (Some p)
    obtain xs r where p: "p = (xs, r)" by (cases p)
    have g: "buf_getline line f = Inr (True, line', r)" "reads line' xs" "buf_pos line' = 0" using l(3) Some p by auto
    have less: "length r < length f" using next_line_less [OF Some [unfolded p]] "1.prems"(2) by simp
    have ih: "lines_loop ae line' r algo alen kb kl = file_value (ae_einval ae) ?n r algo (take (unat kl) kb)"
      using "1.IH" less l(1,2) "1.prems"(2) by auto
    show ?thesis using g(1) less "1.prems"(2) Some p ih checkpubkey_line_value [OF g(2,3) algo kb, of "ae_einval ae"]
      by (simp add: lines_loop.simps [of ae line f] file_value.simps [of _ ?n f] cong: option.case_cong)
  qed
qed

section \<open>What is accepted\<close>

text \<open>A text that authorises the key: the algorithm, a space and the key in base64 stand in it.\<close>

definition names_key :: "bytes \<Rightarrow> bytes \<Rightarrow> bytes \<Rightarrow> bool" where
  "names_key f algo blob \<longleftrightarrow> (\<exists>pre tx post. f = pre @ algo @ [32] @ tx @ post \<and> tx \<noteq> [] \<and> base64_decode tx (2 * length tx) = Inr blob)"

lemma names_key_context: "names_key w algo blob \<Longrightarrow> names_key (pre @ w @ post) algo blob"
  unfolding names_key_def by (metis append.assoc)

lemma key_value_sound:
  assumes "key_value einval opts zs algo blob = Inr (Some po)" "zs \<noteq> []"
  shows "names_key (algo @ zs) algo blob"
proof -
  obtain tx rest where sp: "split_at_space (tl zs) = (tx, rest)" by (cases "split_at_space (tl zs)")
  have a: "hd zs = 32" "key_match tx blob algo = Inr True" using assms(1) sp by (auto simp: key_value_def split: if_splits)
  have "tl zs = tx @ dropWhile (\<lambda>c. c \<noteq> 32) (tl zs)" using sp by (simp add: split_at_space_def) (metis takeWhile_dropWhile_id)
  then have z: "algo @ zs = [] @ algo @ [32] @ tx @ dropWhile (\<lambda>c. c \<noteq> 32) (tl zs)" using a(1) assms(2) by (cases zs) simp_all
  have "tx \<noteq> [] \<and> base64_decode tx (2 * length tx) = Inr blob"
    using a(2) by (auto simp: key_match_def split: if_splits sum.splits)
  then show ?thesis unfolding names_key_def using z by blast
qed

lemma split_options_rest: "\<exists>pre. xs = pre @ snd (split_options q e xs)"
proof (induction xs arbitrary: q e)
  case (Cons c cs)
  show ?case
  proof (cases "\<not> q \<and> (c = 32 \<or> c = 9)")
    case True
    then show ?thesis by (intro exI [of _ "[c]"]) auto
  next
    case False
    have ih: "\<exists>pre. c # cs = pre @ snd (split_options q' e' cs)" for q' e'
    proof -
      obtain pre where "cs = pre @ snd (split_options q' e' cs)" using Cons.IH by blast
      then show ?thesis by (intro exI [of _ "c # pre"]) simp
    qed
    show ?thesis unfolding split_options_Cons [OF False] Let_def snd_conv by (rule ih)
  qed
qed simp

lemma line_value_sound:
  assumes a: "line_value einval xs algo blob = Inr (Some po)"
  shows "names_key xs algo blob"
proof -
  have room: "\<not> length xs < length algo + 3" using a by (auto simp: line_value_def split: if_splits)
  show ?thesis
  proof (cases "take (length algo) xs = algo")
    case True
    then have "key_value einval None (drop (length algo) xs) algo blob = Inr (Some po)" using a by (auto simp: line_value_def split: if_splits)
    moreover have "drop (length algo) xs \<noteq> []" using room by simp
    moreover have "algo @ drop (length algo) xs = xs" using True append_take_drop_id [of "length algo" xs] by simp
    ultimately show ?thesis using key_value_sound by metis
  next
    case False
    define ys where "ys = dropWhile (\<lambda>c. c = 32 \<or> c = 9) xs"
    define rest where "rest = snd (split_options False False ys)"
    have k: "take (length algo) rest = algo" "\<not> length rest < length algo + 3"
      "key_value einval (Some (fst (split_options False False ys))) (drop (length algo) rest) algo blob = Inr (Some po)"
      using a False by (auto simp: line_value_def ys_def [symmetric] rest_def Let_def split: if_splits prod.splits)
    have "drop (length algo) rest \<noteq> []" using k(2) by simp
    from key_value_sound [OF k(3) this] k(1) have n: "names_key rest algo blob" by (metis append_take_drop_id)
    obtain pre where "ys = pre @ rest" using split_options_rest unfolding rest_def by blast
    moreover have "xs = takeWhile (\<lambda>c. c = 32 \<or> c = 9) xs @ ys" by (simp add: ys_def)
    ultimately have "xs = (takeWhile (\<lambda>c. c = 32 \<or> c = 9) xs @ pre) @ rest @ []" by simp
    then show ?thesis using names_key_context [OF n] by metis
  qed
qed

lemma next_line_part:
  assumes "next_line n f = Some (w, r)" shows "(\<exists>pre post. f = pre @ w @ post) \<and> (\<exists>pre. f = pre @ r)"
proof -
  define u d where "u = takeWhile (\<lambda>c. c \<noteq> 10 \<and> c \<noteq> 13) f" and "d = dropWhile (\<lambda>c. c \<noteq> 10 \<and> c \<noteq> 13) f"
  have f: "f = u @ d" by (simp add: u_def d_def)
  consider "w = []" "r = drop n f" | "w = u" "r = tl d"
    using assms unfolding next_line_def Let_def u_def [symmetric] d_def [symmetric] by (auto split: if_splits)
  then show ?thesis
  proof cases
    case 1
    then show ?thesis by (metis append_Nil append_take_drop_id)
  next
    case 2
    have "\<exists>pre. d = pre @ tl d" by (cases d) auto
    then show ?thesis using 2 f by (metis append.assoc append_Nil)
  qed
qed

lemma file_value_sound:
  "file_value einval n f algo blob = Inr (Some po) \<Longrightarrow> \<exists>w pre post. f = pre @ w @ post \<and> line_value einval w algo blob = Inr (Some po)"
proof (induction einval n f algo blob rule: file_value.induct)
  case (1 einval n f algo blob)
  obtain w r where l: "next_line n f = Some (w, r)" "n \<noteq> 0" using "1.prems" by (subst (asm) file_value.simps) (auto split: if_splits option.splits)
  obtain x where x: "line_value einval w algo blob = Inr x"
    using "1.prems" l by (subst (asm) file_value.simps) auto
  show ?case
  proof (cases x)
    case (Some po')
    then have "po' = po" using "1.prems" l x by (subst (asm) file_value.simps) auto
    then show ?thesis using next_line_part [OF l(1)] x Some by blast
  next
    case None
    then have "file_value einval n r algo blob = Inr (Some po)" using "1.prems" l x by (subst (asm) file_value.simps) auto
    from "1.IH" [OF l(2,1) refl x None this] obtain w' pre post where h: "r = pre @ w' @ post" "line_value einval w' algo blob = Inr (Some po)" by blast
    obtain pre' where "f = pre' @ r" using next_line_part [OF l(1)] by blast
    then have "f = (pre' @ pre) @ w' @ post" using h(1) by simp
    then show ?thesis using h(2) by blast
  qed
qed

lemma file_value_names: "file_value einval n f algo blob = Inr (Some po) \<Longrightarrow> names_key f algo blob"
  using file_value_sound line_value_sound names_key_context by metis

section \<open>The directories\<close>

lemma parent_dir_shorter:
  assumes "strrchr_slash path = Some sep" "parent_dir path sep \<noteq> lit ''/'' \<or> path \<noteq> lit ''/''"
  shows "length (parent_dir path sep) < length path"
proof -
  note d = strrchr_slashD [OF assms(1)]
  show ?thesis
  proof (cases "sep = 0")
    case True
    then have "take 1 path = lit ''/''" using d(1,2) by (cases path) (simp_all add: lit_def)
    then have "length path \<noteq> 1" using True assms(2) by (auto simp: parent_dir_def)
    then have "1 < length path" using d(1) by linarith
    then show ?thesis using True by (simp add: parent_dir_def)
  qed (use d(1) in \<open>simp add: parent_dir_def\<close>)
qed

text \<open>The directories above a path, up to the home directory or the root directory.\<close>

function dirs_up :: "bytes \<Rightarrow> bytes \<Rightarrow> bytes list" where
  "dirs_up home path =
     (case strrchr_slash path of None \<Rightarrow> []
      | Some sep \<Rightarrow> let d = parent_dir path sep in d # (if d = home \<or> d = lit ''/'' then [] else dirs_up home d))"
  by pat_completeness auto

termination
  by (relation "measure (\<lambda>(_, path). length path)") (auto dest: parent_dir_shorter)

declare dirs_up.simps [simp del]

definition trusted :: "auth_env \<Rightarrow> creds \<Rightarrow> int \<Rightarrow> bytes \<Rightarrow> bool" where
  "trusted ae c uid d = (case ae_stat ae c d of None \<Rightarrow> False
     | Some (st_uid, st_mode) \<Rightarrow> (st_uid = uid \<or> st_uid = 0) \<and> st_mode AND 0x12 = 0)"

definition warned :: "bool \<Rightarrow> ('c, 'z) session \<Rightarrow> ('c, 'z) session" where
  "warned w s = (if w then upd_auth (\<lambda>a. a\<lparr>auth_perm_warn := True\<rparr>) s else s)"

lemma warned_fields [simp]:
  "auth_pw_dir (ses_authstate (warned w s)) = auth_pw_dir (ses_authstate s)"
  "auth_pw_uid (ses_authstate (warned w s)) = auth_pw_uid (ses_authstate s)"
  "ses_creds (warned w s) = ses_creds s" "warned w (warned w' s) = warned (w \<or> w') s"
  by (simp_all add: warned_def upd_auth_def)

lemma checkfileperm_eq:
  "\<exists>w. checkfileperm ae d s = (trusted ae (ses_creds s) (auth_pw_uid (ses_authstate s)) d, warned w s)"
  by (cases "ae_stat ae (ses_creds s) d")
    (auto simp: checkfileperm_def trusted_def warned_def Let_def split: prod.splits if_splits intro: exI [of _ True] exI [of _ False])

lemma perms_loop_eq:
  assumes "auth_pw_dir (ses_authstate s) = Some home"
  shows "\<exists>w. perms_loop ae path ret s
     = Inr (ret \<and> list_all (trusted ae (ses_creds s) (auth_pw_uid (ses_authstate s))) (dirs_up home path), warned w s)"
  using assms
proof (induction home path arbitrary: ret s rule: dirs_up.induct)
  case (1 home path)
  show ?case
  proof (cases "strrchr_slash path")
    case None
    then show ?thesis by (auto simp: perms_loop.simps [of ae path] dirs_up.simps [of home path] warned_def intro: exI [of _ False])
  next
    case (Some sep)
    define d where "d = parent_dir path sep"
    obtain w where w: "checkfileperm ae d s = (trusted ae (ses_creds s) (auth_pw_uid (ses_authstate s)) d, warned w s)"
      using checkfileperm_eq by blast
    show ?thesis
    proof (cases "d = home \<or> d = lit ''/''")
      case True
      then show ?thesis using Some w "1.prems"
        by (auto simp: perms_loop.simps [of ae path] dirs_up.simps [of home path] d_def [symmetric] Let_def intro: exI [of _ w])
    next
      case False
      let ?t = "trusted ae (ses_creds s) (auth_pw_uid (ses_authstate s))"
      have st: "perms_loop ae path ret s = perms_loop ae d (ret \<and> ?t d) (warned w s)"
        using Some w False "1.prems" by (simp add: perms_loop.simps [of ae path] d_def [symmetric] Let_def)
      have du: "dirs_up home path = d # dirs_up home d" using Some False by (simp add: dirs_up.simps [of home path] d_def [symmetric] Let_def)
      have "\<exists>w'. perms_loop ae d (ret \<and> ?t d) (warned w s) = Inr ((ret \<and> ?t d) \<and> list_all ?t (dirs_up home d), warned w' (warned w s))"
        using "1.IH" [OF Some d_def False, of "warned w s" "ret \<and> ?t d"] "1.prems" by simp
      then show ?thesis unfolding st du by auto
    qed
  qed
qed

lemma checkpubkeyperms_eq:
  assumes "auth_pw_dir (ses_authstate s) = Some home"
  shows "\<exists>w. checkpubkeyperms ae ao s
     = Inr (list_all (trusted ae (ses_creds s) (auth_pw_uid (ses_authstate s))) (dirs_up home (authorized_keys_filepath ao s)), warned w s)"
  using perms_loop_eq [OF assms, of ae "authorized_keys_filepath ao s" True] by (simp add: checkpubkeyperms_def)

lemma dirs_up_shorter: "d \<in> set (dirs_up home path) \<Longrightarrow> path \<noteq> lit ''/'' \<Longrightarrow> length d < length path"
proof (induction home path rule: dirs_up.induct)
  case (1 home path)
  obtain sep where s: "strrchr_slash path = Some sep" using "1.prems"(1) by (cases "strrchr_slash path") (simp_all add: dirs_up.simps [of home path])
  define p where "p = parent_dir path sep"
  have l: "length p < length path" using parent_dir_shorter [OF s] "1.prems"(2) by (simp add: p_def)
  have "d = p \<or> \<not> (p = home \<or> p = lit ''/'') \<and> d \<in> set (dirs_up home p)"
    using "1.prems"(1) s by (subst (asm) dirs_up.simps) (auto simp: p_def Let_def split: if_splits)
  then show ?case using l "1.IH" [OF s p_def] by auto
qed

lemma perms_loop_stat:
  "path \<noteq> lit ''/'' \<Longrightarrow> (\<And>c d. length d < length path \<Longrightarrow> ae_stat ae' c d = ae_stat ae c d) \<Longrightarrow> perms_loop ae' path ret s = perms_loop ae path ret s"
proof (induction ae path ret s rule: perms_loop.induct)
  case (1 ae path ret s)
  show ?case
  proof (cases "strrchr_slash path")
    case (Some sep)
    define d where "d = parent_dir path sep"
    have l: "length d < length path" using parent_dir_shorter [OF Some] "1.prems"(1) by (simp add: d_def)
    obtain ok s' where c: "checkfileperm ae d s = (ok, s')" by (cases "checkfileperm ae d s")
    have c': "checkfileperm ae' d s = (ok, s')" using c "1.prems"(2) [OF l] by (simp add: checkfileperm_def)
    have ih: "perms_loop ae' d (ret \<and> ok) s' = perms_loop ae d (ret \<and> ok) s'" if "auth_pw_dir (ses_authstate s') = Some home" "\<not> (d = home \<or> d = lit ''/'')" for home
      using "1.IH" [OF Some d_def c [symmetric] refl refl that(1,2)] that(2) "1.prems"(2) l by (metis less_trans)
    show ?thesis using Some c c' ih
      by (simp add: perms_loop.simps [of ae path] perms_loop.simps [of ae' path] d_def [symmetric] Let_def split: option.split)
  qed (simp add: perms_loop.simps [of ae path] perms_loop.simps [of ae' path])
qed

text \<open>
  C37. The permissions that decide whether \<^verbatim>\<open>authorized_keys\<close> is used are those of the directories above it, up to the home
  directory of the user or the root directory: each must be owned by the user or by root and not be writable by
  others. The permissions of the file itself do not matter, although the comment speaks of the path of the file.
\<close>

theorem authorized_keys_perms:
  assumes "auth_pw_dir (ses_authstate s) = Some home"
  shows "(\<exists>s'. checkpubkeyperms ae ao s =
       Inr (\<forall>d\<in>set (dirs_up home (authorized_keys_filepath ao s)). trusted ae (ses_creds s) (auth_pw_uid (ses_authstate s)) d, s'))
    \<and> checkpubkeyperms (ae\<lparr>ae_stat := \<lambda>c p. if p = authorized_keys_filepath ao s then st c else ae_stat ae c p\<rparr>) ao s = checkpubkeyperms ae ao s"
proof
  show "\<exists>s'. checkpubkeyperms ae ao s =
       Inr (\<forall>d\<in>set (dirs_up home (authorized_keys_filepath ao s)). trusted ae (ses_creds s) (auth_pw_uid (ses_authstate s)) d, s')"
    using checkpubkeyperms_eq [OF assms, of ae ao] by (auto simp: list_all_iff)
  have "authorized_keys_filepath ao s \<noteq> lit ''/''" by (simp add: authorized_keys_filepath_def lit_def)
  from perms_loop_stat [OF this] show "checkpubkeyperms (ae\<lparr>ae_stat := \<lambda>c p. if p = authorized_keys_filepath ao s then st c else ae_stat ae c p\<rparr>) ao s
      = checkpubkeyperms ae ao s"
    unfolding checkpubkeyperms_def by (rule) auto
qed

section \<open>The properties of the file\<close>

lemma new_line_buf:
  assumes "buf_new MAX_AUTHKEYS_LINE = Inr line" shows "buf_wf line" "unat (buf_size line) = 4200"
  using assms buf_new_wf [OF assms] by (auto simp: buf_new_eq MAX_AUTHKEYS_LINE_def)

lemma signkey_names_ok:
  assumes "algo \<in> set signkey_names"
  shows "0 \<notin> set algo" "length algo \<le> 100" "unat (of_nat (length algo) :: u32) = length algo"
proof -
  have "list_all (\<lambda>a. 0 \<notin> set a \<and> length a \<le> 100) signkey_names" by code_simp
  then show a: "0 \<notin> set algo" "length algo \<le> 100" using assms by (auto simp: list_all_iff)
  then show "unat (of_nat (length algo) :: u32) = length algo" by (simp add: unat_of_nat take_bit_nat_eq_self)
qed

text \<open>
  C14. Looking for a key in \<^verbatim>\<open>authorized_keys\<close> always ends and never leaves the buffers: for every text of the file the result is
  the one of the first line that authorises the key, as \<open>line_value\<close> defines it, with the options in front of the key. A key is
  accepted only if its algorithm and its base64 text stand in the file.
\<close>

theorem authorized_keys_lines:
  assumes "buf_new MAX_AUTHKEYS_LINE = Inr line" "algo \<in> set signkey_names" "unat keybloblen \<le> length keyblob"
  shows "lines_loop ae line f algo (of_nat (length algo)) keyblob keybloblen
       = file_value (ae_einval ae) 4200 f algo (take (unat keybloblen) keyblob)
    \<and> (\<forall>po. lines_loop ae line f algo (of_nat (length algo)) keyblob keybloblen = Inr (Some po) \<longrightarrow>
         names_key f algo (take (unat keybloblen) keyblob))"
proof -
  note b = new_line_buf [OF assms(1)]
  have "lines_loop ae line f algo (of_nat (length algo)) keyblob keybloblen = file_value (ae_einval ae) 4200 f algo (take (unat keybloblen) keyblob)"
    using lines_loop_value [OF b(1) _ signkey_names_ok [OF assms(2)] assms(3)] b(2) by simp
  then show ?thesis using file_value_names by auto
qed

text \<open>
  A line longer than \<^verbatim>\<open>MAX_AUTHKEYS_LINE\<close> is not ignored as a whole: only its first 4200 bytes are, and the rest is read as the next
  line. If a key follows there, it is accepted without the options in front of it.
\<close>

theorem authorized_keys_long_line:
  assumes "buf_new MAX_AUTHKEYS_LINE = Inr line" "algo \<in> set signkey_names" "unat keybloblen \<le> length keyblob"
    "length pre = 4200" "\<forall>c\<in>set pre. c \<noteq> 10 \<and> c \<noteq> 13"
  shows "lines_loop ae line (pre @ f) algo (of_nat (length algo)) keyblob keybloblen
     = lines_loop ae line f algo (of_nat (length algo)) keyblob keybloblen"
proof -
  note b = new_line_buf [OF assms(1)]
  have ll: "lines_loop ae line g algo (of_nat (length algo)) keyblob keybloblen = file_value (ae_einval ae) 4200 g algo (take (unat keybloblen) keyblob)" for g
    using lines_loop_value [OF b(1) _ signkey_names_ok [OF assms(2)] assms(3)] b(2) by simp
  have "takeWhile (\<lambda>c. c \<noteq> 10 \<and> c \<noteq> 13) (pre @ f) = pre @ takeWhile (\<lambda>c. c \<noteq> 10 \<and> c \<noteq> 13) f"
    using assms(5) by (intro takeWhile_append2) auto
  then have "next_line 4200 (pre @ f) = Some ([], f)" using assms(4) by (simp add: next_line_def Let_def)
  then show ?thesis unfolding ll by (subst file_value.simps) (simp add: line_value_def)
qed

lemma demo_rsa_match: "key_match (lit ''AAAAB3NzaC1yc2E='') (store32h 7 @ lit ''ssh-rsa'') (lit ''ssh-rsa'') = Inr True"
  by code_simp

lemma demo_key_line: "line_value False (lit ''ssh-rsa AAAAB3NzaC1yc2E='') (lit ''ssh-rsa'') (store32h 7 @ lit ''ssh-rsa'') = Inr (Some empty_options)"
  by code_simp

section \<open>A system\<close>

text \<open>
  A system for evaluating the model: the user \<^verbatim>\<open>u\<close> with the home directory \<^verbatim>\<open>/h\<close>, no password and one authorised key,
  directories that belong to root, and a signature scheme for Ed25519 keys whose only good signature is the beginning of the data.
\<close>

definition demo_user :: passwd where
  "demo_user = \<lparr>pwd_uid = 7, pwd_gid = 8, pwd_name = lit ''u'', pwd_dir = lit ''/h'', pwd_shell = [], pwd_passwd = Some []\<rparr>"

definition demo_key_env :: key_env where
  "demo_key_env = \<lparr>ke_hash = (\<lambda>h _. replicate (hashsize h) 0), ke_mul2add = (\<lambda>_ _ _ _. None),
     ke_ed25519_verify = (\<lambda>m s _. s = take 64 (m @ replicate 64 0)), ke_ed25519_sign = (\<lambda>m _ _. take 64 (m @ replicate 64 0))\<rparr>"

definition demo_authkeys :: bytes where
  "demo_authkeys = lit ''ssh-ed25519 AAAAC3NzaC1lZDI1NTE5AAAAIAAAAAAAAAAAAAAAAAAAAAAAAAAAAAAAAAAAAAAAAAAA''"

definition demo_auth_env :: auth_env where
  "demo_auth_env = \<lparr>ae_keys = demo_key_env, ae_getpwnam = (\<lambda>n. if n = lit ''u'' then Some demo_user else None),
     ae_getspnam = (\<lambda>_. None), ae_getgrouplist = (\<lambda>_ g. [g]), ae_usershells = [lit ''/bin/sh''],
     ae_crypt = (\<lambda>p _. Some p), ae_getgrnam_utmp = None, ae_ids_ok = (\<lambda>_. True), ae_stat = (\<lambda>_ _. Some (0, 0x1ED)),
     ae_open = (\<lambda>_ _. Opened demo_authkeys), ae_gettime = (\<lambda>t. (int t, 0)), ae_einval = False\<rparr>"

definition demo_auth_opts :: auth_opts where
  "demo_auth_opts = \<lparr>ao_password_auth = False, ao_noauthpass = False, ao_norootpass = False, ao_allowblankpass = True,
     ao_norootlogin = False, ao_multiauthmethod = False, ao_maxauthtries = 10, ao_restrict_group = None,
     ao_authorized_keys_dir = lit ''~/.ssh''\<rparr>"

lemma demo_einval: "ae_einval demo_auth_env = False"
  by (simp add: demo_auth_env_def)

theorem authorized_keys_lines_witness:
  "\<exists>line. buf_new MAX_AUTHKEYS_LINE = Inr line
     \<and> lines_loop demo_auth_env line (lit ''ssh-rsa AAAAB3NzaC1yc2E='') (lit ''ssh-rsa'') (of_nat (length (lit ''ssh-rsa''))) (store32h 7 @ lit ''ssh-rsa'') 11
       = file_value False 4200 (lit ''ssh-rsa AAAAB3NzaC1yc2E='') (lit ''ssh-rsa'') (store32h 7 @ lit ''ssh-rsa'')"
proof -
  obtain line where l: "buf_new MAX_AUTHKEYS_LINE = Inr line" by (auto simp: buf_new_eq MAX_AUTHKEYS_LINE_def BUF_MAX_SIZE_def)
  have k: "unat (11 :: u32) \<le> length (store32h 7 @ lit ''ssh-rsa'')" "lit ''ssh-rsa'' \<in> set signkey_names"
    by (simp_all add: lit_def signkey_names_def)
  show ?thesis using l authorized_keys_lines [OF l k(2,1), of demo_auth_env "lit ''ssh-rsa AAAAB3NzaC1yc2E=''"]
    by (auto simp: demo_auth_env_def lit_def)
qed

theorem authorized_keys_long_line_witness:
  "\<exists>line. buf_new MAX_AUTHKEYS_LINE = Inr line
     \<and> lines_loop demo_auth_env line ((lit ''restrict '' @ replicate 4191 32) @ lit ''ssh-rsa AAAAB3NzaC1yc2E='')
         (lit ''ssh-rsa'') (of_nat (length (lit ''ssh-rsa''))) (store32h 7 @ lit ''ssh-rsa'') 11 = Inr (Some empty_options)"
proof -
  obtain line where l: "buf_new MAX_AUTHKEYS_LINE = Inr line" by (auto simp: buf_new_eq MAX_AUTHKEYS_LINE_def BUF_MAX_SIZE_def)
  have k: "unat (11 :: u32) \<le> length (store32h 7 @ lit ''ssh-rsa'')" "lit ''ssh-rsa'' \<in> set signkey_names"
    by (simp_all add: lit_def signkey_names_def)
  have p: "length (lit ''restrict '' @ replicate 4191 32) = 4200" "\<forall>c\<in>set (lit ''restrict '' @ replicate 4191 32). c \<noteq> 10 \<and> c \<noteq> 13"
    by (auto simp: lit_def)
  note b = new_line_buf [OF l]
  have nl: "next_line 4200 (lit ''ssh-rsa AAAAB3NzaC1yc2E='') = Some (lit ''ssh-rsa AAAAB3NzaC1yc2E='', [])"
    by (simp add: next_line_def lit_def Let_def)
  have "lines_loop demo_auth_env line (lit ''ssh-rsa AAAAB3NzaC1yc2E='') (lit ''ssh-rsa'') (of_nat (length (lit ''ssh-rsa''))) (store32h 7 @ lit ''ssh-rsa'') 11
      = file_value False 4200 (lit ''ssh-rsa AAAAB3NzaC1yc2E='') (lit ''ssh-rsa'') (store32h 7 @ lit ''ssh-rsa'')"
    using lines_loop_value [OF b(1) _ signkey_names_ok [OF k(2)] k(1), of demo_auth_env] b(2) demo_einval by (simp add: lit_def)
  also have "\<dots> = Inr (Some empty_options)" using nl demo_key_line by (subst file_value.simps) simp
  finally show ?thesis using l authorized_keys_long_line [OF l k(2,1) p, of demo_auth_env "lit ''ssh-rsa AAAAB3NzaC1yc2E=''"] by auto
qed

theorem authorized_keys_perms_witness:
  "\<exists>s'. checkpubkeyperms demo_auth_env demo_auth_opts (fresh_session\<lparr>ses_authstate := zero_authstate\<lparr>auth_pw_dir := Some (lit ''/h'')\<rparr>\<rparr>) = Inr (True, s')"
proof -
  let ?s = "fresh_session\<lparr>ses_authstate := zero_authstate\<lparr>auth_pw_dir := Some (lit ''/h'')\<rparr>\<rparr>"
  have d: "auth_pw_dir (ses_authstate ?s) = Some (lit ''/h'')" by simp
  have "trusted demo_auth_env c u x" for c u x
    by (simp add: trusted_def demo_auth_env_def)
  then show ?thesis using authorized_keys_perms [OF d, of demo_auth_env demo_auth_opts] by auto
qed

text \<open>
  A line of at least ten blanks, and three more than the algorithm has characters, ends the session: \<^verbatim>\<open>buf_getptr\<close> finds no byte
  where the options should start.
\<close>

theorem authorized_keys_blank_line:
  assumes "reads line xs" "buf_pos line = 0" "algo \<in> set signkey_names" "unat keybloblen \<le> length keyblob"
    "\<forall>c\<in>set xs. c = 32 \<or> c = 9" "length algo + 3 \<le> length xs" "length xs \<le> 4200"
  shows "checkpubkey_line einval line algo (of_nat (length algo)) keyblob keybloblen = Inl (Exit ''Bad buf_getptr'')"
proof -
  have "0 \<notin> set xs" using assms(5) by auto
  have t: "7 \<le> length algo \<and> hd algo \<noteq> 32 \<and> hd algo \<noteq> 9"
  proof -
    have "list_all (\<lambda>a. 7 \<le> length a \<and> hd a \<noteq> 32 \<and> hd a \<noteq> 9) signkey_names" by code_simp
    then show ?thesis using assms(3) by (auto simp: list_all_iff)
  qed
  have "take (length algo) xs \<noteq> algo"
  proof
    assume "take (length algo) xs = algo"
    then have "hd algo \<in> set xs" using t by (metis hd_in_set in_set_takeD list.size(3) not_numeral_le_zero)
    then show False using t assms(5) by auto
  qed
  moreover have "dropWhile (\<lambda>c. c = 32 \<or> c = 9) xs = []" using assms(5) by simp
  ultimately have "line_value einval xs algo (take (unat keybloblen) keyblob) = Inl (Exit ''Bad buf_getptr'')"
    using assms(6,7) t \<open>0 \<notin> set xs\<close> by (simp add: line_value_def)
  then show ?thesis using checkpubkey_line_value [OF assms(1,2) signkey_names_ok [OF assms(3)] assms(4)] by simp
qed

end
