(* ===== verification/Auth.thy ===== *)
theory Auth
  imports Authorized_Keys Process_Packet
begin

text \<open>
  User authentication of the server: \<^verbatim>\<open>svr-auth.c\<close>, \<^verbatim>\<open>svr-authpasswd.c\<close>, \<^verbatim>\<open>svr-authpubkey.c\<close>, \<^verbatim>\<open>svr-service.c\<close> and
  \<^verbatim>\<open>fill_passwd\<close> of \<^verbatim>\<open>common-session.c\<close>. Logging is not modelled; the delay of a failure is an event of the trace. The
  configuration drops privileges after authentication and has no PAM and no plugins.
\<close>

definition AUTH_TYPE_PUBKEY :: u8 where "AUTH_TYPE_PUBKEY = 2"
definition AUTH_TYPE_PASSWORD :: u8 where "AUTH_TYPE_PASSWORD = 4"
definition MAX_USERNAME_LEN :: u32 where "MAX_USERNAME_LEN = 100"
definition DROPBEAR_MAX_PASSWORD_LEN :: u32 where "DROPBEAR_MAX_PASSWORD_LEN = 100"
definition DROPBEAR_NGROUP_MAX :: nat where "DROPBEAR_NGROUP_MAX = 1024"

section \<open>Reading the payload\<close>

definition pl_getstring :: "('c, 'z) session \<Rightarrow> (bytes \<times> u32 \<times> ('c, 'z) session) res" where
  "pl_getstring s =
     (case ses_payload s of None \<Rightarrow> Inl NullDeref
      | Some pb \<Rightarrow> rbind (buf_getstring pb) (\<lambda>(str, n, pb). Inr (str, n, s\<lparr>ses_payload := Some pb\<rparr>)))"

definition pl_getbool :: "('c, 'z) session \<Rightarrow> (bool \<times> ('c, 'z) session) res" where
  "pl_getbool s =
     (case ses_payload s of None \<Rightarrow> Inl NullDeref
      | Some pb \<Rightarrow> rbind (buf_getbool pb) (\<lambda>(c, pb). Inr (c, s\<lparr>ses_payload := Some pb\<rparr>)))"

text \<open>A string of the payload against a fixed name: \<^verbatim>\<open>len == LEN && strncmp(str, NAME, LEN) == 0\<close>.\<close>

definition is_name :: "bytes \<Rightarrow> u32 \<Rightarrow> bytes \<Rightarrow> bool" where
  "is_name str len name \<longleftrightarrow> unat len = length name \<and> strncmp_eq str name (length name)"

section \<open>Initialisation and the banner\<close>

definition svr_authinitialise :: "auth_opts \<Rightarrow> ('c, 'z) session \<Rightarrow> ('c, 'z) session" where
  "svr_authinitialise ao s =
     (let s = s\<lparr>ses_authstate := zero_authstate\<rparr>;
          s = upd_auth (\<lambda>a. a\<lparr>auth_authtypes := auth_authtypes a OR AUTH_TYPE_PUBKEY\<rparr>) s in
      if ao_password_auth ao \<and> \<not> ao_noauthpass ao
      then upd_auth (\<lambda>a. a\<lparr>auth_authtypes := auth_authtypes a OR AUTH_TYPE_PASSWORD\<rparr>) s else s)"

definition send_msg_userauth_banner :: "'z env \<Rightarrow> buffer \<Rightarrow> ('c, 'z) session \<Rightarrow> ('c, 'z) session res" where
  "send_msg_userauth_banner e banner s =
     rbind (rbind (buf_putbyte (ses_writepayload s) SSH_MSG_USERAUTH_BANNER) (\<lambda>wp.
            rbind (buf_putbufstring wp banner) (\<lambda>wp.
            buf_putstring wp (lit ''en'') 2))) (\<lambda>wp.
     encrypt_packet e (s\<lparr>ses_writepayload := wp\<rparr>))"

definition send_banner :: "'z env \<Rightarrow> ('c, 'z) session \<Rightarrow> ('c, 'z) session res" where
  "send_banner e s =
     (case svr_banner (ses_svr s) of None \<Rightarrow> Inr s
      | Some banner \<Rightarrow>
        rbind (send_msg_userauth_banner e banner s) (\<lambda>s. Inr (s\<lparr>ses_svr := (ses_svr s)\<lparr>svr_banner := None\<rparr>\<rparr>)))"

section \<open>The user\<close>

definition fill_passwd :: "auth_env \<Rightarrow> bytes \<Rightarrow> ('c, 'z) session \<Rightarrow> ('c, 'z) session" where
  "fill_passwd ae username s =
     (let s = upd_auth (\<lambda>a. a\<lparr>auth_pw_name := None, auth_pw_dir := None, auth_pw_shell := None, auth_pw_passwd := None\<rparr>) s in
      case ae_getpwnam ae username of None \<Rightarrow> s
      | Some pw \<Rightarrow>
        let passwd_crypt = pwd_passwd pw;
            passwd_crypt = (if passwd_crypt = Some (lit ''x'')
                            then (case ae_getspnam ae (pwd_name pw) of Some (Some sp) \<Rightarrow> Some sp | _ \<Rightarrow> Some (lit ''!!''))
                            else passwd_crypt);
            passwd_crypt = (if passwd_crypt = None then Some (lit ''!!'') else passwd_crypt) in
        upd_auth (\<lambda>a. a\<lparr>auth_pw_uid := pwd_uid pw, auth_pw_gid := pwd_gid pw, auth_pw_name := Some (pwd_name pw),
          auth_pw_dir := Some (pwd_dir pw), auth_pw_shell := Some (pwd_shell pw), auth_pw_passwd := passwd_crypt\<rparr>) s)"

text \<open>\<^verbatim>\<open>getgrouplist\<close> sets \<^verbatim>\<open>ngroups\<close> to the number of groups; it fails when there are more than there is room for.\<close>

function find_grouplist :: "int list \<Rightarrow> nat \<Rightarrow> int list option" where
  "find_grouplist groups ngroups =
     (if ngroups \<le> DROPBEAR_NGROUP_MAX
      then if length groups \<le> ngroups then Some groups else find_grouplist groups (length groups * 2)
      else None)"
  by pat_completeness auto

termination
  by (relation "measure (\<lambda>(groups, ngroups). Suc DROPBEAR_NGROUP_MAX - ngroups)") auto

declare find_grouplist.simps [simp del]

definition check_group_membership :: "auth_env \<Rightarrow> int \<Rightarrow> bytes \<Rightarrow> int \<Rightarrow> bool" where
  "check_group_membership ae check_gid username user_gid =
     (case find_grouplist (ae_getgrouplist ae username user_gid) 32 of None \<Rightarrow> False
      | Some grouplist \<Rightarrow> check_gid \<in> set grouplist)"

definition username_failed :: "('c, 'z) session \<Rightarrow> (bool \<times> ('c, 'z) session) res" where
  "username_failed s = Inr (False, upd_auth (\<lambda>a. a\<lparr>auth_checkusername_failed := True\<rparr>) s)"

text \<open>The checks on an existing user, after the name was looked up.\<close>

definition check_account :: "auth_env \<Rightarrow> auth_opts \<Rightarrow> ('c, 'z) session \<Rightarrow> (bool \<times> ('c, 'z) session) res" where
  "check_account ae ao s =
     (let a = ses_authstate s; uid = cr_euid (ses_creds s) in
      if auth_checkusername_failed a then Inr (False, s)
      else case auth_pw_name a of None \<Rightarrow> username_failed s
      | Some pw_name \<Rightarrow>
        if uid \<noteq> 0 \<and> uid \<noteq> auth_pw_uid a then username_failed s
        else if ao_norootlogin ao \<and> auth_pw_uid a = 0 then username_failed s
        else if (case ao_restrict_group ao of None \<Rightarrow> False
                 | Some gid \<Rightarrow> \<not> check_group_membership ae gid pw_name (auth_pw_gid a)) then username_failed s
        else case auth_pw_shell a of None \<Rightarrow> Inl NullDeref
        | Some shell \<Rightarrow>
          let usershell = (if shell = [] then lit ''/bin/sh'' else shell) in
          if usershell \<in> set (ae_usershells ae) then Inr (True, s) else username_failed s)"

definition checkusername :: "auth_env \<Rightarrow> auth_opts \<Rightarrow> bytes \<Rightarrow> u32 \<Rightarrow> ('c, 'z) session \<Rightarrow> (bool \<times> ('c, 'z) session) res" where
  "checkusername ae ao username userlen s =
     (if userlen > MAX_USERNAME_LEN then Inr (False, s)
      else if length (cstr username) \<noteq> unat userlen then Inl (Exit ''Attempted username with a null byte'')
      else case auth_username (ses_authstate s) of
        None \<Rightarrow> check_account ae ao (upd_auth (\<lambda>a. a\<lparr>auth_username := Some (cstr username)\<rparr>) (fill_passwd ae (cstr username) s))
      | Some u \<Rightarrow>
        if cstr username \<noteq> u then Inl (Exit ''Client trying multiple usernames'')
        else check_account ae ao s)"

section \<open>Failure\<close>

text \<open>The delay in nanoseconds, from the time when the request came in, the time now and a random number.\<close>

definition auth_delay :: "int \<times> int \<Rightarrow> int \<times> int \<Rightarrow> u32 \<Rightarrow> int" where
  "auth_delay start now rnd =
     (let sec = fst now - fst start; nsec = snd now - snd start;
          (sec, nsec) = (if nsec < 0 then (sec - 1, nsec + 1000000000) else (sec, nsec));
          rand_delay = uint (250000000 + rnd mod 100000000) in
      if sec = 0 \<and> nsec \<le> rand_delay then rand_delay - nsec else rand_delay)"

text \<open>Four random bytes as an integer of a little-endian machine.\<close>

definition rand32 :: "bytes \<Rightarrow> u32" where
  "rand32 bs = load32h (rev bs)"

definition auth_types_buf :: "u8 \<Rightarrow> buffer res" where
  "auth_types_buf types =
     rbind (buf_new 30) (\<lambda>b.
     rbind (if types AND AUTH_TYPE_PUBKEY \<noteq> 0
            then rbind (buf_putbytes b (lit ''publickey'') 9) (\<lambda>b.
                 if types AND AUTH_TYPE_PASSWORD \<noteq> 0 then buf_putbyte b 44 else Inr b)
            else Inr b) (\<lambda>b.
     if types AND AUTH_TYPE_PASSWORD \<noteq> 0 then buf_putbytes b (lit ''password'') 8 else Inr b))"

definition count_failure :: "'z env \<Rightarrow> auth_env \<Rightarrow> ('c, 'z) session \<Rightarrow> ('c, 'z) session" where
  "count_failure e ae s =
     (let now = ae_gettime ae (ses_tick s); rnd = rand32 (e_random e (Suc (ses_tick s)) 4);
          delay = auth_delay (auth_starttime (ses_authstate s)) now rnd;
          s = log_event (EvSleep delay) (tick (tick s)) in
      upd_auth (\<lambda>a. a\<lparr>auth_failcount := auth_failcount a + 1\<rparr>) s)"

definition send_msg_userauth_failure :: "'z env \<Rightarrow> auth_env \<Rightarrow> auth_opts \<Rightarrow> bool \<Rightarrow> bool \<Rightarrow> ('c, 'z) session \<Rightarrow> ('c, 'z) session res" where
  "send_msg_userauth_failure e ae ao partial incrfail s =
     rbind (rbind (buf_putbyte (ses_writepayload s) SSH_MSG_USERAUTH_FAILURE) (\<lambda>wp.
            rbind (auth_types_buf (auth_authtypes (ses_authstate s))) (\<lambda>typebuf.
            rbind (buf_putbufstring wp typebuf) (\<lambda>wp.
            buf_putbyte wp (if partial then 1 else 0))))) (\<lambda>wp.
     rbind (encrypt_packet e (s\<lparr>ses_writepayload := wp\<rparr>)) (\<lambda>s.
     let s = (if incrfail then count_failure e ae s else s) in
     if auth_failcount (ses_authstate s) > ao_maxauthtries ao then Inl (Exit ''Max auth tries reached - user %s'')
     else Inr s))"

section \<open>Success\<close>

definition svr_switch_user :: "auth_env \<Rightarrow> ('c, 'z) session \<Rightarrow> ('c, 'z) session res" where
  "svr_switch_user ae s =
     rbind (dropbear_assert ''ses.authstate.authdone'' (auth_authdone (ses_authstate s))) (\<lambda>_.
     let a = ses_authstate s in
     if cr_uid (ses_creds s) = 0
     then
       let (ok, s) = sys_ids ae (\<lambda>c. c\<lparr>cr_gid := auth_pw_gid a, cr_egid := auth_pw_gid a, cr_sgid := auth_pw_gid a\<rparr>) s in
       if \<not> ok then Inl (Exit ''Error changing user group'')
       else case auth_pw_name a of None \<Rightarrow> Inl NullDeref
       | Some name \<Rightarrow>
         let (ok, s) = sys_ids ae (\<lambda>c. c\<lparr>cr_groups := Some (name, auth_pw_gid a)\<rparr>) s in
         if \<not> ok then Inl (Exit ''Error changing user group'')
         else
           let s = (case ae_getgrnam_utmp ae of None \<Rightarrow> s
                    | Some gid \<Rightarrow>
                      let s = s\<lparr>ses_svr := (ses_svr s)\<lparr>svr_utmp_gid := gid\<rparr>\<rparr>;
                          (ok, s) = sys_ids ae (\<lambda>c. c\<lparr>cr_sgid := gid\<rparr>) s in
                      if ok then s\<lparr>ses_svr := (ses_svr s)\<lparr>svr_have_utmp_gid := True\<rparr>\<rparr> else s);
               (ok, s) = sys_ids ae (\<lambda>c. c\<lparr>cr_uid := auth_pw_uid a, cr_euid := auth_pw_uid a\<rparr>) s in
           if \<not> ok then Inl (Exit ''Error changing user'') else Inr s
     else if cr_uid (ses_creds s) \<noteq> auth_pw_uid a then Inl (Exit ''Couldn't change user as non-root'')
     else Inr s)"

definition send_msg_userauth_success :: "'z env \<Rightarrow> auth_env \<Rightarrow> ('c, 'z) session \<Rightarrow> ('c, 'z) session res" where
  "send_msg_userauth_success e ae s =
     rbind (rbind (buf_putbyte (ses_writepayload s) SSH_MSG_USERAUTH_SUCCESS) (\<lambda>wp.
            encrypt_packet e (s\<lparr>ses_writepayload := wp\<rparr>))) (\<lambda>s.
     let s = upd_auth (\<lambda>a. a\<lparr>auth_authdone := True\<rparr>) s in
     rbind (svr_switch_user ae s) (\<lambda>s.
     m_close e (svr_childpipe (ses_svr s)) (s\<lparr>ses_allowprivport := True\<rparr>)))"

section \<open>Methods\<close>

definition constant_time_strcmp :: "bytes \<Rightarrow> bytes \<Rightarrow> bool" where
  "constant_time_strcmp a b = (if length a \<noteq> length b then True else constant_time_memcmp a b (length a) \<noteq> 0)"

definition svr_auth_password :: "'z env \<Rightarrow> auth_env \<Rightarrow> auth_opts \<Rightarrow> bool \<Rightarrow> ('c, 'z) session \<Rightarrow> ('c, 'z) session res" where
  "svr_auth_password e ae ao valid_user s =
     rbind (pl_getbool s) (\<lambda>(changepw, s).
     if changepw then send_msg_userauth_failure e ae ao False True s
     else
       rbind (pl_getstring s) (\<lambda>(password, passwordlen, s).
       if \<not> valid_user then send_msg_userauth_failure e ae ao False True s
       else if passwordlen > DROPBEAR_MAX_PASSWORD_LEN then send_msg_userauth_failure e ae ao False True s
       else case auth_pw_passwd (ses_authstate s) of None \<Rightarrow> Inl NullDeref
       | Some passwdcrypt \<Rightarrow>
         (case ae_crypt ae (cstr password) passwdcrypt of
            None \<Rightarrow> send_msg_userauth_failure e ae ao False True s
          | Some testcrypt \<Rightarrow>
            if passwdcrypt = [] then send_msg_userauth_failure e ae ao False True s
            else if \<not> constant_time_strcmp testcrypt passwdcrypt
            then if ao_multiauthmethod ao \<and> auth_authtypes (ses_authstate s) AND NOT AUTH_TYPE_PASSWORD \<noteq> 0
                 then send_msg_userauth_failure e ae ao True False
                        (upd_auth (\<lambda>a. a\<lparr>auth_authtypes := auth_authtypes a AND NOT AUTH_TYPE_PASSWORD\<rparr>) s)
                 else send_msg_userauth_success e ae s
            else send_msg_userauth_failure e ae ao False True s)))"

definition send_msg_userauth_pk_ok :: "'z env \<Rightarrow> bytes \<Rightarrow> u32 \<Rightarrow> bytes \<Rightarrow> u32 \<Rightarrow> ('c, 'z) session \<Rightarrow> ('c, 'z) session res" where
  "send_msg_userauth_pk_ok e sigalgo sigalgolen keyblob keybloblen s =
     rbind (rbind (buf_putbyte (ses_writepayload s) SSH_MSG_USERAUTH_PK_OK) (\<lambda>wp.
            rbind (buf_putstring wp sigalgo sigalgolen) (\<lambda>wp.
            buf_putstring wp keyblob keybloblen))) (\<lambda>wp.
     encrypt_packet e (s\<lparr>ses_writepayload := wp\<rparr>))"

text \<open>What the client must have signed: the session identifier and the payload up to the signature.\<close>

definition sign_data :: "('c, 'z) session \<Rightarrow> (buffer \<times> ('c, 'z) session) res" where
  "sign_data s =
     (case (ses_payload s, ses_session_id s) of
        (Some pb, Some sid) \<Rightarrow>
          rbind (dropbear_assert ''ses.payload_beginning <= ses.payload->pos'' (ses_payload_beginning s \<le> buf_pos pb)) (\<lambda>_.
          let sign_payload_length = buf_pos pb - ses_payload_beginning s in
          rbind (buf_new (buf_pos pb + 4 + buf_len sid)) (\<lambda>signbuf.
          rbind (buf_putbufstring signbuf sid) (\<lambda>signbuf.
          rbind (buf_setpos pb (ses_payload_beginning s)) (\<lambda>pb.
          rbind (buf_getptr pb sign_payload_length) (\<lambda>p.
          rbind (buf_putbytes signbuf (drop p (buf_data pb)) sign_payload_length) (\<lambda>signbuf.
          rbind (buf_incrpos pb sign_payload_length) (\<lambda>pb.
          rbind (buf_setpos signbuf 0) (\<lambda>signbuf.
          Inr (signbuf, s\<lparr>ses_payload := Some pb\<rparr>)))))))))
      | _ \<Rightarrow> Inl NullDeref)"

definition set_sk_flags :: "PubKeyOptions \<Rightarrow> sign_key \<Rightarrow> sign_key" where
  "set_sk_flags po key =
     (let m = SSH_SK_USER_PRESENCE_REQD;
          m = (if no_touch_required_flag po then m AND NOT SSH_SK_USER_PRESENCE_REQD else m);
          m = (if verify_required_flag po then m OR SSH_SK_USER_VERIFICATION_REQD else m) in
      key\<lparr>sk_flags_mask := m\<rparr>)"

text \<open>A good signature: the options of the key apply, and another method may still be required.\<close>

definition pubkey_success :: "'z env \<Rightarrow> auth_env \<Rightarrow> auth_opts \<Rightarrow> PubKeyOptions \<Rightarrow> ('c, 'z) session \<Rightarrow> ('c, 'z) session res" where
  "pubkey_success e ae ao po s =
     (let s = (if auth_pubkey_options (ses_authstate s) = None then upd_auth (\<lambda>a. a\<lparr>auth_pubkey_options := Some po\<rparr>) s else s) in
      if ao_multiauthmethod ao \<and> auth_authtypes (ses_authstate s) AND NOT AUTH_TYPE_PUBKEY \<noteq> 0
      then send_msg_userauth_failure e ae ao True False
             (upd_auth (\<lambda>a. a\<lparr>auth_authtypes := auth_authtypes a AND NOT AUTH_TYPE_PUBKEY\<rparr>) s)
      else send_msg_userauth_success e ae s)"

text \<open>The second half of \<^verbatim>\<open>svr_auth_pubkey\<close>: the key is authorised with the options \<open>po\<close>, and this is not a query.\<close>

definition verify_pubkey :: "'z env \<Rightarrow> auth_env \<Rightarrow> auth_opts \<Rightarrow> int \<Rightarrow> int \<Rightarrow> PubKeyOptions \<Rightarrow> ('c, 'z) session \<Rightarrow> ('c, 'z) session res" where
  "verify_pubkey e ae ao sigtype keytype po s =
     (case ses_payload s of None \<Rightarrow> Inl NullDeref
      | Some pb \<Rightarrow>
        rbind (buf_get_pub_key pb new_sign_key keytype) (\<lambda>(ok, key, keytype, pb).
        let s = s\<lparr>ses_payload := Some pb\<rparr> in
        if \<not> ok then send_msg_userauth_failure e ae ao False True s
        else
          rbind (sign_data s) (\<lambda>(signbuf, s).
          case ses_payload s of None \<Rightarrow> Inl NullDeref
          | Some pb \<Rightarrow>
            rbind (buf_verify (ae_keys ae) pb (set_sk_flags po key) sigtype signbuf) (\<lambda>(good, pb).
            let s = s\<lparr>ses_payload := Some pb\<rparr> in
            if good then pubkey_success e ae ao po s
            else send_msg_userauth_failure e ae ao False True s))))"

text \<open>
  \<^verbatim>\<open>free_query_limit\<close> is 0: the expression that should compute it is a statement of its own. The key blob stays in the
  payload, so that \<^verbatim>\<open>buf_get_pub_key\<close> reads it afterwards.
\<close>

definition svr_auth_pubkey :: "'z env \<Rightarrow> auth_env \<Rightarrow> auth_opts \<Rightarrow> bool \<Rightarrow> ('c, 'z) session \<Rightarrow> ('c, 'z) session res" where
  "svr_auth_pubkey e ae ao valid_user s =
     rbind (pl_getbool s) (\<lambda>(b, s).
     let testkey = (\<not> b) in
     rbind (pl_getstring s) (\<lambda>(sigalgo, sigalgolen, s).
     case ses_payload s of None \<Rightarrow> Inl NullDeref
     | Some pb \<Rightarrow>
       rbind (buf_getint pb) (\<lambda>(keybloblen, pb).
       let s = s\<lparr>ses_payload := Some pb\<rparr> in
       rbind (buf_getptr pb keybloblen) (\<lambda>p.
       let keyblob = drop p (buf_data pb) in
       if \<not> valid_user then send_msg_userauth_failure e ae ao False False s
       else
         let sigtype = signature_type_from_name sigalgo sigalgolen in
         if sigtype = DROPBEAR_SIGNKEY_NONE then send_msg_userauth_failure e ae ao False False s
         else
           rbind (signkey_type_from_signature sigtype) (\<lambda>keytype.
           rbind (signkey_name_from_type keytype) (\<lambda>keyalgo.
           rbind (checkpubkey e ae ao keyalgo (of_nat (length keyalgo)) keyblob keybloblen s) (\<lambda>(r, s).
           case r of
             None \<Rightarrow>
               let incrfail = (auth_serv_pubkey_query_count (ses_authstate s) > 0) in
               rbind (send_msg_userauth_failure e ae ao False incrfail s) (\<lambda>s.
               Inr (upd_auth (\<lambda>a. a\<lparr>auth_serv_pubkey_query_count := auth_serv_pubkey_query_count a + 1\<rparr>) s))
           | Some po \<Rightarrow>
               if testkey then send_msg_userauth_pk_ok e sigalgo sigalgolen keyblob keybloblen s
               else verify_pubkey e ae ao sigtype keytype po s)))))))"

section \<open>Requests\<close>

text \<open>The part of a request after the names: the methods.\<close>

definition userauth_method :: "'z env \<Rightarrow> auth_env \<Rightarrow> auth_opts \<Rightarrow> bool \<Rightarrow> bytes \<Rightarrow> u32 \<Rightarrow> ('c, 'z) session \<Rightarrow> ('c, 'z) session res" where
  "userauth_method e ae ao valid_user methodname methodlen s =
     (if is_name methodname methodlen (lit ''none'')
      then
        if valid_user \<and> ao_allowblankpass ao \<and> \<not> ao_noauthpass ao \<and> \<not> (ao_norootpass ao \<and> auth_pw_uid (ses_authstate s) = 0)
        then case auth_pw_passwd (ses_authstate s) of None \<Rightarrow> Inl NullDeref
          | Some pw \<Rightarrow> if pw = [] then send_msg_userauth_success e ae s else send_msg_userauth_failure e ae ao False False s
        else send_msg_userauth_failure e ae ao False False s
      else if ao_password_auth ao \<and> \<not> ao_noauthpass ao \<and> \<not> (ao_norootpass ao \<and> auth_pw_uid (ses_authstate s) = 0)
        \<and> is_name methodname methodlen (lit ''password'')
      then svr_auth_password e ae ao valid_user s
      else if is_name methodname methodlen (lit ''publickey'')
      then svr_auth_pubkey e ae ao valid_user s
      else send_msg_userauth_failure e ae ao False True s)"

definition recv_msg_userauth_request :: "'z env \<Rightarrow> auth_env \<Rightarrow> auth_opts \<Rightarrow> ('c, 'z) handler" where
  "recv_msg_userauth_request e ae ao s =
     (let s = upd_auth (\<lambda>a. a\<lparr>auth_starttime := ae_gettime ae (ses_tick s)\<rparr>) (tick s) in
      if auth_authdone (ses_authstate s) then Inr s
      else
        rbind (send_banner e s) (\<lambda>s.
        rbind (pl_getstring s) (\<lambda>(username, userlen, s).
        rbind (pl_getstring s) (\<lambda>(servicename, servicelen, s).
        rbind (pl_getstring s) (\<lambda>(methodname, methodlen, s).
        if \<not> is_name servicename servicelen (lit ''ssh-connection'') then Inl (Exit ''unknown service in auth'')
        else
          rbind (checkusername ae ao username userlen s) (\<lambda>(valid_user, s).
          userauth_method e ae ao valid_user methodname methodlen s))))))"

section \<open>Services\<close>

definition send_msg_service_accept :: "'z env \<Rightarrow> bytes \<Rightarrow> u32 \<Rightarrow> ('c, 'z) session \<Rightarrow> ('c, 'z) session res" where
  "send_msg_service_accept e name len s =
     rbind (rbind (buf_putbyte (ses_writepayload s) SSH_MSG_SERVICE_ACCEPT) (\<lambda>wp. buf_putstring wp name len)) (\<lambda>wp.
     encrypt_packet e (s\<lparr>ses_writepayload := wp\<rparr>))"

definition recv_msg_service_request :: "'z env \<Rightarrow> ('c, 'z) handler" where
  "recv_msg_service_request e s =
     rbind (pl_getstring s) (\<lambda>(name, len, s).
     if is_name name len (lit ''ssh-userauth'') then send_msg_service_accept e name len s
     else if is_name name len (lit ''ssh-connection'')
     then if \<not> auth_authdone (ses_authstate s) then Inl (Exit ''Request for connection before auth'')
          else send_msg_service_accept e name len s
     else Inl (Exit ''Unrecognised SSH_MSG_SERVICE_REQUEST''))"

end
