(* ===== verification/Auth_Props.thy ===== *)
theory Auth_Props
  imports Auth Authorized_Keys_Spec Channel_Safe
begin

text \<open>
  What user authentication guarantees. A request is handled without leaving a buffer; only a request that shows a
  credential of an existing, allowed account changes what is authenticated; failures are counted, delayed and limited; after
  success the process has the identity of the user.
\<close>

section \<open>Accounts\<close>

text \<open>The account of a name, with the password of the shadow file in its place.\<close>

definition user_account :: "auth_env \<Rightarrow> bytes \<Rightarrow> passwd option" where
  "user_account ae u =
     (case ae_getpwnam ae u of None \<Rightarrow> None
      | Some pw \<Rightarrow> Some (pw\<lparr>pwd_passwd := Some (case pwd_passwd pw of None \<Rightarrow> lit ''!!''
          | Some p \<Rightarrow> if p = lit ''x'' then (case ae_getspnam ae (pwd_name pw) of Some (Some sp) \<Rightarrow> sp | _ \<Rightarrow> lit ''!!'') else p)\<rparr>))"

definition is_account :: "AuthState \<Rightarrow> passwd \<Rightarrow> bool" where
  "is_account a pw \<longleftrightarrow> auth_pw_uid a = pwd_uid pw \<and> auth_pw_gid a = pwd_gid pw \<and> auth_pw_name a = Some (pwd_name pw)
     \<and> auth_pw_dir a = Some (pwd_dir pw) \<and> auth_pw_shell a = Some (pwd_shell pw) \<and> auth_pw_passwd a = pwd_passwd pw"

text \<open>The fields of the state agree with the account of the name that was given first.\<close>

definition account_inv :: "auth_env \<Rightarrow> AuthState \<Rightarrow> bool" where
  "account_inv ae a \<longleftrightarrow> (case auth_username a of None \<Rightarrow> True
     | Some u \<Rightarrow> (case user_account ae u of None \<Rightarrow> auth_pw_name a = None | Some pw \<Rightarrow> is_account a pw))"

text \<open>The accounts that may log in to a server that runs as \<open>euid\<close>.\<close>

definition may_login :: "auth_env \<Rightarrow> auth_opts \<Rightarrow> int \<Rightarrow> passwd \<Rightarrow> bool" where
  "may_login ae ao euid pw \<longleftrightarrow> (euid = 0 \<or> euid = pwd_uid pw) \<and> \<not> (ao_norootlogin ao \<and> pwd_uid pw = 0)
     \<and> (\<forall>gid. ao_restrict_group ao = Some gid \<longrightarrow> gid \<in> set (ae_getgrouplist ae (pwd_name pw) (pwd_gid pw)))
     \<and> (if pwd_shell pw = [] then lit ''/bin/sh'' else pwd_shell pw) \<in> set (ae_usershells ae)"

lemma fill_passwd_account:
  assumes "auth_username a = Some u" "a = (ses_authstate (fill_passwd ae u s))\<lparr>auth_username := Some u\<rparr>"
  shows "account_inv ae a"
  using assms unfolding account_inv_def user_account_def fill_passwd_def Let_def
  by (auto simp: upd_auth_def is_account_def split: option.splits)

lemma find_grouplist_set: "find_grouplist gs n = Some g \<Longrightarrow> g = gs"
proof (induction gs n rule: find_grouplist.induct)
  case (1 gs n)
  then show ?case by (subst (asm) (2) find_grouplist.simps) (auto split: if_splits)
qed

lemma check_group_sound: "check_group_membership ae gid name ugid \<Longrightarrow> gid \<in> set (ae_getgrouplist ae name ugid)"
  by (auto simp: check_group_membership_def split: option.splits dest: find_grouplist_set)

section \<open>The state of a request\<close>

definition is_sleep :: "event \<Rightarrow> bool" where
  "is_sleep ev = (case ev of EvSleep _ \<Rightarrow> True | _ \<Rightarrow> False)"

definition sleeps :: "('c, 'z) session \<Rightarrow> nat" where
  "sleeps s = length (filter is_sleep (ses_trace s))"

text \<open>What the parts that authentication takes from elsewhere must be: a session that can send, a session identifier, a banner.\<close>

definition auth_ses_ok :: "'z env \<Rightarrow> auth_env \<Rightarrow> ('c, 'z) session \<Rightarrow> bool" where
  "auth_ses_ok e ae s \<longleftrightarrow> send_ok e s \<and> account_inv ae (ses_authstate s)
     \<and> (\<exists>sid. ses_session_id s = Some sid \<and> buf_wf sid) \<and> (\<forall>b. svr_banner (ses_svr s) = Some b \<longrightarrow> buf_wf b)
     \<and> cr_euid (ses_creds s) = cr_uid (ses_creds s) \<and> cr_egid (ses_creds s) = cr_gid (ses_creds s)"

text \<open>The state \<open>s\<close> while the request that came in at \<open>s0\<close> is handled, before its outcome.\<close>

definition handling :: "'z env \<Rightarrow> auth_env \<Rightarrow> ('c, 'z) session \<Rightarrow> ('c, 'z) session \<Rightarrow> bool" where
  "handling e ae s0 s \<longleftrightarrow> auth_ses_ok e ae s
     \<and> (\<exists>p0 p. ses_payload s0 = Some p0 \<and> ses_payload s = Some p \<and> same_buf p0 p)
     \<and> ses_payload_beginning s = ses_payload_beginning s0 \<and> ses_session_id s = ses_session_id s0
     \<and> ses_creds s = ses_creds s0 \<and> auth_authdone (ses_authstate s) = auth_authdone (ses_authstate s0)
     \<and> auth_authtypes (ses_authstate s) = auth_authtypes (ses_authstate s0)
     \<and> auth_failcount (ses_authstate s) = auth_failcount (ses_authstate s0)
     \<and> auth_pubkey_options (ses_authstate s) = auth_pubkey_options (ses_authstate s0)
     \<and> (\<forall>u. auth_username (ses_authstate s0) = Some u \<longrightarrow> auth_username (ses_authstate s) = Some u)
     \<and> sleeps s = sleeps s0"

lemma handling_payload:
  assumes "handling e ae s0 s"
  obtains p0 p where "ses_payload s0 = Some p0" "ses_payload s = Some p" "same_buf p0 p" "buf_wf p"
proof -
  obtain p0 p where "ses_payload s0 = Some p0" "ses_payload s = Some p" "same_buf p0 p" using assms unfolding handling_def by blast
  then show ?thesis using that same_buf_wf by blast
qed

lemma handling_cong:
  assumes "handling e ae s0 s" "send_ok e s'" "ses_payload s' = ses_payload s" "ses_payload_beginning s' = ses_payload_beginning s"
    "ses_session_id s' = ses_session_id s" "ses_svr s' = ses_svr s" "ses_authstate s' = ses_authstate s" "sleeps s' = sleeps s"
  shows "handling e ae s0 s'"
  using assms(1,2) unfolding handling_def auth_ses_ok_def assms(3-8) by blast

lemma handling_read:
  assumes "handling e ae s0 s" "ses_payload s = Some p" "same_buf p p'"
  shows "handling e ae s0 (s\<lparr>ses_payload := Some p'\<rparr>)"
proof -
  have "\<exists>p0. ses_payload s0 = Some p0 \<and> same_buf p0 p'"
    using handling_payload [OF assms(1)] assms(2,3) same_buf_trans by (metis option.inject)
  moreover have "send_ok e (s\<lparr>ses_payload := Some p'\<rparr>) = send_ok e s" "sleeps (s\<lparr>ses_payload := Some p'\<rparr>) = sleeps s"
    by (simp_all add: send_ok_def trans_macsize_def sleeps_def)
  ultimately show ?thesis using assms(1) unfolding handling_def auth_ses_ok_def by (elim conjE, intro conjI; simp)
qed

lemma core_fields:
  assumes "same_core s s'"
  shows "ses_payload s' = ses_payload s" "ses_payload_beginning s' = ses_payload_beginning s"
    "ses_session_id s' = ses_session_id s" "ses_svr s' = ses_svr s" "ses_authstate s' = ses_authstate s" "sleeps s' = sleeps s"
  using assms by (simp_all add: same_core_def sleeps_def)

lemma handling_core: "handling e ae s0 s \<Longrightarrow> send_ok e s' \<Longrightarrow> same_core s s' \<Longrightarrow> handling e ae s0 s'"
  by (rule handling_cong [OF _ _ core_fields])

lemma keeps_pl_getstring:
  assumes "handling e ae s0 s"
  shows "keeps (\<lambda>(str, n, s'). handling e ae s0 s' \<and> ses_authstate s' = ses_authstate s \<and> length str = unat n + 1) (pl_getstring s)"
proof -
  obtain p where p: "ses_payload s = Some p" "buf_wf p" using handling_payload [OF assms] by blast
  show ?thesis
    unfolding pl_getstring_def p(1) option.case
    by (rule keeps_runs [OF runs_getstring [OF p(2)]]) (use handling_read [OF assms p(1)] in auto)
qed

lemma keeps_pl_getbool:
  assumes "handling e ae s0 s"
  shows "keeps (\<lambda>(c, s'). handling e ae s0 s' \<and> ses_authstate s' = ses_authstate s) (pl_getbool s)"
proof -
  obtain p where p: "ses_payload s = Some p" "buf_wf p" using handling_payload [OF assms] by blast
  show ?thesis
    unfolding pl_getbool_def p(1) option.case
    by (rule keeps_runs [OF runs_getbool [OF p(2)]]) (use handling_read [OF assms p(1)] in auto)
qed

lemma handling_no_banner: "handling e ae s0 s \<Longrightarrow> handling e ae s0 (s\<lparr>ses_svr := (ses_svr s)\<lparr>svr_banner := None\<rparr>\<rparr>)"
  unfolding handling_def auth_ses_ok_def send_ok_def trans_macsize_def sleeps_def by (elim conjE, intro conjI; simp)

lemma keeps_send_banner:
  assumes "handling e ae s0 s"
  shows "keeps (\<lambda>s'. handling e ae s0 s' \<and> ses_authstate s' = ses_authstate s) (send_banner e s)"
proof (cases "svr_banner (ses_svr s)")
  case (Some b)
  have ok: "send_ok e s" "buf_wf b" using assms Some by (simp_all add: handling_def auth_ses_ok_def)
  note w = send_ok_D(1) [OF ok(1)]
  have "runs (grown (ses_writepayload s)) (rbind (buf_putbyte (ses_writepayload s) SSH_MSG_USERAUTH_BANNER) (\<lambda>wp.
            rbind (buf_putbufstring wp b) (\<lambda>wp. buf_putstring wp (lit ''en'') 2)))"
    unfolding buf_putbufstring_def
    apply (rule runs_rbind [OF runs_putbyte [OF w]])
    apply (rule runs_rbind [OF runs_putstring], simp add: grown_def, use buf_wf_bounds [OF ok(2)] in simp)
    by (rule runs_weaken [OF runs_putstring]) (auto simp: grown_def lit_def)
  from runs_send [OF ok(1) this] show ?thesis
    unfolding send_banner_def send_msg_userauth_banner_def Some option.case
    apply (rule keeps_runs)
    using handling_no_banner [OF handling_core [OF assms]] core_fields(5) by auto
qed (use assms in \<open>simp add: send_banner_def\<close>)

section \<open>The user\<close>

lemma handling_auth:
  assumes "handling e ae s0 s" "account_inv ae a" "auth_authdone a = auth_authdone (ses_authstate s)"
    "auth_authtypes a = auth_authtypes (ses_authstate s)" "auth_failcount a = auth_failcount (ses_authstate s)"
    "auth_pubkey_options a = auth_pubkey_options (ses_authstate s)"
    "\<And>u. auth_username (ses_authstate s) = Some u \<Longrightarrow> auth_username a = Some u"
  shows "handling e ae s0 (s\<lparr>ses_authstate := a\<rparr>)"
  using assms unfolding handling_def auth_ses_ok_def send_ok_def trans_macsize_def sleeps_def by (elim conjE, intro conjI; simp)

text \<open>A valid user: the name of the request has an account that may log in, and the state describes it.\<close>

definition valid_account :: "auth_env \<Rightarrow> auth_opts \<Rightarrow> ('c, 'z) session \<Rightarrow> bytes \<Rightarrow> ('c, 'z) session \<Rightarrow> passwd \<Rightarrow> bool" where
  "valid_account ae ao s0 u s pw \<longleftrightarrow> auth_username (ses_authstate s) = Some u \<and> user_account ae u = Some pw
     \<and> is_account (ses_authstate s) pw \<and> may_login ae ao (cr_euid (ses_creds s0)) pw"

lemma is_account_more [simp]:
  "is_account (a\<lparr>auth_checkusername_failed := x\<rparr>) pw = is_account a pw" "is_account (a\<lparr>auth_perm_warn := y\<rparr>) pw = is_account a pw"
  "is_account (a\<lparr>auth_failcount := z\<rparr>) pw = is_account a pw" "is_account (a\<lparr>auth_starttime := t\<rparr>) pw = is_account a pw"
  "is_account (a\<lparr>auth_serv_pubkey_query_count := z\<rparr>) pw = is_account a pw" "is_account (a\<lparr>auth_authdone := x\<rparr>) pw = is_account a pw"
  "is_account (a\<lparr>auth_authtypes := w\<rparr>) pw = is_account a pw" "is_account (a\<lparr>auth_pubkey_options := po\<rparr>) pw = is_account a pw"
  by (simp_all add: is_account_def)

lemma account_inv_more [simp]:
  "account_inv ae (a\<lparr>auth_checkusername_failed := x\<rparr>) = account_inv ae a" "account_inv ae (a\<lparr>auth_perm_warn := y\<rparr>) = account_inv ae a"
  "account_inv ae (a\<lparr>auth_failcount := z\<rparr>) = account_inv ae a" "account_inv ae (a\<lparr>auth_starttime := t\<rparr>) = account_inv ae a"
  "account_inv ae (a\<lparr>auth_serv_pubkey_query_count := z\<rparr>) = account_inv ae a" "account_inv ae (a\<lparr>auth_authdone := x\<rparr>) = account_inv ae a"
  "account_inv ae (a\<lparr>auth_authtypes := w\<rparr>) = account_inv ae a" "account_inv ae (a\<lparr>auth_pubkey_options := po\<rparr>) = account_inv ae a"
  by (simp_all add: account_inv_def split: option.splits)

lemma handling_inv: "handling e ae s0 s \<Longrightarrow> account_inv ae (ses_authstate s)"
  by (simp add: handling_def auth_ses_ok_def)

lemma handling_creds: "handling e ae s0 s \<Longrightarrow> ses_creds s = ses_creds s0"
  by (simp add: handling_def)

lemma keeps_username_failed:
  "handling e ae s0 s \<Longrightarrow> auth_username (ses_authstate s) = Some u \<Longrightarrow>
    keeps (\<lambda>(valid, s'). handling e ae s0 s' \<and> \<not> valid) (username_failed s)"
  using handling_inv by (auto simp: username_failed_def upd_auth_def intro!: handling_auth)

lemma keeps_check_account:
  assumes h: "handling e ae s0 s" and u: "auth_username (ses_authstate s) = Some u"
  shows "keeps (\<lambda>(valid, s'). handling e ae s0 s' \<and> (valid \<longrightarrow> (\<exists>pw. valid_account ae ao s0 u s' pw))) (check_account ae ao s)"
proof -
  let ?a = "ses_authstate s"
  have f: "keeps (\<lambda>(valid, s'). handling e ae s0 s' \<and> (valid \<longrightarrow> (\<exists>pw. valid_account ae ao s0 u s' pw))) (username_failed s)"
    by (rule keeps_weaken [OF keeps_username_failed [OF h u]]) auto
  show ?thesis
  proof (cases "user_account ae u")
    case None
    then have "auth_pw_name ?a = None" using handling_inv [OF h] u by (simp add: account_inv_def)
    then show ?thesis using f h by (simp add: check_account_def Let_def)
  next
    case (Some pw)
    then have a: "is_account ?a pw" using handling_inv [OF h] u by (simp add: account_inv_def)
    have "keeps (\<lambda>(valid, s'). handling e ae s0 s' \<and> (valid \<longrightarrow> valid_account ae ao s0 u s' pw)) (Inr (True, s))"
      if "\<not> (cr_euid (ses_creds s) \<noteq> 0 \<and> cr_euid (ses_creds s) \<noteq> auth_pw_uid ?a)" "\<not> (ao_norootlogin ao \<and> auth_pw_uid ?a = 0)"
        "\<not> (case ao_restrict_group ao of None \<Rightarrow> False | Some gid \<Rightarrow> \<not> check_group_membership ae gid (pwd_name pw) (auth_pw_gid ?a))"
        "(if pwd_shell pw = [] then lit ''/bin/sh'' else pwd_shell pw) \<in> set (ae_usershells ae)"
      using that a u Some h check_group_sound [of ae _ "pwd_name pw" "auth_pw_gid ?a"] handling_creds [OF h]
      by (auto simp: valid_account_def may_login_def is_account_def)
    then show ?thesis using f h a unfolding check_account_def Let_def is_account_def by auto
  qed
qed

lemma keeps_checkusername:
  assumes h: "handling e ae s0 s"
  shows "keeps (\<lambda>(valid, s'). handling e ae s0 s' \<and> (valid \<longrightarrow> (\<exists>pw. valid_account ae ao s0 (cstr username) s' pw)))
     (checkusername ae ao username userlen s)"
proof (cases "auth_username (ses_authstate s)")
  case (Some u)
  then show ?thesis using h keeps_check_account [OF h Some, of ao] by (auto simp: checkusername_def)
next
  case None
  let ?s = "upd_auth (\<lambda>a. a\<lparr>auth_username := Some (cstr username)\<rparr>) (fill_passwd ae (cstr username) s)"
  have s: "?s = s\<lparr>ses_authstate := (ses_authstate (fill_passwd ae (cstr username) s))\<lparr>auth_username := Some (cstr username)\<rparr>\<rparr>"
    by (simp add: fill_passwd_def upd_auth_def Let_def split: option.splits)
  have f: "auth_authdone (ses_authstate (fill_passwd ae u s)) = auth_authdone (ses_authstate s)"
    "auth_authtypes (ses_authstate (fill_passwd ae u s)) = auth_authtypes (ses_authstate s)"
    "auth_failcount (ses_authstate (fill_passwd ae u s)) = auth_failcount (ses_authstate s)"
    "auth_pubkey_options (ses_authstate (fill_passwd ae u s)) = auth_pubkey_options (ses_authstate s)" for u
    by (simp_all add: fill_passwd_def upd_auth_def Let_def split: option.splits)
  have "handling e ae s0 ?s" unfolding s
    by (rule handling_auth [OF h]) (simp_all add: f None fill_passwd_account)
  from keeps_check_account [OF this, of "cstr username" ao] show ?thesis using h None by (simp add: checkusername_def upd_auth_def)
qed

section \<open>Failure and success\<close>

lemma runs_auth_types_buf: "runs buf_wf (auth_types_buf types)"
proof -
  have g: "buf_wf b \<Longrightarrow> unat n \<le> length src \<Longrightarrow> runs buf_wf (buf_putbytes b src n)" for b src n
    by (rule runs_weaken [OF runs_putbytes]) (auto simp: grown_def)
  have h: "buf_wf b \<Longrightarrow> runs buf_wf (buf_putbyte b c)" for b c
    by (rule runs_weaken [OF runs_putbyte]) (auto simp: grown_def)
  show ?thesis
    unfolding auth_types_buf_def
    apply (rule runs_rbind [OF runs_new])
    apply (rule runs_rbind [where Q = buf_wf])
     apply (rule runs_if)
      apply (rule runs_rbind [where Q = buf_wf], rule g, simp, simp add: lit_def)
      apply (rule runs_if, erule h, simp, simp)
    apply (rule runs_if, erule g, simp add: lit_def, simp)
    done
qed

text \<open>A session that differs from \<open>s\<close> only by what was sent and by a failure that was counted.\<close>

definition after_failure :: "'z env \<Rightarrow> auth_opts \<Rightarrow> bool \<Rightarrow> ('c, 'z) session \<Rightarrow> ('c, 'z) session \<Rightarrow> bool" where
  "after_failure e ao incrfail s s' \<longleftrightarrow> send_ok e s' \<and> ses_svr s' = ses_svr s \<and> ses_session_id s' = ses_session_id s
     \<and> ses_authstate s' = (ses_authstate s)\<lparr>auth_failcount := auth_failcount (ses_authstate s) + (if incrfail then 1 else 0)\<rparr>
     \<and> sleeps s' = sleeps s + (if incrfail then 1 else 0) \<and> auth_failcount (ses_authstate s') \<le> ao_maxauthtries ao"

lemma count_failure_fields:
  "ses_svr (count_failure e ae s) = ses_svr s" "ses_session_id (count_failure e ae s) = ses_session_id s"
  "ses_authstate (count_failure e ae s) = (ses_authstate s)\<lparr>auth_failcount := auth_failcount (ses_authstate s) + 1\<rparr>"
  "sleeps (count_failure e ae s) = sleeps s + 1" "send_ok e' (count_failure e ae s) = send_ok e' s"
  by (simp_all add: count_failure_def Let_def upd_auth_def log_event_def tick_def sleeps_def is_sleep_def send_ok_def trans_macsize_def)

lemma runs_failure:
  assumes "send_ok e s" shows "runs (after_failure e ao incrfail s) (send_msg_userauth_failure e ae ao partial incrfail s)"
proof -
  note w = send_ok_D(1) [OF assms]
  have m: "runs (grown (ses_writepayload s)) (rbind (buf_putbyte (ses_writepayload s) SSH_MSG_USERAUTH_FAILURE) (\<lambda>wp.
            rbind (auth_types_buf (auth_authtypes (ses_authstate s))) (\<lambda>typebuf.
            rbind (buf_putbufstring wp typebuf) (\<lambda>wp.
            buf_putbyte wp (if partial then 1 else 0)))))"
    unfolding buf_putbufstring_def
    apply (rule runs_rbind [OF runs_putbyte [OF w]])
    apply (rule runs_rbind [OF runs_auth_types_buf])
    apply (rule runs_rbind [OF runs_putstring], simp add: grown_def)
    subgoal for wp tb using buf_wf_bounds [of tb] by simp
    by (rule runs_weaken [OF runs_putbyte]) (auto simp: grown_def)
  have post: "runs (after_failure e ao incrfail s) (let s = (if incrfail then count_failure e ae s1 else s1) in
     if auth_failcount (ses_authstate s) > ao_maxauthtries ao then Inl (Exit ''Max auth tries reached - user %s'') else Inr s)"
    if "send_ok e s1 \<and> wp_empty s1 \<and> same_core s s1" for s1
    using that core_fields [of s s1] by (auto simp: Let_def after_failure_def count_failure_fields)
  have "runs (after_failure e ao incrfail s) (rbind (rbind (rbind (buf_putbyte (ses_writepayload s) SSH_MSG_USERAUTH_FAILURE) (\<lambda>wp.
            rbind (auth_types_buf (auth_authtypes (ses_authstate s))) (\<lambda>typebuf.
            rbind (buf_putbufstring wp typebuf) (\<lambda>wp.
            buf_putbyte wp (if partial then 1 else 0))))) (\<lambda>wp. encrypt_packet e (s\<lparr>ses_writepayload := wp\<rparr>))) (\<lambda>s1.
     let s = (if incrfail then count_failure e ae s1 else s1) in
     if auth_failcount (ses_authstate s) > ao_maxauthtries ao then Inl (Exit ''Max auth tries reached - user %s'') else Inr s))"
    by (rule runs_rbind [OF runs_send [OF assms m]]) (rule post)
  then show ?thesis unfolding send_msg_userauth_failure_def by (simp only: rbind_assoc)
qed

text \<open>The identity of the process after the change to the user; a server that does not run as root must be the user already.\<close>

definition became :: "creds \<Rightarrow> passwd \<Rightarrow> creds \<Rightarrow> bool" where
  "became c pw c' \<longleftrightarrow> cr_uid c' = pwd_uid pw \<and> cr_euid c' = pwd_uid pw
     \<and> (if cr_uid c = 0 then cr_gid c' = pwd_gid pw \<and> cr_egid c' = pwd_gid pw \<and> cr_groups c' = Some (pwd_name pw, pwd_gid pw) else c' = c)"

definition after_success :: "'z env \<Rightarrow> passwd \<Rightarrow> ('c, 'z) session \<Rightarrow> ('c, 'z) session \<Rightarrow> bool" where
  "after_success e pw s s' \<longleftrightarrow> send_ok e s' \<and> svr_banner (ses_svr s') = svr_banner (ses_svr s) \<and> ses_session_id s' = ses_session_id s
     \<and> ses_authstate s' = (ses_authstate s)\<lparr>auth_authdone := True\<rparr> \<and> sleeps s' = sleeps s \<and> became (ses_creds s) pw (ses_creds s')"

lemma sys_ids_cases:
  "sys_ids ae f s = (ok, s') \<Longrightarrow> ses_svr s' = (if ok then (ses_svr s)\<lparr>svr_creds := f (ses_creds s)\<rparr> else ses_svr s)
     \<and> ses_authstate s' = ses_authstate s \<and> ses_session_id s' = ses_session_id s \<and> sleeps s' = sleeps s \<and> send_ok e s' = send_ok e s
     \<and> ses_payload s' = ses_payload s \<and> ses_payload_beginning s' = ses_payload_beginning s"
  by (auto simp: sys_ids_def upd_creds_def tick_def sleeps_def send_ok_def trans_macsize_def split: if_splits)

lemma runs_switch_user:
  assumes "is_account (ses_authstate s) pw" "auth_authdone (ses_authstate s)" "cr_euid (ses_creds s) = cr_uid (ses_creds s)"
  shows "runs (\<lambda>s'. send_ok e s' = send_ok e s \<and> svr_banner (ses_svr s') = svr_banner (ses_svr s) \<and> ses_session_id s' = ses_session_id s
     \<and> ses_authstate s' = ses_authstate s \<and> sleeps s' = sleeps s \<and> became (ses_creds s) pw (ses_creds s')) (svr_switch_user ae s)"
proof (cases "cr_uid (ses_creds s) = 0")
  case True
  then show ?thesis using assms unfolding svr_switch_user_def dropbear_assert_def is_account_def
    by (simp add: sys_ids_def upd_creds_def tick_def Let_def sleeps_def send_ok_def trans_macsize_def became_def split: option.split)
next
  case False
  then show ?thesis using assms unfolding svr_switch_user_def dropbear_assert_def is_account_def
    by (simp add: became_def Let_def)
qed

lemma runs_success:
  assumes "send_ok e s" "is_account (ses_authstate s) pw" "cr_euid (ses_creds s) = cr_uid (ses_creds s)"
  shows "runs (after_success e pw s) (send_msg_userauth_success e ae s)"
proof -
  note w = send_ok_D(1) [OF assms(1)]
  have sw: "runs (after_success e pw s) (let s2 = upd_auth (\<lambda>a. a\<lparr>auth_authdone := True\<rparr>) s1 in
     rbind (svr_switch_user ae s2) (\<lambda>s. m_close e (svr_childpipe (ses_svr s)) (s\<lparr>ses_allowprivport := True\<rparr>)))"
    if c: "send_ok e s1 \<and> wp_empty s1 \<and> same_core s s1" for s1
  proof -
    let ?s = "upd_auth (\<lambda>a. a\<lparr>auth_authdone := True\<rparr>) s1"
    have f: "ses_svr s1 = ses_svr s" "ses_authstate s1 = ses_authstate s" "ses_session_id s1 = ses_session_id s" "sleeps s1 = sleeps s" "send_ok e s1"
      using core_fields [of s s1] c by simp_all
    have o: "is_account (ses_authstate ?s) pw" "auth_authdone (ses_authstate ?s)" "cr_euid (ses_creds ?s) = cr_uid (ses_creds ?s)"
      "send_ok e ?s = send_ok e s1" "sleeps ?s = sleeps s1"
      using assms(2,3) f(1,2) by (simp_all add: upd_auth_def send_ok_def trans_macsize_def sleeps_def)
    have u: "ses_svr ?s = ses_svr s1" "ses_session_id ?s = ses_session_id s1" "ses_authstate ?s = (ses_authstate s1)\<lparr>auth_authdone := True\<rparr>"
      by (simp_all add: upd_auth_def)
    show ?thesis
      unfolding Let_def
      apply (rule runs_rbind [OF runs_switch_user [OF o(1,2,3), where e = e]])
      unfolding o(4,5) u f(1-4)
      using f(5) by (auto simp: m_close_def after_success_def sleeps_def is_sleep_def log_event_def tick_def send_ok_def trans_macsize_def)
  qed
  show ?thesis
    unfolding send_msg_userauth_success_def
    by (rule runs_rbind [OF runs_send [OF assms(1) runs_putbyte [OF w]]]) (rule sw)
qed

section \<open>Public keys\<close>

text \<open>
  A key is authorised for an account: the directories of its \<^verbatim>\<open>authorized_keys\<close> can be trusted, the process with the identity of
  the user opens the file, and the file names the key, with the options \<open>po\<close>.
\<close>

definition user_creds :: "creds \<Rightarrow> passwd \<Rightarrow> creds" where
  "user_creds c pw = c\<lparr>cr_egid := pwd_gid pw, cr_euid := pwd_uid pw\<rparr>"

definition keys_path :: "auth_opts \<Rightarrow> passwd \<Rightarrow> bytes" where
  "keys_path ao pw = expand_homedir_path_home (ao_authorized_keys_dir ao) (Some (pwd_dir pw)) @ lit ''/authorized_keys''"

definition authorised :: "auth_env \<Rightarrow> auth_opts \<Rightarrow> creds \<Rightarrow> passwd \<Rightarrow> bytes \<Rightarrow> bytes \<Rightarrow> PubKeyOptions \<Rightarrow> bool" where
  "authorised ae ao c pw algo blob po \<longleftrightarrow>
     list_all (trusted ae (user_creds c pw) (pwd_uid pw)) (dirs_up (pwd_dir pw) (keys_path ao pw))
     \<and> (\<exists>f. ae_open ae (user_creds c pw) (keys_path ao pw) = Opened f
          \<and> file_value (ae_einval ae) 4200 f algo blob = Inr (Some po) \<and> names_key f algo blob)"

lemma options_value_total:
  assumes "\<And>o'. opts = Some o' \<Longrightarrow> length o' \<le> 4200" shows "\<exists>r. options_value einval opts = Inr r"
proof (cases opts)
  case (Some o')
  then have "buf_wf (text_buf o')" using assms text_buf_ok(2) by simp
  from parse_options_text [OF this, of einval] show ?thesis using Some by (auto simp: options_value_def)
qed (simp add: options_value_def svr_parse_pubkey_options_def)

lemma runs_key_value:
  assumes "\<And>o'. opts = Some o' \<Longrightarrow> length o' \<le> 4200" shows "runs (\<lambda>_. True) (key_value einval opts zs algo blob)"
proof -
  have "runs (\<lambda>_. True) (key_match tx blob algo)" for tx by (simp add: key_match_def split: sum.split)
  moreover obtain r where "options_value einval opts = Inr r" using options_value_total [OF assms, of _ einval] by blast
  ultimately show ?thesis unfolding key_value_def
    by (auto simp: Let_def split: prod.split intro!: runs_rbind [where Q = "\<lambda>_. True"])
qed

lemma split_options_length: "length (fst (split_options q e xs)) \<le> length xs"
  by (induction xs arbitrary: q e) (simp_all add: Let_def split_def del: not_less)

lemma runs_line_value: "runs (\<lambda>_. True) (line_value einval xs algo blob)"
proof (cases "length xs \<le> 4200")
  case True
  let ?ys = "dropWhile (\<lambda>c. c = 32 \<or> c = 9) xs"
  have "length ?ys \<le> length xs" by (rule length_dropWhile_le)
  then have "length (fst (split_options False False ?ys)) \<le> 4200" using split_options_length [of False False ?ys] True by linarith
  then show ?thesis unfolding line_value_def by (auto simp: Let_def intro!: runs_key_value split: prod.split)
qed (simp add: line_value_def)

lemma runs_file_value: "runs (\<lambda>_. True) (file_value einval n f algo blob)"
proof (induction einval n f algo blob rule: file_value.induct)
  case (1 einval n f algo blob)
  show ?case
  proof (cases "n = 0 \<or> next_line n f = None")
    case False
    then obtain w r where w: "n \<noteq> 0" "next_line n f = Some (w, r)" by auto
    have "runs (\<lambda>_. True) (case x of None \<Rightarrow> file_value einval n r algo blob | Some po \<Rightarrow> Inr (Some po))"
      if "line_value einval w algo blob = Inr x \<and> True" for x
      using "1.IH" [OF w(1,2) refl] that by (cases x) auto
    then show ?thesis using w by (subst file_value.simps) (auto intro!: runs_rbind [OF runs_ret [OF runs_line_value]])
  qed (subst file_value.simps, auto)
qed

lemma open_authkeys_keeps:
  assumes a: "is_account (ses_authstate s) pw"
  shows "keeps (\<lambda>(r, s'). ses_svr s' = ses_svr s \<and> ses_session_id s' = ses_session_id s \<and> sleeps s' = sleeps s
       \<and> send_ok e' s' = send_ok e' s \<and> ses_payload s' = ses_payload s \<and> ses_payload_beginning s' = ses_payload_beginning s
       \<and> (\<exists>w. ses_authstate s' = (ses_authstate s)\<lparr>auth_perm_warn := w\<rparr>)
       \<and> (\<forall>f. r = Some f \<longrightarrow> list_all (trusted ae (ses_creds s) (pwd_uid pw)) (dirs_up (pwd_dir pw) (keys_path ao pw))
            \<and> ae_open ae (ses_creds s) (keys_path ao pw) = Opened f)) (open_authkeys e ae ao s)"
proof -
  have d: "auth_pw_dir (ses_authstate s) = Some (pwd_dir pw)" "auth_pw_uid (ses_authstate s) = pwd_uid pw"
    using a by (simp_all add: is_account_def)
  obtain w where w: "checkpubkeyperms ae ao s = Inr (list_all (trusted ae (ses_creds s) (pwd_uid pw)) (dirs_up (pwd_dir pw) (authorized_keys_filepath ao s)), warned w s)"
    using checkpubkeyperms_eq [OF d(1), of ae ao] d(2) by auto
  have p: "authorized_keys_filepath ao s = keys_path ao pw" "authorized_keys_filepath ao (warned w s) = keys_path ao pw"
    using d(1) by (simp_all add: authorized_keys_filepath_def keys_path_def)
  have f: "ses_svr (warned w s) = ses_svr s" "ses_session_id (warned w s) = ses_session_id s" "sleeps (warned w s) = sleeps s"
    "send_ok e' (warned w s) = send_ok e' s" "ses_payload (warned w s) = ses_payload s"
    "ses_payload_beginning (warned w s) = ses_payload_beginning s" "\<exists>w'. ses_authstate (warned w s) = (ses_authstate s)\<lparr>auth_perm_warn := w'\<rparr>"
    by (auto simp: warned_def upd_auth_def sleeps_def send_ok_def trans_macsize_def intro: exI [of _ "auth_perm_warn (ses_authstate s)"])
  have c: "sleeps (log_event (EvClose fd) (tick s1)) = sleeps s1" "send_ok e' (log_event (EvClose fd) (tick s1)) = send_ok e' s1"
    "ses_svr (log_event (EvClose fd) (tick s1)) = ses_svr s1" "ses_session_id (log_event (EvClose fd) (tick s1)) = ses_session_id s1"
    "ses_payload (log_event (EvClose fd) (tick s1)) = ses_payload s1" "ses_payload_beginning (log_event (EvClose fd) (tick s1)) = ses_payload_beginning s1"
    "ses_authstate (log_event (EvClose fd) (tick s1)) = ses_authstate s1" for fd and s1 :: "('a, 'b) session"
    by (simp_all add: sleeps_def is_sleep_def log_event_def tick_def send_ok_def trans_macsize_def)
  show ?thesis
    unfolding open_authkeys_def w rbind_simps prod.case p f
    using f(7) by (simp add: m_close_def c f(1-6) split: open_result.split)
qed

end
