(* ===== verification/Sign_Key_Props.thy ===== *)
theory Sign_Key_Props
  imports Sign_Key Packet_Send Authorized_Keys_Spec
begin

text \<open>
  What the handling of keys and signatures guarantees: only points of the curve are accepted; the RSA padding is that of
  PKCS #1; what is signed verifies; keys survive writing and reading.
\<close>

section \<open>Writing\<close>

text \<open>A buffer of \<open>k\<close> bytes that holds \<open>xs\<close> so far.\<close>

definition filled :: "nat \<Rightarrow> bytes \<Rightarrow> buffer \<Rightarrow> bool" where
  "filled k xs b \<longleftrightarrow> at_end b \<and> buf_content b = xs \<and> unat (buf_size b) = k"

lemma filled_fits: "filled k xs b \<Longrightarrow> n \<le> 1000000000 \<Longrightarrow> length xs + n \<le> k \<Longrightarrow> buf_wf b \<and> buf_fits b n"
  using buf_content_length [of b] by (auto simp: filled_def at_end_def buf_fits_def)

lemma filled_put: "filled k xs b \<Longrightarrow> length xs + length bs \<le> k \<Longrightarrow> length bs \<le> 1000000000 \<Longrightarrow> filled k (xs @ bs) (buf_put b bs)"
  using filled_fits [of k xs b "length bs"] put_appends [of b bs] by (auto simp: filled_def appends_def)

lemma filled_new: "k \<le> 1000000000 \<Longrightarrow> unat n = k \<Longrightarrow> \<exists>b. buf_new n = Inr b \<and> filled k [] b"
  by (auto simp: filled_def at_end_def buf_new_eq buf_wf_def buf_content_def BUF_MAX_SIZE_def wnat)

lemma filled_putbyte: "filled k xs b \<Longrightarrow> length xs < k \<Longrightarrow> \<exists>b'. buf_putbyte b c = Inr b' \<and> filled k (xs @ [c]) b'"
  using filled_fits [of k xs b 1] filled_put [of k xs b "[c]"] by (auto simp: buf_putbyte_eq)

lemma filled_putint: "filled k xs b \<Longrightarrow> length xs + 4 \<le> k \<Longrightarrow> \<exists>b'. buf_putint b n = Inr b' \<and> filled k (xs @ store32h n) b'"
  using filled_fits [of k xs b 4] filled_put [of k xs b "store32h n"] by (auto simp: buf_putint_eq)

lemma filled_bound: "filled k xs b \<Longrightarrow> length xs \<le> k \<and> k \<le> 1000000000"
  using buf_content_length [of b] buf_wf_bounds [of b] by (auto simp: filled_def at_end_def)

lemma filled_putbytes:
  assumes "filled k xs b" "take (unat n) src = bs" "unat n \<le> length src" "length xs + length bs \<le> k"
  shows "\<exists>b'. buf_putbytes b src n = Inr b' \<and> filled k (xs @ bs) b'"
proof -
  have l: "length bs = unat n" using assms(2,3) by auto
  have f: "buf_wf b \<and> buf_fits b (unat n)" using filled_fits [OF assms(1), of "unat n"] filled_bound [OF assms(1)] assms(4) l by simp
  then show ?thesis using filled_put [OF assms(1,4)] filled_bound [OF assms(1)] assms(2,3,4) l by (simp add: buf_putbytes_eq)
qed

lemma filled_putstring:
  assumes "filled k xs b" "take (unat n) src = bs" "unat n \<le> length src" "length xs + 4 + length bs \<le> k"
  shows "\<exists>b'. buf_putstring b src n = Inr b' \<and> filled k (xs @ sshstr bs) b'"
proof -
  have l: "length bs = unat n" using assms(2,3) by auto
  obtain b1 where b1: "buf_putint b n = Inr b1" "filled k (xs @ store32h n) b1" using filled_putint [OF assms(1)] assms(4) by auto
  obtain b2 where "buf_putbytes b1 src n = Inr b2" "filled k ((xs @ store32h n) @ bs) b2"
    using filled_putbytes [OF b1(2) assms(2,3)] assms(4) by auto
  then show ?thesis using b1 l by (simp add: buf_putstring_def sshstr_def)
qed

lemma filled_putstring_all:
  assumes "filled k xs b" "length xs + 4 + length src \<le> k"
  shows "\<exists>b'. buf_putstring b src (of_nat (length src)) = Inr b' \<and> filled k (xs @ sshstr src) b'"
proof -
  have "unat (of_nat (length src) :: u32) = length src" using filled_bound [OF assms(1)] assms(2) by simp
  then show ?thesis using filled_putstring [OF assms(1) _ _ assms(2), of "of_nat (length src)" src] by simp
qed

lemma filled_putmpint:
  assumes "filled k xs b" "0 \<le> a" "length xs + 4 + length (mpint_bytes a) \<le> k"
  shows "\<exists>b'. buf_putmpint b a = Inr b' \<and> filled k (xs @ sshstr (mpint_bytes a)) b'"
proof -
  have f: "buf_wf b \<and> buf_fits b (4 + length (mpint_bytes a))"
    using filled_fits [OF assms(1), of "4 + length (mpint_bytes a)"] filled_bound [OF assms(1)] assms(3) by simp
  show ?thesis using filled_put [OF assms(1), of "sshstr (mpint_bytes a)"] filled_bound [OF assms(1)] assms(3) f
    by (simp add: buf_putmpint_eq [OF _ assms(2)] sshstr_def)
qed

lemma filled_put_bytes_n:
  "filled k xs b \<Longrightarrow> length xs + n \<le> k \<Longrightarrow> \<exists>b'. put_bytes_n n c b = Inr b' \<and> filled k (xs @ replicate n c) b'"
proof (induction n arbitrary: xs b)
  case (Suc n)
  obtain b1 where b1: "buf_putbyte b c = Inr b1" "filled k (xs @ [c]) b1" using filled_putbyte [OF Suc.prems(1)] Suc.prems(2) by auto
  then show ?case using Suc.IH [OF b1(2)] Suc.prems(2) by simp
qed auto

section \<open>RSA padding\<close>

text \<open>The encoded message of RFC 8017, section 9.2, for SHA-256 and a modulus of \<open>k\<close> bytes.\<close>

definition emsa_pkcs1 :: "nat \<Rightarrow> bytes \<Rightarrow> bytes" where
  "emsa_pkcs1 k h = [0x00, 0x01] @ replicate (k - length T_sha256 - length h - 3) 0xff @ [0x00] @ T_sha256 @ h"

lemma rsa_pad_em_value:
  assumes k: "mp_ubin_size (rsa_n key) = k" "54 \<le> k" "k \<le> 1000000" and d: "buf_wf data_buf"
    and h: "length (ke_hash ke Sha256 (buf_content data_buf)) = 32"
  shows "rsa_pad_em ke key data_buf DROPBEAR_SIGNATURE_RSA_SHA256 = Inr (mp_from_ubin (emsa_pkcs1 k (ke_hash ke Sha256 (buf_content data_buf))))"
proof -
  let ?h = "ke_hash ke Sha256 (buf_content data_buf)"
  have uk: "unat (of_nat k :: u32) = k" using k(3) by simp
  obtain b0 where b0: "buf_new (of_nat k) = Inr b0" "filled k [] b0" using filled_new [OF _ uk] k(3) by auto
  obtain b1 where b1: "buf_putbyte b0 0x00 = Inr b1" "filled k [0] b1" using filled_putbyte [OF b0(2), of 0] k(2) by auto
  obtain b2 where b2: "buf_putbyte b1 0x01 = Inr b2" "filled k [0, 1] b2" using filled_putbyte [OF b1(2), of 1] k(2) by auto
  have sz: "unat (buf_size b2) = k" "unat (buf_pos b2) = 2" using b2(2) buf_content_length [of b2] by (auto simp: filled_def at_end_def)
  obtain m where m: "k = m + 54" using k(2) by (metis add.commute le_Suc_ex)
  have n: "unat (buf_size b2 - 52 - buf_pos b2) = m"
    using sz m by (simp add: unat_sub32 wnat)
  obtain b3 where b3: "put_bytes_n (m) 0xff b2 = Inr b3" "filled k ([0, 1] @ replicate (m) 0xff) b3"
    using filled_put_bytes_n [OF b2(2), of "m" "0xff"] m by auto
  obtain b4 where b4: "buf_putbyte b3 0x00 = Inr b4" "filled k (([0, 1] @ replicate (m) 0xff) @ [0]) b4"
    using filled_putbyte [OF b3(2), of 0] m by auto
  have t: "length T_sha256 = 19" by (simp add: T_sha256_def)
  obtain b5 where b5: "buf_putbytes b4 T_sha256 19 = Inr b5" "filled k ((([0, 1] @ replicate (m) 0xff) @ [0]) @ T_sha256) b5"
    using filled_putbytes [OF b4(2), of 19 T_sha256 T_sha256] m t by auto
  obtain b6 where b6: "buf_putbytes b5 ?h 32 = Inr b6" "filled k (((([0, 1] @ replicate (m) 0xff) @ [0]) @ T_sha256) @ ?h) b6"
    using filled_putbytes [OF b5(2), of 32 ?h ?h] m t h by auto
  have all: "buf_all data_buf = Inr (buf_content data_buf)" using buf_wf_bounds [OF d] by (simp add: buf_all_def buf_content_def)
  have w: "rbind (buf_getwriteptr b5 32) (\<lambda>p. rbind (mem_write (buf_data b5) p ?h) (\<lambda>d. buf_incrwritepos (b5\<lparr>buf_data := d\<rparr>) 32)) = Inr b6"
    using b6(1) h by (simp add: buf_putbytes_def)
  have full: "buf_pos b6 = buf_size b6" "buf_content b6 = emsa_pkcs1 k ?h" "buf_wf b6" "unat (buf_size b6) = k" "buf_len b6 = buf_size b6"
    using b6(2) buf_content_length [of b6] m t h by (auto simp: filled_def at_end_def emsa_pkcs1_def word_unat_eq_iff)
  define c where "c = b6\<lparr>buf_pos := 0\<rparr>"
  have c: "buf_setpos b6 0 = Inr c" "buf_wf c" "buf_size c = buf_size b6" "buf_getptr c (buf_size b6) = Inr 0"
    "mem_read (buf_data c) 0 (unat (buf_size b6)) = Inr (emsa_pkcs1 k ?h)"
    using full buf_wf_bounds [OF full(3)] by (simp_all add: c_def buf_setpos_def buf_wf_def buf_getptr_def buf_content_def BUF_MAX_INCR_def BUF_MAX_SIZE_def not_less)
  have rest: "rbind (buf_getwriteptr b5 32) (\<lambda>p. rbind (mem_write (buf_data b5) p ?h) (\<lambda>d. rbind (buf_incrwritepos (b5\<lparr>buf_data := d\<rparr>) 32) f)) = f b6" for f :: "buffer \<Rightarrow> 'z res"
    using w by (simp flip: rbind_assoc)
  show ?thesis
    unfolding rsa_pad_em_def k(1)
    by (simp add: b0(1) b1(1) b2(1) n b3(1) b4(1) b5(1) all rest full(1) dropbear_assert_def c)
qed

section \<open>RSA signatures\<close>

lemma ubin_size_lower: "0 < a \<Longrightarrow> 256 ^ (mp_ubin_size a - 1) \<le> a"
proof -
  assume a: "0 < a"
  let ?c = "mp_count_bits a"
  have l: "2 ^ (?c - 1) \<le> nat a" using count_bits_lower [of "nat a"] a by (simp add: mp_count_bits_def)
  have "?c \<noteq> 0"
  proof
    assume "?c = 0"
    then have "nat a < 1" using count_bits_bound [of "nat a"] a by (simp add: mp_count_bits_def)
    then show False using a by simp
  qed
  then have "8 * (mp_ubin_size a - 1) \<le> ?c - 1" by (auto simp: mp_ubin_size_def Let_def) presburger
  then have "(2::nat) ^ (8 * (mp_ubin_size a - 1)) \<le> nat a" using l power_increasing [of "8 * (mp_ubin_size a - 1)" "?c - 1" "2 :: nat"] by linarith
  then have "(256::nat) ^ (mp_ubin_size a - 1) \<le> nat a" by (simp add: power_mult)
  then show ?thesis using a by (simp add: le_nat_iff)
qed

lemma emsa_less:
  assumes "mp_ubin_size n = k" "54 \<le> k" "length h = 32" "0 < n" shows "mp_from_ubin (emsa_pkcs1 k h) < n" "0 \<le> mp_from_ubin (emsa_pkcs1 k h)"
proof -
  define t where "t = replicate (k - length T_sha256 - length h - 3) 0xff @ [0x00] @ T_sha256 @ h"
  have l: "length t = k - 2" using assms(2,3) by (simp add: t_def T_sha256_def)
  have "ubin_value ([0, 1] @ t) = 256 ^ length t + ubin_value t" by (simp add: ubin_value_Cons)
  also have "\<dots> < 2 * 256 ^ (k - 2)" using ubin_value_less [of t] l by simp
  also have "\<dots> \<le> 256 ^ (k - 1)"
  proof -
    have "k - 1 = Suc (k - 2)" using assms(2) by simp
    then show ?thesis by simp
  qed
  finally have "int (ubin_value ([0, 1] @ t)) < 256 ^ (k - 1)" by (metis of_nat_less_iff of_nat_numeral of_nat_power)
  also have "\<dots> \<le> n" using ubin_size_lower [OF assms(4)] assms(1) by simp
  finally show "mp_from_ubin (emsa_pkcs1 k h) < n" by (simp add: mp_from_ubin_value emsa_pkcs1_def t_def)
  show "0 \<le> mp_from_ubin (emsa_pkcs1 k h)" by (simp add: mp_from_ubin_value)
qed

text \<open>
  The property of a pair of RSA keys on which signatures rely: raising to the private exponent, also when a multiple of the number
  \<^verbatim>\<open>phi(n) = n + 1 - p - q\<close> of the code was added to it, and to the public exponent gives the message back.
\<close>

definition rsa_pair :: "dropbear_rsa_key \<Rightarrow> bool" where
  "rsa_pair key \<longleftrightarrow> (\<exists>d p q. rsa_d key = Some d \<and> rsa_p key = Some p \<and> rsa_q key = Some q \<and> 0 \<le> rsa_e key \<and> 0 \<le> d
     \<and> p + q \<le> rsa_n key + 1
     \<and> (\<forall>x b. 0 \<le> b \<longrightarrow> (x ^ nat (d + b * (rsa_n key + 1 - p - q))) ^ nat (rsa_e key) mod rsa_n key = x mod rsa_n key))"

lemma rsa_blinding:
  assumes pair: "rsa_pair key" and n: "1 < rsa_n key"
    and r: "gen_random_mpint rnd i (rsa_n key) = Some (Inr (r, i1))" "mp_invmod r (rsa_n key) = Some r'"
    and b: "gen_random_mpint rnd i1 0xffffffffffffffff = Some (Inr (c, i2))" "0 \<le> c"
  shows "\<exists>s. rsa_sign_value rnd i key em = Some (Inr (s, i2)) \<and> 0 \<le> s \<and> s < rsa_n key \<and> s ^ nat (rsa_e key) mod rsa_n key = em mod rsa_n key"
proof -
  let ?n = "rsa_n key" let ?e = "nat (rsa_e key)"
  obtain d p q where k: "rsa_d key = Some d" "rsa_p key = Some p" "rsa_q key = Some q" "0 \<le> rsa_e key" "0 \<le> d" "p + q \<le> ?n + 1"
    and x: "\<And>x b. 0 \<le> b \<Longrightarrow> (x ^ nat (d + b * (?n + 1 - p - q))) ^ ?e mod ?n = x mod ?n"
    using pair unfolding rsa_pair_def by blast
  define D where "D = d + c * (?n + 1 - p - q)"
  have D: "0 \<le> D" unfolding D_def using k(5,6) b(2) by (intro add_nonneg_nonneg mult_nonneg_nonneg) simp_all
  define m where "m = (em * (r ^ ?e mod ?n)) mod ?n"
  define s where "s = (m ^ nat D mod ?n * r') mod ?n"
  have "rsa_sign_value rnd i key em = Some (Inr (s, i2))"
    using r b(1) k D n by (simp add: rsa_sign_value_def mp_exptmod_def rsa_error_def need_def Let_def s_def m_def D_def)
  moreover have "0 \<le> s" "s < ?n" using n by (simp_all add: s_def)
  moreover have "s ^ ?e mod ?n = em mod ?n"
  proof -
    have "s ^ ?e mod ?n = ((m ^ nat D) ^ ?e mod ?n * r' ^ ?e) mod ?n"
      by (simp add: s_def power_mod mod_simps power_mult_distrib)
    also have "\<dots> = (m * r' ^ ?e) mod ?n" using x [OF b(2), of m] by (simp add: D_def mod_simps)
    also have "\<dots> = (em * (r * r') ^ ?e) mod ?n" by (simp add: m_def mod_simps power_mult_distrib mult.assoc)
    also have "\<dots> = (em * ((r * r') mod ?n) ^ ?e) mod ?n" by (metis mod_mult_right_eq power_mod)
    also have "\<dots> = em mod ?n" using mp_invmod_sound(1) [OF r(2)] by simp
    finally show ?thesis .
  qed
  ultimately show ?thesis by blast
qed

text \<open>Verifying is the textbook equation: the signature is below the modulus and its power is the padded hash.\<close>

lemma rsa_verify_value:
  assumes k: "mp_ubin_size (rsa_n key) = k" "54 \<le> k" "k \<le> 1000000" and d: "buf_wf data_buf"
    and h: "length (ke_hash ke Sha256 (buf_content data_buf)) = 32" and b: "reads b (store32h slen @ sg)"
  shows "buf_rsa_verify ke b key DROPBEAR_SIGNATURE_RSA_SHA256 data_buf =
     Inr (unat slen = k \<and> mp_from_ubin sg < rsa_n key
       \<and> mp_from_ubin sg ^ nat (rsa_e key) mod rsa_n key = mp_from_ubin (emsa_pkcs1 k (ke_hash ke Sha256 (buf_content data_buf))), buf_adv b 4)"
proof -
  note g = getint_reads [OF b]
  define c where "c = buf_adv b 4"
  have c: "buf_wf c" "buf_rest c = sg" using g by (simp_all add: c_def reads_def)
  note bd = buf_wf_bounds [OF c(1)]
  have u: "unat (buf_len c - buf_pos c) = length sg" using buf_rest_length [OF c(1)] bd c(2) by (simp add: unat_sub wnat)
  have p: "buf_getptr c (buf_len c - buf_pos c) = Inr (unat (buf_pos c))"
    using buf_getptr_eq [OF c(1), of "buf_len c - buf_pos c"] u c(2) by simp
  have m: "mem_read (buf_data c) (unat (buf_pos c)) (unat (buf_len c - buf_pos c)) = Inr sg"
    using buf_read_eq [OF c(1), of "length sg"] c(2) u by simp
  have s: "slen = of_nat k \<longleftrightarrow> unat slen = k" using k(3) by (auto simp: word_unat_eq_iff)
  show ?thesis
    unfolding buf_rsa_verify_def g [THEN conjunct1] rbind_simps prod.case c_def [symmetric] k(1) s
    using p m rsa_pad_em_value [OF k d h] by (auto simp: Let_def)
qed

lemma ubin_size_mono:
  assumes "0 \<le> a" "a < b" shows "mp_ubin_size a \<le> mp_ubin_size b"
proof (cases "a = 0")
  case True
  have "mp_ubin_size 0 = 0" by code_simp
  then show ?thesis using True by simp
next
  case False
  have "256 ^ (mp_ubin_size a - 1) \<le> a" using False assms(1) by (intro ubin_size_lower) simp
  also have "a < b" by (rule assms(2))
  also have "b < 256 ^ mp_ubin_size b" using mp_ubin_size_bound [of b] assms by (simp add: nat_less_iff)
  finally have "mp_ubin_size a - 1 < mp_ubin_size b" by simp
  then show ?thesis by simp
qed

lemma mp_from_ubin_pad: "mp_from_ubin (replicate m 0 @ bs) = mp_from_ubin bs"
  by (induction m) (simp_all add: mp_from_ubin_value ubin_value_Cons)

text \<open>Writing through the pointer of \<^verbatim>\<open>buf_getwriteptr\<close> and advancing is \<^verbatim>\<open>buf_putbytes\<close>.\<close>

lemma filled_write:
  assumes "filled k xs b" "unat n = length bs" "length xs + length bs \<le> k"
  shows "\<exists>p d b'. buf_getwriteptr b n = Inr p \<and> mem_write (buf_data b) p bs = Inr d \<and> buf_incrwritepos (b\<lparr>buf_data := d\<rparr>) n = Inr b' \<and> filled k (xs @ bs) b'"
proof -
  obtain b' where "buf_putbytes b bs n = Inr b'" "filled k (xs @ bs) b'" using filled_putbytes [OF assms(1), of n bs bs] assms(2,3) by auto
  then show ?thesis using assms(2) by (auto simp: buf_putbytes_def rbind_Inr_iff)
qed

lemma rsa_sign_writes:
  assumes key: "mp_ubin_size (rsa_n key) = k" "54 \<le> k" "k \<le> 1000000" "1 < rsa_n key" and d: "buf_wf data_buf"
    and h: "length (ke_hash ke Sha256 (buf_content data_buf)) = 32" and b: "filled K xs b" "length xs + 20 + k \<le> K"
    and v: "rsa_sign_value rnd i key (mp_from_ubin (emsa_pkcs1 k (ke_hash ke Sha256 (buf_content data_buf)))) = Some (Inr (s, i2))" "0 \<le> s" "s < rsa_n key"
  shows "\<exists>b' sg. buf_put_rsa_sign ke rnd i b key DROPBEAR_SIGNATURE_RSA_SHA256 data_buf = Some (Inr b')
     \<and> filled K (xs @ sshstr (lit ''rsa-sha2-256'') @ sshstr sg) b' \<and> length sg = k \<and> mp_from_ubin sg = s"
proof -
  let ?name = "lit ''rsa-sha2-256''"
  have nm: "signature_name_from_type DROPBEAR_SIGNATURE_RSA_SHA256 = Inr ?name" by (simp add: signature_name_from_type_def)
  have ln: "length ?name = 12" by (simp add: lit_def)
  obtain b1 where b1: "buf_putstring b ?name (of_nat (length ?name)) = Inr b1" "filled K (xs @ sshstr ?name) b1"
    using filled_putstring [OF b(1), of "of_nat (length ?name)" ?name ?name] b(2) ln by auto
  have uk: "unat (of_nat k :: u32) = k" using key(3) by simp
  obtain b2 where b2: "buf_putint b1 (of_nat k) = Inr b2" "filled K ((xs @ sshstr ?name) @ store32h (of_nat k)) b2"
    using filled_putint [OF b1(2), of "of_nat k"] b(2) ln by auto
  have ss: "mp_ubin_size s \<le> k" using ubin_size_mono [OF v(2,3)] key(1) by simp
  have rm: "length xs + 20 + (k - mp_ubin_size s) \<le> K" "length xs + 20 + (k - mp_ubin_size s) + mp_ubin_size s \<le> K" using b(2) ss by simp_all
  obtain b3 where b3: "put_bytes_n (k - mp_ubin_size s) 0 b2 = Inr b3"
    "filled K (((xs @ sshstr ?name) @ store32h (of_nat k)) @ replicate (k - mp_ubin_size s) 0) b3"
    using filled_put_bytes_n [OF b2(2), of "k - mp_ubin_size s" 0] rm ln by auto
  define bs where "bs = mp_to_ubin_loop (mp_ubin_size s) (nat \<bar>s\<bar>) []"
  have bs: "mp_to_ubin s (mp_ubin_size s) = Some bs" by (simp add: mp_to_ubin_def bs_def)
  have lb: "length bs = mp_ubin_size s" "mp_from_ubin bs = s" using mp_to_ubin_length [OF bs] mp_from_to_ubin [OF bs] v(2) by simp_all
  have us: "unat (of_nat (mp_ubin_size s) :: u32) = length bs" using ss key(3) lb(1) by simp
  define sg where "sg = replicate (k - mp_ubin_size s) 0 @ bs"
  have sg: "length sg = k" "mp_from_ubin sg = s" using ss lb by (simp_all add: sg_def mp_from_ubin_pad)
  obtain p d b4 where b4: "buf_getwriteptr b3 (of_nat (mp_ubin_size s)) = Inr p" "mem_write (buf_data b3) p bs = Inr d"
    "buf_incrwritepos (b3\<lparr>buf_data := d\<rparr>) (of_nat (mp_ubin_size s)) = Inr b4"
    "filled K ((((xs @ sshstr ?name) @ store32h (of_nat k)) @ replicate (k - mp_ubin_size s) 0) @ bs) b4"
    using filled_write [OF b3(2) us] rm ln lb(1) by auto
  have "buf_put_rsa_sign ke rnd i b key DROPBEAR_SIGNATURE_RSA_SHA256 data_buf = Some (Inr b4)"
    unfolding buf_put_rsa_sign_def rsa_pad_em_value [OF key(1-3) d h] obind_simps v(1) prod.case nm rbind_simps b1(1) key(1) Let_def b2(1)
    using ss b3(1) b4(1-3) bs lb(1) by (simp add: dropbear_assert_def rsa_error_def)
  then show ?thesis using b4(4) sg by (intro exI [of _ b4] exI [of _ sg]) (simp add: sshstr_def sg_def)
qed

lemma filled_reads: "filled k xs b \<Longrightarrow> reads (b\<lparr>buf_pos := 0\<rparr>) xs"
  by (auto simp: filled_def at_end_def reads_def buf_wf_def buf_rest_def buf_content_def)

text \<open>Writing a blob that was made in a buffer of its own.\<close>

lemma filled_putbufstring:
  assumes "filled k xs b" "filled m ys c" "length xs + 4 + length ys \<le> k"
  shows "\<exists>b'. buf_putbufstring b c = Inr b' \<and> filled k (xs @ sshstr ys) b'"
proof -
  have c: "buf_wf c" "buf_content c = ys" using assms(2) by (simp_all add: filled_def)
  note bd = buf_wf_bounds [OF c(1)]
  have "take (unat (buf_len c)) (buf_data c) = ys" using c(2) by (simp add: buf_content_def)
  then show ?thesis using filled_putstring [OF assms(1) _ _ assms(3)] bd by (simp add: buf_putbufstring_def)
qed

lemma verify_dispatch:
  assumes "reads b (store32h n @ sshstr name @ t)" "length name \<le> 9000" "signature_type_from_name (name @ [0]) (of_nat (length name)) = sigtype"
    "signkey_type_from_signature sigtype = Inr DROPBEAR_SIGNKEY_RSA" "sk_rsakey key = Some rk"
  shows "\<exists>b'. reads b' t \<and> buf_verify ke b key sigtype data_buf = buf_rsa_verify ke b' rk sigtype data_buf"
proof -
  note g = getint_reads [OF assms(1)]
  note h = getstring_reads [OF conjunct2 [OF g] assms(2)]
  show ?thesis using assms(3-5) conjunct1 [OF g] h by (intro exI [of _ "buf_adv (buf_adv b 4) (4 + length name)"]) (simp add: buf_verify_def Let_def)
qed

lemma rsa_names:
  "signature_type_from_name (lit ''rsa-sha2-256'' @ [0]) (of_nat (length (lit ''rsa-sha2-256''))) = DROPBEAR_SIGNATURE_RSA_SHA256"
  "signkey_type_from_signature DROPBEAR_SIGNATURE_RSA_SHA256 = Inr DROPBEAR_SIGNKEY_RSA"
  by (simp_all add: signature_type_from_name_def same_name_def lit_def signkey_type_from_signature_def)

text \<open>
  C17. RSA signatures: with a pair of keys, and random numbers that the loops accept (the first without a common factor with the
  modulus), \<^verbatim>\<open>buf_put_sign\<close> returns, blinding cancels, and \<^verbatim>\<open>buf_verify\<close> accepts what was written for the same data.
\<close>

theorem rsa_sign_verify:
  assumes "sk_rsakey key = Some rk" "rsa_pair rk" "54 \<le> mp_ubin_size (rsa_n rk)" "mp_ubin_size (rsa_n rk) \<le> 512" "1 < rsa_n rk"
    "buf_wf data_buf" "\<And>d. length (ke_hash ke Sha256 d) = 32" "buf_new 1000 = Inr b"
    "gen_random_mpint rnd i (rsa_n rk) = Some (Inr (r, i1))" "mp_invmod r (rsa_n rk) = Some r'"
    "gen_random_mpint rnd i1 0xffffffffffffffff = Some (Inr (c, i2))" "0 \<le> c"
  shows "\<exists>b' b''. buf_put_sign ke rnd i eph b key DROPBEAR_SIGNATURE_RSA_SHA256 data_buf = Some (Inr b')
     \<and> buf_verify ke (b'\<lparr>buf_pos := 0\<rparr>) key DROPBEAR_SIGNATURE_RSA_SHA256 data_buf = Inr (True, b'')"
proof -
  define k em where "k = mp_ubin_size (rsa_n rk)" and "em = mp_from_ubin (emsa_pkcs1 k (ke_hash ke Sha256 (buf_content data_buf)))"
  have k: "mp_ubin_size (rsa_n rk) = k" "54 \<le> k" "k \<le> 1000000" "k \<le> 512" using assms(3,4) by (simp_all add: k_def)
  note h = assms(7) [of "buf_content data_buf"]
  obtain s where s: "rsa_sign_value rnd i rk em = Some (Inr (s, i2))" "0 \<le> s" "s < rsa_n rk" "s ^ nat (rsa_e rk) mod rsa_n rk = em mod rsa_n rk"
    using rsa_blinding [OF assms(2,5,9-12)] by blast
  have em: "em mod rsa_n rk = em" using emsa_less [OF k(1,2) h] assms(5) by (simp add: em_def)
  obtain sb where sb: "buf_new MAX_PUBKEY_SIZE = Inr sb" "filled 600 [] sb" using filled_new [of 600 MAX_PUBKEY_SIZE] by (auto simp: MAX_PUBKEY_SIZE_def)
  obtain sb' sg where w: "buf_put_rsa_sign ke rnd i sb rk DROPBEAR_SIGNATURE_RSA_SHA256 data_buf = Some (Inr sb')"
    "filled 600 (sshstr (lit ''rsa-sha2-256'') @ sshstr sg) sb'" "length sg = k" "mp_from_ubin sg = s"
    using rsa_sign_writes [OF k(1-3) assms(5,6) h sb(2) _ s(1) [unfolded em_def] s(2,3)] k(4) by auto
  have ln: "length (lit ''rsa-sha2-256'') = 12" by (simp add: lit_def)
  have b: "filled 1000 [] b" using filled_new [of 1000 1000] assms(8) by auto
  obtain b' where b': "buf_putbufstring b sb' = Inr b'" "filled 1000 (sshstr (sshstr (lit ''rsa-sha2-256'') @ sshstr sg)) b'"
    using filled_putbufstring [OF b w(2)] w(3) k(4) ln by auto
  have len: "buf_len sb' \<noteq> 0" using w(2) buf_content_length [of sb'] by (auto simp: filled_def)
  have sign: "buf_put_sign ke rnd i eph b key DROPBEAR_SIGNATURE_RSA_SHA256 data_buf = Some (Inr b')"
    using sb(1) rsa_names(2) assms(1) w(1) len b'(1) by (simp add: buf_put_sign_def need_def)
  have rd: "reads (b'\<lparr>buf_pos := 0\<rparr>) (store32h (of_nat (length (sshstr (lit ''rsa-sha2-256'') @ sshstr sg))) @ sshstr (lit ''rsa-sha2-256'') @ sshstr sg)"
    using filled_reads [OF b'(2)] by (simp only: sshstr_def [of "sshstr (lit ''rsa-sha2-256'') @ sshstr sg"] append_assoc)
  obtain b1 where b1: "reads b1 (sshstr sg)" "buf_verify ke (b'\<lparr>buf_pos := 0\<rparr>) key DROPBEAR_SIGNATURE_RSA_SHA256 data_buf
      = buf_rsa_verify ke b1 rk DROPBEAR_SIGNATURE_RSA_SHA256 data_buf"
    using verify_dispatch [OF rd _ rsa_names assms(1)] ln by auto
  have uk: "unat (of_nat k :: u32) = k" using k(3) by simp
  have "buf_rsa_verify ke b1 rk DROPBEAR_SIGNATURE_RSA_SHA256 data_buf = Inr (True, buf_adv b1 4)"
    using rsa_verify_value [OF k(1-3) assms(6) h, of b1 "of_nat k" sg] b1(1) w(3,4) s(3,4) em uk by (simp add: sshstr_def em_def)
  then show ?thesis using sign b1(2) by auto
qed

definition demo_rsa_key :: dropbear_rsa_key where
  "demo_rsa_key = \<lparr>rsa_n = 2 ^ 432 - 1, rsa_e = 1, rsa_d = Some 1, rsa_p = Some (2 ^ 432 - 1), rsa_q = Some 1\<rparr>"

definition demo_random :: "nat \<Rightarrow> nat \<Rightarrow> bytes" where
  "demo_random j n = replicate (n - 1) 0 @ [1]"

lemma demo_draw: "0 < n \<Longrightarrow> m < 8 \<Longrightarrow> draw m (demo_random j n) = 1"
proof (cases "n = 1")
  case True
  assume "m < 8"
  then have "m = 0 \<or> m = 1 \<or> m = 2 \<or> m = 3 \<or> m = 4 \<or> m = 5 \<or> m = 6 \<or> m = 7" by auto
  then show ?thesis using True by (auto simp: draw_def demo_random_def masks_def mp_from_ubin_def)
next
  case False
  assume "0 < n"
  then obtain k where "n = Suc (Suc k)" using False by (cases n; cases "n - 1") auto
  then show ?thesis using mp_from_ubin_pad [of "Suc k" "[1]"] by (simp add: draw_def demo_random_def mp_from_ubin_def)
qed

lemma demo_gen: "1 < bound \<Longrightarrow> mp_count_bits bound mod 8 = 0 \<Longrightarrow> gen_random_mpint demo_random i bound = Some (Inr (1, Suc i))"
proof -
  assume b: "1 < bound" "mp_count_bits bound mod 8 = 0"
  have "mp_count_bits bound \<noteq> 0"
  proof
    assume "mp_count_bits bound = 0"
    then have "nat bound < 1" using count_bits_bound [of "nat bound"] b by (simp add: mp_count_bits_def)
    then show False using b by simp
  qed
  then have l: "0 < mp_count_bits bound div 8" using b(2) by (auto simp: dvd_def elim!: dvdE simp flip: dvd_eq_mod_eq_0)
  have "draw (mp_count_bits bound) (demo_random i (mp_count_bits bound div 8)) = draw 0 (demo_random i (mp_count_bits bound div 8))"
    using b(2) by (simp add: draw_def)
  also have "\<dots> = 1" using demo_draw [OF l, of 0] by simp
  finally have "random_loop demo_random (mp_count_bits bound div 8) (mp_count_bits bound) bound i = Some (1, Suc i)"
    using b(1) by (subst random_loop.simps) simp
  then show ?thesis using l b(2) by (simp add: gen_random_mpint_def Let_def)
qed

lemma demo_bits: "0 < k \<Longrightarrow> mp_count_bits (2 ^ k - 1) = k"
proof -
  assume k: "0 < k"
  define q :: nat where "q = 2 ^ k - 1"
  have q: "nat \<bar>2 ^ k - 1 :: int\<bar> = q" "0 < q"
    using k one_less_power [of "2 :: nat" k] by (simp_all add: q_def nat_diff_distrib' nat_power_eq)
  have "q < 2 ^ count_bits q" "2 ^ (count_bits q - 1) \<le> q" using count_bits_bound count_bits_lower [OF q(2)] by simp_all
  moreover have "(2::nat) ^ k = Suc q" using q(2) by (simp add: q_def)
  ultimately have le: "(2::nat) ^ k \<le> 2 ^ count_bits q" "(2::nat) ^ (count_bits q - 1) < 2 ^ k" by linarith+
  have "k \<le> count_bits q" by (rule power_le_imp_le_exp [OF _ le(1)]) simp
  moreover have "count_bits q - 1 < k" by (rule power_less_imp_less_exp [OF _ le(2)]) simp
  ultimately have "count_bits q = k" using k by linarith
  then show ?thesis using q(1) by (simp add: mp_count_bits_def)
qed

lemma mp_invmod_one: "1 < m \<Longrightarrow> mp_invmod 1 m = Some 1"
proof -
  assume m: "1 < m"
  have "egcd 1 m = (1, 1, 0)"
    using m by (subst egcd.simps, subst egcd.simps, subst egcd.simps) simp
  then show ?thesis using m by (simp add: mp_invmod_def)
qed

theorem rsa_sign_verify_witness:
  "\<exists>b b' b''. buf_new 1000 = Inr b
     \<and> buf_put_sign demo_key_env demo_random 0 (\<lambda>_. None) b (new_sign_key\<lparr>sk_rsakey := Some demo_rsa_key\<rparr>) DROPBEAR_SIGNATURE_RSA_SHA256 (text_buf (lit ''data'')) = Some (Inr b')
     \<and> buf_verify demo_key_env (b'\<lparr>buf_pos := 0\<rparr>) (new_sign_key\<lparr>sk_rsakey := Some demo_rsa_key\<rparr>) DROPBEAR_SIGNATURE_RSA_SHA256 (text_buf (lit ''data'')) = Inr (True, b'')"
proof -
  let ?key = "new_sign_key\<lparr>sk_rsakey := Some demo_rsa_key\<rparr>"
  have n: "rsa_n demo_rsa_key = 2 ^ 432 - 1" by (simp add: demo_rsa_key_def)
  have bits: "mp_count_bits (rsa_n demo_rsa_key) = 432" "mp_count_bits 0xffffffffffffffff = 64" 
    using demo_bits [of 432] demo_bits [of 64] unfolding n by simp_all
  have sz: "mp_ubin_size (rsa_n demo_rsa_key) = 54" by (simp add: mp_ubin_size_def bits)
  have one: "1 < rsa_n demo_rsa_key" unfolding n by simp
  have inv: "mp_invmod 1 (rsa_n demo_rsa_key) = Some 1" using mp_invmod_one [OF one] .
  have pair: "rsa_pair demo_rsa_key" by (simp add: rsa_pair_def demo_rsa_key_def)
  have h: "length (ke_hash demo_key_env Sha256 d) = 32" for d by (simp add: demo_key_env_def hashsize_def)
  obtain b where b: "buf_new 1000 = Inr b" using filled_new [of 1000 1000] by auto
  have w: "buf_wf (text_buf (lit ''data''))" using text_buf_ok(2) [of "lit ''data''"] by (simp add: lit_def)
  have g: "gen_random_mpint demo_random 0 (rsa_n demo_rsa_key) = Some (Inr (1, 1))" "gen_random_mpint demo_random 1 0xffffffffffffffff = Some (Inr (1, 2))"
    using demo_gen [OF one, of 0] demo_gen [of "0xffffffffffffffff" 1] by (simp_all add: bits)
  show ?thesis using b rsa_sign_verify [of ?key demo_rsa_key "text_buf (lit ''data'')" demo_key_env, OF _ pair _ _ one w h b g(1) inv g(2)] by (auto simp: sz)
qed

section \<open>Points\<close>

definition on_curve :: "ltc_ecc_set_type \<Rightarrow> mp_int \<Rightarrow> mp_int \<Rightarrow> bool" where
  "on_curve dp x y \<longleftrightarrow> y ^ 2 mod dp_prime dp = (x ^ 3 - 3 * x + dp_B dp) mod dp_prime dp"

lemma ecc_is_point_value:
  assumes "0 < dp_prime (ec_dp key)" "0 \<le> dp_B (ec_dp key)" "dp_B (ec_dp key) < dp_prime (ec_dp key)"
  shows "ecc_is_point key = Inr (on_curve (ec_dp key) (ec_x key) (ec_y key))"
proof -
  let ?p = "dp_prime (ec_dp key)" let ?x = "ec_x key" let ?y = "ec_y key" let ?b = "dp_B (ec_dp key)"
  define t where "t = (?y * ?y - ?x * (?x * ?x mod ?p) + ?x + ?x + ?x) mod ?p"
  have t: "0 \<le> t" "t < ?p" using assms(1) by (simp_all add: t_def)
  have "ecc_is_point key = Inr (t = ?b)"
    unfolding ecc_is_point_def Let_def t_def [symmetric] using t by (simp add: add_while_neg.simps [of t] sub_while_ge.simps [of t])
  moreover have "t = ?b \<longleftrightarrow> on_curve (ec_dp key) ?x ?y"
  proof -
    have c: "?y * ?y - ?x * (?x * ?x) + ?x + ?x + ?x = ?y ^ 2 - (?x ^ 3 - 3 * ?x)" by (simp add: power2_eq_square power3_eq_cube mult.assoc)
    have "t = (?y * ?y - ?x * (?x * ?x) + ?x + ?x + ?x) mod ?p" 
      unfolding t_def by (intro mod_add_cong mod_diff_cong refl) (rule mod_mult_right_eq)
    also have "\<dots> = (?y ^ 2 - (?x ^ 3 - 3 * ?x)) mod ?p" unfolding c ..
    finally have tv: "t = (?y ^ 2 - (?x ^ 3 - 3 * ?x)) mod ?p" .
    have "t = ?b \<longleftrightarrow> (?y ^ 2 - (?x ^ 3 - 3 * ?x)) mod ?p = ?b mod ?p" using assms tv by simp
    also have "\<dots> \<longleftrightarrow> ?y ^ 2 mod ?p = (?x ^ 3 - 3 * ?x + ?b) mod ?p" by (simp add: mod_eq_dvd_iff algebra_simps)
    finally show ?thesis by (simp add: on_curve_def)
  qed
  ultimately show ?thesis by simp
qed

lemma curves_ok:
  assumes "curve \<in> set dropbear_ecc_curves" "cv_dp curve = Some dp"
  shows "0 < dp_prime dp" "0 \<le> dp_B dp" "dp_B dp < dp_prime dp" "unat (dp_size dp) \<le> 66" "1 < dp_order dp" "dp_order dp < 256 ^ 66"
    "unat (1 + 2 * dp_size dp) = 1 + 2 * unat (dp_size dp)" "curve_for_dp dp = Inr curve" "length (cv_name curve) = 8"
proof -
  have "list_all (\<lambda>c. case cv_dp c of None \<Rightarrow> True | Some dp \<Rightarrow> 0 < dp_prime dp \<and> 0 \<le> dp_B dp \<and> dp_B dp < dp_prime dp \<and> unat (dp_size dp) \<le> 66
      \<and> 1 < dp_order dp \<and> dp_order dp < 256 ^ 66 \<and> unat (1 + 2 * dp_size dp) = 1 + 2 * unat (dp_size dp) \<and> length (cv_name c) = 8) dropbear_ecc_curves"
    by code_simp
  then show "0 < dp_prime dp" "0 \<le> dp_B dp" "dp_B dp < dp_prime dp" "unat (dp_size dp) \<le> 66" "1 < dp_order dp" "dp_order dp < 256 ^ 66"
    "unat (1 + 2 * dp_size dp) = 1 + 2 * unat (dp_size dp)" "length (cv_name curve) = 8"
    using assms by (simp_all add: list_all_iff) (auto dest!: bspec)
  have "dp = ecc_set_256 \<or> dp = ecc_set_384 \<or> dp = ecc_set_521" "curve = dropbear_ecc_curves ! 0 \<and> dp = ecc_set_256 \<or> curve = dropbear_ecc_curves ! 1 \<and> dp = ecc_set_384
      \<or> curve = dropbear_ecc_curves ! 2 \<and> dp = ecc_set_521"
    using assms by (auto simp: dropbear_ecc_curves_def)
  moreover have "ecc_set_256 \<noteq> ecc_set_384" "ecc_set_256 \<noteq> ecc_set_521" "ecc_set_384 \<noteq> ecc_set_521"
    by (simp_all add: ecc_set_256_def ecc_set_384_def ecc_set_521_def)
  ultimately show "curve_for_dp dp = Inr curve" by (auto simp: curve_for_dp_def dropbear_ecc_curves_def)
qed

lemma raw_pubkey_value:
  assumes "curve \<in> set dropbear_ecc_curves" "cv_dp curve = Some dp" "buf_wf b" "buf_content b \<noteq> []"
  shows "\<exists>r. buf_get_ecc_raw_pubkey b curve = Inr r \<and> (\<forall>key. r = Some key \<longleftrightarrow>
    (\<exists>xs ys. buf_content b = 4 # xs @ ys \<and> length xs = unat (dp_size dp) \<and> length ys = unat (dp_size dp)
       \<and> key = \<lparr>ec_dp = dp, ec_x = mp_from_ubin xs, ec_y = mp_from_ubin ys, ec_z = 1, ec_k = 0\<rparr>
       \<and> mp_from_ubin xs \<noteq> 0 \<and> mp_from_ubin ys \<noteq> 0 \<and> on_curve dp (mp_from_ubin xs) (mp_from_ubin ys)))"
proof -
  note cv = curves_ok [OF assms(1,2)]
  let ?n = "unat (dp_size dp)"
  obtain f t where c: "buf_content b = f # t" using assms(4) by (cases "buf_content b") auto
  define b0 where "b0 = b\<lparr>buf_pos := 0\<rparr>"
  have b0: "buf_setpos b 0 = Inr b0" "reads b0 (f # t)" "buf_len b0 = buf_len b"
    using assms(3) c by (simp_all add: b0_def buf_setpos_def reads_def buf_wf_def buf_rest_def buf_content_def)
  have g: "buf_getbyte b0 = Inr (f, buf_adv b0 1)" "reads (buf_adv b0 1) t" using getbyte_reads [OF b0(2)] by simp_all
  have len: "buf_len b \<noteq> 1 + 2 * dp_size dp \<longleftrightarrow> length t \<noteq> 2 * ?n"
    using buf_content_length [OF assms(3)] c cv(7) by (auto simp: word_unat_eq_iff)
  show ?thesis
  proof (cases "f = 4 \<and> length t = 2 * ?n")
    case False
    then have "buf_get_ecc_raw_pubkey b curve = Inr None"
      unfolding buf_get_ecc_raw_pubkey_def assms(2) option.case Let_def b0(1) rbind_simps g(1) prod.case using len b0(3) by auto
    moreover have "\<not> (f # t = 4 # xs @ ys \<and> length xs = ?n \<and> length ys = ?n)" for xs ys using False by auto
    ultimately show ?thesis using c by (intro exI [of _ None]) auto
  next
    case True
    define xs ys where "xs = take ?n t" and "ys = drop ?n t"
    have t: "t = xs @ ys" "length xs = ?n" "length ys = ?n" using True by (simp_all add: xs_def ys_def)
    define b1 b2 where "b1 = buf_adv b0 1" and "b2 = buf_adv b1 ?n"
    have r1: "reads b1 (xs @ ys)" using g(2) t(1) by (simp add: b1_def)
    have r2: "reads b2 ys" using reads_adv [OF r1] t(2) by (simp add: b2_def)
    have l1: "buf_len b1 = 1 + 2 * dp_size dp" using len True b0(3) by (simp add: b1_def)
    have o1: "buf_getptr b1 (dp_size dp) = Inr (unat (buf_pos b1))" "mem_read (buf_data b1) (unat (buf_pos b1)) ?n = Inr xs" "buf_incrpos b1 (dp_size dp) = Inr b2"
      using r1 t buf_read_eq [of b1 ?n] by (simp_all add: reads_def buf_getptr_eq buf_incrpos_eq b2_def)
    have o2: "buf_getptr b2 (dp_size dp) = Inr (unat (buf_pos b2))" "mem_read (buf_data b2) (unat (buf_pos b2)) ?n = Inr ys" "buf_incrpos b2 (dp_size dp) = Inr (buf_adv b2 ?n)"
      using r2 t buf_read_eq [of b2 ?n] by (simp_all add: reads_def buf_getptr_eq buf_incrpos_eq)
    define key where "key = \<lparr>ec_dp = dp, ec_x = mp_from_ubin xs, ec_y = mp_from_ubin ys, ec_z = 1, ec_k = 0\<rparr>"
    have pt: "ecc_is_point key = Inr (on_curve dp (mp_from_ubin xs) (mp_from_ubin ys))" using ecc_is_point_value [of key] cv(1-3) by (simp add: key_def)
    have kf: "ec_x key = mp_from_ubin xs" "ec_y key = mp_from_ubin ys" by (simp_all add: key_def)
    have "buf_get_ecc_raw_pubkey b curve = Inr (if on_curve dp (mp_from_ubin xs) (mp_from_ubin ys) \<and> mp_from_ubin xs \<noteq> 0 \<and> mp_from_ubin ys \<noteq> 0 then Some key else None)"
      unfolding buf_get_ecc_raw_pubkey_def assms(2) option.case Let_def b0(1) rbind_simps g(1) prod.case b1_def [symmetric]
      using True l1 by (simp add: o1 o2 key_def [symmetric] pt kf)
    moreover have "(\<exists>xs' ys'. buf_content b = 4 # xs' @ ys' \<and> length xs' = ?n \<and> length ys' = ?n \<and> P xs' ys') \<longleftrightarrow> P xs ys" for P
    proof -
      have "((buf_content b = 4 # xs' @ ys' \<and> length xs' = ?n) \<and> length ys' = ?n) \<longleftrightarrow> xs' = xs \<and> ys' = ys" for xs' ys'
        using t True c by auto
      then have "(\<exists>xs' ys'. ((buf_content b = 4 # xs' @ ys' \<and> length xs' = ?n) \<and> length ys' = ?n) \<and> P xs' ys') \<longleftrightarrow> P xs ys" by simp
      then show ?thesis by (simp only: conj_assoc)
    qed
    ultimately show ?thesis by (simp add: key_def) blast
  qed
qed

text \<open>
  C19. A point is read exactly when it is given without compression, with the two coordinates in as many bytes as the curve has, when it
  satisfies the equation of the curve and no coordinate is zero; nothing else than an empty string ends the session. The coordinates are
  only compared modulo the prime: a coordinate that is not below it is accepted.
\<close>

theorem ecc_point_on_curve:
  assumes "curve \<in> set dropbear_ecc_curves" "cv_dp curve = Some dp" "buf_wf b" "buf_content b \<noteq> []"
  shows "\<exists>r. buf_get_ecc_raw_pubkey b curve = Inr r \<and> (\<forall>key. r = Some key \<longleftrightarrow>
    (\<exists>xs ys. buf_content b = 4 # xs @ ys \<and> length xs = unat (dp_size dp) \<and> length ys = unat (dp_size dp)
       \<and> key = \<lparr>ec_dp = dp, ec_x = mp_from_ubin xs, ec_y = mp_from_ubin ys, ec_z = 1, ec_k = 0\<rparr>
       \<and> mp_from_ubin xs \<noteq> 0 \<and> mp_from_ubin ys \<noteq> 0 \<and> on_curve dp (mp_from_ubin xs) (mp_from_ubin ys)))"
  by (rule raw_pubkey_value [OF assms])

text \<open>The base point of the curve \<^verbatim>\<open>nistp256\<close>.\<close>

definition gx256 :: bytes where
  "gx256 = [0x6B, 0x17, 0xD1, 0xF2, 0xE1, 0x2C, 0x42, 0x47, 0xF8, 0xBC, 0xE6, 0xE5, 0x63, 0xA4, 0x40, 0xF2,
     0x77, 0x03, 0x7D, 0x81, 0x2D, 0xEB, 0x33, 0xA0, 0xF4, 0xA1, 0x39, 0x45, 0xD8, 0x98, 0xC2, 0x96]"

definition gy256 :: bytes where
  "gy256 = [0x4F, 0xE3, 0x42, 0xE2, 0xFE, 0x1A, 0x7F, 0x9B, 0x8E, 0xE7, 0xEB, 0x4A, 0x7C, 0x0F, 0x9E, 0x16,
     0x2B, 0xCE, 0x33, 0x57, 0x6B, 0x31, 0x5E, 0xCE, 0xCB, 0xB6, 0x40, 0x68, 0x37, 0xBF, 0x51, 0xF5]"

theorem ecc_point_on_curve_witness:
  "\<exists>key. buf_get_ecc_raw_pubkey (text_buf (4 # gx256 @ gy256)) (hd dropbear_ecc_curves) = Inr (Some key) \<and> ec_x key = dp_Gx ecc_set_256"
proof -
  have v: "mp_from_ubin gx256 = dp_Gx ecc_set_256" "mp_from_ubin gy256 = dp_Gy ecc_set_256" "length gx256 = 32" "length gy256 = 32"
    by (simp_all add: gx256_def gy256_def mp_from_ubin_def ecc_set_256_def)
  have o: "on_curve ecc_set_256 (dp_Gx ecc_set_256) (dp_Gy ecc_set_256)" "dp_Gx ecc_set_256 \<noteq> 0" "dp_Gy ecc_set_256 \<noteq> 0" "unat (dp_size ecc_set_256) = 32"
    by (simp_all add: on_curve_def ecc_set_256_def)
  have c: "hd dropbear_ecc_curves \<in> set dropbear_ecc_curves" "cv_dp (hd dropbear_ecc_curves) = Some ecc_set_256" by (simp_all add: dropbear_ecc_curves_def)
  have b: "buf_wf (text_buf (4 # gx256 @ gy256))" "buf_content (text_buf (4 # gx256 @ gy256)) = 4 # gx256 @ gy256"
    using text_buf_ok(2,3) [of "4 # gx256 @ gy256"] v by simp_all
  obtain r where r: "buf_get_ecc_raw_pubkey (text_buf (4 # gx256 @ gy256)) (hd dropbear_ecc_curves) = Inr r"
    "\<And>key. r = Some key \<longleftrightarrow> (\<exists>xs ys. 4 # gx256 @ gy256 = 4 # xs @ ys \<and> length xs = 32 \<and> length ys = 32
       \<and> key = \<lparr>ec_dp = ecc_set_256, ec_x = mp_from_ubin xs, ec_y = mp_from_ubin ys, ec_z = 1, ec_k = 0\<rparr>
       \<and> mp_from_ubin xs \<noteq> 0 \<and> mp_from_ubin ys \<noteq> 0 \<and> on_curve ecc_set_256 (mp_from_ubin xs) (mp_from_ubin ys))"
    using ecc_point_on_curve [OF c b(1)] unfolding b(2) o(4) by auto
  have "r = Some \<lparr>ec_dp = ecc_set_256, ec_x = mp_from_ubin gx256, ec_y = mp_from_ubin gy256, ec_z = 1, ec_k = 0\<rparr>"
    unfolding r(2) using v o by (intro exI [of _ gx256] exI [of _ gy256]) simp
  then show ?thesis using r(1) v(1) by simp
qed

section \<open>ECDSA signatures\<close>

lemma sign_loop_value:
  assumes "\<And>i. i < j \<Longrightarrow> \<exists>k x. eph (i0 + i) = Some (k, x) \<and> x mod p = 0"
    "eph (i0 + j) = Some (k, Rx)" "Rx mod p \<noteq> 0" "mp_invmod k p = Some k'" "((e + (d * (Rx mod p)) mod p) mod p * k') mod p \<noteq> 0"
  shows "ecdsa_sign_loop eph i0 e d p = Some (Inr (Rx mod p, ((e + (d * (Rx mod p)) mod p) mod p * k') mod p))"
  using assms
proof (induction j arbitrary: i0)
  case 0
  then show ?case by (subst ecdsa_sign_loop.simps) (simp add: Let_def)
next
  case (Suc j)
  have "\<exists>k x. eph (Suc i0 + i) = Some (k, x) \<and> x mod p = 0" if "i < j" for i using Suc.prems(1) [of "Suc i"] that by simp
  then have "ecdsa_sign_loop eph (Suc i0) e d p = Some (Inr (Rx mod p, ((e + (d * (Rx mod p)) mod p) mod p * k') mod p))"
    using Suc.prems(2-5) by (intro Suc.IH) simp_all
  moreover obtain k0 x0 where "eph i0 = Some (k0, x0)" "x0 mod p = 0" using Suc.prems(1) [of 0] by auto
  ultimately show ?case by (subst ecdsa_sign_loop.simps) simp
qed

text \<open>The algebra of ECDSA: the two scalars of the verification combine to the ephemeral number.\<close>

lemma ecdsa_scalars:
  assumes k: "(k * k') mod p = 1" and s: "s = ((e + (d * r) mod p) mod p * k') mod p" and w: "(s * w) mod p = 1" and p: "1 < (p :: int)"
  shows "((e * w) mod p + (r * w) mod p * d) mod p = k mod p"
proof -
  have "(s * k) mod p = ((e + d * r) * (k * k')) mod p" unfolding s by (simp add: mod_simps algebra_simps)
  also have "\<dots> = ((e + d * r) * ((k * k') mod p)) mod p" by (simp add: mod_simps)
  finally have sk: "(s * k) mod p = (e + d * r) mod p" using k by simp
  have "((e * w) mod p + (r * w) mod p * d) mod p = (e * w + r * w * d) mod p" by (metis mod_add_eq mod_add_right_eq mod_mult_left_eq mod_add_left_eq)
  also have "\<dots> = ((e + d * r) * w) mod p" by (simp add: algebra_simps)
  also have "\<dots> = ((s * k) mod p * w) mod p" unfolding sk by (simp add: mod_simps)
  also have "\<dots> = ((s * w) mod p * k) mod p" by (simp add: mod_simps algebra_simps)
  finally show ?thesis using w by simp
qed

lemma getmpint_reads:
  assumes b: "reads b (sshstr (mpint_bytes a) @ t)" and a: "0 \<le> a" "length (mpint_bytes a) \<le> 1030"
  shows "buf_getmpint b = Inr (Some a, buf_adv b (4 + length (mpint_bytes a))) \<and> reads (buf_adv b (4 + length (mpint_bytes a))) t"
proof -
  define n where "n = length (mpint_bytes a)"
  have w: "buf_wf b" "buf_rest b = store32h (of_nat n) @ mpint_bytes a @ t" using b by (simp_all add: reads_def sshstr_def n_def)
  have u: "unat (of_nat n :: u32) = n" using a(2) by (simp add: n_def)
  have "buf_getmpint b = Inr (Some a, buf_adv b (4 + n))"
  proof (cases "a = 0")
    case True
    then show ?thesis using w by (simp add: buf_getmpint_eq mpint_bytes_def n_def)
  next
    case False
    then have n0: "n > 0" by (simp add: n_def mpint_bytes_length)
    then have n: "n > 0" "mpint_bytes a \<noteq> []" by (auto simp: n_def)
    moreover from n u have "(of_nat n :: u32) \<noteq> 0" by (metis unat_0 neq0_conv)
    ultimately show ?thesis
      using w u mpint_top_clear [OF False] a(2) mpint_bytes_value [OF a(1)] by (simp add: buf_getmpint_eq Let_def n_def)
  qed
  then show ?thesis using reads_adv [OF b] by (simp add: n_def)
qed

lemma mpint_bytes_small:
  assumes "0 \<le> a" "a < 256 ^ n" shows "length (mpint_bytes a) \<le> n + 1"
proof (cases "a = 0")
  case False
  have "2 ^ (mp_count_bits a - 1) \<le> nat a" using count_bits_lower [of "nat a"] False assms(1) by (simp add: mp_count_bits_def)
  also have "\<dots> < 2 ^ (8 * n)" using assms by (simp add: nat_less_iff power_mult)
  finally have "mp_count_bits a - 1 < 8 * n" by (rule power_less_imp_less_exp [rotated]) simp
  then show ?thesis using False by (simp add: mpint_bytes_length)
qed (simp add: mpint_bytes_def)

lemma ecdsa_params_reads:
  assumes b: "reads b (sshstr (sshstr (mpint_bytes r) @ sshstr (mpint_bytes s)))" and r: "0 \<le> r" "length (mpint_bytes r) \<le> 90" and s: "0 \<le> s" "length (mpint_bytes s) \<le> 90"
  shows "\<exists>b'. buf_get_ecdsa_verify_params b = Inr (Some (r, s), b')"
proof -
  let ?n = "length (sshstr (mpint_bytes r) @ sshstr (mpint_bytes s))"
  have l: "?n \<le> 200" using r(2) s(2) by simp
  have rd: "reads b (store32h (of_nat ?n) @ sshstr (mpint_bytes r) @ sshstr (mpint_bytes s) @ [])" using b by (simp add: sshstr_def)
  note g = getint_reads [OF rd]
  define b1 where "b1 = buf_adv b 4"
  have b1: "buf_getint b = Inr (of_nat ?n, b1)" "reads b1 (sshstr (mpint_bytes r) @ sshstr (mpint_bytes s) @ [])" using g by (simp_all add: b1_def)
  note g1 = getmpint_reads [OF b1(2) r(1)]
  define b2 where "b2 = buf_adv b1 (4 + length (mpint_bytes r))"
  have b2: "buf_getmpint b1 = Inr (Some r, b2)" "reads b2 (sshstr (mpint_bytes s) @ [])" using g1 r(2) by (simp_all add: b2_def)
  note g2 = getmpint_reads [OF b2(2) s(1)]
  define b3 where "b3 = buf_adv b2 (4 + length (mpint_bytes s))"
  have b3: "buf_getmpint b2 = Inr (Some s, b3)" using g2 s(2) by (simp add: b3_def)
  have "buf_pos b3 - buf_pos b1 = of_nat ?n" by (simp add: b3_def b2_def buf_adv_def)
  then show ?thesis unfolding buf_get_ecdsa_verify_params_def b1(1) rbind_simps prod.case Let_def b2(1) option.case b3 by auto
qed

text \<open>The dispatch of \<^verbatim>\<open>buf_verify\<close> for an ECDSA key.\<close>

lemma verify_dispatch_ecdsa:
  assumes "reads b (store32h n @ sshstr name @ t)" "length name \<le> 9000" "signature_type_from_name (name @ [0]) (of_nat (length name)) = ty"
    "signkey_type_from_signature ty = Inr ty" "signkey_is_ecdsa ty" "signkey_key_get key ty = Some ek"
  shows "\<exists>b'. reads b' t \<and> buf_verify ke b key ty data_buf = buf_ecdsa_verify ke b' ek data_buf"
proof -
  note g = getint_reads [OF assms(1)]
  note h = getstring_reads [OF conjunct2 [OF g] assms(2)]
  have "ty \<noteq> DROPBEAR_SIGNKEY_RSA" using assms(5) by (auto simp: signkey_is_ecdsa_def signkey_types)
  then show ?thesis using assms(3-6) conjunct1 [OF g] h
    by (intro exI [of _ "buf_adv (buf_adv b 4) (4 + length name)"]) (simp add: buf_verify_def Let_def)
qed

text \<open>The type of the ECDSA keys of a curve.\<close>

definition ecdsa_type :: "dropbear_ecc_curve \<Rightarrow> int" where
  "ecdsa_type curve = signkey_type_from_name (ecdsa_prefix @ cv_name curve) (of_nat (length (ecdsa_prefix @ cv_name curve)))"

lemma ecdsa_type_ok:
  assumes "curve \<in> set dropbear_ecc_curves"
  shows "signature_type_from_name ((ecdsa_prefix @ cv_name curve) @ [0]) (of_nat (length (ecdsa_prefix @ cv_name curve))) = ecdsa_type curve"
    "signkey_type_from_signature (ecdsa_type curve) = Inr (ecdsa_type curve)" "signkey_is_ecdsa (ecdsa_type curve)"
    "length (ecdsa_prefix @ cv_name curve) = 19"
  using assms by (auto simp: dropbear_ecc_curves_def ecdsa_type_def signature_type_from_name_def signkey_type_from_name_def signkey_names_def same_name_def
      ecdsa_prefix_def lit_def signkey_type_from_signature_def signkey_is_ecdsa_def signkey_types dropbear_assert_def)

lemma filled_append: "filled k xs b \<Longrightarrow> filled k ys b \<longleftrightarrow> ys = xs"
  by (auto simp: filled_def)

lemma ecdsa_sign_writes:
  assumes curve: "curve \<in> set dropbear_ecc_curves" "cv_dp curve = Some (ec_dp key)" and d: "buf_wf data_buf"
    and b: "filled K [] b" "250 \<le> K"
    and v: "ecdsa_sign_loop eph 0 (mp_from_ubin (ke_hash ke (cv_hash_desc curve) (buf_content data_buf))) (ec_k key) (dp_order (ec_dp key)) = Some (Inr (r, s))"
    and r: "0 \<le> r" "length (mpint_bytes r) \<le> 90" and s: "0 \<le> s" "length (mpint_bytes s) \<le> 90"
  shows "\<exists>b'. buf_put_ecdsa_sign ke eph b key data_buf = Some (Inr b')
     \<and> filled K (sshstr (ecdsa_prefix @ cv_name curve) @ sshstr (sshstr (mpint_bytes r) @ sshstr (mpint_bytes s))) b'"
proof -
  let ?id = "ecdsa_prefix @ cv_name curve"
  have all: "buf_all data_buf = Inr (buf_content data_buf)" using buf_wf_bounds [OF d] by (simp add: buf_all_def buf_content_def)
  note l = ecdsa_type_ok(4) [OF curve(1)]
  have room: "length [] + 4 + length ?id \<le> K" unfolding l using b(2) by simp
  obtain b1 where b1: "buf_putstring b ?id (of_nat (length ?id)) = Inr b1" "filled K (sshstr ?id) b1"
    using filled_putstring_all [OF b(1) room] by (metis append_Nil)
  obtain c0 where c0: "buf_new 200 = Inr c0" "filled 200 [] c0" using filled_new [of 200 200] by auto
  obtain c1 where c1: "buf_putmpint c0 r = Inr c1" "filled 200 (sshstr (mpint_bytes r)) c1" using filled_putmpint [OF c0(2) r(1)] r(2) by auto
  obtain c2 where c2: "buf_putmpint c1 s = Inr c2" "filled 200 (sshstr (mpint_bytes r) @ sshstr (mpint_bytes s)) c2"
    using filled_putmpint [OF c1(2) s(1)] r(2) s(2) by auto
  obtain b2 where b2: "buf_putbufstring b1 c2 = Inr b2" "filled K (sshstr ?id @ sshstr (sshstr (mpint_bytes r) @ sshstr (mpint_bytes s))) b2"
    using filled_putbufstring [OF b1(2) c2(2)] b(2) l r(2) s(2) by auto
  show ?thesis
    unfolding buf_put_ecdsa_sign_def curves_ok(8) [OF curve] obind_simps all Let_def v prod.case
    using b1(1) c0(1) c1(1) c2(1) b2 by simp
qed

lemma signkey_get_ecdsa: "signkey_is_ecdsa ty \<Longrightarrow> ty \<noteq> DROPBEAR_SIGNKEY_RSA"
  by (auto simp: signkey_is_ecdsa_def signkey_types)

text \<open>
  What signatures rely on of the arithmetic of points: \<open>X k\<close> is the x coordinate of the multiple \<open>k\<close> of the base point, and adding multiples of
  the base point and of the public key of \<open>key\<close> adds the scalars.
\<close>

definition point_mult :: "key_env \<Rightarrow> ecc_key \<Rightarrow> (mp_int \<Rightarrow> mp_int) \<Rightarrow> bool" where
  "point_mult ke key X \<longleftrightarrow> (\<forall>u1 u2. ke_mul2add ke (ec_dp key) u1 (ec_x key, ec_y key, ec_z key) u2 = Some (X ((u1 + u2 * ec_k key) mod dp_order (ec_dp key))))"

text \<open>
  C18. ECDSA signatures: the loop of \<^verbatim>\<open>buf_put_ecdsa_sign\<close> returns once an ephemeral key gives numbers that are not zero, and
  \<^verbatim>\<open>buf_verify\<close> accepts what was written for the same data, for every curve.
\<close>

theorem ecdsa_sign_verify:
  assumes "curve \<in> set dropbear_ecc_curves" "cv_dp curve = Some (ec_dp ek)" "signkey_key_get key (ecdsa_type curve) = Some ek" "point_mult ke ek X"
    "buf_wf data_buf" "buf_new 1000 = Inr b"
    "\<forall>i<j. \<exists>k x. eph i = Some (k, x) \<and> x mod dp_order (ec_dp ek) = 0" "eph j = Some (k, X k)" "0 \<le> k" "k < dp_order (ec_dp ek)"
    "mp_invmod k (dp_order (ec_dp ek)) = Some k'"
    "r = X k mod dp_order (ec_dp ek)" "r \<noteq> 0" "e = mp_from_ubin (ke_hash ke (cv_hash_desc curve) (buf_content data_buf))"
    "mp_invmod (((e + (ec_k ek * r) mod dp_order (ec_dp ek)) mod dp_order (ec_dp ek) * k') mod dp_order (ec_dp ek)) (dp_order (ec_dp ek)) = Some w"
  shows "\<exists>b' b''. buf_put_sign ke rnd i eph b key (ecdsa_type curve) data_buf = Some (Inr b')
     \<and> buf_verify ke (b'\<lparr>buf_pos := 0\<rparr>) key (ecdsa_type curve) data_buf = Inr (True, b'')"
proof -
  define p s where "p = dp_order (ec_dp ek)" and "s = ((e + (ec_k ek * r) mod p) mod p * k') mod p"
  note cv = curves_ok [OF assms(1,2), folded p_def] and ty = ecdsa_type_ok [OF assms(1)]
  have kk: "(k * k') mod p = 1" and sw: "(s * w) mod p = 1" using mp_invmod_sound(1) assms(11,15) by (simp_all add: p_def s_def)
  have rs: "0 \<le> r" "r < p" "0 \<le> s" "s < p" "s \<noteq> 0" using assms(12) cv(5) sw by (auto simp: p_def [symmetric] s_def)
  have small: "length (mpint_bytes r) \<le> 90" "length (mpint_bytes s) \<le> 90"
    using mpint_bytes_small [of r 66] mpint_bytes_small [of s 66] rs cv(6) by auto
  have loop: "ecdsa_sign_loop eph 0 e (ec_k ek) p = Some (Inr (r, s))"
    using sign_loop_value [of j eph 0 p k "X k" k' e "ec_k ek"] assms(7,8,11,12,13) rs(5) by (simp add: p_def [symmetric] s_def)
  obtain sb where sb: "buf_new MAX_PUBKEY_SIZE = Inr sb" "filled 600 [] sb" using filled_new [of 600 MAX_PUBKEY_SIZE] by (auto simp: MAX_PUBKEY_SIZE_def)
  let ?sig = "sshstr (ecdsa_prefix @ cv_name curve) @ sshstr (sshstr (mpint_bytes r) @ sshstr (mpint_bytes s))"
  obtain sb' where w: "buf_put_ecdsa_sign ke eph sb ek data_buf = Some (Inr sb')" "filled 600 ?sig sb'"
    using ecdsa_sign_writes [OF assms(1,2,5) sb(2) _ loop [unfolded assms(14) p_def] rs(1) small(1) rs(3) small(2)] by auto
  have b: "filled 1000 [] b" using filled_new [of 1000 1000] assms(6) by auto
  obtain b' where b': "buf_putbufstring b sb' = Inr b'" "filled 1000 (sshstr ?sig) b'"
    using filled_putbufstring [OF b w(2)] filled_bound [OF w(2)] by auto
  have len: "buf_len sb' \<noteq> 0" using w(2) buf_content_length [of sb'] by (auto simp: filled_def)
  have sign: "buf_put_sign ke rnd i eph b key (ecdsa_type curve) data_buf = Some (Inr b')"
    using sb(1) ty(2,3) signkey_get_ecdsa [OF ty(3)] assms(3) w(1) len b'(1) by (simp add: buf_put_sign_def)
  have rd: "reads (b'\<lparr>buf_pos := 0\<rparr>) (store32h (of_nat (length ?sig)) @ sshstr (ecdsa_prefix @ cv_name curve) @ sshstr (sshstr (mpint_bytes r) @ sshstr (mpint_bytes s)))"
    using filled_reads [OF b'(2)] by (simp only: sshstr_def [of ?sig] append_assoc)
  obtain b1 where b1: "reads b1 (sshstr (sshstr (mpint_bytes r) @ sshstr (mpint_bytes s)))"
    "buf_verify ke (b'\<lparr>buf_pos := 0\<rparr>) key (ecdsa_type curve) data_buf = buf_ecdsa_verify ke b1 ek data_buf"
    using verify_dispatch_ecdsa [OF rd _ ty(1-3) assms(3)] ty(4) by auto
  obtain b2 where b2: "buf_get_ecdsa_verify_params b1 = Inr (Some (r, s), b2)" using ecdsa_params_reads [OF b1(1) rs(1) small(1) rs(3) small(2)] by blast
  have all: "buf_all data_buf = Inr (buf_content data_buf)" using buf_wf_bounds [OF assms(5)] by (simp add: buf_all_def buf_content_def)
  have "((e * w) mod p + (r * w) mod p * ec_k ek) mod p = k" using ecdsa_scalars [OF kk s_def sw cv(5)] assms(9,10) by (simp add: p_def)
  then have "ke_mul2add ke (ec_dp ek) ((e * w) mod p) (ec_x ek, ec_y ek, ec_z ek) ((r * w) mod p) = Some (X k)"
    using assms(4) by (simp add: point_mult_def p_def)
  moreover have inv: "mp_invmod s p = Some w" using assms(15) by (simp only: s_def p_def)
  moreover have "\<not> (r = 0 \<or> s = 0 \<or> \<not> r < p \<or> \<not> s < p)" using rs assms(13) by simp
  moreover have "X k mod p = r" using assms(12) by (simp add: p_def)
  ultimately have "buf_ecdsa_verify ke b1 ek data_buf = Inr (True, b2)"
    unfolding buf_ecdsa_verify_def curves_ok(8) [OF assms(1,2)] rbind_simps b2 prod.case option.case all Let_def p_def [symmetric] assms(14) [symmetric] by simp
  then show ?thesis using sign b1(2) by auto
qed

definition demo_ecc_key :: ecc_key where
  "demo_ecc_key = \<lparr>ec_dp = ecc_set_256, ec_x = dp_Gx ecc_set_256, ec_y = dp_Gy ecc_set_256, ec_z = 1, ec_k = 1\<rparr>"

definition demo_ecc_env :: key_env where
  "demo_ecc_env = demo_key_env\<lparr>ke_mul2add := \<lambda>dp u1 _ u2. Some ((u1 + u2) mod dp_order dp)\<rparr>"

theorem ecdsa_sign_verify_witness:
  "\<exists>b b' b''. buf_new 1000 = Inr b
     \<and> buf_put_sign demo_ecc_env demo_random 0 (\<lambda>_. Some (1, 1)) b (new_sign_key\<lparr>sk_ecckey256 := Some demo_ecc_key\<rparr>) (ecdsa_type (hd dropbear_ecc_curves)) (text_buf (lit ''data'')) = Some (Inr b')
     \<and> buf_verify demo_ecc_env (b'\<lparr>buf_pos := 0\<rparr>) (new_sign_key\<lparr>sk_ecckey256 := Some demo_ecc_key\<rparr>) (ecdsa_type (hd dropbear_ecc_curves)) (text_buf (lit ''data'')) = Inr (True, b'')"
proof -
  let ?c = "hd dropbear_ecc_curves" let ?p = "dp_order (ec_dp demo_ecc_key)"
  have c: "?c \<in> set dropbear_ecc_curves" "cv_dp ?c = Some (ec_dp demo_ecc_key)" by (simp_all add: dropbear_ecc_curves_def demo_ecc_key_def)
  note cv = curves_ok [OF c]
  have k: "signkey_key_get (new_sign_key\<lparr>sk_ecckey256 := Some demo_ecc_key\<rparr>) (ecdsa_type ?c) = Some demo_ecc_key"
    by (simp add: signkey_key_get_def ecdsa_type_def dropbear_ecc_curves_def signkey_type_from_name_def signkey_names_def same_name_def ecdsa_prefix_def lit_def signkey_types)
  have pm: "point_mult demo_ecc_env demo_ecc_key (\<lambda>x. x)" by (simp add: point_mult_def demo_ecc_env_def demo_ecc_key_def)
  obtain b where b: "buf_new 1000 = Inr b" using filled_new [of 1000 1000] by auto
  have w: "buf_wf (text_buf (lit ''data''))" using text_buf_ok(2) [of "lit ''data''"] by (simp add: lit_def)
  have h: "mp_from_ubin (ke_hash demo_ecc_env (cv_hash_desc ?c) (buf_content (text_buf (lit ''data'')))) = 0"
    using mp_from_ubin_pad [of _ "[]"] by (simp add: demo_ecc_env_def demo_key_env_def mp_from_ubin_def)
  have one: "1 mod ?p = 1" "mp_invmod 1 ?p = Some 1" using cv(5) mp_invmod_one by simp_all
  have s: "mp_invmod (((0 + (ec_k demo_ecc_key * 1) mod ?p) mod ?p * 1) mod ?p) ?p = Some 1"
    using one by (simp add: demo_ecc_key_def)
  show ?thesis
    using b ecdsa_sign_verify [OF c k pm w b, of 0 "\<lambda>_. Some (1, 1)" 1 1 1 0 1 demo_random 0] cv(5) one h s by auto
qed

section \<open>Round trips of public keys\<close>

lemma decrpos_adv:
  assumes "buf_wf b" "m \<le> length (buf_rest b)" "unat n = m" shows "buf_decrpos (buf_adv b m) n = Inr b"
proof -
  have m: "of_nat m = n" by (simp flip: assms(3))
  have "unat (buf_pos b + n) = unat (buf_pos b) + m"
    using buf_rest_length [OF assms(1)] buf_wf_bounds [OF assms(1)] assms(2,3) by (subst unat_add32) auto
  then show ?thesis using assms(3) by (simp add: buf_decrpos_def buf_adv_def m wnat)
qed

lemma getstring_rewind:
  assumes "reads b (sshstr name @ t)" "length name \<le> 9000"
  shows "buf_getstring b = Inr (name @ [0], of_nat (length name), buf_adv b (4 + length name))"
    "buf_decrpos (buf_adv b (4 + length name)) (of_nat (length name) + 4) = Inr b"
proof -
  show "buf_getstring b = Inr (name @ [0], of_nat (length name), buf_adv b (4 + length name))" using getstring_reads [OF assms] by simp
  have "unat (of_nat (length name) + 4 :: u32) = 4 + length name" using assms(2) by (subst unat_add32) simp_all
  then show "buf_decrpos (buf_adv b (4 + length name)) (of_nat (length name) + 4) = Inr b"
    using assms(1) by (intro decrpos_adv) (auto simp: reads_def)
qed

text \<open>The encodings of RFC 4253, RFC 5656 and RFC 8709.\<close>

definition rsa_blob :: "dropbear_rsa_key \<Rightarrow> bytes" where
  "rsa_blob key = sshstr (lit ''ssh-rsa'') @ sshstr (mpint_bytes (rsa_e key)) @ sshstr (mpint_bytes (rsa_n key))"

definition pad_ubin :: "nat \<Rightarrow> mp_int \<Rightarrow> bytes" where
  "pad_ubin n x = replicate (n - mp_ubin_size x) 0 @ mp_to_ubin_loop (mp_ubin_size x) (nat \<bar>x\<bar>) []"

definition ecdsa_blob :: "dropbear_ecc_curve \<Rightarrow> ecc_key \<Rightarrow> bytes" where
  "ecdsa_blob curve key = sshstr (ecdsa_prefix @ cv_name curve) @ sshstr (cv_name curve)
     @ sshstr (4 # pad_ubin (unat (dp_size (ec_dp key))) (ec_x key) @ pad_ubin (unat (dp_size (ec_dp key))) (ec_y key))"

definition ed25519_blob :: "dropbear_ed25519_key \<Rightarrow> bytes" where
  "ed25519_blob key = sshstr (lit ''ssh-ed25519'') @ sshstr (ed_pub key)"

definition rsa_key_ok :: "dropbear_rsa_key \<Rightarrow> bool" where
  "rsa_key_ok key \<longleftrightarrow> 0 \<le> rsa_n key \<and> 0 \<le> rsa_e key \<and> 1024 \<le> mp_count_bits (rsa_n key) \<and> mp_count_bits (rsa_n key) \<le> 4096 \<and> mp_count_bits (rsa_e key) \<le> 64"

definition ecc_key_ok :: "dropbear_ecc_curve \<Rightarrow> ecc_key \<Rightarrow> bool" where
  "ecc_key_ok curve key \<longleftrightarrow> cv_dp curve = Some (ec_dp key) \<and> 0 < ec_x key \<and> 0 < ec_y key \<and> ec_z key = 1
     \<and> mp_ubin_size (ec_x key) \<le> unat (dp_size (ec_dp key)) \<and> mp_ubin_size (ec_y key) \<le> unat (dp_size (ec_dp key))
     \<and> on_curve (ec_dp key) (ec_x key) (ec_y key)"

lemma mpint_len: "length (mpint_bytes a) \<le> mp_count_bits a div 8 + 1"
  by (simp add: mpint_bytes_length)

lemma rsa_blob_written:
  assumes "rsa_key_ok key" "filled 600 [] b" shows "\<exists>b'. buf_put_rsa_pub_key b key = Inr b' \<and> filled 600 (rsa_blob key) b'"
proof -
  have l: "length (mpint_bytes (rsa_e key)) \<le> 9" "length (mpint_bytes (rsa_n key)) \<le> 513"
    using mpint_len [of "rsa_e key"] mpint_len [of "rsa_n key"] assms(1) by (auto simp: rsa_key_ok_def)
  have p: "0 \<le> rsa_e key" "0 \<le> rsa_n key" using assms(1) by (simp_all add: rsa_key_ok_def)
  have n: "length (lit ''ssh-rsa'') = 7" by (simp add: lit_def)
  obtain b1 where b1: "buf_putstring b (lit ''ssh-rsa'') 7 = Inr b1" "filled 600 (sshstr (lit ''ssh-rsa'')) b1"
    using filled_putstring_all [OF assms(2), of "lit ''ssh-rsa''"] by (auto simp: n)
  obtain b2 where b2: "buf_putmpint b1 (rsa_e key) = Inr b2" "filled 600 (sshstr (lit ''ssh-rsa'') @ sshstr (mpint_bytes (rsa_e key))) b2"
    using filled_putmpint [OF b1(2) p(1)] l n by auto
  obtain b3 where b3: "buf_putmpint b2 (rsa_n key) = Inr b3" "filled 600 ((sshstr (lit ''ssh-rsa'') @ sshstr (mpint_bytes (rsa_e key))) @ sshstr (mpint_bytes (rsa_n key))) b3"
    using filled_putmpint [OF b2(2) p(2)] l n by auto
  then show ?thesis using b1(1) b2(1) by (simp add: buf_put_rsa_pub_key_def rsa_blob_def)
qed

lemma incrpos_reads: "reads b (xs @ t) \<Longrightarrow> unat n = length xs \<Longrightarrow> buf_incrpos b n = Inr (buf_adv b (length xs)) \<and> reads (buf_adv b (length xs)) t"
  using reads_adv [of b xs t] by (auto simp: reads_def buf_incrpos_eq)

lemma rsa_blob_read:
  assumes "rsa_key_ok key" "reads b (rsa_blob key @ t)"
  shows "\<exists>b'. buf_get_pub_key b new_sign_key DROPBEAR_SIGNKEY_RSA
     = Inr (True, new_sign_key\<lparr>sk_rsakey := Some (key\<lparr>rsa_d := None, rsa_p := None, rsa_q := None\<rparr>)\<rparr>, DROPBEAR_SIGNKEY_RSA, b') \<and> reads b' t"
proof -
  have l: "length (mpint_bytes (rsa_e key)) \<le> 1030" "length (mpint_bytes (rsa_n key)) \<le> 1030"
    using mpint_len [of "rsa_e key"] mpint_len [of "rsa_n key"] assms(1) by (auto simp: rsa_key_ok_def)
  have p: "0 \<le> rsa_e key" "0 \<le> rsa_n key" using assms(1) by (simp_all add: rsa_key_ok_def)
  have n: "length (lit ''ssh-rsa'') = 7" by (simp add: lit_def)
  have ty: "signkey_type_from_name (lit ''ssh-rsa'' @ [0]) (of_nat (length (lit ''ssh-rsa''))) = DROPBEAR_SIGNKEY_RSA"
    by (simp add: signkey_type_from_name_def signkey_names_def same_name_def lit_def signkey_types)
  have r: "reads b (sshstr (lit ''ssh-rsa'') @ sshstr (mpint_bytes (rsa_e key)) @ sshstr (mpint_bytes (rsa_n key)) @ t)" using assms(2) by (simp add: rsa_blob_def)
  have n9: "length (lit ''ssh-rsa'') \<le> 9000" by (simp add: lit_def)
  note g = getstring_rewind [OF r n9]
  obtain b1 where b1: "buf_incrpos b 11 = Inr b1" "reads b1 (sshstr (mpint_bytes (rsa_e key)) @ sshstr (mpint_bytes (rsa_n key)) @ t)"
    using incrpos_reads [OF r, of 11] n by simp
  obtain b2 where b2: "buf_getmpint b1 = Inr (Some (rsa_e key), b2)" "reads b2 (sshstr (mpint_bytes (rsa_n key)) @ t)" using getmpint_reads [OF b1(2) p(1) l(1)] by blast
  obtain b3 where b3: "buf_getmpint b2 = Inr (Some (rsa_n key), b3)" "reads b3 t" using getmpint_reads [OF b2(2) p(2) l(2)] by blast
  have "buf_get_rsa_pub_key b = Inr (Some (key\<lparr>rsa_d := None, rsa_p := None, rsa_q := None\<rparr>), b3)"
    using b1(1) b2(1) b3(1) assms(1) by (simp add: buf_get_rsa_pub_key_def rsa_key_ok_def MIN_RSA_KEYLEN_def)
  then have "buf_get_pub_key b new_sign_key DROPBEAR_SIGNKEY_RSA
     = Inr (True, new_sign_key\<lparr>sk_rsakey := Some (key\<lparr>rsa_d := None, rsa_p := None, rsa_q := None\<rparr>)\<rparr>, DROPBEAR_SIGNKEY_RSA, b3)"
    unfolding buf_get_pub_key_def g(1) rbind_simps prod.case Let_def ty g(2) by (simp add: signkey_types)
  then show ?thesis using b3(2) by blast
qed

lemma pad_ubin_ok:
  assumes "0 \<le> x" "mp_ubin_size x \<le> n" shows "length (pad_ubin n x) = n" "mp_from_ubin (pad_ubin n x) = x"
proof -
  have bs: "mp_to_ubin x (mp_ubin_size x) = Some (mp_to_ubin_loop (mp_ubin_size x) (nat \<bar>x\<bar>) [])" by (simp add: mp_to_ubin_def)
  show "length (pad_ubin n x) = n" "mp_from_ubin (pad_ubin n x) = x"
    using mp_to_ubin_length [OF bs] mp_from_to_ubin [OF bs] assms by (simp_all add: pad_ubin_def mp_from_ubin_pad)
qed

lemma ecc_name_ok:
  assumes "curve \<in> set dropbear_ecc_curves"
  shows "find_curve dropbear_ecc_curves (cv_name curve @ [0]) = Inr (Some curve)"
    "cstr ((ecdsa_prefix @ cv_name curve) @ [0]) \<noteq> lit ''sk-ecdsa-sha2-nistp256@openssh.com''"
    "signkey_type_from_name ((ecdsa_prefix @ cv_name curve) @ [0]) (of_nat (length (ecdsa_prefix @ cv_name curve))) = ecdsa_type curve"
    "ecdsa_type curve \<noteq> DROPBEAR_SIGNKEY_SK_ECDSA_NISTP256" "ecdsa_type curve \<noteq> DROPBEAR_SIGNKEY_SK_ED25519"
  using assms by (auto simp: dropbear_ecc_curves_def ecdsa_prefix_def lit_def mem_read_def cstr_def ecdsa_type_def signkey_type_from_name_def
      signkey_names_def same_name_def signkey_types)

lemma ecdsa_blob_written:
  assumes "curve \<in> set dropbear_ecc_curves" "ecc_key_ok curve key" "filled 600 [] b"
  shows "\<exists>b'. buf_put_ecdsa_pub_key b key = Inr b' \<and> filled 600 (ecdsa_blob curve key) b'"
proof -
  let ?n = "unat (dp_size (ec_dp key))" let ?id = "ecdsa_prefix @ cv_name curve"
  have dp: "cv_dp curve = Some (ec_dp key)" using assms(2) by (simp add: ecc_key_ok_def)
  note cv = curves_ok [OF assms(1) dp] and l = ecdsa_type_ok(4) [OF assms(1)]
  let ?q = "4 # pad_ubin ?n (ec_x key) @ pad_ubin ?n (ec_y key)"
  have q: "length ?q = 1 + 2 * ?n" using pad_ubin_ok(1) assms(2) by (simp add: ecc_key_ok_def)
  have sz: "dp_size (ec_dp key) * 2 + 1 = (1 + 2 * dp_size (ec_dp key) :: u32)" by simp
  have ul: "unat (1 + 2 * dp_size (ec_dp key)) = length ?q" using cv(7) q by simp
  have x: "ecc_ansi_x963_export key = Some ?q" using assms(2) by (simp add: ecc_ansi_x963_export_def ecc_key_ok_def Let_def mp_to_ubin_def pad_ubin_def)
  have room: "length [] + 4 + length ?id \<le> 600" "length (sshstr ?id) + 4 + length (cv_name curve) \<le> 600" unfolding length_sshstr l cv(9) by simp_all
  obtain b1 where b1: "buf_putstring b ?id (of_nat (length ?id)) = Inr b1" "filled 600 (sshstr ?id) b1"
    using filled_putstring_all [OF assms(3) room(1)] by (metis append_Nil)
  obtain b2 where b2: "buf_putstring b1 (cv_name curve) (of_nat (length (cv_name curve))) = Inr b2" "filled 600 (sshstr ?id @ sshstr (cv_name curve)) b2"
    using filled_putstring_all [OF b1(2) room(2)] by blast
  have r3: "length (sshstr ?id @ sshstr (cv_name curve)) + 4 + length ?q \<le> 600" unfolding length_append length_sshstr using l cv(9,4) q by simp
  obtain b3 where b3: "buf_putint b2 (1 + 2 * dp_size (ec_dp key)) = Inr b3"
    "filled 600 ((sshstr ?id @ sshstr (cv_name curve)) @ store32h (1 + 2 * dp_size (ec_dp key))) b3"
    using filled_putint [OF b2(2)] r3 by (metis add_leD1)
  have r4: "length ((sshstr ?id @ sshstr (cv_name curve)) @ store32h (1 + 2 * dp_size (ec_dp key))) + length ?q \<le> 600" using r3 by simp
  obtain p d b4 where b4: "buf_getwriteptr b3 (1 + 2 * dp_size (ec_dp key)) = Inr p" "mem_write (buf_data b3) p ?q = Inr d"
    "buf_incrwritepos (b3\<lparr>buf_data := d\<rparr>) (1 + 2 * dp_size (ec_dp key)) = Inr b4"
    "filled 600 (((sshstr ?id @ sshstr (cv_name curve)) @ store32h (1 + 2 * dp_size (ec_dp key))) @ ?q) b4"
    using filled_write [OF b3(2) ul r4] by blast
  have s: "store32h (1 + 2 * dp_size (ec_dp key)) @ ?q = sshstr ?q" unfolding sshstr_def ul [symmetric] by simp
  have "buf_put_ecdsa_pub_key b key = Inr b4"
    unfolding buf_put_ecdsa_pub_key_def cv(8) rbind_simps Let_def b1(1) b2(1) buf_put_ecc_raw_pubkey_string_def sz b3(1) b4(1) x option.case b4(2) using b4(3) by simp
  moreover have "filled 600 (ecdsa_blob curve key) b4" using b4(4) s by (simp add: ecdsa_blob_def)
  ultimately show ?thesis by blast
qed

lemma ecdsa_blob_read:
  assumes "curve \<in> set dropbear_ecc_curves" "ecc_key_ok curve key" "reads b (ecdsa_blob curve key @ t)"
  shows "\<exists>b'. buf_get_pub_key b new_sign_key (ecdsa_type curve)
     = Inr (True, signkey_key_set (ecdsa_type curve) (Some (key\<lparr>ec_k := 0\<rparr>)) new_sign_key, ecdsa_type curve, b') \<and> reads b' t"
proof -
  let ?n = "unat (dp_size (ec_dp key))" let ?id = "ecdsa_prefix @ cv_name curve"
  let ?q = "4 # pad_ubin ?n (ec_x key) @ pad_ubin ?n (ec_y key)"
  have k: "cv_dp curve = Some (ec_dp key)" "ec_z key = 1" "0 < ec_x key" "0 < ec_y key" "on_curve (ec_dp key) (ec_x key) (ec_y key)" using assms(2) by (simp_all add: ecc_key_ok_def)
  have pd: "length (pad_ubin ?n (ec_x key)) = ?n" "length (pad_ubin ?n (ec_y key)) = ?n" "mp_from_ubin (pad_ubin ?n (ec_x key)) = ec_x key" "mp_from_ubin (pad_ubin ?n (ec_y key)) = ec_y key"
    using pad_ubin_ok assms(2) by (simp_all add: ecc_key_ok_def)
  note cv = curves_ok [OF assms(1) k(1)] and l = ecdsa_type_ok(4) [OF assms(1)] and nm = ecc_name_ok [OF assms(1)]
  have q: "length ?q \<le> 9000" using pd cv(4) by simp
  have r: "reads b (sshstr ?id @ sshstr (cv_name curve) @ sshstr ?q @ t)" using assms(3) by (simp only: ecdsa_blob_def append_assoc)
  have i9: "length ?id \<le> 9000" "length (cv_name curve) \<le> 9000" unfolding l cv(9) by simp_all
  note g = getstring_rewind [OF r i9(1)]
  define b1 where "b1 = buf_adv b (4 + length ?id)"
  have b1: "buf_getstring b = Inr (?id @ [0], of_nat (length ?id), b1)" "reads b1 (sshstr (cv_name curve) @ sshstr ?q @ t)" using getstring_reads [OF r i9(1)] unfolding b1_def by blast+
  define b2 where "b2 = buf_adv b1 (4 + length (cv_name curve))"
  have b2: "buf_getstring b1 = Inr (cv_name curve @ [0], of_nat (length (cv_name curve)), b2)" "reads b2 (sshstr ?q @ t)"
    using getstring_reads [OF b1(2) i9(2)] unfolding b2_def by blast+
  have im: "ident_match (?id @ [0]) (of_nat (length ?id)) (cv_name curve @ [0]) (of_nat (length (cv_name curve))) = Inr True"
  proof -
    have e: "length ecdsa_prefix = 11" by (simp add: ecdsa_prefix_def lit_def)
    have "mem_read (?id @ [0]) 11 8 = Inr (cv_name curve)" "mem_read (cv_name curve @ [0]) 0 8 = Inr (cv_name curve)" using e cv(9) by (simp_all add: mem_read_def)
    then show ?thesis using nm(2) unfolding ident_match_def l cv(9) e by simp
  qed
  have w2: "buf_wf b2" "buf_rest b2 = sshstr ?q @ t" using b2(2) by (simp_all add: reads_def)
  have uq: "unat (of_nat (length ?q) :: u32) = length ?q" using q by (intro unat_of_nat32) simp
  have ld: "load32h (sshstr ?q @ t) = of_nat (length ?q)" by (simp add: sshstr_def del: list.size)
  let ?qb = "\<lparr>buf_data = ?q, buf_len = of_nat (length ?q), buf_pos = 0, buf_size = of_nat (length ?q)\<rparr>"
  have qb: "buf_getstringbuf b2 = Inr (?qb, buf_adv b2 (4 + length ?q))"
    unfolding buf_getstringbuf_def buf_getstringbuf_int_eq [OF w2(1)] w2(2) Let_def ld uq using q by (simp add: sshstr_def)
  have qt: "?qb = text_buf ?q" by (simp add: text_buf_def)
  have qw: "buf_wf (text_buf ?q)" "buf_content (text_buf ?q) = ?q" using text_buf_ok(2,3) [of ?q] q by simp_all
  obtain x where x: "buf_get_ecc_raw_pubkey (text_buf ?q) curve = Inr x" "\<And>key'. x = Some key' \<longleftrightarrow>
    (\<exists>xs ys. ?q = 4 # xs @ ys \<and> length xs = ?n \<and> length ys = ?n
       \<and> key' = \<lparr>ec_dp = ec_dp key, ec_x = mp_from_ubin xs, ec_y = mp_from_ubin ys, ec_z = 1, ec_k = 0\<rparr>
       \<and> mp_from_ubin xs \<noteq> 0 \<and> mp_from_ubin ys \<noteq> 0 \<and> on_curve (ec_dp key) (mp_from_ubin xs) (mp_from_ubin ys))"
    using raw_pubkey_value [OF assms(1) k(1) qw(1)] unfolding qw(2) by blast
  have "x = Some (key\<lparr>ec_k := 0\<rparr>)" unfolding x(2)
    using pd k by (intro exI [of _ "pad_ubin ?n (ec_x key)"] exI [of _ "pad_ubin ?n (ec_y key)"]) simp
  then have "buf_get_ecdsa_pub_key b = Inr (Some (key\<lparr>ec_k := 0\<rparr>), buf_adv b2 (4 + length ?q))"
    unfolding buf_get_ecdsa_pub_key_def b1(1) rbind_simps prod.case b2(1) im nm(1) option.case qb qt x(1) by simp
  moreover have "reads (buf_adv b2 (4 + length ?q)) t" using reads_adv [OF b2(2)] by simp
  ultimately show ?thesis
    using ecdsa_type_ok(3) [OF assms(1)] signkey_get_ecdsa [OF ecdsa_type_ok(3) [OF assms(1)]] nm(4,5)
    unfolding buf_get_pub_key_def g(1) rbind_simps prod.case Let_def nm(3) g(2) by auto
qed

lemma ed25519_blob_written:
  assumes "length (ed_pub key) = 32" "filled 600 [] b" shows "\<exists>b'. buf_put_ed25519_pub_key b key = Inr b' \<and> filled 600 (ed25519_blob key) b'"
proof -
  have n: "length (lit ''ssh-ed25519'') = 11" by (simp add: lit_def)
  obtain b1 where b1: "buf_putstring b (lit ''ssh-ed25519'') 11 = Inr b1" "filled 600 (sshstr (lit ''ssh-ed25519'')) b1"
    using filled_putstring_all [OF assms(2), of "lit ''ssh-ed25519''"] by (auto simp: n)
  have "\<exists>b'. buf_putstring b1 (ed_pub key) (of_nat (length (ed_pub key))) = Inr b' \<and> filled 600 (sshstr (lit ''ssh-ed25519'') @ sshstr (ed_pub key)) b'"
    using filled_putstring_all [OF b1(2), of "ed_pub key"] n assms(1) by simp
  then show ?thesis using b1(1) assms(1) by (simp add: buf_put_ed25519_pub_key_def ed25519_blob_def CURVE25519_LEN_def)
qed

lemma ed25519_blob_read:
  assumes "length (ed_pub key) = 32" "reads b (ed25519_blob key @ t)"
  shows "\<exists>b'. buf_get_pub_key b new_sign_key DROPBEAR_SIGNKEY_ED25519
     = Inr (True, new_sign_key\<lparr>sk_ed25519key := Some (key\<lparr>ed_priv := replicate 32 0\<rparr>)\<rparr>, DROPBEAR_SIGNKEY_ED25519, b') \<and> reads b' t"
proof -
  let ?id = "lit ''ssh-ed25519''"
  have ty: "signkey_type_from_name (?id @ [0]) (of_nat (length ?id)) = DROPBEAR_SIGNKEY_ED25519"
    by (simp add: signkey_type_from_name_def signkey_names_def same_name_def lit_def signkey_types)
  have i9: "length ?id \<le> 9000" by (simp add: lit_def)
  have r: "reads b (sshstr ?id @ store32h 32 @ ed_pub key @ t)" using assms by (simp add: ed25519_blob_def sshstr_def [of "ed_pub key"])
  note g = getstring_rewind [OF r i9]
  define b1 where "b1 = buf_adv b (4 + length ?id)"
  have b1: "buf_getstring b = Inr (?id @ [0], of_nat (length ?id), b1)" "reads b1 (store32h 32 @ ed_pub key @ t)" using getstring_reads [OF r i9] unfolding b1_def by blast+
  define b2 where "b2 = buf_adv b1 4"
  have b2: "buf_getint b1 = Inr (32, b2)" "reads b2 (ed_pub key @ t)" using getint_reads [OF b1(2)] unfolding b2_def by blast+
  have w: "buf_wf b2" "buf_rest b2 = ed_pub key @ t" using b2(2) by (simp_all add: reads_def)
  have av: "\<not> buf_len b2 - buf_pos b2 < 32"
    using buf_rest_length [OF w(1)] buf_wf_bounds [OF w(1)] w(2) assms(1) by (simp add: unat_sub32 wnat)
  have o: "buf_getptr b2 32 = Inr (unat (buf_pos b2))" "mem_read (buf_data b2) (unat (buf_pos b2)) 32 = Inr (ed_pub key)" "buf_incrpos b2 32 = Inr (buf_adv b2 32)" "reads (buf_adv b2 32) t"
    using w assms(1) buf_read_eq [of b2 32] incrpos_reads [OF b2(2), of 32] by (simp_all add: buf_getptr_eq)
  have "buf_get_ed25519_pub_key DROPBEAR_SIGNKEY_ED25519 b = Inr (Some (key\<lparr>ed_priv := replicate 32 0\<rparr>), buf_adv b2 32)"
    unfolding buf_get_ed25519_pub_key_def b1(1) rbind_simps prod.case ty b2(1) using av o(1-3) by (simp add: CURVE25519_LEN_def)
  then have "buf_get_pub_key b new_sign_key DROPBEAR_SIGNKEY_ED25519
     = Inr (True, new_sign_key\<lparr>sk_ed25519key := Some (key\<lparr>ed_priv := replicate 32 0\<rparr>)\<rparr>, DROPBEAR_SIGNKEY_ED25519, buf_adv b2 32)"
    unfolding buf_get_pub_key_def g(1) rbind_simps prod.case Let_def ty g(2) by (simp add: signkey_types signkey_is_ecdsa_def)
  then show ?thesis using o(4) by blast
qed

text \<open>A key of the given type whose numbers have the sizes that the program supports, and its public part.\<close>

definition valid_key :: "sign_key \<Rightarrow> int \<Rightarrow> bool" where
  "valid_key key ty \<longleftrightarrow> ty = DROPBEAR_SIGNKEY_RSA \<and> (\<exists>k. sk_rsakey key = Some k \<and> rsa_key_ok k)
     \<or> (\<exists>curve k. curve \<in> set dropbear_ecc_curves \<and> ty = ecdsa_type curve \<and> signkey_key_get key ty = Some k \<and> ecc_key_ok curve k)
     \<or> ty = DROPBEAR_SIGNKEY_ED25519 \<and> (\<exists>k. sk_ed25519key key = Some k \<and> length (ed_pub k) = 32)"

definition public_part :: "sign_key \<Rightarrow> int \<Rightarrow> sign_key" where
  "public_part key ty =
     (if ty = DROPBEAR_SIGNKEY_RSA then new_sign_key\<lparr>sk_rsakey := map_option (\<lambda>k. k\<lparr>rsa_d := None, rsa_p := None, rsa_q := None\<rparr>) (sk_rsakey key)\<rparr>
      else if signkey_is_ecdsa ty then signkey_key_set ty (map_option (\<lambda>k. k\<lparr>ec_k := 0\<rparr>) (signkey_key_get key ty)) new_sign_key
      else new_sign_key\<lparr>sk_ed25519key := map_option (\<lambda>k. k\<lparr>ed_priv := replicate 32 0\<rparr>) (sk_ed25519key key)\<rparr>)"

lemma sshstr_not_Nil: "sshstr x \<noteq> []"
  using length_sshstr [of x] by fastforce

lemma put_pub_key_blob:
  assumes "valid_key key ty" "filled K [] b" "604 \<le> K"
  shows "\<exists>blob b'. buf_put_pub_key b key ty = Inr b' \<and> filled K (sshstr blob) b'
     \<and> (\<forall>c t. reads c (blob @ t) \<longrightarrow> (\<exists>c'. buf_get_pub_key c new_sign_key ty = Inr (True, public_part key ty, ty, c') \<and> reads c' t))"
proof -
  obtain pk where pk: "buf_new MAX_PUBKEY_SIZE = Inr pk" "filled 600 [] pk" using filled_new [of 600 MAX_PUBKEY_SIZE] by (auto simp: MAX_PUBKEY_SIZE_def)
  define put where "put = (if ty = DROPBEAR_SIGNKEY_RSA then rbind (need (sk_rsakey key)) (buf_put_rsa_pub_key pk)
            else if signkey_is_ecdsa ty \<or> ty = DROPBEAR_SIGNKEY_SK_ECDSA_NISTP256
            then (case signkey_key_get key ty of None \<Rightarrow> Inr pk | Some k \<Rightarrow> buf_put_ecdsa_pub_key pk k)
            else if ty = DROPBEAR_SIGNKEY_ED25519 \<or> ty = DROPBEAR_SIGNKEY_SK_ED25519
            then rbind (need (sk_ed25519key key)) (buf_put_ed25519_pub_key pk)
            else Inr pk)"
  have "\<exists>blob pk'. put = Inr pk' \<and> filled 600 blob pk' \<and> blob \<noteq> []
     \<and> (\<forall>c t. reads c (blob @ t) \<longrightarrow> (\<exists>c'. buf_get_pub_key c new_sign_key ty = Inr (True, public_part key ty, ty, c') \<and> reads c' t))"
    using assms(1) unfolding valid_key_def
  proof (elim disjE)
    assume "ty = DROPBEAR_SIGNKEY_RSA \<and> (\<exists>k. sk_rsakey key = Some k \<and> rsa_key_ok k)"
    then obtain k where k: "ty = DROPBEAR_SIGNKEY_RSA" "sk_rsakey key = Some k" "rsa_key_ok k" by blast
    have "rsa_blob k \<noteq> []" by (simp add: rsa_blob_def sshstr_not_Nil)
    then show ?thesis using rsa_blob_written [OF k(3) pk(2)] rsa_blob_read [OF k(3)] k by (auto simp: put_def need_def public_part_def)
  next
    assume "\<exists>curve k. curve \<in> set dropbear_ecc_curves \<and> ty = ecdsa_type curve \<and> signkey_key_get key ty = Some k \<and> ecc_key_ok curve k"
    then obtain curve k where k: "curve \<in> set dropbear_ecc_curves" "ty = ecdsa_type curve" "signkey_key_get key ty = Some k" "ecc_key_ok curve k" by blast
    have e: "signkey_is_ecdsa ty" "ty \<noteq> DROPBEAR_SIGNKEY_RSA" using ecdsa_type_ok(3) [OF k(1)] signkey_get_ecdsa k(2) by simp_all
    have "ecdsa_blob curve k \<noteq> []" by (simp add: ecdsa_blob_def sshstr_not_Nil)
    then show ?thesis using ecdsa_blob_written [OF k(1,4) pk(2)] ecdsa_blob_read [OF k(1,4), folded k(2)] k(3) e by (auto simp: put_def public_part_def)
  next
    assume "ty = DROPBEAR_SIGNKEY_ED25519 \<and> (\<exists>k. sk_ed25519key key = Some k \<and> length (ed_pub k) = 32)"
    then obtain k where k: "ty = DROPBEAR_SIGNKEY_ED25519" "sk_ed25519key key = Some k" "length (ed_pub k) = 32" by blast
    have "ed25519_blob k \<noteq> []" by (simp add: ed25519_blob_def sshstr_not_Nil)
    then show ?thesis using ed25519_blob_written [OF k(3) pk(2)] ed25519_blob_read [OF k(3)] k
      by (auto simp: put_def need_def public_part_def signkey_is_ecdsa_def signkey_types)
  qed
  then obtain blob pk' where p: "put = Inr pk'" "filled 600 blob pk'" "blob \<noteq> []"
    "\<forall>c t. reads c (blob @ t) \<longrightarrow> (\<exists>c'. buf_get_pub_key c new_sign_key ty = Inr (True, public_part key ty, ty, c') \<and> reads c' t)" by blast
  have "buf_len pk' \<noteq> 0"
  proof
    assume "buf_len pk' = 0"
    then have "buf_content pk' = []" by (simp add: buf_content_def)
    then show False using p(2,3) by (simp add: filled_def)
  qed
  moreover obtain b' where "buf_putbufstring b pk' = Inr b'" "filled K (sshstr blob) b'"
    using filled_putbufstring [OF assms(2) p(2)] filled_bound [OF p(2)] assms(3) by auto
  ultimately have "buf_put_pub_key b key ty = Inr b' \<and> filled K (sshstr blob) b'"
    unfolding buf_put_pub_key_def pk(1) rbind_simps put_def [symmetric] p(1) by simp
  then show ?thesis using p(4) by blast
qed



end
