(* ===== verification/Sign_Key_Safe.thy ===== *)
theory Sign_Key_Safe
  imports Sign_Key_Props Channel_Safe
begin

text \<open>
  Reading a public key and verifying a signature on arbitrary input: no byte outside a buffer is read, the loops end, and the only
  failed assertion is that of \<^verbatim>\<open>rsa_pad_em\<close> on a signature type that is not compiled in.
\<close>

section \<open>Reading\<close>

lemma same_buf_adv: "buf_wf b \<Longrightarrow> n \<le> length (buf_rest b) \<Longrightarrow> same_buf b (buf_adv b n)"
  using buf_adv_wf [of b n] by (simp add: same_buf_def buf_adv_def)

lemma ubin_size_from: "mp_ubin_size (mp_from_ubin xs) \<le> length xs"
proof (cases "mp_from_ubin xs = 0")
  case True
  then show ?thesis by (simp add: mp_ubin_size_def mp_count_bits_def count_bits.simps)
next
  case False
  then have p: "0 < mp_from_ubin xs" by (simp add: mp_from_ubin_value)
  have "mp_from_ubin xs < 256 ^ length xs" using ubin_value_less [of xs] by (simp add: mp_from_ubin_value)
  then have "(256 :: int) ^ (mp_ubin_size (mp_from_ubin xs) - 1) < 256 ^ length xs" using ubin_size_lower [OF p] by linarith
  then show ?thesis by (simp add: power_strict_increasing_iff)
qed

lemma runs_getmpint:
  assumes "buf_wf b"
  shows "runs (\<lambda>(a, b'). same_buf b b' \<and> (\<forall>n. a = Some n \<longrightarrow> mp_ubin_size n \<le> 1030)) (buf_getmpint b)"
proof -
  have u: "mp_ubin_size (mp_from_ubin (take n xs)) \<le> 1030" if "n \<le> 1030" for xs n
    using ubin_size_from [of "take n xs"] that by simp
  have z: "mp_ubin_size 0 \<le> 1030" using ubin_size_from [of "[]"] by (simp add: mp_from_ubin_def)
  show ?thesis
    unfolding buf_getmpint_eq [OF assms] Let_def using assms u z
    by (auto intro!: same_buf_adv simp: not_less)
qed

lemma runs_getstringbuf_int:
  assumes "buf_wf b" shows "runs (\<lambda>(r, b'). same_buf b b' \<and> buf_wf r) (buf_getstringbuf_int b i)"
proof -
  have "runs (\<lambda>(r, b'). same_buf b b') (buf_getstringbuf_int b i)"
    unfolding buf_getstringbuf_int_eq [OF assms] Let_def using assms by (auto intro!: same_buf_adv simp: not_less)
  moreover have "buf_wf r" if "buf_getstringbuf_int b i = Inr (r, b')" for r b'
  proof -
    define n e where "n = load32h (buf_rest b)" and "e = (if i then take 4 (buf_rest b) else [])"
    have n: "unat n \<le> 9000" "4 + unat n \<le> length (buf_rest b)" "r = \<lparr>buf_data = e @ take (unat n) (drop 4 (buf_rest b)),
        buf_len = of_nat (length e) + n, buf_pos = 0, buf_size = of_nat (length e) + n\<rparr>"
      using that by (simp_all add: buf_getstringbuf_int_eq [OF assms] Let_def n_def [symmetric] e_def [symmetric] not_less split: if_splits)
    have "length e \<le> 4" by (simp add: e_def)
    then have "unat (of_nat (length e) + n) = length e + unat n" using n(1) by (subst unat_add32) simp_all
    then show ?thesis using n \<open>length e \<le> 4\<close> by (simp add: buf_wf_def wnat BUF_MAX_SIZE_def)
  qed
  ultimately show ?thesis by (cases "buf_getstringbuf_int b i") auto
qed

section \<open>Public keys\<close>

text \<open>What verification relies on of a key that was read.\<close>

definition rsa_ok :: "dropbear_rsa_key \<Rightarrow> bool" where
  "rsa_ok k \<longleftrightarrow> 54 \<le> mp_ubin_size (rsa_n k) \<and> mp_ubin_size (rsa_n k) \<le> 1030"

definition ecc_ok :: "ecc_key \<Rightarrow> bool" where
  "ecc_ok k \<longleftrightarrow> (\<exists>curve. curve \<in> set dropbear_ecc_curves \<and> cv_dp curve = Some (ec_dp k))"

definition is_sk :: "int \<Rightarrow> bool" where
  "is_sk ty \<longleftrightarrow> ty = DROPBEAR_SIGNKEY_SK_ED25519 \<or> ty = DROPBEAR_SIGNKEY_SK_ECDSA_NISTP256"

definition sk_app_ok :: "sign_key \<Rightarrow> bool" where
  "sk_app_ok key \<longleftrightarrow> (\<exists>app. sk_app key = Some app \<and> unat (sk_applen key) \<le> length app)"

definition pub_ok :: "sign_key \<Rightarrow> bool" where
  "pub_ok key \<longleftrightarrow> (\<forall>k. sk_rsakey key = Some k \<longrightarrow> rsa_ok k) \<and> (\<forall>k. sk_ecckey256 key = Some k \<or> sk_ecckey384 key = Some k \<or> sk_ecckey521 key = Some k \<longrightarrow> ecc_ok k)"

lemma pub_ok_get: "pub_ok key \<Longrightarrow> signkey_key_get key ty = Some k \<Longrightarrow> ecc_ok k"
  by (auto simp: pub_ok_def signkey_key_get_def split: if_splits)

lemma runs_rsa_pub_key:
  assumes "buf_wf b" shows "runs (\<lambda>(k, b'). same_buf b b' \<and> (\<forall>key. k = Some key \<longrightarrow> rsa_ok key)) (buf_get_rsa_pub_key b)"
proof -
  have big: "54 \<le> mp_ubin_size n" if "\<not> mp_count_bits n < MIN_RSA_KEYLEN" for n
    using that mp_ubin_size_def [of n] by (simp add: MIN_RSA_KEYLEN_def Let_def) 
  show ?thesis
    unfolding buf_get_rsa_pub_key_def
    apply (rule runs_rbind [OF runs_incrpos [OF assms]])
    apply (rule runs_rbind [OF runs_getmpint], simp)
    apply (clarsimp split: option.split, intro conjI impI allI)
     apply (simp add: same_buf_def)
    apply (rule runs_rbind [OF runs_getmpint], simp add: same_buf_def)
    using big by (auto simp: same_buf_def rsa_ok_def split: option.split)
qed

lemma find_signkey_name:
  "find_signkey fs i name len = t \<Longrightarrow> t \<noteq> DROPBEAR_SIGNKEY_NONE \<Longrightarrow> i + int (length fs) \<le> 80 \<Longrightarrow> 0 \<le> i
    \<Longrightarrow> i \<le> t \<and> nat (t - i) < length fs \<and> same_name name len (fs ! nat (t - i))"
proof (induction fs arbitrary: i)
  case (Cons f fs)
  show ?case
  proof (cases "same_name name len f")
    case False
    then have "find_signkey fs (i + 1) name len = t" using Cons.prems(1) by simp
    from Cons.IH [OF this Cons.prems(2)] Cons.prems(3,4) have "i + 1 \<le> t" "nat (t - (i + 1)) < length fs" "same_name name len (fs ! nat (t - (i + 1)))" by auto
    moreover have "nat (t - i) = Suc (nat (t - (i + 1)))" using \<open>i + 1 \<le> t\<close> by simp
    ultimately show ?thesis by simp
  qed (use Cons.prems in auto)
qed simp

lemma signkey_type_name:
  assumes "signkey_type_from_name name len = t" "t \<noteq> DROPBEAR_SIGNKEY_NONE"
  shows "0 \<le> t" "nat t < length signkey_names" "same_name name len (signkey_names ! nat t)"
  using find_signkey_name [of signkey_names 0 name len t] assms by (simp_all add: signkey_type_from_name_def signkey_names_def)

lemma curves_dp: "curve \<in> set dropbear_ecc_curves \<Longrightarrow> (\<exists>dp. cv_dp curve = Some dp) \<and> length (cv_name curve) = 8"
proof -
  have "list_all (\<lambda>c. cv_dp c \<noteq> None \<and> length (cv_name c) = 8) dropbear_ecc_curves" by code_simp
  then show "curve \<in> set dropbear_ecc_curves \<Longrightarrow> ?thesis" by (auto simp: list_all_iff)
qed

lemma runs_find_curve:
  "(\<And>c. c \<in> set cs \<Longrightarrow> length (cv_name c) \<le> length ident) \<Longrightarrow> runs (\<lambda>r. \<forall>c. r = Some c \<longrightarrow> c \<in> set cs) (find_curve cs ident)"
proof (induction cs)
  case (Cons c cs)
  have "runs (\<lambda>r. \<forall>c. r = Some c \<longrightarrow> c \<in> set cs) (find_curve cs ident)" using Cons by simp
  then have "runs (\<lambda>r. \<forall>c'. r = Some c' \<longrightarrow> c' = c \<or> c' \<in> set cs) (find_curve cs ident)" by (rule runs_weaken) auto
  then show ?case using Cons.prems [of c] by simp
qed simp

lemma runs_raw_pubkey:
  assumes "curve \<in> set dropbear_ecc_curves" "buf_wf b"
  shows "runs (\<lambda>k. \<forall>key. k = Some key \<longrightarrow> ecc_ok key) (buf_get_ecc_raw_pubkey b curve)"
proof -
  obtain dp where dp: "cv_dp curve = Some dp" using curves_dp [OF assms(1)] by blast
  show ?thesis
  proof (cases "buf_content b = []")
    case True
    let ?b = "b\<lparr>buf_pos := 0\<rparr>"
    have "buf_setpos b 0 = Inr ?b" "buf_wf ?b" using assms(2) by (simp_all add: buf_setpos_def buf_wf_def)
    moreover have "buf_rest ?b = []" using True by (simp add: buf_rest_def buf_content_def)
    ultimately show ?thesis by (simp add: buf_get_ecc_raw_pubkey_def dp Let_def buf_getbyte_eq)
  next
    case False
    have "ecc_ok key" if "ec_dp key = dp" for key using assms(1) dp that unfolding ecc_ok_def by blast
    then show ?thesis using raw_pubkey_value [OF assms(1) dp assms(2) False] by auto
  qed
qed

lemma runs_ident_match:
  assumes "length ident = unat len + 1" "length idf = unat n + 1" "unat len \<le> 9000" "unat n \<le> 9000" "19 \<le> unat len"
  shows "runs (\<lambda>ok. ok \<longrightarrow> 8 \<le> length idf) (ident_match ident len idf n)"
proof (cases "cstr ident = lit ''sk-ecdsa-sha2-nistp256@openssh.com''")
  case True
  have "length (cstr idf) \<le> length idf" unfolding cstr_def by (rule length_takeWhile_le)
  then have "cstr idf = lit ''nistp256'' \<longrightarrow> 8 \<le> length idf" by (auto simp: lit_def)
  then show ?thesis using True by (simp add: ident_match_def)
next
  case False
  have "unat len = unat n + 11" if "len = n + of_nat (length ecdsa_prefix)"
    unfolding that using assms(4) by (subst unat_add32) (simp_all add: ecdsa_prefix_def lit_def)
  then show ?thesis using False assms by (auto simp: ident_match_def ecdsa_prefix_def lit_def)
qed

lemma runs_ecdsa_pub_key:
  assumes w: "buf_wf b" and g: "buf_getstring b = Inr (ident, len, b1)" and t: "19 \<le> unat len"
  shows "runs (\<lambda>(k, b'). same_buf b b' \<and> (\<forall>key. k = Some key \<longrightarrow> ecc_ok key)) (buf_get_ecdsa_pub_key b)"
proof -
  have i: "same_buf b b1" "length ident = unat len + 1" "unat len \<le> 9000" using runs_InrD [OF runs_getstring [OF w] g] by auto
  have last: "runs (\<lambda>(k, b'). same_buf b b' \<and> (\<forall>key. k = Some key \<longrightarrow> ecc_ok key))
      (rbind (buf_getstringbuf b2) (\<lambda>(q_buf, b). rbind (buf_get_ecc_raw_pubkey q_buf curve) (\<lambda>new_key. Inr (new_key, b))))"
    if c: "curve \<in> set dropbear_ecc_curves" and s: "same_buf b b2" for b2 curve
    unfolding buf_getstringbuf_def
    apply (rule runs_rbind [OF runs_getstringbuf_int [OF same_buf_wf [OF s]]])
    apply clarsimp
    apply (rule runs_rbind [OF runs_raw_pubkey [OF c]], assumption)
    using same_buf_trans [OF s] by simp
  have "runs (\<lambda>(k, b'). same_buf b b' \<and> (\<forall>key. k = Some key \<longrightarrow> ecc_ok key)) (rbind (buf_getstring b1) (\<lambda>(idf, n, b2).
      rbind (ident_match ident len idf n) (\<lambda>ok. if \<not> ok then Inr (None, b2)
      else rbind (find_curve dropbear_ecc_curves idf) (\<lambda>curve. case curve of None \<Rightarrow> Inr (None, b2)
        | Some curve \<Rightarrow> rbind (buf_getstringbuf b2) (\<lambda>(q_buf, b). rbind (buf_get_ecc_raw_pubkey q_buf curve) (\<lambda>new_key. Inr (new_key, b)))))))"
    apply (rule runs_rbind [OF runs_getstring [OF same_buf_wf [OF i(1)]]])
    apply clarsimp
    apply (rule runs_rbind [OF runs_ident_match [OF i(2) _ i(3)]], simp, assumption, rule t)
    apply (rule runs_if, use same_buf_trans [OF i(1)] in simp)
    apply (rule runs_rbind [OF runs_find_curve], use curves_dp in simp)
    using last same_buf_trans [OF i(1)] by (auto split: option.split)
  then show ?thesis unfolding buf_get_ecdsa_pub_key_def g rbind_simps prod.case .
qed

lemma runs_ed25519_pub_key:
  assumes "buf_wf b" shows "runs (\<lambda>(k, b'). same_buf b b') (buf_get_ed25519_pub_key ty b)"
proof -
  have last: "runs (\<lambda>(k, b'). same_buf b b') (rbind (buf_getptr b2 CURVE25519_LEN) (\<lambda>p.
         rbind (mem_read (buf_data b2) p (unat CURVE25519_LEN)) (\<lambda>pub.
         rbind (buf_incrpos b2 CURVE25519_LEN) (\<lambda>b.
         Inr (Some \<lparr>ed_priv = replicate 32 0, ed_pub = pub\<rparr>, b)))))" if s: "same_buf b b2" for b2
    apply (rule runs_rbind [OF runs_getptr_data [OF same_buf_wf [OF s]]])
    apply (rule runs_rbind [OF runs_mem_read], simp)
    apply (rule runs_rbind [OF runs_incrpos [OF same_buf_wf [OF s]]])
    using s by (simp add: same_buf_def)
  show ?thesis
    unfolding buf_get_ed25519_pub_key_def
    apply (rule runs_rbind [OF runs_getstring [OF assms]])
    apply clarsimp
    apply (rule runs_rbind [OF runs_getint], simp add: same_buf_wf)
    using last same_buf_trans by fastforce
qed

lemma getstring_back:
  assumes "buf_wf b" "buf_getstring b = Inr (ident, len, b1)" shows "buf_decrpos b1 (len + 4) = Inr b"
proof -
  have n: "unat len \<le> 9000" "4 + unat len \<le> length (buf_rest b)" "b1 = buf_adv b (4 + unat len)"
    using assms by (auto simp: buf_getstring_eq Let_def not_less split: if_splits)
  have "unat (len + 4) = 4 + unat len" using n(1) by (subst unat_add32) simp_all
  then show ?thesis using decrpos_adv [OF assms(1) n(2)] n(3) by simp
qed

lemma ecdsa_name_len:
  assumes "signkey_type_from_name ident len = ty" "signkey_is_ecdsa ty \<or> ty = DROPBEAR_SIGNKEY_SK_ECDSA_NISTP256"
  shows "19 \<le> unat len"
proof -
  have ty: "ty = 1 \<or> ty = 2 \<or> ty = 3 \<or> ty = 4" using assms(2) by (auto simp: signkey_is_ecdsa_def signkey_types)
  then have "ty \<noteq> DROPBEAR_SIGNKEY_NONE" by (auto simp: signkey_types)
  from signkey_type_name(3) [OF assms(1) this] have "unat len = length (signkey_names ! nat ty)" by (simp add: same_name_def)
  then show ?thesis using ty by (auto simp: signkey_names_def lit_def)
qed

lemma pub_ok_set:
  assumes "pub_ok key"
  shows "(\<And>k'. k = Some k' \<Longrightarrow> rsa_ok k') \<Longrightarrow> pub_ok (key\<lparr>sk_rsakey := k\<rparr>)" "pub_ok (key\<lparr>sk_ed25519key := ed\<rparr>)"
    "pub_ok (key\<lparr>sk_app := a, sk_applen := l\<rparr>)" "pub_ok (key\<lparr>sk_flags_mask := m\<rparr>)"
    "(\<And>k'. e = Some k' \<Longrightarrow> ecc_ok k') \<Longrightarrow> pub_ok (signkey_key_set ty e key)"
  using assms by (auto simp: pub_ok_def signkey_key_set_def)

text \<open>The part of \<^verbatim>\<open>buf_get_pub_key\<close> that depends on the type.\<close>

lemma runs_pub_key_of_type:
  assumes w: "buf_wf b" and g: "buf_getstring b = Inr (ident, len, b1)" and t: "signkey_type_from_name ident len = ty"
  shows "runs (\<lambda>(ret, key, b'). same_buf b b' \<and> pub_ok key)
     (if ty = DROPBEAR_SIGNKEY_RSA
      then rbind (buf_get_rsa_pub_key b) (\<lambda>(k, b). Inr (k \<noteq> None, new_sign_key\<lparr>sk_rsakey := k\<rparr>, b))
      else if signkey_is_ecdsa ty \<or> ty = DROPBEAR_SIGNKEY_SK_ECDSA_NISTP256
      then rbind (buf_get_ecdsa_pub_key b) (\<lambda>(k, b). Inr (k \<noteq> None, signkey_key_set ty k new_sign_key, b))
      else if ty = DROPBEAR_SIGNKEY_ED25519 \<or> ty = DROPBEAR_SIGNKEY_SK_ED25519
      then rbind (buf_get_ed25519_pub_key ty b) (\<lambda>(k, b). Inr (k \<noteq> None, new_sign_key\<lparr>sk_ed25519key := k\<rparr>, b))
      else Inr (False, new_sign_key, b))"
proof -
  have n: "pub_ok new_sign_key" by (simp add: pub_ok_def new_sign_key_def)
  have "runs (\<lambda>(ret, key, b'). same_buf b b' \<and> pub_ok key) (rbind (buf_get_rsa_pub_key b) (\<lambda>(k, b). Inr (k \<noteq> None, new_sign_key\<lparr>sk_rsakey := k\<rparr>, b)))"
    by (rule runs_rbind [OF runs_rsa_pub_key [OF w]]) (use pub_ok_set(1) [OF n] in auto)
  moreover have "runs (\<lambda>(ret, key, b'). same_buf b b' \<and> pub_ok key) (rbind (buf_get_ecdsa_pub_key b) (\<lambda>(k, b). Inr (k \<noteq> None, signkey_key_set ty k new_sign_key, b)))"
    if "signkey_is_ecdsa ty \<or> ty = DROPBEAR_SIGNKEY_SK_ECDSA_NISTP256"
    by (rule runs_rbind [OF runs_ecdsa_pub_key [OF w g ecdsa_name_len [OF t that]]]) (use pub_ok_set(5) [OF n] in auto)
  moreover have "runs (\<lambda>(ret, key, b'). same_buf b b' \<and> pub_ok key) (rbind (buf_get_ed25519_pub_key ty b) (\<lambda>(k, b). Inr (k \<noteq> None, new_sign_key\<lparr>sk_ed25519key := k\<rparr>, b)))"
    by (rule runs_rbind [OF runs_ed25519_pub_key [OF w]]) (use pub_ok_set(2) [OF n] in auto)
  ultimately show ?thesis using n w by (simp add: same_buf_refl)
qed

lemma runs_get_pub_key:
  assumes w: "buf_wf b" and ty: "type \<noteq> DROPBEAR_SIGNKEY_ANY"
  shows "runs (\<lambda>(ok, key, ty', b'). same_buf b b' \<and> (ok \<longrightarrow> ty' = type \<and> pub_ok key \<and> (is_sk type \<longrightarrow> sk_app_ok key)))
     (buf_get_pub_key b new_sign_key type)"
proof (cases "buf_getstring b")
  case (Inl err)
  then show ?thesis using runs_getstring [OF w] by (simp add: buf_get_pub_key_def)
next
  case (Inr r)
  obtain ident len b1 where r: "r = (ident, len, b1)" by (cases r)
  note g = Inr [unfolded r]
  have s: "same_buf b b1" using runs_InrD [OF runs_getstring [OF w] g] by auto
  let ?P = "\<lambda>(ok, key, ty', b'). same_buf b b' \<and> (ok \<longrightarrow> ty' = type \<and> pub_ok key \<and> (is_sk type \<longrightarrow> sk_app_ok key))"
  show ?thesis
  proof (cases "signkey_type_from_name ident len = type")
    case False
    then show ?thesis using ty s by (simp add: buf_get_pub_key_def g Let_def)
  next
    case True
    have k: "runs ?P (if type = DROPBEAR_SIGNKEY_SK_ED25519 \<or> type = DROPBEAR_SIGNKEY_SK_ECDSA_NISTP256
       then rbind (buf_getstring b') (\<lambda>(app, applen, b). Inr (ret, key\<lparr>sk_app := Some app, sk_applen := applen\<rparr>, type, b))
       else Inr (ret, key, type, b'))" if b': "same_buf b b'" "pub_ok key" for ret key b'
      using b' by (auto intro!: runs_rbind [OF runs_getstring [OF same_buf_wf [OF b'(1)]]] same_buf_trans [OF b'(1)] pub_ok_set(3)
          simp: is_sk_def sk_app_ok_def)
    show ?thesis
      unfolding buf_get_pub_key_def g rbind_simps prod.case Let_def True getstring_back [OF w g]
      using runs_rbind [OF runs_pub_key_of_type [OF w g True], of ?P] k by (simp add: split_def)
  qed
qed

section \<open>Signatures\<close>

text \<open>What verification needs of the hash functions.\<close>

definition key_env_ok :: "key_env \<Rightarrow> bool" where
  "key_env_ok ke \<longleftrightarrow> (\<forall>h m. length (ke_hash ke h m) = hashsize h)"

lemma runs_all: "buf_wf b \<Longrightarrow> runs (\<lambda>_. True) (buf_all b)"
  using buf_wf_bounds [of b] by (simp add: buf_all_def)

lemma keeps_rsa_verify:
  assumes w: "buf_wf b" "rsa_ok k" "buf_wf data_buf" "key_env_ok ke"
  shows "keeps (\<lambda>(good, b'). same_buf b b') (buf_rsa_verify ke b k sigtype data_buf)"
proof -
  have p: "keeps (\<lambda>_. True) (rsa_pad_em ke k data_buf sigtype)"
  proof (cases "sigtype = DROPBEAR_SIGNATURE_RSA_SHA256")
    case True
    have "length (ke_hash ke Sha256 (buf_content data_buf)) = 32" using w(4) by (simp add: key_env_ok_def hashsize_def)
    then show ?thesis using rsa_pad_em_value [OF refl _ _ w(3)] w(2) True by (simp add: rsa_ok_def)
  qed (simp add: rsa_pad_em_def)
  show ?thesis
    unfolding buf_rsa_verify_def Let_def
    apply (rule keeps_runs [OF runs_getint [OF w(1)]])
    apply clarsimp
    apply (rule keeps_runs [OF runs_getptr_data], erule same_buf_wf)
    apply (rule keeps_runs [OF runs_mem_read], simp)
    apply clarsimp
    by (rule keeps_rbind [OF p]) simp
qed

lemma runs_verify_params:
  assumes "buf_wf b" shows "runs (\<lambda>(r, b'). same_buf b b') (buf_get_ecdsa_verify_params b)"
proof -
  have g: "same_buf b b1 \<Longrightarrow> runs (\<lambda>(a, b'). same_buf b b') (buf_getmpint b1)" for b1
    by (rule runs_weaken [OF runs_getmpint]) (auto intro: same_buf_wf same_buf_trans)
  show ?thesis
    unfolding buf_get_ecdsa_verify_params_def Let_def
    apply (rule runs_rbind [OF runs_getint [OF assms]])
    apply clarsimp
    apply (rule runs_rbind [OF g], assumption)
    apply (clarsimp split: option.split)
    apply (rule runs_rbind [OF g], assumption)
    by (simp add: split_def split: option.split)
qed

lemma runs_ecdsa_verify:
  assumes "buf_wf b" "ecc_ok k" "buf_wf data_buf" shows "runs (\<lambda>(good, b'). same_buf b b') (buf_ecdsa_verify ke b k data_buf)"
proof -
  obtain curve where c: "curve_for_dp (ec_dp k) = Inr curve" using assms(2) curves_ok(8) by (auto simp: ecc_ok_def)
  show ?thesis
    unfolding buf_ecdsa_verify_def c rbind_simps
    apply (rule runs_rbind [OF runs_verify_params [OF assms(1)]])
    apply (clarsimp split: option.split)
    apply (rule runs_rbind [OF runs_all [OF assms(3)]])
    by (simp add: Let_def split: option.split)
qed

lemma runs_ed25519_verify:
  assumes "buf_wf b" "buf_wf data_buf" shows "runs (\<lambda>(good, b'). same_buf b b') (buf_ed25519_verify ke b k data_buf)"
  unfolding buf_ed25519_verify_def
  apply (rule runs_rbind [OF runs_getint [OF assms(1)]])
  apply clarsimp
  apply (rule runs_rbind [OF runs_getptr_data], erule same_buf_wf)
  apply (rule runs_rbind [OF runs_mem_read], simp)
  by (rule runs_rbind [OF runs_all [OF assms(2)]]) simp

lemma runs_sk_message:
  assumes "sk_app_ok key" "buf_wf data_buf" "key_env_ok ke"
  shows "runs buf_wf (sk_message ke (sk_app key) (sk_applen key) flags counter data_buf)"
proof -
  obtain app where a: "sk_app key = Some app" "unat (sk_applen key) \<le> length app" using assms(1) by (auto simp: sk_app_ok_def)
  have h: "length (ke_hash ke Sha256 m) = 32" for m using assms(3) by (simp add: key_env_ok_def hashsize_def)
  show ?thesis
    unfolding sk_message_def a(1) option.case
    apply (rule runs_rbind [OF runs_new])
    apply (rule runs_rbind [OF runs_mem_read], use a(2) in simp)
    apply (rule runs_rbind [OF runs_putbytes], simp, simp add: h)
    apply (rule runs_rbind [OF runs_putbyte], simp add: grown_def)
    apply (rule runs_rbind [OF runs_putint], simp add: grown_def)
    apply (rule runs_rbind [OF runs_all [OF assms(2)]])
    by (rule runs_weaken [OF runs_putbytes]) (auto simp: grown_def h)
qed

lemma runs_sk_ed25519_verify:
  assumes "buf_wf b" "sk_app_ok key" "buf_wf data_buf" "key_env_ok ke"
  shows "runs (\<lambda>(good, b'). same_buf b b') (buf_sk_ed25519_verify ke b k data_buf (sk_app key) (sk_applen key) m)"
proof -
  have last: "runs (\<lambda>(good, b'). same_buf b b') (rbind (buf_getbyte b1) (\<lambda>(flags, b).
       rbind (buf_getint b) (\<lambda>(counter, b).
       rbind (sk_message ke (sk_app key) (sk_applen key) flags counter data_buf) (\<lambda>sk_buffer.
       rbind (buf_all sk_buffer) (\<lambda>msg.
       Inr (sk_flags_ok flags m (ke_ed25519_verify ke msg s (ed_pub k)), b))))))" if s: "same_buf b b1" for b1 s
    apply (rule runs_rbind [OF runs_getbyte [OF same_buf_wf [OF s]]])
    apply clarsimp
    apply (rule runs_rbind [OF runs_getint], erule same_buf_wf)
    apply clarsimp
    apply (rule runs_rbind [OF runs_sk_message [OF assms(2-4)]])
    apply (rule runs_rbind [OF runs_all], assumption)
    using same_buf_trans s by auto
  show ?thesis
    unfolding buf_sk_ed25519_verify_def
    apply (rule runs_rbind [OF runs_getint [OF assms(1)]])
    apply clarsimp
    apply (rule runs_rbind [OF runs_getptr_data], erule same_buf_wf)
    apply (rule runs_rbind [OF runs_mem_read], simp)
    apply (rule runs_rbind [OF runs_incrpos], erule same_buf_wf)
    by (rule last) (simp add: same_buf_def)
qed

lemma runs_sk_ecdsa_verify:
  assumes "buf_wf b" "sk_app_ok key" "buf_wf data_buf" "key_env_ok ke" "ecc_ok k"
  shows "runs (\<lambda>(good, b'). same_buf b b') (buf_sk_ecdsa_verify ke b k data_buf (sk_app key) (sk_applen key) m)"
proof -
  have last: "runs (\<lambda>(good, b'). same_buf b b') (rbind (sk_message ke (sk_app key) (sk_applen key) flags counter data_buf) (\<lambda>sk_buffer.
     rbind (buf_ecdsa_verify ke sb k sk_buffer) (\<lambda>(ret, _). Inr (sk_flags_ok flags m ret, b1))))"
    if "buf_wf sb" "same_buf b b1" for sb b1 flags counter
    by (rule runs_rbind [OF runs_sk_message [OF assms(2-4)]], rule runs_rbind [OF runs_ecdsa_verify [OF that(1) assms(5)]])
      (use that(2) in auto)
  show ?thesis
    unfolding buf_sk_ecdsa_verify_def buf_getbuf_def
    apply (rule runs_rbind [OF runs_getstringbuf_int [OF assms(1)]])
    apply clarsimp
    apply (rule runs_rbind [OF runs_getbyte], erule same_buf_wf)
    apply clarsimp
    apply (rule runs_rbind [OF runs_getint], erule same_buf_wf)
    using last same_buf_trans by auto
qed

lemma keeps_verify:
  assumes w: "buf_wf b" "pub_ok key" "buf_wf data_buf" "key_env_ok ke"
    and t: "signkey_type_from_signature sigtype = Inr keytype" "is_sk keytype \<longrightarrow> sk_app_ok key"
  shows "keeps (\<lambda>(good, b'). same_buf b b') (buf_verify ke b key sigtype data_buf)"
proof -
  have last: "keeps (\<lambda>(good, b'). same_buf b b')
      (if keytype = DROPBEAR_SIGNKEY_RSA
       then (case sk_rsakey key of None \<Rightarrow> Inl (Exit ''No RSA key to verify signature'') | Some k \<Rightarrow> buf_rsa_verify ke b2 k sigtype data_buf)
       else if signkey_is_ecdsa keytype \<and> signkey_key_get key keytype \<noteq> None
       then buf_ecdsa_verify ke b2 (the (signkey_key_get key keytype)) data_buf
       else if keytype = DROPBEAR_SIGNKEY_ED25519
       then (case sk_ed25519key key of None \<Rightarrow> Inl (Exit ''No Ed25519 key to verify signature'') | Some k \<Rightarrow> buf_ed25519_verify ke b2 k data_buf)
       else if keytype = DROPBEAR_SIGNKEY_SK_ECDSA_NISTP256 \<and> signkey_key_get key keytype \<noteq> None
       then buf_sk_ecdsa_verify ke b2 (the (signkey_key_get key keytype)) data_buf (sk_app key) (sk_applen key) (sk_flags_mask key)
       else if keytype = DROPBEAR_SIGNKEY_SK_ED25519 \<and> sk_ed25519key key \<noteq> None
       then buf_sk_ed25519_verify ke b2 (the (sk_ed25519key key)) data_buf (sk_app key) (sk_applen key) (sk_flags_mask key)
       else Inl (Exit ''Non-matching signing type''))" if s: "same_buf b b2" for b2
  proof -
    note w2 = same_buf_wf [OF s] and tr = same_buf_trans [OF s]
    have "keeps (\<lambda>(good, b'). same_buf b b') (buf_rsa_verify ke b2 k sigtype data_buf)" if "sk_rsakey key = Some k" for k
      using keeps_weaken [OF keeps_rsa_verify [OF w2 _ w(3,4), of k sigtype]] w(2) that tr by (auto simp: pub_ok_def split_def)
    moreover have "keeps (\<lambda>(good, b'). same_buf b b') (buf_ecdsa_verify ke b2 k data_buf)" if "signkey_key_get key keytype = Some k" for k
      by (rule runs_keeps [OF runs_ecdsa_verify [OF w2 pub_ok_get [OF w(2) that] w(3)]]) (use tr in auto)
    moreover have "keeps (\<lambda>(good, b'). same_buf b b') (buf_ed25519_verify ke b2 k data_buf)" for k
      by (rule runs_keeps [OF runs_ed25519_verify [OF w2 w(3)]]) (use tr in auto)
    moreover have "keeps (\<lambda>(good, b'). same_buf b b') (buf_sk_ecdsa_verify ke b2 k data_buf (sk_app key) (sk_applen key) (sk_flags_mask key))"
      if "keytype = DROPBEAR_SIGNKEY_SK_ECDSA_NISTP256" "signkey_key_get key keytype = Some k" for k
      by (rule runs_keeps [OF runs_sk_ecdsa_verify [OF w2 _ w(3,4) pub_ok_get [OF w(2) that(2)]]]) (use tr t(2) that(1) in \<open>auto simp: is_sk_def\<close>)
    moreover have "keeps (\<lambda>(good, b'). same_buf b b') (buf_sk_ed25519_verify ke b2 k data_buf (sk_app key) (sk_applen key) (sk_flags_mask key))"
      if "keytype = DROPBEAR_SIGNKEY_SK_ED25519" for k
      by (rule runs_keeps [OF runs_sk_ed25519_verify [OF w2 _ w(3,4)]]) (use tr t(2) that in \<open>auto simp: is_sk_def\<close>)
    ultimately show ?thesis by (auto split: option.split)
  qed
  show ?thesis
    unfolding buf_verify_def Let_def
    apply (rule keeps_runs [OF runs_getint [OF w(1)]])
    apply clarsimp
    apply (rule keeps_runs [OF runs_getstring], erule same_buf_wf)
    apply (split prod.split, intro allI impI)
    apply (split prod.split, intro allI impI)
    apply (rule keeps_if, simp)
    subgoal premises p for b1 x name y nlen b2
    proof -
      have q: "same_buf b b2" "signature_type_from_name name nlen = sigtype" using p same_buf_trans [of b b1 b2] by auto
      show ?thesis unfolding q(2) t(1) rbind_simps by (rule last [OF q(1)])
    qed
    done
qed

end
