(* ===== verification/Auth_Sound.thy ===== *)
theory Auth_Sound
  imports Auth_Props Sign_Key_Safe
begin

text \<open>
  The soundness of user authentication: every request is handled without leaving a buffer, and a request changes what is authenticated only
  if it shows a credential of an account that may log in; runs of requests, their failures and the two methods of \<^verbatim>\<open>-t\<close>.
\<close>

section \<open>Looking for the key\<close>

lemma handling_warn: "handling e ae s0 s \<Longrightarrow> handling e ae s0 (upd_auth (\<lambda>a. a\<lparr>auth_perm_warn := w\<rparr>) s)"
  using handling_inv [of e ae s0 s] unfolding upd_auth_def by (intro handling_auth) auto

lemma names_of_type: "signkey_name_from_type ty = Inr algo \<Longrightarrow> algo \<in> set signkey_names"
proof -
  assume "signkey_name_from_type ty = Inr algo"
  then have "algo = signkey_names ! nat ty" "nat ty < 7" by (auto simp: signkey_name_from_type_def signkey_types split: if_splits)
  moreover have "length signkey_names = 7" by (simp add: signkey_names_def)
  ultimately show ?thesis by (metis nth_mem)
qed

lemma user_creds_back:
  "cr_euid c = cr_uid c \<Longrightarrow> cr_egid c = cr_gid c \<Longrightarrow> (user_creds c pw)\<lparr>cr_euid := cr_uid c, cr_egid := cr_gid c\<rparr> = c"
  by (simp add: user_creds_def)

text \<open>A session that differs from \<open>s\<close> by the identity \<open>c\<close> of the process and the warning about permissions.\<close>

definition with_creds :: "'z env \<Rightarrow> creds \<Rightarrow> ('c, 'z) session \<Rightarrow> ('c, 'z) session \<Rightarrow> bool" where
  "with_creds e c s s' \<longleftrightarrow> ses_svr s' = (ses_svr s)\<lparr>svr_creds := c\<rparr> \<and> (\<exists>w. ses_authstate s' = (ses_authstate s)\<lparr>auth_perm_warn := w\<rparr>)
     \<and> ses_session_id s' = ses_session_id s \<and> sleeps s' = sleeps s \<and> send_ok e s' = send_ok e s
     \<and> ses_payload s' = ses_payload s \<and> ses_payload_beginning s' = ses_payload_beginning s"

lemma with_creds_refl: "with_creds e (ses_creds s) s s"
  by (auto simp: with_creds_def intro: exI [of _ "auth_perm_warn (ses_authstate s)"])

lemma with_creds_ids:
  assumes "with_creds e c s s1" "sys_ids ae f s1 = (True, s2)" shows "with_creds e (f c) s s2"
  using assms(1) sys_ids_cases [OF assms(2), of e] by (auto simp: with_creds_def)

lemma with_creds_handling:
  assumes "handling e ae s0 s" "with_creds e (ses_creds s) s s'" shows "handling e ae s0 s'"
proof -
  obtain w where w: "ses_authstate s' = (ses_authstate s)\<lparr>auth_perm_warn := w\<rparr>" using assms(2) unfolding with_creds_def by blast
  have "ses_svr s' = ses_svr s" "ses_session_id s' = ses_session_id s" "sleeps s' = sleeps s" "send_ok e s' = send_ok e s"
    "ses_payload s' = ses_payload s" "ses_payload_beginning s' = ses_payload_beginning s"
    using assms(2) by (simp_all add: with_creds_def)
  then show ?thesis using assms(1) w unfolding handling_def auth_ses_ok_def by (elim conjE, intro conjI; simp)
qed

text \<open>The process takes the identity of the user while it looks at files, and its own again.\<close>

lemma keeps_open_as_user:
  assumes c: "with_creds e c s s1" and a: "is_account (ses_authstate s) pw"
  shows "keeps (\<lambda>(r, s'). with_creds e c s s'
       \<and> (\<forall>f. r = Some f \<longrightarrow> list_all (trusted ae c (pwd_uid pw)) (dirs_up (pwd_dir pw) (keys_path ao pw)) \<and> ae_open ae c (keys_path ao pw) = Opened f))
     (open_authkeys e ae ao s1)"
proof -
  have "is_account (ses_authstate s1) pw" using c a unfolding with_creds_def by auto
  show ?thesis
    by (rule keeps_weaken [OF open_authkeys_keeps [OF \<open>is_account (ses_authstate s1) pw\<close>, where e' = e]])
      (use c in \<open>auto simp: with_creds_def\<close>)
qed

lemma keeps_checkpubkey:
  assumes h: "handling e ae s0 s" and a: "is_account (ses_authstate s) pw" and k: "algo \<in> set signkey_names" "unat n \<le> length blob"
  shows "keeps (\<lambda>(r, s'). with_creds e (ses_creds s) s s'
       \<and> (\<forall>po. r = Some po \<longrightarrow> authorised ae ao (ses_creds s) pw algo (take (unat n) blob) po))
     (checkpubkey e ae ao algo (of_nat (length algo)) blob n s)"
proof -
  let ?c = "ses_creds s" let ?u = "user_creds (ses_creds s) pw"
  have id: "cr_euid ?c = cr_uid ?c" "cr_egid ?c = cr_gid ?c" using h unfolding handling_def auth_ses_ok_def by blast+
  obtain ok1 s1 where s1: "setegid ae (auth_pw_gid (ses_authstate s)) s = (ok1, s1)" by fastforce
  show ?thesis
  proof (cases ok1)
    case False
    then show ?thesis by (simp add: checkpubkey_def Let_def s1)
  next
    case True
    then have ok1: "ok1 = True" by simp
    have w1: "with_creds e (?c\<lparr>cr_egid := pwd_gid pw\<rparr>) s s1"
      using with_creds_ids [OF with_creds_refl s1 [unfolded setegid_def ok1]] a by (simp add: is_account_def)
    obtain ok2 s2 where s2: "seteuid ae (auth_pw_uid (ses_authstate s1)) s1 = (ok2, s2)" by fastforce
    show ?thesis
    proof (cases ok2)
      case False
      then show ?thesis by (simp add: checkpubkey_def Let_def s1 s2 ok1)
    next
      case True
      then have ok2: "ok2 = True" by simp
      have "auth_pw_uid (ses_authstate s1) = pwd_uid pw" using w1 a by (auto simp: with_creds_def is_account_def)
      then have w2: "with_creds e ?u s s2"
        using with_creds_ids [OF w1 s2 [unfolded seteuid_def ok2]] by (simp add: user_creds_def)
      have rev: "with_creds e ?c s s5" if "with_creds e ?u s s3" "seteuid ae (cr_uid ?c) s3 = (True, s4)" "setegid ae (cr_gid ?c) s4 = (True, s5)" for s3 s4 s5
        using with_creds_ids [OF with_creds_ids [OF that(1) that(2) [unfolded seteuid_def]] that(3) [unfolded setegid_def]]
        by (simp only: user_creds_back [OF id])
      have lines: "keeps (\<lambda>(r, s'). with_creds e ?c s s' \<and> (\<forall>po. r = Some po \<longrightarrow> authorised ae ao ?c pw algo (take (unat n) blob) po))
          (rbind (buf_new MAX_AUTHKEYS_LINE) (\<lambda>line.
              rbind (lines_loop ae line f algo (of_nat (length algo)) blob n) (\<lambda>r. Inr (r, s5))))"
        if w: "with_creds e ?c s s5" and f: "list_all (trusted ae ?u (pwd_uid pw)) (dirs_up (pwd_dir pw) (keys_path ao pw))"
          "ae_open ae ?u (keys_path ao pw) = Opened f" for f s5
      proof (cases "buf_new MAX_AUTHKEYS_LINE")
        case (Inl err)
        then show ?thesis using runs_new [of MAX_AUTHKEYS_LINE] by (simp add: clean_def split: fatal.splits)
      next
        case (Inr line)
        have l: "lines_loop ae line f algo (of_nat (length algo)) blob n = file_value (ae_einval ae) 4200 f algo (take (unat n) blob)"
          using lines_loop_value [OF new_line_buf(1) [OF Inr] _ signkey_names_ok [OF k(1)] k(2)] new_line_buf(2) [OF Inr] by simp
        have "authorised ae ao ?c pw algo (take (unat n) blob) po" if "file_value (ae_einval ae) 4200 f algo (take (unat n) blob) = Inr (Some po)" for po
          using f that file_value_names [OF that] unfolding authorised_def by blast
        then show ?thesis using runs_keeps [OF runs_ret [OF runs_file_value], of "ae_einval ae" 4200 f algo "take (unat n) blob"] w
          unfolding Inr rbind_simps l by (cases "file_value (ae_einval ae) 4200 f algo (take (unat n) blob)") auto
      qed
      show ?thesis
        unfolding checkpubkey_def Let_def s1 s2 prod.case ok1 ok2 not_True_eq_False if_False
        apply (rule keeps_rbind [OF keeps_open_as_user [OF w2 a]])
        using rev lines by (auto split: prod.split option.split)
    qed
  qed
qed

section \<open>The signed data\<close>

text \<open>The session identifier as a string and the payload from the beginning up to a position.\<close>

definition signed_bytes :: "buffer \<Rightarrow> u32 \<Rightarrow> buffer \<Rightarrow> bytes" where
  "signed_bytes sid from pb = sshstr (buf_content sid) @ drop (unat from) (take (unat (buf_pos pb)) (buf_data pb))"

lemma runs_put_to_end:
  assumes "at_end b" "unat n \<le> length src"
  shows "runs (appends b (take (unat n) src)) (buf_putbytes b src n)" "runs (appends b (sshstr (take (unat n) src))) (buf_putstring b src n)"
proof -
  have w: "buf_wf b" using assms(1) by simp
  show "runs (appends b (take (unat n) src)) (buf_putbytes b src n)"
    by (rule runs_weaken [OF runs_ret [OF runs_putbytes [OF w assms(2)]]]) (use putbytes_appends [OF assms] in blast)
  show "runs (appends b (sshstr (take (unat n) src))) (buf_putstring b src n)"
    by (rule runs_weaken [OF runs_ret [OF runs_putstring [OF w assms(2)]]]) (use putstring_appends [OF assms] in blast)
qed

lemma keeps_sign_data:
  assumes p: "ses_payload s = Some pb" "buf_wf pb" and d: "ses_session_id s = Some sid" "buf_wf sid"
  shows "keeps (\<lambda>(sb, s'). \<exists>pb'. s' = s\<lparr>ses_payload := Some pb'\<rparr> \<and> same_buf pb pb' \<and> buf_pos pb' = buf_pos pb
      \<and> buf_wf sb \<and> buf_content sb = signed_bytes sid (ses_payload_beginning s) pb) (sign_data s)"
proof -
  let ?g = "ses_payload_beginning s"
  have sid: "unat (buf_len sid) \<le> length (buf_data sid)" using buf_wf_bounds [OF d(2)] by simp
  have n: "unat (buf_pos pb - ?g) = unat (buf_pos pb) - unat ?g" "unat ?g + unat (buf_pos pb - ?g) = unat (buf_pos pb)" if "?g \<le> buf_pos pb"
    using that by (simp_all add: unat_sub word_le_nat_alt)
  have setend: "runs (\<lambda>b'. buf_wf b' \<and> buf_content b' = xs) (buf_setpos b 0)" if "appends b0 ys b" "buf_content b0 @ ys = xs" for b0 ys xs b
    using that by (auto intro!: runs_weaken [OF runs_setpos] simp: appends_def at_end_def buf_content_def)
  show ?thesis
    unfolding sign_data_def p(1) d(1) prod.case option.case Let_def buf_putbufstring_def
    apply (rule keeps_assert)
    apply (rule keeps_runs [OF runs_ret [OF runs_new]])
    apply (rule keeps_runs [OF runs_put_to_end(2)], use buf_new_end in blast, rule sid)
    apply (rule keeps_runs [OF runs_setpos [OF p(2)]])
    apply (rule keeps_runs [OF runs_getptr_data], blast)
    apply (rule keeps_runs [OF runs_put_to_end(1)], use appends_end in blast, simp)
    apply (rule keeps_runs [OF runs_incrpos], blast)
    subgoal premises h for b0 b1 pb1 q b2 pb2
    proof -
      have c: "buf_content b1 = sshstr (buf_content sid)" using h(3) buf_new_end [OF conjunct1 [OF h(2)]] by (simp add: appends_def buf_content_def [of sid])
      have d: "take (unat (buf_pos pb - ?g)) (drop q (buf_data pb1)) = drop (unat ?g) (take (unat (buf_pos pb)) (buf_data pb))"
        using h(4,5) n(1) [OF h(1)] by (simp add: drop_take)
      have "buf_content b1 @ take (unat (buf_pos pb - ?g)) (drop q (buf_data pb1)) = signed_bytes sid ?g pb" unfolding c d signed_bytes_def ..
      from setend [OF h(6) this] have "runs (\<lambda>b'. buf_wf b' \<and> buf_content b' = signed_bytes sid ?g pb) (buf_setpos b2 0)" .
      then show ?thesis by (rule keeps_runs) (use h(4,7) in \<open>auto simp: same_buf_def\<close>)
    qed
    done
qed

section \<open>Credentials\<close>

text \<open>The request that came in at \<open>s0\<close> holds the password of the account.\<close>

definition password_request :: "auth_env \<Rightarrow> auth_opts \<Rightarrow> ('c, 'z) session \<Rightarrow> passwd \<Rightarrow> bool" where
  "password_request ae ao s0 pw \<longleftrightarrow> ao_password_auth ao \<and> \<not> ao_noauthpass ao \<and> \<not> (ao_norootpass ao \<and> pwd_uid pw = 0)
     \<and> (\<exists>p0 pb pb' password n crypt. ses_payload s0 = Some p0 \<and> same_buf p0 pb \<and> buf_getstring pb = Inr (password, n, pb')
          \<and> pwd_passwd pw = Some crypt \<and> crypt \<noteq> [] \<and> ae_crypt ae (cstr password) crypt = Some crypt)"

text \<open>
  The request holds a public key that is authorised for the account with the options \<open>po\<close>, and a signature with this key of the session identifier and
  of the request up to the signature.
\<close>

definition key_request :: "auth_env \<Rightarrow> auth_opts \<Rightarrow> ('c, 'z) session \<Rightarrow> passwd \<Rightarrow> PubKeyOptions \<Rightarrow> bool" where
  "key_request ae ao s0 pw po \<longleftrightarrow> (\<exists>p0 sid pb n sigtype keytype algo key pb1 pb2 pb3 sb. ses_payload s0 = Some p0 \<and> ses_session_id s0 = Some sid
     \<and> signkey_type_from_signature sigtype = Inr keytype \<and> signkey_name_from_type keytype = Inr algo \<and> same_buf p0 pb
     \<and> authorised ae ao (ses_creds s0) pw algo (take (unat (n :: u32)) (drop (unat (buf_pos pb)) (buf_data pb))) po
     \<and> buf_get_pub_key pb new_sign_key keytype = Inr (True, key, keytype, pb1) \<and> same_buf p0 pb2 \<and> buf_pos pb2 = buf_pos pb1
     \<and> buf_content sb = signed_bytes sid (ses_payload_beginning s0) pb1
     \<and> buf_verify (ae_keys ae) pb2 (set_sk_flags po key) sigtype sb = Inr (True, pb3))"

text \<open>The account needs no password.\<close>

definition blank_login :: "auth_opts \<Rightarrow> passwd \<Rightarrow> bool" where
  "blank_login ao pw \<longleftrightarrow> ao_allowblankpass ao \<and> \<not> ao_noauthpass ao \<and> \<not> (ao_norootpass ao \<and> pwd_uid pw = 0) \<and> pwd_passwd pw = Some []"

section \<open>Outcomes\<close>

definition same_count :: "('c, 'z) session \<Rightarrow> ('c, 'z) session \<Rightarrow> bool" where
  "same_count s0 s \<longleftrightarrow> auth_failcount (ses_authstate s) = auth_failcount (ses_authstate s0) \<and> sleeps s = sleeps s0"

definition counted :: "auth_opts \<Rightarrow> ('c, 'z) session \<Rightarrow> ('c, 'z) session \<Rightarrow> bool" where
  "counted ao s0 s \<longleftrightarrow> auth_failcount (ses_authstate s) = auth_failcount (ses_authstate s0) + 1 \<and> sleeps s = sleeps s0 + 1
     \<and> auth_failcount (ses_authstate s) \<le> ao_maxauthtries ao"

text \<open>The user that is logged in or has shown a first credential.\<close>

definition logged :: "auth_env \<Rightarrow> auth_opts \<Rightarrow> ('c, 'z) session \<Rightarrow> ('c, 'z) session \<Rightarrow> passwd \<Rightarrow> bool" where
  "logged ae ao s0 s pw \<longleftrightarrow> (\<exists>u. auth_username (ses_authstate s) = Some u \<and> user_account ae u = Some pw) \<and> may_login ae ao (cr_euid (ses_creds s0)) pw"

definition take_options :: "PubKeyOptions option \<Rightarrow> PubKeyOptions \<Rightarrow> PubKeyOptions option" where
  "take_options old po = (case old of None \<Rightarrow> Some po | Some _ \<Rightarrow> old)"

text \<open>Nothing changes but the count of failures.\<close>

definition refused :: "auth_opts \<Rightarrow> ('c, 'z) session \<Rightarrow> ('c, 'z) session \<Rightarrow> bool" where
  "refused ao s0 s \<longleftrightarrow> auth_authdone (ses_authstate s) = auth_authdone (ses_authstate s0) \<and> auth_authtypes (ses_authstate s) = auth_authtypes (ses_authstate s0)
     \<and> auth_pubkey_options (ses_authstate s) = auth_pubkey_options (ses_authstate s0) \<and> ses_creds s = ses_creds s0 \<and> (same_count s0 s \<or> counted ao s0 s)"

text \<open>A good credential, and another method is still required.\<close>

definition partly :: "auth_env \<Rightarrow> auth_opts \<Rightarrow> ('c, 'z) session \<Rightarrow> ('c, 'z) session \<Rightarrow> bool" where
  "partly ae ao s0 s \<longleftrightarrow> ao_multiauthmethod ao \<and> auth_authdone (ses_authstate s) = auth_authdone (ses_authstate s0) \<and> ses_creds s = ses_creds s0 \<and> same_count s0 s
     \<and> auth_authtypes (ses_authstate s) \<noteq> 0 \<and> (\<exists>pw. logged ae ao s0 s pw \<and>
        (password_request ae ao s0 pw \<and> auth_authtypes (ses_authstate s) = auth_authtypes (ses_authstate s0) AND NOT AUTH_TYPE_PASSWORD
           \<and> auth_pubkey_options (ses_authstate s) = auth_pubkey_options (ses_authstate s0)
         \<or> (\<exists>po. key_request ae ao s0 pw po \<and> auth_authtypes (ses_authstate s) = auth_authtypes (ses_authstate s0) AND NOT AUTH_TYPE_PUBKEY
           \<and> auth_pubkey_options (ses_authstate s) = take_options (auth_pubkey_options (ses_authstate s0)) po)))"

text \<open>The user is authenticated, and the process has the identity of the user.\<close>

definition accepted :: "auth_env \<Rightarrow> auth_opts \<Rightarrow> ('c, 'z) session \<Rightarrow> ('c, 'z) session \<Rightarrow> bool" where
  "accepted ae ao s0 s \<longleftrightarrow> auth_authdone (ses_authstate s) \<and> auth_authtypes (ses_authstate s) = auth_authtypes (ses_authstate s0) \<and> same_count s0 s
     \<and> (\<exists>pw. logged ae ao s0 s pw \<and> became (ses_creds s0) pw (ses_creds s) \<and>
        (blank_login ao pw \<and> auth_pubkey_options (ses_authstate s) = auth_pubkey_options (ses_authstate s0)
         \<or> password_request ae ao s0 pw \<and> (ao_multiauthmethod ao \<longrightarrow> auth_authtypes (ses_authstate s0) AND NOT AUTH_TYPE_PASSWORD = 0)
           \<and> auth_pubkey_options (ses_authstate s) = auth_pubkey_options (ses_authstate s0)
         \<or> (\<exists>po. key_request ae ao s0 pw po \<and> (ao_multiauthmethod ao \<longrightarrow> auth_authtypes (ses_authstate s0) AND NOT AUTH_TYPE_PUBKEY = 0)
           \<and> auth_pubkey_options (ses_authstate s) = take_options (auth_pubkey_options (ses_authstate s0)) po)))"

definition outcome :: "'z env \<Rightarrow> auth_env \<Rightarrow> auth_opts \<Rightarrow> ('c, 'z) session \<Rightarrow> ('c, 'z) session \<Rightarrow> bool" where
  "outcome e ae ao s0 s \<longleftrightarrow> auth_ses_ok e ae s \<and> ses_session_id s = ses_session_id s0
     \<and> (\<forall>u. auth_username (ses_authstate s0) = Some u \<longrightarrow> auth_username (ses_authstate s) = Some u)
     \<and> (refused ao s0 s \<or> partly ae ao s0 s \<or> accepted ae ao s0 s)"

lemma after_failure_ok:
  assumes h: "handling e ae s0 s" and f: "after_failure e ao incr s s'"
  shows "auth_ses_ok e ae s'" "ses_session_id s' = ses_session_id s0"
    "\<And>u. auth_username (ses_authstate s0) = Some u \<Longrightarrow> auth_username (ses_authstate s') = Some u"
proof -
  have f': "send_ok e s'" "ses_svr s' = ses_svr s" "ses_session_id s' = ses_session_id s"
    "ses_authstate s' = (ses_authstate s)\<lparr>auth_failcount := auth_failcount (ses_authstate s) + (if incr then 1 else 0)\<rparr>"
    using f unfolding after_failure_def by simp_all
  show "auth_ses_ok e ae s'" "ses_session_id s' = ses_session_id s0"
    using h unfolding handling_def auth_ses_ok_def f'(2-4) account_inv_more using f'(1) by blast+
  show "auth_username (ses_authstate s0) = Some u \<Longrightarrow> auth_username (ses_authstate s') = Some u" for u
    using h unfolding handling_def f'(4) by simp
qed

lemma runs_refuse:
  assumes h: "handling e ae s0 s" shows "runs (outcome e ae ao s0) (send_msg_userauth_failure e ae ao False incr s)"
proof (rule runs_weaken [OF runs_failure])
  show "send_ok e s" using h by (simp add: handling_def auth_ses_ok_def)
  fix s' assume f: "after_failure e ao incr s s'"
  have "refused ao s0 s'"
    using f h by (cases incr) (auto simp: after_failure_def refused_def same_count_def counted_def handling_def)
  then show "outcome e ae ao s0 s'" using after_failure_ok [OF h f] by (simp add: outcome_def)
qed

text \<open>A success of one method that leaves the methods \<open>t\<close> to be shown and takes the options \<open>po'\<close>.\<close>

lemma handling_username: "handling e ae s0 s \<Longrightarrow> auth_username (ses_authstate s0) = Some u \<Longrightarrow> auth_username (ses_authstate s) = Some u"
  by (simp add: handling_def)

lemma handling_ses: "handling e ae s0 s \<Longrightarrow> auth_ses_ok e ae s"
  by (simp add: handling_def)

lemma handling_send: "handling e ae s0 s \<Longrightarrow> send_ok e s"
  by (simp add: handling_def auth_ses_ok_def)

abbreviation shown_state :: "u8 \<Rightarrow> PubKeyOptions option \<Rightarrow> ('c, 'z) session \<Rightarrow> ('c, 'z) session" where
  "shown_state t po' s \<equiv> s\<lparr>ses_authstate := (ses_authstate s)\<lparr>auth_authtypes := t, auth_pubkey_options := po'\<rparr>\<rparr>"

lemma shown_ok: "auth_ses_ok e ae s \<Longrightarrow> auth_ses_ok e ae (shown_state t po' s)"
  unfolding auth_ses_ok_def send_ok_def trans_macsize_def by (elim conjE, intro conjI; simp)

lemma runs_partly:
  assumes h: "handling e ae s0 s" and l: "logged ae ao s0 s pw" and m: "ao_multiauthmethod ao" "t \<noteq> 0"
    and c: "password_request ae ao s0 pw \<and> t = auth_authtypes (ses_authstate s0) AND NOT AUTH_TYPE_PASSWORD \<and> po' = auth_pubkey_options (ses_authstate s0)
      \<or> (\<exists>po. key_request ae ao s0 pw po \<and> t = auth_authtypes (ses_authstate s0) AND NOT AUTH_TYPE_PUBKEY \<and> po' = take_options (auth_pubkey_options (ses_authstate s0)) po)"
  shows "runs (outcome e ae ao s0) (send_msg_userauth_failure e ae ao True False (shown_state t po' s))"
proof -
  let ?s = "shown_state t po' s"
  have ok: "auth_ses_ok e ae ?s" by (rule shown_ok [OF handling_ses [OF h]])
  have "send_ok e ?s" using ok by (simp add: auth_ses_ok_def)
  from runs_failure [OF this] show ?thesis
  proof (rule runs_weaken)
    fix s' assume f: "after_failure e ao False ?s s'"
    then have f': "send_ok e s'" "ses_svr s' = ses_svr s" "ses_session_id s' = ses_session_id s" "ses_authstate s' = ses_authstate ?s" "sleeps s' = sleeps s"
      by (simp_all add: after_failure_def sleeps_def)
    have "auth_ses_ok e ae s'" using ok unfolding auth_ses_ok_def f' using f'(1) by simp
    moreover have "partly ae ao s0 s'"
      using h l m c unfolding partly_def same_count_def logged_def handling_def f' by (simp add: sleeps_def) blast
    ultimately show "outcome e ae ao s0 s'" using handling_username [OF h] h unfolding outcome_def f' by (simp add: handling_def)
  qed
qed

lemma runs_accept:
  assumes h: "handling e ae s0 s" and l: "logged ae ao s0 s pw" and a: "is_account (ses_authstate s) pw"
    and c: "blank_login ao pw \<and> po' = auth_pubkey_options (ses_authstate s0)
      \<or> password_request ae ao s0 pw \<and> (ao_multiauthmethod ao \<longrightarrow> auth_authtypes (ses_authstate s0) AND NOT AUTH_TYPE_PASSWORD = 0) \<and> po' = auth_pubkey_options (ses_authstate s0)
      \<or> (\<exists>po. key_request ae ao s0 pw po \<and> (ao_multiauthmethod ao \<longrightarrow> auth_authtypes (ses_authstate s0) AND NOT AUTH_TYPE_PUBKEY = 0)
           \<and> po' = take_options (auth_pubkey_options (ses_authstate s0)) po)"
  shows "runs (outcome e ae ao s0) (send_msg_userauth_success e ae (shown_state (auth_authtypes (ses_authstate s)) po' s))"
proof -
  let ?s = "shown_state (auth_authtypes (ses_authstate s)) po' s"
  have ok: "auth_ses_ok e ae ?s" by (rule shown_ok [OF handling_ses [OF h]])
  have k: "send_ok e ?s" "cr_euid (ses_creds ?s) = cr_uid (ses_creds ?s)" "is_account (ses_authstate ?s) pw"
    using ok a unfolding auth_ses_ok_def by simp_all
  from runs_success [OF k(1,3,2)] show ?thesis
  proof (rule runs_weaken)
    fix s' assume "after_success e pw ?s s'"
    then have f: "send_ok e s'" "svr_banner (ses_svr s') = svr_banner (ses_svr s)" "ses_session_id s' = ses_session_id s"
      "ses_authstate s' = (ses_authstate ?s)\<lparr>auth_authdone := True\<rparr>" "sleeps s' = sleeps s" "became (ses_creds s) pw (ses_creds s')"
      by (simp_all add: after_success_def sleeps_def)
    have "cr_euid (ses_creds s') = cr_uid (ses_creds s') \<and> cr_egid (ses_creds s') = cr_gid (ses_creds s')"
      using f(6) ok by (auto simp: became_def auth_ses_ok_def split: if_splits)
    then have "auth_ses_ok e ae s'" using ok f(1) unfolding auth_ses_ok_def f(2-4) by simp
    moreover have "accepted ae ao s0 s'"
      using h l c f(6) unfolding accepted_def same_count_def logged_def handling_def f(4,5) by simp blast
    ultimately show "outcome e ae ao s0 s'" using handling_username [OF h] h unfolding outcome_def f(3,4) by (simp add: handling_def)
  qed
qed

section \<open>Methods\<close>

lemma shown_same: "shown_state (auth_authtypes (ses_authstate s)) (auth_pubkey_options (ses_authstate s)) s = s"
  by simp

lemma shown_types: "upd_auth (\<lambda>a. a\<lparr>auth_authtypes := f (auth_authtypes a)\<rparr>) s = shown_state (f (auth_authtypes (ses_authstate s))) (auth_pubkey_options (ses_authstate s)) s"
  by (simp add: upd_auth_def)

lemma handling_types: "handling e ae s0 s \<Longrightarrow> auth_authtypes (ses_authstate s) = auth_authtypes (ses_authstate s0)"
  and handling_options: "handling e ae s0 s \<Longrightarrow> auth_pubkey_options (ses_authstate s) = auth_pubkey_options (ses_authstate s0)"
  by (simp_all add: handling_def)

lemma keeps_pl_getstring_value:
  assumes "handling e ae s0 s"
  shows "keeps (\<lambda>(str, n, s'). (handling e ae s0 s' \<and> ses_authstate s' = ses_authstate s)
       \<and> (\<exists>p0 pb pb'. ses_payload s0 = Some p0 \<and> same_buf p0 pb \<and> buf_getstring pb = Inr (str, n, pb'))) (pl_getstring s)"
proof -
  obtain p0 pb where p: "ses_payload s0 = Some p0" "ses_payload s = Some pb" "same_buf p0 pb" using handling_payload [OF assms] by blast
  have "\<exists>p0 pb pb'. ses_payload s0 = Some p0 \<and> same_buf p0 pb \<and> buf_getstring pb = Inr (str, n, pb')" if "pl_getstring s = Inr (str, n, s')" for str n s'
    using that p by (cases "buf_getstring pb") (auto simp: pl_getstring_def)
  then show ?thesis using keeps_pl_getstring [OF assms] by (cases "pl_getstring s") auto
qed

lemma strcmp_same: "\<not> constant_time_strcmp a b \<Longrightarrow> a = b"
  by (auto intro!: nth_equalityI simp: constant_time_strcmp_def constant_time_memcmp_eq split: if_splits)

lemma account_passwd: "user_account ae u = Some pw \<Longrightarrow> \<exists>crypt. pwd_passwd pw = Some crypt"
  by (auto simp: user_account_def split: option.splits)

lemma keeps_auth_password:
  assumes h: "handling e ae s0 s" and v: "valid \<Longrightarrow> logged ae ao s0 s pw \<and> is_account (ses_authstate s) pw"
    and o: "ao_password_auth ao" "\<not> ao_noauthpass ao" "\<not> (ao_norootpass ao \<and> auth_pw_uid (ses_authstate s) = 0)"
  shows "keeps (outcome e ae ao s0) (svr_auth_password e ae ao valid s)"
proof -
  have no: "keeps (outcome e ae ao s0) (send_msg_userauth_failure e ae ao False True s1)" if "handling e ae s0 s1" for s1
    using runs_keeps [OF runs_refuse [OF that]] by blast
  have check: "keeps (outcome e ae ao s0) (case auth_pw_passwd (ses_authstate s2) of None \<Rightarrow> Inl NullDeref
       | Some passwdcrypt \<Rightarrow>
         (case ae_crypt ae (cstr password) passwdcrypt of
            None \<Rightarrow> send_msg_userauth_failure e ae ao False True s2
          | Some testcrypt \<Rightarrow>
            if passwdcrypt = [] then send_msg_userauth_failure e ae ao False True s2
            else if \<not> constant_time_strcmp testcrypt passwdcrypt
            then if ao_multiauthmethod ao \<and> auth_authtypes (ses_authstate s2) AND NOT AUTH_TYPE_PASSWORD \<noteq> 0
                 then send_msg_userauth_failure e ae ao True False
                        (upd_auth (\<lambda>a. a\<lparr>auth_authtypes := auth_authtypes a AND NOT AUTH_TYPE_PASSWORD\<rparr>) s2)
                 else send_msg_userauth_success e ae s2
            else send_msg_userauth_failure e ae ao False True s2))"
    if h2: "handling e ae s0 s2" "ses_authstate s2 = ses_authstate s"
      and g: "\<exists>p0 pb pb' n. ses_payload s0 = Some p0 \<and> same_buf p0 pb \<and> buf_getstring pb = Inr (password, n, pb')" and ok: valid for password s2
  proof -
    have a: "is_account (ses_authstate s2) pw" "logged ae ao s0 s2 pw" using v [OF ok] h2(2) by (simp_all add: logged_def)
    obtain u where u: "auth_username (ses_authstate s2) = Some u" "user_account ae u = Some pw" using a(2) by (auto simp: logged_def)
    obtain crypt where c: "pwd_passwd pw = Some crypt" using account_passwd [OF u(2)] by blast
    have pw: "auth_pw_passwd (ses_authstate s2) = Some crypt" "auth_pw_uid (ses_authstate s2) = pwd_uid pw" using a(1) c by (simp_all add: is_account_def)
    show ?thesis
    proof (cases "crypt \<noteq> [] \<and> ae_crypt ae (cstr password) crypt = Some crypt")
      case True
      then have r: "password_request ae ao s0 pw" using g o c pw(2) unfolding password_request_def h2(2) by metis
      note t = handling_types [OF h2(1)] handling_options [OF h2(1)]
      have "keeps (outcome e ae ao s0) (send_msg_userauth_failure e ae ao True False (upd_auth (\<lambda>a. a\<lparr>auth_authtypes := auth_authtypes a AND NOT AUTH_TYPE_PASSWORD\<rparr>) s2))"
        if "ao_multiauthmethod ao" "auth_authtypes (ses_authstate s2) AND NOT AUTH_TYPE_PASSWORD \<noteq> 0"
        unfolding shown_types [where f = "\<lambda>t. t AND NOT AUTH_TYPE_PASSWORD"] by (rule runs_keeps [OF runs_partly [OF h2(1) a(2) that]]) (use r t in simp_all)
      moreover have "keeps (outcome e ae ao s0) (send_msg_userauth_success e ae s2)"
        if "\<not> (ao_multiauthmethod ao \<and> auth_authtypes (ses_authstate s2) AND NOT AUTH_TYPE_PASSWORD \<noteq> 0)"
        by (rule runs_keeps [OF runs_accept [OF h2(1) a(2,1), where po' = "auth_pubkey_options (ses_authstate s2)", unfolded shown_same]]) (use r t that in auto)
      ultimately show ?thesis using no [OF h2(1)] pw(1) True by simp
    next
      case False
      then show ?thesis using no [OF h2(1)] pw(1) strcmp_same by (auto split: option.split)
    qed
  qed
  show ?thesis
    unfolding svr_auth_password_def
    apply (rule keeps_rbind [OF keeps_pl_getbool [OF h]])
    apply clarsimp
    apply (intro conjI impI, erule no)
    apply (rule keeps_rbind [OF keeps_pl_getstring_value], assumption)
    apply (split prod.split, intro allI impI)
    apply (split prod.split, intro allI impI)
    apply (rule keeps_if, rule no, simp)
    apply (rule keeps_if, rule no, simp)
    by (rule check, simp, simp, clarify, blast, simp)
qed

lemma keeps_pubkey_success:
  assumes h: "handling e ae s0 s" and l: "logged ae ao s0 s pw" "is_account (ses_authstate s) pw" and k: "key_request ae ao s0 pw po"
  shows "keeps (outcome e ae ao s0) (pubkey_success e ae ao po s)"
proof -
  let ?o = "take_options (auth_pubkey_options (ses_authstate s0)) po" let ?t = "auth_authtypes (ses_authstate s)"
  define s1 where "s1 = (if auth_pubkey_options (ses_authstate s) = None then upd_auth (\<lambda>a. a\<lparr>auth_pubkey_options := Some po\<rparr>) s else s)"
  have s1: "s1 = shown_state ?t ?o s"
  proof (cases "auth_pubkey_options (ses_authstate s)")
    case None
    then show ?thesis using handling_options [OF h] by (simp add: s1_def upd_auth_def take_options_def)
  next
    case (Some q)
    then have "?o = auth_pubkey_options (ses_authstate s)" using handling_options [OF h] by (auto simp: take_options_def)
    then show ?thesis using Some shown_same [of s] by (simp add: s1_def)
  qed
  have m: "upd_auth (\<lambda>a. a\<lparr>auth_authtypes := auth_authtypes a AND NOT AUTH_TYPE_PUBKEY\<rparr>) s1 = shown_state (?t AND NOT AUTH_TYPE_PUBKEY) ?o s"
    unfolding s1 by (simp add: upd_auth_def)
  have t1: "auth_authtypes (ses_authstate s1) = ?t" unfolding s1 by simp
  show ?thesis
  proof (cases "ao_multiauthmethod ao \<and> ?t AND NOT AUTH_TYPE_PUBKEY \<noteq> 0")
    case True
    then have "keeps (outcome e ae ao s0) (send_msg_userauth_failure e ae ao True False (shown_state (?t AND NOT AUTH_TYPE_PUBKEY) ?o s))"
      by (intro runs_keeps [OF runs_partly [OF h l(1)]]) (use k handling_types [OF h] in auto)
    then show ?thesis using True by (simp add: pubkey_success_def Let_def s1_def [symmetric] t1 m)
  next
    case False
    then have "keeps (outcome e ae ao s0) (send_msg_userauth_success e ae (shown_state ?t ?o s))"
      by (intro runs_keeps [OF runs_accept [OF h l]]) (use k handling_types [OF h] in auto)
    then show ?thesis using False by (simp add: pubkey_success_def Let_def s1_def [symmetric] t1) (auto simp: s1)
  qed
qed

lemma keeps_verify_pubkey:
  assumes h: "handling e ae s0 s" and l: "logged ae ao s0 s pw" "is_account (ses_authstate s) pw" and p: "ses_payload s = Some pb"
    and t: "signkey_type_from_signature sigtype = Inr keytype" "signkey_name_from_type keytype = Inr algo" and ke: "key_env_ok (ae_keys ae)"
    and au: "authorised ae ao (ses_creds s0) pw algo (take (unat (n :: u32)) (drop (unat (buf_pos pb)) (buf_data pb))) po"
  shows "keeps (outcome e ae ao s0) (verify_pubkey e ae ao sigtype keytype po s)"
proof -
  have no: "keeps (outcome e ae ao s0) (send_msg_userauth_failure e ae ao False True s1)" if "handling e ae s0 s1" for s1
    using runs_keeps [OF runs_refuse [OF that]] by blast
  obtain p0 where p0: "ses_payload s0 = Some p0" "same_buf p0 pb" using handling_payload [OF h] p by auto
  obtain sid where sid: "ses_session_id s = Some sid" "buf_wf sid" "ses_session_id s0 = Some sid"
    using h unfolding handling_def auth_ses_ok_def by force
  have bg: "ses_payload_beginning s = ses_payload_beginning s0" using h by (simp add: handling_def)
  have ty: "keytype \<noteq> DROPBEAR_SIGNKEY_ANY" using t(2) by (auto simp: signkey_name_from_type_def signkey_types)
  have verified: "keeps (outcome e ae ao s0) (rbind (buf_verify (ae_keys ae) pb2 (set_sk_flags po key) sigtype sb) (\<lambda>(good, pb).
            let s = s\<lparr>ses_payload := Some pb\<rparr> in
            if good then pubkey_success e ae ao po s else send_msg_userauth_failure e ae ao False True s))"
    if g: "buf_get_pub_key pb new_sign_key keytype = Inr (True, key, keytype, pb1)" and b: "same_buf pb pb1" "same_buf pb1 pb2" "buf_pos pb2 = buf_pos pb1"
      and k: "pub_ok key" "is_sk keytype \<longrightarrow> sk_app_ok key" and sb: "buf_wf sb" "buf_content sb = signed_bytes sid (ses_payload_beginning s) pb1"
    for key pb1 pb2 sb
  proof -
    have k': "pub_ok (set_sk_flags po key)" "is_sk keytype \<longrightarrow> sk_app_ok (set_sk_flags po key)"
      using pub_ok_set(4) [OF k(1)] k(2) by (simp_all add: set_sk_flags_def Let_def sk_app_ok_def)
    note b2 = same_buf_trans [OF b(1,2)]
    have good: "key_request ae ao s0 pw po" if "buf_verify (ae_keys ae) pb2 (set_sk_flags po key) sigtype sb = Inr (True, pb3)" for pb3
      unfolding key_request_def using p0 sid(3) t au g b(3) sb(2) that same_buf_trans [OF p0(2) b2] bg by metis
    have hh: "handling e ae s0 (s\<lparr>ses_payload := Some pb3\<rparr>)" if "same_buf pb2 pb3" for pb3
      by (rule handling_read [OF h p same_buf_trans [OF b2 that]])
    show ?thesis
    proof (cases "buf_verify (ae_keys ae) pb2 (set_sk_flags po key) sigtype sb")
      case (Inl err)
      then show ?thesis using keeps_verify [OF same_buf_wf [OF b2] k'(1) sb(1) ke t(1) k'(2)] by simp
    next
      case (Inr r)
      obtain gd pb3 where r: "r = (gd, pb3)" by (cases r)
      have s3: "same_buf pb2 pb3" using keeps_verify [OF same_buf_wf [OF b2] k'(1) sb(1) ke t(1) k'(2)] Inr r by simp
      have lg: "logged ae ao s0 (s\<lparr>ses_payload := Some pb3\<rparr>) pw" "is_account (ses_authstate (s\<lparr>ses_payload := Some pb3\<rparr>)) pw" using l by (simp_all add: logged_def)
      show ?thesis using keeps_pubkey_success [OF hh [OF s3] lg] no [OF hh [OF s3]] good Inr r by (simp add: Let_def)
    qed
  qed
  show ?thesis
    unfolding verify_pubkey_def p option.case
  proof (rule keeps_runs [OF runs_ret [OF runs_get_pub_key [OF same_buf_wf [OF p0(2)] ty]]])
    fix x assume x: "buf_get_pub_key pb new_sign_key keytype = Inr x
      \<and> (case x of (ok, key, ty', b') \<Rightarrow> same_buf pb b' \<and> (ok \<longrightarrow> ty' = keytype \<and> pub_ok key \<and> (is_sk keytype \<longrightarrow> sk_app_ok key)))"
    obtain ok key ty' pb1 where xx: "x = (ok, key, ty', pb1)" by (cases x)
    let ?s = "s\<lparr>ses_payload := Some pb1\<rparr>"
    have h1: "handling e ae s0 ?s" using handling_read [OF h p] x xx by simp
    have "keeps (outcome e ae ao s0) (rbind (sign_data ?s) (\<lambda>(signbuf, s).
          case ses_payload s of None \<Rightarrow> Inl NullDeref
          | Some pb \<Rightarrow>
            rbind (buf_verify (ae_keys ae) pb (set_sk_flags po key) sigtype signbuf) (\<lambda>(good, pb).
            let s = s\<lparr>ses_payload := Some pb\<rparr> in
            if good then pubkey_success e ae ao po s
            else send_msg_userauth_failure e ae ao False True s)))" if ok: ok
    proof (rule keeps_rbind [OF keeps_sign_data [OF _ _ _ sid(2), of _ pb1]])
      show "ses_payload ?s = Some pb1" "ses_session_id ?s = Some sid" using sid(1) by simp_all
      show "buf_wf pb1" using x xx same_buf_wf by auto
      fix y assume y: "case y of (sb, s') \<Rightarrow> \<exists>pb'. s' = ?s\<lparr>ses_payload := Some pb'\<rparr> \<and> same_buf pb1 pb' \<and> buf_pos pb' = buf_pos pb1
          \<and> buf_wf sb \<and> buf_content sb = signed_bytes sid (ses_payload_beginning ?s) pb1"
      then obtain sb pb2 where yy: "y = (sb, ?s\<lparr>ses_payload := Some pb2\<rparr>)" "same_buf pb1 pb2" "buf_pos pb2 = buf_pos pb1" "buf_wf sb"
          "buf_content sb = signed_bytes sid (ses_payload_beginning s) pb1" by auto
      have x': "buf_get_pub_key pb new_sign_key keytype = Inr (True, key, keytype, pb1)" "same_buf pb pb1" "pub_ok key" "is_sk keytype \<longrightarrow> sk_app_ok key"
        using x xx ok by auto
      show "keeps (outcome e ae ao s0) (case y of (signbuf, s) \<Rightarrow> case ses_payload s of None \<Rightarrow> Inl NullDeref
          | Some pb \<Rightarrow>
            rbind (buf_verify (ae_keys ae) pb (set_sk_flags po key) sigtype signbuf) (\<lambda>(good, pb).
            let s = s\<lparr>ses_payload := Some pb\<rparr> in
            if good then pubkey_success e ae ao po s
            else send_msg_userauth_failure e ae ao False True s))"
        using verified [OF x'(1,2) yy(2,3) x'(3,4) yy(4,5)] by (simp add: yy(1))
    qed
    then show "keeps (outcome e ae ao s0) (case x of (ok, key, keytype, pb) \<Rightarrow>
        let s = s\<lparr>ses_payload := Some pb\<rparr> in
        if \<not> ok then send_msg_userauth_failure e ae ao False True s
        else
          rbind (sign_data s) (\<lambda>(signbuf, s).
          case ses_payload s of None \<Rightarrow> Inl NullDeref
          | Some pb \<Rightarrow>
            rbind (buf_verify (ae_keys ae) pb (set_sk_flags po key) sigtype signbuf) (\<lambda>(good, pb).
            let s = s\<lparr>ses_payload := Some pb\<rparr> in
            if good then pubkey_success e ae ao po s
            else send_msg_userauth_failure e ae ao False True s)))"
      using no [OF h1] unfolding xx prod.case Let_def by (intro keeps_if [rotated]) simp
  qed
qed

lemma outcome_handling: "handling e ae s0 s \<Longrightarrow> outcome e ae ao s0 s"
  unfolding outcome_def refused_def same_count_def handling_def by blast

lemma outcome_query:
  assumes "outcome e ae ao s0 s" shows "outcome e ae ao s0 (upd_auth (\<lambda>a. a\<lparr>auth_serv_pubkey_query_count := f a\<rparr>) s)"
proof -
  let ?s = "upd_auth (\<lambda>a. a\<lparr>auth_serv_pubkey_query_count := f a\<rparr>) s"
  have f: "auth_authdone (ses_authstate ?s) = auth_authdone (ses_authstate s)" "auth_authtypes (ses_authstate ?s) = auth_authtypes (ses_authstate s)"
    "auth_pubkey_options (ses_authstate ?s) = auth_pubkey_options (ses_authstate s)" "auth_failcount (ses_authstate ?s) = auth_failcount (ses_authstate s)"
    "auth_username (ses_authstate ?s) = auth_username (ses_authstate s)" "ses_svr ?s = ses_svr s" "ses_session_id ?s = ses_session_id s" "sleeps ?s = sleeps s"
    by (simp_all add: upd_auth_def sleeps_def)
  have g: "auth_ses_ok e ae ?s = auth_ses_ok e ae s"
    unfolding auth_ses_ok_def f send_ok_def trans_macsize_def by (simp add: upd_auth_def)
  show ?thesis using assms unfolding outcome_def refused_def partly_def accepted_def logged_def same_count_def counted_def f g .
qed

lemma runs_pk_ok:
  assumes h: "handling e ae s0 s" and n: "unat sl \<le> length sigalgo" "unat kl \<le> length blob"
  shows "runs (outcome e ae ao s0) (send_msg_userauth_pk_ok e sigalgo sl blob kl s)"
proof -
  note w = send_ok_D(1) [OF handling_send [OF h]]
  have "runs (grown (ses_writepayload s)) (rbind (buf_putbyte (ses_writepayload s) SSH_MSG_USERAUTH_PK_OK) (\<lambda>wp.
            rbind (buf_putstring wp sigalgo sl) (\<lambda>wp. buf_putstring wp blob kl)))"
    apply (rule runs_rbind [OF runs_putbyte [OF w]])
    apply (rule runs_rbind [OF runs_putstring], simp add: grown_def, rule n(1))
    by (rule runs_weaken [OF runs_putstring]) (use n in \<open>auto simp: grown_def\<close>)
  from runs_send [OF handling_send [OF h] this] show ?thesis
    unfolding send_msg_userauth_pk_ok_def by (rule runs_weaken) (use handling_core [OF h] outcome_handling in blast)
qed

lemma signature_names:
  assumes "signature_type_from_name name len \<noteq> DROPBEAR_SIGNKEY_NONE"
  shows "\<exists>keytype algo. signkey_type_from_signature (signature_type_from_name name len) = Inr keytype \<and> signkey_name_from_type keytype = Inr algo"
proof (cases "same_name name len (lit ''rsa-sha2-256'')")
  case True
  then show ?thesis by (simp add: signature_type_from_name_def signkey_type_from_signature_def signkey_name_from_type_def signkey_types)
next
  case False
  define t where "t = signkey_type_from_name name len"
  have t: "signature_type_from_name name len = t" "t \<noteq> DROPBEAR_SIGNKEY_NONE" using False assms by (simp_all add: signature_type_from_name_def t_def)
  have "0 \<le> t" "nat t < 7" using signkey_type_name(1,2) [OF t_def [symmetric] t(2)] by (simp_all add: signkey_names_def)
  then show ?thesis unfolding t(1) by (auto simp: signkey_type_from_signature_def signkey_name_from_type_def signkey_types)
qed

text \<open>The part of \<^verbatim>\<open>svr_auth_pubkey\<close> after the key blob has been found in the payload.\<close>

lemma keeps_query_key:
  assumes h: "handling e ae s0 s" and l: "logged ae ao s0 s pw" "is_account (ses_authstate s) pw" and p: "ses_payload s = Some pb"
    and ke: "key_env_ok (ae_keys ae)" and b: "unat (buf_pos pb) + unat kl \<le> length (buf_data pb)" and sl: "unat sl \<le> length sigalgo"
    and t: "signkey_type_from_signature sigtype = Inr keytype" "signkey_name_from_type keytype = Inr algo"
  shows "keeps (outcome e ae ao s0) (rbind (checkpubkey e ae ao algo (of_nat (length algo)) (drop (unat (buf_pos pb)) (buf_data pb)) kl s) (\<lambda>(r, s).
           case r of
             None \<Rightarrow>
               let incrfail = (auth_serv_pubkey_query_count (ses_authstate s) > 0) in
               rbind (send_msg_userauth_failure e ae ao False incrfail s) (\<lambda>s.
               Inr (upd_auth (\<lambda>a. a\<lparr>auth_serv_pubkey_query_count := auth_serv_pubkey_query_count a + 1\<rparr>) s))
           | Some po \<Rightarrow>
               if testkey then send_msg_userauth_pk_ok e sigalgo sl (drop (unat (buf_pos pb)) (buf_data pb)) kl s
               else verify_pubkey e ae ao sigtype keytype po s))"
proof (rule keeps_rbind [OF keeps_checkpubkey [OF h l(2) names_of_type [OF t(2)]]])
  let ?blob = "drop (unat (buf_pos pb)) (buf_data pb)"
  show "unat kl \<le> length ?blob" using b by simp
  fix x assume x: "case x of (r, s') \<Rightarrow> with_creds e (ses_creds s) s s' \<and> (\<forall>po. r = Some po \<longrightarrow> authorised ae ao (ses_creds s) pw algo (take (unat kl) ?blob) po)"
  obtain r s1 where xx: "x = (r, s1)" by (cases x)
  have w: "with_creds e (ses_creds s) s s1" and au: "\<And>po. r = Some po \<Longrightarrow> authorised ae ao (ses_creds s0) pw algo (take (unat kl) ?blob) po"
    using x xx handling_creds [OF h] by auto
  have h1: "handling e ae s0 s1" by (rule with_creds_handling [OF h w])
  have s1: "logged ae ao s0 s1 pw" "is_account (ses_authstate s1) pw" "ses_payload s1 = Some pb"
    using w l p by (auto simp: with_creds_def logged_def)
  have "keeps (outcome e ae ao s0) (rbind (send_msg_userauth_failure e ae ao False incr s1) (\<lambda>s.
               Inr (upd_auth (\<lambda>a. a\<lparr>auth_serv_pubkey_query_count := auth_serv_pubkey_query_count a + 1\<rparr>) s)))" for incr
    by (rule keeps_runs [OF runs_refuse [OF h1]]) (simp add: outcome_query)
  moreover have "keeps (outcome e ae ao s0) (send_msg_userauth_pk_ok e sigalgo sl ?blob kl s1)"
    by (rule runs_keeps [OF runs_pk_ok [OF h1 sl]]) (use b in simp_all)
  moreover have "keeps (outcome e ae ao s0) (verify_pubkey e ae ao sigtype keytype po s1)" if "r = Some po" for po
    by (rule keeps_verify_pubkey [OF h1 s1 t ke au [OF that]])
  ultimately show "keeps (outcome e ae ao s0) (case x of (r, s) \<Rightarrow> case r of
             None \<Rightarrow>
               let incrfail = (auth_serv_pubkey_query_count (ses_authstate s) > 0) in
               rbind (send_msg_userauth_failure e ae ao False incrfail s) (\<lambda>s.
               Inr (upd_auth (\<lambda>a. a\<lparr>auth_serv_pubkey_query_count := auth_serv_pubkey_query_count a + 1\<rparr>) s))
           | Some po \<Rightarrow>
               if testkey then send_msg_userauth_pk_ok e sigalgo sl ?blob kl s
               else verify_pubkey e ae ao sigtype keytype po s)"
    unfolding xx prod.case Let_def by (cases r) auto
qed

lemma keeps_auth_pubkey:
  assumes h: "handling e ae s0 s" and v: "valid \<Longrightarrow> logged ae ao s0 s pw \<and> is_account (ses_authstate s) pw" and ke: "key_env_ok (ae_keys ae)"
  shows "keeps (outcome e ae ao s0) (svr_auth_pubkey e ae ao valid s)"
proof -
  have no: "keeps (outcome e ae ao s0) (send_msg_userauth_failure e ae ao False False s1)" if "handling e ae s0 s1" for s1
    using runs_keeps [OF runs_refuse [OF that]] by blast
  have rest: "keeps (outcome e ae ao s0) (case ses_payload s2 of None \<Rightarrow> Inl NullDeref
     | Some pb \<Rightarrow>
       rbind (buf_getint pb) (\<lambda>(keybloblen, pb).
       let s = s2\<lparr>ses_payload := Some pb\<rparr> in
       rbind (buf_getptr pb keybloblen) (\<lambda>p.
       let keyblob = drop p (buf_data pb) in
       if \<not> valid then send_msg_userauth_failure e ae ao False False s
       else
         let sigtype = signature_type_from_name sigalgo sl in
         if sigtype = DROPBEAR_SIGNKEY_NONE then send_msg_userauth_failure e ae ao False False s
         else
           rbind (signkey_type_from_signature sigtype) (\<lambda>keytype.
           rbind (signkey_name_from_type keytype) (\<lambda>keyalgo.
           rbind (checkpubkey e ae ao keyalgo (of_nat (length keyalgo)) keyblob keybloblen s) (\<lambda>(r, s).
           case r of
             None \<Rightarrow>
               let incrfail = (auth_serv_pubkey_query_count (ses_authstate s) > 0) in
               rbind (send_msg_userauth_failure e ae ao False incrfail s) (\<lambda>s.
               Inr (upd_auth (\<lambda>a. a\<lparr>auth_serv_pubkey_query_count := auth_serv_pubkey_query_count a + 1\<rparr>) s))
           | Some po \<Rightarrow>
               if testkey then send_msg_userauth_pk_ok e sigalgo sl keyblob keybloblen s
               else verify_pubkey e ae ao sigtype keytype po s))))))"
    if h2: "handling e ae s0 s2" "ses_authstate s2 = ses_authstate s" and sl: "unat sl \<le> length sigalgo" for s2 sigalgo sl testkey
  proof -
    obtain pb0 where pb0: "ses_payload s2 = Some pb0" "buf_wf pb0" using handling_payload [OF h2(1)] by blast
    show ?thesis
      unfolding pb0(1) option.case
    proof (rule keeps_runs [OF runs_getint [OF pb0(2)]], goal_cases)
      case (1 x)
      obtain kl pb where x: "x = (kl, pb)" "same_buf pb0 pb" using 1 by (cases x) auto
      let ?s = "s2\<lparr>ses_payload := Some pb\<rparr>"
      have h3: "handling e ae s0 ?s" by (rule handling_read [OF h2(1) pb0(1) x(2)])
      show ?case
        unfolding x(1) prod.case Let_def
        apply (rule keeps_runs [OF runs_getptr_data [OF same_buf_wf [OF x(2)]]])
        apply (rule keeps_if, rule no [OF h3])
        apply (rule keeps_if, rule no [OF h3])
        subgoal premises q for p
        proof -
          obtain keytype algo where t: "signkey_type_from_signature (signature_type_from_name sigalgo sl) = Inr keytype" "signkey_name_from_type keytype = Inr algo"
            using signature_names q(3) by blast
          have l: "logged ae ao s0 ?s pw" "is_account (ses_authstate ?s) pw" using v q(2) h2(2) by (simp_all add: logged_def)
          have p: "p = unat (buf_pos pb)" "unat (buf_pos pb) + unat kl \<le> length (buf_data pb)" using q(1) by simp_all
          show ?thesis unfolding t rbind_simps p(1) 
            by (rule keeps_query_key [OF h3 l _ ke p(2) sl t, of testkey, unfolded Let_def]) simp
        qed
        done
    qed
  qed
  show ?thesis
    unfolding svr_auth_pubkey_def
    apply (rule keeps_rbind [OF keeps_pl_getbool [OF h]])
    apply (split prod.split, intro allI impI)
    apply (subst Let_def)
    apply (rule keeps_rbind [OF keeps_pl_getstring [of e ae s0]], simp)
    apply (split prod.split, intro allI impI)
    apply (split prod.split, intro allI impI)
    by (rule rest) auto
qed

lemma keeps_userauth_method:
  assumes h: "handling e ae s0 s" and v: "valid \<Longrightarrow> logged ae ao s0 s pw \<and> is_account (ses_authstate s) pw" and ke: "key_env_ok (ae_keys ae)"
  shows "keeps (outcome e ae ao s0) (userauth_method e ae ao valid name len s)"
proof -
  have no: "keeps (outcome e ae ao s0) (send_msg_userauth_failure e ae ao False incr s)" for incr
    using runs_keeps [OF runs_refuse [OF h]] by blast
  have "keeps (outcome e ae ao s0) (case auth_pw_passwd (ses_authstate s) of None \<Rightarrow> Inl NullDeref
          | Some pw \<Rightarrow> if pw = [] then send_msg_userauth_success e ae s else send_msg_userauth_failure e ae ao False False s)"
    if c: "valid" "ao_allowblankpass ao" "\<not> ao_noauthpass ao" "\<not> (ao_norootpass ao \<and> auth_pw_uid (ses_authstate s) = 0)"
  proof -
    have l: "logged ae ao s0 s pw" "is_account (ses_authstate s) pw" using v [OF c(1)] by simp_all
    obtain crypt where pw: "pwd_passwd pw = Some crypt" "auth_pw_passwd (ses_authstate s) = Some crypt" "auth_pw_uid (ses_authstate s) = pwd_uid pw"
      using l account_passwd by (fastforce simp: logged_def is_account_def)
    have "keeps (outcome e ae ao s0) (send_msg_userauth_success e ae s)" if "crypt = []"
    proof -
      have "blank_login ao pw" using that pw c(2-4) by (simp add: blank_login_def)
      then show ?thesis
        by (intro runs_keeps [OF runs_accept [OF h l, where po' = "auth_pubkey_options (ses_authstate s)", unfolded shown_same]])
          (use handling_options [OF h] in auto)
    qed
    then show ?thesis using no pw(2) by simp
  qed
  then show ?thesis
    using no keeps_auth_password [OF h v] keeps_auth_pubkey [OF h v ke] unfolding userauth_method_def by auto
qed

lemma keeps_userauth_request:
  assumes ok: "auth_ses_ok e ae s0" and p: "ses_payload s0 = Some p0" "buf_wf p0" and ke: "key_env_ok (ae_keys ae)"
  shows "keeps (outcome e ae ao s0) (recv_msg_userauth_request e ae ao s0)"
proof -
  let ?s = "upd_auth (\<lambda>a. a\<lparr>auth_starttime := ae_gettime ae (ses_tick s0)\<rparr>) (tick s0)"
  have h: "handling e ae s0 ?s"
    using ok p same_buf_refl [OF p(2)] unfolding handling_def auth_ses_ok_def send_ok_def trans_macsize_def sleeps_def upd_auth_def tick_def
    by (elim conjE, intro conjI; simp)
  show ?thesis
  proof (cases "auth_authdone (ses_authstate ?s)")
    case True
    then show ?thesis using outcome_handling [OF h] by (simp add: recv_msg_userauth_request_def Let_def)
  next
    case False
    have checked: "keeps (outcome e ae ao s0) (rbind (checkusername ae ao username userlen s) (\<lambda>(valid_user, s).
          userauth_method e ae ao valid_user methodname methodlen s))" if "handling e ae s0 s" for s username userlen methodname methodlen
    proof (rule keeps_rbind [OF keeps_checkusername [OF that, of ao]], goal_cases)
      case (1 x)
      obtain valid s1 where x: "x = (valid, s1)" "handling e ae s0 s1" "valid \<Longrightarrow> \<exists>pw. valid_account ae ao s0 (cstr username) s1 pw" using 1 by (cases x) auto
      obtain pw where "valid \<Longrightarrow> valid_account ae ao s0 (cstr username) s1 pw" using x(3) by blast
      then have "valid \<Longrightarrow> logged ae ao s0 s1 pw \<and> is_account (ses_authstate s1) pw" by (auto simp: valid_account_def logged_def)
      then show ?case unfolding x(1) prod.case by (rule keeps_userauth_method [OF x(2) _ ke])
    qed
    show ?thesis
      unfolding recv_msg_userauth_request_def Let_def if_not_P [OF False]
      apply (rule keeps_rbind [OF keeps_send_banner [OF h]])
      apply (rule keeps_rbind [OF keeps_pl_getstring [of e ae s0]], simp)
      apply clarify
      apply (rule keeps_rbind [OF keeps_pl_getstring [of e ae s0]], simp)
      apply clarify
      apply (rule keeps_rbind [OF keeps_pl_getstring [of e ae s0]], simp)
      apply clarify
      apply (rule keeps_if, simp)
      by (rule checked)
  qed
qed

section \<open>Runs of requests\<close>

text \<open>
  What other packets leave alone between two requests, and the sessions \<open>s\<close> that the server is in after the requests that came in at the sessions \<open>h\<close>.
\<close>

definition same_auth :: "('c, 'z) session \<Rightarrow> ('c, 'z) session \<Rightarrow> bool" where
  "same_auth s s' \<longleftrightarrow> ses_authstate s' = ses_authstate s \<and> ses_creds s' = ses_creds s \<and> sleeps s' = sleeps s \<and> ses_session_id s' = ses_session_id s"

inductive auth_run :: "'z env \<Rightarrow> auth_env \<Rightarrow> auth_opts \<Rightarrow> ('c, 'z) session list \<Rightarrow> ('c, 'z) session \<Rightarrow> bool"
  for e :: "'z env" and ae :: auth_env and ao :: auth_opts where
  start: "auth_ses_ok e ae (svr_authinitialise ao s) \<Longrightarrow> sleeps s = 0 \<Longrightarrow> auth_run e ae ao [] (svr_authinitialise ao s)"
| other: "auth_run e ae ao h s \<Longrightarrow> auth_ses_ok e ae s' \<Longrightarrow> same_auth s s' \<Longrightarrow> auth_run e ae ao h s'"
| request: "auth_run e ae ao h s \<Longrightarrow> ses_payload s = Some p \<Longrightarrow> buf_wf p \<Longrightarrow> recv_msg_userauth_request e ae ao s = Inr s' \<Longrightarrow> auth_run e ae ao (s # h) s'"

definition password_enabled :: "auth_opts \<Rightarrow> bool" where
  "password_enabled ao \<longleftrightarrow> ao_password_auth ao \<and> \<not> ao_noauthpass ao"

definition user_pw :: "auth_env \<Rightarrow> ('c, 'z) session \<Rightarrow> passwd \<Rightarrow> bool" where
  "user_pw ae s pw \<longleftrightarrow> (\<exists>u. auth_username (ses_authstate s) = Some u \<and> user_account ae u = Some pw)"

definition key_shown :: "auth_env \<Rightarrow> auth_opts \<Rightarrow> ('c, 'z) session list \<Rightarrow> passwd \<Rightarrow> bool" where
  "key_shown ae ao h pw \<longleftrightarrow> (\<exists>s\<in>set h. \<exists>po. key_request ae ao s pw po)"

definition password_shown :: "auth_env \<Rightarrow> auth_opts \<Rightarrow> ('c, 'z) session list \<Rightarrow> passwd \<Rightarrow> bool" where
  "password_shown ae ao h pw \<longleftrightarrow> (\<exists>s\<in>set h. password_request ae ao s pw)"

definition credentials_shown :: "auth_env \<Rightarrow> auth_opts \<Rightarrow> ('c, 'z) session list \<Rightarrow> passwd \<Rightarrow> bool" where
  "credentials_shown ae ao h pw \<longleftrightarrow> blank_login ao pw
     \<or> (if ao_multiauthmethod ao then key_shown ae ao h pw \<and> (password_enabled ao \<longrightarrow> password_shown ae ao h pw)
        else key_shown ae ao h pw \<or> password_shown ae ao h pw)"

text \<open>A method that is no longer asked for has been shown.\<close>

definition shown_inv :: "auth_env \<Rightarrow> auth_opts \<Rightarrow> ('c, 'z) session list \<Rightarrow> ('c, 'z) session \<Rightarrow> bool" where
  "shown_inv ae ao h s \<longleftrightarrow>
     (\<not> bit (auth_authtypes (ses_authstate s)) 1 \<longrightarrow> (\<exists>pw. user_pw ae s pw \<and> key_shown ae ao h pw))
     \<and> (\<not> bit (auth_authtypes (ses_authstate s)) 2 \<longrightarrow> password_enabled ao \<longrightarrow> (\<exists>pw. user_pw ae s pw \<and> password_shown ae ao h pw))
     \<and> (auth_authdone (ses_authstate s) \<longrightarrow> (\<exists>pw. user_pw ae s pw \<and> credentials_shown ae ao h pw))"

lemma types_bits:
  "bit (t AND NOT AUTH_TYPE_PUBKEY) 1 \<longleftrightarrow> False" "bit (t AND NOT AUTH_TYPE_PUBKEY) 2 \<longleftrightarrow> bit t 2"
  "bit (t AND NOT AUTH_TYPE_PASSWORD) 2 \<longleftrightarrow> False" "bit (t AND NOT AUTH_TYPE_PASSWORD) 1 \<longleftrightarrow> bit t 1"
  "t AND NOT AUTH_TYPE_PUBKEY = 0 \<Longrightarrow> \<not> bit t 2" "t AND NOT AUTH_TYPE_PASSWORD = 0 \<Longrightarrow> \<not> bit t 1" for t :: u8
proof -
  have p: "bit (AUTH_TYPE_PUBKEY) n \<longleftrightarrow> n = 1" "bit (AUTH_TYPE_PASSWORD) n \<longleftrightarrow> n = 2" if "n < 8" for n
  proof -
    have "n \<in> {0, 1, 2, 3, 4, 5, 6, 7}" using that by auto
    then show "bit (AUTH_TYPE_PUBKEY) n \<longleftrightarrow> n = 1" "bit (AUTH_TYPE_PASSWORD) n \<longleftrightarrow> n = 2"
      by (auto simp: AUTH_TYPE_PUBKEY_def AUTH_TYPE_PASSWORD_def bit_iff_odd)
  qed
  show b: "bit (t AND NOT AUTH_TYPE_PUBKEY) 1 \<longleftrightarrow> False" "bit (t AND NOT AUTH_TYPE_PUBKEY) 2 \<longleftrightarrow> bit t 2"
    "bit (t AND NOT AUTH_TYPE_PASSWORD) 2 \<longleftrightarrow> False" "bit (t AND NOT AUTH_TYPE_PASSWORD) 1 \<longleftrightarrow> bit t 1"
    by (simp_all add: bit_and_iff bit_not_iff p)
  show "t AND NOT AUTH_TYPE_PUBKEY = 0 \<Longrightarrow> \<not> bit t 2" "t AND NOT AUTH_TYPE_PASSWORD = 0 \<Longrightarrow> \<not> bit t 1"
    using b(2,4) by auto
qed

lemma init_types: "auth_authtypes (ses_authstate (svr_authinitialise ao s)) = (if password_enabled ao then 6 else 2)"
  "auth_failcount (ses_authstate (svr_authinitialise ao s)) = 0" "\<not> auth_authdone (ses_authstate (svr_authinitialise ao s))"
  "sleeps (svr_authinitialise ao s) = sleeps s"
  by (simp_all add: svr_authinitialise_def Let_def upd_auth_def zero_authstate_def password_enabled_def AUTH_TYPE_PUBKEY_def AUTH_TYPE_PASSWORD_def sleeps_def)

lemma shown_Cons:
  "key_shown ae ao h pw \<Longrightarrow> key_shown ae ao (s # h) pw" "password_shown ae ao h pw \<Longrightarrow> password_shown ae ao (s # h) pw"
  "credentials_shown ae ao h pw \<Longrightarrow> credentials_shown ae ao (s # h) pw"
  by (auto simp: key_shown_def password_shown_def credentials_shown_def)

lemma shown_head:
  "key_request ae ao s pw po \<Longrightarrow> key_shown ae ao (s # h) pw" "password_request ae ao s pw \<Longrightarrow> password_shown ae ao (s # h) pw"
  by (auto simp: key_shown_def password_shown_def)

lemma user_pw_eq: "user_pw ae s pw \<Longrightarrow> user_pw ae s pw' \<Longrightarrow> pw' = pw"
  by (auto simp: user_pw_def)

lemma shown_step:
  assumes o: "outcome e ae ao s0 s" and i: "shown_inv ae ao h s0" shows "shown_inv ae ao (s0 # h) s"
proof -
  have u: "user_pw ae s0 pw \<Longrightarrow> user_pw ae s pw" for pw using o by (auto simp: outcome_def user_pw_def)
  have l: "logged ae ao s0 s pw \<Longrightarrow> user_pw ae s pw" for pw by (simp add: logged_def user_pw_def)
  define t0 t where "t0 = auth_authtypes (ses_authstate s0)" and "t = auth_authtypes (ses_authstate s)"
  have k: "\<exists>pw. user_pw ae s pw \<and> key_shown ae ao (s0 # h) pw" if "\<not> bit t0 1"
    using i that u shown_Cons(1) [of ae ao h _ s0] unfolding shown_inv_def t0_def by (elim conjE) meson
  have p: "\<exists>pw. user_pw ae s pw \<and> password_shown ae ao (s0 # h) pw" if "\<not> bit t0 2" "password_enabled ao"
    using i that u shown_Cons(2) [of ae ao h _ s0] unfolding shown_inv_def t0_def by (elim conjE) meson
  have d: "\<exists>pw. user_pw ae s pw \<and> credentials_shown ae ao (s0 # h) pw" if "auth_authdone (ses_authstate s0)"
    using i that u shown_Cons(3) [of ae ao h _ s0] unfolding shown_inv_def t0_def by (elim conjE) meson
  have "(\<not> bit t 1 \<longrightarrow> (\<exists>pw. user_pw ae s pw \<and> key_shown ae ao (s0 # h) pw))
     \<and> (\<not> bit t 2 \<longrightarrow> password_enabled ao \<longrightarrow> (\<exists>pw. user_pw ae s pw \<and> password_shown ae ao (s0 # h) pw))
     \<and> (auth_authdone (ses_authstate s) \<longrightarrow> (\<exists>pw. user_pw ae s pw \<and> credentials_shown ae ao (s0 # h) pw))"
    using o unfolding outcome_def
  proof (elim conjE disjE)
    assume "refused ao s0 s"
    then have "t = t0" "auth_authdone (ses_authstate s) = auth_authdone (ses_authstate s0)" by (simp_all add: refused_def t_def t0_def)
    then show ?thesis using k p d by simp
  next
    assume a: "partly ae ao s0 s"
    then obtain pw where pw: "user_pw ae s pw" and same: "auth_authdone (ses_authstate s) = auth_authdone (ses_authstate s0)"
      and c: "password_request ae ao s0 pw \<and> t = t0 AND NOT AUTH_TYPE_PASSWORD \<or> (\<exists>po. key_request ae ao s0 pw po \<and> t = t0 AND NOT AUTH_TYPE_PUBKEY)"
      unfolding partly_def t_def t0_def using l by blast
    from c show ?thesis
    proof
      assume c: "password_request ae ao s0 pw \<and> t = t0 AND NOT AUTH_TYPE_PASSWORD"
      then show ?thesis using k d pw same shown_head(2) [of ae ao s0 pw h] types_bits(4) [of t0] by auto
    next
      assume c: "\<exists>po. key_request ae ao s0 pw po \<and> t = t0 AND NOT AUTH_TYPE_PUBKEY"
      then show ?thesis using p d pw same shown_head(1) [of ae ao s0 pw _ h] types_bits(2) [of t0] by auto
    qed
  next
    assume a: "accepted ae ao s0 s"
    then obtain pw where pw: "user_pw ae s pw" and same: "t = t0"
      and c: "blank_login ao pw \<or> password_request ae ao s0 pw \<and> (ao_multiauthmethod ao \<longrightarrow> t0 AND NOT AUTH_TYPE_PASSWORD = 0)
        \<or> (\<exists>po. key_request ae ao s0 pw po \<and> (ao_multiauthmethod ao \<longrightarrow> t0 AND NOT AUTH_TYPE_PUBKEY = 0))"
      unfolding accepted_def t_def t0_def using l by blast
    have "credentials_shown ae ao (s0 # h) pw"
      using c
    proof (elim disjE)
      assume "blank_login ao pw" then show ?thesis by (simp add: credentials_shown_def)
    next
      assume c: "password_request ae ao s0 pw \<and> (ao_multiauthmethod ao \<longrightarrow> t0 AND NOT AUTH_TYPE_PASSWORD = 0)"
      then have "ao_multiauthmethod ao \<Longrightarrow> key_shown ae ao (s0 # h) pw" using k types_bits(6) [of t0] user_pw_eq [OF pw] by blast
      then show ?thesis using c shown_head(2) [of ae ao s0 pw h] by (auto simp: credentials_shown_def)
    next
      assume c: "\<exists>po. key_request ae ao s0 pw po \<and> (ao_multiauthmethod ao \<longrightarrow> t0 AND NOT AUTH_TYPE_PUBKEY = 0)"
      then have "ao_multiauthmethod ao \<Longrightarrow> password_enabled ao \<Longrightarrow> password_shown ae ao (s0 # h) pw" using p types_bits(5) [of t0] user_pw_eq [OF pw] by blast
      then show ?thesis using c shown_head(1) [of ae ao s0 pw _ h] by (auto simp: credentials_shown_def)
    qed
    then show ?thesis using k p pw same by blast
  qed
  then show ?thesis unfolding shown_inv_def t_def .
qed

definition run_inv :: "'z env \<Rightarrow> auth_env \<Rightarrow> auth_opts \<Rightarrow> ('c, 'z) session list \<Rightarrow> ('c, 'z) session \<Rightarrow> bool" where
  "run_inv e ae ao h s \<longleftrightarrow> auth_ses_ok e ae s \<and> shown_inv ae ao h s \<and> auth_failcount (ses_authstate s) \<le> ao_maxauthtries ao
     \<and> (ao_maxauthtries ao < 0xffffffff \<longrightarrow> sleeps s = unat (auth_failcount (ses_authstate s)))"

lemma run_invariant:
  assumes "auth_run e ae ao h s" "key_env_ok (ae_keys ae)" shows "run_inv e ae ao h s"
  using assms(1)
proof (induction rule: auth_run.induct)
  case (start s)
  have b: "bit (6 :: u8) 1" "bit (6 :: u8) 2" "bit (2 :: u8) 1" by (simp_all add: bit_iff_odd)
  show ?case unfolding run_inv_def shown_inv_def using start b by (simp add: init_types)
next
  case (other h s s')
  then show ?case unfolding run_inv_def shown_inv_def user_pw_def same_auth_def by simp
next
  case (request h s p s')
  have i: "auth_ses_ok e ae s" "shown_inv ae ao h s" "auth_failcount (ses_authstate s) \<le> ao_maxauthtries ao"
    "ao_maxauthtries ao < 0xffffffff \<Longrightarrow> sleeps s = unat (auth_failcount (ses_authstate s))" using request.IH unfolding run_inv_def by simp_all
  have o: "outcome e ae ao s s'" using keeps_InrD [OF keeps_userauth_request [OF i(1) request(2,3) assms(2)] request(4)] .
  have c: "same_count s s' \<or> counted ao s s'" using o unfolding outcome_def refused_def partly_def accepted_def by blast
  have "unat (auth_failcount (ses_authstate s) + 1) = unat (auth_failcount (ses_authstate s)) + 1" if "ao_maxauthtries ao < 0xffffffff"
    using that i(3) by (subst unat_add32) (simp_all add: word_less_nat_alt word_le_nat_alt)
  then have "auth_failcount (ses_authstate s') \<le> ao_maxauthtries ao
     \<and> (ao_maxauthtries ao < 0xffffffff \<longrightarrow> sleeps s' = unat (auth_failcount (ses_authstate s')))"
    using c i(3,4) by (auto simp: same_count_def counted_def)
  then show ?case using o shown_step [OF o i(2)] unfolding run_inv_def outcome_def by simp
qed

section \<open>The properties\<close>

text \<open>
  C6. Whatever a client sends as an authentication request, the server never accesses memory outside its buffers, follows no null pointer and returns:
  the request leaves a well-formed session, or it ends the session by an exit or a failed assertion.
\<close>

theorem userauth_request_safe:
  assumes "auth_ses_ok e ae s0" "ses_payload s0 = Some p0" "buf_wf p0" "key_env_ok (ae_keys ae)"
  shows "(\<exists>s. recv_msg_userauth_request e ae ao s0 = Inr s \<and> auth_ses_ok e ae s)
    \<or> (\<exists>msg. recv_msg_userauth_request e ae ao s0 \<in> {Inl (Exit msg), Inl (Close msg), Inl (AssertFail msg)})"
  using keeps_userauth_request [OF assms, of ao]
  by (cases "recv_msg_userauth_request e ae ao s0") (auto simp: outcome_def tame_def split: fatal.splits)

text \<open>
  C1. A request authenticates a user only if the user has an account that may log in and the request shows a credential: an account without password where this is
  allowed, the password of the account, or a public key that the \<^verbatim>\<open>authorized_keys\<close> of the user authorises with a good signature of the session identifier and the
  request. Then the process has the identity of the user and the options of the key apply.
\<close>

theorem userauth_success_sound:
  assumes "auth_ses_ok e ae s0" "ses_payload s0 = Some p0" "buf_wf p0" "key_env_ok (ae_keys ae)"
    "\<not> auth_authdone (ses_authstate s0)" "recv_msg_userauth_request e ae ao s0 = Inr s" "auth_authdone (ses_authstate s)"
  shows "\<exists>u pw. auth_username (ses_authstate s) = Some u \<and> user_account ae u = Some pw \<and> may_login ae ao (cr_euid (ses_creds s0)) pw
     \<and> became (ses_creds s0) pw (ses_creds s)
     \<and> (blank_login ao pw \<or> password_request ae ao s0 pw
        \<or> (\<exists>po. key_request ae ao s0 pw po \<and> auth_pubkey_options (ses_authstate s) = take_options (auth_pubkey_options (ses_authstate s0)) po))"
proof -
  have o: "outcome e ae ao s0 s" using keeps_InrD [OF keeps_userauth_request [OF assms(1-4)] assms(6)] .
  have "\<not> refused ao s0 s" "\<not> partly ae ao s0 s" using assms(5,7) by (auto simp: refused_def partly_def)
  then have "accepted ae ao s0 s" using o by (simp add: outcome_def)
  then show ?thesis unfolding accepted_def logged_def by blast
qed



text \<open>
  The delay of a failure compensates for the time spent on the request: whatever that time was, from the request to the end of the delay at least 250 milliseconds pass, and the
  delay is below 350 milliseconds; a clock that went backwards does not shorten it.
\<close>

theorem auth_delay_bounds:
  assumes "0 \<le> snd start" "snd start < 1000000000" "0 \<le> snd now" "snd now < 1000000000"
  shows "250000000 \<le> max 0 ((fst now - fst start) * 1000000000 + (snd now - snd start)) + auth_delay start now rnd
    \<and> 0 \<le> auth_delay start now rnd \<and> auth_delay start now rnd < 350000000"
proof -
  define r where "r = uint (250000000 + rnd mod 100000000 :: u32)"
  define k where "k = unat (rnd mod 100000000)"
  have m: "k < 100000000" by (simp add: k_def unat_mod)
  then have "unat (250000000 + rnd mod 100000000) = 250000000 + k" unfolding k_def by (subst unat_add32) simp_all
  then have "r = int (250000000 + k)" unfolding r_def uint_nat by (rule arg_cong)
  then have r: "250000000 \<le> r" "r < 350000000" using m by simp_all
  define sec nsec where "sec = fst now - fst start" and "nsec = snd now - snd start"
  have n: "- 1000000000 < nsec" "nsec < 1000000000" using assms by (simp_all add: nsec_def)
  have d: "auth_delay start now rnd = (if (nsec < 0 \<and> sec = 1 \<and> nsec + 1000000000 \<le> r) then r - (nsec + 1000000000)
      else if nsec \<ge> 0 \<and> sec = 0 \<and> nsec \<le> r then r - nsec else r)"
    unfolding auth_delay_def Let_def r_def [symmetric] sec_def [symmetric] nsec_def [symmetric] by auto
  show ?thesis unfolding d sec_def [symmetric] nsec_def [symmetric] using r n by auto
qed

theorem auth_delay_bounds_witness:
  "250000000 \<le> max 0 ((6 - 5) * 1000000000 + (100 - 999999999)) + auth_delay (5, 999999999) (6, 100) 7 \<and> 0 \<le> auth_delay (5, 999999999) (6, 100) 7
    \<and> auth_delay (5, 999999999) (6, 100) 7 < 350000000"
  using auth_delay_bounds [of "(5, 999999999)" "(6, 100)" 7] by simp

section \<open>A login\<close>

text \<open>The demonstration user, who needs no password, logs in with the method \<^verbatim>\<open>none\<close>.\<close>

definition demo_start :: "(unit, unit) session" where
  "demo_start = svr_authinitialise demo_auth_opts (fresh_session\<lparr>ses_session_id := Some (mkbuf [1])\<rparr>)"

definition demo_request :: bytes where
  "demo_request = sshstr (lit ''u'') @ sshstr (lit ''ssh-connection'') @ sshstr (lit ''none'')"

definition demo_login :: "(unit, unit) session" where
  "demo_login = demo_start\<lparr>ses_payload := Some (text_buf demo_request)\<rparr>"

lemma fresh_svr: "ses_svr fresh_session = zero_svr"
  by (simp add: fresh_session_def common_session_init_def buf_new_def BUF_MAX_SIZE_def TRANS_MAX_PAYLOAD_LEN_def update_channel_prio_def Let_def)

lemma demo_key_env_ok: "key_env_ok (ae_keys demo_auth_env)"
  by (simp add: key_env_ok_def demo_auth_env_def demo_key_env_def)

lemma demo_start_ok: "auth_ses_ok null_env demo_auth_env demo_start" "sleeps demo_start = 0"
proof -
  have "send_ok null_env demo_start = send_ok null_env fresh_session"
    by (simp add: demo_start_def svr_authinitialise_def Let_def upd_auth_def send_ok_def trans_macsize_def)
  then show "auth_ses_ok null_env demo_auth_env demo_start"
    using fresh_send_ok(1) mkbuf_wf [of "[1]"] unfolding auth_ses_ok_def
    by (simp add: demo_start_def svr_authinitialise_def Let_def upd_auth_def fresh_svr zero_svr_def account_inv_def zero_authstate_def)
  show "sleeps demo_start = 0" by (simp add: demo_start_def svr_authinitialise_def Let_def upd_auth_def sleeps_def)
qed

lemma demo_login_ok: "auth_ses_ok null_env demo_auth_env demo_login" "ses_payload demo_login = Some (text_buf demo_request)" "buf_wf (text_buf demo_request)"
  "same_auth demo_start demo_login" "\<not> auth_authdone (ses_authstate demo_login)"
proof -
  show "auth_ses_ok null_env demo_auth_env demo_login"
    using demo_start_ok(1) unfolding auth_ses_ok_def send_ok_def trans_macsize_def demo_login_def by (elim conjE, intro conjI; simp)
  show "buf_wf (text_buf demo_request)" by (rule text_buf_ok(2)) (simp add: demo_request_def lit_def)
  show "ses_payload demo_login = Some (text_buf demo_request)" "same_auth demo_start demo_login" "\<not> auth_authdone (ses_authstate demo_login)"
    using init_types(3) by (simp_all add: demo_login_def same_auth_def sleeps_def demo_start_def)
qed

lemma demo_send:
  assumes "ses_writepayload s = ses_writepayload fresh_session" "ses_keys s = ses_keys fresh_session" "ses_dataallowed s"
  shows "\<exists>wp s'. buf_putbyte (ses_writepayload s) c = Inr wp \<and> encrypt_packet null_env (s\<lparr>ses_writepayload := wp\<rparr>) = Inr s'"
proof -
  note w = send_ok_D [OF fresh_send_ok(1)]
  have "buf_fits (ses_writepayload fresh_session) 1"
    using w fresh_send_ok(2) by (simp add: buf_fits_def wp_empty_def TRANS_MAX_PAYLOAD_LEN_def)
  then obtain wp where wp: "buf_putbyte (ses_writepayload fresh_session) c = Inr wp" using w by (simp add: buf_putbyte_eq)
  have e: "at_end (ses_writepayload fresh_session)" "buf_content (ses_writepayload fresh_session) = []"
    using w fresh_send_ok(2) by (simp_all add: at_end_def wp_empty_def buf_content_def)
  have a: "buf_wf wp" "buf_content wp = [c]" using putbyte_appends [OF e(1) wp] e(2) by (auto simp: appends_def)
  let ?s = "s\<lparr>ses_writepayload := wp\<rparr>"
  have "can_send null_env ?s [c]" using a assms
    by (simp add: can_send_def null_env_def trans_blocksize_def trans_macsize_def none_keys_def
      dropbear_nocipher_def dropbear_nohash_def is_compress_trans_def)
  moreover have "cipher_inverse (dk_crypt_mode (ses_trans ?s)) dropbear_mode_none (trans_blocksize ?s)"
    using assms(2) by (simp add: none_keys_def mode_none_inverse)
  ultimately show ?thesis using encrypt_packet_ok wp assms(1) by metis
qed

lemma pl_getstring_reads:
  assumes "ses_payload s = Some b" "reads b (sshstr x @ t)" "length x \<le> 9000"
  shows "pl_getstring s = Inr (x @ [0], of_nat (length x), s\<lparr>ses_payload := Some (buf_adv b (4 + length x))\<rparr>)"
    "reads (buf_adv b (4 + length x)) t"
  using getstring_reads [OF assms(2,3)] assms(1) by (simp_all add: pl_getstring_def)

lemma demo_success:
  assumes s: "ses_writepayload s = ses_writepayload fresh_session" "ses_keys s = ses_keys fresh_session" "ses_dataallowed s" "ses_svr s = zero_svr"
    and a: "is_account (ses_authstate s) pw"
  shows "\<exists>s'. send_msg_userauth_success null_env demo_auth_env s = Inr s' \<and> auth_authdone (ses_authstate s')"
proof -
  obtain wp s1 where s1: "buf_putbyte (ses_writepayload s) SSH_MSG_USERAUTH_SUCCESS = Inr wp" "encrypt_packet null_env (s\<lparr>ses_writepayload := wp\<rparr>) = Inr s1"
    using demo_send [OF s(1-3)] by blast
  have c: "ses_svr s1 = zero_svr" "ses_authstate s1 = ses_authstate s" using encrypt_packet_core [OF s1(2)] s(4) by (simp_all add: same_core_def)
  show ?thesis
    using s1 a unfolding send_msg_userauth_success_def
    by (simp add: svr_switch_user_def dropbear_assert_def upd_auth_def c zero_svr_def Let_def sys_ids_def upd_creds_def tick_def is_account_def
        demo_auth_env_def m_close_def null_env_def log_event_def)
qed

definition demo_checked :: "(unit, unit) session \<Rightarrow> (unit, unit) session" where
  "demo_checked s = upd_auth (\<lambda>a. a\<lparr>auth_username := Some (lit ''u'')\<rparr>) (fill_passwd demo_auth_env (lit ''u'') s)"

lemma demo_checked_eq:
  "demo_checked s = upd_auth (\<lambda>a. a\<lparr>auth_username := Some (lit ''u''), auth_pw_uid := 7, auth_pw_gid := 8, auth_pw_name := Some (lit ''u''),
      auth_pw_dir := Some (lit ''/h''), auth_pw_shell := Some [], auth_pw_passwd := Some []\<rparr>) s"
proof -
  have g: "ae_getpwnam demo_auth_env (lit ''u'') = Some demo_user" by (simp add: demo_auth_env_def)
  have d: "pwd_uid demo_user = 7" "pwd_gid demo_user = 8" "pwd_name demo_user = lit ''u''" "pwd_dir demo_user = lit ''/h''" "pwd_shell demo_user = []"
    "pwd_passwd demo_user = Some []" by (simp_all add: demo_user_def)
  have x: "(Some [] = Some (lit ''x'')) = False" by (simp add: lit_def)
  show ?thesis unfolding demo_checked_def fill_passwd_def Let_def g option.case d x if_False by (simp add: upd_auth_def)
qed

lemma demo_checkusername:
  assumes "auth_username (ses_authstate s) = None" "\<not> auth_checkusername_failed (ses_authstate s)" "ses_svr s = zero_svr"
  shows "checkusername demo_auth_env demo_auth_opts (lit ''u'' @ [0]) 1 s = Inr (True, demo_checked s)"
    "is_account (ses_authstate (demo_checked s)) demo_user"
proof -
  have u: "cstr (lit ''u'' @ [0]) = lit ''u''" by (simp add: cstr_def lit_def)
  have f: "ses_authstate (demo_checked s) = (ses_authstate s)\<lparr>auth_username := Some (lit ''u''), auth_pw_uid := 7, auth_pw_gid := 8, auth_pw_name := Some (lit ''u''),
      auth_pw_dir := Some (lit ''/h''), auth_pw_shell := Some [], auth_pw_passwd := Some []\<rparr>" "ses_svr (demo_checked s) = zero_svr"
    using assms(3) by (simp_all add: demo_checked_eq upd_auth_def)
  show "is_account (ses_authstate (demo_checked s)) demo_user" by (simp add: f is_account_def demo_user_def)
  show "checkusername demo_auth_env demo_auth_opts (lit ''u'' @ [0]) 1 s = Inr (True, demo_checked s)"
    using assms f unfolding checkusername_def u demo_checked_def [symmetric]
    by (simp add: MAX_USERNAME_LEN_def check_account_def Let_def zero_svr_def demo_auth_opts_def) (simp add: demo_auth_env_def lit_def)
qed

lemma demo_login_runs: "\<exists>s. recv_msg_userauth_request null_env demo_auth_env demo_auth_opts demo_login = Inr s \<and> auth_authdone (ses_authstate s)"
proof -
  let ?s = "upd_auth (\<lambda>a. a\<lparr>auth_starttime := ae_gettime demo_auth_env (ses_tick demo_login)\<rparr>) (tick demo_login)"
  have s: "ses_payload ?s = Some (text_buf demo_request)" "\<not> auth_authdone (ses_authstate ?s)" "svr_banner (ses_svr ?s) = None"
    by (simp_all add: upd_auth_def tick_def demo_login_def demo_start_def svr_authinitialise_def Let_def fresh_svr zero_svr_def zero_authstate_def)
  have r0: "reads (text_buf demo_request) (sshstr (lit ''u'') @ sshstr (lit ''ssh-connection'') @ sshstr (lit ''none'') @ [])"
    using text_buf_ok(1) [of demo_request] by (simp add: demo_request_def lit_def)
  have n: "length (lit ''u'') \<le> 9000" "length (lit ''ssh-connection'') \<le> 9000" "length (lit ''none'') \<le> 9000" by (simp_all add: lit_def)
  let ?s1 = "?s\<lparr>ses_payload := Some (buf_adv (text_buf demo_request) (4 + length (lit ''u'')))\<rparr>"
  note g1 = pl_getstring_reads [OF s(1) r0 n(1)]
  have "ses_payload ?s1 = Some (buf_adv (text_buf demo_request) (4 + length (lit ''u'')))" by simp
  note g2 = pl_getstring_reads [OF this g1(2) n(2)]
  let ?s2 = "?s1\<lparr>ses_payload := Some (buf_adv (buf_adv (text_buf demo_request) (4 + length (lit ''u''))) (4 + length (lit ''ssh-connection'')))\<rparr>"
  have "ses_payload ?s2 = Some (buf_adv (buf_adv (text_buf demo_request) (4 + length (lit ''u''))) (4 + length (lit ''ssh-connection'')))" by simp
  note g3 = pl_getstring_reads [OF this g2(2) n(3)]
  define s3 where "s3 = ?s2\<lparr>ses_payload := Some (buf_adv (buf_adv (buf_adv (text_buf demo_request) (4 + length (lit ''u''))) (4 + length (lit ''ssh-connection''))) (4 + length (lit ''none'')))\<rparr>"
  have f: "auth_username (ses_authstate s3) = None" "\<not> auth_checkusername_failed (ses_authstate s3)" "ses_svr s3 = zero_svr"
    "ses_writepayload s3 = ses_writepayload fresh_session" "ses_keys s3 = ses_keys fresh_session" "ses_dataallowed s3"
    by (simp_all add: s3_def upd_auth_def tick_def demo_login_def demo_start_def svr_authinitialise_def Let_def fresh_svr zero_authstate_def)
  note cu = demo_checkusername [OF f(1-3)]
  have f': "ses_svr (demo_checked s3) = zero_svr" "ses_writepayload (demo_checked s3) = ses_writepayload fresh_session"
    "ses_keys (demo_checked s3) = ses_keys fresh_session" "ses_dataallowed (demo_checked s3)"
    using f(3-6) by (simp_all add: demo_checked_eq upd_auth_def)
  have names: "is_name (lit ''ssh-connection'' @ [0]) (of_nat (length (lit ''ssh-connection''))) (lit ''ssh-connection'')"
    "is_name (lit ''none'' @ [0]) (of_nat (length (lit ''none''))) (lit ''none'')" "of_nat (length (lit ''u'')) = (1 :: u32)"
    by (simp_all add: is_name_def strncmp_eq_def lit_def cstr_def)
  have m: "userauth_method null_env demo_auth_env demo_auth_opts True (lit ''none'' @ [0]) (of_nat (length (lit ''none''))) (demo_checked s3)
      = send_msg_userauth_success null_env demo_auth_env (demo_checked s3)"
    using cu(2) names(2) by (simp add: userauth_method_def demo_auth_opts_def is_account_def demo_user_def)
  show ?thesis
    unfolding recv_msg_userauth_request_def Let_def if_not_P [OF s(2)] send_banner_def s(3) option.case rbind_simps g1(1) prod.case g2(1) g3(1) s3_def [symmetric] names(3) cu(1) m
    using names(1) demo_success [OF f'(2-4,1) cu(2)] by simp
qed

lemma demo_run: "auth_run null_env demo_auth_env demo_auth_opts [] demo_login"
proof (rule auth_run.other [OF _ demo_login_ok(1,4)])
  have z: "sleeps (fresh_session\<lparr>ses_session_id := Some (mkbuf [1])\<rparr>) = 0" by (simp add: sleeps_def)
  show "auth_run null_env demo_auth_env demo_auth_opts [] demo_start"
    using auth_run.start [OF demo_start_ok(1) [unfolded demo_start_def] z] by (simp add: demo_start_def)
qed

theorem userauth_request_safe_witness:
  "\<exists>s. recv_msg_userauth_request null_env demo_auth_env demo_auth_opts demo_login = Inr s \<and> auth_ses_ok null_env demo_auth_env s"
  using userauth_request_safe [OF demo_login_ok(1-3) demo_key_env_ok, of demo_auth_opts] demo_login_runs by auto

theorem userauth_success_sound_witness:
  "\<exists>s u pw. recv_msg_userauth_request null_env demo_auth_env demo_auth_opts demo_login = Inr s \<and> auth_username (ses_authstate s) = Some u
     \<and> user_account demo_auth_env u = Some pw \<and> became (ses_creds demo_login) pw (ses_creds s)"
proof -
  obtain s where s: "recv_msg_userauth_request null_env demo_auth_env demo_auth_opts demo_login = Inr s" "auth_authdone (ses_authstate s)"
    using demo_login_runs by blast
  from userauth_success_sound [OF demo_login_ok(1-3) demo_key_env_ok demo_login_ok(5) s] s(1) show ?thesis by blast
qed



end
