(* ===== verification/Session_Loop.thy ===== *)
theory Session_Loop
  imports Server Auth
begin

text \<open>
  The main loop of a server session (\<^verbatim>\<open>common-session.c\<close>): the exchange of identifications, the timeouts and one
  round of \<^verbatim>\<open>session_loop\<close>, which puts the other components together. The code for the client (more lines before
  the identification) is left out. \<^verbatim>\<open>time_t\<close> and \<^verbatim>\<open>long\<close> have 64 bits; times and limits are \<open>int\<close>, and
  \<^verbatim>\<open>elapsed\<close> has its clamp.
\<close>

section \<open>Parameters\<close>

text \<open>
  The result of \<^verbatim>\<open>select\<close>: its value with the descriptors that are ready to be read and written, or the error.
  \<open>le_select\<close> gets the first descriptor that is not looked at, the two sets and the timeout in seconds;
  \<open>le_exitflag\<close> tells whether a signal has set \<^verbatim>\<open>ses.exitflag\<close> by then.
\<close>

datatype sel_result = Sel_error errno | Sel_ready nat "int \<Rightarrow> bool" "int \<Rightarrow> bool"

record loop_env =
  le_select :: "nat \<Rightarrow> int \<Rightarrow> int list \<Rightarrow> int list \<Rightarrow> int \<Rightarrow> sel_result"
  le_exitflag :: "nat \<Rightarrow> bool"
  le_signal_pipe :: int
  opt_max_duration_secs :: int

definition AUTH_TIMEOUT :: int where "AUTH_TIMEOUT = 300"
definition KEX_REKEY_TIMEOUT :: int where "KEX_REKEY_TIMEOUT = 3600 * 8"
definition KEX_REKEY_DATA :: u32 where "KEX_REKEY_DATA = 2 ^ 30"
definition DEFAULT_KEEPALIVE_LIMIT :: int where "DEFAULT_KEEPALIVE_LIMIT = 3"
definition DROPBEAR_KEEPALIVE_STRING :: bytes where "DROPBEAR_KEEPALIVE_STRING = lit ''keepalive@openssh.com''"
definition LONG_MAX :: int where "LONG_MAX = 2 ^ 63 - 1"

section \<open>Timeouts\<close>

definition send_msg_keepalive :: "'z env \<Rightarrow> ('c, 'z) session \<Rightarrow> ('c, 'z) session res" where
  "send_msg_keepalive e s =
     (let old_time_idle = ses_last_packet_time_idle s in
      rbind (get_any_ready_channel s) (\<lambda>chan.
      rbind (case chan of
               Some i \<Rightarrow> start_send_channel_request i DROPBEAR_KEEPALIVE_STRING s
             | None \<Rightarrow>
                 rbind (buf_putbyte (ses_writepayload s) SSH_MSG_GLOBAL_REQUEST) (\<lambda>wp.
                 rbind (buf_putstring wp (DROPBEAR_KEEPALIVE_STRING @ [0]) (of_nat (length DROPBEAR_KEEPALIVE_STRING))) (\<lambda>wp.
                 Inr (s\<lparr>ses_writepayload := wp\<rparr>)))) (\<lambda>s.
      rbind (buf_putbyte (ses_writepayload s) 1) (\<lambda>wp.
      rbind (encrypt_packet e (s\<lparr>ses_writepayload := wp\<rparr>)) (\<lambda>s.
      Inr ((tick s)\<lparr>ses_last_packet_time_keepalive_sent := e_now e (ses_tick s), ses_last_packet_time_idle := old_time_idle\<rparr>))))))"

definition elapsed :: "int \<Rightarrow> int \<Rightarrow> int" where
  "elapsed now prev = (let del = now - prev in if del > LONG_MAX then LONG_MAX else del)"

definition check_rekey :: "'z env \<Rightarrow> ('c, 'z) kex_env \<Rightarrow> int \<Rightarrow> ('c, 'z) session \<Rightarrow> ('c, 'z) session res" where
  "check_rekey e k now s =
     (if \<not> kex_sentkexinit (ses_kexstate s)
         \<and> (elapsed now (kex_lastkextime (ses_kexstate s)) \<ge> KEX_REKEY_TIMEOUT
            \<or> kex_datarecv (ses_kexstate s) + kex_datatrans (ses_kexstate s) \<ge> KEX_REKEY_DATA
            \<or> kex_needrekey (ses_kexstate s))
      then send_msg_kexinit e k (upd_kexstate (\<lambda>x. x\<lparr>kex_needrekey := False\<rparr>) s) else Inr s)"

definition check_keepalive :: "'z env \<Rightarrow> int \<Rightarrow> ('c, 'z) session \<Rightarrow> ('c, 'z) session res" where
  "check_keepalive e now s =
     (if opt_keepalive_secs e > 0 \<and> auth_authdone (ses_authstate s) then
        rbind (if elapsed now (ses_last_packet_time_any_sent s) \<ge> opt_keepalive_secs e then send_msg_keepalive e s else Inr s) (\<lambda>s.
        rbind (if elapsed now (ses_last_packet_time_keepalive_recv s) \<ge> opt_keepalive_secs e
                  \<and> elapsed now (ses_last_packet_time_keepalive_sent s) \<ge> opt_keepalive_secs e
               then send_msg_keepalive e s else Inr s) (\<lambda>s.
        if elapsed now (ses_last_packet_time_keepalive_recv s) \<ge> opt_keepalive_secs e * DEFAULT_KEEPALIVE_LIMIT
        then Inl (Exit ''Keepalive timeout'') else Inr s))
      else Inr s)"

definition checktimeouts :: "'z env \<Rightarrow> loop_env \<Rightarrow> ('c, 'z) kex_env \<Rightarrow> ('c, 'z) session \<Rightarrow> ('c, 'z) session res" where
  "checktimeouts e le k s =
     (let now = e_now e (ses_tick s); s = tick s in
      if \<not> auth_authdone (ses_authstate s) \<and> elapsed now (ses_connect_time s) \<ge> AUTH_TIMEOUT
      then Inl (Close ''Timeout before auth'')
      else if ses_remoteident s = None then Inr s
      else
        rbind (check_rekey e k now s) (\<lambda>s.
        rbind (check_keepalive e now s) (\<lambda>s.
        if opt_idle_timeout_secs e > 0 \<and> elapsed now (ses_last_packet_time_idle s) \<ge> opt_idle_timeout_secs e
        then Inl (Close ''Idle timeout'')
        else if opt_max_duration_secs le > 0 \<and> elapsed now (ses_connect_time s) \<ge> opt_max_duration_secs le
        then Inl (Close ''Max duration reached'')
        else Inr s)))"

definition update_timeout :: "int \<Rightarrow> int \<Rightarrow> int \<Rightarrow> int \<Rightarrow> int" where
  "update_timeout limit now last_event timeout =
     (if last_event > 0 \<and> limit > 0 then min timeout (max 0 (limit - elapsed now last_event)) else timeout)"

definition select_timeout :: "'z env \<Rightarrow> loop_env \<Rightarrow> ('c, 'z) session \<Rightarrow> int" where
  "select_timeout e le s =
     (let timeout = KEX_REKEY_TIMEOUT;
          now = e_now e (ses_tick s);
          timeout = (if \<not> kex_sentkexinit (ses_kexstate s)
                     then update_timeout KEX_REKEY_TIMEOUT now (kex_lastkextime (ses_kexstate s)) timeout else timeout);
          timeout = (if kex_needrekey (ses_kexstate s) then 0 else timeout);
          timeout = (if \<not> auth_authdone (ses_authstate s)
                     then update_timeout AUTH_TIMEOUT now (ses_connect_time s) timeout else timeout);
          timeout = (if auth_authdone (ses_authstate s)
                     then update_timeout (opt_keepalive_secs e) now
                       (max (ses_last_packet_time_keepalive_recv s) (ses_last_packet_time_keepalive_sent s)) timeout else timeout);
          timeout = update_timeout (opt_idle_timeout_secs e) now (ses_last_packet_time_idle s) timeout;
          timeout = update_timeout (opt_max_duration_secs le) now (ses_connect_time s) timeout in
      max timeout 0)"

section \<open>Identification\<close>

definition send_session_identification :: "('c, 'z) session \<Rightarrow> ('c, 'z) session res" where
  "send_session_identification s =
     (let line = LOCAL_IDENT @ [13, 10] in
      rbind (buf_new (of_nat (length line) + 1)) (\<lambda>writebuf.
      rbind (buf_putbytes writebuf line (of_nat (length line))) (\<lambda>writebuf.
      writebuf_enqueue writebuf s)))"

text \<open>
  The loop of \<^verbatim>\<open>ident_readln\<close>, which is not bounded by the line: a peer that sends nothing is waited for until
  \<^verbatim>\<open>checktimeouts\<close> ends the session. Its value is \<open>None\<close> if it never ends.
\<close>

definition ident_end :: "nat \<Rightarrow> bytes \<Rightarrow> ('c, 'z) session \<Rightarrow> (int \<times> bytes \<times> ('c, 'z) session) res" where
  "ident_end pos buf s = rbind (mem_write buf pos [0]) (\<lambda>buf. Inr (int pos + 1, buf, s))"

partial_function (option) ident_loop :: "'z env \<Rightarrow> loop_env \<Rightarrow> ('c, 'z) kex_env \<Rightarrow> int \<Rightarrow> nat \<Rightarrow> nat \<Rightarrow> bytes \<Rightarrow> ('c, 'z) session
    \<Rightarrow> (int \<times> bytes \<times> ('c, 'z) session) res option" where
  "ident_loop e le k fd count pos buf s =
     (if \<not> pos < count - 1 then Some (ident_end pos buf s)
      else case le_select le (ses_tick s) (fd + 1) [fd] [] 1 of
        Sel_error err \<Rightarrow> if err = EINTR then ident_loop e le k fd count pos buf (tick s) else Some (Inr (-1, buf, tick s))
      | Sel_ready n rd wr \<Rightarrow>
        (case checktimeouts e le k (tick s) of Inl err \<Rightarrow> Some (Inl err)
         | Inr s \<Rightarrow>
           if \<not> rd fd then ident_loop e le k fd count pos buf s
           else
             (case e_read e (ses_tick s) fd 1 of
                RdErr err \<Rightarrow> if err = EINTR then ident_loop e le k fd count pos buf (tick s) else Some (Inr (-1, buf, tick s))
              | RdData bs \<Rightarrow>
                if bs = [] then Some (Inr (-1, buf, tick s))
                else if hd bs = 10 then Some (ident_end pos buf (tick s))
                else if hd bs \<noteq> 13
                then (case mem_write buf pos [hd bs] of Inl err \<Rightarrow> Some (Inl err)
                      | Inr buf \<Rightarrow> ident_loop e le k fd count (Suc pos) buf (tick s))
                else ident_loop e le k fd count pos buf (tick s))))"

definition ident_readln :: "'z env \<Rightarrow> loop_env \<Rightarrow> ('c, 'z) kex_env \<Rightarrow> int \<Rightarrow> bytes \<Rightarrow> nat \<Rightarrow> ('c, 'z) session
    \<Rightarrow> (int \<times> bytes \<times> ('c, 'z) session) res option" where
  "ident_readln e le k fd buf count s =
     (if count < 1 then Some (Inr (-1, buf, s)) else ident_loop e le k fd count 0 buf s)"

definition strncmp_eq :: "bytes \<Rightarrow> bytes \<Rightarrow> nat \<Rightarrow> bool" where
  "strncmp_eq a b n \<longleftrightarrow> take n (cstr a) = take n (cstr b)"

text \<open>The one round of the loop that a server makes; a line that is no identification ends the session.\<close>

definition read_session_identification :: "'z env \<Rightarrow> loop_env \<Rightarrow> ('c, 'z) kex_env \<Rightarrow> ('c, 'z) session \<Rightarrow> ('c, 'z) session res option" where
  "read_session_identification e le k s =
     (let linebuf = map (e_uninit e) [0..<256] in
      obind (ident_readln e le k (ses_sock_in s) linebuf (length linebuf) s) (\<lambda>(len, linebuf, s).
      if \<not> (len \<ge> 4 \<and> take 4 linebuf = lit ''SSH-'') then Some svr_remoteclosed
      else
        let remoteident = take (nat len) linebuf; s = s\<lparr>ses_remoteident := Some remoteident\<rparr> in
        if \<not> strncmp_eq remoteident (lit ''SSH-2.'') 6 \<and> \<not> strncmp_eq remoteident (lit ''SSH-1.99-'') 9
        then Some (Inl (Exit (''Incompatible remote version '' @ [CHR 0x27] @ ''%s'' @ [CHR 0x27])))
        else Some (Inr s)))"

section \<open>The loop\<close>

text \<open>The second half of a round, after \<^verbatim>\<open>select\<close>. The signal pipe is emptied, whatever is in it.\<close>

definition session_ready :: "'z env \<Rightarrow> loop_env \<Rightarrow> ('c, 'z) kex_env \<Rightarrow> ('c, 'z) packettypes \<Rightarrow> net \<Rightarrow> ('c, 'z) chan_env
    \<Rightarrow> ('c, 'z) handler \<Rightarrow> (int \<Rightarrow> bool) \<Rightarrow> (int \<Rightarrow> bool) \<Rightarrow> ('c, 'z) session \<Rightarrow> ('c, 'z) session res option" where
  "session_ready e le k types nt cn loophandler readfd writefd s =
     obind (Some (checktimeouts e le k (s\<lparr>ses_channel_signal_pending := readfd (le_signal_pipe le)\<rparr>))) (\<lambda>s.
     obind (if ses_sock_in s \<noteq> -1 then
              obind (if \<not> readfd (ses_sock_in s) then Some (Inr s)
                     else if ses_remoteident s = None then read_session_identification e le k s
                     else Some (read_packet e s)) (\<lambda>s.
              Some (if ses_payload s \<noteq> None then process_packet e types s else Inr s))
            else Some (Inr s)) (\<lambda>s.
     Some (rbind (maybe_flush_reply_queue e s) (\<lambda>s.
           rbind (handle_connect_fds e nt (run_callback e cn) writefd s) (\<lambda>s.
           rbind (loophandler s) (\<lambda>s.
           rbind (channelio e cn readfd writefd s) (\<lambda>s.
           if ses_sock_out s \<noteq> -1 \<and> ses_writequeue s \<noteq> [] then write_packet e s else Inr s)))))))"

definition session_round :: "'z env \<Rightarrow> loop_env \<Rightarrow> ('c, 'z) kex_env \<Rightarrow> ('c, 'z) packettypes \<Rightarrow> net \<Rightarrow> ('c, 'z) chan_env
    \<Rightarrow> ('c, 'z) handler \<Rightarrow> ('c, 'z) session \<Rightarrow> ('c, 'z) session res option" where
  "session_round e le k types nt cn loophandler s =
     (let writequeue_has_space = (ses_writequeue_len s \<le> 2 * TRANS_MAX_PAYLOAD_LEN);
          timeout = select_timeout e le s;
          s = tick s in
      obind (Some (dropbear_assert ''ses.payload == NULL'' (ses_payload s = None))) (\<lambda>_.
      obind (Some (setchannelfds s writequeue_has_space)) (\<lambda>(chan_rfds, chan_wfds).
      obind (Some (set_listener_fds s)) (\<lambda>listen_fds.
      obind (Some (set_connect_fds nt (run_callback e cn) s)) (\<lambda>(conn_fds, s).
      let rfds = le_signal_pipe le # chan_rfds @ listen_fds
            @ (if ses_sock_in s \<noteq> -1 \<and> (ses_remoteident s \<noteq> None \<or> ses_writequeue s = []) \<and> writequeue_has_space
               then [ses_sock_in s] else []);
          wfds = chan_wfds @ conn_fds @ (if ses_sock_out s \<noteq> -1 \<and> ses_writequeue s \<noteq> [] then [ses_sock_out s] else []);
          val = le_select le (ses_tick s) (ses_maxfd s + 1) rfds wfds timeout;
          s = (tick s)\<lparr>ses_exitflag := (ses_exitflag s \<or> le_exitflag le (ses_tick s))\<rparr> in
      if ses_exitflag s then Some (Inl (Exit ''Terminated by signal''))
      else case val of
        Sel_error err \<Rightarrow> if err \<noteq> EINTR then Some (Inl (Exit ''Error in select''))
                         else session_ready e le k types nt cn loophandler (\<lambda>_. False) (\<lambda>_. False) s
      | Sel_ready n rd wr \<Rightarrow>
          session_ready e le k types nt cn loophandler (\<lambda>fd. n > 0 \<and> fd \<in> set rfds \<and> rd fd) (\<lambda>fd. n > 0 \<and> fd \<in> set wfds \<and> wr fd) s)))))"


section \<open>Reading the identification\<close>

lemma elapsed_ge: "n \<le> LONG_MAX \<Longrightarrow> n \<le> elapsed now prev \<longleftrightarrow> n \<le> now - prev"
  by (auto simp: elapsed_def Let_def)

lemma tick_at [simp]: "tick (s\<lparr>ses_tick := t\<rparr>) = s\<lparr>ses_tick := Suc t\<rparr>"
  by (simp add: tick_def)

text \<open>A session that waits for the identification of a user who is not authenticated.\<close>

definition waits_ident :: "('c, 'z) session \<Rightarrow> bool" where
  "waits_ident s \<longleftrightarrow> \<not> auth_authdone (ses_authstate s) \<and> ses_remoteident s = None"

lemma checktimeouts_ident:
  "waits_ident s \<Longrightarrow> checktimeouts e le k (s\<lparr>ses_tick := t\<rparr>) =
     (if 300 \<le> e_now e t - ses_connect_time s then Inl (Close ''Timeout before auth'') else Inr (s\<lparr>ses_tick := Suc t\<rparr>))"
  by (simp add: checktimeouts_def waits_ident_def elapsed_ge AUTH_TIMEOUT_def LONG_MAX_def)

lemma ident_late:
  assumes "waits_ident s" "\<And>t. T \<le> t \<Longrightarrow> 300 \<le> e_now e t - ses_connect_time s"
  shows "T \<le> t \<Longrightarrow> le_select le (t + d) (fd + 1) [fd] [] 1 \<noteq> Sel_error EINTR \<Longrightarrow> \<exists>r. ident_loop e le k fd count pos buf (s\<lparr>ses_tick := t\<rparr>) = Some r"
proof (induction d arbitrary: t)
  case 0
  then show ?case using assms(2) [of "Suc t"]
    by (subst ident_loop.simps) (auto simp: checktimeouts_ident [OF assms(1)] split: sel_result.splits)
next
  case (Suc d)
  have "\<exists>r. ident_loop e le k fd count pos buf (s\<lparr>ses_tick := Suc t\<rparr>) = Some r" using Suc by (intro Suc.IH) auto
  then show ?case using assms(2) [of "Suc t"] Suc.prems(1)
    by (subst ident_loop.simps) (auto simp: checktimeouts_ident [OF assms(1)] split: sel_result.splits)
qed

lemma ident_returns:
  assumes s: "waits_ident s" and late: "\<And>t. T \<le> t \<Longrightarrow> 300 \<le> e_now e t - ses_connect_time s"
    and sel: "\<And>t. \<exists>d. le_select le (t + d) (fd + 1) [fd] [] 1 \<noteq> Sel_error EINTR"
  shows "\<exists>r. ident_loop e le k fd count pos buf (s\<lparr>ses_tick := t\<rparr>) = Some r"
proof (induction "T - t" arbitrary: t pos buf rule: less_induct)
  case less
  show ?case
  proof (cases "T \<le> t")
    case True
    then show ?thesis using ident_late [OF s late, of T t le] sel [of t] by blast
  next
    case False
    have later: "\<exists>r. ident_loop e le k fd count pos' buf' (s\<lparr>ses_tick := Suc t'\<rparr>) = Some r" if "t \<le> t'" for pos' buf' t'
      using less [of "Suc t'"] False that by simp
    show ?thesis using later [of t] later [of "Suc t"] later [of "Suc (Suc t)"]
      by (subst ident_loop.simps)
         (auto simp: checktimeouts_ident [OF s] split: sel_result.splits rd_result.splits sum.splits)
  qed
qed

text \<open>What a line of at most \<open>count\<close> bytes may be: an error, or a string without line ends.\<close>

definition ident_line :: "nat \<Rightarrow> ('c, 'z) session \<Rightarrow> (int \<times> bytes \<times> ('c, 'z) session) res \<Rightarrow> bool" where
  "ident_line count s r \<longleftrightarrow> runs (\<lambda>(len, buf, s'). s' = s\<lparr>ses_tick := ses_tick s'\<rparr> \<and> (len = -1 \<or>
     (\<exists>v. take (nat len) buf = v @ [0] \<and> length v < count \<and> 10 \<notin> set v \<and> 13 \<notin> set v))) r"

lemma ident_line_end:
  assumes "length buf = count" "pos < count" "10 \<notin> set (take pos buf)" "13 \<notin> set (take pos buf)"
  shows "ident_line count s (ident_end pos buf (s\<lparr>ses_tick := t\<rparr>))"
proof -
  have "take (nat (int pos + 1)) (take pos buf @ [0] @ drop (Suc pos) buf) = take pos buf @ [0]" using assms(1,2) by (simp add: nat_add_distrib)
  then show ?thesis using assms by (simp add: ident_line_def ident_end_def mem_write_def)
qed

lemma ident_line_char:
  assumes "mem_write buf pos [c] = Inr buf'" "length buf = count" "c \<noteq> 10" "c \<noteq> 13" "10 \<notin> set (take pos buf)" "13 \<notin> set (take pos buf)"
  shows "length buf' = count" "10 \<notin> set (take (Suc pos) buf')" "13 \<notin> set (take (Suc pos) buf')"
  using assms by (auto simp: mem_write_def take_Suc_conv_app_nth split: if_splits)

lemma ident_line_loop:
  assumes "ident_loop e le k fd count pos buf s0 = Some r"
  shows "s0 = s\<lparr>ses_tick := t\<rparr> \<Longrightarrow> waits_ident s \<Longrightarrow> length buf = count \<Longrightarrow> pos < count \<Longrightarrow> 10 \<notin> set (take pos buf) \<Longrightarrow>
    13 \<notin> set (take pos buf) \<Longrightarrow> ident_line count s r"
proof (induction arbitrary: s t rule: ident_loop.raw_induct [OF _ assms])
  case (1 ident e le k fd count pos buf s0 r)
  note s0 = "1"(3) and w = "1"(4) and line = "1"(5-8)
  have again: "ident e le k fd count pos' buf' (s\<lparr>ses_tick := t'\<rparr>) = Some r \<Longrightarrow> length buf' = count \<Longrightarrow> pos' < count
      \<Longrightarrow> 10 \<notin> set (take pos' buf') \<Longrightarrow> 13 \<notin> set (take pos' buf') \<Longrightarrow> ident_line count s r" for pos' buf' t'
    using "1"(1) [OF _ refl w] by blast
  have failed: "ident_line count s (Inr (-1, buf, s\<lparr>ses_tick := t'\<rparr>))" for t' by (simp add: ident_line_def)
  have char: "ident e le k fd count (Suc pos) buf' (s\<lparr>ses_tick := t'\<rparr>) = Some r \<Longrightarrow> Suc pos < count
      \<Longrightarrow> mem_write buf pos [c] = Inr buf' \<Longrightarrow> c \<noteq> 10 \<Longrightarrow> c \<noteq> 13 \<Longrightarrow> ident_line count s r" for c buf' t'
    using again ident_line_char [OF _ line(1) _ _ line(3,4)] by blast
  have wr: "mem_write buf pos [c] \<noteq> Inl err" for c err using line(1,2) by (simp add: mem_write_def)
  show ?case
    using "1"(2) ident_line_end [OF line] again [OF _ line] failed char wr
    unfolding s0
    by (auto simp: checktimeouts_ident [OF w] ident_line_def split: if_splits sel_result.splits rd_result.splits sum.splits)
qed

lemma cstr_snoc: "cstr (v @ [0]) = cstr v"
  by (induction v) (auto simp: cstr_def)

lemma strncmp_prefix:
  assumes "strncmp_eq (v @ [0]) w n" "length w = n" "0 \<notin> set w"
  shows "take n v = w"
proof -
  have w: "cstr w = w" using assms(3) by (induction w) (auto simp: cstr_def)
  obtain z where z: "v = cstr v @ z" unfolding cstr_def by (metis takeWhile_dropWhile_id)
  have eq: "take n (cstr v) = w" using assms(1,2) by (simp add: strncmp_eq_def cstr_snoc w)
  then have "n \<le> length (cstr v)" using assms(2) by auto
  then show ?thesis by (subst z) (simp add: eq)
qed

text \<open>
  C13. The identification of the peer is read in bounded time and memory, however slowly the peer sends and whatever it sends: if the
  clock goes on and \<^verbatim>\<open>select\<close> is not interrupted for ever, \<^verbatim>\<open>read_session_identification\<close> returns or ends the process cleanly, at the latest when
  the time for authentication is over. If it returns, the session has a string of less than 256 bytes without line ends that
  starts with one of the two versions that are spoken, and nothing else of the session has changed.
\<close>

theorem session_identification:
  assumes "\<not> auth_authdone (ses_authstate s)" "ses_remoteident s = None"
    and "\<And>t. T \<le> t \<Longrightarrow> AUTH_TIMEOUT \<le> e_now e t - ses_connect_time s"
    and "\<And>t. \<exists>t' \<ge> t. le_select le t' (ses_sock_in s + 1) [ses_sock_in s] [] 1 \<noteq> Sel_error EINTR"
  shows "\<exists>r. read_session_identification e le k s = Some r \<and> runs (\<lambda>s'. \<exists>v. s' = s\<lparr>ses_tick := ses_tick s', ses_remoteident := Some (v @ [0])\<rparr>
     \<and> length v < 256 \<and> 10 \<notin> set v \<and> 13 \<notin> set v \<and> (take 6 v = lit ''SSH-2.'' \<or> take 9 v = lit ''SSH-1.99-'')) r"
proof -
  let ?buf = "map (e_uninit e) [0..<256]" let ?fd = "ses_sock_in s"
  have w: "waits_ident s" using assms(1,2) by (simp add: waits_ident_def)
  have at: "s = s\<lparr>ses_tick := ses_tick s\<rparr>" by simp
  have "\<exists>d. le_select le (t + d) (?fd + 1) [?fd] [] 1 \<noteq> Sel_error EINTR" for t
    using assms(4) [of t] by (metis le_add_diff_inverse)
  then obtain r where r: "ident_loop e le k ?fd 256 0 ?buf s = Some r"
    using ident_returns [OF w, of T e le ?fd k 256 0 ?buf "ses_tick s"] assms(3) by (auto simp: AUTH_TIMEOUT_def)
  have l: "ident_line 256 s r" using ident_line_loop [OF r at w] by simp
  show ?thesis
  proof (cases r)
    case (Inl err)
    then show ?thesis using r l by (simp add: read_session_identification_def ident_readln_def ident_line_def)
  next
    case (Inr x)
    obtain len buf s' where x: "x = (len, buf, s')" by (cases x)
    note eval = read_session_identification_def ident_readln_def r Inr x svr_remoteclosed_def
    show ?thesis
    proof (cases "len \<ge> 4 \<and> take 4 buf = lit ''SSH-''")
      case False
      then show ?thesis by (auto simp: eval)
    next
      case True
      then obtain v where v: "s' = s\<lparr>ses_tick := ses_tick s'\<rparr>" "take (nat len) buf = v @ [0]" "length v < 256" "10 \<notin> set v" "13 \<notin> set v"
        using l by (auto simp: ident_line_def Inr x)
      have t: "s'\<lparr>ses_remoteident := i\<rparr> = s\<lparr>ses_tick := ses_tick (s'\<lparr>ses_remoteident := i\<rparr>), ses_remoteident := i\<rparr>" for i by (subst v(1)) simp
      have "strncmp_eq (v @ [0]) (lit ''SSH-2.'') 6 \<Longrightarrow> take 6 v = lit ''SSH-2.''"
        "strncmp_eq (v @ [0]) (lit ''SSH-1.99-'') 9 \<Longrightarrow> take 9 v = lit ''SSH-1.99-''"
        by (erule strncmp_prefix; simp add: lit_def)+
      then show ?thesis using True v(3-5) t [of "Some (v @ [0])"] by (auto simp: eval v(2) Let_def)
    qed
  qed
qed

definition slow_peer :: loop_env where
  "slow_peer = \<lparr>le_select = (\<lambda>t _ _ _ _. if even t then Sel_error EINTR else Sel_ready 1 (\<lambda>_. True) (\<lambda>_. False)),
     le_exitflag = (\<lambda>_. False), le_signal_pipe = 4, opt_max_duration_secs = 0\<rparr>"

theorem session_identification_witness:
  "\<exists>r. read_session_identification (null_env\<lparr>e_read := \<lambda>t _ _. RdData [(lit ''SSH-2.0-x'' @ [10]) ! ((t - 3) div 4)]\<rparr>) slow_peer undefined fresh_session = Some r
     \<and> runs (\<lambda>s'. ses_remoteident s' \<noteq> None) r"
proof -
  let ?e = "null_env\<lparr>e_read := \<lambda>t _ _. RdData [(lit ''SSH-2.0-x'' @ [10]) ! ((t - 3) div 4)]\<rparr>"
  have s: "\<not> auth_authdone (ses_authstate fresh_session)" "ses_remoteident fresh_session = None" "ses_connect_time fresh_session = 0"
    by (simp_all add: fresh_session_def common_session_init_def buf_new_def BUF_MAX_SIZE_def TRANS_MAX_PAYLOAD_LEN_def update_channel_prio_def Let_def
      zero_authstate_def null_env_def)
  have t: "AUTH_TIMEOUT \<le> e_now ?e t - ses_connect_time fresh_session" if "300 \<le> t" for t
    using that by (simp add: s null_env_def AUTH_TIMEOUT_def)
  have "\<exists>t' \<ge> t. le_select slow_peer t' (ses_sock_in fresh_session + 1) [ses_sock_in fresh_session] [] 1 \<noteq> Sel_error EINTR" for t
    by (rule exI [of _ "2 * t + 1"]) (simp add: slow_peer_def)
  then obtain r where r: "read_session_identification ?e slow_peer undefined fresh_session = Some r"
    and "runs (\<lambda>s'. \<exists>v. s' = fresh_session\<lparr>ses_tick := ses_tick s', ses_remoteident := Some (v @ [0])\<rparr>
      \<and> length v < 256 \<and> 10 \<notin> set v \<and> 13 \<notin> set v \<and> (take 6 v = lit ''SSH-2.'' \<or> take 9 v = lit ''SSH-1.99-'')) r"
    using session_identification [OF s(1,2), of 300 ?e slow_peer undefined] t by blast
  then have "runs (\<lambda>s'. ses_remoteident s' \<noteq> None) r" by (elim runs_weaken) (metis option.distinct(1) session.select_convs(4) session.surjective session.update_convs(4))
  then show ?thesis using r by blast
qed

section \<open>Timeouts\<close>

lemma fresh_loop_fields:
  "\<not> auth_authdone (ses_authstate fresh_session)" "ses_payload fresh_session = None" "ses_chansize fresh_session = 0"
  "ses_listensize fresh_session = 0" "ses_conn_pending fresh_session = []" "ses_connect_time fresh_session = 0"
  "ses_kexstate fresh_session = zero_kexstate" "ses_last_packet_time_idle fresh_session = 0"
  "ses_last_packet_time_keepalive_sent fresh_session = 0" "ses_remoteident fresh_session = None"
  by (simp_all add: fresh_session_def common_session_init_def buf_new_def BUF_MAX_SIZE_def TRANS_MAX_PAYLOAD_LEN_def update_channel_prio_def
    Let_def zero_authstate_def null_env_def)



text \<open>A timeout that needs \<^verbatim>\<open>checktimeouts\<close> at the time \<open>n\<close>: the session has to end or new keys are due.\<close>

definition timeout_due :: "'z env \<Rightarrow> loop_env \<Rightarrow> ('c, 'z) session \<Rightarrow> int \<Rightarrow> bool" where
  "timeout_due e le s n \<longleftrightarrow> (\<not> auth_authdone (ses_authstate s) \<and> AUTH_TIMEOUT \<le> n - ses_connect_time s)
     \<or> (\<not> kex_sentkexinit (ses_kexstate s) \<and> KEX_REKEY_TIMEOUT \<le> n - kex_lastkextime (ses_kexstate s))
     \<or> kex_needrekey (ses_kexstate s)
     \<or> (0 < opt_idle_timeout_secs e \<and> opt_idle_timeout_secs e \<le> n - ses_last_packet_time_idle s)
     \<or> (0 < opt_max_duration_secs le \<and> opt_max_duration_secs le \<le> n - ses_connect_time s)"

definition limits_ok :: "'z env \<Rightarrow> loop_env \<Rightarrow> bool" where
  "limits_ok e le \<longleftrightarrow> opt_idle_timeout_secs e \<le> LONG_MAX \<and> opt_max_duration_secs le \<le> LONG_MAX"

lemma update_timeout_cases:
  "0 < ev \<Longrightarrow> 0 < limit \<Longrightarrow> update_timeout limit now ev t = min t (max 0 (limit - elapsed now ev))"
  "ev \<le> 0 \<or> limit \<le> 0 \<Longrightarrow> update_timeout limit now ev t = t"
  by (auto simp: update_timeout_def)

lemma select_timeout_cases:
  assumes "\<not> kex_sentkexinit (ses_kexstate s)" "\<not> kex_needrekey (ses_kexstate s)"
  shows "select_timeout e le s =
    (let now = e_now e (ses_tick s);
         rekey = update_timeout KEX_REKEY_TIMEOUT now (kex_lastkextime (ses_kexstate s)) KEX_REKEY_TIMEOUT;
         auth = (if auth_authdone (ses_authstate s)
           then update_timeout (opt_keepalive_secs e) now (max (ses_last_packet_time_keepalive_recv s) (ses_last_packet_time_keepalive_sent s)) rekey
           else update_timeout AUTH_TIMEOUT now (ses_connect_time s) rekey) in
     max (update_timeout (opt_max_duration_secs le) now (ses_connect_time s)
       (update_timeout (opt_idle_timeout_secs e) now (ses_last_packet_time_idle s) auth)) 0)"
  using assms by (simp add: select_timeout_def Let_def)

lemma update_timeout_le: "update_timeout limit now ev t \<le> t"
  by (auto simp: update_timeout_def)

lemma update_timeout_due:
  "0 < ev \<Longrightarrow> 0 < limit \<Longrightarrow> limit \<le> LONG_MAX \<Longrightarrow> limit \<le> n - ev \<Longrightarrow> now \<le> n \<Longrightarrow> now + update_timeout limit now ev t \<le> n"
  by (auto simp: update_timeout_def elapsed_def Let_def min_def max_def)

lemma select_timeout_due:
  assumes due: "timeout_due e le s n" and now: "e_now e (ses_tick s) \<le> n" and ok: "limits_ok e le"
    and set: "0 < ses_connect_time s" "0 < ses_last_packet_time_idle s" "0 < kex_lastkextime (ses_kexstate s)"
  shows "e_now e (ses_tick s) + select_timeout e le s \<le> n"
proof -
  let ?now = "e_now e (ses_tick s)" let ?k = "ses_kexstate s" let ?a = "auth_authdone (ses_authstate s)"
  define t1 where "t1 = (if \<not> kex_sentkexinit ?k then update_timeout KEX_REKEY_TIMEOUT ?now (kex_lastkextime ?k) KEX_REKEY_TIMEOUT else KEX_REKEY_TIMEOUT)"
  define t2 where "t2 = (if kex_needrekey ?k then 0 else t1)"
  define t3 where "t3 = (if \<not> ?a then update_timeout AUTH_TIMEOUT ?now (ses_connect_time s) t2 else t2)"
  define t4 where "t4 = (if ?a then update_timeout (opt_keepalive_secs e) ?now
    (max (ses_last_packet_time_keepalive_recv s) (ses_last_packet_time_keepalive_sent s)) t3 else t3)"
  define t5 where "t5 = update_timeout (opt_idle_timeout_secs e) ?now (ses_last_packet_time_idle s) t4"
  define t6 where "t6 = update_timeout (opt_max_duration_secs le) ?now (ses_connect_time s) t5"
  have st: "select_timeout e le s = max t6 0" unfolding select_timeout_def Let_def t6_def t5_def t4_def t3_def t2_def t1_def by simp
  have le: "t3 \<le> t2" "t4 \<le> t3" "t5 \<le> t4" "t6 \<le> t5" by (simp_all add: t3_def t4_def t5_def t6_def update_timeout_le)
  have lim: "0 < KEX_REKEY_TIMEOUT" "KEX_REKEY_TIMEOUT \<le> LONG_MAX" "0 < AUTH_TIMEOUT" "AUTH_TIMEOUT \<le> LONG_MAX"
    by (simp_all add: KEX_REKEY_TIMEOUT_def AUTH_TIMEOUT_def LONG_MAX_def)
  have "?now + t2 \<le> n \<or> ?now + t3 \<le> n \<or> ?now + t5 \<le> n \<or> ?now + t6 \<le> n"
    using due ok unfolding timeout_due_def limits_ok_def t6_def t5_def t3_def t2_def t1_def
    by (elim disjE) (auto simp: update_timeout_due set lim now)
  then have "?now + t6 \<le> n" using le by linarith
  then show ?thesis using now st by simp
qed

lemma select_timeout_range: "0 \<le> select_timeout e le s \<and> select_timeout e le s \<le> KEX_REKEY_TIMEOUT"
  unfolding select_timeout_def Let_def
  by (auto simp: KEX_REKEY_TIMEOUT_def intro!: order_trans [OF update_timeout_le])

lemma checktimeouts_not_due:
  assumes "\<not> timeout_due e le s (e_now e (ses_tick s))" "limits_ok e le"
    and "kex_datarecv (ses_kexstate s) + kex_datatrans (ses_kexstate s) < KEX_REKEY_DATA"
    and "opt_keepalive_secs e \<le> 0 \<or> \<not> auth_authdone (ses_authstate s)"
  shows "checktimeouts e le k s = Inr (tick s)"
proof -
  have lim: "KEX_REKEY_TIMEOUT \<le> LONG_MAX" "AUTH_TIMEOUT \<le> LONG_MAX"
    by (simp_all add: KEX_REKEY_TIMEOUT_def AUTH_TIMEOUT_def LONG_MAX_def)
  have s: "ses_authstate (tick s) = ses_authstate s" "ses_connect_time (tick s) = ses_connect_time s" "ses_kexstate (tick s) = ses_kexstate s"
    "ses_last_packet_time_idle (tick s) = ses_last_packet_time_idle s" by (simp_all add: tick_def)
  let ?now = "e_now e (ses_tick s)"
  have "check_rekey e k ?now (tick s) = Inr (tick s)"
    using assms(1,3) unfolding check_rekey_def s timeout_due_def elapsed_ge [OF lim(1)] de_Morgan_disj by (subst if_not_P) (simp_all add: not_le)
  moreover have "check_keepalive e ?now (tick s) = Inr (tick s)"
    using assms(4) unfolding check_keepalive_def s by (subst if_not_P) auto
  ultimately show ?thesis
    using assms(1,2) by (auto simp: checktimeouts_def Let_def s timeout_due_def limits_ok_def elapsed_ge lim)
qed



text \<open>
  The keepalive of a sender that has been silent is not among the moments that \<^verbatim>\<open>select_timeout\<close> looks at: here it is due in ten seconds, and the
  loop sleeps for sixty.
\<close>

lemma keepalive_late:
  "let e = null_env\<lparr>e_now := \<lambda>_. 1000, opt_keepalive_secs := 60\<rparr>;
     s = fresh_session\<lparr>ses_authstate := zero_authstate\<lparr>auth_authdone := True\<rparr>, ses_last_packet_time_any_sent := 950,
           ses_last_packet_time_keepalive_recv := 1000\<rparr>
   in elapsed 1010 (ses_last_packet_time_any_sent s) \<ge> opt_keepalive_secs e \<and> select_timeout e slow_peer s = 60"
  unfolding Let_def
  by (simp add: fresh_loop_fields zero_kexstate_def slow_peer_def null_env_def select_timeout_cases update_timeout_cases elapsed_def LONG_MAX_def
    KEX_REKEY_TIMEOUT_def zero_authstate_def)

section \<open>Checking the timeouts is safe\<close>

lemma runs_putbytes_grown: "grown wp b \<Longrightarrow> unat n \<le> length src \<Longrightarrow> runs (grown wp) (buf_putbytes b src n)"
  by (rule runs_weaken [OF runs_putbytes]) (auto simp: grown_def)

lemma runs_putbyte_grown: "grown wp b \<Longrightarrow> runs (grown wp) (buf_putbyte b n)"
  by (rule runs_weaken [OF runs_putbyte]) (auto simp: grown_def)

lemma runs_put_algos: "grown wp b \<Longrightarrow> runs (grown wp) (put_algos b as useall donefirst)"
proof (induction as arbitrary: b donefirst)
  case Nil
  then show ?case by simp
next
  case (Cons a as)
  have "runs (grown wp) (if donefirst then buf_putbyte b comma else Inr b)" using Cons.prems by (simp add: runs_putbyte_grown)
  moreover have "runs (grown wp) (buf_putbytes b (algo_name a @ [0]) (of_nat (length (algo_name a))))" if "grown wp b" for b
    using that by (rule runs_putbytes_grown) (simp add: unat_of_nat_le le_SucI)
  ultimately show ?case using Cons by (auto intro!: runs_rbind [of "grown wp"])
qed

lemma runs_put_algolist: "grown wp b \<Longrightarrow> runs (grown wp) (buf_put_algolist b as)"
  unfolding buf_put_algolist_def buf_put_algolist_all_def Let_def
  apply (rule runs_rbind [OF runs_putint_grown], assumption)
  apply (rule runs_rbind [OF runs_put_algos], assumption)
  apply (rule runs_rbind [OF runs_setpos], simp add: grown_def)
  apply (rule runs_rbind [OF runs_putint], simp add: same_buf_def)
  by (rule runs_weaken [OF runs_incrwritepos]) (auto simp: grown_def same_buf_def)

lemma runs_cookie:
  assumes "grown wp b" "env_ok e"
  shows "runs (grown wp) (rbind (buf_getwriteptr b 16) (\<lambda>p. rbind (mem_write (buf_data b) p (e_random e t 16)) (\<lambda>d.
     buf_incrwritepos (b\<lparr>buf_data := d\<rparr>) 16)))"
proof -
  have b: "buf_wf b" using assms(1) by (simp add: grown_def)
  show ?thesis
    apply (rule runs_rbind [OF runs_getwriteptr_data [OF b]])
    using assms b by (auto simp: mem_write_def env_ok_def grown_def buf_wf_def intro!: runs_weaken [OF runs_incrwritepos])
qed

lemma runs_put_kexinit:
  assumes "buf_wf wp" "env_ok e"
  shows "runs (grown wp) (put_kexinit e t a wp)"
proof -
  have r: "put_kexinit e t a wp =
     rbind (buf_putbyte wp SSH_MSG_KEXINIT) (\<lambda>wp.
     rbind (rbind (buf_getwriteptr wp 16) (\<lambda>p. rbind (mem_write (buf_data wp) p (e_random e t 16)) (\<lambda>d.
       buf_incrwritepos (wp\<lparr>buf_data := d\<rparr>) 16))) (\<lambda>wp.
     rbind (buf_put_algolist wp (kx_sshkex a)) (\<lambda>wp.
     rbind (buf_put_algolist wp (kx_sigalgs a)) (\<lambda>wp.
     rbind (buf_put_algolist wp (kx_sshciphers a)) (\<lambda>wp.
     rbind (buf_put_algolist wp (kx_sshciphers a)) (\<lambda>wp.
     rbind (buf_put_algolist wp (kx_sshhashes a)) (\<lambda>wp.
     rbind (buf_put_algolist wp (kx_sshhashes a)) (\<lambda>wp.
     rbind (buf_put_algolist wp (kx_compress_c2s a)) (\<lambda>wp.
     rbind (buf_put_algolist wp (kx_compress_s2c a)) (\<lambda>wp.
     rbind (buf_putstring wp [0] 0) (\<lambda>wp.
     rbind (buf_putstring wp [0] 0) (\<lambda>wp.
     rbind (buf_putbyte wp (if kx_first_guess a \<noteq> None then 1 else 0)) (\<lambda>wp.
     buf_putint wp 0)))))))))))))"
    by (simp add: put_kexinit_def rbind_assoc)
  show ?thesis unfolding r
    by (intro runs_rbind [of "grown wp"])
       (rule runs_cookie runs_put_algolist runs_putstring_grown runs_putbyte_grown runs_putint_grown; (assumption | simp add: assms grown_refl))+
qed

lemma runs_send_msg_kexinit:
  assumes "ses_inv e cn s" "kx_first_guess k = None"
  shows "runs (\<lambda>s'. ses_inv e cn s' \<and> kex_sentkexinit (ses_kexstate s')) (send_msg_kexinit e k s)"
proof -
  note ok = send_ok_D [OF ses_inv_send [OF assms(1)]]
  have env: "env_ok e" using ses_inv_send [OF assms(1)] by (simp add: send_ok_def)
  have send: "runs (\<lambda>s'. send_ok e s' \<and> wp_empty s' \<and> same_core (s\<lparr>ses_transkexinit := Some tk\<rparr>) s')
      (encrypt_packet e ((tick s)\<lparr>ses_writepayload := wp, ses_transkexinit := Some tk\<rparr>))" if "grown (ses_writepayload s) wp" for wp tk
    apply (rule runs_weaken [OF runs_encrypt_packet])
    using ses_inv_send [OF assms(1)] that
    by (auto simp: send_ok_def trans_macsize_def tick_def grown_def same_core_def)
  have inv: "ses_inv e cn (s'\<lparr>ses_dataallowed := False, ses_kexstate := ks, ses_newkeys := nk\<rparr>)"
    if "send_ok e s'" "same_core (s\<lparr>ses_transkexinit := Some tk\<rparr>) s'" for s' tk ks nk
    using assms(1) that by (auto simp: ses_inv_def send_ok_def trans_macsize_def same_core_def)
  show ?thesis
    unfolding send_msg_kexinit_def Let_def
    apply (rule runs_rbind [OF runs_put_kexinit [OF ok(1) env]])
    apply (rule runs_rbind [of "\<lambda>_. True"])
     apply (use buf_newcopy_ok in \<open>fastforce simp: grown_def\<close>)
    apply (rule runs_rbind [OF send], assumption)
    by (auto simp: assms(2) upd_kexstate_def dest: inv)
qed

lemma find_ready_slot: "find_ready cs i = Some j \<Longrightarrow> i \<le> j \<and> j - i < length cs \<and> cs ! (j - i) \<noteq> None"
proof (induction cs i rule: find_ready.induct)
  case (2 cs i)
  then show ?case using Suc_diff_le [of "Suc i" j] by (auto simp: nth_Cons' Suc_diff_Suc)
next
  case (3 ch cs i)
  then show ?case by (auto simp: nth_Cons' split: if_splits)
qed simp

lemma runs_any_ready_channel:
  assumes "ses_inv e cn s"
  shows "runs (\<lambda>c. \<forall>i. c = Some i \<longrightarrow> slot s i) (get_any_ready_channel s)"
  using assms find_ready_slot [of "ses_channels s" 0] by (auto simp: get_any_ready_channel_def ses_inv_def slot_def)

lemma keepalive_length: "unat (of_nat (length ty) :: u32) \<le> length (ty @ [0 :: u8])"
  using unat_of_nat_le [of "length ty"] by simp

lemma runs_keepalive_request:
  assumes s: "ses_inv e cn s" and c: "\<forall>i. chan = Some i \<longrightarrow> slot s i"
  shows "runs (\<lambda>s'. \<exists>wp. grown (ses_writepayload s) wp \<and> s' = s\<lparr>ses_writepayload := wp\<rparr>)
    (case chan of Some i \<Rightarrow> start_send_channel_request i ty s
     | None \<Rightarrow> rbind (buf_putbyte (ses_writepayload s) m) (\<lambda>wp. rbind (buf_putstring wp (ty @ [0]) (of_nat (length ty))) (\<lambda>wp.
         Inr (s\<lparr>ses_writepayload := wp\<rparr>))))"
proof -
  let ?g = "grown (ses_writepayload s)"
  have g: "?g (ses_writepayload s)" using send_ok_D(1) [OF ses_inv_send [OF s]] by (rule grown_refl)
  note put = runs_rbind [OF runs_putbyte_grown] runs_rbind [OF runs_putint_grown] runs_rbind [OF runs_putstring_grown]
  show ?thesis
  proof (cases chan)
    case None
    show ?thesis unfolding None option.case
      by (rule put(1) [OF g], rule put(3), assumption, rule keepalive_length) auto
  next
    case (Some i)
    then obtain ch where "get_chan s i = Inr ch" using c slotE by blast
    then show ?thesis unfolding Some option.case start_send_channel_request_def
      by (simp only: rbind_simps) (rule put(1) [OF g], rule put(2), assumption, rule put(3), assumption, rule keepalive_length, auto)
  qed
qed

lemma runs_keepalive:
  assumes s: "ses_inv e cn s"
  shows "runs (\<lambda>s'. ses_inv e cn s' \<and> kex_sentkexinit (ses_kexstate s') = kex_sentkexinit (ses_kexstate s)
     \<and> ses_last_packet_time_idle s' = ses_last_packet_time_idle s) (send_msg_keepalive e s)"
proof -
  have inv: "ses_inv e cn ((tick s')\<lparr>ses_last_packet_time_keepalive_sent := x, ses_last_packet_time_idle := y\<rparr>)"
    if "ses_inv e cn s'" for s' x y
    using that by (simp add: ses_inv_def send_ok_def trans_macsize_def tick_def)
  have kex: "kex_sentkexinit (ses_kexstate s') = kex_sentkexinit (ses_kexstate s)" if "same_core s s'" for s'
  proof -
    have "(ses_kexstate s')\<lparr>kex_datatrans := 0\<rparr> = (ses_kexstate s)\<lparr>kex_datatrans := 0\<rparr>" using that by (simp add: same_core_def)
    then have "kex_sentkexinit ((ses_kexstate s')\<lparr>kex_datatrans := 0\<rparr>) = kex_sentkexinit ((ses_kexstate s)\<lparr>kex_datatrans := 0\<rparr>)" by (rule arg_cong)
    then show ?thesis by simp
  qed
  have kex': "kex_sentkexinit (ses_kexstate ((tick s')\<lparr>ses_last_packet_time_keepalive_sent := x, ses_last_packet_time_idle := y\<rparr>))
      = kex_sentkexinit (ses_kexstate s)" if "same_core s s'" for s' x y
    using kex [OF that] by (simp add: tick_def)
  show ?thesis
    unfolding send_msg_keepalive_def Let_def
    apply (rule runs_rbind [OF runs_any_ready_channel [OF s]])
    apply (rule runs_rbind [OF runs_keepalive_request [OF s]], assumption)
    apply clarsimp
    apply (subst rbind_assoc [symmetric])
    apply (rule runs_rbind [OF runs_send_inv [OF s runs_putbyte_grown]], assumption)
    by (elim conjE, simp only: runs_simps, intro conjI inv kex') simp_all
qed

lemma runs_check_keepalive:
  assumes s: "ses_inv e cn s"
  shows "runs (\<lambda>s'. ses_inv e cn s' \<and> kex_sentkexinit (ses_kexstate s') = kex_sentkexinit (ses_kexstate s)
     \<and> ses_last_packet_time_idle s' = ses_last_packet_time_idle s) (check_keepalive e now s)"
proof -
  have once: "runs (\<lambda>s'. ses_inv e cn s' \<and> kex_sentkexinit (ses_kexstate s') = kex_sentkexinit (ses_kexstate s)
     \<and> ses_last_packet_time_idle s' = ses_last_packet_time_idle s) (if c then send_msg_keepalive e s else Inr s)" if "ses_inv e cn s" for c s
    using runs_keepalive [OF that] that by simp
  show ?thesis unfolding check_keepalive_def
    apply (rule runs_if)
     apply (rule runs_rbind [OF once [OF s]])
     apply (elim conjE, rule runs_rbind [OF once], assumption)
    using s by auto
qed

lemma runs_check_rekey:
  assumes s: "ses_inv e cn s" "kx_first_guess k = None"
  shows "runs (\<lambda>s'. ses_inv e cn s' \<and> (s' = s \<or> \<not> kex_sentkexinit (ses_kexstate s) \<and> kex_sentkexinit (ses_kexstate s'))) (check_rekey e k now s)"
proof -
  have "ses_inv e cn (upd_kexstate f s)" for f using s(1) by (simp add: ses_inv_def send_ok_def trans_macsize_def upd_kexstate_def)
  then show ?thesis unfolding check_rekey_def
    using s by (auto intro!: runs_if runs_weaken [OF runs_send_msg_kexinit])
qed

text \<open>
  C28. Checking the timeouts is safe at any time: it leaves a well-formed session or ends it cleanly, without leaving a buffer or following a null
  pointer; and unless it starts a key exchange, what it sends to keep the connection alive does not put off the idle timeout.
\<close>

theorem checktimeouts_safe:
  assumes "ses_inv e cn s" "kx_first_guess k = None"
  shows "runs (\<lambda>s'. ses_inv e cn s' \<and> (kex_sentkexinit (ses_kexstate s') = kex_sentkexinit (ses_kexstate s) \<longrightarrow>
     ses_last_packet_time_idle s' = ses_last_packet_time_idle s)) (checktimeouts e le k s)"
proof -
  have t: "ses_inv e cn (tick s)" "kex_sentkexinit (ses_kexstate (tick s)) = kex_sentkexinit (ses_kexstate s)"
    "ses_last_packet_time_idle (tick s) = ses_last_packet_time_idle s" using assms(1) by (simp_all add: tick_def ses_inv_def send_ok_def trans_macsize_def)
  let ?P = "\<lambda>s'. ses_inv e cn s' \<and> (kex_sentkexinit (ses_kexstate s') = kex_sentkexinit (ses_kexstate s) \<longrightarrow>
     ses_last_packet_time_idle s' = ses_last_packet_time_idle s)"
  have stop: "runs P (if a then Inl (Close x) else if b then Inl (Close y) else Inr s')" if "P s'" for a b x y P s'
    using that by simp
  have alive: "runs ?P (rbind (check_keepalive e now x) (\<lambda>s. if a s then Inl (Close c) else if b s then Inl (Close d) else Inr s))"
    if x: "ses_inv e cn x" "?P x" for now x a b c d
    by (rule runs_rbind [OF runs_check_keepalive [OF x(1)]], rule stop) (use x(2) in simp)
  have rekey: "?P x" if "ses_inv e cn x \<and> (x = tick s \<or> \<not> kex_sentkexinit (ses_kexstate (tick s)) \<and> kex_sentkexinit (ses_kexstate x))" for x
    using that t by auto
  have go: "runs ?P (rbind (check_rekey e k now (tick s)) (\<lambda>s. rbind (check_keepalive e now s)
      (\<lambda>s. if a s then Inl (Close c) else if b s then Inl (Close d) else Inr s)))" for now a b c d
    by (rule runs_rbind [OF runs_check_rekey [OF t(1) assms(2)]], rule alive, blast, erule rekey)
  have start: "runs ?P (Inr (tick s))" "runs ?P (Inl (Close x))" for x using t by simp_all
  show ?thesis unfolding checktimeouts_def Let_def by (intro runs_if start go)
qed

theorem checktimeouts_safe_witness:
  "\<forall>k :: (unit, unit) kex_env. runs (\<lambda>s'. ses_inv null_env demo_chan_env s' \<and> (kex_sentkexinit (ses_kexstate s') = kex_sentkexinit (ses_kexstate (demo_session []))
     \<longrightarrow> ses_last_packet_time_idle s' = ses_last_packet_time_idle (demo_session [])))
     (checktimeouts null_env slow_peer (k\<lparr>kx_first_guess := None\<rparr>) (demo_session []))"
  using checktimeouts_safe [of null_env demo_chan_env "demo_session []"] demo_inv [of "[]" "e_read null_env"] null_env_ok by simp

end
