(* ===== verification/Spec2Isabelle.thy ===== *)
theory Spec2Isabelle
  imports Buffer Circbuffer DBQueue Algo Session Outcome Packet Packet_Recv Packet_Safe Packet_Write
    Process_Packet Kex Kex_Keys Kex_Init Packet_Send Netio Channel Channel_Safe Channel_Data
    Channel_Props Pubkey_Options Pubkey_Options_Spec Listener Forward Forward_Safe Connections Forward_Global Server
    Base64 Sign_Key Authorized_Keys Authorized_Keys_Spec Auth Auth_Props
    Sign_Key_Props Sign_Key_Safe Auth_Sound Session_Loop
begin

text \<open>
  A verification library for the Dropbear SSH server that this platform ships
  (\<^verbatim>\<open>src/packages/dropbear-2026.91/source/src\<close>), in the configuration of its \<^verbatim>\<open>default_options.h\<close> and
  \<^verbatim>\<open>sysoptions.h\<close>. It is the program of the image that gives access over the network, and everything that it
  reads comes from a peer that may be hostile.

  \<^bold>\<open>The program.\<close> One process serves one connection. \<^verbatim>\<open>read_packet\<close> takes bytes from the socket, decrypts and
  authenticates them and queues a payload; \<^verbatim>\<open>process_packet\<close> checks that the message is allowed now and calls its handler
  from the table of \<^verbatim>\<open>svr-session.c\<close>; handlers build replies in \<^verbatim>\<open>ses.writepayload\<close>, and \<^verbatim>\<open>encrypt_packet\<close> pads, encrypts and
  queues them for \<^verbatim>\<open>write_packet\<close>. The first messages negotiate algorithms and exchange keys
  (\<^verbatim>\<open>common-kex.c\<close>, \<^verbatim>\<open>svr-kex.c\<close>); then the user is authenticated (\<^verbatim>\<open>svr-auth.c\<close> and the files of the methods), by a
  password or by a key of \<^verbatim>\<open>authorized_keys\<close>; then channels carry data between the peer and descriptors
  (\<^verbatim>\<open>common-channel.c\<close>), among them those of forwarded connections (\<^verbatim>\<open>svr-tcpfwd.c\<close>, \<^verbatim>\<open>svr-streamfwd.c\<close>,
  \<^verbatim>\<open>tcp-accept.c\<close>), whose listening sockets and connections in progress are kept by \<^verbatim>\<open>listener.c\<close> and \<^verbatim>\<open>netio.c\<close>.

  \<^bold>\<open>How C is rendered.\<close>

  \<^item> A struct is a record, \<^verbatim>\<open>struct sshsession\<close> is the record \<open>session\<close>, passed and returned; a field keeps the width it has
    in C (\<open>u8\<close>, \<open>u32\<close>), so the guards against overflow are what the proofs rest on. Enumerations and tagged unions are datatypes.
  \<^item> A function returns \<open>'a res\<close>: a value, or the reason why the process ends. \<open>Exit\<close>, \<open>Close\<close> and \<open>AssertFail\<close> are the ends
    that the code has; \<open>OutOfBounds\<close>, \<open>NullDeref\<close>, \<open>DivByZero\<close> and \<open>Diverge\<close> mark what C leaves undefined and loops that never
    end, and the safety theorems exclude them.
  \<^item> Pointers into a buffer are offsets; a channel, listener or connection is the number of its slot in the table that the code has;
    \<^verbatim>\<open>queue.c\<close>, which is about links, runs in an explicit heap. File descriptors are integers; what is written,
    closed or waited for is recorded in \<open>ses_trace\<close>.
  \<^item> What is outside Dropbear is an argument with documented behaviour as hypotheses: \<open>env\<close> (random bytes, clock, socket calls, HMAC, zlib;
    \<open>env_ok\<close>), \<open>net\<close> (resolver and connections; \<open>net_ok\<close>), \<open>kex_env\<close> and \<open>dh_env\<close> (tables of algorithms, hash functions, shared secrets), \<open>key_env\<close> (hashes, point arithmetic,
    Ed25519; \<open>key_env_ok\<close>), \<open>auth_env\<close> (user databases, file system, \<^verbatim>\<open>crypt\<close>, identity of the process), \<open>loop_env\<close> (\<^verbatim>\<open>select\<close>). \<open>ses_tick\<close> numbers the
    calls, so that two calls may answer differently. The \<^verbatim>\<open>mp_int\<close> of libtommath is \<open>int\<close>.
  \<^item> Loops are recursive functions with a measure, and no fuel is used. Where the end of a loop depends on an invariant of
    the data (the lines of a file, the rounds of storing data, the reductions of an ECDSA signature), a round without progress is \<open>Diverge\<close>, and a lemma shows that it does not happen. The
    loops that wait for good random numbers (\<^verbatim>\<open>gen_random_mpint\<close>, \<^verbatim>\<open>buf_put_ecdsa_sign\<close>) or for the peer (\<^verbatim>\<open>ident_readln\<close>) are \<open>partial_function (option)\<close>:
    \<open>None\<close> is a loop that never ends, and the theorems say when there is a result.

  \<^bold>\<open>Foundations.\<close>

  \<^item> \<open>DB_Prelude\<close>: machine types, the result type and its sequencing, raw memory, C strings, lemmas on words.
  \<^item> \<open>Buffer\<close>: \<^verbatim>\<open>buffer.c\<close>, with the libtommath functions that it calls. Well-formedness, what each operation does to the
    unread and the stored bytes, safety over any sequence of calls, round trips.
  \<^item> \<open>Outcome\<close>: the calculus \<open>runs\<close> in which the safety proofs are done: a call returns a value with a property or ends the process
    cleanly; one rule per buffer operation.
  \<^item> \<open>Fifo\<close>: the locale \<open>fifo\<close>, the contract of a queue, with what follows for any sequence of insertions and removals.
    \<open>Circbuffer\<close> (\<^verbatim>\<open>circbuffer.c\<close>) and \<open>DBQueue\<close> (\<^verbatim>\<open>queue.c\<close>) interpret it (\<open>ring\<close>, \<open>link_queue\<close>); later theories hold queues as lists.
  \<^item> \<open>Algo\<close>: the name-lists of \<^verbatim>\<open>common-algo.c\<close>: parsing, matching, restricting.
  \<^item> \<open>Session\<close>: the state of \<^verbatim>\<open>session.h\<close>, \<^verbatim>\<open>auth.h\<close>, \<^verbatim>\<open>channel.h\<close>, \<^verbatim>\<open>kex.h\<close>, \<^verbatim>\<open>listener.h\<close> and the environment.

  \<^bold>\<open>Transport.\<close>

  \<^item> \<open>Packet\<close>: \<^verbatim>\<open>packet.c\<close> with the queue functions of \<^verbatim>\<open>netio.c\<close>: what \<^verbatim>\<open>encrypt_packet\<close> queues. \<open>Packet_Recv\<close>: what is
    received is what was sent. \<open>Packet_Safe\<close>: any bytes from the peer are read inside the buffers, and no packet with a wrong MAC
    is delivered. \<open>Packet_Send\<close>: sending is safe for all modes. \<open>Packet_Write\<close>: the output stream is neither cut nor reordered.
  \<^item> \<open>Process_Packet\<close>: \<^verbatim>\<open>process-packet.c\<close>: what is refused before authentication and under strict key exchange.
  \<^item> \<open>Kex\<close>: \<^verbatim>\<open>common-kex.c\<close>, \<^verbatim>\<open>kex-dh.c\<close>, \<^verbatim>\<open>svr-kex.c\<close>, the algorithm restriction of \<^verbatim>\<open>svr-runopts.c\<close>. \<open>Kex_Keys\<close>: derivation as in RFC 4253, agreement of both
    sides, the moment at which keys change. \<open>Kex_Init\<close>: negotiation on any payload, and what the exchange hash covers.

  \<^bold>\<open>Authentication.\<close>

  \<^item> \<open>Base64\<close>: libtomcrypt's encoder and decoders. \<open>Random_Mpint\<close>: \<^verbatim>\<open>gen_random_mpint\<close>.
  \<^item> \<open>Sign_Names\<close>, \<open>Ecc_Key\<close>, \<open>Sign_Key\<close>: \<^verbatim>\<open>signkey.c\<close>, \<^verbatim>\<open>rsa.c\<close>, \<^verbatim>\<open>ecc.c\<close>, \<^verbatim>\<open>ecdsa.c\<close>, \<^verbatim>\<open>ed25519.c\<close>, \<^verbatim>\<open>sk-ecdsa.c\<close>,
    \<^verbatim>\<open>sk-ed25519.c\<close>. \<open>Sign_Key_Props\<close>: signatures verify, keys survive writing and reading, only points of the curve are read.
    \<open>Sign_Key_Safe\<close>: the same code on arbitrary input.
  \<^item> \<open>Pubkey_Options\<close> and \<open>Pubkey_Options_Spec\<close>: \<^verbatim>\<open>svr-authpubkeyoptions.c\<close>, with the meaning of option lists as the reference.
  \<^item> \<open>Authorized_Keys\<close> and \<open>Authorized_Keys_Spec\<close>: the file part of \<^verbatim>\<open>svr-authpubkey.c\<close>, with the meaning of a line and of a file as
    functions on text that the code is shown to compute.
  \<^item> \<open>Auth\<close>: \<^verbatim>\<open>svr-auth.c\<close>, \<^verbatim>\<open>svr-authpasswd.c\<close>, \<^verbatim>\<open>svr-authpubkey.c\<close>, \<^verbatim>\<open>svr-service.c\<close>. \<open>Auth_Props\<close>: accounts, the refusal of a changed
    user name, the invariant of handling a request. \<open>Auth_Sound\<close>: requests are handled safely; whoever is authenticated has shown a credential of an account
    that may log in, over any run of requests (\<open>auth_run\<close>, a step relation with an invariant by rule induction); failures are delayed and limited.

  \<^bold>\<open>Connection protocol.\<close>

  \<^item> \<open>Netio\<close>: connections in progress and listening sockets of \<^verbatim>\<open>netio.c\<close>. \<open>Listener\<close>: \<^verbatim>\<open>listener.c\<close>.
  \<^item> \<open>Channel\<close>: \<^verbatim>\<open>common-channel.c\<close>. \<open>Channel_Safe\<close>: the invariant \<open>ses_inv\<close> (tables, windows, buffers) and the locale \<open>chan_handlers\<close>, the
    contract of the functions of a channel type. \<open>Channel_Data\<close> and \<open>Channel_Props\<close>: data is neither lost nor reordered, and windows are respected.
  \<^item> \<open>Forward\<close>: \<^verbatim>\<open>svr-tcpfwd.c\<close>, \<^verbatim>\<open>svr-streamfwd.c\<close>, \<^verbatim>\<open>tcp-accept.c\<close>, \<^verbatim>\<open>svr-forward.c\<close>, and accepting in
    \<^verbatim>\<open>svr-agentfwd.c\<close>. \<open>Forward_Safe\<close> interprets \<open>chan_handlers\<close> (\<open>fwd\<close>) and the locale \<open>acceptors\<close> (\<open>fwd_acc\<close>) on these functions.
    \<open>Connections\<close>: the loops over connections, in the locales \<open>conn_callbacks\<close> and \<open>conn_handlers\<close>, which extends \<open>chan_handlers\<close>
    (\<open>fwd_cb\<close>, \<open>fwd_conn\<close>). \<open>Forward_Global\<close>: the global requests, and the two that go wrong.
  \<^item> \<open>Server\<close>: the table of handlers, and safety over any run of packets, connection passes and channel passes (\<open>conn_run\<close>).

  \<^item> \<open>Session_Loop\<close>: \<^verbatim>\<open>common-session.c\<close>: the exchange of identifications, the timeouts, and a round of \<^verbatim>\<open>session_loop\<close>, which
    composes the theories above. Reading the identification ends, nobody stays unauthenticated beyond the limit, the loop wakes in time, and
    checking timeouts keeps the invariant.

  \<^bold>\<open>What the theorems say together.\<close> Bytes of the network reach a handler only as an authenticated payload of an
  allowed type (\<open>Packet_Safe\<close>, \<open>Process_Packet\<close>); no payload makes reading, negotiation, authentication or the connection
  protocol leave a buffer, follow a null pointer or hang (\<open>Packet_Safe\<close>, \<open>Kex_Init\<close>, \<open>Auth_Sound\<close>, \<open>Server\<close>), but for a refused
  request to forward a Unix socket, which does follow a null pointer (\<open>Forward_Global\<close>); only credentials authenticate
  (\<open>Auth_Sound\<close>, over the keys and options that \<open>Authorized_Keys_Spec\<close> and \<open>Pubkey_Options_Spec\<close> describe); and an honest peer gets what was
  sent (\<open>Packet_Recv\<close>, \<open>Kex_Keys\<close>, \<open>Sign_Key_Props\<close>, \<open>Channel_Props\<close>).

  \<^bold>\<open>Not modelled.\<close>

  \<^item> BusyBox and rt-tests are vendored packages that the image only includes; the image is built by shell scripts. None of
    their code is part of the server.
  \<^item> Ciphers, hashes, AEAD modes, elliptic curve and Ed25519 arithmetic, ECDH and the post-quantum methods, zlib, the collection of entropy: parameters, as said above. Properties that need more
    of them than their types (that decryption inverts encryption, that the two sides of an exchange agree) state it as a hypothesis.
  \<^item> Shells, commands, terminals and login records (\<^verbatim>\<open>svr-chansession.c\<close>, \<^verbatim>\<open>sshpty.c\<close>, \<^verbatim>\<open>loginrec.c\<close>), the daemon
    (\<^verbatim>\<open>svr-main.c\<close>), \<^verbatim>\<open>select\<close> itself, the reading of options and host keys, the
    creation of the agent's socket: sequences of system calls. Channels of sessions enter through the contract \<open>chan_handlers\<close>.
  \<^item> The client, scp, the key tools and foreign key formats are other programs; the code they share with the server is modelled with the
    flag that tells them apart. PAM, plugins, DSS, SHA-1 signatures and X11 are not compiled in.
  \<^item> Logging, the wiping and freeing of memory (a freed object is one that is no longer in the state, except in \<^verbatim>\<open>queue.c\<close>), the
    fingerprint of a key in a log line, and timing, except for the delay after a failed authentication.
\<close>

end
